(* ===== verification/Prelude.thy ===== *)
theory Prelude
  imports Complex_Main "HOL-Library.Char_ord" "HOL-Library.List_Lexorder"
begin

text \<open>
  The prelude: the part of the JavaScript standard library that the modelled
  modules share, with its lemmas.

  A JavaScript string is a \<open>string\<close> that holds its UTF-8 bytes, one \<open>char\<close> per
  byte; ASCII text, which is what identifiers, tokens and storage keys are made of,
  is written as a literal. Where the source counts or reads UTF-16 code units
  (\<open>length\<close>, \<open>charCodeAt\<close>) the model decodes first (\<open>utf16_length\<close>,
  \<open>utf16_units\<close>). White space is the whole set of the language standard. Case
  mapping is modelled on the ASCII letters; every other character is left as it is.

  Numbers are \<open>int\<close> or \<open>nat\<close> where the source only ever holds integers, and
  \<open>real\<close> where it divides or takes roots: rounding of doubles is not modelled.
\<close>

named_theorems js_defs \<open>unfolding rules of the shared library functions\<close>

section \<open>Lists\<close>

text \<open>\<open>[...new Set(xs)]\<close>: the first occurrence of every element, in order.\<close>

fun uniq_from :: "'a set \<Rightarrow> 'a list \<Rightarrow> 'a list" where
  "uniq_from seen [] = []"
| "uniq_from seen (x # xs) =
     (if x \<in> seen then uniq_from seen xs else x # uniq_from (insert x seen) xs)"

definition uniq :: "'a list \<Rightarrow> 'a list" where
  "uniq xs = uniq_from {} xs"

text \<open>\<open>Array.prototype.indexOf\<close>: the first position, or -1.\<close>

fun index_of :: "'a \<Rightarrow> 'a list \<Rightarrow> int" where
  "index_of a [] = -1"
| "index_of a (x # xs) =
     (if x = a then 0 else (let i = index_of a xs in if i < 0 then -1 else i + 1))"

text \<open>\<open>xs[i]\<close> with \<open>undefined\<close> as \<open>None\<close>, for any integer index.\<close>

definition elem_at :: "'a list \<Rightarrow> int \<Rightarrow> 'a option" where
  "elem_at xs i = (if 0 \<le> i \<and> i < int (length xs) then Some (xs ! nat i) else None)"

text \<open>\<open>a ?? b\<close>.\<close>

definition or_else :: "'a option \<Rightarrow> 'a \<Rightarrow> 'a" where
  "or_else a b = (case a of None \<Rightarrow> b | Some x \<Rightarrow> x)"

text \<open>JavaScript truth of an optional string: null, undefined and the empty string are false.\<close>

definition truthy :: "string option \<Rightarrow> string option" where
  "truthy a = (case a of None \<Rightarrow> None | Some s \<Rightarrow> if s = [] then None else Some s)"

text \<open>
  \<open>key in obj\<close> for an object literal also finds the properties every object inherits.
\<close>

definition object_prototype_keys :: "string list" where
  "object_prototype_keys =
     [''constructor'', ''__defineGetter__'', ''__defineSetter__'', ''hasOwnProperty'',
      ''__lookupGetter__'', ''__lookupSetter__'', ''isPrototypeOf'', ''propertyIsEnumerable'',
      ''toString'', ''valueOf'', ''__proto__'', ''toLocaleString'']"

definition key_in :: "string \<Rightarrow> string list \<Rightarrow> bool" where
  "key_in k own \<longleftrightarrow> k \<in> set own \<or> k \<in> set object_prototype_keys"

section \<open>Characters and strings\<close>

abbreviation code :: "char \<Rightarrow> nat" where
  "code c \<equiv> of_char c"

definition is_digit :: "char \<Rightarrow> bool" where
  "is_digit c \<longleftrightarrow> 48 \<le> code c \<and> code c \<le> 57"

definition is_lower :: "char \<Rightarrow> bool" where
  "is_lower c \<longleftrightarrow> 97 \<le> code c \<and> code c \<le> 122"

definition is_upper :: "char \<Rightarrow> bool" where
  "is_upper c \<longleftrightarrow> 65 \<le> code c \<and> code c \<le> 90"

definition is_alpha :: "char \<Rightarrow> bool" where
  "is_alpha c \<longleftrightarrow> is_lower c \<or> is_upper c"

definition is_alnum :: "char \<Rightarrow> bool" where
  "is_alnum c \<longleftrightarrow> is_alpha c \<or> is_digit c"

definition lower_char :: "char \<Rightarrow> char" where
  "lower_char c = (if is_upper c then char_of (code c + 32) else c)"

definition upper_char :: "char \<Rightarrow> char" where
  "upper_char c = (if is_lower c then char_of (code c - 32) else c)"

definition to_lower :: "string \<Rightarrow> string" where
  "to_lower s = map lower_char s"

definition to_upper :: "string \<Rightarrow> string" where
  "to_upper s = map upper_char s"

definition starts_with :: "string \<Rightarrow> string \<Rightarrow> bool" where
  "starts_with p s \<longleftrightarrow> take (length p) s = p"

text \<open>\<open>s.includes(t)\<close>.\<close>

fun includes_str :: "string \<Rightarrow> string \<Rightarrow> bool" where
  "includes_str t [] \<longleftrightarrow> t = []"
| "includes_str t (c # s) \<longleftrightarrow> starts_with t (c # s) \<or> includes_str t s"

text \<open>\<open>s.split(c)\<close> on one character: never empty, \<open>''\<close> gives one empty field.\<close>

fun split_on :: "char \<Rightarrow> string \<Rightarrow> string list" where
  "split_on d [] = [[]]"
| "split_on d (c # s) =
     (if c = d then [] # split_on d s
      else (case split_on d s of [] \<Rightarrow> [[c]] | f # fs \<Rightarrow> (c # f) # fs))"

text \<open>The text before the first occurrence of a mark, and what follows it, if it occurs.\<close>

fun break_at :: "string \<Rightarrow> string \<Rightarrow> string \<times> string option" where
  "break_at mark [] = ([], None)"
| "break_at mark (c # s) =
     (if starts_with mark (c # s) then ([], Some (drop (length mark) (c # s)))
      else (case break_at mark s of (before, after) \<Rightarrow> (c # before, after)))"

lemma starts_with_split: "starts_with p s \<Longrightarrow> s = p @ drop (length p) s"
  unfolding starts_with_def by (metis append_take_drop_id)

lemma break_at_joins:
  "break_at mark s = (before, after) \<Longrightarrow>
   s = before @ (case after of None \<Rightarrow> [] | Some rest \<Rightarrow> mark @ rest)"
proof (induction s arbitrary: before after)
  case (Cons c s)
  show ?case
  proof (cases "starts_with mark (c # s)")
    case True
    then show ?thesis using Cons.prems starts_with_split [OF True] by auto
  qed (use Cons in \<open>auto split: prod.splits\<close>)
qed simp

text \<open>\<open>fields.join(sep)\<close>.\<close>

fun join_with :: "string \<Rightarrow> string list \<Rightarrow> string" where
  "join_with sep [] = []"
| "join_with sep [f] = f"
| "join_with sep (f # g # fs) = f @ sep @ join_with sep (g # fs)"

text \<open>\<open>s.replace(/\/+$/, '')\<close>.\<close>

definition strip_slashes :: "string \<Rightarrow> string" where
  "strip_slashes path = rev (dropWhile (\<lambda>c. c = CHR ''/'') (rev path))"

text \<open>Decimal digits of a natural number, as \<open>String(n)\<close> prints it.\<close>

definition digit_char :: "nat \<Rightarrow> char" where
  "digit_char d = char_of (48 + d)"

fun show_nat :: "nat \<Rightarrow> string" where
  "show_nat n = (if n < 10 then [digit_char n] else show_nat (n div 10) @ [digit_char (n mod 10)])"

declare show_nat.simps [simp del]

definition show_int :: "int \<Rightarrow> string" where
  "show_int i = (if i < 0 then CHR ''-'' # show_nat (nat (- i)) else show_nat (nat i))"

text \<open>\<open>Number(s)\<close> on a string of decimal digits.\<close>

definition read_nat :: "string \<Rightarrow> nat" where
  "read_nat s = foldl (\<lambda>n c. 10 * n + (code c - 48)) 0 s"

text \<open>
  The length in bytes of the white space character at the front, 0 when there is none:
  TAB, LF, VT, FF, CR, SP, U+00A0, U+1680, U+2000 to U+200A, U+2028, U+2029, U+202F,
  U+205F, U+3000 and U+FEFF.
\<close>

fun space_at :: "nat list \<Rightarrow> nat" where
  "space_at [] = 0"
| "space_at (a # r) =
     (if (9 \<le> a \<and> a \<le> 13) \<or> a = 32 then 1
      else case r of
        [] \<Rightarrow> 0
      | b # r' \<Rightarrow>
          if a = 194 \<and> b = 160 then 2
          else case r' of
            [] \<Rightarrow> 0
          | c # _ \<Rightarrow>
              if (a = 225 \<and> b = 154 \<and> c = 128)
                 \<or> (a = 226 \<and> b = 128 \<and> (128 \<le> c \<and> c \<le> 138 \<or> c = 168 \<or> c = 169 \<or> c = 175))
                 \<or> (a = 226 \<and> b = 129 \<and> c = 159)
                 \<or> (a = 227 \<and> b = 128 \<and> c = 128)
                 \<or> (a = 239 \<and> b = 187 \<and> c = 191) then 3
              else 0)"

abbreviation space_len :: "string \<Rightarrow> nat" where
  "space_len s \<equiv> space_at (map of_char s)"

function trim_start :: "string \<Rightarrow> string" where
  "trim_start s = (if s = [] \<or> space_len s = 0 then s else trim_start (drop (space_len s) s))"
  by pat_completeness auto
termination
  by (relation "measure length") auto

declare trim_start.simps [simp del]

fun trim_end :: "string \<Rightarrow> string" where
  "trim_end [] = []"
| "trim_end (c # s) = (if trim_start (c # s) = [] then [] else c # trim_end s)"

definition trim :: "string \<Rightarrow> string" where
  "trim s = trim_end (trim_start s)"

text \<open>Whether any white space character occurs (the negation of \<open>/^\S*$/\<close>).\<close>

fun has_space :: "string \<Rightarrow> bool" where
  "has_space [] \<longleftrightarrow> False"
| "has_space (c # s) \<longleftrightarrow> 0 < space_len (c # s) \<or> has_space s"

text \<open>\<open>s.split(/\s+/).filter(Boolean)\<close>: the words between runs of white space.\<close>

function words_from :: "string \<Rightarrow> string \<Rightarrow> string list" where
  "words_from cur s =
     (case s of
        [] \<Rightarrow> (if cur = [] then [] else [rev cur])
      | c # r \<Rightarrow>
          (if space_len s = 0 then words_from (c # cur) r
           else (if cur = [] then [] else [rev cur]) @ words_from [] (drop (space_len s) s)))"
  by pat_completeness auto
termination
  by (relation "measure (\<lambda>(cur, s). length s)") auto

declare words_from.simps [simp del]

definition words_of :: "string \<Rightarrow> string list" where
  "words_of s = words_from [] s"

text \<open>
  UTF-16: a byte that continues a character adds no code unit, the lead byte of a
  four byte character adds two.
\<close>

definition utf16_length :: "string \<Rightarrow> nat" where
  "utf16_length s =
     sum_list (map (\<lambda>c. if 128 \<le> code c \<and> code c < 192 then 0
                        else if 240 \<le> code c then 2 else 1) s)"

fun utf16_bytes :: "nat list \<Rightarrow> nat list" where
  "utf16_bytes (a # b # c # d # r) =
     (if a < 192 then a # utf16_bytes (b # c # d # r)
      else if a < 224 then ((a - 192) * 64 + (b - 128)) # utf16_bytes (c # d # r)
      else if a < 240 then ((a - 224) * 4096 + (b - 128) * 64 + (c - 128)) # utf16_bytes (d # r)
      else (let p = (a - 240) * 262144 + (b - 128) * 4096 + (c - 128) * 64 + (d - 128) - 65536
            in (55296 + p div 1024) # (56320 + p mod 1024) # utf16_bytes r))"
| "utf16_bytes (a # b # c # r) =
     (if a < 192 then a # utf16_bytes (b # c # r)
      else if a < 224 then ((a - 192) * 64 + (b - 128)) # utf16_bytes (c # r)
      else ((a - 224) * 4096 + (b - 128) * 64 + (c - 128)) # utf16_bytes r)"
| "utf16_bytes (a # b # r) =
     (if a < 192 then a # utf16_bytes (b # r) else ((a - 192) * 64 + (b - 128)) # utf16_bytes r)"
| "utf16_bytes [a] = [a]"
| "utf16_bytes [] = []"

abbreviation utf16_units :: "string \<Rightarrow> nat list" where
  "utf16_units s \<equiv> utf16_bytes (map of_char s)"

section \<open>Lemmas\<close>

lemma set_uniq_from: "set (uniq_from seen xs) = set xs - seen"
  by (induction seen xs rule: uniq_from.induct) auto

lemma distinct_uniq_from: "distinct (uniq_from seen xs)"
  by (induction seen xs rule: uniq_from.induct) (auto simp: set_uniq_from)

lemma set_uniq [simp]: "set (uniq xs) = set xs"
  by (simp add: uniq_def set_uniq_from)

lemma distinct_uniq [simp]: "distinct (uniq xs)"
  by (simp add: uniq_def distinct_uniq_from)

lemma uniq_from_distinct:
  "distinct xs \<Longrightarrow> set xs \<inter> seen = {} \<Longrightarrow> uniq_from seen xs = xs"
  by (induction seen xs rule: uniq_from.induct) auto

lemma uniq_distinct [simp]: "distinct xs \<Longrightarrow> uniq xs = xs"
  by (simp add: uniq_def uniq_from_distinct)

lemma length_uniq_from: "length (uniq_from seen xs) \<le> length xs"
  by (induction seen xs rule: uniq_from.induct) auto

lemma length_uniq: "length (uniq xs) \<le> length xs"
  by (simp add: uniq_def length_uniq_from)

lemma index_of_range: "-1 \<le> index_of a xs \<and> index_of a xs < int (length xs)"
  by (induction xs) (auto simp: Let_def)

lemma index_of_neg [simp]: "index_of a xs < 0 \<longleftrightarrow> a \<notin> set xs"
  by (induction xs) (auto simp: Let_def)

lemma index_of_nonneg [simp]: "0 \<le> index_of a xs \<longleftrightarrow> a \<in> set xs"
  using index_of_neg [of a xs] by linarith

lemma index_of_absent: "a \<notin> set xs \<Longrightarrow> index_of a xs = -1"
  using index_of_neg [of a xs] index_of_range [of a xs] by linarith

lemma nth_index_of: "a \<in> set xs \<Longrightarrow> xs ! nat (index_of a xs) = a"
  by (induction xs) (auto simp: Let_def nat_add_distrib)

lemma elem_at_index_of: "a \<in> set xs \<Longrightarrow> elem_at xs (index_of a xs) = Some a"
  using index_of_range [of a xs] by (simp add: elem_at_def nth_index_of)

lemma at_Some_set: "elem_at xs i = Some x \<Longrightarrow> x \<in> set xs"
  by (auto simp: elem_at_def split: if_splits)

lemma or_else_simps [simp]: "or_else None b = b" "or_else (Some a) b = a"
  by (simp_all add: or_else_def)

lemma truthy_Some: "truthy a = Some s \<longleftrightarrow> a = Some s \<and> s \<noteq> []"
  by (auto simp: truthy_def split: option.splits)

lemma truthy_None: "truthy a = None \<longleftrightarrow> a = None \<or> a = Some []"
  by (auto simp: truthy_def split: option.splits)

lemma filter_neq_absent: "a \<notin> set xs \<Longrightarrow> filter (\<lambda>x. x \<noteq> a) xs = xs"
  by (induction xs) auto

lemma length_filter_bound: "length xs \<le> n \<Longrightarrow> length (filter P xs) \<le> n"
  using length_filter_le [of P xs] by linarith

lemma code_less: "code c < 256"
  by simp

lemma split_on_ne [simp]: "split_on d s \<noteq> []"
  by (cases s) (auto split: list.splits)

lemma split_on_plain: "d \<notin> set s \<Longrightarrow> split_on d s = [s]"
  by (induction s) auto

lemma split_on_append:
  "d \<notin> set f \<Longrightarrow> split_on d (f @ d # s) = f # split_on d s"
  by (induction f) auto

lemma split_join:
  "fs \<noteq> [] \<Longrightarrow> \<forall>f \<in> set fs. d \<notin> set f \<Longrightarrow> split_on d (join_with [d] fs) = fs"
  by (induction "[d]" fs rule: join_with.induct) (auto simp: split_on_plain split_on_append)

lemma starts_with_iff: "starts_with p s \<longleftrightarrow> (\<exists>t. s = p @ t)"
  unfolding starts_with_def by (metis append_eq_conv_conj append_take_drop_id)

lemma starts_with_append [simp]: "starts_with p (p @ s)"
  by (simp add: starts_with_def)

lemma includes_str_prefix: "starts_with w s \<Longrightarrow> includes_str w s"
  by (cases s) (auto simp: starts_with_def)

lemma includes_str_append: "includes_str w (a @ w @ b)"
  by (induction a) (simp_all add: includes_str_prefix)

lemma includes_str_iff: "includes_str w t \<longleftrightarrow> (\<exists>a b. t = a @ w @ b)"
proof
  show "includes_str w t \<Longrightarrow> \<exists>a b. t = a @ w @ b"
  proof (induction t)
    case (Cons c t)
    show ?case
    proof (cases "starts_with w (c # t)")
      case True
      then have "c # t = [] @ w @ drop (length w) (c # t)"
        by (metis append_Nil append_take_drop_id starts_with_def)
      then show ?thesis by blast
    next
      case False
      then obtain a b where "t = a @ w @ b" using Cons by auto
      then have "c # t = (c # a) @ w @ b" by simp
      then show ?thesis by blast
    qed
  qed simp
qed (auto simp: includes_str_append)

lemma starts_with_barrier:
  assumes "x \<notin> set h" and "starts_with h (p @ x # s)"
  shows "starts_with h p"
proof (cases "length h \<le> length p")
  case False
  then have "h ! length p = (p @ x # s) ! length p"
    using assms(2) unfolding starts_with_def by (metis linorder_not_le nth_take)
  then show ?thesis using assms(1) False by (metis linorder_not_le nth_append_length nth_mem)
qed (use assms(2) in \<open>simp add: starts_with_def\<close>)

lemma to_lower_idem [simp]: "to_lower (to_lower s) = to_lower s"
proof -
  have "lower_char (lower_char c) = lower_char c" for c
    by (auto simp: lower_char_def is_upper_def)
  then show ?thesis by (simp add: to_lower_def)
qed

lemma strip_slashes_last: "strip_slashes p = [] \<or> last (strip_slashes p) \<noteq> CHR ''/''"
proof (cases "dropWhile (\<lambda>c. c = CHR ''/'') (rev p) = []")
  case False
  then have "hd (dropWhile (\<lambda>c. c = CHR ''/'') (rev p)) \<noteq> CHR ''/''" by (rule hd_dropWhile)
  then show ?thesis by (simp add: strip_slashes_def last_rev)
qed (simp add: strip_slashes_def)

text \<open>White space at the end: a suffix of it can be added or removed.\<close>

lemma space_len_append_line: "s \<noteq> [] \<Longrightarrow> space_len (s @ [CHR 0x0A]) = space_len s"
proof -
  assume "s \<noteq> []"
  then obtain a r where "s = a # r" by (cases s) auto
  then show ?thesis by (cases r; cases "tl r") auto
qed

lemma trim_start_line: "trim_start (s @ [CHR 0x0A]) = [] \<longleftrightarrow> trim_start s = []"
proof (induction s rule: trim_start.induct)
  case (1 s)
  show ?case
  proof (cases "s = []")
    case False
    have len: "space_len s \<le> length s" if "s \<noteq> []"
      using that by (cases s; cases "tl s"; cases "tl (tl s)") (auto)
    show ?thesis
      using 1 False len space_len_append_line [OF False]
      by (subst (1 2) trim_start.simps) auto
  qed (simp add: trim_start.simps [of "[_]"] trim_start.simps [of "[]"])
qed

lemma trim_end_line [simp]: "trim_end (s @ [CHR 0x0A]) = trim_end s"
proof (induction s)
  case (Cons c s)
  then show ?case using trim_start_line [of "c # s"] by simp
qed (simp add: trim_start.simps)

lemma space_len_append: "0 < space_len s \<Longrightarrow> space_len (s @ t) = space_len s \<and> space_len s \<le> length s"
  by (cases s; cases "tl s"; cases "tl (tl s)") (auto split: if_splits)

lemma trim_start_append: "trim_start s = [] \<Longrightarrow> trim_start t = [] \<Longrightarrow> trim_start (s @ t) = []"
proof (induction s rule: trim_start.induct)
  case (1 s)
  show ?case
  proof (cases "s = []")
    case False
    then have sp: "0 < space_len s" "trim_start (drop (space_len s) s) = []"
      using 1(2) by (auto simp: trim_start.simps [of s] split: if_splits)
    then have "trim_start (drop (space_len s) s @ t) = []" using 1 False by auto
    then show ?thesis using sp False space_len_append [OF sp(1), of t] by (subst trim_start.simps) simp
  qed (use 1 in simp)
qed

lemma trim_end_splits: "\<exists>w. s = trim_end s @ w \<and> trim_start w = []"
proof (induction s)
  case (Cons c s)
  then show ?case by (cases "trim_start (c # s) = []") auto
qed (simp add: trim_start.simps)

lemma trim_end_idem [simp]: "trim_end (trim_end s) = trim_end s"
proof (induction s)
  case (Cons c s)
  obtain w where w: "s = trim_end s @ w" "trim_start w = []" using trim_end_splits by blast
  have "trim_start (c # trim_end s) \<noteq> []" if "trim_start (c # s) \<noteq> []"
    using trim_start_append [of "c # trim_end s" w] w that by auto
  then show ?case using Cons by auto
qed simp

section \<open>Maps in insertion order\<close>

text \<open>\<open>Map.prototype.set\<close>: the value changes in place, a new key goes to the end.\<close>

fun map_set :: "'k \<Rightarrow> 'v \<Rightarrow> ('k \<times> 'v) list \<Rightarrow> ('k \<times> 'v) list" where
  "map_set k n [] = [(k, n)]"
| "map_set k n ((k', m) # xs) = (if k' = k then (k, n) # xs else (k', m) # map_set k n xs)"

lemma map_of_put: "map_of (map_set k n xs) = (map_of xs)(k \<mapsto> n)"
  by (induction xs) (auto simp: fun_eq_iff)

lemma keys_put: "map fst (map_set k n xs) = map fst xs @ (if k \<in> set (map fst xs) then [] else [k])"
proof (induction xs)
  case (Cons a xs)
  then show ?case by (cases a; cases "k \<in> set (map fst xs)") simp_all
qed simp

lemma distinct_put: "distinct (map fst xs) \<Longrightarrow> distinct (map fst (map_set k n xs))"
  by (simp add: keys_put)

lemma set_put: "(a, m) \<in> set (map_set k n xs) \<Longrightarrow> (a, m) \<in> set xs \<or> (a = k \<and> m = n)"
  by (induction xs) (auto split: if_splits)

section \<open>Decimal numbers\<close>

lemma digit_char_digit: "d < 10 \<Longrightarrow> is_digit (digit_char d) \<and> code (digit_char d) - 48 = d"
  by (simp add: digit_char_def is_digit_def)

lemma show_nat_digits: "show_nat n \<noteq> [] \<and> (\<forall>c \<in> set (show_nat n). is_digit c)"
proof (induction n rule: show_nat.induct)
  case (1 n)
  then show ?case by (subst (1 2) show_nat.simps) (auto simp: digit_char_digit)
qed

lemma read_show_nat [simp]: "read_nat (show_nat n) = n"
proof (induction n rule: show_nat.induct)
  case (1 n)
  show ?case
  proof (cases "n < 10")
    case True
    then show ?thesis by (simp add: show_nat.simps [of n] read_nat_def digit_char_digit)
  next
    case False
    then show ?thesis
      using 1 by (subst show_nat.simps) (simp add: read_nat_def digit_char_digit)
  qed
qed

lemma show_nat_length: "n < 10 ^ k \<Longrightarrow> 0 < k \<Longrightarrow> length (show_nat n) \<le> k"
proof (induction k arbitrary: n)
  case (Suc k)
  show ?case
  proof (cases "n < 10")
    case False
    have small: "n div 10 < 10 ^ k" using Suc.prems(1) by (simp add: less_mult_imp_div_less mult.commute)
    have "k \<noteq> 0" using False Suc.prems(1) by (cases k) auto
    then show ?thesis using Suc.IH [OF small] False by (subst show_nat.simps) simp
  qed (simp add: show_nat.simps [of n])
qed simp

lemma show_nat_inject [simp]: "show_nat m = show_nat n \<longleftrightarrow> m = n"
  by (metis read_show_nat)

end
