(* ===== verification/Json.thy ===== *)
theory Json
  imports Prelude
begin

text \<open>
  \<open>JSON.parse\<close> and \<open>JSON.stringify\<close> as the preference stores use them: reading any
  text (a stored value may be junk), writing a list of strings or a flat object of
  strings. A number keeps its literal text, since no store reads one.

  The parser is a recursive descent that returns the rest of its input. The guard
  \<open>length r < length s\<close> before a recursive call is there for termination only: it
  always holds (\<open>parse_value_shorter\<close>).
\<close>

section \<open>Values\<close>

datatype json =
    JNull
  | JBool bool
  | JNum string
  | JStr string
  | JArr "json list"
  | JObj "(string \<times> json) list"

section \<open>Parsing\<close>

fun skip_ws :: "string \<Rightarrow> string" where
  "skip_ws [] = []"
| "skip_ws (c # s) =
     (if c = CHR '' '' \<or> code c = 9 \<or> code c = 10 \<or> code c = 13 then skip_ws s else c # s)"

definition hex_val :: "char \<Rightarrow> nat option" where
  "hex_val c =
     (if is_digit c then Some (code c - 48)
      else if 97 \<le> code c \<and> code c \<le> 102 then Some (code c - 87)
      else if 65 \<le> code c \<and> code c \<le> 70 then Some (code c - 55)
      else None)"

fun hex4 :: "string \<Rightarrow> (nat \<times> string) option" where
  "hex4 (a # b # c # d # r) =
     (case (hex_val a, hex_val b, hex_val c, hex_val d) of
        (Some w, Some x, Some y, Some z) \<Rightarrow> Some (((w * 16 + x) * 16 + y) * 16 + z, r)
      | _ \<Rightarrow> None)"
| "hex4 _ = None"

declare hex4.simps [simp del]

text \<open>The UTF-8 bytes of a code point.\<close>

definition utf8_encode :: "nat \<Rightarrow> string" where
  "utf8_encode p =
     (if p < 128 then [char_of p]
      else if p < 2048 then [char_of (192 + p div 64), char_of (128 + p mod 64)]
      else if p < 65536 then
        [char_of (224 + p div 4096), char_of (128 + p div 64 mod 64), char_of (128 + p mod 64)]
      else [char_of (240 + p div 262144), char_of (128 + p div 4096 mod 64),
            char_of (128 + p div 64 mod 64), char_of (128 + p mod 64)])"

text \<open>The second half of a surrogate pair, when the escape that follows is one.\<close>

definition low_surrogate :: "string \<Rightarrow> (nat \<times> string) option" where
  "low_surrogate s =
     (if take 2 s = [CHR 0x5C, CHR ''u''] then
        (case hex4 (drop 2 s) of
           Some (l, r) \<Rightarrow> (if 56320 \<le> l \<and> l < 57344 then Some (l, r) else None)
         | None \<Rightarrow> None)
      else None)"

definition simple_escape :: "char \<Rightarrow> char option" where
  "simple_escape e =
     (if e = CHR 0x22 then Some (CHR 0x22)
      else if e = CHR 0x5C then Some (CHR 0x5C)
      else if e = CHR ''/'' then Some (CHR ''/'')
      else if e = CHR ''b'' then Some (CHR 0x08)
      else if e = CHR ''f'' then Some (CHR 0x0C)
      else if e = CHR ''n'' then Some (CHR 0x0A)
      else if e = CHR ''r'' then Some (CHR 0x0D)
      else if e = CHR ''t'' then Some (CHR 0x09)
      else None)"

text \<open>The rest of a string after its opening quote: its value and what follows the closing one.\<close>

function string_rest :: "string \<Rightarrow> (string \<times> string) option" where
  "string_rest s =
     (case s of
        [] \<Rightarrow> None
      | c # r \<Rightarrow>
          if c = CHR 0x22 then Some ([], r)
          else if code c < 32 then None
          else if c \<noteq> CHR 0x5C then map_option (\<lambda>(v, t). (c # v, t)) (string_rest r)
          else (case r of
              [] \<Rightarrow> None
            | e # r' \<Rightarrow>
                if e = CHR ''u'' then
                  (case hex4 r' of
                     None \<Rightarrow> None
                   | Some (h, t) \<Rightarrow>
                       if length t < length s then
                         (case (if 55296 \<le> h \<and> h < 56320 then low_surrogate t else None) of
                            Some (l, t') \<Rightarrow>
                              if length t' < length s then
                                map_option
                                  (\<lambda>(v, q). (utf8_encode (65536 + (h - 55296) * 1024 + (l - 56320)) @ v, q))
                                  (string_rest t')
                              else None
                          | None \<Rightarrow> map_option (\<lambda>(v, q). (utf8_encode h @ v, q)) (string_rest t))
                       else None)
                else (case simple_escape e of
                    None \<Rightarrow> None
                  | Some x \<Rightarrow> map_option (\<lambda>(v, t). (x # v, t)) (string_rest r'))))"
  by pat_completeness auto
termination
  by (relation "measure length") auto

declare string_rest.simps [simp del]

definition digits_rest :: "string \<Rightarrow> string \<times> string" where
  "digits_rest s = (takeWhile is_digit s, dropWhile is_digit s)"

text \<open>\<open>-?(0|[1-9][0-9]*)(\.[0-9]+)?([eE][+-]?[0-9]+)?\<close>\<close>

definition number_int :: "string \<Rightarrow> (string \<times> string) option" where
  "number_int s =
     (case digits_rest s of
        ([], _) \<Rightarrow> None
      | (d # ds, r) \<Rightarrow> if d = CHR ''0'' then Some ([d], ds @ r) else Some (d # ds, r))"

definition number_frac :: "string \<Rightarrow> (string \<times> string) option" where
  "number_frac s =
     (case s of
        c # r \<Rightarrow>
          if c = CHR ''.'' then
            (case digits_rest r of ([], _) \<Rightarrow> None | (ds, t) \<Rightarrow> Some (c # ds, t))
          else Some ([], s)
      | [] \<Rightarrow> Some ([], []))"

definition number_exp :: "string \<Rightarrow> (string \<times> string) option" where
  "number_exp s =
     (case s of
        c # r \<Rightarrow>
          if c = CHR ''e'' \<or> c = CHR ''E'' then
            (let (sg, r') = (case r of
                 x # t \<Rightarrow> if x = CHR ''+'' \<or> x = CHR ''-'' then ([x], t) else ([], r)
               | [] \<Rightarrow> ([], []))
             in case digits_rest r' of ([], _) \<Rightarrow> None | (ds, t) \<Rightarrow> Some (c # sg @ ds, t))
          else Some ([], s)
      | [] \<Rightarrow> Some ([], []))"

definition number_rest :: "string \<Rightarrow> (string \<times> string) option" where
  "number_rest s =
     (let (sg, r) = (case s of
          c # t \<Rightarrow> if c = CHR ''-'' then ([c], t) else ([], s)
        | [] \<Rightarrow> ([], []))
      in case number_int r of None \<Rightarrow> None | Some (i, r1) \<Rightarrow>
        (case number_frac r1 of None \<Rightarrow> None | Some (f, r2) \<Rightarrow>
          (case number_exp r2 of None \<Rightarrow> None | Some (e, r3) \<Rightarrow>
             Some (sg @ i @ f @ e, r3))))"

definition literal :: "string \<Rightarrow> json \<Rightarrow> string \<Rightarrow> (json \<times> string) option" where
  "literal w v s = (if starts_with w s then Some (v, drop (length w) s) else None)"

text \<open>
  Values, the elements of an array up to its closing bracket and the members of an
  object up to its closing brace. The three read their input after white space.
\<close>

function (sequential) parse_value :: "string \<Rightarrow> (json \<times> string) option"
  and parse_elems :: "string \<Rightarrow> (json list \<times> string) option"
  and parse_members :: "string \<Rightarrow> ((string \<times> json) list \<times> string) option" where
  "parse_value s =
     (case s of
        [] \<Rightarrow> None
      | c # r \<Rightarrow>
          if c = CHR 0x22 then map_option (\<lambda>(v, t). (JStr v, t)) (string_rest r)
          else if c = CHR ''['' then
            (if take 1 (skip_ws r) = '']'' then Some (JArr [], drop 1 (skip_ws r))
             else if length (skip_ws r) < length s then
               map_option (\<lambda>(vs, t). (JArr vs, t)) (parse_elems (skip_ws r))
             else None)
          else if c = CHR ''{'' then
            (if take 1 (skip_ws r) = ''}'' then Some (JObj [], drop 1 (skip_ws r))
             else if length (skip_ws r) < length s then
               map_option (\<lambda>(ms, t). (JObj ms, t)) (parse_members (skip_ws r))
             else None)
          else if c = CHR ''n'' then literal ''null'' JNull s
          else if c = CHR ''t'' then literal ''true'' (JBool True) s
          else if c = CHR ''f'' then literal ''false'' (JBool False) s
          else map_option (\<lambda>(n, t). (JNum n, t)) (number_rest s))"
| "parse_elems s =
     (case parse_value s of
        None \<Rightarrow> None
      | Some (v, r) \<Rightarrow>
          (case skip_ws r of
             [] \<Rightarrow> None
           | c # t \<Rightarrow>
               if c = CHR '']'' then Some ([v], t)
               else if c = CHR '','' \<and> length (skip_ws t) < length s then
                 map_option (\<lambda>(vs, q). (v # vs, q)) (parse_elems (skip_ws t))
               else None))"
| "parse_members s =
     (case s of
        [] \<Rightarrow> None
      | c # r \<Rightarrow>
          if c \<noteq> CHR 0x22 then None
          else (case string_rest r of
              None \<Rightarrow> None
            | Some (k, r1) \<Rightarrow>
                (case skip_ws r1 of
                   [] \<Rightarrow> None
                 | d # r2 \<Rightarrow>
                     if d \<noteq> CHR '':'' \<or> length (skip_ws r2) \<ge> length s then None
                     else (case parse_value (skip_ws r2) of
                         None \<Rightarrow> None
                       | Some (v, r3) \<Rightarrow>
                           (case skip_ws r3 of
                              [] \<Rightarrow> None
                            | e # t \<Rightarrow>
                                if e = CHR ''}'' then Some ([(k, v)], t)
                                else if e = CHR '','' \<and> length (skip_ws t) < length s then
                                  map_option (\<lambda>(ms, q). ((k, v) # ms, q)) (parse_members (skip_ws t))
                                else None)))))"
  by pat_completeness auto
termination
  by (relation "measure (\<lambda>x. case x of
        Inl s \<Rightarrow> 2 * length s
      | Inr (Inl s) \<Rightarrow> 2 * length s + 1
      | Inr (Inr s) \<Rightarrow> 2 * length s + 1)") auto

declare parse_value.simps [simp del] parse_elems.simps [simp del] parse_members.simps [simp del]

text \<open>\<open>JSON.parse\<close>: one value with white space around it; \<open>None\<close> is the SyntaxError.\<close>

definition json_parse :: "string \<Rightarrow> json option" where
  "json_parse s =
     (case parse_value (skip_ws s) of
        Some (v, r) \<Rightarrow> (if skip_ws r = [] then Some v else None)
      | None \<Rightarrow> None)"

section \<open>Printing\<close>

definition hex_digit :: "nat \<Rightarrow> char" where
  "hex_digit n = (if n < 10 then char_of (48 + n) else char_of (87 + n))"

definition escape_char :: "char \<Rightarrow> string" where
  "escape_char c =
     (if c = CHR 0x22 then [CHR 0x5C, CHR 0x22]
      else if c = CHR 0x5C then [CHR 0x5C, CHR 0x5C]
      else if c = CHR 0x08 then [CHR 0x5C, CHR ''b'']
      else if c = CHR 0x0C then [CHR 0x5C, CHR ''f'']
      else if c = CHR 0x0A then [CHR 0x5C, CHR ''n'']
      else if c = CHR 0x0D then [CHR 0x5C, CHR ''r'']
      else if c = CHR 0x09 then [CHR 0x5C, CHR ''t'']
      else if code c < 32 then
        [CHR 0x5C, CHR ''u'', CHR ''0'', CHR ''0'', hex_digit (code c div 16), hex_digit (code c mod 16)]
      else [c])"

definition json_quote :: "string \<Rightarrow> string" where
  "json_quote s = CHR 0x22 # concat (map escape_char s) @ [CHR 0x22]"

text \<open>\<open>JSON.stringify\<close> of an array of strings and of a flat object of strings.\<close>

definition stringify_list :: "string list \<Rightarrow> string" where
  "stringify_list xs = ''['' @ join_with '','' (map json_quote xs) @ '']''"

definition json_member :: "string \<times> string \<Rightarrow> string" where
  "json_member kv = json_quote (fst kv) @ '':'' @ json_quote (snd kv)"

definition stringify_obj :: "(string \<times> string) list \<Rightarrow> string" where
  "stringify_obj kvs = ''{'' @ join_with '','' (map json_member kvs) @ ''}''"

section \<open>Round trips\<close>

lemma hex_val_digit: "n < 16 \<Longrightarrow> hex_val (hex_digit n) = Some n"
  by (auto simp: hex_val_def hex_digit_def is_digit_def)

lemma hex4_control:
  "code c < 32 \<Longrightarrow>
   hex4 (CHR ''0'' # CHR ''0'' # hex_digit (code c div 16) # hex_digit (code c mod 16) # r) =
   Some (code c, r)"
proof -
  have z: "hex_val (CHR ''0'') = Some 0" by (simp add: hex_val_def is_digit_def)
  assume "code c < 32"
  then show ?thesis by (simp add: hex4.simps z hex_val_digit)
qed

lemma utf8_encode_ascii: "n < 128 \<Longrightarrow> utf8_encode n = [char_of n]"
  by (simp add: utf8_encode_def)

lemma string_rest_quote: "string_rest (CHR 0x22 # r) = Some ([], r)"
  by (subst string_rest.simps) simp

lemma string_rest_escape:
  "string_rest (escape_char c @ r) = map_option (\<lambda>(v, t). (c # v, t)) (string_rest r)"
proof (cases "c = CHR 0x22 \<or> c = CHR 0x5C \<or> c = CHR 0x08 \<or> c = CHR 0x0C \<or> c = CHR 0x0A
    \<or> c = CHR 0x0D \<or> c = CHR 0x09")
  case True
  then show ?thesis
    by (elim disjE) (simp_all add: escape_char_def string_rest.simps [of "_ # _"] simple_escape_def)
next
  case False
  show ?thesis
  proof (cases "code c < 32")
    case True
    with False have "escape_char c @ r = CHR 0x5C # CHR ''u'' # CHR ''0'' # CHR ''0'' #
        hex_digit (code c div 16) # hex_digit (code c mod 16) # r"
      by (simp add: escape_char_def)
    then show ?thesis
      using True by (simp add: string_rest.simps [of "_ # _"] hex4_control utf8_encode_ascii case_prod_beta)
  next
    case big: False
    with False have "escape_char c @ r = c # r" by (simp add: escape_char_def)
    then show ?thesis using False big by (simp add: string_rest.simps [of "_ # _"])
  qed
qed

lemma string_rest_body:
  "string_rest (concat (map escape_char s) @ CHR 0x22 # r) = Some (s, r)"
  by (induction s) (simp_all add: string_rest_quote string_rest_escape)

lemma parse_value_quote: "parse_value (json_quote s @ r) = Some (JStr s, r)"
  by (subst parse_value.simps) (simp add: json_quote_def string_rest_body)

lemma skip_ws_quote [simp]: "skip_ws (json_quote s @ r) = json_quote s @ r"
  by (simp add: json_quote_def)

lemma json_quote_ne [simp]: "json_quote s \<noteq> []" "take 1 (json_quote s @ r) = [CHR 0x22]"
  by (simp_all add: json_quote_def)

lemma parse_elems_quotes:
  "xs \<noteq> [] \<Longrightarrow>
   parse_elems (join_with '','' (map json_quote xs) @ CHR '']'' # r) = Some (map JStr xs, r)"
proof (induction xs rule: induct_list012)
  case (3 x y zs)
  let ?rest = "join_with '','' (map json_quote (y # zs)) @ CHR '']'' # r"
  have ws: "skip_ws ?rest = ?rest"
    by (cases zs) (simp_all add: json_quote_def)
  have step: "parse_value (json_quote x @ CHR '','' # ?rest) = Some (JStr x, CHR '','' # ?rest)"
    by (rule parse_value_quote)
  have "parse_elems (json_quote x @ CHR '','' # ?rest) =
      map_option (\<lambda>(vs, q). (JStr x # vs, q)) (parse_elems ?rest)"
    by (subst parse_elems.simps) (simp add: step ws del: list.map join_with.simps)
  then show ?case using 3 by simp
qed (simp_all add: parse_elems.simps [of "json_quote _ @ _"] parse_value_quote)

lemma json_quote_shape: "\<exists>b. json_quote s @ r = CHR 0x22 # b \<and> length b < length (json_quote s @ r)"
  by (simp add: json_quote_def)

theorem json_list_round_trip: "json_parse (stringify_list xs) = Some (JArr (map JStr xs))"
proof (cases xs)
  case Nil
  then show ?thesis
    by (simp add: json_parse_def stringify_list_def parse_value.simps [of "_ # _"])
next
  case (Cons x ys)
  let ?body = "join_with '','' (map json_quote xs) @ '']''"
  have ws: "skip_ws ?body = ?body" and tk: "take 1 ?body \<noteq> '']''"
    using Cons by (cases ys; simp add: json_quote_def)+
  have "parse_elems ?body = Some (map JStr xs, [])"
    using parse_elems_quotes [of xs "[]"] Cons by simp
  then have "parse_value (CHR ''['' # ?body) = Some (JArr (map JStr xs), [])"
    using tk by (subst parse_value.simps) (simp add: ws)
  then show ?thesis by (simp add: json_parse_def stringify_list_def)
qed

lemma parse_members_quotes:
  "kvs \<noteq> [] \<Longrightarrow>
   parse_members (join_with '','' (map json_member kvs)
     @ CHR ''}'' # r) = Some (map (\<lambda>(k, v). (k, JStr v)) kvs, r)"
proof (induction kvs rule: induct_list012)
  case (2 p)
  have "parse_members (json_member p @ CHR ''}'' # r) = Some ([(fst p, JStr (snd p))], r)"
    using parse_value_quote [of "snd p" "CHR ''}'' # r"]
    by (subst parse_members.simps)
      (simp add: json_member_def json_quote_def string_rest_body)
  then show ?case by (cases p) simp
next
  case (3 p q zs)
  let ?rest = "join_with '','' (map json_member (q # zs)) @ CHR ''}'' # r"
  have ws: "skip_ws ?rest = ?rest"
    by (cases zs) (simp_all add: json_member_def)
  have pv: "parse_value (json_quote (snd p) @ CHR '','' # ?rest) =
      Some (JStr (snd p), CHR '','' # ?rest)"
    by (rule parse_value_quote)
  have "parse_members (json_member p @ CHR '','' # ?rest) =
      map_option (\<lambda>(ms, t). ((fst p, JStr (snd p)) # ms, t)) (parse_members ?rest)"
    using pv by (subst parse_members.simps)
      (simp add: json_member_def json_quote_def [of "fst p"] string_rest_body ws
        del: list.map join_with.simps)
  then show ?case using 3 by (cases p) simp
qed simp

theorem json_obj_round_trip:
  "json_parse (stringify_obj kvs) = Some (JObj (map (\<lambda>(k, v). (k, JStr v)) kvs))"
proof (cases kvs)
  case Nil
  then show ?thesis
    by (simp add: json_parse_def stringify_obj_def parse_value.simps [of "_ # _"])
next
  case (Cons p ys)
  let ?body = "join_with '','' (map json_member kvs) @ ''}''"
  have ws: "skip_ws ?body = ?body" and tk: "take 1 ?body \<noteq> ''}''"
    using Cons by (cases ys; simp add: json_member_def json_quote_def)+
  have "parse_members ?body = Some (map (\<lambda>(k, v). (k, JStr v)) kvs, [])"
    using parse_members_quotes [of kvs "[]"] Cons by simp
  then have "parse_value (CHR ''{'' # ?body) = Some (JObj (map (\<lambda>(k, v). (k, JStr v)) kvs), [])"
    using tk by (subst parse_value.simps) (simp add: ws)
  then show ?thesis by (simp add: json_parse_def stringify_obj_def)
qed

section \<open>The parser consumes input\<close>

text \<open>So the length guards of the parser never refuse a continuation.\<close>

lemma skip_ws_length: "length (skip_ws s) \<le> length s"
  by (induction s) auto

lemma hex4_length: "hex4 s = Some (n, r) \<Longrightarrow> length r < length s"
  by (cases s rule: hex4.cases) (auto simp: hex4.simps split: option.splits)

lemma low_surrogate_length: "low_surrogate s = Some (n, r) \<Longrightarrow> length r < length s"
  by (auto simp: low_surrogate_def split: if_splits option.splits dest!: hex4_length)

lemma string_rest_length_bound:
  "length s \<le> n \<Longrightarrow> string_rest s = Some (v, r) \<Longrightarrow> length r < length s"
proof (induction n arbitrary: s v r)
  case 0
  then show ?case by (simp add: string_rest.simps)
next
  case (Suc n)
  have IH: "string_rest t = Some (w, q) \<Longrightarrow> length t \<le> n \<Longrightarrow> length q < length t" for t w q
    using Suc.IH by blast
  show ?case
    using Suc.prems unfolding string_rest.simps [of s]
    by (fastforce split: list.splits if_splits option.splits dest: IH)
qed

lemma string_rest_length: "string_rest s = Some (v, r) \<Longrightarrow> length r < length s"
  using string_rest_length_bound by blast

lemma digits_rest_length: "digits_rest s = (ds, r) \<Longrightarrow> length s = length ds + length r"
  by (auto simp: digits_rest_def simp flip: length_append)

lemma number_int_length: "number_int s = Some (n, r) \<Longrightarrow> length r < length s"
  by (auto simp: number_int_def split: prod.splits list.splits if_splits dest!: digits_rest_length)

lemma number_frac_length: "number_frac s = Some (n, r) \<Longrightarrow> length r \<le> length s"
  by (auto simp: number_frac_def split: prod.splits list.splits if_splits dest!: digits_rest_length)

lemma number_exp_length: "number_exp s = Some (n, r) \<Longrightarrow> length r \<le> length s"
  by (auto simp: number_exp_def split: prod.splits list.splits if_splits dest!: digits_rest_length)

lemma number_rest_length: "number_rest s = Some (n, r) \<Longrightarrow> length r < length s"
  by (force simp: number_rest_def split: prod.splits list.splits if_splits option.splits
      dest!: number_int_length number_frac_length number_exp_length)

lemma literal_shorter: "literal (w # ws) v (c # t) = Some (x, r) \<Longrightarrow> length r < Suc (length t)"
  by (auto simp: literal_def split: if_splits)

lemma skip_ws_Cons_length: "skip_ws s = c # t \<Longrightarrow> length t < length s"
  using skip_ws_length [of s] by simp

text \<open>A parser that only returns proper suffixes on inputs of at most \<open>n\<close> bytes.\<close>

definition shortens :: "nat \<Rightarrow> (string \<Rightarrow> ('a \<times> string) option) \<Rightarrow> bool" where
  "shortens n p \<longleftrightarrow> (\<forall>s v r. length s \<le> n \<longrightarrow> p s = Some (v, r) \<longrightarrow> length r < length s)"

lemma shortensD: "shortens n p \<Longrightarrow> p s = Some (v, r) \<Longrightarrow> length s \<le> n \<Longrightarrow> length r < length s"
  by (auto simp: shortens_def)

lemma shorten_value:
  assumes "shortens n parse_elems" and "shortens n parse_members"
  shows "shortens (Suc n) parse_value"
  unfolding shortens_def
proof (intro allI impI)
  fix s v r
  assume len: "length s \<le> Suc n" and p: "parse_value s = Some (v, r)"
  show "length r < length s"
  proof (cases s)
    case Nil
    with p show ?thesis by (simp add: parse_value.simps)
  next
    case (Cons c t)
    have ws: "length (skip_ws t) \<le> n" using skip_ws_length [of t] len Cons by simp
    have tail: "parse_elems (skip_ws t) = Some (vs, q) \<Longrightarrow> length q < Suc (length t)"
      "parse_members (skip_ws t) = Some (ms, q) \<Longrightarrow> length q < Suc (length t)" for vs ms q
      using shortensD [OF assms(1) _ ws] shortensD [OF assms(2) _ ws] skip_ws_length [of t]
      by fastforce+
    have drop: "length (skip_ws t) - Suc 0 < Suc (length t)" using skip_ws_length [of t] by simp
    show ?thesis
      using p unfolding Cons parse_value.simps [of "c # t"]
      by (auto split: if_splits dest: tail dest!: string_rest_length number_rest_length
          intro: drop literal_shorter)
  qed
qed

lemma shorten_elems:
  assumes "shortens n parse_elems" and "shortens (Suc n) parse_value"
  shows "shortens (Suc n) parse_elems"
  unfolding shortens_def
proof (intro allI impI)
  fix s vs r
  assume len: "length s \<le> Suc n" and p: "parse_elems s = Some (vs, r)"
  have el: "parse_elems t = Some (w, q) \<Longrightarrow> length t \<le> n \<Longrightarrow> length q < length t" for t w q
    using shortensD [OF assms(1)] by simp
  obtain v t where v: "parse_value s = Some (v, t)" and tl: "length t < length s"
    using p len shortensD [OF assms(2)] by (auto simp: parse_elems.simps [of s] split: option.splits)
  then obtain e u where e: "skip_ws t = e # u"
      and r: "r = u \<or> (\<exists>ws. parse_elems (skip_ws u) = Some (ws, r))"
    using p unfolding parse_elems.simps [of s] by (auto split: list.splits if_splits)
  have u: "length u < length t" and u': "length (skip_ws u) \<le> length u"
    using skip_ws_Cons_length [OF e] skip_ws_length [of u] by simp_all
  show "length r < length s"
    using r u u' tl len el [of "skip_ws u"] by fastforce
qed

lemma shorten_members:
  assumes "shortens n parse_members" and "shortens (Suc n) parse_value"
  shows "shortens (Suc n) parse_members"
  unfolding shortens_def
proof (intro allI impI)
  fix s ms r
  assume len: "length s \<le> Suc n" and p: "parse_members s = Some (ms, r)"
  have el: "parse_members t = Some (w, q) \<Longrightarrow> length t \<le> n \<Longrightarrow> length q < length t" for t w q
    using shortensD [OF assms(1)] by simp
  have vl: "parse_value t = Some (w, q) \<Longrightarrow> length t \<le> n \<Longrightarrow> length q < length t" for t w q
    using shortensD [OF assms(2)] by fastforce
  obtain c t where s: "s = c # t" using p by (cases s) (auto simp: parse_members.simps)
  obtain k r1 d r2 v r3 e u
    where k: "string_rest t = Some (k, r1)" and d: "skip_ws r1 = d # r2"
      and v: "parse_value (skip_ws r2) = Some (v, r3)" and e: "skip_ws r3 = e # u"
      and r: "r = u \<or> (\<exists>ms'. parse_members (skip_ws u) = Some (ms', r))"
    using p unfolding s parse_members.simps [of "c # t"]
    by (auto split: list.splits if_splits option.splits)
  have 1: "length (skip_ws r2) < length t" and 2: "length u < length r3"
    using string_rest_length [OF k] skip_ws_Cons_length [OF d] skip_ws_Cons_length [OF e]
      skip_ws_length [of r2] by simp_all
  have "length r3 < length (skip_ws r2)" using 1 len s by (intro vl [OF v]) simp
  then have u: "length (skip_ws u) < length t" using 1 2 skip_ws_length [of u] by simp
  show "length r < length s"
    using r u 1 2 \<open>length r3 < length (skip_ws r2)\<close> len s el [of "skip_ws u"] by fastforce
qed

lemma parsers_shorten: "shortens n parse_value \<and> shortens n parse_elems \<and> shortens n parse_members"
proof (induction n)
  case 0
  show ?case by (simp add: shortens_def parse_value.simps parse_elems.simps parse_members.simps)
next
  case (Suc n)
  then show ?case using shorten_value shorten_elems shorten_members by blast
qed

lemma parse_value_shorter: "parse_value s = Some (v, r) \<Longrightarrow> length r < length s"
  using parsers_shorten [of "length s"] shortensD [of "length s" parse_value s] by simp

end
