(* ===== verification/Storage.thy ===== *)
theory Storage
  imports Json
begin

text \<open>
  The injected storage of the device-local stores (\<open>news-core/src/prefs.ts\<close>): the
  interface \<open>PrefsStorage\<close>, the in-memory implementation, the tolerant reading of a
  stored list, and the first-visit gate that uses the interface directly.

  A storage may throw. \<open>storage\<close> is a key-value map together with the keys whose
  reads throw, the writes that throw and the keys whose removal throws (quota, private mode); the interface
  \<open>prefs_storage\<close> states what the clients rely on and is interpreted on it and on the
  in-memory storage, and in \<open>Storage_Mirror\<close> on the app's mirror.
\<close>

section \<open>Definitions\<close>

datatype storage_error = StorageBlocked

record storage =
  items :: "string \<rightharpoonup> string"
  get_fails :: "string \<Rightarrow> bool"
  set_fails :: "string \<Rightarrow> string \<Rightarrow> bool"
  remove_fails :: "string \<Rightarrow> bool"

definition get_item :: "storage \<Rightarrow> string \<Rightarrow> storage_error + string option" where
  "get_item st k = (if get_fails st k then Inl StorageBlocked else Inr (items st k))"

definition set_item :: "storage \<Rightarrow> string \<Rightarrow> string \<Rightarrow> storage_error + storage" where
  "set_item st k v =
     (if set_fails st k v then Inl StorageBlocked else Inr (st\<lparr>items := (items st)(k \<mapsto> v)\<rparr>))"

definition remove_item :: "storage \<Rightarrow> string \<Rightarrow> storage_error + storage" where
  "remove_item st k =
     (if remove_fails st k then Inl StorageBlocked else Inr (st\<lparr>items := (items st)(k := None)\<rparr>))"

text \<open>\<open>createMemoryStorage\<close>: a plain map that never throws.\<close>

type_synonym memory = "string \<rightharpoonup> string"

definition create_memory_storage :: "(string \<times> string) list \<Rightarrow> memory" where
  "create_memory_storage initial = map_of (rev initial)"

definition memory_get_item :: "memory \<Rightarrow> string \<Rightarrow> storage_error + string option" where
  "memory_get_item m k = Inr (m k)"

definition memory_set_item :: "memory \<Rightarrow> string \<Rightarrow> string \<Rightarrow> storage_error + memory" where
  "memory_set_item m k v = Inr (m(k \<mapsto> v))"

definition memory_remove_item :: "memory \<Rightarrow> string \<Rightarrow> storage_error + memory" where
  "memory_remove_item m k = Inr (m(k := None))"

text \<open>The stored keys, with the spelling the readers' devices hold.\<close>

datatype pref_name =
    KeyFocused | KeyHidden | KeyTemplates | KeyFirstVisit | KeyMutedWords
  | KeyCardPositions | KeyEdition | KeyLook | KeyReadItems | KeyFlags

fun pref_key :: "pref_name \<Rightarrow> string" where
  "pref_key KeyFocused = ''news.focusedSources''"
| "pref_key KeyHidden = ''news.hiddenSources''"
| "pref_key KeyTemplates = ''news.activeTemplates''"
| "pref_key KeyFirstVisit = ''news:first-visit:v1''"
| "pref_key KeyMutedWords = ''news.mutedWords''"
| "pref_key KeyCardPositions = ''news-deck-active''"
| "pref_key KeyEdition = ''news.wallTheme''"
| "pref_key KeyLook = ''news.wallLook''"
| "pref_key KeyReadItems = ''news.readItems''"
| "pref_key KeyFlags = ''news.flags''"

text \<open>\<open>parseStringList\<close>: anything but an array of strings is empty.\<close>

fun json_strings :: "json list \<Rightarrow> string list" where
  "json_strings [] = []"
| "json_strings (JStr s # vs) = s # json_strings vs"
| "json_strings (_ # vs) = json_strings vs"

definition parse_string_list :: "string option \<Rightarrow> string list" where
  "parse_string_list raw =
     (case raw of
        None \<Rightarrow> []
      | Some text \<Rightarrow>
          if text = [] then []
          else (case json_parse text of Some (JArr vs) \<Rightarrow> json_strings vs | _ \<Rightarrow> []))"

text \<open>
  The first-visit gate over any storage: \<open>shouldOfferStarters\<close> and
  \<open>markStartersOffered\<close>, whose catch clauses are the branches for \<open>Inl\<close>.
\<close>

definition should_offer_starters ::
  "('s \<Rightarrow> string \<Rightarrow> storage_error + string option) \<Rightarrow> 's \<Rightarrow> bool \<Rightarrow> bool \<Rightarrow> bool" where
  "should_offer_starters get_op st deep_link consent_pending =
     (if deep_link \<or> consent_pending then False
      else (case get_op st (pref_key KeyFirstVisit) of
          Inl _ \<Rightarrow> False
        | Inr (Some _) \<Rightarrow> False
        | Inr None \<Rightarrow>
            (case get_op st (pref_key KeyFocused) of
               Inl _ \<Rightarrow> False
             | Inr v \<Rightarrow> v = None)))"

definition mark_starters_offered ::
  "('s \<Rightarrow> string \<Rightarrow> string \<Rightarrow> storage_error + 's) \<Rightarrow> 's \<Rightarrow> 's" where
  "mark_starters_offered set_op st =
     (case set_op st (pref_key KeyFirstVisit) ''1'' of Inl _ \<Rightarrow> st | Inr st' \<Rightarrow> st')"

section \<open>The interface\<close>

locale prefs_storage =
  fixes get_op :: "'s \<Rightarrow> string \<Rightarrow> storage_error + string option"
    and set_op :: "'s \<Rightarrow> string \<Rightarrow> string \<Rightarrow> storage_error + 's"
    and rem_op :: "'s \<Rightarrow> string \<Rightarrow> storage_error + 's"
  assumes get_set: "set_op s k v = Inr s' \<Longrightarrow> get_op s' k = Inr x \<Longrightarrow> x = Some v"
    and get_set_other: "set_op s k v = Inr s' \<Longrightarrow> k' \<noteq> k \<Longrightarrow> get_op s' k' = get_op s k'"
    and get_remove: "rem_op s k = Inr s' \<Longrightarrow> get_op s' k = Inr x \<Longrightarrow> x = None"
    and get_remove_other: "rem_op s k = Inr s' \<Longrightarrow> k' \<noteq> k \<Longrightarrow> get_op s' k' = get_op s k'"
begin

text \<open>Once the mark is stored the welcome is never offered again.\<close>

lemma offered_once:
  assumes "set_op st (pref_key KeyFirstVisit) ''1'' = Inr st'"
  shows "\<not> should_offer_starters get_op (mark_starters_offered set_op st) deep consent"
  using assms get_set [OF assms]
  by (auto simp: should_offer_starters_def mark_starters_offered_def split: sum.splits option.splits)

text \<open>A stored card set, an empty one included, also retires the welcome.\<close>

lemma not_offered_after_cards:
  assumes "set_op st (pref_key KeyFocused) v = Inr st'"
  shows "\<not> should_offer_starters get_op st' deep consent"
  using get_set [OF assms] by (auto simp: should_offer_starters_def split: sum.splits option.splits)

end

interpretation device: prefs_storage get_item set_item remove_item
  by unfold_locales (auto simp: get_item_def set_item_def remove_item_def split: if_splits)

interpretation in_memory: prefs_storage memory_get_item memory_set_item memory_remove_item
  by unfold_locales (auto simp: memory_get_item_def memory_set_item_def memory_remove_item_def)

section \<open>Lemmas\<close>

lemma pref_key_inj: "pref_key a = pref_key b \<longleftrightarrow> a = b"
  by (cases a; cases b) simp_all

lemma json_strings_map [simp]: "json_strings (map JStr xs) = xs"
  by (induction xs) auto

lemma parse_string_list_None [simp]: "parse_string_list None = []"
  by (simp add: parse_string_list_def)

lemma stringify_list_ne [simp]: "stringify_list xs \<noteq> []"
  by (simp add: stringify_list_def)

lemma parse_stringify [simp]: "parse_string_list (Some (stringify_list xs)) = xs"
  by (simp add: parse_string_list_def json_list_round_trip)

lemma get_item_set_item [simp]:
  "get_item (st\<lparr>items := (items st)(k \<mapsto> v)\<rparr>) k =
     (if get_fails st k then Inl StorageBlocked else Inr (Some v))"
  by (simp add: get_item_def)

end
