(* ===== verification/Prefs.thy ===== *)
theory Prefs
  imports Storage
begin

text \<open>
  The reader's preferences (\<open>news-core/src/prefs.ts\<close>): the pure reducers over
  \<open>prefs_state\<close>. A change also says which of the three lists is a new array: the
  store writes a list back exactly when its reference changed, so the model keeps that
  fact (\<open>new_focused\<close>, \<open>new_hidden\<close>, \<open>new_templates\<close>) beside the content.
\<close>

section \<open>State and reducers\<close>

record prefs_state =
  focused :: "string list"
  hidden :: "string list"
  templates :: "string list"
  touched :: bool

definition empty_prefs :: prefs_state where
  "empty_prefs = \<lparr>focused = [], hidden = [], templates = [], touched = False\<rparr>"

definition is_cleared :: "prefs_state \<Rightarrow> bool" where
  "is_cleared st \<longleftrightarrow> touched st \<and> focused st = []"

definition max_cards :: nat where
  "max_cards = 120"

definition max_bulk_follow :: nat where
  "max_bulk_follow = 60"

record prefs_change =
  after :: prefs_state
  focus_request :: "string option"
  new_focused :: bool
  new_hidden :: bool
  new_templates :: bool

definition no_change :: "prefs_state \<Rightarrow> prefs_change" where
  "no_change st = \<lparr>after = st, focus_request = None, new_focused = False, new_hidden = False,
     new_templates = False\<rparr>"

definition promote_seed :: "prefs_state \<Rightarrow> string list \<Rightarrow> string list" where
  "promote_seed st seed =
     (if focused st = [] \<and> \<not> touched st \<and> seed \<noteq> []
      then filter (\<lambda>x. x \<notin> set (hidden st)) seed
      else focused st)"

definition without :: "string list \<Rightarrow> string set \<Rightarrow> string list" where
  "without xs ids = filter (\<lambda>x. x \<notin> ids) xs"

definition toggle_focus :: "prefs_state \<Rightarrow> string \<Rightarrow> string list \<Rightarrow> prefs_change" where
  "toggle_focus st i seed =
     (if i \<in> set (focused st) then
        (no_change (st\<lparr>focused := filter (\<lambda>x. x \<noteq> i) (focused st), touched := True\<rparr>))
          \<lparr>new_focused := True\<rparr>
      else
        (let base = promote_seed st seed;
             foc = take max_cards (i # filter (\<lambda>x. x \<noteq> i) base);
             was_hidden = i \<in> set (hidden st);
             hid = (if was_hidden then filter (\<lambda>x. x \<noteq> i) (hidden st) else hidden st)
         in (no_change (st\<lparr>focused := foc, hidden := hid, touched := True\<rparr>))
              \<lparr>focus_request := Some i, new_focused := True, new_hidden := was_hidden\<rparr>))"

definition follow_all :: "prefs_state \<Rightarrow> string list \<Rightarrow> string list \<Rightarrow> prefs_change" where
  "follow_all st ids seed =
     (case take max_bulk_follow ids of
        [] \<Rightarrow> no_change st
      | f # sl \<Rightarrow>
          (let slice = f # sl;
               base = promote_seed st seed;
               foc = take max_cards (slice @ without base (set slice))
           in (no_change (st\<lparr>focused := foc, hidden := without (hidden st) (set slice), touched := True\<rparr>))
                \<lparr>focus_request := Some f, new_focused := True, new_hidden := True\<rparr>))"

definition replace_all :: "prefs_state \<Rightarrow> string list \<Rightarrow> prefs_change" where
  "replace_all st ids =
     (let slice = take max_bulk_follow ids
      in if slice = [] then no_change st
         else (no_change (st\<lparr>focused := slice, hidden := without (hidden st) (set slice), touched := True\<rparr>))
                \<lparr>new_focused := True, new_hidden := True\<rparr>)"

definition unfollow_all :: "prefs_state \<Rightarrow> string list \<Rightarrow> prefs_change" where
  "unfollow_all st ids =
     (if ids = [] then no_change st
      else (no_change (st\<lparr>focused := without (focused st) (set ids), touched := True\<rparr>))
             \<lparr>new_focused := True\<rparr>)"

definition hide_source :: "prefs_state \<Rightarrow> string \<Rightarrow> prefs_change" where
  "hide_source st i =
     (let was_followed = i \<in> set (focused st);
          was_hidden = i \<in> set (hidden st)
      in (no_change (st\<lparr>hidden := (if was_hidden then hidden st else hidden st @ [i]),
                        focused := (if was_followed then filter (\<lambda>x. x \<noteq> i) (focused st) else focused st),
                        touched := touched st \<or> was_followed\<rparr>))
           \<lparr>new_hidden := \<not> was_hidden, new_focused := was_followed\<rparr>)"

definition unhide_source :: "prefs_state \<Rightarrow> string \<Rightarrow> prefs_change" where
  "unhide_source st i =
     (if i \<in> set (hidden st)
      then (no_change (st\<lparr>hidden := filter (\<lambda>x. x \<noteq> i) (hidden st)\<rparr>))\<lparr>new_hidden := True\<rparr>
      else no_change st)"

definition set_active_templates :: "prefs_state \<Rightarrow> string list \<Rightarrow> prefs_change" where
  "set_active_templates st ids = (no_change (st\<lparr>templates := ids\<rparr>))\<lparr>new_templates := True\<rparr>"

text \<open>The store's operations as data, so that a session is a list of them.\<close>

datatype prefs_op =
    ToggleFocus string
  | FollowAll "string list"
  | ReplaceAll "string list"
  | UnfollowAll "string list"
  | HideSource string
  | UnhideSource string
  | SetActiveTemplates "string list"

fun reduce :: "string list \<Rightarrow> prefs_state \<Rightarrow> prefs_op \<Rightarrow> prefs_change" where
  "reduce seed st (ToggleFocus i) = toggle_focus st i seed"
| "reduce seed st (FollowAll ids) = follow_all st ids seed"
| "reduce seed st (ReplaceAll ids) = replace_all st ids"
| "reduce seed st (UnfollowAll ids) = unfollow_all st ids"
| "reduce seed st (HideSource i) = hide_source st i"
| "reduce seed st (UnhideSource i) = unhide_source st i"
| "reduce seed st (SetActiveTemplates ids) = set_active_templates st ids"

definition reduce_run :: "string list \<Rightarrow> prefs_state \<Rightarrow> prefs_op list \<Rightarrow> prefs_state" where
  "reduce_run seed st ops = foldl (\<lambda>s op. after (reduce seed s op)) st ops"

lemmas reducer_defs = toggle_focus_def follow_all_def replace_all_def unfollow_all_def
  hide_source_def unhide_source_def set_active_templates_def no_change_def promote_seed_def
  without_def

section \<open>The invariant of a card set\<close>

text \<open>
  No card twice, at most \<open>MAX_CARDS\<close> of them, none both followed and hidden, no card
  hidden twice.
\<close>

definition prefs_wf :: "prefs_state \<Rightarrow> bool" where
  "prefs_wf st \<longleftrightarrow>
     distinct (focused st) \<and> length (focused st) \<le> max_cards \<and>
     distinct (hidden st) \<and> set (focused st) \<inter> set (hidden st) = {}"

fun op_wf :: "prefs_op \<Rightarrow> bool" where
  "op_wf (FollowAll ids) = distinct ids"
| "op_wf (ReplaceAll ids) = distinct ids"
| "op_wf _ = True"

lemma promote_seed_wf:
  assumes "prefs_wf st" and "distinct seed"
  shows "distinct (promote_seed st seed)" and "set (promote_seed st seed) \<inter> set (hidden st) = {}"
  using assms by (auto simp: promote_seed_def prefs_wf_def)

lemma toggle_focus_wf:
  assumes "prefs_wf st" and "distinct seed"
  shows "prefs_wf (after (toggle_focus st i seed))"
  using assms promote_seed_wf [OF assms]
  by (auto simp: prefs_wf_def toggle_focus_def no_change_def Let_def distinct_take
      length_filter_bound dest!: in_set_takeD)

lemma follow_all_wf:
  assumes "prefs_wf st" and "distinct seed" and "distinct ids"
  shows "prefs_wf (after (follow_all st ids seed))"
proof (cases "take max_bulk_follow ids")
  case Nil
  show ?thesis using assms unfolding follow_all_def Nil by (simp add: no_change_def)
next
  case (Cons f sl)
  have "distinct (f # sl)" using assms(3) distinct_take [of ids max_bulk_follow] Cons by simp
  then show ?thesis
    using assms promote_seed_wf [OF assms(1,2)] Cons
    by (auto simp: prefs_wf_def follow_all_def no_change_def without_def Let_def
        intro!: distinct_take dest!: in_set_takeD)
qed

lemma replace_all_wf:
  assumes "prefs_wf st" and "distinct ids"
  shows "prefs_wf (after (replace_all st ids))"
  using assms
  by (auto simp: prefs_wf_def replace_all_def no_change_def without_def Let_def distinct_take
      max_bulk_follow_def max_cards_def)

lemma unfollow_all_wf: "prefs_wf st \<Longrightarrow> prefs_wf (after (unfollow_all st ids))"
  by (auto simp: prefs_wf_def unfollow_all_def no_change_def without_def length_filter_bound)

lemma hide_source_wf: "prefs_wf st \<Longrightarrow> prefs_wf (after (hide_source st i))"
  by (auto simp: prefs_wf_def hide_source_def no_change_def Let_def length_filter_bound)

lemma unhide_source_wf: "prefs_wf st \<Longrightarrow> prefs_wf (after (unhide_source st i))"
  by (auto simp: prefs_wf_def unhide_source_def no_change_def)

lemma set_active_templates_wf: "prefs_wf st \<Longrightarrow> prefs_wf (after (set_active_templates st ids))"
  by (simp add: prefs_wf_def set_active_templates_def no_change_def)

lemmas operation_wf = toggle_focus_wf follow_all_wf replace_all_wf unfollow_all_wf hide_source_wf
  unhide_source_wf set_active_templates_wf

lemma reduce_wf:
  "prefs_wf st \<Longrightarrow> distinct seed \<Longrightarrow> op_wf op \<Longrightarrow> prefs_wf (after (reduce seed st op))"
  by (cases op) (simp_all add: operation_wf)

lemma reduce_run_wf:
  "prefs_wf st \<Longrightarrow> distinct seed \<Longrightarrow> list_all op_wf ops \<Longrightarrow> prefs_wf (reduce_run seed st ops)"
  by (induction ops arbitrary: st) (auto simp: reduce_run_def reduce_wf)

text \<open>
  A list that is not a new array has the content it had, and \<open>touched\<close> follows the writes
  of the followed cards.
\<close>

definition tracks :: "prefs_state \<Rightarrow> prefs_change \<Rightarrow> bool" where
  "tracks st c \<longleftrightarrow>
     (new_focused c \<or> focused (after c) = focused st) \<and>
     (new_hidden c \<or> hidden (after c) = hidden st) \<and>
     (new_templates c \<or> templates (after c) = templates st) \<and>
     (touched (after c) \<longleftrightarrow> touched st \<or> new_focused c)"

lemma tracks_reduce: "tracks st (reduce seed st op)"
proof (cases op)
  case (ToggleFocus i)
  then show ?thesis by (simp add: tracks_def toggle_focus_def no_change_def Let_def)
next
  case (FollowAll ids)
  then show ?thesis
    by (simp add: tracks_def follow_all_def no_change_def Let_def split: list.split)
next
  case (HideSource i)
  then show ?thesis by (simp add: tracks_def hide_source_def no_change_def Let_def)
qed (simp_all add: tracks_def replace_all_def unfollow_all_def unhide_source_def
  set_active_templates_def no_change_def Let_def)

section \<open>Properties\<close>

text \<open>C2: However a session runs from a card set that is free of duplicates, within
  MAX_CARDS and disjoint from the hidden cards, with a seed that repeats no card and bulk
  operations (follow all, replace all) given lists that repeat none, the card set stays so.\<close>

theorem card_set_invariant:
  assumes "prefs_wf st" and "distinct seed" and "list_all op_wf ops"
  shows "prefs_wf (reduce_run seed st ops)"
  using assms by (rule reduce_run_wf)

theorem card_set_invariant_witness:
  "prefs_wf (reduce_run [''a'', ''b''] empty_prefs [HideSource ''a'', ToggleFocus ''c'', FollowAll [''a'', ''d'']])"
  by (rule card_set_invariant) (simp_all add: prefs_wf_def empty_prefs_def)

text \<open>the first follow of a fresh visitor keeps the wall: the followed card goes to the
  front, every seeded card that was not hidden stays behind it, up to MAX_CARDS, the deck is
  asked to jump to the new card and the card is no longer hidden.\<close>

theorem first_follow_promotes_seed:
  assumes "focused st = []" and "\<not> touched st"
  shows "focused (after (toggle_focus st i seed)) =
           take max_cards (i # filter (\<lambda>x. x \<noteq> i \<and> x \<notin> set (hidden st)) seed) \<and>
         i \<notin> set (hidden (after (toggle_focus st i seed))) \<and>
         touched (after (toggle_focus st i seed)) \<and>
         focus_request (toggle_focus st i seed) = Some i"
  using assms by (auto simp: toggle_focus_def promote_seed_def no_change_def Let_def conj_commute
      del: set_filter)

theorem first_follow_promotes_seed_witness:
  "focused (after (toggle_focus (empty_prefs\<lparr>hidden := [''b'']\<rparr>) ''z'' [''a'', ''b'', ''c''])) =
     [''z'', ''a'', ''c'']"
  using first_follow_promotes_seed [of "empty_prefs\<lparr>hidden := [''b'']\<rparr>" "''z''" "[''a'', ''b'', ''c'']"]
  by (simp add: empty_prefs_def max_cards_def)

text \<open>following a card and unfollowing it again restores the card set of a reader who has
  one with room left.\<close>

theorem toggle_twice:
  assumes "i \<notin> set (focused st)" and "touched st" and "length (focused st) < max_cards"
  shows "focused (after (toggle_focus (after (toggle_focus st i seed)) i seed)) = focused st"
proof -
  have "take max_cards (i # focused st) = i # focused st" using assms(3) by simp
  then show ?thesis
    using assms
    by (simp add: toggle_focus_def promote_seed_def no_change_def Let_def filter_neq_absent)
qed

theorem toggle_twice_witness:
  "focused (after (toggle_focus (after (toggle_focus
      (empty_prefs\<lparr>focused := [''a''], touched := True\<rparr>) ''b'' [])) ''b'' [])) = [''a'']"
  by (subst toggle_twice) (simp_all add: empty_prefs_def max_cards_def)

text \<open>unfollowing on a card hides it and takes it out of the card set; following it again
  brings it back to the front and out of the hidden cards.\<close>

theorem hide_then_follow:
  "i \<notin> set (focused (after (hide_source st i))) \<and>
   i \<in> set (hidden (after (hide_source st i))) \<and>
   take 1 (focused (after (toggle_focus (after (hide_source st i)) i seed))) = [i] \<and>
   i \<notin> set (hidden (after (toggle_focus (after (hide_source st i)) i seed)))"
  by (simp add: hide_source_def toggle_focus_def no_change_def Let_def max_cards_def)

end
