(* ===== verification/Prefs_Store.thy ===== *)
theory Prefs_Store
  imports Prefs
begin

text \<open>
  The preference store (\<open>createPrefsStore\<close> in \<open>news-core/src/prefs.ts\<close>): the reducers
  bound to an injected storage. The closure's variables are the fields of
  \<open>prefs_store\<close>; a listener is a number, and \<open>fired\<close> records the listeners called, in
  order. A write stops at the first \<open>setItem\<close> that throws, with what was stored before
  it kept, and turns the store to memory for the rest of the session.

  \<open>store_refines_reducers\<close> is the refinement: what every operation shows, stores and leaves
  behind, in terms of what the pure reducer computes, for a write that storage accepts or
  refuses, a key it cannot read, and a session that has turned to memory.
  \<open>memory_only_write_lost\<close> is what happens to a write that succeeds after one failed.
\<close>

section \<open>The store\<close>

record prefs_store =
  device :: storage
  seed_cards :: "string list"
  request :: "string option \<times> nat"
  raw_focused :: "string option"
  raw_hidden :: "string option"
  raw_templates :: "string option"
  current :: prefs_state
  primed :: bool
  memory_only :: bool
  listeners :: "nat list"
  fired :: "nat list"

definition create_prefs_store :: "storage \<Rightarrow> prefs_store" where
  "create_prefs_store st =
     \<lparr>device = st, seed_cards = [], request = (None, 0), raw_focused = None, raw_hidden = None,
      raw_templates = None, current = empty_prefs, primed = False, memory_only = False,
      listeners = [], fired = []\<rparr>"

definition read_raw :: "storage \<Rightarrow> string \<Rightarrow> string option" where
  "read_raw st k = (case get_item st k of Inl _ \<Rightarrow> None | Inr v \<Rightarrow> v)"

definition emit :: "prefs_store \<Rightarrow> prefs_store" where
  "emit s = s\<lparr>fired := fired s @ listeners s\<rparr>"

text \<open>What a fresh read of the three raw values parses to.\<close>

definition parse_prefs :: "string option \<Rightarrow> string option \<Rightarrow> string option \<Rightarrow> prefs_state" where
  "parse_prefs f h t =
     \<lparr>focused = parse_string_list f, hidden = parse_string_list h,
      templates = parse_string_list t, touched = f \<noteq> None\<rparr>"

definition read_changes :: "prefs_store \<Rightarrow> bool" where
  "read_changes s \<longleftrightarrow>
     \<not> memory_only s \<and>
     (\<not> primed s \<or>
      read_raw (device s) (pref_key KeyFocused) \<noteq> raw_focused s \<or>
      read_raw (device s) (pref_key KeyHidden) \<noteq> raw_hidden s \<or>
      read_raw (device s) (pref_key KeyTemplates) \<noteq> raw_templates s)"

definition store_read :: "prefs_store \<Rightarrow> prefs_store" where
  "store_read s =
     (if \<not> read_changes s then s
      else
        (let f = read_raw (device s) (pref_key KeyFocused);
             h = read_raw (device s) (pref_key KeyHidden);
             t = read_raw (device s) (pref_key KeyTemplates)
         in s\<lparr>primed := True, raw_focused := f, raw_hidden := h, raw_templates := t,
              current := parse_prefs f h t\<rparr>))"

text \<open>\<open>getState\<close>, as the value the reader sees.\<close>

definition get_state :: "prefs_store \<Rightarrow> prefs_state" where
  "get_state s = current (store_read s)"

text \<open>
  The sequence of \<open>setItem\<close> calls of one write: the storage after them and whether all
  of them returned.
\<close>

fun write_items :: "storage \<Rightarrow> (string \<times> string) list \<Rightarrow> storage \<times> bool" where
  "write_items st [] = (st, True)"
| "write_items st ((k, v) # kvs) =
     (case set_item st k v of Inl _ \<Rightarrow> (st, False) | Inr st' \<Rightarrow> write_items st' kvs)"

definition change_items :: "prefs_state \<Rightarrow> prefs_change \<Rightarrow> (string \<times> string) list" where
  "change_items before c =
     (if new_focused c then [(pref_key KeyFocused, stringify_list (focused (after c)))] else []) @
     (if new_hidden c then [(pref_key KeyHidden, stringify_list (hidden (after c)))] else []) @
     (if new_templates c then [(pref_key KeyTemplates, stringify_list (templates (after c)))] else []) @
     (if touched (after c) \<and> \<not> touched before \<and> \<not> new_focused c
      then [(pref_key KeyFocused, stringify_list (focused (after c)))] else [])"

definition apply_items :: "prefs_change \<Rightarrow> prefs_store \<Rightarrow> prefs_store" where
  "apply_items c s =
     (case write_items (device s) (change_items (current s) c) of
        (dev, True) \<Rightarrow> s\<lparr>device := dev\<rparr>
      | (dev, False) \<Rightarrow> s\<lparr>device := dev, memory_only := True, current := after c\<rparr>)"

definition apply_request :: "prefs_change \<Rightarrow> prefs_store \<Rightarrow> prefs_store" where
  "apply_request c s =
     (case focus_request c of
        None \<Rightarrow> s
      | Some i \<Rightarrow> s\<lparr>request := (Some i, snd (request s) + 1)\<rparr>)"

definition store_write :: "prefs_change \<Rightarrow> prefs_store \<Rightarrow> prefs_store" where
  "store_write c s = emit (store_read (apply_request c (apply_items c (store_read s))))"

text \<open>The seven operations: \<open>op(read(), ..., seed)\<close> handed to \<open>write\<close>.\<close>

definition store_op :: "prefs_op \<Rightarrow> prefs_store \<Rightarrow> prefs_store" where
  "store_op op s =
     (let s' = store_read s in store_write (reduce (seed_cards s') (current s') op) s')"

definition subscribe :: "nat \<Rightarrow> prefs_store \<Rightarrow> prefs_store" where
  "subscribe l s = (if l \<in> set (listeners s) then s else s\<lparr>listeners := listeners s @ [l]\<rparr>)"

definition unsubscribe :: "nat \<Rightarrow> prefs_store \<Rightarrow> prefs_store" where
  "unsubscribe l s = s\<lparr>listeners := filter (\<lambda>x. x \<noteq> l) (listeners s)\<rparr>"

definition refresh :: "prefs_store \<Rightarrow> prefs_store" where
  "refresh s = (if read_changes s then emit (store_read s) else store_read s)"

definition set_seed :: "string list \<Rightarrow> prefs_store \<Rightarrow> prefs_store" where
  "set_seed ids s = s\<lparr>seed_cards := ids\<rparr>"

definition get_focus_request :: "prefs_store \<Rightarrow> string option \<times> nat" where
  "get_focus_request s = request s"

section \<open>The cache\<close>

text \<open>
  The cached state is the parse of the cached raw values, so a read shows the storage
  whether it parses again or not.
\<close>

definition store_wf :: "prefs_store \<Rightarrow> bool" where
  "store_wf s \<longleftrightarrow>
     (\<not> memory_only s \<and> primed s \<longrightarrow>
        current s = parse_prefs (raw_focused s) (raw_hidden s) (raw_templates s))"

definition stored_prefs :: "storage \<Rightarrow> prefs_state" where
  "stored_prefs st = parse_prefs (read_raw st (pref_key KeyFocused)) (read_raw st (pref_key KeyHidden))
     (read_raw st (pref_key KeyTemplates))"

lemma store_wf_create [simp]: "store_wf (create_prefs_store st)"
  by (simp add: store_wf_def create_prefs_store_def)

lemma get_state_eq:
  "store_wf s \<Longrightarrow> get_state s = (if memory_only s then current s else stored_prefs (device s))"
  by (auto simp: get_state_def store_read_def read_changes_def store_wf_def stored_prefs_def Let_def)

lemma store_read_wf [simp]: "store_wf s \<Longrightarrow> store_wf (store_read s)"
  by (auto simp: store_read_def store_wf_def Let_def)

lemma read_changes_read [simp]: "\<not> read_changes (store_read s)"
  by (auto simp: store_read_def read_changes_def Let_def)

lemma store_read_idem [simp]: "store_read (store_read s) = store_read s"
  by (subst store_read_def) simp

lemma store_read_fields [simp]:
  "device (store_read s) = device s" "memory_only (store_read s) = memory_only s"
  "seed_cards (store_read s) = seed_cards s" "listeners (store_read s) = listeners s"
  "fired (store_read s) = fired s" "request (store_read s) = request s"
  by (simp_all add: store_read_def Let_def)

lemma emit_fields [simp]:
  "get_state (emit s) = get_state s" "device (emit s) = device s"
  "memory_only (emit s) = memory_only s" "fired (emit s) = fired s @ listeners s"
  "listeners (emit s) = listeners s" "store_wf (emit s) = store_wf s" "current (emit s) = current s"
  by (simp_all add: emit_def get_state_def store_read_def read_changes_def store_wf_def Let_def)

section \<open>Writes\<close>

lemma write_items_fails [simp]:
  "get_fails (fst (write_items st kvs)) = get_fails st"
  "set_fails (fst (write_items st kvs)) = set_fails st"
  by (induction st kvs rule: write_items.induct) (auto simp: set_item_def)

lemma write_items_ok:
  "snd (write_items st kvs) \<Longrightarrow> items (fst (write_items st kvs)) = items st ++ map_of (rev kvs)"
  by (induction st kvs rule: write_items.induct)
    (auto simp: set_item_def map_add_def fun_eq_iff split: if_splits option.splits)

text \<open>The touched-only write of \<open>write\<close> never happens for the store's own operations.\<close>

lemma change_items_reduce:
  "change_items before (reduce seed before op) =
     (let c = reduce seed before op in
      (if new_focused c then [(pref_key KeyFocused, stringify_list (focused (after c)))] else []) @
      (if new_hidden c then [(pref_key KeyHidden, stringify_list (hidden (after c)))] else []) @
      (if new_templates c then [(pref_key KeyTemplates, stringify_list (templates (after c)))] else []))"
  using tracks_reduce [of before seed op] by (auto simp: change_items_def tracks_def Let_def)

text \<open>A state as the storage gives it back: a list whose key cannot be read comes out empty.\<close>

definition seen_through :: "storage \<Rightarrow> prefs_state \<Rightarrow> prefs_state" where
  "seen_through st p =
     \<lparr>focused = (if get_fails st (pref_key KeyFocused) then [] else focused p),
      hidden = (if get_fails st (pref_key KeyHidden) then [] else hidden p),
      templates = (if get_fails st (pref_key KeyTemplates) then [] else templates p),
      touched = (touched p \<and> \<not> get_fails st (pref_key KeyFocused))\<rparr>"

lemma seen_through_readable [simp]: "\<forall>k. \<not> get_fails st k \<Longrightarrow> seen_through st p = p"
  by (simp add: seen_through_def)

lemma read_raw_eq: "read_raw st k = (if get_fails st k then None else items st k)"
  by (simp add: read_raw_def get_item_def)

lemma lookup_change_items:
  fixes st before seed op
  defines "c \<equiv> reduce seed before op"
  defines "m \<equiv> items st ++ map_of (rev (change_items before c))"
  shows "m (pref_key KeyFocused) =
      (if new_focused c then Some (stringify_list (focused (after c))) else items st (pref_key KeyFocused))"
    and "m (pref_key KeyHidden) =
      (if new_hidden c then Some (stringify_list (hidden (after c))) else items st (pref_key KeyHidden))"
    and "m (pref_key KeyTemplates) =
      (if new_templates c then Some (stringify_list (templates (after c))) else items st (pref_key KeyTemplates))"
  by (simp_all add: m_def c_def change_items_reduce Let_def map_add_def)

lemma stored_after_write:
  fixes seed op
  assumes before: "stored_prefs st = before"
    and ok: "write_items st (change_items before (reduce seed before op)) = (dev, True)"
  shows "stored_prefs dev = seen_through st (after (reduce seed before op))"
proof -
  define c where "c = reduce seed before op"
  have tr: "tracks before c" unfolding c_def by (rule tracks_reduce)
  have dev: "dev = fst (write_items st (change_items before c))" using ok by (simp add: c_def)
  have it: "items dev = items st ++ map_of (rev (change_items before c))"
    unfolding dev by (rule write_items_ok) (use ok in \<open>simp add: c_def\<close>)
  have gf: "get_fails dev = get_fails st" unfolding dev by simp
  note look = lookup_change_items [of st before seed op, folded c_def]
  have "stored_prefs dev = seen_through st (after c)"
    unfolding stored_prefs_def read_raw_eq gf it look seen_through_def
    using tr unfolding before [symmetric] tracks_def parse_prefs_def stored_prefs_def read_raw_eq by auto
  then show ?thesis by (simp add: c_def)
qed

lemma read_changes_request [simp]: "read_changes (s\<lparr>request := q\<rparr>) = read_changes s"
  by (simp add: read_changes_def)

lemma get_state_request [simp]: "get_state (s\<lparr>request := q\<rparr>) = get_state s"
  by (simp add: get_state_def store_read_def Let_def)

lemma apply_request_simps [simp]:
  "get_state (apply_request c s) = get_state s" "store_wf (apply_request c s) = store_wf s"
  "listeners (apply_request c s) = listeners s" "fired (apply_request c s) = fired s"
  "seed_cards (apply_request c s) = seed_cards s" "memory_only (apply_request c s) = memory_only s"
  "device (apply_request c s) = device s"
  by (cases "focus_request c"; simp add: apply_request_def store_wf_def)+

lemma apply_items_simps [simp]:
  "listeners (apply_items c s) = listeners s" "fired (apply_items c s) = fired s"
  "seed_cards (apply_items c s) = seed_cards s" "request (apply_items c s) = request s"
  by (simp_all add: apply_items_def split: prod.split bool.split)

lemma apply_items_wf: "store_wf s \<Longrightarrow> store_wf (apply_items c s)"
  by (auto simp: apply_items_def store_wf_def split: prod.split bool.split)

lemma get_state_read [simp]: "get_state (store_read s) = get_state s"
  by (simp add: get_state_def)

lemma current_read: "current (store_read s) = get_state s"
  by (simp add: get_state_def)

lemma store_write_simps [simp]:
  "listeners (store_write c s) = listeners s" "fired (store_write c s) = fired s @ listeners s"
  "seed_cards (store_write c s) = seed_cards s"
  by (simp_all add: store_write_def emit_def)

lemma store_write_wf: "store_wf s \<Longrightarrow> store_wf (store_write c s)"
  by (simp add: store_write_def apply_items_wf)

lemma store_op_wf: "store_wf s \<Longrightarrow> store_wf (store_op op s)"
  by (simp add: store_op_def Let_def store_write_wf)

text \<open>What a write shows: the change if it could not be stored, the storage if it could, and
  in a memory-only session whose write now succeeds the state from before.\<close>

lemma get_state_store_write:
  assumes "store_wf s"
  shows "get_state (store_write c s) =
    (case write_items (device s) (change_items (get_state s) c) of
       (dev, True) \<Rightarrow> if memory_only s then get_state s else stored_prefs dev
     | (dev, False) \<Rightarrow> after c)"
proof -
  let ?r = "store_read s"
  have wf: "store_wf (?r\<lparr>device := d\<rparr>)" for d
    using store_read_wf [OF assms] by (simp add: store_wf_def)
  have "get_state (?r\<lparr>device := d\<rparr>) = (if memory_only s then get_state s else stored_prefs d)" for d
    using get_state_eq [OF wf [of d]] by (simp add: current_read)
  moreover have "get_state (?r\<lparr>device := d, memory_only := True, current := p\<rparr>) = p" for d p
    by (simp add: get_state_def store_read_def [of "_\<lparr>current := p\<rparr>"] read_changes_def)
  ultimately show ?thesis
    by (simp add: store_write_def apply_items_def current_read split: prod.split bool.split)
qed

section \<open>Properties\<close>

lemma store_op_eq: "store_op op s = store_write (reduce (seed_cards s) (get_state s) op) (store_read s)"
  by (simp add: store_op_def Let_def current_read)

lemma store_write_device:
  "device (store_write c s) = fst (write_items (device s) (change_items (get_state s) c))"
  "memory_only (store_write c s) \<longleftrightarrow>
     memory_only s \<or> \<not> snd (write_items (device s) (change_items (get_state s) c))"
  by (simp_all add: store_write_def apply_items_def current_read split: prod.split bool.split)

text \<open>C1: The store refines the reducers, in every branch. An operation computes its reducer from
  the state shown. If the storage refuses the write, at once or half-way, the change is shown from
  memory, and the session stays with memory. If it accepts the write, the change is stored and
  shown, but for the lists whose keys cannot be read, which show empty; in a session that had
  turned to memory before, an accepted write is stored while the state shown stays as it was.\<close>

theorem store_refines_reducers:
  assumes "store_wf s"
  shows "let c = reduce (seed_cards s) (get_state s) op;
             (dev, accepted) = write_items (device s) (change_items (get_state s) c)
         in get_state (store_op op s) =
              (if \<not> accepted then after c
               else if memory_only s then get_state s else seen_through (device s) (after c)) \<and>
            device (store_op op s) = dev \<and>
            memory_only (store_op op s) = (memory_only s \<or> \<not> accepted) \<and>
            store_wf (store_op op s)"
proof -
  define c where "c = reduce (seed_cards s) (get_state s) op"
  obtain dev ok where w: "write_items (device s) (change_items (get_state s) c) = (dev, ok)"
    by force
  have op: "store_op op s = store_write c (store_read s)" by (simp add: store_op_eq c_def)
  have "get_state (store_write c (store_read s)) =
      (if \<not> ok then after c else if memory_only s then get_state s else stored_prefs dev)"
    using get_state_store_write [OF store_read_wf [OF assms], of c] w by (cases ok) simp_all
  moreover have "stored_prefs dev = seen_through (device s) (after c)" if "ok" "\<not> memory_only s"
    using stored_after_write [of "device s" "get_state s" "seed_cards s" op dev] w that
      get_state_eq [OF assms] by (simp add: c_def)
  ultimately show ?thesis
    using store_write_device [of c "store_read s"] store_op_wf [OF assms, of op]
    by (simp add: op Let_def w flip: c_def)
qed

text \<open>A device that holds two cards and refuses long values.\<close>

definition full_device :: storage where
  "full_device = \<lparr>items = [''news.focusedSources'' \<mapsto> stringify_list [''a'', ''b'']],
     get_fails = (\<lambda>_. False), set_fails = (\<lambda>_ v. length v > 10), remove_fails = (\<lambda>_. False)\<rparr>"

definition full_store :: prefs_store where
  "full_store = create_prefs_store full_device"

lemma full_store_wf: "store_wf full_store"
  by (simp add: full_store_def)

theorem store_refines_reducers_witness:
  "focused (get_state (store_op (ToggleFocus ''c'') full_store)) = [''c'', ''a'', ''b''] \<and>
   memory_only (store_op (ToggleFocus ''c'') full_store)"
proof -
  have c: "after (reduce (seed_cards full_store) (get_state full_store) (ToggleFocus ''c'')) =
      \<lparr>focused = [''c'', ''a'', ''b''], hidden = [], templates = [], touched = True\<rparr>"
    by code_simp
  have "\<not> snd (write_items (device full_store) (change_items (get_state full_store)
      (reduce (seed_cards full_store) (get_state full_store) (ToggleFocus ''c''))))"
    by code_simp
  then show ?thesis using store_refines_reducers [OF full_store_wf, of "ToggleFocus ''c''"] c
    by (auto simp: Let_def split: prod.splits)
qed

text \<open>a write that succeeds after an earlier one failed is lost for the session: the store
  has turned to memory, the storage now holds the change, and the state shown is still the one
  from before it.\<close>

theorem memory_only_write_lost:
  assumes "store_wf s" and "memory_only s" and "\<forall>k v. \<not> set_fails (device s) k v"
  shows "get_state (store_op op s) = get_state s"
proof -
  have ok: "snd (write_items st kvs)" if "\<forall>k v. \<not> set_fails st k v" for st kvs
    using that by (induction st kvs rule: write_items.induct) (auto simp: set_item_def)
  define c where "c = reduce (seed_cards s) (get_state s) op"
  obtain dev where w: "write_items (device s) (change_items (get_state s) c) = (dev, True)"
    using ok [OF assms(3), of "change_items (get_state s) c"] by (metis (full_types) prod.collapse)
  have "get_state (store_write c (store_read s)) = get_state s"
    using get_state_store_write [OF store_read_wf [OF assms(1)], of c] assms(2) w by simp
  then show ?thesis by (simp add: store_op_def Let_def current_read c_def)
qed

text \<open>The session of the witness: following \<open>c\<close> fails, the storage then recovers, and
  following \<open>d\<close> is stored but not shown.\<close>

definition recovered_store :: prefs_store where
  "recovered_store =
     (let s = store_op (ToggleFocus ''c'') full_store
      in s\<lparr>device := (device s)\<lparr>set_fails := (\<lambda>_ _. False)\<rparr>\<rparr>)"

theorem memory_only_write_lost_witness:
  "focused (get_state recovered_store) = [''c'', ''a'', ''b''] \<and>
   focused (get_state (store_op (ToggleFocus ''d'') recovered_store)) = [''c'', ''a'', ''b''] \<and>
   items (device (store_op (ToggleFocus ''d'') recovered_store)) ''news.focusedSources'' =
     Some (stringify_list [''d'', ''c'', ''a'', ''b''])"
proof -
  have mem: "memory_only recovered_store" by code_simp
  have wf: "store_wf recovered_store" using mem by (simp add: store_wf_def)
  have dev: "\<forall>k v. \<not> set_fails (device recovered_store) k v"
    by (simp add: recovered_store_def Let_def)
  have shown: "focused (get_state recovered_store) = [''c'', ''a'', ''b'']" by code_simp
  have stored: "items (device (store_op (ToggleFocus ''d'') recovered_store)) ''news.focusedSources'' =
     Some (stringify_list [''d'', ''c'', ''a'', ''b''])" by code_simp
  show ?thesis using memory_only_write_lost [OF wf mem dev, of "ToggleFocus ''d''"] shown stored by simp
qed

text \<open>every operation notifies every subscriber exactly once, in subscription order, and a
  refresh notifies them exactly when the stored values changed.\<close>

theorem notifications:
  "fired (store_op op s) = fired s @ listeners s \<and>
   listeners (store_op op s) = listeners s \<and>
   fired (refresh s) = (if read_changes s then fired s @ listeners s else fired s) \<and>
   \<not> read_changes (refresh s)"
proof -
  have "\<not> read_changes (emit (store_read s))"
    using read_changes_read [of s] by (simp add: emit_def read_changes_def)
  then show ?thesis by (simp add: store_op_def Let_def refresh_def)
qed

end
