(* ===== verification/Lists.thy ===== *)
theory Lists
  imports Storage
begin

text \<open>
  Small device-local lists (\<open>news-core/src/lists.ts\<close>): \<open>createListStore\<close> over an
  injected storage, and the reader's switches kept in one.

  The closure's variables are the fields of \<open>list_store\<close>. An array compares by
  reference in the source (\<open>next === read()\<close>): every operation builds a new array but
  \<open>clear\<close>, which writes the shared constant \<open>EMPTY\<close>; \<open>at_empty\<close> says that the
  current list is that constant.

  The switches use the list only through \<open>get\<close>, \<open>add\<close> and \<open>remove\<close>. Their lemmas
  are proved in the locale \<open>flag_list\<close> from the laws the list store is shown to keep.
\<close>

section \<open>The list store\<close>

record list_store =
  backing :: storage
  key :: string
  max_len :: nat
  raw :: "string option"
  entries :: "string list"
  at_empty :: bool
  ready :: bool
  in_memory :: bool
  subscribers :: "nat list"
  notified :: "nat list"

definition create_list_store :: "storage \<Rightarrow> string \<Rightarrow> nat \<Rightarrow> list_store" where
  "create_list_store st k m =
     \<lparr>backing = st, key = k, max_len = m, raw = None, entries = [], at_empty = True,
      ready = False, in_memory = False, subscribers = [], notified = []\<rparr>"

text \<open>Whether a read parses the stored value again, which makes the list a new array.\<close>

definition list_reparses :: "list_store \<Rightarrow> bool" where
  "list_reparses s \<longleftrightarrow>
     \<not> in_memory s \<and>
     (case get_item (backing s) (key s) of
        Inl _ \<Rightarrow> False
      | Inr v \<Rightarrow> \<not> (ready s \<and> v = raw s))"

definition list_read :: "list_store \<Rightarrow> list_store" where
  "list_read s =
     (if in_memory s then s
      else (case get_item (backing s) (key s) of
          Inl _ \<Rightarrow> s
        | Inr v \<Rightarrow>
            if ready s \<and> v = raw s then s
            else s\<lparr>ready := True, raw := v, entries := parse_string_list v, at_empty := False\<rparr>))"

definition list_get :: "list_store \<Rightarrow> string list" where
  "list_get s = entries (list_read s)"

definition list_emit :: "list_store \<Rightarrow> list_store" where
  "list_emit s = s\<lparr>notified := notified s @ subscribers s\<rparr>"

text \<open>\<open>write(next)\<close>; \<open>is_const\<close> when \<open>next\<close> is the constant \<open>EMPTY\<close>.\<close>

definition list_write :: "string list \<Rightarrow> bool \<Rightarrow> list_store \<Rightarrow> list_store" where
  "list_write next is_const s0 =
     (let s = list_read s0 in
      if is_const \<and> at_empty s then s
      else
        (let s1 = s\<lparr>entries := next, at_empty := is_const\<rparr>;
             encoded = stringify_list next
         in list_emit
              (case set_item (backing s1) (key s1) encoded of
                 Inl _ \<Rightarrow> s1\<lparr>in_memory := True\<rparr>
               | Inr dev \<Rightarrow> s1\<lparr>backing := dev, raw := Some encoded\<rparr>)))"

definition list_has :: "string \<Rightarrow> list_store \<Rightarrow> bool" where
  "list_has v s \<longleftrightarrow> v \<in> set (list_get s)"

definition list_add :: "string \<Rightarrow> list_store \<Rightarrow> list_store" where
  "list_add v s =
     (let r = list_read s; cur = entries r in
      if v \<in> set cur then r
      else
        (let next = cur @ [v] in
         list_write (if length next > max_len r then drop (length next - max_len r) next else next)
           False r))"

definition list_remove :: "string \<Rightarrow> list_store \<Rightarrow> list_store" where
  "list_remove v s =
     (let r = list_read s; cur = entries r in
      if v \<notin> set cur then r else list_write (filter (\<lambda>x. x \<noteq> v) cur) False r)"

definition list_toggle :: "string \<Rightarrow> list_store \<Rightarrow> list_store" where
  "list_toggle v s =
     (let r = list_read s; cur = entries r in
      list_write (if v \<in> set cur then filter (\<lambda>x. x \<noteq> v) cur else cur @ [v]) False r)"

definition list_clear :: "list_store \<Rightarrow> list_store" where
  "list_clear s = list_write [] True s"

definition list_refresh :: "list_store \<Rightarrow> list_store" where
  "list_refresh s = (if list_reparses s then list_emit (list_read s) else list_read s)"

definition list_subscribe :: "nat \<Rightarrow> list_store \<Rightarrow> list_store" where
  "list_subscribe l s =
     (if l \<in> set (subscribers s) then s else s\<lparr>subscribers := subscribers s @ [l]\<rparr>)"

definition list_unsubscribe :: "nat \<Rightarrow> list_store \<Rightarrow> list_store" where
  "list_unsubscribe l s = s\<lparr>subscribers := filter (\<lambda>x. x \<noteq> l) (subscribers s)\<rparr>"

section \<open>The switches\<close>

datatype flag = HideRead | ShowEveryOutlet | Autoplay

fun flag_name :: "flag \<Rightarrow> string" where
  "flag_name HideRead = ''hide-read''"
| "flag_name ShowEveryOutlet = ''show-every-outlet''"
| "flag_name Autoplay = ''autoplay''"

fun flag_default :: "flag \<Rightarrow> bool" where
  "flag_default HideRead = False"
| "flag_default ShowEveryOutlet = False"
| "flag_default Autoplay = True"

definition off_mark :: "flag \<Rightarrow> string" where
  "off_mark f = ''off:'' @ flag_name f"

definition flag_on :: "string list \<Rightarrow> flag \<Rightarrow> bool" where
  "flag_on flags f =
     (if off_mark f \<in> set flags then False
      else if flag_name f \<in> set flags then True
      else flag_default f)"

text \<open>\<open>setFlag\<close> over any list with these operations.\<close>

definition set_flag ::
  "(string \<Rightarrow> 's \<Rightarrow> 's) \<Rightarrow> (string \<Rightarrow> 's \<Rightarrow> 's) \<Rightarrow> 's \<Rightarrow> flag \<Rightarrow> bool \<Rightarrow> 's" where
  "set_flag add_op remove_op s f on =
     (if on then add_op (flag_name f) (remove_op (off_mark f) s)
      else add_op (off_mark f) (remove_op (flag_name f) s))"

definition toggle_flag_on ::
  "('s \<Rightarrow> string list) \<Rightarrow> (string \<Rightarrow> 's \<Rightarrow> 's) \<Rightarrow> (string \<Rightarrow> 's \<Rightarrow> 's) \<Rightarrow> 's \<Rightarrow> flag \<Rightarrow> 's" where
  "toggle_flag_on get_op add_op remove_op s f =
     set_flag add_op remove_op s f (\<not> flag_on (get_op s) f)"

definition create_flag_store :: "storage \<Rightarrow> list_store" where
  "create_flag_store st = create_list_store st (pref_key KeyFlags) 32"

definition create_read_store :: "storage \<Rightarrow> list_store" where
  "create_read_store st = create_list_store st (pref_key KeyReadItems) 500"

lemma flag_name_off_mark [simp]: "flag_name f \<noteq> off_mark g" "off_mark g \<noteq> flag_name f"
  by (cases f; cases g; simp add: off_mark_def)+

section \<open>The list as the switches see it\<close>

locale flag_list =
  fixes get_op :: "'s \<Rightarrow> string list"
    and add_op :: "string \<Rightarrow> 's \<Rightarrow> 's"
    and remove_op :: "string \<Rightarrow> 's \<Rightarrow> 's"
    and inv :: "'s \<Rightarrow> bool"
  assumes inv_add: "inv s \<Longrightarrow> inv (add_op v s)"
    and inv_remove: "inv s \<Longrightarrow> inv (remove_op v s)"
    and add_has: "inv s \<Longrightarrow> v \<in> set (get_op (add_op v s))"
    and add_only: "inv s \<Longrightarrow> set (get_op (add_op v s)) \<subseteq> insert v (set (get_op s))"
    and remove_gone: "inv s \<Longrightarrow> v \<notin> set (get_op (remove_op v s))"
begin

lemma set_flag_inv: "inv s \<Longrightarrow> inv (set_flag add_op remove_op s f on)"
  by (simp add: set_flag_def inv_add inv_remove)

lemma flag_on_set_flag:
  assumes "inv s"
  shows "flag_on (get_op (set_flag add_op remove_op s f on)) f = on"
proof (cases on)
  case True
  let ?t = "remove_op (off_mark f) s"
  have "inv ?t" using assms by (rule inv_remove)
  then have "flag_name f \<in> set (get_op (add_op (flag_name f) ?t))"
    and "off_mark f \<notin> set (get_op (add_op (flag_name f) ?t))"
    using add_has add_only remove_gone [OF assms, of "off_mark f"] by fastforce+
  then show ?thesis using True by (simp add: set_flag_def flag_on_def)
next
  case False
  have "inv (remove_op (flag_name f) s)" using assms by (rule inv_remove)
  then show ?thesis using False add_has by (simp add: set_flag_def flag_on_def)
qed

lemma flag_on_toggle:
  "inv s \<Longrightarrow>
   flag_on (get_op (toggle_flag_on get_op add_op remove_op s f)) f = (\<not> flag_on (get_op s) f)"
  by (simp add: toggle_flag_on_def flag_on_set_flag)

end

section \<open>The list store keeps the laws\<close>

text \<open>
  A store whose cache is the parse of its cached raw value, over a device that does not
  throw on reads, with room for at least one entry. Writes may throw.
\<close>

definition list_inv :: "list_store \<Rightarrow> bool" where
  "list_inv s \<longleftrightarrow>
     0 < max_len s \<and> \<not> get_fails (backing s) (key s) \<and>
     (ready s \<and> \<not> in_memory s \<longrightarrow> entries s = parse_string_list (raw s))"

lemma list_inv_create [simp]:
  "0 < m \<Longrightarrow> \<not> get_fails st k \<Longrightarrow> list_inv (create_list_store st k m)"
  by (simp add: list_inv_def create_list_store_def)

lemma list_read_fields [simp]:
  "backing (list_read s) = backing s" "key (list_read s) = key s" "max_len (list_read s) = max_len s"
  "in_memory (list_read s) = in_memory s" "subscribers (list_read s) = subscribers s"
  "notified (list_read s) = notified s"
  by (auto simp: list_read_def split: sum.split)

lemma list_read_inv [simp]: "list_inv s \<Longrightarrow> list_inv (list_read s)"
  by (auto simp: list_inv_def list_read_def split: sum.split)

lemma list_read_read [simp]: "list_read (list_read s) = list_read s"
  by (auto simp: list_read_def split: sum.split)

lemma list_get_read [simp]: "list_get (list_read s) = list_get s"
  by (simp add: list_get_def)

lemma entries_read: "entries (list_read s) = list_get s"
  by (simp add: list_get_def)

lemma list_get_memory: "in_memory s \<Longrightarrow> list_get s = entries s"
  by (simp add: list_get_def list_read_def)

lemma list_get_device:
  "list_inv s \<Longrightarrow> \<not> in_memory s \<Longrightarrow> list_get s = parse_string_list (items (backing s) (key s))"
  by (auto simp: list_get_def list_read_def list_inv_def get_item_def)

lemma list_emit_simps [simp]:
  "list_get (list_emit s) = list_get s" "list_inv (list_emit s) = list_inv s"
  "backing (list_emit s) = backing s" "subscribers (list_emit s) = subscribers s"
  "notified (list_emit s) = notified s @ subscribers s" "max_len (list_emit s) = max_len s"
  by (auto simp: list_emit_def list_get_def list_read_def list_inv_def split: sum.split)

text \<open>A write of a new array shows the array, stored or not.\<close>

lemma list_write_eq:
  "list_write xs False s =
     list_emit (if set_fails (backing s) (key s) (stringify_list xs)
       then (list_read s)\<lparr>entries := xs, at_empty := False, in_memory := True\<rparr>
       else (list_read s)\<lparr>entries := xs, at_empty := False,
              backing := (backing s)\<lparr>items := (items (backing s))(key s \<mapsto> stringify_list xs)\<rparr>,
              raw := Some (stringify_list xs)\<rparr>)"
  by (simp add: list_write_def Let_def set_item_def)

lemma list_write_inv: "list_inv s \<Longrightarrow> list_inv (list_write xs False s)"
  unfolding list_write_eq by (simp add: list_inv_def list_emit_def)

lemma list_write_max [simp]: "max_len (list_write xs False s) = max_len s"
  unfolding list_write_eq by simp

lemma list_write_get:
  assumes "list_inv s"
  shows "list_get (list_write xs False s) = xs"
proof (cases "set_fails (backing s) (key s) (stringify_list xs)")
  case True
  then show ?thesis unfolding list_write_eq by (simp add: list_get_memory)
next
  case False
  let ?t = "(list_read s)\<lparr>entries := xs, at_empty := False,
      backing := (backing s)\<lparr>items := (items (backing s))(key s \<mapsto> stringify_list xs)\<rparr>,
      raw := Some (stringify_list xs)\<rparr>"
  have "list_inv ?t" using assms by (simp add: list_inv_def)
  then have "list_get ?t = xs"
    by (cases "in_memory s") (simp_all add: list_get_memory list_get_device)
  then show ?thesis using False unfolding list_write_eq by simp
qed

lemmas list_write_facts = list_write_inv list_write_get list_write_max

lemma list_get_add:
  "list_inv s \<Longrightarrow>
   list_get (list_add v s) =
     (if v \<in> set (list_get s) then list_get s
      else drop (Suc (length (list_get s)) - max_len s) (list_get s @ [v]))"
  by (auto simp: list_add_def Let_def entries_read list_write_facts)

lemma list_get_remove:
  "list_inv s \<Longrightarrow> list_get (list_remove v s) = filter (\<lambda>x. x \<noteq> v) (list_get s)"
  by (simp add: list_remove_def Let_def entries_read list_write_facts filter_neq_absent)

lemma list_get_toggle:
  "list_inv s \<Longrightarrow>
   list_get (list_toggle v s) =
     (if v \<in> set (list_get s) then filter (\<lambda>x. x \<noteq> v) (list_get s) else list_get s @ [v])"
  by (simp add: list_toggle_def Let_def entries_read list_write_facts)

lemma list_add_inv: "list_inv s \<Longrightarrow> list_inv (list_add v s)"
  by (simp add: list_add_def Let_def list_write_inv)

lemma list_remove_inv: "list_inv s \<Longrightarrow> list_inv (list_remove v s)"
  by (simp add: list_remove_def Let_def list_write_inv)

lemma last_drop_room: "0 < m \<Longrightarrow> v \<in> set (drop (Suc (length xs) - m) (xs @ [v]))"
  by simp

interpretation flags: flag_list list_get list_add list_remove list_inv
proof unfold_locales
  fix s v assume inv: "list_inv s"
  then have m: "0 < max_len s" by (simp add: list_inv_def)
  show "list_inv (list_add v s)" using inv by (rule list_add_inv)
  show "list_inv (list_remove v s)" using inv by (rule list_remove_inv)
  show "v \<in> set (list_get (list_add v s))"
    using last_drop_room [OF m, of v "list_get s"] inv by (simp add: list_get_add)
  show "set (list_get (list_add v s)) \<subseteq> insert v (set (list_get s))"
    using inv by (auto simp: list_get_add dest!: in_set_dropD)
  show "v \<notin> set (list_get (list_remove v s))"
    using inv by (simp add: list_get_remove)
qed

section \<open>Properties\<close>

text \<open>the list store is a bounded list: adding appends a new entry and drops the oldest past
  the bound, removing deletes every copy, toggling does one or the other, each shown at once
  whether the device stores the write or refuses it.\<close>

theorem list_store_operations:
  assumes "list_inv s"
  shows "list_get (list_add v s) =
      (if v \<in> set (list_get s) then list_get s
       else drop (Suc (length (list_get s)) - max_len s) (list_get s @ [v])) \<and>
    list_get (list_remove v s) = filter (\<lambda>x. x \<noteq> v) (list_get s) \<and>
    list_get (list_toggle v s) =
      (if v \<in> set (list_get s) then filter (\<lambda>x. x \<noteq> v) (list_get s) else list_get s @ [v])"
  using assms by (simp_all add: list_get_add list_get_remove list_get_toggle)

text \<open>A device that refuses every write.\<close>

definition read_only_device :: storage where
  "read_only_device = \<lparr>items = [''news.flags'' \<mapsto> stringify_list [''autoplay'', ''x'']],
     get_fails = (\<lambda>_. False), set_fails = (\<lambda>_ _. True), remove_fails = (\<lambda>_. False)\<rparr>"

theorem list_store_operations_witness:
  "list_get (list_add ''z'' (create_list_store read_only_device ''news.flags'' 2)) = [''x'', ''z'']"
proof -
  have "list_inv (create_list_store read_only_device ''news.flags'' 2)"
    by (simp add: read_only_device_def)
  moreover have "list_get (create_list_store read_only_device ''news.flags'' 2) = [''autoplay'', ''x'']"
    by code_simp
  ultimately show ?thesis
    using list_store_operations [of "create_list_store read_only_device ''news.flags'' 2" "''z''"]
    by (simp add: create_list_store_def)
qed

text \<open>setting a switch and reading it back gives the value set, from any stored list, at any
  bound, and on a device that refuses writes; toggling flips it, whatever its default.\<close>

theorem flag_round_trip:
  assumes "list_inv s"
  shows "flag_on (list_get (set_flag list_add list_remove s f on)) f = on \<and>
         flag_on (list_get (toggle_flag_on list_get list_add list_remove s f)) f =
           (\<not> flag_on (list_get s) f)"
  using assms flags.flag_on_set_flag flags.flag_on_toggle by blast

theorem flag_round_trip_witness:
  "\<not> flag_on (list_get (set_flag list_add list_remove (create_flag_store read_only_device) Autoplay False)) Autoplay"
proof -
  have "list_inv (create_flag_store read_only_device)"
    by (simp add: create_flag_store_def read_only_device_def)
  then show ?thesis using flag_round_trip by blast
qed

text \<open>an untouched reader's wall plays itself: the switch for auto-play is on by default,
  the other two are off.\<close>

theorem flag_defaults:
  "flag_on [] f = (f = Autoplay)"
  by (cases f) (simp_all add: flag_on_def)

end
