(* ===== verification/Muted.thy ===== *)
theory Muted
  imports Storage
begin

text \<open>
  Muted words (\<open>news-core/src/mutedWords.ts\<close>): the list operations, the headline filter
  and the store. \<open>addMutedWord\<close> and \<open>removeMutedWord\<close> return the list they were given
  when nothing changes and a list of another length otherwise, so the store's reference
  test \<open>next === read()\<close> is equality of content.

  After a refused write the store caches the raw text it failed to store, so its next read
  finds another text on the device and parses the old list again: \<open>muted_write_lost\<close>.
\<close>

section \<open>Words\<close>

definition max_muted_word_length :: nat where
  "max_muted_word_length = 60"

definition normalize_muted_word :: "string \<Rightarrow> string option" where
  "normalize_muted_word word =
     (let w = to_lower (trim word)
      in if w \<noteq> [] \<and> utf16_length w \<le> max_muted_word_length then Some w else None)"

definition parse_muted_words :: "string option \<Rightarrow> string list" where
  "parse_muted_words raw = parse_string_list raw"

definition add_muted_word :: "string list \<Rightarrow> string \<Rightarrow> string list" where
  "add_muted_word ws word =
     (case normalize_muted_word word of
        None \<Rightarrow> ws
      | Some w \<Rightarrow> if w \<in> set ws then ws else ws @ [w])"

definition remove_muted_word :: "string list \<Rightarrow> string \<Rightarrow> string list" where
  "remove_muted_word ws word = (if word \<in> set ws then filter (\<lambda>x. x \<noteq> word) ws else ws)"

definition is_muted :: "string \<Rightarrow> string list \<Rightarrow> bool" where
  "is_muted title ws =
     (if ws = [] then False
      else (let t = to_lower title in list_ex (\<lambda>w. includes_str w t) ws))"

definition filter_muted :: "'a list \<Rightarrow> string list \<Rightarrow> ('a \<Rightarrow> string) \<Rightarrow> 'a list" where
  "filter_muted xs ws title =
     (if ws = [] then xs else filter (\<lambda>x. \<not> is_muted (title x) ws) xs)"

section \<open>The store\<close>

record muted_store =
  m_device :: storage
  m_raw :: "string option"
  m_words :: "string list"
  m_primed :: bool
  m_listeners :: "nat list"
  m_fired :: "nat list"

definition create_muted_words_store :: "storage \<Rightarrow> muted_store" where
  "create_muted_words_store st =
     \<lparr>m_device = st, m_raw = None, m_words = [], m_primed = False, m_listeners = [], m_fired = []\<rparr>"

definition muted_reparses :: "muted_store \<Rightarrow> bool" where
  "muted_reparses s \<longleftrightarrow>
     (case get_item (m_device s) (pref_key KeyMutedWords) of
        Inl _ \<Rightarrow> False
      | Inr v \<Rightarrow> \<not> (m_primed s \<and> v = m_raw s))"

definition muted_read :: "muted_store \<Rightarrow> muted_store" where
  "muted_read s =
     (case get_item (m_device s) (pref_key KeyMutedWords) of
        Inl _ \<Rightarrow> s
      | Inr v \<Rightarrow>
          if m_primed s \<and> v = m_raw s then s
          else s\<lparr>m_primed := True, m_raw := v, m_words := parse_muted_words v\<rparr>)"

definition get_words :: "muted_store \<Rightarrow> string list" where
  "get_words s = m_words (muted_read s)"

definition muted_emit :: "muted_store \<Rightarrow> muted_store" where
  "muted_emit s = s\<lparr>m_fired := m_fired s @ m_listeners s\<rparr>"

definition muted_write :: "string list \<Rightarrow> muted_store \<Rightarrow> muted_store" where
  "muted_write next s0 =
     (let s = muted_read s0 in
      if next = m_words s then s
      else
        (let s1 = s\<lparr>m_words := next\<rparr> in
         muted_emit
           (case set_item (m_device s1) (pref_key KeyMutedWords) (stringify_list next) of
              Inr dev \<Rightarrow> s1\<lparr>m_device := dev, m_raw := Some (stringify_list next)\<rparr>
            | Inl _ \<Rightarrow> s1\<lparr>m_raw := Some (stringify_list next)\<rparr>)))"

definition muted_add :: "string \<Rightarrow> muted_store \<Rightarrow> muted_store" where
  "muted_add word s = (let r = muted_read s in muted_write (add_muted_word (m_words r) word) r)"

definition muted_remove :: "string \<Rightarrow> muted_store \<Rightarrow> muted_store" where
  "muted_remove word s = (let r = muted_read s in muted_write (remove_muted_word (m_words r) word) r)"

definition muted_refresh :: "muted_store \<Rightarrow> muted_store" where
  "muted_refresh s = (if muted_reparses s then muted_emit (muted_read s) else muted_read s)"

definition muted_subscribe :: "nat \<Rightarrow> muted_store \<Rightarrow> muted_store" where
  "muted_subscribe l s =
     (if l \<in> set (m_listeners s) then s else s\<lparr>m_listeners := m_listeners s @ [l]\<rparr>)"

definition muted_unsubscribe :: "nat \<Rightarrow> muted_store \<Rightarrow> muted_store" where
  "muted_unsubscribe l s = s\<lparr>m_listeners := filter (\<lambda>x. x \<noteq> l) (m_listeners s)\<rparr>"

section \<open>Lemmas\<close>

lemma to_lower_append [simp]: "to_lower (a @ b) = to_lower a @ to_lower b"
  by (simp add: to_lower_def)

lemma set_filter_muted: "x \<in> set (filter_muted xs ws f) \<longleftrightarrow> x \<in> set xs \<and> \<not> is_muted (f x) ws"
  by (auto simp: filter_muted_def is_muted_def)

lemma filter_muted_eq: "filter_muted xs ws f = filter (\<lambda>x. \<not> is_muted (f x) ws) xs"
  by (simp add: filter_muted_def is_muted_def)

definition muted_inv :: "muted_store \<Rightarrow> bool" where
  "muted_inv s \<longleftrightarrow>
     \<not> get_fails (m_device s) (pref_key KeyMutedWords) \<and>
     (m_primed s \<and> m_raw s = items (m_device s) (pref_key KeyMutedWords) \<longrightarrow>
        m_words s = parse_muted_words (m_raw s))"

lemma get_words_eq:
  "muted_inv s \<Longrightarrow> get_words s = parse_muted_words (items (m_device s) (pref_key KeyMutedWords))"
  by (auto simp: get_words_def muted_read_def muted_inv_def get_item_def)

lemma muted_read_device [simp]: "m_device (muted_read s) = m_device s"
  by (auto simp: muted_read_def split: sum.split)

lemma muted_read_inv: "muted_inv s \<Longrightarrow> muted_inv (muted_read s)"
  by (auto simp: muted_inv_def muted_read_def get_item_def)

lemma muted_read_read [simp]: "muted_read (muted_read s) = muted_read s"
  by (auto simp: muted_read_def split: sum.split)

lemma get_words_emit [simp]: "get_words (muted_emit s) = get_words s"
  by (auto simp: muted_emit_def get_words_def muted_read_def split: sum.split)

lemma words_read: "m_words (muted_read s) = get_words s"
  by (simp add: get_words_def)

text \<open>What a write shows afterwards: the new list when the device took it, the old one when not.\<close>

lemma get_words_write:
  assumes "muted_inv s"
  shows "get_words (muted_write next s) =
    (if set_fails (m_device s) (pref_key KeyMutedWords) (stringify_list next) then get_words s else next)"
proof -
  let ?k = "pref_key KeyMutedWords"
  let ?r = "muted_read s"
  have fails: "\<not> get_fails (m_device s) ?k" using assms by (simp add: muted_inv_def)
  show ?thesis
  proof (cases "next = get_words s")
    case True
    then have "muted_write next s = ?r" by (simp add: muted_write_def Let_def words_read)
    then show ?thesis using True by (simp add: get_words_def)
  next
    case False
    have old: "items (m_device s) ?k \<noteq> Some (stringify_list next)"
      using False get_words_eq [OF assms] by (auto simp: parse_muted_words_def)
    have "get_words (?r\<lparr>m_words := next, m_raw := Some (stringify_list next)\<rparr>) = get_words s"
      using old fails get_words_eq [OF assms]
      by (simp add: get_words_def muted_read_def [of "_\<lparr>m_raw := _\<rparr>"] get_item_def)
    moreover have "get_words (?r\<lparr>m_words := next,
        m_device := (m_device s)\<lparr>items := (items (m_device s))(?k \<mapsto> stringify_list next)\<rparr>,
        m_raw := Some (stringify_list next)\<rparr>) = next"
      using fails
      by (simp add: get_words_def muted_read_def [of "_\<lparr>m_raw := _\<rparr>"] get_item_def parse_muted_words_def)
    ultimately show ?thesis
      using False by (simp add: muted_write_def Let_def words_read set_item_def)
  qed
qed

lemma muted_add_shows:
  "muted_inv s \<Longrightarrow>
   get_words (muted_add word s) =
     (if set_fails (m_device s) (pref_key KeyMutedWords) (stringify_list (add_muted_word (get_words s) word))
      then get_words s else add_muted_word (get_words s) word)"
  using get_words_write [of "muted_read s"]
  by (simp add: muted_add_def Let_def words_read muted_read_inv) (simp add: get_words_def)

section \<open>Properties\<close>

text \<open>once a usable word is muted, every headline that contains it, in any letter case, is
  muted, and the filter drops it.\<close>

theorem muted_word_hides:
  assumes "normalize_muted_word word = Some w" and "to_lower x = w"
  shows "is_muted (a @ x @ b) (add_muted_word ws word)"
proof -
  have "w \<in> set (add_muted_word ws word)" using assms(1) by (simp add: add_muted_word_def)
  moreover have "includes_str w (to_lower (a @ x @ b))" using assms(2) includes_str_append by simp
  ultimately show ?thesis by (auto simp: is_muted_def list_ex_iff)
qed

theorem muted_word_hides_witness:
  "is_muted ''Breaking: CELEBRITY news'' (add_muted_word [] ''  Celebrity '')"
proof -
  have "normalize_muted_word ''  Celebrity '' = Some ''celebrity''" by code_simp
  moreover have "to_lower ''CELEBRITY'' = ''celebrity''" by code_simp
  ultimately have "is_muted (''Breaking: '' @ ''CELEBRITY'' @ '' news'') (add_muted_word [] ''  Celebrity '')"
    by (rule muted_word_hides)
  then show ?thesis by simp
qed

text \<open>on a device that takes writes the store shows the list with the word added.\<close>

theorem muted_add_stored:
  assumes "muted_inv s" and "\<forall>v. \<not> set_fails (m_device s) (pref_key KeyMutedWords) v"
  shows "get_words (muted_add word s) = add_muted_word (get_words s) word"
  using assms by (simp add: muted_add_shows)

definition muted_device :: "bool \<Rightarrow> storage" where
  "muted_device full = \<lparr>items = [''news.mutedWords'' \<mapsto> stringify_list [''golf'']], get_fails = (\<lambda>_. False),
     set_fails = (\<lambda>_ _. full), remove_fails = (\<lambda>_. False)\<rparr>"

theorem muted_add_stored_witness:
  "get_words (muted_add '' Polo'' (create_muted_words_store (muted_device False))) = [''golf'', ''polo'']"
proof -
  let ?s = "create_muted_words_store (muted_device False)"
  have "muted_inv ?s" and "\<forall>v. \<not> set_fails (m_device ?s) (pref_key KeyMutedWords) v"
    by (simp_all add: create_muted_words_store_def muted_device_def muted_inv_def)
  moreover have "add_muted_word (get_words ?s) '' Polo'' = [''golf'', ''polo'']" by code_simp
  ultimately show ?thesis using muted_add_stored by simp
qed

text \<open>on a device whose storage is full the word is lost at once: the next read, which the
  notified listeners make, shows the list from before.\<close>

theorem muted_write_lost:
  assumes "muted_inv s" and "\<forall>v. set_fails (m_device s) (pref_key KeyMutedWords) v"
  shows "get_words (muted_add word s) = get_words s"
  using assms by (simp add: muted_add_shows)

theorem muted_write_lost_witness:
  "get_words (muted_add '' Polo'' (create_muted_words_store (muted_device True))) = [''golf'']"
proof -
  let ?s = "create_muted_words_store (muted_device True)"
  have "muted_inv ?s" and "\<forall>v. set_fails (m_device ?s) (pref_key KeyMutedWords) v"
    by (simp_all add: create_muted_words_store_def muted_device_def muted_inv_def)
  moreover have "get_words ?s = [''golf'']" by code_simp
  ultimately show ?thesis using muted_write_lost by simp
qed

end
