(* ===== verification/Card.thy ===== *)
theory Card
  imports Prelude
begin

text \<open>
  The card model (\<open>news-core/src/card.ts\<close>) and the signal state every card carries
  (\<open>news-core/src/state.ts\<close>). The wire types come from a generated client; the model
  keeps of a card what these helpers read: its id and the kind of its payload.

  The states are a linear order by severity (an instance of \<open>linorder\<close>), so that
  \<open>worst_state\<close> is a maximum.
\<close>

section \<open>Cards\<close>

datatype card_kind = Feed | Table | Strip

datatype card_error = GameSourcesAreNotCards

record card =
  card_id :: string
  payload_kind :: card_kind

definition weather_strip_id :: string where
  "weather_strip_id = ''weather''"

definition country_card_id :: "string \<Rightarrow> string" where
  "country_card_id country = ''gnews-'' @ to_lower country"

text \<open>\<open>/^gnews-[a-z]{2}$/\<close>\<close>

definition is_country_card_id :: "string \<Rightarrow> bool" where
  "is_country_card_id s \<longleftrightarrow>
     starts_with ''gnews-'' s \<and> length (drop 6 s) = 2 \<and> list_all is_lower (drop 6 s)"

definition kind_for_type :: "string option \<Rightarrow> card_error + card_kind" where
  "kind_for_type t =
     (if t = Some ''heatmap'' then Inr Table
      else if t = Some ''game'' then Inl GameSourcesAreNotCards
      else Inr Feed)"

definition kind_for_id :: "string \<Rightarrow> string option \<Rightarrow> card_error + card_kind" where
  "kind_for_id cid t = (if cid = weather_strip_id then Inr Strip else kind_for_type t)"

definition is_feed_card :: "card \<Rightarrow> bool" where
  "is_feed_card c \<longleftrightarrow> payload_kind c = Feed"

definition is_table_card :: "card \<Rightarrow> bool" where
  "is_table_card c \<longleftrightarrow> payload_kind c = Table"

definition is_strip_card :: "card \<Rightarrow> bool" where
  "is_strip_card c \<longleftrightarrow> payload_kind c = Strip"

definition source_family :: "string \<Rightarrow> string" where
  "source_family sid = hd (split_on (CHR ''-'') sid)"

section \<open>Signal states\<close>

datatype signal_state = Nominal | Loading | Degraded | Stale | Fallback | Unavailable

definition signal_states :: "signal_state list" where
  "signal_states = [Nominal, Loading, Degraded, Stale, Fallback, Unavailable]"

fun state_name :: "signal_state \<Rightarrow> string" where
  "state_name Nominal = ''nominal''"
| "state_name Loading = ''loading''"
| "state_name Degraded = ''degraded''"
| "state_name Stale = ''stale''"
| "state_name Fallback = ''fallback''"
| "state_name Unavailable = ''unavailable''"

fun severity :: "signal_state \<Rightarrow> nat" where
  "severity Nominal = 0"
| "severity Loading = 1"
| "severity Degraded = 2"
| "severity Stale = 3"
| "severity Fallback = 4"
| "severity Unavailable = 5"

text \<open>
  \<open>typeof value === 'string' \<and> value in SEVERITY\<close>: \<open>None\<close> is a value that is no
  string. The operator \<open>in\<close> sees inherited properties too.
\<close>

definition is_signal_state :: "string option \<Rightarrow> bool" where
  "is_signal_state v =
     (case v of None \<Rightarrow> False | Some s \<Rightarrow> key_in s (map state_name signal_states))"

fun worst_from :: "signal_state \<Rightarrow> signal_state list \<Rightarrow> signal_state" where
  "worst_from worst [] = worst"
| "worst_from worst (s # ss) =
     worst_from (if severity s > severity worst then s else worst) ss"

definition worst_state :: "signal_state list \<Rightarrow> signal_state" where
  "worst_state ss = worst_from Nominal ss"

definition has_renderable_data :: "signal_state \<Rightarrow> bool" where
  "has_renderable_data s \<longleftrightarrow> s \<noteq> Unavailable"

definition state_word :: "signal_state \<Rightarrow> signal_state option" where
  "state_word s = (if s = Nominal \<or> s = Loading then None else Some s)"

definition state_from_fetch :: "bool \<Rightarrow> bool \<Rightarrow> bool \<Rightarrow> signal_state" where
  "state_from_fetch loading err has_data =
     (if loading \<and> \<not> has_data then Loading
      else if err then (if has_data then Stale else Unavailable)
      else Nominal)"

section \<open>The order of the states\<close>

instantiation signal_state :: linorder
begin

definition less_eq_signal_state :: "signal_state \<Rightarrow> signal_state \<Rightarrow> bool" where
  "less_eq_signal_state a b \<longleftrightarrow> severity a \<le> severity b"

definition less_signal_state :: "signal_state \<Rightarrow> signal_state \<Rightarrow> bool" where
  "less_signal_state a b \<longleftrightarrow> severity a < severity b"

instance
proof
  fix a b :: signal_state
  assume "a \<le> b" and "b \<le> a"
  then show "a = b" by (cases a; cases b) (simp_all add: less_eq_signal_state_def)
qed (auto simp: less_eq_signal_state_def less_signal_state_def)

end

lemma nominal_least [simp]: "Nominal \<le> s"
  by (simp add: less_eq_signal_state_def)

lemma severity_inj: "severity a = severity b \<longleftrightarrow> a = b"
  by (cases a; cases b) simp_all

lemma set_signal_states: "set signal_states = UNIV"
proof -
  have "s \<in> set signal_states" for s by (cases s) (simp_all add: signal_states_def)
  then show ?thesis by blast
qed

lemma max_severity: "(if severity s > severity w then s else w) = max w s"
  by (auto simp: max_def less_eq_signal_state_def severity_inj)

lemma worst_from_fold: "worst_from w ss = fold max ss w"
  by (induction ss arbitrary: w) (simp_all add: max_severity max.commute)

lemma worst_from_Max: "worst_from w ss = Max (insert w (set ss))"
proof (induction ss arbitrary: w)
  case (Cons s ss)
  then show ?case by (cases "ss = []") (simp_all add: max_severity max.assoc)
qed simp

section \<open>Properties\<close>

text \<open>the state of a merged card is the worst of its parts: the maximum by severity,
  one of the parts (or nominal when there is none), whatever their order and repetition.\<close>

theorem worst_state_is_maximum:
  "worst_state ss = Max (insert Nominal (set ss)) \<and>
   severity (worst_state ss) = Max (insert 0 (severity ` set ss)) \<and>
   (worst_state ss \<in> set ss \<or> worst_state ss = Nominal)"
proof -
  have w: "worst_state ss = Max (insert Nominal (set ss))"
    by (simp add: worst_state_def worst_from_Max)
  have "mono severity" by (auto simp: mono_def less_eq_signal_state_def)
  then have "severity (Max (insert Nominal (set ss))) = Max (severity ` insert Nominal (set ss))"
    by (intro mono_Max_commute) auto
  moreover have "Max (insert Nominal (set ss)) \<in> insert Nominal (set ss)"
    by (rule Max_in) auto
  ultimately show ?thesis using w by auto
qed

text \<open>the guard on wire values accepts the six state names and, because it uses the
  operator \<open>in\<close> on an object literal, also the names of inherited properties such as
  \<open>toString\<close>.\<close>

theorem is_signal_state_accepts:
  "is_signal_state v \<longleftrightarrow>
     (\<exists>s. v = Some (state_name s)) \<or> (\<exists>k \<in> set object_prototype_keys. v = Some k)"
proof -
  have "k \<in> set (map state_name signal_states) \<longleftrightarrow> (\<exists>s. k = state_name s)" for k
    by (auto simp: set_signal_states)
  then show ?thesis by (auto simp: is_signal_state_def key_in_def split: option.splits)
qed

theorem is_signal_state_toString: "is_signal_state (Some ''toString'')"
  by (simp add: is_signal_state_def key_in_def object_prototype_keys_def)

text \<open>the country card of a code has the shape of a country card exactly when the code
  is two ASCII letters, in either case.\<close>

theorem country_card_id_recognised:
  "is_country_card_id (country_card_id c) \<longleftrightarrow> length c = 2 \<and> list_all is_alpha c"
proof -
  have "is_lower (lower_char x) = is_alpha x" for x
    by (auto simp: is_lower_def lower_char_def is_alpha_def is_upper_def)
  then show ?thesis
    by (simp add: is_country_card_id_def country_card_id_def starts_with_def to_lower_def
        list_all_length)
qed

end
