(* ===== verification/Deck.thy ===== *)
theory Deck
  imports Card
begin

text \<open>
  The deck composer (\<open>news-core/src/deck.ts\<close>): an ordered list of card ids for one
  reader. \<open>compose_default_deck\<close> is the default deck of a visitor, \<open>compose_deck\<close>
  the reader's own; both end in \<open>finalize_deck\<close>, whose loop is kept as written and
  shown equal to a direct description (\<open>finalize_deck_spec\<close>).
\<close>

section \<open>Data\<close>

definition deck_cap :: nat where
  "deck_cap = 120"

record deck_entry =
  entry_id :: string
  inject_after :: "string list option"
  swap :: "string option"
  enabled :: "bool option"
  season :: "(int \<times> int) option"
  countries :: "string list option"

record deck_data =
  base :: "deck_entry list"
  country_tables :: "(string \<rightharpoonup> (string \<rightharpoonup> string list)) option"

record deck_filters =
  known :: "string \<Rightarrow> bool"
  disabled :: "string \<Rightarrow> bool"
  fallback :: "(string \<Rightarrow> bool) option"

record deck_input = deck_filters +
  country :: "string option"
  month :: int
  shared_card :: "string option"

section \<open>Operations\<close>

definition country_table :: "deck_data \<Rightarrow> string option \<Rightarrow> string \<Rightarrow> string list" where
  "country_table d c name =
     (case c of
        None \<Rightarrow> []
      | Some c' \<Rightarrow>
          (case country_tables d of
             None \<Rightarrow> []
           | Some t \<Rightarrow> (case t c' of None \<Rightarrow> [] | Some ts \<Rightarrow> or_else (ts name) [])))"

definition in_season :: "int \<times> int \<Rightarrow> int \<Rightarrow> bool" where
  "in_season se m =
     (let (start, end') = se
      in if start \<le> end' then start \<le> m \<and> m \<le> end' else \<not> (end' < m \<and> m < start))"

definition entry_applies :: "deck_entry \<Rightarrow> deck_input \<Rightarrow> bool" where
  "entry_applies e inp =
     (if enabled e = Some False then False
      else if (case season e of None \<Rightarrow> False | Some se \<Rightarrow> \<not> in_season se (month inp)) then False
      else (case countries e of
          None \<Rightarrow> True
        | Some cs \<Rightarrow> (case country inp of None \<Rightarrow> False | Some c \<Rightarrow> c \<in> set cs)))"

definition resolve_ref :: "string \<Rightarrow> deck_data \<Rightarrow> string option \<Rightarrow> string list" where
  "resolve_ref ref d c =
     (if \<not> starts_with ''country:'' ref then [ref]
      else
        (let spec = drop 8 ref;
             bar = index_of (CHR ''|'') spec;
             table = (if bar = -1 then spec else take (nat bar) spec);
             fb = (if bar = -1 then [] else drop (nat bar + 1) spec)
         in if table = ''news'' then
              (case truthy c of Some c' \<Rightarrow> [country_card_id c'] | None \<Rightarrow> [])
            else if table = ''education'' then
              (case truthy c of Some c' \<Rightarrow> [''education-'' @ to_lower c'] | None \<Rightarrow> [])
            else
              (let ids = country_table d c table
               in if ids \<noteq> [] then ids else if fb \<noteq> [] then [fb] else [])))"

text \<open>The loop of \<open>finalizeDeck\<close>: the ids seen so far and the ids kept, in order.\<close>

fun finalize_loop ::
  "('f) deck_filters_scheme \<Rightarrow> string set \<Rightarrow> string list \<Rightarrow> string list \<Rightarrow> string list" where
  "finalize_loop f seen out [] = out"
| "finalize_loop f seen out (c # cs) =
     (if c \<in> seen then finalize_loop f seen out cs
      else if c = weather_strip_id then finalize_loop f (insert c seen) (out @ [c]) cs
      else if \<not> known f c \<or> disabled f c \<or> (case fallback f of None \<Rightarrow> False | Some p \<Rightarrow> p c)
      then finalize_loop f (insert c seen) out cs
      else finalize_loop f (insert c seen) (out @ [c]) cs)"

definition finalize_deck :: "string list \<Rightarrow> ('f) deck_filters_scheme \<Rightarrow> nat \<Rightarrow> string list" where
  "finalize_deck cards f cap =
     (let out = finalize_loop f {} [] cards;
          has_weather = weather_strip_id \<in> set out;
          content = take cap (filter (\<lambda>i. i \<noteq> weather_strip_id) out)
      in if has_weather then content @ [weather_strip_id] else content)"

definition entry_cards :: "deck_data \<Rightarrow> deck_input \<Rightarrow> deck_entry \<Rightarrow> string list" where
  "entry_cards d inp e =
     (if \<not> entry_applies e inp then []
      else
        (let swapped = (case truthy (swap e) of
               Some t \<Rightarrow> country_table d (country inp) t | None \<Rightarrow> [])
         in (if swapped \<noteq> [] then swapped else [entry_id e]) @
            concat (map (\<lambda>ref. resolve_ref ref d (country inp)) (or_else (inject_after e) []))))"

definition compose_default_deck :: "deck_data \<Rightarrow> deck_input \<Rightarrow> string list" where
  "compose_default_deck d inp =
     finalize_deck
       ((case truthy (shared_card inp) of Some s \<Rightarrow> [s] | None \<Rightarrow> []) @
        (case truthy (country inp) of Some c \<Rightarrow> [country_card_id c] | None \<Rightarrow> []) @
        concat (map (entry_cards d inp) (base d)))
       inp deck_cap"

record reader_deck_input =
  followed :: "string list"
  seed :: "string list option"
  cleared :: "bool option"
  hidden_ids :: "string list option"
  dropped :: "(string \<Rightarrow> bool) option"
  lead_card :: "string option"
  country_card :: "string option"
  cap_override :: "nat option"

definition reader_base :: "reader_deck_input \<Rightarrow> string list" where
  "reader_base inp =
     (if followed inp \<noteq> [] then followed inp
      else if cleared inp = Some True then []
      else or_else (seed inp) [])"

definition reader_filters :: "reader_deck_input \<Rightarrow> deck_filters" where
  "reader_filters inp =
     \<lparr>known = (\<lambda>i. Some i = lead_card inp \<or> \<not> or_else (dropped inp) (\<lambda>_. False) i),
      disabled = (\<lambda>i. Some i \<noteq> lead_card inp \<and> i \<in> set (or_else (hidden_ids inp) [])),
      fallback = None\<rparr>"

definition reader_first :: "reader_deck_input \<Rightarrow> string list" where
  "reader_first inp =
     (case truthy (lead_card inp) of
        Some s \<Rightarrow> [s]
      | None \<Rightarrow>
          (case truthy (country_card inp) of
             Some c \<Rightarrow> if c \<in> set (reader_base inp) then [c] else []
           | None \<Rightarrow> []))"

definition compose_deck :: "reader_deck_input \<Rightarrow> string list" where
  "compose_deck inp =
     finalize_deck (reader_first inp @ reader_base inp) (reader_filters inp)
       (or_else (cap_override inp) deck_cap)"

definition is_seeded :: "string list \<Rightarrow> bool option \<Rightarrow> bool" where
  "is_seeded fol cl \<longleftrightarrow> fol = [] \<and> cl \<noteq> Some True"

section \<open>The finalisation\<close>

text \<open>What an id other than the strip must satisfy to stay.\<close>

definition admissible :: "('f) deck_filters_scheme \<Rightarrow> string \<Rightarrow> bool" where
  "admissible f c \<longleftrightarrow>
     known f c \<and> \<not> disabled f c \<and> \<not> (case fallback f of None \<Rightarrow> False | Some p \<Rightarrow> p c)"

lemma finalize_loop_spec:
  "finalize_loop f seen out cs =
     out @ filter (\<lambda>c. c = weather_strip_id \<or> admissible f c) (uniq_from seen cs)"
  by (induction f seen out cs rule: finalize_loop.induct) (auto simp: admissible_def)

lemma finalize_deck_eq:
  "finalize_deck cards f cap =
     take cap (filter (\<lambda>c. c \<noteq> weather_strip_id \<and> admissible f c) (uniq cards)) @
     (if weather_strip_id \<in> set cards then [weather_strip_id] else [])"
  by (auto simp: finalize_deck_def Let_def finalize_loop_spec uniq_def [symmetric] conj_commute
      intro!: arg_cong [where f = "take cap"] filter_cong)

lemma set_finalize_deck:
  "set (finalize_deck cards f cap) \<subseteq> set cards"
  by (auto simp: finalize_deck_eq dest!: in_set_takeD)

lemma distinct_finalize_deck [simp]: "distinct (finalize_deck cards f cap)"
  by (auto simp: finalize_deck_eq distinct_take dest!: in_set_takeD)

lemma finalize_deck_admissible:
  "c \<in> set (finalize_deck cards f cap) \<Longrightarrow> c = weather_strip_id \<or> admissible f c"
  by (auto simp: finalize_deck_eq dest!: in_set_takeD split: if_splits)

text \<open>The first card of the input leads the deck when nothing removes it.\<close>

lemma finalize_deck_lead:
  assumes "c \<noteq> weather_strip_id" and "admissible f c" and "0 < cap"
  shows "take 1 (finalize_deck (c # cs) f cap) = [c]"
  using assms by (cases cap) (simp_all add: finalize_deck_eq uniq_def)

lemma finalize_deck_length: "length (finalize_deck cards f cap) \<le> Suc cap"
  by (auto simp: finalize_deck_eq)

lemma last_finalize_deck:
  "weather_strip_id \<in> set (finalize_deck cards f cap) \<Longrightarrow>
   last (finalize_deck cards f cap) = weather_strip_id"
  by (auto simp: finalize_deck_eq dest!: in_set_takeD split: if_splits)

lemma reader_admissible:
  "admissible (reader_filters inp) i \<longleftrightarrow>
     Some i = lead_card inp \<or>
     \<not> or_else (dropped inp) (\<lambda>_. False) i \<and> i \<notin> set (or_else (hidden_ids inp) [])"
  by (auto simp: admissible_def reader_filters_def)

section \<open>Sample catalog\<close>

text \<open>The catalog and the visitors of \<open>deck.test.ts\<close>, used by the witnesses.\<close>

definition plain_entry :: "string \<Rightarrow> deck_entry" where
  "plain_entry i = \<lparr>entry_id = i, inject_after = None, swap = None, enabled = None,
     season = None, countries = None\<rparr>"

definition sample_data :: deck_data where
  "sample_data = \<lparr>
     base = [(plain_entry ''bbc-world'')\<lparr>inject_after := Some [''youtube-guardian'']\<rparr>,
             (plain_entry ''thehill'')\<lparr>inject_after := Some [''country:property'']\<rparr>,
             (plain_entry ''bbcsport'')\<lparr>swap := Some ''sports''\<rparr>,
             (plain_entry ''heatmap-ucl'')\<lparr>swap := Some ''sport_tables''\<rparr>,
             (plain_entry ''live-quakes'')\<lparr>enabled := Some False\<rparr>,
             (plain_entry ''live-storms'')\<lparr>season := Some (6, 11), countries := Some [''US'']\<rparr>,
             plain_entry ''weather''],
     country_tables = Some [''IE'' \<mapsto> [''sports'' \<mapsto> [''sport-gaelic-football'', ''sport-hurling''],
                                     ''sport_tables'' \<mapsto> [''heatmap-premier-league''],
                                     ''property'' \<mapsto> [''property-ie'']]]\<rparr>"

definition sample_visitor :: "string option \<Rightarrow> int \<Rightarrow> string option \<Rightarrow> deck_input" where
  "sample_visitor c m sh =
     \<lparr>known = (\<lambda>i. i \<in> set [''gnews-ie'', ''bbc-world'', ''youtube-guardian'', ''thehill'',
        ''sport-gaelic-football'', ''sport-hurling'', ''bbcsport'', ''heatmap-ucl'',
        ''heatmap-premier-league'', ''property-ie'', ''live-quakes'', ''live-storms'', ''weather'']),
      disabled = (\<lambda>_. False), fallback = None, country = c, month = m, shared_card = sh\<rparr>"

lemma sample_ie:
  "compose_default_deck sample_data (sample_visitor (Some ''IE'') 3 None) =
     [''gnews-ie'', ''bbc-world'', ''youtube-guardian'', ''thehill'', ''property-ie'',
      ''sport-gaelic-football'', ''sport-hurling'', ''heatmap-premier-league'', ''weather'']"
  by code_simp

lemma sample_fr:
  "compose_default_deck sample_data (sample_visitor (Some ''FR'') 3 None) =
     [''bbc-world'', ''youtube-guardian'', ''thehill'', ''bbcsport'', ''heatmap-ucl'', ''weather'']"
  by code_simp

lemma sample_us_storms:
  "compose_default_deck sample_data (sample_visitor (Some ''US'') 8 None) =
     [''bbc-world'', ''youtube-guardian'', ''thehill'', ''bbcsport'', ''heatmap-ucl'',
      ''live-storms'', ''weather'']"
  by code_simp

section \<open>Properties\<close>

text \<open>C4: The loop of \<open>finalizeDeck\<close> keeps the first occurrence of every admissible id in
  the order given, cuts the content at the cap, and puts the weather strip last whenever it
  occurs at all, outside the cap and exempt from the filters.\<close>

theorem finalize_deck_spec:
  "finalize_deck cards f cap =
     take cap (filter (\<lambda>c. c \<noteq> weather_strip_id \<and> admissible f c) (uniq cards)) @
     filter (\<lambda>c. c = weather_strip_id) (uniq cards)"
proof -
  have "distinct xs \<Longrightarrow> filter (\<lambda>c. c = w) xs = (if w \<in> set xs then [w] else [])"
    for w :: string and xs
    by (induction xs) auto
  then show ?thesis by (simp add: finalize_deck_eq)
qed

text \<open>C3: A reader's deck never repeats a card, holds at most one card more than the cap (the
  strip), has the strip in no place but the last, and holds no card the reader hid or the client
  cannot paint, with two exceptions the code makes on purpose: the card of a share link leads
  even when hidden, and the strip is shown in any case.\<close>

theorem compose_deck_sound:
  "distinct (compose_deck inp) \<and>
   length (compose_deck inp) \<le> or_else (cap_override inp) deck_cap + 1 \<and>
   weather_strip_id \<notin> set (butlast (compose_deck inp)) \<and>
   (\<forall>i \<in> set (compose_deck inp).
      i = weather_strip_id \<or> Some i = lead_card inp \<or>
      i \<notin> set (or_else (hidden_ids inp) []) \<and> \<not> or_else (dropped inp) (\<lambda>_. False) i)"
proof -
  have "weather_strip_id \<notin> set (butlast (compose_deck inp))"
    by (auto simp: compose_deck_def finalize_deck_eq butlast_append
        dest!: in_set_takeD in_set_butlastD split: if_splits)
  then show ?thesis
    by (auto simp: compose_deck_def finalize_deck_length reader_admissible
        dest!: finalize_deck_admissible)
qed

definition sample_reader :: reader_deck_input where
  "sample_reader = \<lparr>followed = [''a'', ''b'', ''c''], seed = None, cleared = None,
     hidden_ids = Some [''b'', ''s''], dropped = Some (\<lambda>i. i = ''c'' \<or> i = ''s''),
     lead_card = Some ''s'', country_card = None, cap_override = None\<rparr>"

lemma sample_reader_deck: "compose_deck sample_reader = [''s'', ''a'']"
  by code_simp

theorem compose_deck_sound_witness:
  "distinct (compose_deck sample_reader) \<and> length (compose_deck sample_reader) \<le> 121"
  using compose_deck_sound [of sample_reader] by (simp add: sample_reader_def deck_cap_def)

text \<open>a shared card leads the deck even when the reader hid it or its feed failed, for every
  shared card but the weather strip.\<close>

theorem shared_card_leads:
  assumes "lead_card inp = Some s" and "s \<noteq> []" and "s \<noteq> weather_strip_id"
    and "0 < or_else (cap_override inp) deck_cap"
  shows "take 1 (compose_deck inp) = [s]"
  using assms finalize_deck_lead [of s "reader_filters inp"]
  by (simp add: compose_deck_def reader_first_def truthy_def reader_admissible)

theorem shared_card_leads_witness: "take 1 (compose_deck sample_reader) = [''s'']"
  by (rule shared_card_leads)
    (simp_all add: sample_reader_def weather_strip_id_def deck_cap_def)

text \<open>Shared, the weather strip does not lead: it stays the last card of the deck.\<close>

lemma shared_strip_goes_last:
  "lead_card inp = Some weather_strip_id \<Longrightarrow> last (compose_deck inp) = weather_strip_id"
  by (auto simp: compose_deck_def finalize_deck_eq reader_first_def truthy_def weather_strip_id_def)

text \<open>nobody but the reader's own follows decides the order: without a shared card and
  without a country card the deck is the followed set in follow order (the seed for a fresh
  visitor, nothing once cleared), filtered and cut, with the strip last.\<close>

theorem compose_deck_follow_order:
  assumes "lead_card inp = None" and "country_card inp = None"
  shows "compose_deck inp =
     take (or_else (cap_override inp) deck_cap)
       (filter (\<lambda>i. i \<noteq> weather_strip_id \<and> \<not> or_else (dropped inp) (\<lambda>_. False) i \<and>
                    i \<notin> set (or_else (hidden_ids inp) []))
          (uniq (if is_seeded (followed inp) (cleared inp) then or_else (seed inp) []
                 else followed inp))) @
     (if weather_strip_id \<in> set (reader_base inp) then [weather_strip_id] else [])"
  using assms
  by (auto simp: compose_deck_def finalize_deck_eq reader_first_def truthy_def reader_admissible
      reader_base_def is_seeded_def)

theorem compose_deck_follow_order_witness:
  "compose_deck (sample_reader\<lparr>lead_card := None\<rparr>) = [''a'']"
  by (subst compose_deck_follow_order)
    (simp_all add: sample_reader_def is_seeded_def uniq_def weather_strip_id_def reader_base_def
      deck_cap_def)

end
