(* ===== verification/Js_Sort.thy ===== *)
theory Js_Sort
  imports Prelude "HOL-Library.Multiset"
begin

text \<open>
  \<open>Array.prototype.sort\<close> with a comparator: a stable sort. For a consistent
  comparator (a total preorder, read as \<open>cmp x y \<le> 0\<close>) the language standard
  fixes the result, which is the one of the insertion sort below. The interface
  \<open>comparator_on\<close> states consistency on a carrier set; every sort of the source is
  an interpretation of it, and the locale proves once that the result is sorted, is a
  permutation, keeps ties in their order and, when ties are impossible, depends on the
  elements alone.
\<close>

section \<open>The sort\<close>

fun sort_insert :: "('a \<Rightarrow> 'a \<Rightarrow> 'n::linordered_idom) \<Rightarrow> 'a \<Rightarrow> 'a list \<Rightarrow> 'a list" where
  "sort_insert cmp x [] = [x]"
| "sort_insert cmp x (y # ys) =
     (if cmp x y \<le> 0 then x # y # ys else y # sort_insert cmp x ys)"

fun js_sort :: "('a \<Rightarrow> 'a \<Rightarrow> 'n::linordered_idom) \<Rightarrow> 'a list \<Rightarrow> 'a list" where
  "js_sort cmp [] = []"
| "js_sort cmp (x # xs) = sort_insert cmp x (js_sort cmp xs)"

section \<open>What holds for every comparator\<close>

lemma mset_sort_insert [simp]: "mset (sort_insert cmp x ys) = add_mset x (mset ys)"
  by (induction ys) auto

lemma mset_js_sort [simp]: "mset (js_sort cmp xs) = mset xs"
  by (induction xs) auto

lemma set_sort_insert [simp]: "set (sort_insert cmp x ys) = insert x (set ys)"
  by (induction ys) auto

lemma set_js_sort [simp]: "set (js_sort cmp xs) = set xs"
  by (induction xs) auto

lemma length_sort_insert [simp]: "length (sort_insert cmp x ys) = Suc (length ys)"
  by (induction ys) auto

lemma length_js_sort [simp]: "length (js_sort cmp xs) = length xs"
  by (induction xs) auto

lemma distinct_js_sort [simp]: "distinct (js_sort cmp xs) = distinct xs"
  by (metis mset_js_sort mset_eq_imp_distinct_iff)

lemma distinct_map_js_sort [simp]: "distinct (map f (js_sort cmp xs)) = distinct (map f xs)"
  by (metis mset_js_sort mset_map mset_eq_imp_distinct_iff)

text \<open>A list that is already in order is left alone.\<close>

lemma js_sort_sorted:
  "sorted_wrt (\<lambda>x y. cmp x y \<le> 0) xs \<Longrightarrow> js_sort cmp xs = xs"
proof (induction xs)
  case (Cons x xs)
  then show ?case by (cases xs) auto
qed simp

lemma sort_insert_map:
  assumes "\<And>a b. cmp' (f a) (f b) = cmp a b"
  shows "sort_insert cmp' (f x) (map f ys) = map f (sort_insert cmp x ys)"
  using assms by (induction ys) auto

lemma js_sort_map:
  assumes "\<And>a b. cmp' (f a) (f b) = cmp a b"
  shows "js_sort cmp' (map f xs) = map f (js_sort cmp xs)"
  using assms by (induction xs) (auto simp: sort_insert_map)

lemma sort_insert_cong:
  "(\<And>y. y \<in> set ys \<Longrightarrow> cmp x y = cmp' x y) \<Longrightarrow> sort_insert cmp x ys = sort_insert cmp' x ys"
  by (induction ys) auto

text \<open>On a list without duplicates no element is compared with itself.\<close>

lemma js_sort_cong:
  assumes "distinct xs"
    and "\<And>x y. x \<in> set xs \<Longrightarrow> y \<in> set xs \<Longrightarrow> x \<noteq> y \<Longrightarrow> cmp x y = cmp' x y"
  shows "js_sort cmp xs = js_sort cmp' xs"
  using assms
proof (induction xs)
  case (Cons x xs)
  then have IH: "js_sort cmp xs = js_sort cmp' xs" by simp
  have "sort_insert cmp x (js_sort cmp' xs) = sort_insert cmp' x (js_sort cmp' xs)"
    using Cons.prems by (intro sort_insert_cong) auto
  then show ?case by (simp add: IH)
qed simp

section \<open>Consistent comparators\<close>

locale comparator_on =
  fixes cmp :: "'a \<Rightarrow> 'a \<Rightarrow> 'n::linordered_idom" and A :: "'a set"
  assumes cmp_total: "x \<in> A \<Longrightarrow> y \<in> A \<Longrightarrow> cmp x y \<le> 0 \<or> cmp y x \<le> 0"
    and cmp_trans: "x \<in> A \<Longrightarrow> y \<in> A \<Longrightarrow> z \<in> A \<Longrightarrow>
      cmp x y \<le> 0 \<Longrightarrow> cmp y z \<le> 0 \<Longrightarrow> cmp x z \<le> 0"
begin

lemma sorted_insert:
  assumes "x \<in> A" and "set ys \<subseteq> A" and "sorted_wrt (\<lambda>x y. cmp x y \<le> 0) ys"
  shows "sorted_wrt (\<lambda>x y. cmp x y \<le> 0) (sort_insert cmp x ys)"
  using assms
proof (induction ys)
  case (Cons y ys)
  show ?case
  proof (cases "cmp x y \<le> 0")
    case True
    then show ?thesis using Cons.prems cmp_trans [of x y] by auto
  next
    case False
    then have "cmp y x \<le> 0" using Cons.prems cmp_total [of x y] by auto
    then show ?thesis using Cons False by auto
  qed
qed simp

lemma sorted_js_sort:
  "set xs \<subseteq> A \<Longrightarrow> sorted_wrt (\<lambda>x y. cmp x y \<le> 0) (js_sort cmp xs)"
  by (induction xs) (auto intro!: sorted_insert)

text \<open>Stability: the elements that tie with \<open>k\<close> come out in their input order.\<close>

lemma filter_sort_insert:
  assumes "x \<in> A" and "set ys \<subseteq> A" and "k \<in> A"
    and "sorted_wrt (\<lambda>x y. cmp x y \<le> 0) ys"
  shows "filter (\<lambda>z. cmp z k \<le> 0 \<and> cmp k z \<le> 0) (sort_insert cmp x ys) =
         filter (\<lambda>z. cmp z k \<le> 0 \<and> cmp k z \<le> 0) (x # ys)"
  using assms
proof (induction ys)
  case (Cons y ys)
  show ?case
  proof (cases "cmp x y \<le> 0")
    case False
    have "\<not> (cmp x k \<le> 0 \<and> cmp k x \<le> 0 \<and> cmp y k \<le> 0 \<and> cmp k y \<le> 0)"
      using False Cons.prems cmp_trans [of x k y] by auto
    then show ?thesis using Cons False by auto
  qed simp
qed simp

lemma js_sort_stable:
  "set xs \<subseteq> A \<Longrightarrow> k \<in> A \<Longrightarrow>
   filter (\<lambda>z. cmp z k \<le> 0 \<and> cmp k z \<le> 0) (js_sort cmp xs) =
   filter (\<lambda>z. cmp z k \<le> 0 \<and> cmp k z \<le> 0) xs"
  by (induction xs) (auto simp: filter_sort_insert sorted_js_sort)

end

text \<open>
  A strict comparator never ties two different elements. Then there is one sorted
  arrangement only, so the result depends on the elements and not on their order.
\<close>

locale strict_comparator_on = comparator_on +
  assumes cmp_antisym: "x \<in> A \<Longrightarrow> y \<in> A \<Longrightarrow> cmp x y \<le> 0 \<Longrightarrow> cmp y x \<le> 0 \<Longrightarrow> x = y"
begin

lemma sorted_unique:
  assumes "set xs \<subseteq> A" and "mset xs = mset ys"
    and "sorted_wrt (\<lambda>x y. cmp x y \<le> 0) xs" and "sorted_wrt (\<lambda>x y. cmp x y \<le> 0) ys"
  shows "xs = ys"
  using assms
proof (induction xs arbitrary: ys)
  case (Cons x xs)
  then obtain y ys' where ys: "ys = y # ys'" by (cases ys) auto
  have sets: "set (x # xs) = set ys" using Cons.prems(2) mset_eq_setD by blast
  have "x = y"
  proof (rule ccontr)
    assume ne: "x \<noteq> y"
    then have "y \<in> set xs" and "x \<in> set ys'" using sets ys by auto
    then have "cmp x y \<le> 0" and "cmp y x \<le> 0" using Cons.prems ys by auto
    moreover have "x \<in> A" and "y \<in> A" using Cons.prems(1) \<open>y \<in> set xs\<close> by auto
    ultimately show False using ne cmp_antisym by blast
  qed
  then show ?case using Cons ys by auto
qed simp

lemma js_sort_perm:
  assumes "set xs \<subseteq> A" and "mset xs = mset ys"
  shows "js_sort cmp xs = js_sort cmp ys"
proof -
  have "set ys \<subseteq> A" using assms mset_eq_setD by blast
  then show ?thesis using assms by (intro sorted_unique sorted_js_sort) auto
qed

end

text \<open>
  The shape most of the source's comparators have: descending by a key, ties by the
  position the element was given before the sort.
\<close>

definition by_key_desc :: "('a \<Rightarrow> 'n::linordered_idom) \<Rightarrow> 'a \<Rightarrow> 'a \<Rightarrow> 'n" where
  "by_key_desc key a b = key b - key a"

interpretation key_desc: comparator_on "by_key_desc key" UNIV
  for key :: "'a \<Rightarrow> 'n::linordered_idom"
  by unfold_locales (auto simp: by_key_desc_def)

text \<open>
  The source often sorts records \<open>{ item, index, key }\<close> and breaks ties by the index. On
  a list numbered in order that is the stable sort by the key.
\<close>

definition numbered_from :: "nat \<Rightarrow> 'a list \<Rightarrow> ('a \<times> nat) list" where
  "numbered_from n xs = zip xs [n..<n + length xs]"

definition by_key_then_index ::
  "('a \<Rightarrow> 'n::linordered_idom) \<Rightarrow> 'a \<times> nat \<Rightarrow> 'a \<times> nat \<Rightarrow> 'n" where
  "by_key_then_index key a b =
     (if key (fst b) - key (fst a) \<noteq> 0 then key (fst b) - key (fst a)
      else of_nat (snd a) - of_nat (snd b))"

lemma numbered_from_simps [simp]:
  "numbered_from n [] = []"
  "numbered_from n (x # xs) = (x, n) # numbered_from (Suc n) xs"
  by (simp_all add: numbered_from_def upt_rec)

lemma numbered_from_ge: "p \<in> set (numbered_from n xs) \<Longrightarrow> n \<le> snd p"
  by (induction xs arbitrary: n) fastforce+

lemma insert_numbered:
  assumes "\<forall>p \<in> set ps. n < snd p"
  shows "map fst (sort_insert (by_key_then_index key) (x, n) ps) =
         sort_insert (by_key_desc key) x (map fst ps)"
  using assms by (induction ps) (auto simp: by_key_then_index_def by_key_desc_def)

lemma sort_numbered:
  "map fst (js_sort (by_key_then_index key) (numbered_from n xs)) = js_sort (by_key_desc key) xs"
proof (induction xs arbitrary: n)
  case (Cons x xs)
  have "\<forall>p \<in> set (js_sort (by_key_then_index key) (numbered_from (Suc n) xs)). n < snd p"
    using numbered_from_ge [of _ "Suc n" xs] by fastforce
  then show ?case using Cons by (simp add: insert_numbered)
qed simp

lemma sorted_by_key_desc:
  "sorted_wrt (\<lambda>x y. key y \<le> key x) (js_sort (by_key_desc key) xs)"
  using key_desc.sorted_js_sort [of xs key] by (simp add: by_key_desc_def)

lemma js_sort_constant_key:
  "\<forall>x \<in> set xs. key x = k \<Longrightarrow> js_sort (by_key_desc key) xs = xs"
proof (induction xs)
  case (Cons x xs)
  then show ?case by (cases xs) (simp_all add: by_key_desc_def)
qed simp

lemma by_key_desc_stable:
  "filter (\<lambda>z. key z = k) (js_sort (by_key_desc key) xs) = filter (\<lambda>z. key z = k) xs"
proof (cases "\<exists>x \<in> set xs. key x = k")
  case True
  then obtain x where "x \<in> set xs" and k: "key x = k" by blast
  have "(by_key_desc key z x \<le> 0 \<and> by_key_desc key x z \<le> 0) = (key z = k)" for z
    using k by (auto simp: by_key_desc_def)
  then show ?thesis using key_desc.js_sort_stable [of xs x key] by simp
next
  case False
  then have "filter (\<lambda>z. key z = k) xs = []" and
    "filter (\<lambda>z. key z = k) (js_sort (by_key_desc key) xs) = []"
    by (auto simp: filter_empty_conv)
  then show ?thesis by simp
qed

end
