(* ===== verification/Stories.thy ===== *)
theory Stories
  imports Muted Js_Sort
begin

text \<open>
  Same-story handling on a card (\<open>news-core/src/stories.ts\<close>): one row per story, the
  rows more outlets carry first, read rows dropped, and their composition \<open>feed_rows\<close>.
  The two sorts of the source number the items and break ties by the number; both are
  instances of \<open>sort_numbered\<close>.
\<close>

section \<open>Rows\<close>

record clustered =
  row_id :: string
  cluster_id :: "string option"
  publisher_count :: "int option"

record feed_item = clustered +
  title :: string

fun collapse_loop :: "string set \<Rightarrow> ('a) clustered_scheme list \<Rightarrow> ('a) clustered_scheme list" where
  "collapse_loop seen [] = []"
| "collapse_loop seen (x # xs) =
     (case cluster_id x of
        None \<Rightarrow> x # collapse_loop seen xs
      | Some c \<Rightarrow>
          if c \<in> seen then collapse_loop seen xs else x # collapse_loop (insert c seen) xs)"

definition collapse_stories :: "('a) clustered_scheme list \<Rightarrow> ('a) clustered_scheme list" where
  "collapse_stories xs = collapse_loop {} xs"

definition has_coverage :: "('a) clustered_scheme \<Rightarrow> bool" where
  "has_coverage x \<longleftrightarrow> or_else (publisher_count x) 0 > 1"

definition hide_read :: "('a) clustered_scheme list \<Rightarrow> (string \<Rightarrow> bool) \<Rightarrow> ('a) clustered_scheme list" where
  "hide_read xs is_read = filter (\<lambda>x. \<not> is_read (row_id x)) xs"

definition rank_by_coverage :: "string list \<Rightarrow> (string \<Rightarrow> int option) \<Rightarrow> string list" where
  "rank_by_coverage ids coverage_of =
     map fst (js_sort (by_key_then_index (\<lambda>i. or_else (coverage_of i) 0)) (numbered_from 0 ids))"

definition lift_key :: "('a) clustered_scheme \<Rightarrow> int" where
  "lift_key x = (let n = or_else (publisher_count x) 0 in if n > 1 then n else 0)"

definition lift_coverage :: "('a) clustered_scheme list \<Rightarrow> ('a) clustered_scheme list" where
  "lift_coverage xs = map fst (js_sort (by_key_then_index lift_key) (numbered_from 0 xs))"

definition feed_rows ::
  "('a) feed_item_scheme list \<Rightarrow> string list \<Rightarrow> bool \<Rightarrow> bool \<Rightarrow> (string \<Rightarrow> bool) \<Rightarrow> ('a) feed_item_scheme list" where
  "feed_rows xs muted_words every_outlet hiding_read is_read =
     (let rows = filter_muted xs muted_words title;
          rows' = (if \<not> every_outlet then lift_coverage (collapse_stories rows) else rows)
      in if hiding_read then hide_read rows' is_read else rows')"

section \<open>Lemmas\<close>

lemma lift_coverage_eq: "lift_coverage xs = js_sort (by_key_desc lift_key) xs"
  by (simp add: lift_coverage_def sort_numbered)

lemma rank_by_coverage_eq:
  "rank_by_coverage ids cov = js_sort (by_key_desc (\<lambda>i. or_else (cov i) 0)) ids"
  by (simp add: rank_by_coverage_def sort_numbered)

lemma set_collapse_loop: "set (collapse_loop seen xs) \<subseteq> set xs"
  by (induction seen xs rule: collapse_loop.induct) (auto split: option.splits if_splits)

lemma collapse_loop_cluster_unseen:
  "x \<in> set (collapse_loop seen xs) \<Longrightarrow> cluster_id x = Some c \<Longrightarrow> c \<notin> seen"
  by (induction seen xs rule: collapse_loop.induct) (auto split: option.splits if_splits)

text \<open>The rows kept are, cluster by cluster, the first row of the cluster.\<close>

lemma collapse_loop_cluster:
  "filter (\<lambda>x. cluster_id x = Some c) (collapse_loop seen xs) =
     (if c \<in> seen then [] else take 1 (filter (\<lambda>x. cluster_id x = Some c) xs))"
proof (induction seen xs rule: collapse_loop.induct)
  case (2 seen x xs)
  show ?case
  proof (cases "cluster_id x")
    case None
    then show ?thesis using 2(1) by simp
  next
    case (Some d)
    then show ?thesis using 2(2,3) [OF Some] by (cases "c = d") auto
  qed
qed simp

lemma collapse_loop_unclustered:
  "filter (\<lambda>x. cluster_id x = None) (collapse_loop seen xs) = filter (\<lambda>x. cluster_id x = None) xs"
  by (induction seen xs rule: collapse_loop.induct) (auto split: option.splits)

section \<open>Properties\<close>

text \<open>collapsing keeps, of every story, exactly its first row, and every row that belongs to
  no story, in their order.\<close>

theorem collapse_keeps_first:
  "filter (\<lambda>x. cluster_id x = Some c) (collapse_stories xs) =
     take 1 (filter (\<lambda>x. cluster_id x = Some c) xs) \<and>
   filter (\<lambda>x. cluster_id x = None) (collapse_stories xs) = filter (\<lambda>x. cluster_id x = None) xs"
  by (simp add: collapse_stories_def collapse_loop_cluster collapse_loop_unclustered)

text \<open>lifting by coverage is the stable sort by outlet count: the same rows, in descending
  count, rows of equal standing in the publisher's order; a feed nobody else carries is
  untouched.\<close>

theorem lift_coverage_stable_sort:
  "mset (lift_coverage xs) = mset xs \<and>
   sorted_wrt (\<lambda>x y. lift_key y \<le> lift_key x) (lift_coverage xs) \<and>
   filter (\<lambda>x. lift_key x = k) (lift_coverage xs) = filter (\<lambda>x. lift_key x = k) xs \<and>
   (list_ex has_coverage xs \<or> lift_coverage xs = xs)"
proof -
  have "lift_coverage xs = xs" if "\<not> list_ex has_coverage xs"
  proof -
    have "lift_key x = 0" if "x \<in> set xs" for x
      using that \<open>\<not> list_ex has_coverage xs\<close>
      by (auto simp: list_ex_iff has_coverage_def lift_key_def Let_def)
    then show ?thesis using js_sort_constant_key [of xs lift_key 0] by (simp add: lift_coverage_eq)
  qed
  then show ?thesis
    by (auto simp: lift_coverage_eq sorted_by_key_desc by_key_desc_stable)
qed

lemma mset_filter_eqI: "mset xs = mset ys \<Longrightarrow> mset (filter P xs) = mset (filter P ys)"
  by (simp add: mset_filter)

lemma filter_take_one:
  assumes "mset xs = mset ys" and "filter P ys = take 1 zs"
  shows "filter P xs = take 1 zs"
proof -
  have m: "mset (filter P xs) = mset (take 1 zs)"
    using mset_filter_eqI [OF assms(1), of P] assms(2) by simp
  then show ?thesis by (cases zs) (simp_all add: mset_single_iff del: mset_filter)
qed

text \<open>C28: The rows of a feed card, with the muted headlines out. Unless every outlet was asked for:
  every story is there in exactly one row, the first of its headlines that is not muted, and every
  headline of no story is there too, the ones more outlets carry first and those of equal standing
  in the order of the feed; asked for every outlet, all of them are there in the order of the feed.
  When read rows are hidden, exactly the rows the reader opened are then missing (a story whose row
  was opened with it, another outlet's copy does not take its place).\<close>

theorem feed_rows_sound:
  fixes xs ws every hiding is_read
  defines "rows \<equiv> feed_rows xs ws every hiding is_read"
    and "kept \<equiv> filter (\<lambda>x. \<not> is_muted (title x) ws) xs"
    and "shown \<equiv> \<lambda>x. hiding \<longrightarrow> \<not> is_read (row_id x)"
  shows "(every \<longrightarrow> rows = filter shown kept) \<and>
    (\<not> every \<longrightarrow>
      (\<forall>c. filter (\<lambda>x. cluster_id x = Some c) rows =
         filter shown (take 1 (filter (\<lambda>x. cluster_id x = Some c) kept))) \<and>
      mset (filter (\<lambda>x. cluster_id x = None) rows) = mset (filter shown (filter (\<lambda>x. cluster_id x = None) kept)) \<and>
      sorted_wrt (\<lambda>x y. lift_key y \<le> lift_key x) rows \<and>
      (\<forall>k. filter (\<lambda>x. lift_key x = k) rows = filter shown (filter (\<lambda>x. lift_key x = k) (collapse_stories kept))))"
proof -
  let ?l = "lift_coverage (collapse_stories kept)"
  have m: "filter_muted xs ws title = kept" by (simp add: filter_muted_eq kept_def)
  have rows: "rows = filter shown (if every then kept else ?l)"
    by (auto simp: rows_def feed_rows_def m hide_read_def shown_def Let_def intro: filter_cong)
  have ms: "mset ?l = mset (collapse_stories kept)" by (simp add: lift_coverage_eq)
  have one: "filter (\<lambda>x. cluster_id x = Some c) ?l = take 1 (filter (\<lambda>x. cluster_id x = Some c) kept)" for c
    by (rule filter_take_one [OF ms]) (simp add: collapse_stories_def collapse_loop_cluster)
  have none: "mset (filter (\<lambda>x. cluster_id x = None) ?l) = mset (filter (\<lambda>x. cluster_id x = None) kept)"
    using mset_filter_eqI [OF ms, of "\<lambda>x. cluster_id x = None"]
    by (simp only: collapse_stories_def collapse_loop_unclustered)
  have swap: "filter P (filter shown ys) = filter shown (filter P ys)" for P ys by (simp add: conj_commute)
  have sorted: "sorted_wrt (\<lambda>x y. lift_key y \<le> lift_key x) (filter shown ?l)"
    by (simp add: lift_coverage_eq sorted_by_key_desc sorted_wrt_filter)
  have stable: "filter (\<lambda>x. lift_key x = k) ?l = filter (\<lambda>x. lift_key x = k) (collapse_stories kept)" for k
    by (simp add: lift_coverage_eq by_key_desc_stable)
  have story: "filter (\<lambda>x. cluster_id x = Some c) (filter shown ?l) =
      filter shown (take 1 (filter (\<lambda>x. cluster_id x = Some c) kept))" for c
    unfolding swap one ..
  have equal: "filter (\<lambda>x. lift_key x = k) (filter shown ?l) =
      filter shown (filter (\<lambda>x. lift_key x = k) (collapse_stories kept))" for k
    unfolding swap stable ..
  have rest: "mset (filter (\<lambda>x. cluster_id x = None) (filter shown ?l)) =
      mset (filter shown (filter (\<lambda>x. cluster_id x = None) kept))"
    unfolding swap by (rule mset_filter_eqI [OF none])
  show ?thesis
  proof (cases every)
    case False
    then have "rows = filter shown ?l" using rows by simp
    then show ?thesis using False story rest sorted equal by blast
  qed (use rows in simp)
qed

definition sample_row :: "string \<Rightarrow> string option \<Rightarrow> int option \<Rightarrow> string \<Rightarrow> feed_item" where
  "sample_row i c n t = \<lparr>row_id = i, cluster_id = c, publisher_count = n, title = t\<rparr>"

definition sample_feed :: "feed_item list" where
  "sample_feed =
     [sample_row ''1'' None None ''Weather today'', sample_row ''2'' (Some ''k'') (Some 3) ''Budget passes'',
      sample_row ''3'' (Some ''k'') (Some 3) ''Budget approved'', sample_row ''4'' None None ''GOLF final'']"

theorem feed_rows_sound_witness:
  "map row_id (feed_rows sample_feed [''golf''] False False (\<lambda>_. False)) = [''2'', ''1''] \<and>
   map row_id (feed_rows sample_feed [''golf''] True True (\<lambda>i. i = ''2'')) = [''1'', ''3'']"
proof
  show "map row_id (feed_rows sample_feed [''golf''] False False (\<lambda>_. False)) = [''2'', ''1'']"
    by code_simp
  have "feed_rows sample_feed [''golf''] True True (\<lambda>i. i = ''2'') =
      filter (\<lambda>x. True \<longrightarrow> row_id x \<noteq> ''2'') (filter (\<lambda>x. \<not> is_muted (title x) [''golf'']) sample_feed)"
    using feed_rows_sound [of True sample_feed "[''golf'']" True "\<lambda>i. i = ''2''"] by blast
  moreover have "map row_id (filter (\<lambda>x. True \<longrightarrow> row_id x \<noteq> ''2'')
      (filter (\<lambda>x. \<not> is_muted (title x) [''golf'']) sample_feed)) = [''1'', ''3'']"
    by code_simp
  ultimately show "map row_id (feed_rows sample_feed [''golf''] True True (\<lambda>i. i = ''2'')) = [''1'', ''3'']"
    by simp
qed

end
