(* ===== verification/Slots.thy ===== *)
theory Slots
  imports Js_Sort "HOL-Library.Word" "HOL-Library.Product_Lexorder"
begin

unbundle bit_operations_syntax

text \<open>
  The slot allocator and the dwell rule (\<open>news-core/src/slots.ts\<close>). Slot counts and
  demands are integers; the weighted shares are real numbers, so the rounding of doubles is
  not modelled. The loops are recursions over the parallel lists they index; the borrowing
  loop ends because a pass that makes progress lowers what is left.

  The ranking sorts with \<open>compare_candidates\<close>. Two candidates of the same id compare
  inconsistently (each after the other), so the ranking is determined where ids are
  distinct: there the comparator agrees with the lexicographic order of \<open>candidate_key\<close>.
\<close>

section \<open>Sharing slots\<close>

datatype slot_strategy = Elastic | Weighted

definition zeros :: "nat \<Rightarrow> int list" where
  "zeros n = replicate n 0"

text \<open>One pass over the groups: the shares, what is left, and whether a slot was given.\<close>

fun borrow_pass :: "int list \<Rightarrow> int list \<Rightarrow> int \<Rightarrow> int list \<times> int \<times> bool" where
  "borrow_pass [] demand left = ([], left, False)"
| "borrow_pass (have' # out) demand left =
     (if left \<le> 0 then (have' # out, left, False)
      else
        (let want = (case demand of [] \<Rightarrow> 0 | d # _ \<Rightarrow> d) in
         if have' < want then
           (let (out', left', _) = borrow_pass out (tl demand) (left - 1)
            in ((have' + 1) # out', left', True))
         else
           (let (out', left', p) = borrow_pass out (tl demand) left
            in (have' # out', left', p))))"

lemma borrow_pass_left:
  "borrow_pass out demand left = (out', left', p) \<Longrightarrow>
   left' \<le> left \<and> (0 \<le> left \<longrightarrow> 0 \<le> left') \<and> (p \<longrightarrow> left' < left \<and> 0 \<le> left')"
  by (induction out demand left arbitrary: out' left' p rule: borrow_pass.induct)
    (fastforce simp: Let_def split: if_splits prod.splits)+

function borrow :: "int list \<Rightarrow> int list \<Rightarrow> int \<Rightarrow> int list \<times> int" where
  "borrow out demand left =
     (if left > 0 then
        (case borrow_pass out demand left of (out', left', progressed) \<Rightarrow>
           if progressed then borrow out' demand left' else (out', left'))
      else (out, left))"
  by pat_completeness auto
termination
  by (relation "measure (\<lambda>(out, demand, left). nat left)")
    (auto dest: borrow_pass_left [OF sym])

declare borrow.simps [simp del]

text \<open>The first slot of every group that has anything to show and got none.\<close>

fun first_slots :: "int list \<Rightarrow> int list \<Rightarrow> int \<Rightarrow> int \<Rightarrow> int list \<times> int" where
  "first_slots (d # ds) (x # out) used cap =
     (if \<not> used < cap then (x # out, used)
      else if d > 0 \<and> x = 0 then
        (let (out', used') = first_slots ds out (used + 1) cap in (1 # out', used'))
      else
        (let (out', used') = first_slots ds out used cap in (x # out', used')))"
| "first_slots _ out used cap = (out, used)"

text \<open>One more slot by largest remainder, in the order given.\<close>

fun remainder_slots :: "int list \<Rightarrow> nat list \<Rightarrow> int list \<Rightarrow> int \<Rightarrow> int \<Rightarrow> int list \<times> int" where
  "remainder_slots demand [] out used cap = (out, used)"
| "remainder_slots demand (i # order) out used cap =
     (if used \<ge> cap then (out, used)
      else if out ! i < demand ! i
      then remainder_slots demand order (out[i := out ! i + 1]) (used + 1) cap
      else remainder_slots demand order out used cap)"

definition raw_shares :: "int list \<Rightarrow> real list option \<Rightarrow> real list" where
  "raw_shares demand weights =
     map (\<lambda>(d, i). if d > 0 then
              sqrt (of_int d) * max 0 (case weights of
                None \<Rightarrow> 1
              | Some ws \<Rightarrow> or_else (elem_at ws (int i)) 1)
            else 0)
       (zip demand [0..<length demand])"

definition frac_part :: "real \<Rightarrow> real" where
  "frac_part v = v - of_int \<lfloor>v\<rfloor>"

definition remainder_order :: "real list \<Rightarrow> nat list" where
  "remainder_order exact =
     map snd (js_sort (by_key_then_index frac_part) (numbered_from 0 exact))"

definition allocate :: "int list \<Rightarrow> real \<Rightarrow> slot_strategy \<Rightarrow> real list option \<Rightarrow> int list" where
  "allocate demand capacity strategy weights =
     (let n = length demand in
      if n = 0 \<or> capacity \<le> 0 then zeros n
      else
        (let cap = \<lfloor>capacity\<rfloor> in
         case strategy of
           Elastic \<Rightarrow>
             (let share = cap div int n;
                  out = map (\<lambda>d. min (max 0 d) share) demand
              in fst (borrow out demand (cap - sum_list out)))
         | Weighted \<Rightarrow>
             (let raw = raw_shares demand weights;
                  total = sum_list raw
              in if total \<le> 0 then zeros n
                 else
                   (let exact = map (\<lambda>v. v / total * of_int cap) raw;
                        out = map2 (\<lambda>v d. min \<lfloor>v\<rfloor> d) exact demand;
                        (out1, used1) = first_slots demand out (sum_list out) cap;
                        (out2, used2) = remainder_slots demand (remainder_order exact) out1 used1 cap
                    in fst (borrow out2 demand (cap - used2))))))"

section \<open>Ranking\<close>

record slot_candidate =
  cand_id :: string
  pinned :: "bool option"
  incumbent :: "bool option"
  score :: "real option"
  published_at :: "real option"

text \<open>FNV-1a over UTF-16 code units, in 32 bits.\<close>

definition fnv_step :: "32 word \<Rightarrow> nat \<Rightarrow> 32 word" where
  "fnv_step hash unit = (hash XOR of_nat unit) * 0x01000193"

definition hash_units :: "nat list \<Rightarrow> 32 word" where
  "hash_units units = foldl fnv_step 0x811c9dc5 units"

definition stable_hash :: "string \<Rightarrow> 32 word" where
  "stable_hash text = hash_units (utf16_units text)"

definition compare_candidates :: "slot_candidate \<Rightarrow> slot_candidate \<Rightarrow> real" where
  "compare_candidates a b =
     (let pa = or_else (pinned a) False; pb = or_else (pinned b) False;
          ia = or_else (incumbent a) False; ib = or_else (incumbent b) False;
          ta = or_else (published_at a) 0; tb = or_else (published_at b) 0;
          h = real_of_int (uint (stable_hash (cand_id a)) - uint (stable_hash (cand_id b)));
          rest = (if ta \<noteq> tb then tb - ta
                  else if h \<noteq> 0 then h
                  else if cand_id a < cand_id b then -1 else 1)
      in if pa \<noteq> pb then (if pa then -1 else 1)
         else if ia \<noteq> ib then (if ia then -1 else 1)
         else (case (score a, score b) of
             (None, None) \<Rightarrow> rest
           | (None, Some _) \<Rightarrow> 1
           | (Some _, None) \<Rightarrow> -1
           | (Some sa, Some sb) \<Rightarrow> if sa \<noteq> sb then sb - sa else rest))"

definition dwell_ms :: real where
  "dwell_ms = 5 * 60000"

record dwell_input =
  candidates :: "slot_candidate list"
  previous :: "string list"
  placed_at :: "string \<rightharpoonup> real"
  now_ms :: real
  dwell_override :: "real option"

definition mark_incumbent :: "dwell_input \<Rightarrow> slot_candidate \<Rightarrow> slot_candidate" where
  "mark_incumbent inp c =
     (let held = cand_id c \<in> set (previous inp) \<and>
            (case placed_at inp (cand_id c) of
               None \<Rightarrow> False
             | Some placed \<Rightarrow> now_ms inp - placed < or_else (dwell_override inp) dwell_ms)
      in c\<lparr>incumbent := Some (or_else (incumbent c) False \<or> held)\<rparr>)"

fun place_all :: "dwell_input \<Rightarrow> slot_candidate list \<Rightarrow> (string \<rightharpoonup> real) \<Rightarrow> (string \<rightharpoonup> real)" where
  "place_all inp [] m = m"
| "place_all inp (c # cs) m =
     place_all inp cs (m(cand_id c \<mapsto> or_else (placed_at inp (cand_id c)) (now_ms inp)))"

definition rank_with_dwell :: "dwell_input \<Rightarrow> slot_candidate list \<times> (string \<rightharpoonup> real)" where
  "rank_with_dwell inp =
     (let ranked = js_sort compare_candidates (map (mark_incumbent inp) (candidates inp))
      in (ranked, place_all inp ranked Map.empty))"

section \<open>Borrowing\<close>

text \<open>
  What one pass and the whole loop keep: the number of groups, that no share shrinks or
  passes its demand, and that the slots given and left add up.
\<close>

definition fills :: "int list \<Rightarrow> int list \<Rightarrow> int list \<Rightarrow> bool" where
  "fills demand out out' \<longleftrightarrow>
     length out' = length out \<and>
     (\<forall>i < length out. out ! i \<le> out' ! i \<and> out' ! i \<le> max (out ! i) (demand ! i))"

lemma fills_Nil [simp]: "fills demand [] []"
  by (simp add: fills_def)

lemma fills_Cons [simp]:
  "fills (d # ds) (x # xs) (y # ys) \<longleftrightarrow> x \<le> y \<and> y \<le> max x d \<and> fills ds xs ys"
  by (auto simp: fills_def All_less_Suc2)

lemma fills_refl [simp]: "fills demand out out"
  by (auto simp: fills_def)

lemma fills_length: "fills demand out out' \<Longrightarrow> length out' = length out"
  by (simp add: fills_def)

lemma fills_trans:
  assumes "fills demand a b" and "fills demand b c"
  shows "fills demand a c"
proof -
  have "a ! i \<le> c ! i \<and> c ! i \<le> max (a ! i) (demand ! i)" if "i < length a" for i
  proof -
    have "a ! i \<le> b ! i \<and> b ! i \<le> max (a ! i) (demand ! i)"
      and "b ! i \<le> c ! i \<and> c ! i \<le> max (b ! i) (demand ! i)"
      using that assms by (auto simp: fills_def)
    then show ?thesis by auto
  qed
  then show ?thesis using assms by (simp add: fills_def)
qed

lemma borrow_pass_fills:
  "borrow_pass out demand left = (out', left', p) \<Longrightarrow> length demand = length out \<Longrightarrow>
   fills demand out out' \<and> sum_list out' + left' = sum_list out + left \<and>
   (\<not> p \<longrightarrow> out' = out \<and> left' = left \<and> (0 < left \<longrightarrow> list_all2 (\<le>) demand out))"
proof (induction out arbitrary: demand left out' left' p)
  case (Cons x out)
  obtain d ds where dem: "demand = d # ds" using Cons.prems(2) by (cases demand) auto
  have len: "length ds = length out" using Cons.prems(2) dem by simp
  consider "left \<le> 0" | "0 < left" "x < d" | "0 < left" "d \<le> x" by linarith
  then show ?case
  proof cases
    case 1
    then show ?thesis using Cons.prems(1) by auto
  next
    case 2
    obtain o1 l1 q where rec: "borrow_pass out ds (left - 1) = (o1, l1, q)"
      by (metis prod_cases3)
    show ?thesis
      using Cons.IH [OF rec len] Cons.prems(1) 2 rec by (auto simp: dem)
  next
    case 3
    obtain o1 l1 q where rec: "borrow_pass out ds left = (o1, l1, q)"
      by (metis prod_cases3)
    show ?thesis
      using Cons.IH [OF rec len] Cons.prems(1) 3 rec by (auto simp: dem)
  qed
qed simp

lemma borrow_pass_more: "fst (borrow out demand left) = out" if "left \<le> 0"
  using that by (simp add: borrow.simps [of out])

lemma borrow_fills:
  "borrow out demand left = (out', left') \<Longrightarrow> length demand = length out \<Longrightarrow> 0 \<le> left \<Longrightarrow>
   fills demand out out' \<and> sum_list out' + left' = sum_list out + left \<and> 0 \<le> left' \<and>
   (left' = 0 \<or> list_all2 (\<le>) demand out')"
proof (induction "nat left" arbitrary: out left rule: less_induct)
  case less
  show ?case
  proof (cases "left > 0")
    case False
    then show ?thesis using less.prems by (simp add: borrow.simps [of out])
  next
    case True
    obtain o1 l1 p where pass: "borrow_pass out demand left = (o1, l1, p)"
      by (metis prod_cases3)
    note pf = borrow_pass_fills [OF pass less.prems(2)]
    note l1 = borrow_pass_left [OF pass]
    show ?thesis
    proof (cases p)
      case False
      then show ?thesis using less.prems(1) True pass pf by (simp add: borrow.simps [of out])
    next
      case p: True
      have rec: "borrow o1 demand l1 = (out', left')"
        using less.prems(1) True pass p by (simp add: borrow.simps [of out])
      have len: "length demand = length o1"
        using pf less.prems(2) by (simp add: fills_def)
      have small: "nat l1 < nat left" and pos: "0 \<le> l1" using l1 p True by auto
      note IH = less.hyps [OF small rec len pos]
      show ?thesis using IH pf fills_trans [of demand out o1 out'] by linarith
    qed
  qed
qed

section \<open>The elastic strategy\<close>

lemma sum_list_le:
  "length xs = length ys \<Longrightarrow> (\<And>i. i < length ys \<Longrightarrow> xs ! i \<le> ys ! i) \<Longrightarrow>
   sum_list xs \<le> sum_list (ys::int list)"
  by (induction xs ys rule: list_induct2) (force intro: add_mono)+

lemma elastic_share:
  assumes "0 < capacity"
  shows "sum_list (map (\<lambda>d. min (max 0 d) (\<lfloor>capacity\<rfloor> div int (length demand))) demand) \<le> \<lfloor>capacity\<rfloor>"
proof (cases "demand = []")
  case False
  let ?n = "int (length demand)" and ?s = "\<lfloor>capacity\<rfloor> div int (length demand)"
  have "sum_list (map (\<lambda>d. min (max 0 d) ?s) demand) \<le> sum_list (map (\<lambda>d. ?s) demand)"
    by (rule sum_list_mono) simp
  also have "\<dots> = ?n * ?s" by (simp add: sum_list_triv)
  also have "\<dots> \<le> \<lfloor>capacity\<rfloor>" by (metis mult.commute div_mult_mod_eq pos_mod_sign [of ?n] add_increasing2 order_refl False
        length_greater_0_conv of_nat_0_less_iff)
  finally show ?thesis .
qed (use assms in simp)

text \<open>
  C26: An elastic allocation gives every group at least its equal share (or all it asks
  for, when that is less) and never more than it asks for, and it hands out every slot
  there is unless every demand is met.
\<close>

theorem allocate_elastic:
  assumes "0 < capacity" and "demand \<noteq> []"
  shows "length (allocate demand capacity Elastic weights) = length demand \<and>
    sum_list (allocate demand capacity Elastic weights) =
      min \<lfloor>capacity\<rfloor> (sum_list (map (max 0) demand)) \<and>
    (\<forall>i < length demand.
       min (max 0 (demand ! i)) (\<lfloor>capacity\<rfloor> div int (length demand))
         \<le> allocate demand capacity Elastic weights ! i \<and>
       allocate demand capacity Elastic weights ! i \<le> max 0 (demand ! i))"
proof -
  let ?cap = "\<lfloor>capacity\<rfloor>" and ?s = "\<lfloor>capacity\<rfloor> div int (length demand)"
  define out where "out = map (\<lambda>d. min (max 0 d) ?s) demand"
  obtain res left' where b: "borrow out demand (?cap - sum_list out) = (res, left')"
    by (metis prod.exhaust)
  have al: "allocate demand capacity Elastic weights = res"
    using assms b by (simp add: allocate_def Let_def out_def)
  have s: "0 \<le> ?s" using assms by (simp add: pos_imp_zdiv_nonneg_iff)
  have len: "length demand = length out" by (simp add: out_def)
  have bf: "fills demand out res" "sum_list res + left' = ?cap" "0 \<le> left'"
    "left' = 0 \<or> list_all2 (\<le>) demand res"
    using borrow_fills [OF b len] elastic_share [OF assms(1), of demand] by (auto simp: out_def)
  have each: "out ! i \<le> res ! i \<and> res ! i \<le> max 0 (demand ! i) \<and> 0 \<le> out ! i"
    if "i < length demand" for i
    using bf(1) that s by (fastforce simp: fills_def out_def)
  have lres: "length res = length demand" using bf(1) len by (simp add: fills_def)
  have up: "sum_list res \<le> sum_list (map (max 0) demand)"
    using each lres by (intro sum_list_le) auto
  have "sum_list res = min ?cap (sum_list (map (max 0) demand))"
  proof (cases "left' = 0")
    case True
    then show ?thesis using bf up by simp
  next
    case False
    then have "demand ! i \<le> res ! i" if "i < length demand" for i
      using bf(4) that by (auto simp: list_all2_conv_all_nth)
    then have "sum_list (map (max 0) demand) \<le> sum_list res"
      using each lres by (intro sum_list_le) (auto intro: order_trans)
    then show ?thesis using up bf by simp
  qed
  then show ?thesis using each lres by (simp add: al) (simp add: out_def)
qed

theorem allocate_elastic_witness:
  "length (allocate [5, 1, -2] 6 Elastic None) = 3 \<and> sum_list (allocate [5, 1, -2] 6 Elastic None) = 6"
  using allocate_elastic [of 6 "[5, 1, -2]" None] by simp

section \<open>The weighted strategy\<close>

lemma first_slots_fills:
  "first_slots demand out used cap = (out', used') \<Longrightarrow> length demand = length out \<Longrightarrow> used \<le> cap \<Longrightarrow>
   fills demand out out' \<and> sum_list out' - used' = sum_list out - used \<and> used' \<le> cap"
proof (induction demand out used cap arbitrary: out' used' rule: first_slots.induct)
  case (1 d ds x out used cap)
  obtain o1 u1 where r1: "first_slots ds out (used + 1) cap = (o1, u1)" by (metis prod.exhaust)
  obtain o2 u2 where r2: "first_slots ds out used cap = (o2, u2)" by (metis prod.exhaust)
  have len: "length ds = length out" using 1(4) by simp
  consider "\<not> used < cap" | "used < cap" "0 < d" "x = 0" | "used < cap" "\<not> (0 < d \<and> x = 0)" by blast
  then show ?case
  proof cases
    case 1
    then show ?thesis using "1.prems" by auto
  next
    case 2
    then show ?thesis using 1(1) [of o1 u1] 1(3) r1 len by auto
  next
    case 3
    then show ?thesis using 1(2) [of o2 u2] 1(3) 1(5) r2 len by (auto split: if_splits)
  qed
qed auto

lemma fills_step:
  assumes "i < length out" and "out ! i < demand ! i"
  shows "fills demand out (out[i := out ! i + 1])"
  using assms by (auto simp: fills_def nth_list_update)

lemma sum_list_bump: "i < length xs \<Longrightarrow> sum_list (xs[i := xs ! i + 1]) = sum_list xs + (1::int)"
proof (induction xs arbitrary: i)
  case (Cons x xs)
  then show ?case by (cases i) auto
qed simp

lemma remainder_slots_fills:
  "remainder_slots demand order out used cap = (out', used') \<Longrightarrow>
   \<forall>i \<in> set order. i < length out \<Longrightarrow> used \<le> cap \<Longrightarrow>
   fills demand out out' \<and> sum_list out' - used' = sum_list out - used \<and> used' \<le> cap"
proof (induction demand order out used cap arbitrary: out' used' rule: remainder_slots.induct)
  case (2 demand i order out used cap)
  consider "used \<ge> cap" | "used < cap" "out ! i < demand ! i" | "used < cap" "\<not> out ! i < demand ! i"
    by linarith
  then show ?case
  proof cases
    case 1
    then show ?thesis using "2.prems" by auto
  next
    case c: 2
    have rec: "remainder_slots demand order (out[i := out ! i + 1]) (used + 1) cap = (out', used')"
      using "2.prems"(1) c by simp
    have "fills demand (out[i := out ! i + 1]) out' \<and>
        sum_list out' - used' = sum_list (out[i := out ! i + 1]) - (used + 1) \<and> used' \<le> cap"
      using 2(1) [OF _ c(2) rec] "2.prems"(2) c(1) by simp
    moreover have "fills demand out (out[i := out ! i + 1])"
      using fills_step [of i out demand] "2.prems"(2) c(2) by simp
    moreover have "sum_list (out[i := out ! i + 1]) = sum_list out + 1"
      using "2.prems"(2) by (simp add: sum_list_bump)
    ultimately show ?thesis using fills_trans by auto
  next
    case 3
    then show ?thesis using "2.IH"(2) "2.prems" by simp
  qed
qed simp

lemma remainder_order_range: "i \<in> set (remainder_order exact) \<Longrightarrow> i < length exact"
  by (auto simp: remainder_order_def numbered_from_def dest: set_zip_rightD)

lemma sum_shares: "sum_list (map (\<lambda>v. v / t * c) raw) = sum_list raw / t * (c::real)"
  by (induction raw) (auto simp: add_divide_distrib distrib_right)

lemma raw_shares_nonneg: "v \<in> set (raw_shares demand weights) \<Longrightarrow> 0 \<le> v"
  by (auto simp: raw_shares_def)

lemma length_raw_shares [simp]: "length (raw_shares demand weights) = length demand"
  by (simp add: raw_shares_def)

lemma sum_floor_le: "sum_list (map2 (\<lambda>v d. min \<lfloor>v\<rfloor> d) vs ds) \<le> \<lfloor>sum_list (vs::real list)\<rfloor>"
  if "length vs = length ds"
  using that
proof (induction vs ds rule: list_induct2)
  case (Cons v vs d ds)
  have "\<lfloor>v\<rfloor> + \<lfloor>sum_list vs\<rfloor> \<le> \<lfloor>v + sum_list vs\<rfloor>" by (rule le_floor_add)
  then show ?case using Cons by (auto simp: min_def)
qed simp

text \<open>
  a weighted allocation with any positive share hands out every slot there is unless
  every demand is met, and gives no group more than it asks for or less than nothing.
\<close>

theorem allocate_weighted:
  assumes "0 < capacity" and "\<forall>d \<in> set demand. 0 \<le> d"
    and "0 < sum_list (raw_shares demand weights)"
  shows "length (allocate demand capacity Weighted weights) = length demand \<and>
    sum_list (allocate demand capacity Weighted weights) = min \<lfloor>capacity\<rfloor> (sum_list demand) \<and>
    (\<forall>i < length demand. 0 \<le> allocate demand capacity Weighted weights ! i \<and>
       allocate demand capacity Weighted weights ! i \<le> demand ! i)"
proof -
  let ?cap = "\<lfloor>capacity\<rfloor>"
  define raw where "raw = raw_shares demand weights"
  define exact where "exact = map (\<lambda>v. v / sum_list raw * of_int ?cap) raw"
  define out where "out = map2 (\<lambda>v d. min \<lfloor>v\<rfloor> d) exact demand"
  obtain o1 u1 where f: "first_slots demand out (sum_list out) ?cap = (o1, u1)"
    by (metis prod.exhaust)
  obtain o2 u2 where r: "remainder_slots demand (remainder_order exact) o1 u1 ?cap = (o2, u2)"
    by (metis prod.exhaust)
  obtain res left' where b: "borrow o2 demand (?cap - u2) = (res, left')"
    by (metis prod.exhaust)
  have ne: "demand \<noteq> []" and pos: "0 < sum_list raw"
    using assms(3) by (auto simp: raw_shares_def raw_def)
  have al: "allocate demand capacity Weighted weights = res"
    using assms(1) ne pos f r b
    by (simp add: allocate_def Let_def raw_def [symmetric] exact_def out_def del: times_divide_eq_left)
  have lens: "length exact = length demand" "length demand = length out"
    by (simp_all add: exact_def raw_def out_def)
  have "sum_list exact = of_int ?cap" using pos unfolding exact_def sum_shares by simp
  then have start: "sum_list out \<le> ?cap"
    using sum_floor_le [OF lens(1)] by (simp add: out_def)
  note F = first_slots_fills [OF f lens(2) start]
  have l1: "length o1 = length demand" using F lens by (simp add: fills_def)
  have R: "fills demand o1 o2 \<and> sum_list o2 - u2 = sum_list o1 - u1 \<and> u2 \<le> ?cap"
    using remainder_slots_fills [OF r] F l1 lens(1) remainder_order_range by fastforce
  have l2: "length demand = length o2" using R l1 by (simp add: fills_def)
  have B: "fills demand o2 res" "sum_list res + left' = sum_list o2 + (?cap - u2)"
    "0 \<le> left'" "left' = 0 \<or> list_all2 (\<le>) demand res"
    using borrow_fills [OF b l2] R by auto
  have "fills demand out res" using F R B(1) fills_trans by blast
  then have each: "out ! i \<le> res ! i \<and> res ! i \<le> max (out ! i) (demand ! i)"
    if "i < length demand" for i
    using that lens by (simp add: fills_def)
  have nonneg: "0 \<le> v" if "v \<in> set exact" for v
    using that assms(1) pos raw_shares_nonneg by (auto simp: exact_def raw_def)
  have init: "0 \<le> out ! i \<and> out ! i \<le> demand ! i" if i: "i < length demand" for i
  proof -
    have "exact ! i \<in> set exact" and "demand ! i \<in> set demand" using i lens(1) by simp_all
    then have "0 \<le> exact ! i" and "0 \<le> demand ! i" using nonneg assms(2) by blast+
    moreover have "out ! i = min \<lfloor>exact ! i\<rfloor> (demand ! i)" using i lens(1) by (simp add: out_def)
    ultimately show ?thesis by simp
  qed
  have box: "0 \<le> res ! i \<and> res ! i \<le> demand ! i" if "i < length demand" for i
    using each [OF that] init [OF that] by auto
  have lres: "length res = length demand" using B(1) l2 by (simp add: fills_def)
  have total: "sum_list res + left' = ?cap" using B(2) R F by auto
  have up: "sum_list res \<le> sum_list demand" using box lres by (intro sum_list_le) auto
  have "sum_list res = min ?cap (sum_list demand)"
  proof (cases "left' = 0")
    case False
    then have "demand ! i \<le> res ! i" if "i < length demand" for i
      using B(4) that by (auto simp: list_all2_conv_all_nth)
    then have "sum_list demand \<le> sum_list res" using lres by (intro sum_list_le) auto
    then show ?thesis using up total B(3) by simp
  qed (use total up in simp)
  then show ?thesis using box lres by (simp add: al)
qed

theorem allocate_weighted_witness:
  "sum_list (allocate [4, 1] 3 Weighted None) = 3"
  using allocate_weighted [of 3 "[4, 1]" None] by (simp add: raw_shares_def)

text \<open>
  with as many slots as groups, the weighted strategy can still leave a group that has
  something to show without a slot: the whole parts of the shares are given out before the
  first slots are.
\<close>

theorem weighted_starves_a_group:
  "allocate [100, 1, 1] 3 Weighted None = [2, 1, 0]"
proof -
  have [simp]: "sqrt 100 = 10" by (rule real_sqrt_unique) auto
  have raw: "raw_shares [100, 1, 1] None = [10, 1, 1]" by (simp add: raw_shares_def)
  show ?thesis
    by (simp add: allocate_def raw Let_def remainder_order_def by_key_then_index_def frac_part_def
        borrow.simps)
qed

section \<open>The ranking\<close>

text \<open>The multiplier of the hash is odd, so a step of the hash loses nothing.\<close>

lemma fnv_invertible: "(x * 0x01000193) * 0x359c449b = (x::32 word)"
proof -
  have "(0x01000193 * 0x359c449b :: 32 word) = 1" by simp
  then show ?thesis by (metis mult.assoc mult.right_neutral)
qed

lemma xor_cancel: "x XOR z = y XOR z \<longleftrightarrow> x = (y::32 word)"
proof
  assume "x XOR z = y XOR z"
  then have "(x XOR z) XOR z = (y XOR z) XOR z" by simp
  then show "x = y" by (simp only: xor.assoc xor_self_eq xor.right_neutral)
qed simp

lemma fnv_step_eq: "fnv_step h u = fnv_step h' u' \<longleftrightarrow> h XOR of_nat u = h' XOR of_nat u'"
  unfolding fnv_step_def by (metis fnv_invertible)

lemma fnv_step_inj: "fnv_step h u = fnv_step h' u \<longleftrightarrow> h = h'"
  by (simp add: fnv_step_eq xor_cancel)

lemma fnv_step_unit:
  assumes "u < 2 ^ 16" and "u' < 2 ^ 16" and "fnv_step h u = fnv_step h u'"
  shows "u = u'"
proof -
  have "of_nat u XOR h = of_nat u' XOR (h :: 32 word)"
    using assms(3) by (simp add: fnv_step_eq xor.commute)
  then have "(of_nat u :: 32 word) = of_nat u'" by (simp only: xor_cancel)
  then have "unat (of_nat u :: 32 word) = unat (of_nat u' :: 32 word)" by simp
  then show ?thesis using assms(1,2) by (simp add: unat_of_nat)
qed

text \<open>
  two texts that differ in one UTF-16 code unit only never share a hash.
\<close>

theorem hash_one_unit:
  assumes "u < 2 ^ 16" and "u' < 2 ^ 16"
  shows "hash_units (before @ u # after) = hash_units (before @ u' # after) \<longleftrightarrow> u = u'"
proof -
  have tail: "foldl fnv_step h us = foldl fnv_step h' us \<longleftrightarrow> h = h'" for h h' us
    by (induction us arbitrary: h h') (auto simp: fnv_step_inj)
  show ?thesis using fnv_step_unit [OF assms] by (auto simp: hash_units_def tail)
qed

theorem hash_one_unit_witness: "stable_hash ''bbc-1'' \<noteq> stable_hash ''bbc-2''"
  using hash_one_unit [of 49 50 "[98, 98, 99, 45]" "[]"] by (simp add: stable_hash_def)

text \<open>
  The key the comparator sorts by. With the id as the last part two different ids never tie.
\<close>

definition candidate_key ::
  "slot_candidate \<Rightarrow> bool \<times> bool \<times> bool \<times> real \<times> real \<times> int \<times> string" where
  "candidate_key c =
     (\<not> or_else (pinned c) False, \<not> or_else (incumbent c) False, score c = None,
      - or_else (score c) 0, - or_else (published_at c) 0, uint (stable_hash (cand_id c)), cand_id c)"

definition slot_cmp :: "slot_candidate \<Rightarrow> slot_candidate \<Rightarrow> real" where
  "slot_cmp a b = (if cand_id a = cand_id b then 0 else compare_candidates a b)"

lemma rest_key:
  assumes "i \<noteq> (j::string)"
  shows "(if ta \<noteq> tb then tb - ta
          else if real_of_int (ha - hb) \<noteq> 0 then real_of_int (ha - hb)
          else if i < j then -1 else 1) \<le> 0 \<longleftrightarrow> (- ta, ha, i) \<le> (- tb, hb, j)"
  using assms by (auto simp: less_eq_prod_def)

lemma score_key:
  "(case (sa, sb) of (None, None) \<Rightarrow> rest | (None, Some _) \<Rightarrow> 1 | (Some _, None) \<Rightarrow> -1
      | (Some x, Some y) \<Rightarrow> if x \<noteq> y then y - x else rest) \<le> (0::real) \<longleftrightarrow>
   (sa = None, - or_else sa 0) < (sb = None, - or_else sb 0) \<or> sa = sb \<and> rest \<le> 0"
  by (auto simp: less_prod_def split: option.splits)

lemma compare_by_key:
  assumes "cand_id a \<noteq> cand_id b"
  shows "compare_candidates a b \<le> 0 \<longleftrightarrow> candidate_key a \<le> candidate_key b"
proof -
  have same: "score a = score b \<longleftrightarrow>
      (score a = None) = (score b = None) \<and> or_else (score a) 0 = or_else (score b) 0"
    by (cases "score a"; cases "score b") auto
  define rest where "rest =
     (if or_else (published_at a) 0 \<noteq> or_else (published_at b) 0
      then or_else (published_at b) 0 - or_else (published_at a) 0
      else if real_of_int (uint (stable_hash (cand_id a)) - uint (stable_hash (cand_id b))) \<noteq> 0
      then real_of_int (uint (stable_hash (cand_id a)) - uint (stable_hash (cand_id b)))
      else if cand_id a < cand_id b then -1 else 1)"
  define sc where "sc = (case (score a, score b) of (None, None) \<Rightarrow> rest | (None, Some _) \<Rightarrow> 1
      | (Some _, None) \<Rightarrow> -1 | (Some x, Some y) \<Rightarrow> if x \<noteq> y then y - x else rest)"
  have cmp: "compare_candidates a b =
     (if or_else (pinned a) False \<noteq> or_else (pinned b) False
      then if or_else (pinned a) False then -1 else 1
      else if or_else (incumbent a) False \<noteq> or_else (incumbent b) False
      then if or_else (incumbent a) False then -1 else 1 else sc)"
    by (simp only: compare_candidates_def Let_def rest_def [symmetric] sc_def [symmetric])
  have rest: "rest \<le> 0 \<longleftrightarrow>
      (- or_else (published_at a) 0, uint (stable_hash (cand_id a)), cand_id a)
        \<le> (- or_else (published_at b) 0, uint (stable_hash (cand_id b)), cand_id b)"
    unfolding rest_def by (rule rest_key [OF assms])
  have sc: "sc \<le> 0 \<longleftrightarrow>
      (score a = None, - or_else (score a) 0) < (score b = None, - or_else (score b) 0) \<or>
      score a = score b \<and> rest \<le> 0"
    unfolding sc_def by (rule score_key)
  have lex: "(x, y, r) \<le> (x', y', r') \<longleftrightarrow> (x, y) < (x', y') \<or> x = x' \<and> y = y' \<and> r \<le> r'"
    for x x' :: bool and y y' :: real and r r' :: "real \<times> int \<times> string"
    by (auto simp: less_eq_prod_def less_prod_def)
  have lex1: "(p, r) \<le> (p', r') \<longleftrightarrow> (if p \<noteq> p' then \<not> p else r \<le> r')"
    for p p' :: bool and r r' :: "bool \<times> bool \<times> real \<times> real \<times> int \<times> string"
    by (auto simp: less_eq_prod_def)
  have lex2: "(p, r) \<le> (p', r') \<longleftrightarrow> (if p \<noteq> p' then \<not> p else r \<le> r')"
    for p p' :: bool and r r' :: "bool \<times> real \<times> real \<times> int \<times> string"
    by (auto simp: less_eq_prod_def)
  have "candidate_key a \<le> candidate_key b \<longleftrightarrow>
     (if or_else (pinned a) False \<noteq> or_else (pinned b) False then or_else (pinned a) False
      else if or_else (incumbent a) False \<noteq> or_else (incumbent b) False then or_else (incumbent a) False
      else sc \<le> 0)"
    unfolding sc rest same candidate_key_def
    by (simp only: lex1 lex2 lex) auto
  then show ?thesis unfolding cmp by (simp split: if_splits)
qed

text \<open>
  Where ids determine the candidate, as they do in a card, the comparator is strict.
\<close>

interpretation slot_rank: strict_comparator_on slot_cmp "{c. owner (cand_id c) = c}"
  for owner :: "string \<Rightarrow> slot_candidate"
proof -
  have le: "slot_cmp a b \<le> 0 \<longleftrightarrow> candidate_key a \<le> candidate_key b"
    if own: "owner (cand_id a) = a" "owner (cand_id b) = b" for a b
  proof (cases "cand_id a = cand_id b")
    case True
    then have "a = b" using own by metis
    then show ?thesis by (simp add: slot_cmp_def)
  next
    case False
    then show ?thesis using compare_by_key [OF False] by (simp add: slot_cmp_def)
  qed
  have id: "candidate_key a = candidate_key b \<Longrightarrow> cand_id a = cand_id b" for a b
    by (simp add: candidate_key_def)
  show "strict_comparator_on slot_cmp {c. owner (cand_id c) = c}"
  proof
    show "slot_cmp x y \<le> 0 \<or> slot_cmp y x \<le> 0"
      if "x \<in> {c. owner (cand_id c) = c}" and "y \<in> {c. owner (cand_id c) = c}" for x y
      using that le linear [of "candidate_key x"] by simp
    show "slot_cmp x z \<le> 0"
      if "x \<in> {c. owner (cand_id c) = c}" and "y \<in> {c. owner (cand_id c) = c}"
        and "z \<in> {c. owner (cand_id c) = c}" and "slot_cmp x y \<le> 0" and "slot_cmp y z \<le> 0"
      for x y z
      using that le order_trans [of "candidate_key x" "candidate_key y"] by simp
    show "x = y"
      if "x \<in> {c. owner (cand_id c) = c}" and "y \<in> {c. owner (cand_id c) = c}"
        and "slot_cmp x y \<le> 0" and "slot_cmp y x \<le> 0" for x y
      by (metis (mono_tags, lifting) that le id order_antisym mem_Collect_eq)
  qed
qed

lemma js_sort_slot_cmp:
  "distinct (map cand_id cs) \<Longrightarrow> js_sort compare_candidates cs = js_sort slot_cmp cs"
  by (rule js_sort_cong) (auto simp: slot_cmp_def distinct_map inj_on_def)

lemma owner_exists:
  assumes "distinct (map cand_id cs)"
  shows "\<exists>owner. \<forall>c \<in> set cs. owner (cand_id c) = c"
proof -
  have "map_of (map (\<lambda>c. (cand_id c, c)) cs) (cand_id c) = Some c" if "c \<in> set cs" for c
    using assms that by (intro map_of_is_SomeI) (auto simp: comp_def)
  then show ?thesis
    by (intro exI [of _ "\<lambda>i. the (map_of (map (\<lambda>c. (cand_id c, c)) cs) i)"]) simp
qed

lemma mark_incumbent_id [simp]: "cand_id (mark_incumbent inp c) = cand_id c"
  by (simp add: mark_incumbent_def Let_def)

lemma set_place_all:
  "place_all inp cs m x =
    (if x \<in> cand_id ` set cs then Some (or_else (placed_at inp x) (now_ms inp)) else m x)"
  by (induction cs arbitrary: m) auto

text \<open>
  C27: For candidates with distinct ids the ranking does not depend on the order they
  come in: two devices show the same order for the same data.
\<close>

theorem rank_deterministic:
  assumes "distinct (map cand_id (candidates inp))"
    and "mset (candidates inp) = mset (candidates inp')"
    and "previous inp = previous inp'" and "placed_at inp = placed_at inp'"
    and "now_ms inp = now_ms inp'" and "dwell_override inp = dwell_override inp'"
  shows "rank_with_dwell inp = rank_with_dwell inp'"
proof -
  have mark: "mark_incumbent inp = mark_incumbent inp'"
    unfolding mark_incumbent_def assms(3-6) ..
  let ?xs = "map (mark_incumbent inp) (candidates inp)" and ?ys = "map (mark_incumbent inp) (candidates inp')"
  have ms: "mset ?xs = mset ?ys" using assms(2) by simp
  have dx: "distinct (map cand_id ?xs)" using assms(1) by (simp add: comp_def)
  then have dy: "distinct (map cand_id ?ys)"
    using ms by (metis mset_map mset_eq_imp_distinct_iff)
  obtain owner where "\<forall>c \<in> set ?xs. owner (cand_id c) = c" using owner_exists [OF dx] by blast
  then have "js_sort slot_cmp ?xs = js_sort slot_cmp ?ys"
    using ms by (intro slot_rank.js_sort_perm [of _ owner]) auto
  then have eq: "js_sort compare_candidates ?xs = js_sort compare_candidates ?ys"
    using js_sort_slot_cmp [OF dx] js_sort_slot_cmp [OF dy] by simp
  have "place_all inp cs m = place_all inp' cs m" for cs m
    using assms(4,5) by (intro ext) (simp add: set_place_all)
  then show ?thesis using eq by (simp add: rank_with_dwell_def Let_def mark [symmetric])
qed

text \<open>
  pinned candidates lead; among the rest, those inside their dwell come before those
  that are not, whatever the scores; and every ranked id carries the time it was first placed.
\<close>

theorem rank_keeps_incumbents:
  assumes "distinct (map cand_id (candidates inp))"
    and "i < j" and "j < length (fst (rank_with_dwell inp))"
  shows "(or_else (pinned (fst (rank_with_dwell inp) ! j)) False \<longrightarrow>
            or_else (pinned (fst (rank_with_dwell inp) ! i)) False) \<and>
         (or_else (pinned (fst (rank_with_dwell inp) ! i)) False =
            or_else (pinned (fst (rank_with_dwell inp) ! j)) False \<longrightarrow>
          incumbent (fst (rank_with_dwell inp) ! j) = Some True \<longrightarrow>
            incumbent (fst (rank_with_dwell inp) ! i) = Some True) \<and>
         snd (rank_with_dwell inp) (cand_id (fst (rank_with_dwell inp) ! i)) =
           Some (or_else (placed_at inp (cand_id (fst (rank_with_dwell inp) ! i))) (now_ms inp))"
proof -
  let ?xs = "map (mark_incumbent inp) (candidates inp)"
  let ?out = "js_sort slot_cmp ?xs"
  have dx: "distinct (map cand_id ?xs)" using assms(1) by (simp add: comp_def)
  have out: "fst (rank_with_dwell inp) = ?out"
    using js_sort_slot_cmp [OF dx] by (simp add: rank_with_dwell_def Let_def)
  obtain owner where own: "\<forall>c \<in> set ?xs. owner (cand_id c) = c" using owner_exists [OF dx] by blast
  then have "sorted_wrt (\<lambda>x y. slot_cmp x y \<le> 0) ?out"
    by (intro slot_rank.sorted_js_sort [of _ owner]) auto
  then have le: "slot_cmp (?out ! i) (?out ! j) \<le> 0"
    using assms(2,3) sorted_wrt_nth_less [of _ ?out i j] by (simp add: out)
  have din: "distinct (map cand_id ?out)" using dx by (simp only: distinct_map_js_sort)
  then have "map cand_id ?out ! i \<noteq> map cand_id ?out ! j"
    using assms(2,3) by (subst nth_eq_iff_index_eq) (auto simp: out)
  then have "cand_id (?out ! i) \<noteq> cand_id (?out ! j)" using assms(2,3) by (simp add: out)
  then have key: "candidate_key (?out ! i) \<le> candidate_key (?out ! j)"
    using le compare_by_key by (simp add: slot_cmp_def)
  have "?out ! k \<in> set ?xs" if "k < length ?out" for k
    using that nth_mem [of k ?out] by simp
  then have inc: "incumbent (?out ! k) \<noteq> None" if "k < length ?out" for k
    using that by (fastforce simp: mark_incumbent_def Let_def)
  have "incumbent (?out ! i) \<noteq> None" and "incumbent (?out ! j) \<noteq> None"
    using inc assms(2,3) by (auto simp: out)
  then have first: "(or_else (pinned (?out ! j)) False \<longrightarrow> or_else (pinned (?out ! i)) False) \<and>
      (or_else (pinned (?out ! i)) False = or_else (pinned (?out ! j)) False \<longrightarrow>
       incumbent (?out ! j) = Some True \<longrightarrow> incumbent (?out ! i) = Some True)"
    using key by (auto simp: candidate_key_def less_eq_prod_def)
  have "?out ! i \<in> set ?out" using assms(2,3) by (intro nth_mem) (simp add: out)
  then have "cand_id (?out ! i) \<in> cand_id ` set ?out" by (rule imageI)
  then have "snd (rank_with_dwell inp) (cand_id (?out ! i)) =
      Some (or_else (placed_at inp (cand_id (?out ! i))) (now_ms inp))"
    using js_sort_slot_cmp [OF dx] by (simp add: rank_with_dwell_def Let_def set_place_all)
  then show ?thesis using first by (simp add: out)
qed

definition sample_dwell :: dwell_input where
  "sample_dwell = \<lparr>candidates =
     [\<lparr>cand_id = ''a'', pinned = None, incumbent = None, score = Some 9, published_at = None\<rparr>,
      \<lparr>cand_id = ''b'', pinned = None, incumbent = None, score = Some 1, published_at = None\<rparr>],
     previous = [''b''], placed_at = [''b'' \<mapsto> 1000], now_ms = 2000, dwell_override = None\<rparr>"

lemma sample_ranked: "map cand_id (fst (rank_with_dwell sample_dwell)) = [''b'', ''a'']"
  by (simp add: rank_with_dwell_def Let_def sample_dwell_def mark_incumbent_def dwell_ms_def
      compare_candidates_def)

theorem rank_deterministic_witness:
  "map cand_id (fst (rank_with_dwell (sample_dwell\<lparr>candidates := rev (candidates sample_dwell)\<rparr>))) =
   [''b'', ''a'']"
  using rank_deterministic [of sample_dwell "sample_dwell\<lparr>candidates := rev (candidates sample_dwell)\<rparr>"]
    sample_ranked
  by (simp add: sample_dwell_def)

theorem rank_keeps_incumbents_witness:
  "snd (rank_with_dwell sample_dwell) ''b'' = Some 1000"
proof -
  obtain x y where out: "fst (rank_with_dwell sample_dwell) = [x, y]" "cand_id x = ''b''"
    using sample_ranked by (auto simp: map_eq_Cons_conv)
  show ?thesis
    using rank_keeps_incumbents [of sample_dwell 0 1] out by (simp add: sample_dwell_def)
qed

end
