(* ===== verification/Swipe_Deck.thy ===== *)
theory Swipe_Deck
  imports Storage
begin

text \<open>
  The swipe deck's position rules (\<open>news-core/src/swipeDeck.ts\<close>) and their one web
  client state (\<open>SwipeState\<close>): the index is an integer, \<open>activeId\<close> an optional card id,
  and the saved positions a map from column to card id.
\<close>

section \<open>Definitions\<close>

type_synonym card_positions = "string \<rightharpoonup> string"

text \<open>
  \<open>out[key] = value\<close> with the key \<open>__proto__\<close> and a string is ignored by the language, so
  that column is lost. A repeated member keeps its last value.
\<close>

definition parse_positions :: "string option \<Rightarrow> card_positions" where
  "parse_positions raw =
     (case truthy raw of
        None \<Rightarrow> Map.empty
      | Some s \<Rightarrow>
          (case json_parse s of
             Some (JObj ms) \<Rightarrow>
               (\<lambda>k. if k = ''__proto__'' then None
                    else (case map_of (rev ms) k of Some (JStr v) \<Rightarrow> Some v | _ \<Rightarrow> None))
           | _ \<Rightarrow> Map.empty))"

definition with_position :: "card_positions \<Rightarrow> string \<Rightarrow> string \<Rightarrow> card_positions" where
  "with_position positions column cid = positions(column \<mapsto> cid)"

definition clamp_index :: "int \<Rightarrow> int \<Rightarrow> int" where
  "clamp_index to len = max 0 (min to (len - 1))"

text \<open>The remainder operator takes the sign of its left operand.\<close>

definition js_rem :: "int \<Rightarrow> int \<Rightarrow> int" where
  "js_rem a b = sgn a * (\<bar>a\<bar> mod \<bar>b\<bar>)"

definition wrap_index :: "int \<Rightarrow> int \<Rightarrow> int" where
  "wrap_index to len = (if len \<le> 0 then 0 else js_rem (js_rem to len + len) len)"

definition initial_index :: "string list \<Rightarrow> string option \<Rightarrow> string option \<Rightarrow> int" where
  "initial_index ids savedId preferredId =
     (case truthy preferredId of
        Some p \<Rightarrow>
          (let i = index_of p ids
           in if i \<ge> 0 then i else max 0 (index_of (or_else savedId []) ids))
      | None \<Rightarrow> max 0 (index_of (or_else savedId []) ids))"

definition resolve_index_on_change ::
  "string list \<Rightarrow> string list \<Rightarrow> string option \<Rightarrow> int \<Rightarrow> int \<times> bool" where
  "resolve_index_on_change ids prev_ids activeId currentIndex =
     (let added = find (\<lambda>i. i \<notin> set prev_ids) ids;
          target = (case added of Some a \<Rightarrow> index_of a ids
                    | None \<Rightarrow> index_of (or_else activeId []) ids)
      in if target \<ge> 0 then (target, added \<noteq> None) else (currentIndex, False))"

record swipe_state =
  sw_index :: int
  sw_active :: "string option"

definition swipe_state_at :: "string list \<Rightarrow> int \<Rightarrow> swipe_state" where
  "swipe_state_at ids i =
     (let clamped = clamp_index i (int (length ids))
      in \<lparr>sw_index = clamped, sw_active = elem_at ids clamped\<rparr>)"

definition move_to :: "string list \<Rightarrow> int \<Rightarrow> swipe_state" where
  "move_to ids to = swipe_state_at ids (wrap_index to (int (length ids)))"

definition reconcile :: "swipe_state \<Rightarrow> string list \<Rightarrow> string list \<Rightarrow> swipe_state \<times> bool" where
  "reconcile st ids prev_ids =
     (let (i, added) = resolve_index_on_change ids prev_ids (sw_active st) (sw_index st)
      in (swipe_state_at ids i, added))"

definition can_move :: "int \<Rightarrow> bool" where
  "can_move len \<longleftrightarrow> len > 1"

section \<open>The index stays in the deck\<close>

text \<open>A state that points at a card of the list, or at nothing when the list is empty.\<close>

definition swipe_ok :: "string list \<Rightarrow> swipe_state \<Rightarrow> bool" where
  "swipe_ok ids st \<longleftrightarrow>
     0 \<le> sw_index st \<and> sw_active st = elem_at ids (sw_index st) \<and>
     (ids = [] \<longrightarrow> sw_index st = 0) \<and>
     (ids \<noteq> [] \<longrightarrow> sw_index st < int (length ids))"

lemma swipe_ok_state_at [simp, intro]: "swipe_ok ids (swipe_state_at ids i)"
  by (cases ids) (auto simp: swipe_ok_def swipe_state_at_def Let_def clamp_index_def)

lemma js_rem_mod: "0 < n \<Longrightarrow> js_rem (js_rem a n + n) n = a mod n"
proof -
  assume n: "0 < n"
  define r where "r = js_rem a n + n"
  have "js_rem a n = (if 0 \<le> a then a mod n else - ((- a) mod n))"
    using n by (auto simp: js_rem_def sgn_if)
  then have r: "0 \<le> r" "r mod n = a mod n"
    using n pos_mod_bound [of n "- a"] pos_mod_sign [of n a] pos_mod_sign [of n "- a"]
    by (auto simp: r_def mod_minus_eq less_imp_le)
  then have "js_rem r n = r mod n" using n by (cases "r = 0") (simp_all add: js_rem_def sgn_if)
  then show ?thesis using r by (simp add: r_def)
qed

lemma wrap_index_mod: "0 < len \<Longrightarrow> wrap_index to len = to mod len"
  by (simp add: wrap_index_def js_rem_mod)

lemma swipe_state_at_in:
  "0 \<le> i \<Longrightarrow> i < int (length ids) \<Longrightarrow>
   swipe_state_at ids i = \<lparr>sw_index = i, sw_active = Some (ids ! nat i)\<rparr>"
  by (simp add: swipe_state_at_def clamp_index_def elem_at_def Let_def)

lemma move_to_mod:
  "ids \<noteq> [] \<Longrightarrow> sw_index (move_to ids to) = to mod int (length ids)"
  by (simp add: move_to_def wrap_index_mod swipe_state_at_in)

text \<open>
  every state the deck's rules produce points inside the deck, a move lands on the
  card its target names modulo the length, and moving on and back is a round trip.
\<close>

theorem swipe_moves:
  "swipe_ok ids (move_to ids to) \<and> swipe_ok ids (fst (reconcile st ids prev_ids)) \<and>
   (ids \<noteq> [] \<longrightarrow>
     sw_index (move_to ids to) = to mod int (length ids) \<and>
     move_to ids (sw_index (move_to ids (to + 1)) - 1) = move_to ids to)"
proof -
  have "move_to ids (sw_index (move_to ids (to + 1)) - 1) = move_to ids to" if "ids \<noteq> []"
    using that by (simp add: move_to_mod) (simp add: move_to_def wrap_index_mod mod_diff_left_eq)
  then show ?thesis
    by (auto simp: move_to_mod reconcile_def split: prod.splits)
      (simp_all add: move_to_def)
qed

theorem swipe_moves_witness: "sw_index (move_to [''a'', ''b'', ''c''] (-1)) = 2"
  using swipe_moves [of "[''a'', ''b'', ''c'']" "-1"] by simp

text \<open>
  when the list changes, the deck jumps to the first added card; with no addition
  it stays on the same card by id as long as that card is still there.
\<close>

theorem reconcile_anchors:
  "(case find (\<lambda>i. i \<notin> set prev_ids) ids of
      Some a \<Rightarrow> sw_active (fst (reconcile st ids prev_ids)) = Some a \<and>
                snd (reconcile st ids prev_ids)
    | None \<Rightarrow> \<not> snd (reconcile st ids prev_ids) \<and>
        (\<forall>a. sw_active st = Some a \<longrightarrow> a \<in> set ids \<longrightarrow>
           sw_active (fst (reconcile st ids prev_ids)) = Some a))"
proof -
  have goto: "sw_active (swipe_state_at ids (index_of a ids)) = Some a" if "a \<in> set ids" for a
    using that index_of_range [of a ids] by (simp add: swipe_state_at_in nth_index_of)
  show ?thesis
  proof (cases "find (\<lambda>i. i \<notin> set prev_ids) ids")
    case None
    then show ?thesis
      using goto by (auto simp: reconcile_def resolve_index_on_change_def Let_def)
  next
    case (Some a)
    then have "a \<in> set ids" by (auto simp: find_Some_iff)
    then show ?thesis
      using Some goto by (simp add: reconcile_def resolve_index_on_change_def Let_def)
  qed
qed

theorem reconcile_anchors_witness:
  "sw_active (fst (reconcile \<lparr>sw_index = 0, sw_active = Some ''b''\<rparr> [''a'', ''b''] [''a'', ''b''])) = Some ''b''"
  using reconcile_anchors [where prev_ids = "[''a'', ''b'']" and ids = "[''a'', ''b'']" and st = "\<lparr>sw_index = 0, sw_active = Some ''b''\<rparr>"]
  by simp

section \<open>Saved positions\<close>

lemma map_of_strings: "map_of (map (\<lambda>(k, v). (k, JStr v)) ps) = map_option JStr \<circ> map_of ps"
  by (induction ps) auto

text \<open>what the deck saves it reads back, except under the key \<open>__proto__\<close>.\<close>

theorem positions_round_trip:
  assumes "distinct (map fst ps)"
  shows "parse_positions (Some (stringify_obj ps)) = (map_of ps)(''__proto__'' := None)"
proof -
  let ?js = "map (\<lambda>(k, v). (k, JStr v)) ps"
  have "map fst ?js = map fst ps" by (induction ps) auto
  then have d: "distinct (map fst ?js)" using assms by (simp only:)
  then have "distinct (map fst (rev ?js))" by (simp only: rev_map [symmetric] distinct_rev)
  then have "map_of (rev ?js) = map_of ?js"
    using map_of_inject_set [OF _ d, of "rev ?js"] by (simp only: set_rev)
  then have rev: "map_of (rev ?js) = map_option JStr \<circ> map_of ps" by (simp only: map_of_strings)
  have ne: "stringify_obj ps \<noteq> []" by (simp add: stringify_obj_def)
  show ?thesis
    using ne by (intro ext)
      (simp add: parse_positions_def truthy_def json_obj_round_trip rev split: option.split)
qed

theorem positions_round_trip_witness:
  "parse_positions (Some (stringify_obj [(''news'', ''bbc''), (''__proto__'', ''cnn'')])) =
   [''news'' \<mapsto> ''bbc'']"
  using positions_round_trip [of "[(''news'', ''bbc''), (''__proto__'', ''cnn'')]"] by auto

end
