(* ===== verification/Clip_Rows.thy ===== *)
theory Clip_Rows
  imports Prelude
begin

text \<open>
  How many headline rows fit whole (\<open>news-core/src/clipRows.ts\<close>). Heights are real
  numbers, a hole in the array is \<open>None\<close>, and the loop is a recursion over the row
  indices that carries the height used and the rows counted so far.
\<close>

section \<open>Definitions\<close>

definition premeasure_rows :: int where
  "premeasure_rows = 20"

record fit_input =
  fit_total :: nat
  available :: real
  heights :: "real option list"
  row_gap :: "real option"
  pin :: "int option"
  premeasure :: "int option"

definition height_at :: "fit_input \<Rightarrow> nat \<Rightarrow> real option" where
  "height_at inp i =
     (case or_else (elem_at (heights inp) (int i)) None of
        None \<Rightarrow> None
      | Some h \<Rightarrow> if h > available inp \<and> Some (int i) \<noteq> pin inp then None else Some h)"

fun fit_loop :: "fit_input \<Rightarrow> nat list \<Rightarrow> real \<Rightarrow> int \<Rightarrow> int" where
  "fit_loop inp [] used visible = visible"
| "fit_loop inp (i # is) used visible =
     (case height_at inp i of
        None \<Rightarrow> min (int (fit_total inp))
                  (max (int i + 1) (or_else (premeasure inp) premeasure_rows))
      | Some h \<Rightarrow>
          (let with_gap = (if visible > 0 then h + or_else (row_gap inp) 0 else h)
           in if used + with_gap > available inp + 1 / 2 then visible
              else fit_loop inp is (used + with_gap) (int i + 1)))"

definition fit_rows :: "fit_input \<Rightarrow> int" where
  "fit_rows inp =
     (let pinned = (case pin inp of None \<Rightarrow> 0 | Some p \<Rightarrow> min (p + 1) (int (fit_total inp)));
          visible = (if available inp > 0 \<and> heights inp \<noteq> []
                     then max 1 (fit_loop inp [0..<fit_total inp] 0 0)
                     else min (int (fit_total inp)) (or_else (premeasure inp) premeasure_rows))
      in max visible pinned)"

definition fit_row_bottoms :: "real option list \<Rightarrow> real \<Rightarrow> bool list" where
  "fit_row_bottoms bottoms limit =
     map (\<lambda>b. case b of None \<Rightarrow> True | Some y \<Rightarrow> y \<le> limit + 1 / 2) bottoms"

section \<open>The clip lands on whole rows\<close>

text \<open>The height the first \<open>n\<close> rows take with the gaps between them.\<close>

definition rows_height :: "fit_input \<Rightarrow> nat \<Rightarrow> real" where
  "rows_height inp n =
     sum_list (map (\<lambda>i. or_else (height_at inp i) 0) [0..<n]) + real (n - 1) * or_else (row_gap inp) 0"

lemma rows_height_Suc:
  "height_at inp i = Some h \<Longrightarrow>
   rows_height inp (Suc i) = rows_height inp i + (if i > 0 then h + or_else (row_gap inp) 0 else h)"
  by (cases i) (auto simp: rows_height_def algebra_simps)

lemma fit_loop_rows:
  assumes "\<forall>j < fit_total inp. height_at inp j \<noteq> None" and "i \<le> fit_total inp"
    and "rows_height inp i \<le> available inp + 1 / 2"
  shows "\<exists>m. fit_loop inp [i..<fit_total inp] (rows_height inp i) (int i) = int m \<and>
    m \<le> fit_total inp \<and> i \<le> m \<and> rows_height inp m \<le> available inp + 1 / 2 \<and>
    (m = fit_total inp \<or> available inp + 1 / 2 < rows_height inp (Suc m))"
  using assms
proof (induction "fit_total inp - i" arbitrary: i)
  case 0
  then show ?case by auto
next
  case (Suc n)
  then have lt: "i < fit_total inp" by simp
  then obtain h where h: "height_at inp i = Some h" using Suc.prems(1) by fastforce
  have up: "[i..<fit_total inp] = i # [Suc i..<fit_total inp]" by (rule upt_conv_Cons [OF lt])
  let ?g = "if i > 0 then h + or_else (row_gap inp) 0 else h"
  have step: "rows_height inp (Suc i) = rows_height inp i + ?g" by (rule rows_height_Suc [OF h])
  show ?case
  proof (cases "rows_height inp i + ?g > available inp + 1 / 2")
    case True
    then have "fit_loop inp [i..<fit_total inp] (rows_height inp i) (int i) = int i"
      unfolding up using h by (auto simp: Let_def)
    then show ?thesis using Suc.prems True step by (intro exI [of _ i]) auto
  next
    case False
    then have eq: "fit_loop inp [i..<fit_total inp] (rows_height inp i) (int i) =
        fit_loop inp [Suc i..<fit_total inp] (rows_height inp (Suc i)) (int (Suc i))"
      unfolding up step using h by (auto simp: Let_def add.commute)
    have "rows_height inp (Suc i) \<le> available inp + 1 / 2" using False step by simp
    then show ?thesis
      using Suc.hyps(1) [of "Suc i"] Suc.hyps(2) Suc.prems(1) lt unfolding eq by fastforce
  qed
qed

text \<open>
  Once every row is measured and none is taller than the card, the rows shown fit
  the card whole, gaps included, to within half a pixel, and one more row would not.
\<close>

theorem fit_rows_whole:
  assumes "0 < available inp" and "0 < fit_total inp" and "pin inp = None"
    and "\<forall>j < fit_total inp. \<exists>h. elem_at (heights inp) (int j) = Some (Some h) \<and> h \<le> available inp"
  shows "\<exists>n. fit_rows inp = int n \<and> 1 \<le> n \<and> n \<le> fit_total inp \<and>
    rows_height inp n \<le> available inp + 1 / 2 \<and>
    (n = fit_total inp \<or> available inp + 1 / 2 < rows_height inp (Suc n))"
proof -
  have meas: "\<exists>h. height_at inp j = Some h \<and> h \<le> available inp" if "j < fit_total inp" for j
    using assms(4) that by (fastforce simp: height_at_def)
  then have all: "\<forall>j < fit_total inp. height_at inp j \<noteq> None" by fastforce
  have zero: "rows_height inp 0 = 0" by (simp add: rows_height_def)
  obtain m where m: "fit_loop inp [0..<fit_total inp] 0 0 = int m" "m \<le> fit_total inp"
    "rows_height inp m \<le> available inp + 1 / 2"
    "m = fit_total inp \<or> available inp + 1 / 2 < rows_height inp (Suc m)"
    using fit_loop_rows [OF all, of 0] assms(1) by (auto simp: zero)
  obtain h where h: "height_at inp 0 = Some h" "h \<le> available inp" using meas assms(2) by blast
  have "rows_height inp 1 \<le> available inp"
    using rows_height_Suc [OF h(1)] h(2) zero by simp
  then have "m \<noteq> 0" using m(4) assms(2) by (cases m) auto
  moreover have "heights inp \<noteq> []"
    using assms(2,4) by (fastforce simp: elem_at_def)
  ultimately show ?thesis
    using m assms(1,3) by (intro exI [of _ m]) (simp add: fit_rows_def)
qed

definition sample_fit :: fit_input where
  "sample_fit = \<lparr>fit_total = 3, available = 100, heights = [Some 40, Some 40, Some 40],
     row_gap = Some 8, pin = None, premeasure = None\<rparr>"

lemma sample_fit_rows: "fit_rows sample_fit = 2"
  by (simp add: fit_rows_def sample_fit_def upt_rec height_at_def elem_at_def nth_Cons')

theorem fit_rows_whole_witness:
  "\<exists>n. fit_rows sample_fit = int n \<and> 1 \<le> n \<and> n \<le> 3 \<and>
    rows_height sample_fit n \<le> 201 / 2 \<and> (n = 3 \<or> 201 / 2 < rows_height sample_fit (Suc n))"
  using fit_rows_whole [of sample_fit]
  by (simp add: sample_fit_def elem_at_def less_Suc_eq numeral_3_eq_3 nth_Cons')

text \<open>the lead story and the rows up to the expanded story always render.\<close>

theorem fit_rows_pinned:
  "(available inp > 0 \<and> heights inp \<noteq> [] \<longrightarrow> 1 \<le> fit_rows inp) \<and>
   (\<forall>p. pin inp = Some p \<longrightarrow> min (p + 1) (int (fit_total inp)) \<le> fit_rows inp)"
  by (auto simp: fit_rows_def Let_def)

theorem fit_rows_pinned_witness: "3 \<le> fit_rows (sample_fit\<lparr>pin := Some 2\<rparr>)"
  using fit_rows_pinned [of "sample_fit\<lparr>pin := Some 2\<rparr>"] by (simp add: sample_fit_def)

end
