(* ===== verification/Split_Flap.thy ===== *)
theory Split_Flap
  imports Prelude
begin

text \<open>
  The split-flap planner (\<open>news-core/src/splitFlap.ts\<close>) on ASCII texts, where a code unit
  is a character. Times are real numbers of milliseconds.
\<close>

section \<open>Definitions\<close>

definition flap_ring :: string where
  "flap_ring = '' ABCDEFGHIJKLMNOPQRSTUVWXYZ0123456789.,:-/''"

abbreviation ring_length :: int where
  "ring_length \<equiv> int (length flap_ring)"

record flap_column =
  fc_from :: char
  fc_to :: char
  fc_steps :: int
  fc_start :: real
  fc_end :: real

record flap_plan =
  fp_from :: string
  fp_to :: string
  fp_columns :: "flap_column list"
  fp_duration :: real

record flap_options =
  step_ms :: "real option"
  stagger_ms :: "real option"
  max_steps :: "int option"

definition ring_index :: "char \<Rightarrow> int" where
  "ring_index g = index_of (upper_char g) flap_ring"

definition ring_distance :: "char \<Rightarrow> char \<Rightarrow> int" where
  "ring_distance f t =
     (let a = ring_index f; b = ring_index t
      in if a = -1 \<or> b = -1 then 1 else (b - a + ring_length) mod ring_length)"

definition plan_column :: "string \<Rightarrow> string \<Rightarrow> flap_options \<Rightarrow> nat \<Rightarrow> flap_column" where
  "plan_column f t opts i =
     (let a = or_else (elem_at f (int i)) (CHR '' '');
          b = or_else (elem_at t (int i)) (CHR '' '');
          distance = (if a = b then 0 else ring_distance a b);
          steps = min distance (or_else (max_steps opts) 12);
          start = real i * or_else (stagger_ms opts) 30;
          end' = start + of_int steps * or_else (step_ms opts) 45
      in \<lparr>fc_from = a, fc_to = b, fc_steps = steps, fc_start = start, fc_end = end'\<rparr>)"

text \<open>The running maximum of the ends of the columns that move.\<close>

fun plan_duration :: "real \<Rightarrow> flap_column list \<Rightarrow> real" where
  "plan_duration d [] = d"
| "plan_duration d (c # cs) =
     plan_duration (if fc_steps c > 0 \<and> fc_end c > d then fc_end c else d) cs"

definition plan_flap :: "string \<Rightarrow> string \<Rightarrow> flap_options \<Rightarrow> flap_plan" where
  "plan_flap f t opts =
     (let columns = map (plan_column f t opts) [0..<max (length f) (length t)]
      in \<lparr>fp_from = f, fp_to = t, fp_columns = columns, fp_duration = plan_duration 0 columns\<rparr>)"

definition glyph_at :: "flap_column \<Rightarrow> real \<Rightarrow> char" where
  "glyph_at c elapsed =
     (if fc_steps c = 0 \<or> elapsed \<ge> fc_end c then fc_to c
      else if elapsed < fc_start c then fc_from c
      else
        (let stepMs = (fc_end c - fc_start c) / of_int (fc_steps c);
             passed = \<lfloor>(elapsed - fc_start c) / stepMs\<rfloor>
         in if passed \<ge> fc_steps c then fc_to c
            else
              (let a = ring_index (fc_from c); b = ring_index (fc_to c)
               in if a = -1 \<or> b = -1 then fc_from c
                  else
                    (let distance = (b - a + ring_length) mod ring_length;
                         offset = \<lfloor>of_int (passed * distance) / of_int (fc_steps c) :: real\<rfloor>;
                         glyph = or_else (elem_at flap_ring ((a + offset) mod ring_length)) (fc_to c)
                     in if fc_to c = lower_char (fc_to c) then lower_char glyph else glyph))))"

definition glyphs_at :: "flap_plan \<Rightarrow> real \<Rightarrow> string" where
  "glyphs_at plan elapsed = map (\<lambda>c. glyph_at c elapsed) (fp_columns plan)"

definition is_settled :: "flap_plan \<Rightarrow> real \<Rightarrow> bool" where
  "is_settled plan elapsed \<longleftrightarrow> elapsed \<ge> fp_duration plan"

section \<open>Lemmas\<close>

lemma plan_duration_ge: "d \<le> plan_duration d cs"
proof (induction cs arbitrary: d)
  case (Cons c cs)
  let ?e = "if fc_steps c > 0 \<and> fc_end c > d then fc_end c else d"
  have "d \<le> ?e" by simp
  also have "\<dots> \<le> plan_duration ?e cs" by (rule Cons)
  finally show ?case by (simp only: plan_duration.simps)
qed simp

lemma plan_duration_end:
  "c \<in> set cs \<Longrightarrow> fc_steps c > 0 \<Longrightarrow> fc_end c \<le> plan_duration d cs"
proof (induction cs arbitrary: d)
  case (Cons x cs)
  show ?case
  proof (cases "c \<in> set cs")
    case True
    then show ?thesis using Cons by simp
  next
    case False
    then have x: "x = c" using Cons.prems by simp
    let ?e = "if fc_steps c > 0 \<and> fc_end c > d then fc_end c else d"
    have "fc_end c \<le> ?e" using Cons.prems by simp
    also have "\<dots> \<le> plan_duration ?e cs" by (rule plan_duration_ge)
    finally show ?thesis by (simp only: x plan_duration.simps)
  qed
qed simp

lemma ring_distance_nonneg: "0 \<le> ring_distance f t"
  by (simp add: ring_distance_def Let_def flap_ring_def)

text \<open>The text a plan ends on: \<open>to\<close>, padded to the width of the plan.\<close>

definition padded :: "string \<Rightarrow> nat \<Rightarrow> string" where
  "padded t n = t @ replicate (n - length t) (CHR '' '')"

lemma padded_nth:
  "i < n \<Longrightarrow> length t \<le> n \<Longrightarrow> padded t n ! i = or_else (elem_at t (int i)) (CHR '' '')"
  by (auto simp: padded_def nth_append elem_at_def)

text \<open>
  With a non-negative step limit, a settled plan shows the target text, padded with
  spaces to the plan's width.
\<close>

theorem flap_lands:
  assumes "0 \<le> or_else (max_steps opts) 12" and "is_settled (plan_flap f t opts) elapsed"
  shows "glyphs_at (plan_flap f t opts) elapsed = padded t (max (length f) (length t))"
proof (rule nth_equalityI)
  let ?cols = "fp_columns (plan_flap f t opts)"
  show "length (glyphs_at (plan_flap f t opts) elapsed) = length (padded t (max (length f) (length t)))"
    by (simp add: glyphs_at_def plan_flap_def padded_def Let_def)
  fix i
  assume "i < length (glyphs_at (plan_flap f t opts) elapsed)"
  then have i: "i < max (length f) (length t)" by (simp add: glyphs_at_def plan_flap_def Let_def)
  let ?c = "plan_column f t opts i"
  have "?c \<in> set ?cols" using i by (auto simp: plan_flap_def Let_def)
  then have "fc_end ?c \<le> elapsed" if "fc_steps ?c > 0"
    using plan_duration_end [of ?c ?cols 0] that assms(2)
    by (auto simp: is_settled_def plan_flap_def Let_def)
  moreover have "0 \<le> fc_steps ?c"
    using assms(1) ring_distance_nonneg by (auto simp: plan_column_def Let_def)
  ultimately have "glyph_at ?c elapsed = fc_to ?c"
    by (cases "fc_steps ?c = 0") (auto simp: glyph_at_def)
  also have "\<dots> = padded t (max (length f) (length t)) ! i"
    using i by (simp add: padded_nth) (simp add: plan_column_def Let_def)
  finally show "glyphs_at (plan_flap f t opts) elapsed ! i = padded t (max (length f) (length t)) ! i"
    using i by (simp add: glyphs_at_def plan_flap_def Let_def)
qed

abbreviation default_flap :: flap_options where
  "default_flap \<equiv> \<lparr>step_ms = None, stagger_ms = None, max_steps = None\<rparr>"

lemma sample_settled: "is_settled (plan_flap ''AB'' ''C'' default_flap) 570"
  by (code_simp)

theorem flap_lands_witness: "glyphs_at (plan_flap ''AB'' ''C'' default_flap) 570 = ''C ''"
  using flap_lands [of default_flap "''AB''" "''C''" 570] sample_settled
  by (simp add: padded_def)

end
