(* ===== verification/Squarify.thy ===== *)
theory Squarify
  imports Prelude
begin

text \<open>
  The squarified treemap (\<open>news-core/src/squarify.ts\<close>) over the real numbers. A weight is
  \<open>None\<close> when it is not a finite number. The loop is a recursion over the areas still to
  place; closing a row does not consume one, so its measure counts the open row too.
\<close>

section \<open>Definitions\<close>

record treemap_rect =
  rect_x :: real
  rect_y :: real
  rect_width :: real
  rect_height :: real

abbreviation empty_rect :: treemap_rect where
  "empty_rect \<equiv> \<lparr>rect_x = 0, rect_y = 0, rect_width = 0, rect_height = 0\<rparr>"

definition max_of :: "real list \<Rightarrow> real" where
  "max_of xs = foldl max (hd xs) (tl xs)"

definition min_of :: "real list \<Rightarrow> real" where
  "min_of xs = foldl min (hd xs) (tl xs)"

definition worst :: "real list \<Rightarrow> real \<Rightarrow> real" where
  "worst candidate side =
     (let s = sum_list candidate; sideSq = side * side; sumSq = s * s
      in max (sideSq * max_of candidate / sumSq) (sumSq / (sideSq * min_of candidate)))"

record treemap =
  tm_placed :: "treemap_rect list"
  tm_x :: real
  tm_y :: real
  tm_w :: real
  tm_h :: real
  tm_row :: "real list"

fun row_rects :: "bool \<Rightarrow> real \<Rightarrow> real \<Rightarrow> real \<Rightarrow> real \<Rightarrow> real list \<Rightarrow> treemap_rect list" where
  "row_rects horizontal x y thickness offset [] = []"
| "row_rects horizontal x y thickness offset (area # row) =
     (let len = area / thickness
      in (if horizontal
          then \<lparr>rect_x = x + offset, rect_y = y, rect_width = len, rect_height = thickness\<rparr>
          else \<lparr>rect_x = x, rect_y = y + offset, rect_width = thickness, rect_height = len\<rparr>)
         # row_rects horizontal x y thickness (offset + len) row)"

definition layout_row :: "treemap \<Rightarrow> treemap" where
  "layout_row st =
     (let horizontal = tm_w st < tm_h st;
          thickness = sum_list (tm_row st) / (if horizontal then tm_w st else tm_h st);
          st' = st\<lparr>tm_placed := tm_placed st @
            row_rects horizontal (tm_x st) (tm_y st) thickness 0 (tm_row st)\<rparr>
      in if horizontal then st'\<lparr>tm_y := tm_y st + thickness, tm_h := tm_h st - thickness\<rparr>
         else st'\<lparr>tm_x := tm_x st + thickness, tm_w := tm_w st - thickness\<rparr>)"

lemma layout_row_row [simp]: "tm_row (layout_row st) = tm_row st"
  by (simp add: layout_row_def Let_def)

function lay_out :: "real list \<Rightarrow> treemap \<Rightarrow> treemap" where
  "lay_out [] st = (if tm_row st \<noteq> [] then layout_row st else st)"
| "lay_out (area # rest) st =
     (let side = min (tm_w st) (tm_h st)
      in if tm_row st = [] \<or> worst (tm_row st @ [area]) side \<le> worst (tm_row st) side
         then lay_out rest (st\<lparr>tm_row := tm_row st @ [area]\<rparr>)
         else lay_out (area # rest) ((layout_row st)\<lparr>tm_row := []\<rparr>))"
  by pat_completeness auto
termination
  by (relation "measure (\<lambda>(todo, st). 2 * length todo + (if tm_row st = [] then 0 else 1))") auto

definition safe_weight :: "real option \<Rightarrow> real" where
  "safe_weight w = (case w of Some v \<Rightarrow> if v > 0 then v else 0 | None \<Rightarrow> 0)"

definition live_weights :: "real list \<Rightarrow> (real \<times> nat) list" where
  "live_weights safe = filter (\<lambda>(w, i). w > 0) (zip safe [0..<length safe])"

definition squarify :: "real option list \<Rightarrow> real \<Rightarrow> real \<Rightarrow> treemap_rect list" where
  "squarify weights width height =
     (let safe = map safe_weight weights; t = sum_list safe
      in if t \<le> 0 \<or> width \<le> 0 \<or> height \<le> 0 then map (\<lambda>_. empty_rect) weights
         else
           (let live = live_weights safe;
                scaled = map (\<lambda>(w, i). w / t * width * height) live;
                st = lay_out scaled \<lparr>tm_placed = [], tm_x = 0, tm_y = 0, tm_w = width, tm_h = height, tm_row = []\<rparr>
            in foldl (\<lambda>rects (k, i). rects[i := or_else (elem_at (tm_placed st) (int k)) empty_rect])
                 (map (\<lambda>_. empty_rect) weights)
                 (zip [0..<length live] (map snd live))))"

section \<open>Rectangles\<close>

abbreviation rect_area :: "treemap_rect \<Rightarrow> real" where
  "rect_area r \<equiv> rect_width r * rect_height r"

definition inside :: "treemap_rect \<Rightarrow> treemap_rect \<Rightarrow> bool" where
  "inside r s \<longleftrightarrow> 0 \<le> rect_width r \<and> 0 \<le> rect_height r \<and> rect_x s \<le> rect_x r \<and> rect_y s \<le> rect_y r \<and>
     rect_x r + rect_width r \<le> rect_x s + rect_width s \<and>
     rect_y r + rect_height r \<le> rect_y s + rect_height s"

text \<open>Two rectangles whose interiors do not meet.\<close>

definition apart :: "treemap_rect \<Rightarrow> treemap_rect \<Rightarrow> bool" where
  "apart r s \<longleftrightarrow> rect_x r + rect_width r \<le> rect_x s \<or> rect_x s + rect_width s \<le> rect_x r \<or>
     rect_y r + rect_height r \<le> rect_y s \<or> rect_y s + rect_height s \<le> rect_y r"

lemma inside_trans: "inside a b \<Longrightarrow> inside b c \<Longrightarrow> inside a c"
  by (auto simp: inside_def)

lemma apart_inside: "apart r s \<Longrightarrow> inside t s \<Longrightarrow> apart r t"
  by (auto simp: inside_def apart_def)

lemma inside_apart: "apart s r \<Longrightarrow> inside t s \<Longrightarrow> apart t r"
  by (auto simp: inside_def apart_def)

lemma apart_sym: "apart r s \<longleftrightarrow> apart s r"
  by (auto simp: apart_def)

definition strip :: "bool \<Rightarrow> real \<Rightarrow> real \<Rightarrow> real \<Rightarrow> real \<Rightarrow> real \<Rightarrow> treemap_rect" where
  "strip horizontal x y thickness offset len =
     (if horizontal
      then \<lparr>rect_x = x + offset, rect_y = y, rect_width = len, rect_height = thickness\<rparr>
      else \<lparr>rect_x = x, rect_y = y + offset, rect_width = thickness, rect_height = len\<rparr>)"

lemma row_rects_strip:
  assumes "0 < th" and "\<forall>a \<in> set row. 0 < a"
  shows "map rect_area (row_rects hz x y th off row) = row \<and>
    (\<forall>r \<in> set (row_rects hz x y th off row). inside r (strip hz x y th off (sum_list row / th))) \<and>
    sorted_wrt apart (row_rects hz x y th off row)"
  using assms(2)
proof (induction row arbitrary: off)
  case (Cons a row)
  let ?len = "a / th" and ?rest = "sum_list row / th"
  let ?tail = "strip hz x y th (off + ?len) ?rest" and ?all = "strip hz x y th off (sum_list (a # row) / th)"
  let ?r = "strip hz x y th off ?len"
  have IH: "map rect_area (row_rects hz x y th (off + ?len) row) = row \<and>
      (\<forall>r \<in> set (row_rects hz x y th (off + ?len) row). inside r ?tail) \<and>
      sorted_wrt apart (row_rects hz x y th (off + ?len) row)"
    using Cons by simp
  have pos: "0 \<le> ?len" "0 \<le> ?rest"
    using assms(1) Cons.prems by (auto intro!: divide_nonneg_pos sum_list_nonneg simp: less_imp_le)
  have "inside ?tail ?all" and "inside ?r ?all"
    using pos assms(1) by (auto simp: inside_def strip_def add_divide_distrib)
  moreover have "apart ?r ?tail" by (simp add: apart_def strip_def)
  moreover have "rect_area ?r = a" using assms(1) by (simp add: strip_def)
  moreover have "row_rects hz x y th off (a # row) = ?r # row_rects hz x y th (off + ?len) row"
    by (simp add: strip_def Let_def)
  ultimately show ?case using IH inside_trans apart_inside by auto
qed simp

section \<open>The layout fills the box\<close>

definition free_rect :: "treemap \<Rightarrow> treemap_rect" where
  "free_rect st = \<lparr>rect_x = tm_x st, rect_y = tm_y st, rect_width = tm_w st, rect_height = tm_h st\<rparr>"

definition treemap_inv :: "treemap_rect \<Rightarrow> real list \<Rightarrow> real list \<Rightarrow> treemap \<Rightarrow> bool" where
  "treemap_inv box areas rest st \<longleftrightarrow>
     inside (free_rect st) box \<and> tm_w st * tm_h st = sum_list (tm_row st) + sum_list rest \<and>
     (\<forall>a \<in> set (tm_row st @ rest). 0 < a) \<and>
     map rect_area (tm_placed st) @ tm_row st @ rest = areas \<and>
     (\<forall>r \<in> set (tm_placed st). inside r box \<and> apart r (free_rect st)) \<and>
     sorted_wrt apart (tm_placed st)"

lemma treemap_inv_push:
  "treemap_inv box areas (a # rest) st \<Longrightarrow> treemap_inv box areas rest (st\<lparr>tm_row := tm_row st @ [a]\<rparr>)"
  by (auto simp: treemap_inv_def free_rect_def)

lemma treemap_inv_row:
  assumes inv: "treemap_inv box areas rest st" and row: "tm_row st \<noteq> []"
  shows "treemap_inv box areas rest ((layout_row st)\<lparr>tm_row := []\<rparr>)"
proof -
  let ?S = "sum_list (tm_row st)" and ?hz = "tm_w st < tm_h st"
  let ?side = "if ?hz then tm_w st else tm_h st" and ?other = "if ?hz then tm_h st else tm_w st"
  let ?th = "?S / ?side"
  let ?st = "(layout_row st)\<lparr>tm_row := []\<rparr>"
  let ?new = "row_rects ?hz (tm_x st) (tm_y st) ?th 0 (tm_row st)"
  have pos: "\<forall>a \<in> set (tm_row st). 0 < a" and "\<forall>a \<in> set rest. 0 < a"
    using inv by (auto simp: treemap_inv_def)
  then have rest: "0 \<le> sum_list rest" by (intro sum_list_nonneg) (auto simp: less_imp_le)
  have S: "0 < ?S"
    using pos row by (cases "tm_row st") (auto intro!: add_pos_nonneg sum_list_nonneg simp: less_imp_le)
  have wh: "tm_w st * tm_h st = ?S + sum_list rest" "0 \<le> tm_w st" "0 \<le> tm_h st"
    using inv by (auto simp: treemap_inv_def inside_def free_rect_def)
  then have "0 < tm_w st * tm_h st" using S rest by simp
  then have w: "0 < tm_w st" "0 < tm_h st" using wh(2,3) by (auto simp: zero_less_mult_iff)
  then have th: "0 < ?th" using S by simp
  have "?S \<le> ?side * ?other" using wh rest by (auto simp: mult.commute)
  then have fit: "?th \<le> ?other" using w by (auto simp: pos_divide_le_eq mult.commute)
  have len: "?S / ?th = ?side" using S w by auto
  note rr = row_rects_strip [OF th pos, of ?hz "tm_x st" "tm_y st" 0, unfolded len]
  let ?strip = "strip ?hz (tm_x st) (tm_y st) ?th 0 ?side"
  have placed: "tm_placed ?st = tm_placed st @ ?new" by (simp add: layout_row_def Let_def)
  have strip: "inside ?strip (free_rect st)"
    using th fit w by (auto simp: inside_def strip_def free_rect_def)
  have free: "inside (free_rect ?st) (free_rect st)" "apart ?strip (free_rect ?st)"
    using fit w th by (auto simp: inside_def apart_def strip_def free_rect_def layout_row_def Let_def)
  have area: "tm_w ?st * tm_h ?st = sum_list rest"
    using wh(1) w by (auto simp: layout_row_def Let_def algebra_simps)
  have old: "inside r box \<and> apart r (free_rect st)" if "r \<in> set (tm_placed st)" for r
    using inv that by (simp add: treemap_inv_def)
  have fbox: "inside (free_rect st) box" using inv by (simp add: treemap_inv_def)
  have new: "inside r ?strip" if "r \<in> set ?new" for r using rr that by blast
  have cross: "\<forall>a \<in> set (tm_placed st). \<forall>b \<in> set ?new. apart a b"
  proof (intro ballI)
    fix a b
    assume "a \<in> set (tm_placed st)" and "b \<in> set ?new"
    then show "apart a b"
      using apart_inside [OF apart_inside [OF conjunct2 [OF old] strip] new] by blast
  qed
  have "inside r box \<and> apart r (free_rect ?st)" if "r \<in> set (tm_placed ?st)" for r
  proof (cases "r \<in> set ?new")
    case True
    then show ?thesis
      using inside_trans [OF inside_trans [OF new [OF True] strip] fbox]
        inside_apart [OF free(2) new [OF True]] by blast
  next
    case False
    then show ?thesis using that placed old free(1) apart_inside by auto
  qed
  moreover have "sorted_wrt apart (tm_placed ?st)"
    using inv rr cross unfolding placed sorted_wrt_append by (simp add: treemap_inv_def)
  moreover have "map rect_area (tm_placed ?st) @ rest = areas"
    using inv rr unfolding placed by (simp add: treemap_inv_def)
  ultimately show ?thesis
    using free(1) fbox inside_trans area inv unfolding treemap_inv_def by auto
qed

lemma lay_out_inv:
  "treemap_inv box areas rest st \<Longrightarrow>
   map rect_area (tm_placed (lay_out rest st)) = areas \<and>
   (\<forall>r \<in> set (tm_placed (lay_out rest st)). inside r box) \<and>
   sorted_wrt apart (tm_placed (lay_out rest st))"
proof (induction rest st rule: lay_out.induct)
  case (1 st)
  show ?case
  proof (cases "tm_row st = []")
    case True
    then show ?thesis using 1 by (simp add: treemap_inv_def)
  next
    case False
    then show ?thesis using treemap_inv_row [OF 1 False] by (simp add: treemap_inv_def)
  qed
next
  case (2 a rest st)
  show ?case
  proof (cases "tm_row st = [] \<or> worst (tm_row st @ [a]) (min (tm_w st) (tm_h st))
      \<le> worst (tm_row st) (min (tm_w st) (tm_h st))")
    case True
    then show ?thesis using 2(1) [OF refl True] treemap_inv_push [OF 2(3)] by simp
  next
    case False
    then show ?thesis using 2(2) [OF refl False] treemap_inv_row [OF 2(3)] by simp
  qed
qed

section \<open>One rectangle per weight\<close>

lemma foldl_update:
  assumes "distinct (map snd kis)" and "\<forall>(k, i) \<in> set kis. i < length base"
  shows "length (foldl (\<lambda>rs (k, i). rs[i := f k]) base kis) = length base \<and>
    (\<forall>(k, i) \<in> set kis. foldl (\<lambda>rs (k, i). rs[i := f k]) base kis ! i = f k) \<and>
    (\<forall>j < length base. j \<notin> snd ` set kis \<longrightarrow>
       foldl (\<lambda>rs (k, i). rs[i := f k]) base kis ! j = base ! j)"
  using assms
proof (induction kis arbitrary: base)
  case (Cons ki kis)
  obtain k i where ki: "ki = (k, i)" by (cases ki)
  have "i \<notin> snd ` set kis" using Cons.prems(1) by (simp add: ki)
  then show ?case
    using Cons.IH [of "base[i := f k]"] Cons.prems by (fastforce simp: ki nth_list_update)
qed simp

lemma distinct_live: "distinct (map snd (live_weights safe))"
  unfolding live_weights_def by (intro distinct_map_filter) simp

lemma live_range: "(w, i) \<in> set (live_weights safe) \<Longrightarrow> i < length safe \<and> w = safe ! i \<and> 0 < w"
  by (auto simp: live_weights_def in_set_zip)

lemma live_mem: "i < length safe \<Longrightarrow> 0 < safe ! i \<Longrightarrow> (safe ! i, i) \<in> set (live_weights safe)"
  by (auto simp: live_weights_def in_set_zip intro!: exI [of _ i])

lemma sum_live: "sum_list (map fst (live_weights safe)) = sum_list safe" if "\<forall>w \<in> set safe. 0 \<le> w"
proof -
  have "sum_list (map fst (filter (\<lambda>(w, i). w > 0) ps)) = sum_list (map fst ps)"
    if "\<forall>p \<in> set ps. 0 \<le> fst p" for ps :: "(real \<times> nat) list"
    using that by (induction ps) (auto simp: order_less_le)
  moreover have "\<forall>p \<in> set (zip safe [0..<length safe]). 0 \<le> fst p"
    using that by (auto dest: set_zip_leftD)
  ultimately show ?thesis by (simp add: live_weights_def)
qed

lemma squarify_placed:
  assumes "0 < width" and "0 < height" and t: "0 < sum_list (map safe_weight ws)"
  defines "live \<equiv> live_weights (map safe_weight ws)"
  shows "\<exists>placed. length placed = length live \<and> sorted_wrt apart placed \<and>
    length (squarify ws width height) = length ws \<and>
    (\<forall>k < length live. squarify ws width height ! snd (live ! k) = placed ! k \<and>
       rect_area (placed ! k) = fst (live ! k) / sum_list (map safe_weight ws) * width * height \<and>
       inside (placed ! k) \<lparr>rect_x = 0, rect_y = 0, rect_width = width, rect_height = height\<rparr>) \<and>
    (\<forall>i < length ws. safe_weight (ws ! i) = 0 \<longrightarrow> squarify ws width height ! i = empty_rect)"
proof -
  let ?safe = "map safe_weight ws" and ?t = "sum_list (map safe_weight ws)"
  let ?box = "\<lparr>rect_x = 0, rect_y = 0, rect_width = width, rect_height = height\<rparr>"
  let ?st = "\<lparr>tm_placed = [], tm_x = 0, tm_y = 0, tm_w = width, tm_h = height, tm_row = []\<rparr>"
  define scaled where "scaled = map (\<lambda>(w, i). w / ?t * width * height) live"
  define placed where "placed = tm_placed (lay_out scaled ?st)"
  have nonneg: "\<forall>w \<in> set ?safe. 0 \<le> w" by (auto simp: safe_weight_def split: option.splits)
  have "map (\<lambda>(w, i). w / ?t * width * height) ps = map (\<lambda>w. w * (width * height / ?t)) (map fst ps)"
    for ps :: "(real \<times> nat) list" by auto
  then have "sum_list scaled = sum_list (map fst live) * (width * height / ?t)"
    unfolding scaled_def by (simp only: sum_list_mult_const map_ident)
  then have total: "sum_list scaled = width * height"
    using t sum_live [OF nonneg] by (simp add: live_def)
  have "\<forall>a \<in> set scaled. 0 < a"
    using assms(1,2) t live_range by (fastforce simp: scaled_def live_def)
  then have "treemap_inv ?box scaled scaled ?st"
    using assms(1,2) total by (auto simp: treemap_inv_def free_rect_def inside_def)
  note L = lay_out_inv [OF this, folded placed_def]
  have len: "length placed = length live"
    using L by (metis length_map scaled_def)
  have area: "rect_area (placed ! k) = fst (live ! k) / ?t * width * height" if "k < length live" for k
    using that L len by (metis (no_types, lifting) nth_map scaled_def case_prod_unfold)
  let ?kis = "zip [0..<length live] (map snd live)"
  let ?f = "\<lambda>k. or_else (elem_at placed (int k)) empty_rect"
  have sq: "squarify ws width height = foldl (\<lambda>rs (k, i). rs[i := ?f k]) (map (\<lambda>_. empty_rect) ws) ?kis"
    using assms(1,2) t by (simp add: squarify_def Let_def placed_def scaled_def live_def)
  have snds: "map snd ?kis = map snd live" by simp
  have "i < length ws" if "(w, i) \<in> set live" for w i using that live_range by (fastforce simp: live_def)
  then have kis: "distinct (map snd ?kis)" "\<forall>(k, i) \<in> set ?kis. i < length (map (\<lambda>_. empty_rect) ws)"
    using distinct_live [of ?safe] by (auto simp: live_def dest!: set_zip_rightD)
  note F = foldl_update [OF kis, of ?f, folded sq]
  have at: "squarify ws width height ! snd (live ! k) = placed ! k" if "k < length live" for k
  proof -
    have "(k, snd (live ! k)) \<in> set ?kis" using that by (auto simp: in_set_zip intro!: exI [of _ k])
    then show ?thesis using F that len by (fastforce simp: elem_at_def)
  qed
  have "squarify ws width height ! i = empty_rect" if "i < length ws" "safe_weight (ws ! i) = 0" for i
  proof -
    have "i \<notin> snd ` set live" using that live_range by (fastforce simp: live_def)
    then have "i \<notin> snd ` set ?kis" using snds by (metis set_map)
    then show ?thesis using F that by auto
  qed
  then show ?thesis
    using len L at area F by (intro exI [of _ placed]) (auto simp: nth_mem)
qed

lemma squarify_tiling:
  assumes "0 < width" and "0 < height" and "0 < sum_list (map safe_weight ws)"
  shows "length (squarify ws width height) = length ws \<and>
    (\<forall>i < length ws.
       rect_area (squarify ws width height ! i) =
         safe_weight (ws ! i) / sum_list (map safe_weight ws) * width * height \<and>
       inside (squarify ws width height ! i)
         \<lparr>rect_x = 0, rect_y = 0, rect_width = width, rect_height = height\<rparr> \<and>
       (\<forall>j < i. apart (squarify ws width height ! j) (squarify ws width height ! i)))"
proof -
  let ?live = "live_weights (map safe_weight ws)" and ?sq = "squarify ws width height"
  let ?box = "\<lparr>rect_x = 0, rect_y = 0, rect_width = width, rect_height = height\<rparr>"
  obtain placed where P: "length placed = length ?live" "sorted_wrt apart placed"
    "length ?sq = length ws"
    "\<forall>k < length ?live. ?sq ! snd (?live ! k) = placed ! k \<and>
       rect_area (placed ! k) = fst (?live ! k) / sum_list (map safe_weight ws) * width * height \<and>
       inside (placed ! k) ?box"
    "\<forall>i < length ws. safe_weight (ws ! i) = 0 \<longrightarrow> ?sq ! i = empty_rect"
    using squarify_placed [OF assms] by blast
  have cases: "safe_weight (ws ! i) = 0 \<and> ?sq ! i = empty_rect \<or>
      (\<exists>k < length ?live. ?live ! k = (safe_weight (ws ! i), i) \<and> ?sq ! i = placed ! k)"
    if i: "i < length ws" for i
  proof (cases "safe_weight (ws ! i) = 0")
    case False
    then have "0 < safe_weight (ws ! i)" by (auto simp: safe_weight_def split: option.splits if_splits)
    then have "(safe_weight (ws ! i), i) \<in> set ?live" using live_mem [of i "map safe_weight ws"] i by simp
    then obtain k where "k < length ?live" "?live ! k = (safe_weight (ws ! i), i)"
      by (auto simp: in_set_conv_nth)
    then show ?thesis using P(4) by force
  qed (use P(5) i in simp)
  have box: "inside (?sq ! i) ?box" if "i < length ws" for i
    using cases [OF that] P(4) assms(1,2) by (auto simp: inside_def)
  have pair: "apart (?sq ! j) (?sq ! i)" if ij: "i < length ws" "j < i" for i j
  proof -
    have j: "j < length ws" using ij by simp
    from cases [OF ij(1)] cases [OF j] consider
        "?sq ! i = empty_rect" | "?sq ! j = empty_rect"
      | k l where "k < length ?live" "l < length ?live" "snd (?live ! k) = i" "snd (?live ! l) = j"
          "?sq ! i = placed ! k" "?sq ! j = placed ! l"
      by (metis snd_conv)
    then show ?thesis
    proof cases
      case 3
      then have "k \<noteq> l" using ij(2) by auto
      then have "apart (placed ! l) (placed ! k)"
        using P(1,2) 3 sorted_wrt_nth_less [OF P(2)] apart_sym by (metis nat_neq_iff)
      then show ?thesis using 3 by simp
    qed (use box ij(1) j in \<open>auto simp: apart_def inside_def\<close>)
  qed
  have "rect_area (?sq ! i) = safe_weight (ws ! i) / sum_list (map safe_weight ws) * width * height"
    if "i < length ws" for i
    using cases [OF that] P(4) by auto
  then show ?thesis using P(3) box pair by blast
qed

text \<open>
  C19: In a box of positive size every weight gets one rectangle whose area is its share of
  the box (none for a weight that is not a positive number), every rectangle lies inside the
  box, and no two rectangles overlap: the layout tiles the box.
\<close>

theorem squarify_tiles:
  assumes "0 < width" and "0 < height" and "0 < sum_list (map safe_weight ws)"
  shows "length (squarify ws width height) = length ws \<and>
    (\<forall>i < length ws.
       rect_area (squarify ws width height ! i) =
         safe_weight (ws ! i) / sum_list (map safe_weight ws) * width * height \<and>
       inside (squarify ws width height ! i)
         \<lparr>rect_x = 0, rect_y = 0, rect_width = width, rect_height = height\<rparr> \<and>
       (\<forall>j < i. apart (squarify ws width height ! j) (squarify ws width height ! i)))"
  using squarify_tiling [OF assms] .

theorem squarify_tiles_witness:
  "rect_area (squarify [Some 3, None, Some 1] 4 2 ! 0) = 6"
  using squarify_tiles [of 4 2 "[Some 3, None, Some 1]"] by (simp add: safe_weight_def)

end
