(* ===== verification/Url.thy ===== *)
theory Url
  imports Json Card
begin

text \<open>
  URLs: the two escape functions of the language on UTF-8 bytes, the link guard
  (\<open>news-core/src/urlSafety.ts\<close>) and the news helpers (\<open>news-core/src/news.ts\<close>). The
  relative-time formatter of the platform is the parameter \<open>fmt\<close>: it gives a text or throws
  (\<open>None\<close>).
\<close>

section \<open>Escaping\<close>

definition uri_unreserved :: "char \<Rightarrow> bool" where
  "uri_unreserved c \<longleftrightarrow> is_alnum c \<or> c \<in> set ''-_.!~*'' \<or> code c = 39 \<or> c \<in> set ''()''"

definition hex_upper :: "nat \<Rightarrow> char" where
  "hex_upper n = char_of (if n < 10 then 48 + n else 55 + n)"

definition escape_byte :: "char \<Rightarrow> string" where
  "escape_byte c = [CHR ''%'', hex_upper (code c div 16), hex_upper (code c mod 16)]"

definition encode_uri_component :: "string \<Rightarrow> string" where
  "encode_uri_component s =
     concat (map (\<lambda>c. if uri_unreserved c then [c] else escape_byte c) s)"

text \<open>The number of bytes a lead byte announces, and the byte sequences that are one character.\<close>

definition seq_length :: "nat \<Rightarrow> nat" where
  "seq_length a =
     (if a < 128 then 1 else if 194 \<le> a \<and> a < 224 then 2
      else if 224 \<le> a \<and> a < 240 then 3 else if 240 \<le> a \<and> a < 245 then 4 else 0)"

definition is_cont :: "nat \<Rightarrow> bool" where
  "is_cont b \<longleftrightarrow> 128 \<le> b \<and> b < 192"

fun well_formed :: "nat list \<Rightarrow> bool" where
  "well_formed [a] \<longleftrightarrow> a < 128"
| "well_formed [a, b] \<longleftrightarrow> 194 \<le> a \<and> a < 224 \<and> is_cont b"
| "well_formed [a, b, c] \<longleftrightarrow> 224 \<le> a \<and> a < 240 \<and> is_cont b \<and> is_cont c \<and>
     (a = 224 \<longrightarrow> 160 \<le> b) \<and> (a = 237 \<longrightarrow> b < 160)"
| "well_formed [a, b, c, d] \<longleftrightarrow> 240 \<le> a \<and> a < 245 \<and> is_cont b \<and> is_cont c \<and> is_cont d \<and>
     (a = 240 \<longrightarrow> 144 \<le> b) \<and> (a = 244 \<longrightarrow> b < 144)"
| "well_formed _ \<longleftrightarrow> False"

text \<open>\<open>n\<close> escapes in a row, as the bytes they stand for and the rest.\<close>

fun take_escapes :: "nat \<Rightarrow> string \<Rightarrow> (nat list \<times> string) option" where
  "take_escapes 0 s = Some ([], s)"
| "take_escapes (Suc n) (p # h # l # r) =
     (if p = CHR ''%'' then
        (case (hex_val h, hex_val l) of
           (Some x, Some y) \<Rightarrow> map_option (\<lambda>(bs, t). ((x * 16 + y) # bs, t)) (take_escapes n r)
         | _ \<Rightarrow> None)
      else None)"
| "take_escapes _ _ = None"

lemma take_escapes_length:
  "take_escapes n s = Some (bs, t) \<Longrightarrow> length s = 3 * n + length t \<and> length bs = n"
  by (induction n s arbitrary: bs t rule: take_escapes.induct)
    (auto split: if_splits option.splits)

text \<open>\<open>None\<close> is the \<open>URIError\<close> of a malformed escape.\<close>

function decode_uri_component :: "string \<Rightarrow> string option" where
  "decode_uri_component s =
     (case s of
        [] \<Rightarrow> Some []
      | c # r \<Rightarrow>
          if c \<noteq> CHR ''%'' then map_option ((#) c) (decode_uri_component r)
          else (case take_escapes 1 s of
              Some ([b], _) \<Rightarrow>
                (if seq_length b = 0 then None
                 else (case take_escapes (seq_length b) s of
                     Some (bs, t) \<Rightarrow>
                       if well_formed bs
                       then map_option ((@) (map char_of bs)) (decode_uri_component t)
                       else None
                   | None \<Rightarrow> None))
            | _ \<Rightarrow> None))"
  by pat_completeness auto
termination
  by (relation "measure length") (auto dest!: take_escapes_length)

declare decode_uri_component.simps [simp del]

section \<open>The link guard\<close>

text \<open>What follows \<open>http://\<close> or \<open>https://\<close> in any case, when the text starts so.\<close>

definition after_scheme :: "string \<Rightarrow> string option" where
  "after_scheme url =
     (if to_lower (take 7 url) = ''http://'' then Some (drop 7 url)
      else if to_lower (take 8 url) = ''https://'' then Some (drop 8 url)
      else None)"

definition is_http_url :: "string option \<Rightarrow> bool" where
  "is_http_url url =
     (case truthy url of
        None \<Rightarrow> False
      | Some u \<Rightarrow>
          (case after_scheme u of
             None \<Rightarrow> False
           | Some rest \<Rightarrow> rest \<noteq> [] \<and> \<not> has_space rest))"

definition safe_external_href :: "string option \<Rightarrow> string option" where
  "safe_external_href url = (if is_http_url url then url else None)"

definition host_of :: "string option \<Rightarrow> string option" where
  "host_of url =
     (if is_http_url url then
        (case url of
           None \<Rightarrow> None
         | Some u \<Rightarrow>
             truthy (map_option (\<lambda>rest. to_lower (takeWhile (\<lambda>c. c \<notin> set ''/:?#'') rest)) (after_scheme u)))
      else None)"

definition unsummarizable_hosts :: "string list" where
  "unsummarizable_hosts = [''youtube.com'', ''www.youtube.com'', ''m.youtube.com'', ''youtu.be'']"

definition is_summarizable :: "string option \<Rightarrow> bool" where
  "is_summarizable url =
     (case host_of url of None \<Rightarrow> False | Some host \<Rightarrow> host \<notin> set unsummarizable_hosts)"

section \<open>Paths\<close>

definition source_icon_path :: "string \<Rightarrow> string" where
  "source_icon_path cid = ''/news-icons/'' @ encode_uri_component (source_family cid) @ ''.png''"

definition share_card_path :: "string \<Rightarrow> string" where
  "share_card_path cardId = ''/?card='' @ encode_uri_component cardId"

definition wall_path :: "string option \<Rightarrow> string" where
  "wall_path topic =
     (case truthy topic of None \<Rightarrow> ''/'' | Some t \<Rightarrow> ''/?topic='' @ encode_uri_component t)"

definition story_path :: "string \<Rightarrow> string" where
  "story_path storyId = ''/story/'' @ encode_uri_component storyId"

section \<open>Relative time\<close>

datatype time_unit = Second | Minute | Hour | Day | Week | Month | Year

fun compact_suffix :: "time_unit \<Rightarrow> string" where
  "compact_suffix Second = ''s''"
| "compact_suffix Minute = ''m''"
| "compact_suffix Hour = ''h''"
| "compact_suffix Day = ''d''"
| "compact_suffix Week = ''w''"
| "compact_suffix Month = ''mo''"
| "compact_suffix Year = ''y''"

text \<open>The value and unit \<open>timeAgo\<close> prints; \<open>None\<close> is a difference that is not finite.\<close>

definition age_of :: "real option \<Rightarrow> int \<times> time_unit" where
  "age_of diff =
     (case diff of
        None \<Rightarrow> (0, Second)
      | Some d \<Rightarrow>
          if d < 60000 then (0, Second)
          else
            (let minutes = \<lfloor>d / 60000\<rfloor>
             in if minutes < 60 then (minutes, Minute)
                else
                  (let hours = minutes div 60
                   in if hours < 24 then (hours, Hour)
                      else
                        (let days = hours div 24
                         in if days < 7 then (days, Day)
                            else if days < 30 then (days div 7, Week)
                            else if days < 365 then (days div 30, Month)
                            else (days div 365, Year)))))"

definition time_ago ::
  "(int \<Rightarrow> time_unit \<Rightarrow> string option) \<Rightarrow> real option \<Rightarrow> real option \<Rightarrow> string" where
  "time_ago fmt ms now =
     (let diff = (case (now, ms) of (Some n, Some m) \<Rightarrow> Some (n - m) | _ \<Rightarrow> None);
          (v, u) = age_of diff
      in case fmt (- v) u of
           Some s \<Rightarrow> s
         | None \<Rightarrow> if v = 0 then ''now'' else show_int v @ compact_suffix u @ '' ago'')"

section \<open>Escaping round trip\<close>

lemma hex_val_upper: "n < 16 \<Longrightarrow> hex_val (hex_upper n) = Some n"
  by (auto simp: hex_val_def hex_upper_def is_digit_def)

lemma take_escapes_escape:
  "take_escapes (length cs) (concat (map escape_byte cs) @ r) = Some (map of_char cs, r)"
proof (induction cs)
  case (Cons c cs)
  have "code c div 16 < 16" and "code c mod 16 < 16" using code_less [of c] by linarith+
  then show ?case using Cons by (simp add: escape_byte_def hex_val_upper)
qed simp

text \<open>UTF-8 texts: sequences of well-formed characters.\<close>

inductive utf8_text :: "string \<Rightarrow> bool" where
  utf8_Nil: "utf8_text []"
| utf8_char: "well_formed (map of_char cs) \<Longrightarrow> utf8_text s \<Longrightarrow> utf8_text (cs @ s)"

lemma well_formed_cases:
  assumes "well_formed (map of_char cs)"
  shows "(\<exists>c. cs = [c] \<and> code c < 128) \<or>
    (cs \<noteq> [] \<and> (\<forall>c \<in> set cs. 128 \<le> code c) \<and> seq_length (code (hd cs)) = length cs)"
proof -
  consider "cs = []" | c where "cs = [c]" | c d where "cs = [c, d]" | c d e where "cs = [c, d, e]"
    | c d e f where "cs = [c, d, e, f]" | c d e f g gs where "cs = c # d # e # f # g # gs"
    by (metis list.exhaust)
  then show ?thesis
    using assms by cases (auto simp: seq_length_def is_cont_def)
qed

lemma unreserved_ascii: "uri_unreserved c \<Longrightarrow> code c < 128"
  by (auto simp: uri_unreserved_def is_alnum_def is_alpha_def is_lower_def is_upper_def is_digit_def)

lemma encode_append: "encode_uri_component (s @ t) = encode_uri_component s @ encode_uri_component t"
  by (simp add: encode_uri_component_def)

lemma encode_high:
  "\<forall>c \<in> set cs. 128 \<le> code c \<Longrightarrow> encode_uri_component cs = concat (map escape_byte cs)"
  by (induction cs) (auto simp: encode_uri_component_def dest: unreserved_ascii)

lemma decode_escapes:
  assumes "well_formed (map of_char cs)" and "seq_length (code (hd cs)) = length cs"
    and "cs \<noteq> []"
  shows "decode_uri_component (concat (map escape_byte cs) @ t) = map_option ((@) cs) (decode_uri_component t)"
proof -
  obtain c cs' where cs: "cs = c # cs'" using assms(3) by (cases cs) auto
  have one: "take_escapes 1 (concat (map escape_byte cs) @ t) = Some ([code c], concat (map escape_byte cs') @ t)"
    using take_escapes_escape [of "[c]"] by (simp add: cs)
  have "take_escapes (seq_length (code c)) (concat (map escape_byte cs) @ t) = Some (map of_char cs, t)"
    using take_escapes_escape [of cs t] assms(2) by (simp add: cs)
  moreover have "seq_length (code c) \<noteq> 0" using assms(2) by (simp add: cs)
  moreover have "map char_of (map of_char cs :: nat list) = cs" by (simp add: comp_def)
  moreover have "\<exists>r. concat (map escape_byte cs) @ t = CHR ''%'' # r" by (simp add: cs escape_byte_def)
  ultimately show ?thesis
    using one assms(1) by (subst decode_uri_component.simps) (auto simp del: One_nat_def)
qed

lemma decode_encode_append:
  "utf8_text s \<Longrightarrow> decode_uri_component (encode_uri_component s @ t) = map_option ((@) s) (decode_uri_component t)"
proof (induction rule: utf8_text.induct)
  case utf8_Nil
  show ?case by (simp add: encode_uri_component_def option.map_ident)
next
  case (utf8_char cs s)
  consider c where "cs = [c]" "uri_unreserved c"
    | "encode_uri_component cs = concat (map escape_byte cs)" "cs \<noteq> []"
      "seq_length (code (hd cs)) = length cs"
    using well_formed_cases [OF utf8_char(1)] encode_high
    by (fastforce simp: encode_uri_component_def seq_length_def)
  then show ?case
  proof cases
    case 1
    then have "c \<noteq> CHR ''%''" by (auto simp: uri_unreserved_def is_alnum_def is_alpha_def
        is_lower_def is_upper_def is_digit_def)
    then show ?thesis
      using 1 utf8_char.IH
      by (simp add: encode_uri_component_def decode_uri_component.simps [of "c # _"]
          option.map_comp comp_def)
  next
    case 2
    then show ?thesis
      using decode_escapes [OF utf8_char(1)] utf8_char.IH
      by (simp add: encode_append option.map_comp comp_def)
  qed
qed

lemma decode_Nil [simp]: "decode_uri_component [] = Some []"
  by (simp add: decode_uri_component.simps)

lemma decode_plain: "c \<noteq> CHR ''%'' \<Longrightarrow> decode_uri_component (c # s) = map_option ((#) c) (decode_uri_component s)"
  by (simp add: decode_uri_component.simps [of "c # s"])

theorem decode_encode_uri: "utf8_text s \<Longrightarrow> decode_uri_component (encode_uri_component s) = Some s"
  using decode_encode_append [of s "[]"] by simp

lemma encode_chars:
  assumes "c \<in> set (encode_uri_component s)"
  shows "uri_unreserved c \<or> c = CHR ''%''"
proof -
  have "uri_unreserved (hex_upper n)" if "n < 16" for n
    using that by (auto simp: hex_upper_def uri_unreserved_def is_alnum_def is_digit_def is_alpha_def
        is_upper_def)
  moreover have "code x div 16 < 16" and "code x mod 16 < 16" for x :: char
    using code_less [of x] by linarith+
  ultimately show ?thesis
    using assms by (auto simp: encode_uri_component_def escape_byte_def split: if_splits)
qed

lemma not_unreserved [simp]:
  "\<not> uri_unreserved (CHR ''&'')" "\<not> uri_unreserved (CHR ''='')" "\<not> uri_unreserved (CHR ''+'')"
  "\<not> uri_unreserved (CHR ''#'')" "\<not> uri_unreserved (CHR ''?'')" "\<not> uri_unreserved (CHR '','')"
  "\<not> uri_unreserved (CHR ''/'')"
  by (simp_all add: uri_unreserved_def is_alnum_def is_alpha_def is_lower_def is_upper_def is_digit_def)

lemma encode_no_separator [simp]:
  "CHR ''&'' \<notin> set (encode_uri_component s)" "CHR ''='' \<notin> set (encode_uri_component s)"
  "CHR ''+'' \<notin> set (encode_uri_component s)" "CHR ''#'' \<notin> set (encode_uri_component s)"
  "CHR ''?'' \<notin> set (encode_uri_component s)" "CHR '','' \<notin> set (encode_uri_component s)"
  "CHR ''/'' \<notin> set (encode_uri_component s)"
  using encode_chars [of _ s] not_unreserved by fastforce+

lemma utf8_ascii: "\<forall>c \<in> set s. code c < 128 \<Longrightarrow> utf8_text s"
proof (induction s)
  case (Cons c s)
  then show ?case using utf8_char [of "[c]" s] by simp
qed (rule utf8_Nil)

section \<open>Links and labels\<close>

lemma after_scheme_Some:
  assumes "after_scheme u = Some rest"
  shows "to_lower u = ''http://'' @ to_lower rest \<or> to_lower u = ''https://'' @ to_lower rest"
proof -
  have "to_lower u = to_lower (take n u) @ to_lower (drop n u)" for n
    by (metis append_take_drop_id map_append to_lower_def)
  from this [of 7] this [of 8] show ?thesis
    using assms by (auto simp: after_scheme_def split: if_splits)
qed

text \<open>
  A link that leaves the client is the URL it was given, unchanged, and that URL is an
  absolute http or https one without white space (so never \<open>javascript:\<close> or \<open>data:\<close>);
  a story that can be summarized has such a link and a host that is not a video player's.
\<close>

theorem safe_href_sound:
  "(\<forall>v. safe_external_href url = Some v \<longrightarrow> url = Some v \<and>
     (\<exists>rest. rest \<noteq> [] \<and> \<not> has_space rest \<and>
       (to_lower v = ''http://'' @ to_lower rest \<or> to_lower v = ''https://'' @ to_lower rest))) \<and>
   (is_summarizable url \<longrightarrow> safe_external_href url = url \<and>
     (\<exists>host. host_of url = Some host \<and> host \<noteq> [] \<and> host \<notin> set unsummarizable_hosts))"
proof -
  have "\<exists>rest. rest \<noteq> [] \<and> \<not> has_space rest \<and>
      (to_lower v = ''http://'' @ to_lower rest \<or> to_lower v = ''https://'' @ to_lower rest)"
    if "is_http_url (Some v)" for v
    using that after_scheme_Some
    by (fastforce simp: is_http_url_def truthy_def split: option.splits if_splits)
  moreover have "host \<noteq> []" if "host_of url = Some host" for host
    using that by (auto simp: host_of_def truthy_Some split: if_splits option.splits)
  ultimately show ?thesis
    by (auto simp: safe_external_href_def is_summarizable_def host_of_def
        split: if_splits option.splits)
qed

theorem safe_href_sound_witness:
  "safe_external_href (Some ''javascript:alert(1)'') = None \<and>
   safe_external_href (Some ''https://bbc.com/a'') = Some ''https://bbc.com/a'' \<and>
   (\<exists>rest. rest \<noteq> [] \<and> \<not> has_space rest)"
proof -
  have a: "safe_external_href (Some ''javascript:alert(1)'') = None" by code_simp
  have b: "safe_external_href (Some ''https://bbc.com/a'') = Some ''https://bbc.com/a''" by code_simp
  show ?thesis using safe_href_sound [of "Some ''https://bbc.com/a''"] a b by blast
qed

definition unit_ms :: "time_unit \<Rightarrow> int" where
  "unit_ms u = (case u of Second \<Rightarrow> 1000 | Minute \<Rightarrow> 60000 | Hour \<Rightarrow> 3600000 | Day \<Rightarrow> 86400000
     | Week \<Rightarrow> 604800000 | Month \<Rightarrow> 2592000000 | Year \<Rightarrow> 31536000000)"

lemma div_around:
  assumes "0 < k"
  shows "(x div k) * k \<le> x \<and> x + 1 \<le> (x div k + 1) * (k::int)"
proof -
  have "x mod k + 1 \<le> k" and "0 \<le> x mod k" using pos_mod_bound [OF assms, of x] pos_mod_sign [OF assms, of x] by linarith+
  moreover have "(x div k) * k = x - x mod k" by (rule minus_mod_eq_div_mult [symmetric])
  ultimately show ?thesis by (simp only: distrib_right) linarith
qed

lemma day_bounds:
  assumes "days = m div 1440" and "0 < n"
  shows "(days div n) * (n * 86400000) \<le> m * 60000 \<and>
    (m + 1) * 60000 \<le> (days div n + 1) * (n * 86400000 :: int)"
proof -
  have m: "days * 1440 \<le> m" "m + 1 \<le> (days + 1) * 1440"
    using div_around [of 1440 m] assms(1) by simp_all
  obtain q r where qr: "q = (days div n) * n" "r = (days div n + 1) * n" by blast
  have "q \<le> days" and "days + 1 \<le> r"
    using div_around [OF assms(2), of days] qr by blast+
  then have "q * 86400000 \<le> m * 60000" and "(m + 1) * 60000 \<le> r * 86400000"
    using m by auto
  then have "(days div n) * n * 86400000 \<le> m * 60000"
    and "(m + 1) * 60000 \<le> (days div n + 1) * n * 86400000" by (simp_all only: qr)
  then show ?thesis by (simp only: mult.assoc)
qed

text \<open>
  an age of a minute or more is shown as a count of at least one unit that is no longer
  than the age, below the next unit up, and within one unit of it; a younger or future or
  invalid date reads as now.
\<close>

theorem age_of_bounds:
  "(d < 60000 \<longrightarrow> age_of (Some d) = (0, Second)) \<and> age_of None = (0, Second) \<and>
   (60000 \<le> d \<longrightarrow>
     (case age_of (Some d) of (v, u) \<Rightarrow>
        1 \<le> v \<and> of_int (v * unit_ms u) \<le> d \<and> d < of_int ((v + 1) * unit_ms u) \<and>
        (u = Minute \<longrightarrow> v < 60) \<and> (u = Hour \<longrightarrow> v < 24) \<and> (u = Day \<longrightarrow> v < 7) \<and>
        (u = Week \<longrightarrow> v \<le> 4) \<and> (u = Month \<longrightarrow> v \<le> 12)))"
proof -
  have "case age_of (Some d) of (v, u) \<Rightarrow>
      1 \<le> v \<and> of_int (v * unit_ms u) \<le> d \<and> d < of_int ((v + 1) * unit_ms u) \<and>
      (u = Minute \<longrightarrow> v < 60) \<and> (u = Hour \<longrightarrow> v < 24) \<and> (u = Day \<longrightarrow> v < 7) \<and>
      (u = Week \<longrightarrow> v \<le> 4) \<and> (u = Month \<longrightarrow> v \<le> 12)" if d: "60000 \<le> d"
  proof -
    define m where "m = \<lfloor>d / 60000\<rfloor>"
    have m1: "1 \<le> m" using d by (simp add: m_def le_floor_iff)
    have "of_int m \<le> d / 60000" and "d / 60000 < of_int m + 1" unfolding m_def by linarith+
    then have md: "of_int (m * 60000) \<le> d" "d < of_int ((m + 1) * 60000)" by auto
    have bound: "of_int (v * k) \<le> d \<and> d < of_int ((v + 1) * k)"
      if "v * k \<le> m * 60000" and "(m + 1) * 60000 \<le> (v + 1) * k" for v k :: int
      using that md by (meson of_int_le_iff order_trans less_le_trans)
    have age: "age_of (Some d) =
       (if m < 60 then (m, Minute) else if m div 60 < 24 then (m div 60, Hour)
        else if m div 60 div 24 < 7 then (m div 60 div 24, Day)
        else if m div 60 div 24 < 30 then (m div 60 div 24 div 7, Week)
        else if m div 60 div 24 < 365 then (m div 60 div 24 div 30, Month)
        else (m div 60 div 24 div 365, Year))"
      using d by (simp add: age_of_def m_def Let_def)
    consider "m < 60" | "60 \<le> m" "m div 60 < 24" | "24 \<le> m div 60" "m div 60 div 24 < 7"
      | "7 \<le> m div 60 div 24" "m div 60 div 24 < 30"
      | "30 \<le> m div 60 div 24" "m div 60 div 24 < 365" | "365 \<le> m div 60 div 24" by linarith
    then show ?thesis
    proof cases
      case 1
      then show ?thesis using age m1 bound [of m 60000] by (simp add: unit_ms_def)
    next
      case 2
      then show ?thesis using age bound [of "m div 60" 3600000] by (simp add: unit_ms_def)
    next
      case 3
      then have "60 \<le> m" by linarith
      then show ?thesis using age 3 bound [of "m div 60 div 24" 86400000] by (simp add: unit_ms_def)
    next
      case 4
      then have big: "60 \<le> m" "24 \<le> m div 60" by linarith+
      define days where "days = m div 60 div 24"
      have v: "1 \<le> days div 7 \<and> days div 7 \<le> 4"
        using 4 unfolding days_def [symmetric] by linarith
      have "days = m div 1440" by (simp add: days_def flip: zdiv_zmult2_eq)
      then have "(days div 7) * 604800000 \<le> m * 60000 \<and> (m + 1) * 60000 \<le> (days div 7 + 1) * 604800000"
        using day_bounds [of days m 7] by simp
      then show ?thesis
        using age 4 big v bound [of "days div 7" 604800000] unfolding days_def [symmetric]
        by (simp add: unit_ms_def)
    next
      case 5
      then have big: "60 \<le> m" "24 \<le> m div 60" by linarith+
      define days where "days = m div 60 div 24"
      have v: "1 \<le> days div 30 \<and> days div 30 \<le> 12"
        using 5 unfolding days_def [symmetric] by linarith
      have "days = m div 1440" by (simp add: days_def flip: zdiv_zmult2_eq)
      then have "(days div 30) * 2592000000 \<le> m * 60000 \<and> (m + 1) * 60000 \<le> (days div 30 + 1) * 2592000000"
        using day_bounds [of days m 30] by simp
      then show ?thesis
        using age 5 big v bound [of "days div 30" 2592000000] unfolding days_def [symmetric]
        by (simp add: unit_ms_def)
    next
      case 6
      then have big: "60 \<le> m" "24 \<le> m div 60" by linarith+
      define days where "days = m div 60 div 24"
      have v: "1 \<le> days div 365"
        using 6 unfolding days_def [symmetric] by linarith
      have "days = m div 1440" by (simp add: days_def flip: zdiv_zmult2_eq)
      then have "(days div 365) * 31536000000 \<le> m * 60000 \<and> (m + 1) * 60000 \<le> (days div 365 + 1) * 31536000000"
        using day_bounds [of days m 365] by simp
      then show ?thesis
        using age 6 big v bound [of "days div 365" 31536000000] unfolding days_def [symmetric]
        by (simp add: unit_ms_def)
    qed
  qed
  then show ?thesis by (simp add: age_of_def)
qed

theorem age_of_bounds_witness: "fst (age_of (Some 7300000)) \<ge> 1"
  using age_of_bounds [of 7300000] by (simp split: prod.splits)

end
