(* ===== verification/Share_Link.thy ===== *)
theory Share_Link
  imports Url "HOL-Library.Sublist"
begin

text \<open>
  The share link (\<open>news-core/src/shareLink.ts\<close>) and its frozen token table
  (\<open>shareTokens.ts\<close>). A parameter map is the list of its entries in insertion order. The
  restore handlers act on a state of type \<open>'w\<close> and answer true, false or nothing; the lanes
  the reader touched are read from that state at the moment the code reads them.
\<close>

section \<open>Tokens\<close>

definition share_link_version :: nat where
  "share_link_version = 1"

definition lead_card_query :: string where
  "lead_card_query = ''card''"

datatype share_meaning = MVersion | MCards | MStory | MEdition | MLook | MTopic | MAt

fun share_token :: "share_meaning \<Rightarrow> string" where
  "share_token MVersion = ''v''"
| "share_token MCards = ''c''"
| "share_token MStory = ''s''"
| "share_token MEdition = ''e''"
| "share_token MLook = ''l''"
| "share_token MTopic = ''k''"
| "share_token MAt = ''at''"

definition share_token_history :: "(string \<times> share_meaning \<times> nat) list" where
  "share_token_history =
     [(''v'', MVersion, 1), (''c'', MCards, 1), (''s'', MStory, 1), (''e'', MEdition, 1),
      (''l'', MLook, 1), (''k'', MTopic, 1), (''at'', MAt, 1)]"

section \<open>Parsing\<close>

definition max_shared_cards :: nat where
  "max_shared_cards = 120"

definition matches_id :: "(char \<Rightarrow> bool) \<Rightarrow> (char \<Rightarrow> bool) \<Rightarrow> nat \<Rightarrow> string \<Rightarrow> bool" where
  "matches_id first_ok rest_ok n s \<longleftrightarrow>
     (case s of [] \<Rightarrow> False | c # r \<Rightarrow> first_ok c \<and> (\<forall>d \<in> set r. rest_ok d) \<and> length r \<le> n)"

definition valid_card :: "string \<Rightarrow> bool" where
  "valid_card = matches_id is_alnum (\<lambda>c. is_alnum c \<or> c \<in> set '':_.-'') 99"

definition valid_slug :: "string \<Rightarrow> bool" where
  "valid_slug = matches_id is_alpha (\<lambda>c. is_alnum c \<or> c = CHR ''-'') 31"

definition valid_story :: "string \<Rightarrow> bool" where
  "valid_story = matches_id is_alnum (\<lambda>c. is_alnum c \<or> c \<in> set ''_.:-'') 127"

definition all_digits :: "string \<Rightarrow> bool" where
  "all_digits s \<longleftrightarrow> s \<noteq> [] \<and> (\<forall>c \<in> set s. is_digit c)"

record share_link_state =
  sl_version :: "nat option"
  sl_lead :: "string option"
  sl_cards :: "string list"
  sl_story :: "string option"
  sl_edition :: "string option"
  sl_look :: "string option"
  sl_topic :: "string option"
  sl_at :: "nat option"
  sl_rejected :: "string list"

definition empty_share_state :: share_link_state where
  "empty_share_state =
     \<lparr>sl_version = None, sl_lead = None, sl_cards = [], sl_story = None, sl_edition = None,
      sl_look = None, sl_topic = None, sl_at = None, sl_rejected = []\<rparr>"

definition decode_param :: "string \<Rightarrow> string option" where
  "decode_param v = decode_uri_component (map (\<lambda>c. if c = CHR ''+'' then CHR '' '' else c) v)"

fun add_pairs :: "(string \<times> string) list \<Rightarrow> string list \<Rightarrow> (string \<times> string) list" where
  "add_pairs out [] = out"
| "add_pairs out (pair # pairs) =
     (if pair = [] then add_pairs out pairs
      else
        (case (decode_param (takeWhile (\<lambda>c. c \<noteq> CHR ''='') pair),
               decode_param (drop 1 (dropWhile (\<lambda>c. c \<noteq> CHR ''='') pair))) of
           (Some key, Some v) \<Rightarrow>
             (if key = [] \<or> key \<in> set (map fst out) then add_pairs out pairs
              else add_pairs (out @ [(key, v)]) pairs)
         | _ \<Rightarrow> add_pairs out pairs))"

definition parse_params :: "string option \<Rightarrow> (string \<times> string) list" where
  "parse_params text =
     (case truthy text of
        None \<Rightarrow> []
      | Some t \<Rightarrow>
          (let body = (if starts_with ''?'' t \<or> starts_with ''#'' t then drop 1 t else t)
           in add_pairs [] (split_on (CHR ''&'') body)))"

text \<open>A token's value when it matches, and the group to reject when it does not.\<close>

definition take_token ::
  "(string \<Rightarrow> bool) \<Rightarrow> string \<Rightarrow> string option \<Rightarrow> string option \<times> string list" where
  "take_token ok label raw =
     (case raw of None \<Rightarrow> (None, []) | Some r \<Rightarrow> if ok r then (Some r, []) else (None, [label]))"

definition parse_share_link :: "string option \<Rightarrow> string option \<Rightarrow> share_link_state" where
  "parse_share_link search hash =
     (let query = parse_params search;
          (lead, rej1) = take_token valid_card ''lead'' (map_of query lead_card_query);
          hm = parse_params hash;
          version = (case map_of hm (share_token MVersion) of
              None \<Rightarrow> None | Some r \<Rightarrow> if all_digits r then Some (read_nat r) else None)
      in case version of
           None \<Rightarrow> empty_share_state\<lparr>sl_lead := lead,
               sl_rejected := rej1 @ (if hm \<noteq> [] then [''hash''] else [])\<rparr>
         | Some v \<Rightarrow>
             if v > share_link_version then
               empty_share_state\<lparr>sl_lead := lead,
                 sl_rejected := rej1 @ (if hm \<noteq> [] then [''hash''] else [])\<rparr>
             else
               (let (cards, rej2) = (case map_of hm (share_token MCards) of
                      None \<Rightarrow> ([], [])
                    | Some raw \<Rightarrow>
                        (let ids = filter (\<lambda>i. i \<noteq> []) (split_on (CHR '','') raw)
                         in if ids \<noteq> [] \<and> length ids \<le> max_shared_cards \<and> (\<forall>i \<in> set ids. valid_card i)
                            then (uniq ids, []) else ([], [''cards''])));
                    (story, rej3) = take_token valid_story ''story'' (map_of hm (share_token MStory));
                    (at', rej4) = take_token (\<lambda>r. all_digits r \<and> length r \<le> 12) ''at''
                      (map_of hm (share_token MAt));
                    (edition, rej5) = take_token valid_slug ''edition'' (map_of hm (share_token MEdition));
                    (look, rej6) = take_token valid_slug ''look'' (map_of hm (share_token MLook));
                    (topic, rej7) = take_token valid_slug ''topic'' (map_of hm (share_token MTopic))
                in \<lparr>sl_version = Some v, sl_lead = lead, sl_cards = cards, sl_story = story,
                    sl_edition = edition, sl_look = look, sl_topic = topic,
                    sl_at = map_option read_nat at',
                    sl_rejected = rej1 @ rej2 @ rej3 @ rej4 @ rej5 @ rej6 @ rej7\<rparr>))"

section \<open>Building\<close>

record share_link_input =
  in_path :: "string option"
  in_lead :: "string option"
  in_cards :: "string list option"
  in_story :: "string option"
  in_edition :: "string option"
  in_look :: "string option"
  in_topic :: "string option"
  in_at :: "real option"

definition param :: "string \<Rightarrow> string \<Rightarrow> string" where
  "param token v = token @ ''='' @ v"

definition text_param :: "share_meaning \<Rightarrow> string option \<Rightarrow> string list" where
  "text_param m v =
     (case truthy v of None \<Rightarrow> [] | Some s \<Rightarrow> [param (share_token m) (encode_uri_component s)])"

definition share_query :: "share_link_input \<Rightarrow> string" where
  "share_query inp =
     (case truthy (in_lead inp) of
        None \<Rightarrow> [] | Some l \<Rightarrow> ''?'' @ param lead_card_query (encode_uri_component l))"

definition share_hash :: "share_link_input \<Rightarrow> string" where
  "share_hash inp =
     (let cards = filter valid_card (or_else (in_cards inp) []);
          parts = [param (share_token MVersion) (show_nat share_link_version)] @
            (if cards \<noteq> []
             then [param (share_token MCards) (join_with '','' (map encode_uri_component cards))]
             else []) @
            text_param MStory (in_story inp) @ text_param MEdition (in_edition inp) @
            text_param MLook (in_look inp) @ text_param MTopic (in_topic inp) @
            (case in_at inp of None \<Rightarrow> [] | Some a \<Rightarrow> [param (share_token MAt) (show_int \<lfloor>a\<rfloor>)])
      in if length parts > 1 then ''#'' @ join_with ''&'' parts else [])"

definition build_share_link :: "share_link_input \<Rightarrow> string" where
  "build_share_link inp = or_else (in_path inp) ''/'' @ share_query inp @ share_hash inp"

definition is_share_link :: "share_link_state \<Rightarrow> bool" where
  "is_share_link st \<longleftrightarrow> sl_lead st \<noteq> None \<or> sl_cards st \<noteq> [] \<or> sl_story st \<noteq> None \<or>
     sl_edition st \<noteq> None \<or> sl_look st \<noteq> None"

section \<open>Restoring\<close>

datatype restore_lane = LaneTheme | LaneCards | LaneStory
datatype restore_outcome = Applied | Skipped | Vacant | Blocked

definition restore_order :: "restore_lane list" where
  "restore_order = [LaneTheme, LaneCards, LaneStory]"

type_synonym 'w restore_handler = "share_link_state \<Rightarrow> 'w \<Rightarrow> bool option \<times> 'w"

text \<open>One lane: skipped when the reader touched it, blocked when its handler says false.\<close>

definition run_lane ::
  "('w \<Rightarrow> restore_lane \<Rightarrow> bool) \<Rightarrow> 'w restore_handler \<Rightarrow> restore_lane \<Rightarrow> share_link_state \<Rightarrow> 'w \<Rightarrow>
     restore_outcome \<times> 'w" where
  "run_lane touched handler lane st w =
     (if touched w lane then (Skipped, w)
      else (case handler st w of (r, w') \<Rightarrow> (if r = Some False then Blocked else Applied, w')))"

definition restore_from_link ::
  "('w \<Rightarrow> restore_lane \<Rightarrow> bool) \<Rightarrow> (restore_lane \<Rightarrow> 'w restore_handler) \<Rightarrow> share_link_state \<Rightarrow> 'w \<Rightarrow>
     (restore_lane \<Rightarrow> restore_outcome) \<times> 'w" where
  "restore_from_link touched handlers st w0 =
     (let (theme, w1) = (if sl_edition st \<noteq> None \<or> sl_look st \<noteq> None
            then run_lane touched (handlers LaneTheme) LaneTheme st w0 else (Vacant, w0));
          (cards, w2) = (if sl_cards st \<noteq> [] \<or> sl_lead st \<noteq> None
            then run_lane touched (handlers LaneCards) LaneCards st w1 else (Vacant, w1));
          (story, w3) = (if sl_story st \<noteq> None
            then (if touched w2 LaneStory then (Skipped, w2)
                  else if cards \<noteq> Applied then (Blocked, w2)
                  else run_lane touched (handlers LaneStory) LaneStory st w2)
            else (Vacant, w2))
      in (\<lambda>lane. case lane of LaneTheme \<Rightarrow> theme | LaneCards \<Rightarrow> cards | LaneStory \<Rightarrow> story, w3))"

section \<open>The round trip\<close>

lemma matches_ascii:
  assumes "matches_id first_ok rest_ok n s" and "\<And>c. first_ok c \<Longrightarrow> code c < 128"
    and "\<And>c. rest_ok c \<Longrightarrow> code c < 128"
  shows "utf8_text s \<and> s \<noteq> []"
  using assms by (intro conjI utf8_ascii) (auto simp: matches_id_def split: list.splits)

lemma alnum_ascii: "is_alnum c \<Longrightarrow> code c < 128" "is_alpha c \<Longrightarrow> code c < 128"
  by (auto simp: is_alnum_def is_alpha_def is_lower_def is_upper_def is_digit_def)

lemma valid_card_text: "valid_card s \<Longrightarrow> utf8_text s \<and> s \<noteq> []"
  unfolding valid_card_def by (erule matches_ascii) (auto dest: alnum_ascii)

lemma valid_slug_text: "valid_slug s \<Longrightarrow> utf8_text s \<and> s \<noteq> []"
  unfolding valid_slug_def by (erule matches_ascii) (auto dest: alnum_ascii)

lemma valid_story_text: "valid_story s \<Longrightarrow> utf8_text s \<and> s \<noteq> []"
  unfolding valid_story_def by (erule matches_ascii) (auto dest: alnum_ascii)

lemma valid_card_no_comma: "valid_card s \<Longrightarrow> CHR '','' \<notin> set s"
  by (auto simp: valid_card_def matches_id_def is_alnum_def is_alpha_def is_lower_def is_upper_def
      is_digit_def split: list.splits)

text \<open>A parameter as it is written: token, escaped value and the value it stands for.\<close>

definition good_entry :: "string \<times> string \<times> string \<Rightarrow> bool" where
  "good_entry e \<longleftrightarrow>
     (case e of (k, raw, v) \<Rightarrow> k \<noteq> [] \<and> (\<forall>c \<in> set k. is_alpha c) \<and>
        CHR ''&'' \<notin> set raw \<and> CHR ''+'' \<notin> set raw \<and> decode_uri_component raw = Some v)"

lemma decode_param_plain:
  "CHR ''+'' \<notin> set raw \<Longrightarrow> decode_param raw = decode_uri_component raw"
proof -
  assume "CHR ''+'' \<notin> set raw"
  then have "map (\<lambda>c. if c = CHR ''+'' then CHR '' '' else c) raw = raw" by (intro map_idI) auto
  then show ?thesis by (simp add: decode_param_def)
qed

lemma decode_plain_text:
  "\<forall>c \<in> set k. c \<noteq> CHR ''%'' \<Longrightarrow> decode_uri_component k = Some k"
  by (induction k) (auto simp: decode_plain)

lemma alpha_not [simp]: "\<not> is_alpha (CHR ''%'')" "\<not> is_alpha (CHR ''='')" "\<not> is_alpha (CHR ''+'')"
  "\<not> is_alpha (CHR ''&'')"
  by (auto simp: is_alpha_def is_lower_def is_upper_def)

lemma add_pairs_entries:
  "\<forall>e \<in> set es. good_entry e \<Longrightarrow> distinct (map fst out @ map fst es) \<Longrightarrow>
   add_pairs out (map (\<lambda>(k, raw, v). param k raw) es) = out @ map (\<lambda>(k, raw, v). (k, v)) es"
proof (induction es arbitrary: out)
  case (Cons e es)
  obtain k raw v where e: "e = (k, raw, v)" by (cases e)
  have good: "k \<noteq> []" "\<forall>c \<in> set k. is_alpha c" "CHR ''+'' \<notin> set raw" "decode_uri_component raw = Some v"
    using Cons.prems(1) by (auto simp: good_entry_def e)
  have eq: "\<forall>c \<in> set k. c \<noteq> CHR ''=''" and plus: "CHR ''+'' \<notin> set k" and pc: "\<forall>c \<in> set k. c \<noteq> CHR ''%''"
    using good(2) alpha_not by auto
  have cut: "takeWhile (\<lambda>c. c \<noteq> CHR ''='') (param k raw) = k"
    "drop 1 (dropWhile (\<lambda>c. c \<noteq> CHR ''='') (param k raw)) = raw"
    using eq by (simp_all add: param_def takeWhile_append2 dropWhile_append2)
  have dk: "decode_param k = Some k" using plus pc by (simp add: decode_param_plain decode_plain_text)
  have dv: "decode_param raw = Some v" using good by (simp add: decode_param_plain)
  have ne: "param k raw \<noteq> []" by (simp add: param_def)
  have new: "k \<notin> set (map fst out)" using Cons.prems(2) by (auto simp: e)
  have "add_pairs out (map (\<lambda>(k, raw, v). param k raw) (e # es)) =
      add_pairs (out @ [(k, v)]) (map (\<lambda>(k, raw, v). param k raw) es)"
    using ne cut dk dv good(1) new by (simp add: e)
  also have "\<dots> = out @ map (\<lambda>(k, raw, v). (k, v)) (e # es)"
    using Cons by (simp add: e)
  finally show ?case .
qed simp

lemma parse_params_entries:
  assumes "es \<noteq> []" and "\<forall>e \<in> set es. good_entry e" and "distinct (map fst es)" and "m \<in> set ''?#''"
  shows "parse_params (Some (m # join_with ''&'' (map (\<lambda>(k, raw, v). param k raw) es))) =
         map (\<lambda>(k, raw, v). (k, v)) es"
proof -
  have "CHR ''&'' \<notin> set (param k raw)" if "(k, raw, v) \<in> set es" for k raw v
    using assms(2) that alpha_not by (fastforce simp: good_entry_def param_def)
  then have "split_on (CHR ''&'') (join_with ''&'' (map (\<lambda>(k, raw, v). param k raw) es)) =
      map (\<lambda>(k, raw, v). param k raw) es"
    using assms(1) by (intro split_join) auto
  then show ?thesis
    using assms add_pairs_entries [of es "[]"]
    by (auto simp: parse_params_def truthy_def starts_with_def)
qed

text \<open>The entries of a link's hash, and what looking each token up in them gives.\<close>

definition text_entry :: "share_meaning \<Rightarrow> string option \<Rightarrow> (string \<times> string \<times> string) list" where
  "text_entry m v =
     (case truthy v of None \<Rightarrow> [] | Some s \<Rightarrow> [(share_token m, encode_uri_component s, s)])"

definition cards_entry :: "string list \<Rightarrow> (string \<times> string \<times> string) list" where
  "cards_entry cards =
     (if cards = [] then []
      else [(share_token MCards, join_with '','' (map encode_uri_component cards), join_with '','' cards)])"

definition at_entry :: "real option \<Rightarrow> (string \<times> string \<times> string) list" where
  "at_entry a =
     (case a of None \<Rightarrow> [] | Some x \<Rightarrow> [(share_token MAt, show_int \<lfloor>x\<rfloor>, show_int \<lfloor>x\<rfloor>)])"

definition hash_entries :: "share_link_input \<Rightarrow> (string \<times> string \<times> string) list" where
  "hash_entries inp =
     cards_entry (filter valid_card (or_else (in_cards inp) [])) @ text_entry MStory (in_story inp) @
     text_entry MEdition (in_edition inp) @ text_entry MLook (in_look inp) @
     text_entry MTopic (in_topic inp) @ at_entry (in_at inp)"

definition version_entry :: "string \<times> string \<times> string" where
  "version_entry = (share_token MVersion, show_nat share_link_version, show_nat share_link_version)"

lemma text_param_entry: "text_param m v = map (\<lambda>(k, raw, v). param k raw) (text_entry m v)"
  by (simp add: text_param_def text_entry_def split: option.splits)

lemma share_hash_entries:
  "share_hash inp =
    (if hash_entries inp = [] then []
     else ''#'' @ join_with ''&'' (map (\<lambda>(k, raw, v). param k raw) (version_entry # hash_entries inp)))"
proof -
  let ?p = "\<lambda>(k, raw, v). param k raw"
  let ?cards = "filter valid_card (or_else (in_cards inp) [])"
  have c: "(if ?cards \<noteq> []
       then [param (share_token MCards) (join_with '','' (map encode_uri_component ?cards))] else []) =
      map ?p (cards_entry ?cards)" by (simp add: cards_entry_def)
  have a: "(case in_at inp of None \<Rightarrow> [] | Some a \<Rightarrow> [param (share_token MAt) (show_int \<lfloor>a\<rfloor>)]) =
      map ?p (at_entry (in_at inp))" by (simp add: at_entry_def split: option.splits)
  show ?thesis
    unfolding share_hash_def Let_def c a text_param_entry
    by (simp add: hash_entries_def version_entry_def)
qed

definition valid_input :: "share_link_input \<Rightarrow> bool" where
  "valid_input inp \<longleftrightarrow>
     (\<forall>c \<in> set (or_else (in_path inp) []). c \<noteq> CHR ''?'' \<and> c \<noteq> CHR ''#'') \<and>
     (\<forall>l. in_lead inp = Some l \<longrightarrow> valid_card l) \<and>
     (\<forall>i \<in> set (or_else (in_cards inp) []). valid_card i) \<and>
     distinct (or_else (in_cards inp) []) \<and> length (or_else (in_cards inp) []) \<le> max_shared_cards \<and>
     (\<forall>v. in_story inp = Some v \<longrightarrow> valid_story v) \<and> (\<forall>v. in_edition inp = Some v \<longrightarrow> valid_slug v) \<and>
     (\<forall>v. in_look inp = Some v \<longrightarrow> valid_slug v) \<and> (\<forall>v. in_topic inp = Some v \<longrightarrow> valid_slug v) \<and>
     (\<forall>a. in_at inp = Some a \<longrightarrow> 0 \<le> a \<and> a < 1000000000000)"

lemma good_text_entry:
  "(\<And>s. v = Some s \<Longrightarrow> utf8_text s) \<Longrightarrow> e \<in> set (text_entry m v) \<Longrightarrow> good_entry e"
  by (cases m) (auto simp: text_entry_def good_entry_def truthy_def decode_encode_uri is_alpha_def
      is_lower_def split: option.splits if_splits)

lemma decode_joined:
  "\<forall>i \<in> set ids. utf8_text i \<Longrightarrow>
   decode_uri_component (join_with '','' (map encode_uri_component ids)) = Some (join_with '','' ids)"
  by (induction "'',''" ids rule: join_with.induct)
    (auto simp: decode_encode_uri decode_encode_append decode_plain)

lemma join_chars: "c \<in> set (join_with sep fs) \<Longrightarrow> c \<in> set sep \<or> (\<exists>f \<in> set fs. c \<in> set f)"
  by (induction sep fs rule: join_with.induct) auto

lemma good_cards_entry:
  assumes "\<forall>i \<in> set ids. valid_card i" and "e \<in> set (cards_entry ids)"
  shows "good_entry e"
proof -
  have "CHR ''&'' \<notin> set (join_with '','' (map encode_uri_component ids))"
    and "CHR ''+'' \<notin> set (join_with '','' (map encode_uri_component ids))"
    using join_chars [of "CHR ''&''" "'',''" "map encode_uri_component ids"]
      join_chars [of "CHR ''+''" "'',''" "map encode_uri_component ids"] by auto
  then show ?thesis
    using assms valid_card_text decode_joined [of ids]
    by (auto simp: cards_entry_def good_entry_def is_alpha_def is_lower_def split: if_splits)
qed

lemma digits_not: "is_digit c \<Longrightarrow> c \<noteq> CHR ''%'' \<and> c \<noteq> CHR ''&'' \<and> c \<noteq> CHR ''+''"
  by (auto simp: is_digit_def)

lemma good_digits: "\<forall>c \<in> set k. is_alpha c \<Longrightarrow> k \<noteq> [] \<Longrightarrow> good_entry (k, show_nat n, show_nat n)"
  using show_nat_digits [of n] digits_not decode_plain_text [of "show_nat n"]
  by (fastforce simp: good_entry_def)

lemma good_at_entry:
  assumes "\<And>x. a = Some x \<Longrightarrow> 0 \<le> x" and "e \<in> set (at_entry a)"
  shows "good_entry e"
proof -
  obtain x where a: "a = Some x" and e: "e = (''at'', show_int \<lfloor>x\<rfloor>, show_int \<lfloor>x\<rfloor>)"
    using assms(2) by (cases a) (auto simp: at_entry_def)
  have "show_int \<lfloor>x\<rfloor> = show_nat (nat \<lfloor>x\<rfloor>)" using assms(1) [OF a] by (simp add: show_int_def)
  then show ?thesis unfolding e by (simp add: good_digits is_alpha_def is_lower_def)
qed

lemma good_hash_entries:
  assumes "valid_input inp"
  shows "\<forall>e \<in> set (version_entry # hash_entries inp). good_entry e"
proof -
  have v: "good_entry version_entry"
    by (simp add: version_entry_def good_digits is_alpha_def is_lower_def)
  have c: "\<forall>i \<in> set (filter valid_card (or_else (in_cards inp) [])). valid_card i" by simp
  have story: "good_entry e" if "e \<in> set (text_entry MStory (in_story inp))" for e
    using assms valid_story_text by (intro good_text_entry [OF _ that]) (simp add: valid_input_def)
  have edition: "good_entry e" if "e \<in> set (text_entry MEdition (in_edition inp))" for e
    using assms valid_slug_text by (intro good_text_entry [OF _ that]) (simp add: valid_input_def)
  have look: "good_entry e" if "e \<in> set (text_entry MLook (in_look inp))" for e
    using assms valid_slug_text by (intro good_text_entry [OF _ that]) (simp add: valid_input_def)
  have topic: "good_entry e" if "e \<in> set (text_entry MTopic (in_topic inp))" for e
    using assms valid_slug_text by (intro good_text_entry [OF _ that]) (simp add: valid_input_def)
  have at_: "good_entry e" if "e \<in> set (at_entry (in_at inp))" for e
    using assms by (intro good_at_entry [OF _ that]) (simp add: valid_input_def)
  show ?thesis
    using v good_cards_entry [OF c] story edition look topic at_
    unfolding hash_entries_def set_append list.set ball_Un by blast
qed

lemma entry_tokens:
  "fst ` set (text_entry m v) = (if truthy v = None then {} else {share_token m})"
  "fst ` set (cards_entry ids) = (if ids = [] then {} else {''c''})"
  "fst ` set (at_entry a) = (if a = None then {} else {''at''})"
  "distinct (map fst (text_entry m v))" "distinct (map fst (cards_entry ids))"
  "distinct (map fst (at_entry a))"
  by (cases "truthy v"; simp add: text_entry_def) (simp add: cards_entry_def,
      (cases a; simp add: at_entry_def), (cases "truthy v"; simp add: text_entry_def),
      simp add: cards_entry_def, (cases a; simp add: at_entry_def))

lemma distinct_hash_entries: "distinct (map fst (version_entry # hash_entries inp))"
  by (simp add: hash_entries_def version_entry_def entry_tokens image_Un Int_Un_distrib)

lemma map_of_text_entry:
  "map_of (map (\<lambda>(k, raw, v). (k, v)) (text_entry m v)) = (\<lambda>t. if t = share_token m then truthy v else None)"
  by (auto simp: text_entry_def split: option.splits)

lemma map_of_cards_entry:
  "map_of (map (\<lambda>(k, raw, v). (k, v)) (cards_entry ids)) =
    (\<lambda>t. if t = ''c'' \<and> ids \<noteq> [] then Some (join_with '','' ids) else None)"
  by (auto simp: cards_entry_def)

lemma map_of_at_entry:
  "map_of (map (\<lambda>(k, raw, v). (k, v)) (at_entry a)) =
    (\<lambda>t. if t = ''at'' then map_option (\<lambda>x. show_int \<lfloor>x\<rfloor>) a else None)"
  by (auto simp: at_entry_def split: option.splits)

text \<open>The search and hash parts of an address, as the browser splits it.\<close>

definition url_hash :: "string \<Rightarrow> string" where
  "url_hash url = dropWhile (\<lambda>c. c \<noteq> CHR ''#'') url"

definition url_search :: "string \<Rightarrow> string" where
  "url_search url = dropWhile (\<lambda>c. c \<noteq> CHR ''?'') (takeWhile (\<lambda>c. c \<noteq> CHR ''#'') url)"

text \<open>What a link built from \<open>inp\<close> is to restore.\<close>

definition restored :: "share_link_input \<Rightarrow> share_link_state" where
  "restored inp =
     \<lparr>sl_version = (if hash_entries inp = [] then None else Some share_link_version),
      sl_lead = in_lead inp, sl_cards = or_else (in_cards inp) [],
      sl_story = in_story inp, sl_edition = in_edition inp, sl_look = in_look inp,
      sl_topic = in_topic inp, sl_at = map_option (\<lambda>a. nat \<lfloor>a\<rfloor>) (in_at inp), sl_rejected = []\<rparr>"

lemma share_query_chars:
  "\<forall>c \<in> set (share_query inp). c \<noteq> CHR ''#''"
  using encode_no_separator(4) by (auto simp: share_query_def param_def lead_card_query_def split: option.splits)

lemma share_query_split:
  "share_query inp = [] \<or> (\<exists>q. share_query inp = CHR ''?'' # q)"
  by (simp add: share_query_def split: option.splits)

lemma share_hash_split:
  "share_hash inp = [] \<or> (\<exists>h. share_hash inp = CHR ''#'' # h)"
  by (simp add: share_hash_entries)

lemma url_parts:
  assumes "\<forall>c \<in> set path. c \<noteq> CHR ''?'' \<and> c \<noteq> CHR ''#''" and "\<forall>c \<in> set q. c \<noteq> CHR ''#''"
    and "q = [] \<or> (\<exists>q'. q = CHR ''?'' # q')" and "h = [] \<or> (\<exists>h'. h = CHR ''#'' # h')"
  shows "url_search (path @ q @ h) = q \<and> url_hash (path @ q @ h) = h"
proof -
  have h: "takeWhile (\<lambda>c. c \<noteq> CHR ''#'') h = []" "dropWhile (\<lambda>c. c \<noteq> CHR ''#'') h = h"
    using assms(4) by auto
  have all: "c \<noteq> CHR ''#''" if "c \<in> set (path @ q)" for c using that assms(1,2) by auto
  have "takeWhile (\<lambda>c. c \<noteq> CHR ''#'') ((path @ q) @ h) = (path @ q) @ takeWhile (\<lambda>c. c \<noteq> CHR ''#'') h"
    by (rule takeWhile_append2) (rule all)
  moreover have "dropWhile (\<lambda>c. c \<noteq> CHR ''#'') ((path @ q) @ h) = dropWhile (\<lambda>c. c \<noteq> CHR ''#'') h"
    by (rule dropWhile_append2) (rule all)
  moreover have "dropWhile (\<lambda>c. c \<noteq> CHR ''?'') (path @ q) = dropWhile (\<lambda>c. c \<noteq> CHR ''?'') q"
    using assms(1) by (intro dropWhile_append2) blast
  moreover have "dropWhile (\<lambda>c. c \<noteq> CHR ''?'') q = q" using assms(3) by auto
  ultimately show ?thesis by (simp add: url_search_def url_hash_def h)
qed

lemma lead_query:
  assumes "valid_input inp"
  shows "map_of (parse_params (Some (share_query inp))) lead_card_query = in_lead inp"
proof (cases "in_lead inp")
  case None
  then show ?thesis by (simp add: share_query_def truthy_def parse_params_def)
next
  case (Some l)
  then have v: "valid_card l" using assms by (simp add: valid_input_def)
  note t = valid_card_text [OF v]
  have "parse_params (Some (CHR ''?'' # join_with ''&''
      (map (\<lambda>(k, raw, v). param k raw) [(lead_card_query, encode_uri_component l, l)]))) =
      map (\<lambda>(k, raw, v). (k, v)) [(lead_card_query, encode_uri_component l, l)]"
    using t by (intro parse_params_entries)
      (simp_all add: good_entry_def lead_card_query_def is_alpha_def is_lower_def decode_encode_uri)
  then show ?thesis using Some t v by (simp add: share_query_def truthy_def)
qed

lemma lead_param:
  assumes "valid_input inp"
  shows "take_token valid_card ''lead''
    (map_of (parse_params (Some (share_query inp))) lead_card_query) = (in_lead inp, [])"
  using assms by (auto simp: lead_query take_token_def valid_input_def split: option.split)

lemma cards_value:
  assumes "\<forall>i \<in> set ids. valid_card i" and "ids \<noteq> []"
  shows "filter (\<lambda>i. i \<noteq> []) (split_on (CHR '','') (join_with '','' ids)) = ids"
proof -
  have "split_on (CHR '','') (join_with '','' ids) = ids"
    using assms valid_card_no_comma by (intro split_join) auto
  then show ?thesis using assms valid_card_text by (simp add: filter_id_conv)
qed

lemma at_value:
  assumes "0 \<le> a" and "a < 1000000000000"
  shows "all_digits (show_int \<lfloor>a\<rfloor>) \<and> length (show_int \<lfloor>a\<rfloor>) \<le> 12 \<and> read_nat (show_int \<lfloor>a\<rfloor>) = nat \<lfloor>a\<rfloor>"
proof -
  have "nat \<lfloor>a\<rfloor> < 10 ^ 12" using assms by (simp add: nat_less_iff floor_less_iff)
  then have "length (show_nat (nat \<lfloor>a\<rfloor>)) \<le> 12" by (rule show_nat_length) simp
  then show ?thesis using assms(1) show_nat_digits by (simp add: show_int_def all_digits_def)
qed

lemma take_token_id:
  "(\<And>s. v = Some s \<Longrightarrow> ok s \<and> s \<noteq> []) \<Longrightarrow> take_token ok label (truthy v) = (v, [])"
  by (cases v) (auto simp: take_token_def truthy_def)

lemma pick_option:
  "(case (if b then v else None) of None \<Rightarrow> y | Some x \<Rightarrow> Some x) =
    (if b then (case v of None \<Rightarrow> y | Some x \<Rightarrow> Some x) else y)"
  "(case v of None \<Rightarrow> None | Some x \<Rightarrow> Some x) = v"
  by (auto split: option.split)

lemma slug_token:
  assumes "\<And>s. v = Some s \<Longrightarrow> valid_slug s"
  shows "take_token valid_slug label (truthy v) = (v, [])"
proof (rule take_token_id)
  fix s
  assume "v = Some s"
  then have "valid_slug s" by (rule assms)
  then show "valid_slug s \<and> s \<noteq> []" using valid_slug_text by blast
qed

lemma story_token:
  assumes "\<And>s. v = Some s \<Longrightarrow> valid_story s"
  shows "take_token valid_story label (truthy v) = (v, [])"
proof (rule take_token_id)
  fix s
  assume "v = Some s"
  then have "valid_story s" by (rule assms)
  then show "valid_story s \<and> s \<noteq> []" using valid_story_text by blast
qed

lemma search_of_link:
  assumes "valid_input inp"
  shows "url_search (build_share_link inp) = share_query inp"
proof -
  have path: "\<forall>c \<in> set (or_else (in_path inp) ''/''). c \<noteq> CHR ''?'' \<and> c \<noteq> CHR ''#''"
    using assms by (cases "in_path inp") (auto simp: valid_input_def)
  show ?thesis using url_parts [OF path share_query_chars share_query_split share_hash_split]
    by (simp add: build_share_link_def)
qed

lemma parse_built_link:
  assumes "valid_input inp"
  shows "parse_share_link (Some (url_search (build_share_link inp)))
    (Some (url_hash (build_share_link inp))) = restored inp"
proof -
  let ?es = "hash_entries inp" and ?strip = "\<lambda>(k, raw, v). (k, v)"
  have path: "\<forall>c \<in> set (or_else (in_path inp) ''/''). c \<noteq> CHR ''?'' \<and> c \<noteq> CHR ''#''"
    using assms by (cases "in_path inp") (auto simp: valid_input_def)
  have parts: "url_search (build_share_link inp) = share_query inp"
    "url_hash (build_share_link inp) = share_hash inp"
    using url_parts [OF path share_query_chars share_query_split share_hash_split]
    by (simp_all add: build_share_link_def)
  note lead = lead_param [OF assms]
  have valid: "\<forall>i \<in> set (or_else (in_cards inp) []). valid_card i"
    "distinct (or_else (in_cards inp) [])" "length (or_else (in_cards inp) []) \<le> max_shared_cards"
    using assms by (simp_all add: valid_input_def)
  then have fc: "filter valid_card (or_else (in_cards inp) []) = or_else (in_cards inp) []"
    by (simp add: filter_id_conv)
  have slug: "take_token valid_slug label (truthy (in_edition inp)) = (in_edition inp, [])"
    "take_token valid_slug label (truthy (in_look inp)) = (in_look inp, [])"
    "take_token valid_slug label (truthy (in_topic inp)) = (in_topic inp, [])"
    "take_token valid_story label (truthy (in_story inp)) = (in_story inp, [])" for label
    by (rule slug_token story_token, use assms in \<open>simp add: valid_input_def\<close>)+
  show ?thesis
  proof (cases "?es = []")
    case True
    then have cards: "or_else (in_cards inp) [] = []" and at_none: "in_at inp = None"
      and "truthy (in_story inp) = None" and "truthy (in_edition inp) = None"
      and "truthy (in_look inp) = None" and "truthy (in_topic inp) = None"
      by (simp_all add: hash_entries_def fc cards_entry_def text_entry_def at_entry_def
          split: if_splits option.splits)
    then have none: "in_story inp = None" "in_edition inp = None" "in_look inp = None" "in_topic inp = None"
      using slug [of "[]"] by (simp_all add: take_token_def)
    have "share_hash inp = []" using True by (simp add: share_hash_entries)
    then have "parse_share_link (Some (share_query inp)) (Some (share_hash inp)) =
        empty_share_state\<lparr>sl_lead := in_lead inp, sl_rejected := []\<rparr>"
      unfolding parse_share_link_def Let_def lead by (simp add: parse_params_def truthy_def)
    then show ?thesis
      using none cards at_none True unfolding parts by (simp add: restored_def empty_share_state_def)
  next
    case False
    have hm: "parse_params (Some (share_hash inp)) = map ?strip (version_entry # ?es)"
      using False parse_params_entries [OF _ good_hash_entries [OF assms] distinct_hash_entries]
      by (simp add: share_hash_entries)
    have look: "map_of (map ?strip (version_entry # ?es)) ''v'' = Some (show_nat share_link_version)"
      "map_of (map ?strip (version_entry # ?es)) ''c'' =
        (if or_else (in_cards inp) [] \<noteq> [] then Some (join_with '','' (or_else (in_cards inp) [])) else None)"
      "map_of (map ?strip (version_entry # ?es)) ''s'' = truthy (in_story inp)"
      "map_of (map ?strip (version_entry # ?es)) ''e'' = truthy (in_edition inp)"
      "map_of (map ?strip (version_entry # ?es)) ''l'' = truthy (in_look inp)"
      "map_of (map ?strip (version_entry # ?es)) ''k'' = truthy (in_topic inp)"
      "map_of (map ?strip (version_entry # ?es)) ''at'' = map_option (\<lambda>x. show_int \<lfloor>x\<rfloor>) (in_at inp)"
      by (simp_all add: hash_entries_def fc map_add_def version_entry_def map_of_text_entry
          map_of_cards_entry map_of_at_entry pick_option(2) cong: option.case_cong)
    have at_range: "0 \<le> a" "a < 1000000000000" if "in_at inp = Some a" for a
      using assms that by (simp_all add: valid_input_def)
    have at': "take_token (\<lambda>r. all_digits r \<and> length r \<le> 12) ''at''
        (map_option (\<lambda>x. show_int \<lfloor>x\<rfloor>) (in_at inp)) = (map_option (\<lambda>x. show_int \<lfloor>x\<rfloor>) (in_at inp), [])"
      "map_option read_nat (map_option (\<lambda>x. show_int \<lfloor>x\<rfloor>) (in_at inp)) = map_option (\<lambda>a. nat \<lfloor>a\<rfloor>) (in_at inp)"
      by (cases "in_at inp"; simp add: take_token_def at_value [OF at_range])+
    have one: "all_digits (show_nat share_link_version)"
      using show_nat_digits by (simp add: all_digits_def)
    have cards: "(case (if or_else (in_cards inp) [] \<noteq> []
          then Some (join_with '','' (or_else (in_cards inp) [])) else None) of
        None \<Rightarrow> ([], [])
      | Some raw \<Rightarrow>
          (let ids = filter (\<lambda>i. i \<noteq> []) (split_on (CHR '','') raw)
           in if ids \<noteq> [] \<and> length ids \<le> max_shared_cards \<and> (\<forall>i \<in> set ids. valid_card i)
              then (uniq ids, []) else ([], [''cards'']))) = (or_else (in_cards inp) [], [])"
      using valid cards_value [OF valid(1)] by simp
    show ?thesis
      unfolding parts parse_share_link_def Let_def lead hm share_token.simps look cards [unfolded Let_def]
      using False one at' slug by (simp add: restored_def Let_def)
  qed
qed

text \<open>
  C6: A link built from valid parts restores exactly those parts, with nothing rejected.
\<close>

theorem share_link_round_trip:
  assumes "valid_input inp"
  shows "parse_share_link (Some (url_search (build_share_link inp)))
    (Some (url_hash (build_share_link inp))) = restored inp"
  by (rule parse_built_link [OF assms])

definition sample_link :: share_link_input where
  "sample_link = \<lparr>in_path = None, in_lead = Some ''bbc'', in_cards = Some [''bbc'', ''country:GB''],
     in_story = Some ''s1'', in_edition = Some ''tide'', in_look = None, in_topic = None, in_at = Some 1700000000\<rparr>"

lemma sample_link_valid: "valid_input sample_link"
  by (simp add: sample_link_def valid_input_def valid_card_def valid_story_def valid_slug_def
      matches_id_def max_shared_cards_def is_alnum_def is_alpha_def is_lower_def is_upper_def is_digit_def)

theorem share_link_round_trip_witness:
  "sl_cards (parse_share_link (Some (url_search (build_share_link sample_link)))
     (Some (url_hash (build_share_link sample_link)))) = [''bbc'', ''country:GB'']"
  using share_link_round_trip [OF sample_link_valid] by (simp add: restored_def sample_link_def)

section \<open>Too many cards\<close>

abbreviation cards_only :: "string list \<Rightarrow> share_link_input" where
  "cards_only cards \<equiv> \<lparr>in_path = None, in_lead = None, in_cards = Some cards, in_story = None,
     in_edition = None, in_look = None, in_topic = None, in_at = None\<rparr>"

text \<open>
  the builder has no limit on the number of cards and the parser has, so a link built from
  more than 120 valid cards restores none of them.
\<close>

theorem too_many_cards_lost:
  assumes "\<forall>i \<in> set cards. valid_card i" and "max_shared_cards < length cards"
  shows "sl_cards (parse_share_link (Some (share_query (cards_only cards))) (Some (share_hash (cards_only cards)))) = [] \<and>
    sl_rejected (parse_share_link (Some (share_query (cards_only cards))) (Some (share_hash (cards_only cards)))) = [''cards'']"
proof -
  have ne: "cards \<noteq> []" using assms(2) by auto
  have fc: "filter valid_card cards = cards" using assms(1) by (simp add: filter_id_conv)
  let ?es = "version_entry # cards_entry cards" and ?strip = "\<lambda>(k, raw, v). (k, v)"
  have es: "hash_entries (cards_only cards) = cards_entry cards"
    by (simp add: hash_entries_def fc text_entry_def at_entry_def truthy_def)
  have v: "good_entry version_entry"
    by (simp add: version_entry_def good_digits is_alpha_def is_lower_def)
  have good: "\<forall>e \<in> set ?es. good_entry e" using v good_cards_entry [OF assms(1)] by auto
  have d: "distinct (map fst ?es)" using distinct_hash_entries [of "cards_only cards"] by (simp only: es)
  have h: "share_hash (cards_only cards) = CHR ''#'' # join_with ''&'' (map (\<lambda>(k, raw, v). param k raw) ?es)"
    using ne by (simp add: share_hash_entries es) (simp add: cards_entry_def)
  have hm: "parse_params (Some (share_hash (cards_only cards))) = map ?strip ?es"
    unfolding h by (rule parse_params_entries) (use good d in simp_all)
  have q: "parse_params (Some (share_query (cards_only cards))) = []"
    by (simp add: share_query_def truthy_def parse_params_def)
  have look: "map_of (map ?strip ?es) ''v'' = Some (show_nat share_link_version)"
    "map_of (map ?strip ?es) ''c'' = Some (join_with '','' cards)"
    "t \<notin> {''v'', ''c''} \<Longrightarrow> map_of (map ?strip ?es) t = None" for t
    using ne by (auto simp: version_entry_def map_of_cards_entry)
  have one: "all_digits (show_nat share_link_version)"
    using show_nat_digits by (simp add: all_digits_def)
  have long: "\<not> length (filter (\<lambda>i. i \<noteq> []) (split_on (CHR '','') (join_with '','' cards))) \<le> max_shared_cards"
    using cards_value [OF assms(1) ne] assms(2) by simp
  show ?thesis
    unfolding parse_share_link_def Let_def hm q share_token.simps look(1,2)
    using one long look(3) by (simp add: take_token_def)
qed

theorem too_many_cards_lost_witness:
  "sl_cards (parse_share_link (Some (share_query (cards_only (replicate 121 ''bbc''))))
     (Some (share_hash (cards_only (replicate 121 ''bbc''))))) = []"
  using too_many_cards_lost [of "replicate 121 ''bbc''"]
  by (simp add: valid_card_def matches_id_def max_shared_cards_def is_alnum_def is_alpha_def is_lower_def)

section \<open>The restore order\<close>

text \<open>Handlers that record the lanes they ran in, beside the state they act on.\<close>

definition logged :: "(restore_lane \<Rightarrow> 'w restore_handler) \<Rightarrow> restore_lane \<Rightarrow> ('w \<times> restore_lane list) restore_handler" where
  "logged handlers lane st w =
     (case handlers lane st (fst w) of (r, w') \<Rightarrow> (r, (w', snd w @ [lane])))"

lemma run_lane_logged:
  "run_lane touched (logged handlers lane) lane st w = (out, w') \<Longrightarrow>
   (out = Skipped \<and> w' = w) \<or> ((out = Applied \<or> out = Blocked) \<and> snd w' = snd w @ [lane])"
  by (auto simp: run_lane_def logged_def split: if_splits prod.splits)

text \<open>
  a restore runs its handlers in the order theme, cards, story, each at most once; the
  story's only when the cards applied; and a lane the reader touched is never run.
\<close>

theorem restore_in_order:
  "(case restore_from_link touched (logged handlers) st (w, []) of (out, (w', lanes)) \<Rightarrow>
     subseq lanes restore_order \<and>
     (LaneStory \<in> set lanes \<longrightarrow> out LaneCards = Applied) \<and>
     (\<forall>lane. lane \<in> set lanes \<longleftrightarrow> out lane = Applied \<or>
        out lane = Blocked \<and> (lane = LaneStory \<longrightarrow> out LaneCards = Applied)) \<and>
     (sl_story st \<noteq> None \<and> sl_cards st = [] \<and> sl_lead st = None \<longrightarrow> out LaneStory \<noteq> Applied))"
proof -
  obtain theme w1 where t: "(if sl_edition st \<noteq> None \<or> sl_look st \<noteq> None
      then run_lane touched (logged handlers LaneTheme) LaneTheme st (w, []) else (Vacant, (w, []))) = (theme, w1)"
    by (metis prod.exhaust)
  obtain cards w2 where c: "(if sl_cards st \<noteq> [] \<or> sl_lead st \<noteq> None
      then run_lane touched (logged handlers LaneCards) LaneCards st w1 else (Vacant, w1)) = (cards, w2)"
    by (metis prod.exhaust)
  obtain story w3 where s: "(if sl_story st \<noteq> None
      then (if touched w2 LaneStory then (Skipped, w2) else if cards \<noteq> Applied then (Blocked, w2)
            else run_lane touched (logged handlers LaneStory) LaneStory st w2) else (Vacant, w2)) = (story, w3)"
    by (metis prod.exhaust)
  have res: "restore_from_link touched (logged handlers) st (w, []) =
      (\<lambda>lane. case lane of LaneTheme \<Rightarrow> theme | LaneCards \<Rightarrow> cards | LaneStory \<Rightarrow> story, w3)"
    by (simp only: restore_from_link_def Let_def t c s prod.case)
  have T: "(theme \<in> {Skipped, Vacant} \<and> snd w1 = []) \<or> (theme \<in> {Applied, Blocked} \<and> snd w1 = [LaneTheme])"
    using t run_lane_logged by (fastforce split: if_splits)
  have C: "(cards \<in> {Skipped, Vacant} \<and> snd w2 = snd w1) \<or>
      (cards \<in> {Applied, Blocked} \<and> snd w2 = snd w1 @ [LaneCards])"
    using c run_lane_logged by (fastforce split: if_splits)
  have S: "(story \<in> {Skipped, Vacant} \<and> snd w3 = snd w2) \<or>
      (story = Blocked \<and> cards \<noteq> Applied \<and> snd w3 = snd w2) \<or>
      (story \<in> {Applied, Blocked} \<and> cards = Applied \<and> snd w3 = snd w2 @ [LaneStory])"
    using s run_lane_logged by (fastforce split: if_splits)
  have none: "sl_cards st = [] \<and> sl_lead st = None \<longrightarrow> cards = Vacant"
    using c by auto
  let ?out = "\<lambda>lane. case lane of LaneTheme \<Rightarrow> theme | LaneCards \<Rightarrow> cards | LaneStory \<Rightarrow> story"
  have 1: "subseq (snd w3) restore_order"
    using T C S by (elim disjE) (simp_all add: restore_order_def)
  have 2: "LaneStory \<in> set (snd w3) \<longrightarrow> cards = Applied" using T C S by (elim disjE) simp_all
  have 3: "lane \<in> set (snd w3) \<longleftrightarrow> ?out lane = Applied \<or>
      ?out lane = Blocked \<and> (lane = LaneStory \<longrightarrow> cards = Applied)" for lane
    using T C S by (cases lane) (elim disjE; force)+
  have 4: "sl_story st \<noteq> None \<and> sl_cards st = [] \<and> sl_lead st = None \<longrightarrow> story \<noteq> Applied"
    using S none s by (auto split: if_splits)
  show ?thesis
    using 1 2 3 4 unfolding res by (cases w3) simp
qed

theorem restore_in_order_witness:
  "fst (restore_from_link (\<lambda>_ _. False) (logged (\<lambda>_ _ w. (Some (w = (0::nat)), w))) (restored sample_link) (0, [])) LaneStory = Applied \<and>
   (case restore_from_link (\<lambda>_ _. False) (logged (\<lambda>_ _ w. (Some (w = (0::nat)), w))) (restored sample_link) (0, []) of
      (out, (w', lanes)) \<Rightarrow> subseq lanes restore_order)"
  using restore_in_order [where touched = "\<lambda>_ _. False" and st = "restored sample_link" and w = "0::nat"
      and handlers = "\<lambda>_ _ w. (Some (w = (0::nat)), w)"]
  by (auto simp: restored_def sample_link_def restore_from_link_def run_lane_def logged_def split: prod.splits)

text \<open>the live token table agrees with the frozen history, entry for entry, and no token is used twice.\<close>

theorem share_tokens_frozen:
  "map (\<lambda>(t, m, n). t) share_token_history = map (\<lambda>(t, m, n). share_token m) share_token_history \<and>
   (\<forall>m. \<exists>n. (share_token m, m, n) \<in> set share_token_history \<and> n \<le> share_link_version) \<and>
   (share_token a = share_token b \<longleftrightarrow> a = b)"
proof -
  have "\<exists>n. (share_token m, m, n) \<in> set share_token_history \<and> n \<le> share_link_version" for m
    by (cases m) (auto simp: share_token_history_def share_link_version_def)
  moreover have "share_token a = share_token b \<longleftrightarrow> a = b" by (cases a; cases b; simp)
  ultimately show ?thesis by (simp add: share_token_history_def)
qed

end
