(* ===== verification/Timeline.thy ===== *)
theory Timeline
  imports Prelude
begin

text \<open>
  The auto-play timeline (\<open>news-core/src/autoplay/timeline.ts\<close>). Dwells and starts are the
  integers \<open>Math.round\<close> gives; positions and offsets are real numbers of milliseconds.
\<close>

section \<open>Definitions\<close>

record shot =
  shot_card :: string
  shot_item :: "string option"
  shot_title :: string
  shot_dwell :: int
  shot_start :: int

record timeline =
  shots :: "shot list"
  total_ms :: int

record dwell_options =
  words_per_minute :: "real option"
  min_ms :: "real option"
  max_ms :: "real option"
  base_ms :: "real option"
  stories_per_card :: "int option"

text \<open>\<open>Math.round\<close>: the nearest integer, halves upwards.\<close>

definition js_round :: "real \<Rightarrow> int" where
  "js_round x = \<lfloor>x + 1 / 2\<rfloor>"

definition dwell_for :: "string \<Rightarrow> dwell_options \<Rightarrow> int" where
  "dwell_for title opts =
     (let wpm = or_else (words_per_minute opts) 180;
          lo = or_else (min_ms opts) 4000;
          hi = or_else (max_ms opts) 12000;
          base = or_else (base_ms opts) 2500;
          words = length (words_of title);
          reading = real words / wpm * 60000
      in js_round (min hi (max lo (base + reading))))"

record timeline_card =
  tc_id :: string
  tc_items :: "(string \<times> string) list"

fun card_shots :: "string \<Rightarrow> (string option \<times> string) list \<Rightarrow> dwell_options \<Rightarrow> int \<Rightarrow> shot list \<times> int" where
  "card_shots cid [] opts cursor = ([], cursor)"
| "card_shots cid ((item, title) # entries) opts cursor =
     (let d = dwell_for title opts;
          (rest, cursor') = card_shots cid entries opts (cursor + d)
      in (\<lparr>shot_card = cid, shot_item = item, shot_title = title, shot_dwell = d, shot_start = cursor\<rparr> # rest,
          cursor'))"

definition card_entries :: "timeline_card \<Rightarrow> dwell_options \<Rightarrow> (string option \<times> string) list" where
  "card_entries tc opts =
     (let items = take (nat (max 1 (or_else (stories_per_card opts) 1))) (tc_items tc)
      in if items \<noteq> [] then map (\<lambda>(i, t). (Some i, t)) items else [(None, [])])"

fun all_shots :: "timeline_card list \<Rightarrow> dwell_options \<Rightarrow> int \<Rightarrow> shot list \<times> int" where
  "all_shots [] opts cursor = ([], cursor)"
| "all_shots (tc # cards) opts cursor =
     (let (ss, cursor') = card_shots (tc_id tc) (card_entries tc opts) opts cursor;
          (rest, cursor'') = all_shots cards opts cursor'
      in (ss @ rest, cursor''))"

definition build_timeline :: "timeline_card list \<Rightarrow> dwell_options \<Rightarrow> timeline" where
  "build_timeline cards opts =
     (let (ss, cursor) = all_shots cards opts 0 in \<lparr>shots = ss, total_ms = cursor\<rparr>)"

text \<open>The loop of \<open>seekTimeline\<close> from shot \<open>n - 1\<close> down to the first.\<close>

fun seek_from :: "shot list \<Rightarrow> real \<Rightarrow> nat \<Rightarrow> int \<times> real" where
  "seek_from ss t 0 = (0, 0)"
| "seek_from ss t (Suc i) =
     (if t \<ge> of_int (shot_start (ss ! i))
      then (int i, min (t - of_int (shot_start (ss ! i))) (of_int (shot_dwell (ss ! i))))
      else seek_from ss t i)"

definition seek_timeline :: "timeline \<Rightarrow> real \<Rightarrow> int \<times> real" where
  "seek_timeline line ms =
     (if shots line = [] then (-1, 0) else seek_from (shots line) (max 0 ms) (length (shots line)))"

section \<open>Building\<close>

text \<open>Shots laid end to end from \<open>cursor\<close> to \<open>final\<close>.\<close>

fun contiguous :: "int \<Rightarrow> shot list \<Rightarrow> int \<Rightarrow> bool" where
  "contiguous cursor [] final \<longleftrightarrow> cursor = final"
| "contiguous cursor (s # ss) final \<longleftrightarrow>
     shot_start s = cursor \<and> contiguous (cursor + shot_dwell s) ss final"

lemma contiguous_append:
  "contiguous a xs b \<Longrightarrow> contiguous b ys c \<Longrightarrow> contiguous a (xs @ ys) c"
  by (induction xs arbitrary: a) auto

lemma card_shots_contiguous:
  "card_shots cid entries opts cursor = (ss, cursor') \<Longrightarrow>
   contiguous cursor ss cursor' \<and> map shot_dwell ss = map (\<lambda>(i, t). dwell_for t opts) entries \<and>
   map (\<lambda>s. (shot_card s, shot_item s, shot_title s)) ss = map (\<lambda>(i, t). (cid, i, t)) entries"
  by (induction cid entries opts cursor arbitrary: ss cursor' rule: card_shots.induct)
    (fastforce simp: Let_def split: prod.splits)+

lemma all_shots_contiguous:
  "all_shots cards opts cursor = (ss, cursor') \<Longrightarrow>
   contiguous cursor ss cursor' \<and>
   map (\<lambda>s. (shot_card s, shot_item s, shot_title s)) ss =
     concat (map (\<lambda>c. map (\<lambda>(i, t). (tc_id c, i, t)) (card_entries c opts)) cards) \<and>
   (\<forall>s \<in> set ss. shot_dwell s = dwell_for (shot_title s) opts)"
proof (induction cards arbitrary: cursor ss cursor')
  case (Cons tc cards)
  obtain xs a where x: "card_shots (tc_id tc) (card_entries tc opts) opts cursor = (xs, a)"
    by (metis prod.exhaust)
  obtain ys b where y: "all_shots cards opts a = (ys, b)" by (metis prod.exhaust)
  have res: "ss = xs @ ys" "cursor' = b" using Cons.prems x y by auto
  have "\<forall>s \<in> set xs. shot_dwell s = dwell_for (shot_title s) opts"
  proof -
    have "card_shots cid entries opts cu = (zs, c) \<Longrightarrow> \<forall>s \<in> set zs. shot_dwell s = dwell_for (shot_title s) opts"
      for cid entries cu zs c
      by (induction cid entries opts cu arbitrary: zs c rule: card_shots.induct)
        (fastforce simp: Let_def split: prod.splits)+
    then show ?thesis using x by blast
  qed
  then show ?case
    using card_shots_contiguous [OF x] Cons.IH [OF y] contiguous_append unfolding res by auto
qed simp

lemma js_round_mono: "x \<le> y \<Longrightarrow> js_round x \<le> js_round y"
  unfolding js_round_def by (intro floor_mono) simp

lemma dwell_for_bounds:
  "or_else (min_ms opts) 4000 \<le> or_else (max_ms opts) 12000 \<Longrightarrow>
   js_round (or_else (min_ms opts) 4000) \<le> dwell_for t opts \<and>
   dwell_for t opts \<le> js_round (or_else (max_ms opts) 12000)"
  by (simp add: dwell_for_def Let_def js_round_mono)

text \<open>
  The timeline plays every card in order, each with its first stories (one shot even
  when it has none); the shots lie end to end from zero to the total; and a dwell stays
  between the limits.
\<close>

theorem build_timeline_spec:
  assumes "or_else (min_ms opts) 4000 \<le> or_else (max_ms opts) 12000"
  shows "contiguous 0 (shots (build_timeline cards opts)) (total_ms (build_timeline cards opts)) \<and>
    map (\<lambda>s. (shot_card s, shot_item s, shot_title s)) (shots (build_timeline cards opts)) =
      concat (map (\<lambda>c. map (\<lambda>(i, t). (tc_id c, i, t)) (card_entries c opts)) cards) \<and>
    (\<forall>s \<in> set (shots (build_timeline cards opts)).
       js_round (or_else (min_ms opts) 4000) \<le> shot_dwell s \<and>
       shot_dwell s \<le> js_round (or_else (max_ms opts) 12000))"
  using all_shots_contiguous [of cards opts 0] dwell_for_bounds [OF assms]
  by (cases "all_shots cards opts 0") (auto simp: build_timeline_def)

abbreviation default_dwell :: dwell_options where
  "default_dwell \<equiv> \<lparr>words_per_minute = None, min_ms = None, max_ms = None, base_ms = None, stories_per_card = None\<rparr>"

theorem build_timeline_spec_witness:
  "contiguous 0 (shots (build_timeline [\<lparr>tc_id = ''bbc'', tc_items = []\<rparr>] default_dwell))
     (total_ms (build_timeline [\<lparr>tc_id = ''bbc'', tc_items = []\<rparr>] default_dwell))"
  using build_timeline_spec [of default_dwell "[\<lparr>tc_id = ''bbc'', tc_items = []\<rparr>]"] by simp

section \<open>Seeking\<close>

lemma contiguous_starts:
  "contiguous c ss f \<Longrightarrow> \<forall>s \<in> set ss. 0 \<le> shot_dwell s \<Longrightarrow> i < length ss \<Longrightarrow>
   c \<le> shot_start (ss ! i) \<and>
   (\<forall>j. i < j \<and> j < length ss \<longrightarrow> shot_start (ss ! i) + shot_dwell (ss ! i) \<le> shot_start (ss ! j)) \<and>
   shot_start (ss ! i) + shot_dwell (ss ! i) \<le> f"
proof (induction ss arbitrary: c i)
  case (Cons s ss)
  have tail: "\<And>k. k < length ss \<Longrightarrow> c + shot_dwell s \<le> shot_start (ss ! k)"
    using Cons by fastforce
  have fin: "c + shot_dwell s \<le> f" 
  proof (cases ss)
    case Nil
    then show ?thesis using Cons.prems by simp
  next
    case (Cons a as)
    then show ?thesis using Cons.IH [of "c + shot_dwell s" 0] Cons.prems by force
  qed
  show ?case
  proof (cases i)
    case 0
    then show ?thesis using Cons.prems tail fin by (auto simp: nth_Cons split: nat.splits)
  next
    case (Suc k)
    then show ?thesis
      using Cons.IH [of "c + shot_dwell s" k] Cons.prems by (force simp: nth_Cons split: nat.splits)
  qed
qed simp

lemma contiguous_sum: "contiguous c ss f \<Longrightarrow> f = c + sum_list (map shot_dwell ss)"
proof (induction ss arbitrary: c)
  case (Cons s ss)
  have "f = (c + shot_dwell s) + sum_list (map shot_dwell ss)"
    by (rule Cons.IH) (use Cons.prems in simp)
  then show ?case by simp
qed simp

lemma contiguous_le:
  assumes "contiguous c ss f" and "\<forall>s \<in> set ss. 0 \<le> shot_dwell s"
  shows "c \<le> f"
proof -
  have "0 \<le> sum_list (map shot_dwell ss)" using assms(2) by (intro sum_list_nonneg) auto
  then show ?thesis using contiguous_sum [OF assms(1)] by simp
qed

lemma contiguous_next:
  "contiguous c ss f \<Longrightarrow> i < length ss \<Longrightarrow>
   shot_start (ss ! i) + shot_dwell (ss ! i) = (if Suc i < length ss then shot_start (ss ! Suc i) else f)"
proof (induction ss arbitrary: c i)
  case (Cons s ss)
  show ?case
  proof (cases i)
    case 0
    then show ?thesis using Cons.prems by (cases ss) auto
  next
    case (Suc k)
    then show ?thesis using Cons.IH [of "c + shot_dwell s" k] Cons.prems by simp
  qed
qed simp

lemma seek_from_spec:
  assumes "0 < n" and "n \<le> length ss" and "of_int (shot_start (ss ! 0)) \<le> t"
  shows "\<exists>i. i < n \<and> seek_from ss t n =
      (int i, min (t - of_int (shot_start (ss ! i))) (of_int (shot_dwell (ss ! i)))) \<and>
    of_int (shot_start (ss ! i)) \<le> t \<and> (Suc i < n \<longrightarrow> t < of_int (shot_start (ss ! Suc i)))"
  using assms
proof (induction n)
  case (Suc n)
  show ?case
  proof (cases "t \<ge> of_int (shot_start (ss ! n))")
    case True
    then show ?thesis by (intro exI [of _ n]) simp
  next
    case False
    then have "n \<noteq> 0" using Suc.prems by (cases n) auto
    then obtain i where i: "i < n" "seek_from ss t n =
        (int i, min (t - of_int (shot_start (ss ! i))) (of_int (shot_dwell (ss ! i))))"
      "of_int (shot_start (ss ! i)) \<le> t" "Suc i < n \<longrightarrow> t < of_int (shot_start (ss ! Suc i))"
      using Suc by auto
    moreover have "t < of_int (shot_start (ss ! Suc i))" if "\<not> Suc i < n"
      using that i(1) False by (cases "Suc i = n") auto
    ultimately show ?thesis using False by (intro exI [of _ i]) auto
  qed
qed simp

text \<open>A timeline as \<open>build_timeline\<close> makes it.\<close>

definition timeline_ok :: "timeline \<Rightarrow> bool" where
  "timeline_ok line \<longleftrightarrow> contiguous 0 (shots line) (total_ms line) \<and> (\<forall>s \<in> set (shots line). 0 \<le> shot_dwell s)"

lemma seek_timeline_spec:
  assumes "timeline_ok line" and "shots line \<noteq> []"
  shows "case seek_timeline line ms of (i, off) \<Rightarrow>
    0 \<le> i \<and> i < int (length (shots line)) \<and> 0 \<le> off \<and> off \<le> of_int (shot_dwell (shots line ! nat i)) \<and>
    of_int (shot_start (shots line ! nat i)) + off = min (max 0 ms) (of_int (total_ms line))"
proof -
  let ?ss = "shots line" and ?t = "max 0 ms"
  have con: "contiguous 0 ?ss (total_ms line)" and pos: "\<forall>s \<in> set ?ss. 0 \<le> shot_dwell s"
    using assms(1) by (auto simp: timeline_ok_def)
  have zero: "shot_start (?ss ! 0) = 0" using con assms(2) by (cases ?ss) auto
  obtain i where i: "i < length ?ss" "seek_from ?ss ?t (length ?ss) =
      (int i, min (?t - of_int (shot_start (?ss ! i))) (of_int (shot_dwell (?ss ! i))))"
    "of_int (shot_start (?ss ! i)) \<le> ?t" "Suc i < length ?ss \<longrightarrow> ?t < of_int (shot_start (?ss ! Suc i))"
    using seek_from_spec [of "length ?ss" ?ss ?t] assms(2) zero by auto
  have d: "0 \<le> shot_dwell (?ss ! i)" using pos i(1) by simp
  note nx = contiguous_next [OF con i(1)]
  have tot: "shot_start (?ss ! i) + shot_dwell (?ss ! i) \<le> total_ms line"
    using contiguous_starts [OF con pos i(1)] by blast
  have "of_int (shot_start (?ss ! i)) + min (?t - of_int (shot_start (?ss ! i))) (of_int (shot_dwell (?ss ! i))) =
      min ?t (of_int (total_ms line))"
  proof (cases "Suc i < length ?ss")
    case True
    then have "real_of_int (shot_start (?ss ! i)) + of_int (shot_dwell (?ss ! i)) = of_int (shot_start (?ss ! Suc i))"
      using nx by (metis of_int_add)
    moreover have "real_of_int (shot_start (?ss ! i)) + of_int (shot_dwell (?ss ! i)) \<le> of_int (total_ms line)"
      using tot by (metis of_int_add of_int_le_iff)
    ultimately show ?thesis using i(4) True by linarith
  next
    case False
    then have "real_of_int (shot_start (?ss ! i)) + of_int (shot_dwell (?ss ! i)) = of_int (total_ms line)"
      using nx by (metis of_int_add)
    then show ?thesis by linarith
  qed
  then show ?thesis
    using assms(2) i d by (simp add: seek_timeline_def)
qed

text \<open>
  seeking lands on a shot of the timeline and on the position asked for, clamped to the
  timeline: before the start on zero, past the end on the last shot's end.
\<close>

theorem seek_lands:
  assumes "timeline_ok line" and "shots line \<noteq> []"
  shows "case seek_timeline line ms of (i, off) \<Rightarrow>
    0 \<le> i \<and> i < int (length (shots line)) \<and> 0 \<le> off \<and> off \<le> of_int (shot_dwell (shots line ! nat i)) \<and>
    of_int (shot_start (shots line ! nat i)) + off = min (max 0 ms) (of_int (total_ms line))"
  by (rule seek_timeline_spec [OF assms])

lemma build_timeline_ok: "timeline_ok (build_timeline cards default_dwell)"
proof -
  obtain ss c where a: "all_shots cards default_dwell 0 = (ss, c)" by (metis prod.exhaust)
  have "0 \<le> dwell_for t default_dwell" for t
    using dwell_for_bounds [of default_dwell t] by (simp add: js_round_def)
  then show ?thesis
    using all_shots_contiguous [OF a] by (simp add: timeline_ok_def build_timeline_def a)
qed

definition sample_timeline :: timeline where
  "sample_timeline =
     \<lparr>shots = [\<lparr>shot_card = ''bbc'', shot_item = Some ''a'', shot_title = ''x'', shot_dwell = 6000, shot_start = 0\<rparr>,
               \<lparr>shot_card = ''cnn'', shot_item = None, shot_title = [], shot_dwell = 4000, shot_start = 6000\<rparr>],
      total_ms = 10000\<rparr>"

lemma sample_timeline_ok [simp]: "timeline_ok sample_timeline"
  by (simp add: timeline_ok_def sample_timeline_def)

lemma sample_timeline_fields [simp]:
  "length (shots sample_timeline) = 2" "shots sample_timeline \<noteq> []" "total_ms sample_timeline = 10000"
  by (simp_all add: sample_timeline_def)

theorem seek_lands_witness: "seek_timeline sample_timeline 99999 = (1, 4000)"
proof -
  obtain i off where s: "seek_timeline sample_timeline 99999 = (i, off)" by (metis prod.exhaust)
  have "0 \<le> i" "i < 2" "off \<le> of_int (shot_dwell (shots sample_timeline ! nat i))"
    "of_int (shot_start (shots sample_timeline ! nat i)) + off = 10000"
    using seek_lands [OF sample_timeline_ok sample_timeline_fields(2), of 99999] unfolding s prod.case
    by simp_all
  moreover from this have "i = 0 \<or> i = 1" by linarith
  ultimately have "i = 1 \<and> off = 4000" by (auto simp: sample_timeline_def)
  then show ?thesis using s by simp
qed

end
