(* ===== verification/Runner.thy ===== *)
theory Runner
  imports Timeline
begin

text \<open>
  The auto-play runner (\<open>news-core/src/autoplay/runner.ts\<close>) as a state machine.

  The closure variables are the fields of \<open>runner\<close>. The runner has one timer at a time
  (\<open>wait\<close> cancels the one before), which is its due time and one of the two callbacks the code
  schedules. The clock is the field \<open>clock_now\<close>: time passes by \<open>elapse\<close>, and the timer
  may fire at or after its due time. \<open>told\<close> and \<open>travelled\<close> record the calls of
  \<open>onChange\<close> and \<open>travel\<close>, which are taken not to call back into the runner. The abort
  signal is the flag \<open>aborted\<close> and whether the runner still listens to it.
\<close>

section \<open>State\<close>

datatype autoplay_phase = Idle | Select | Travel | Hold | Paused | Complete
datatype resume_lane = ToTravel | ToHold
datatype timer_action = DoHold real | DoNext

record runner =
  phase :: autoplay_phase
  shot_index :: int
  timer :: "(real \<times> timer_action) option"
  started_at :: real
  length_ms :: real
  remaining_ms :: real
  resume_to :: "resume_lane option"
  listening :: bool
  aborted :: bool
  clock_now :: real
  told :: "(autoplay_phase \<times> int \<times> real) list"
  travelled :: "(shot \<times> int) list"

definition create_runner :: "real \<Rightarrow> runner" where
  "create_runner t =
     \<lparr>phase = Idle, shot_index = -1, timer = None, started_at = 0, length_ms = 0, remaining_ms = 0,
      resume_to = None, listening = True, aborted = False, clock_now = t, told = [], travelled = []\<rparr>"

definition current_shot :: "timeline \<Rightarrow> runner \<Rightarrow> shot option" where
  "current_shot line r = elem_at (shots line) (shot_index r)"

definition position_ms :: "timeline \<Rightarrow> runner \<Rightarrow> real" where
  "position_ms line r =
     (case current_shot line r of
        None \<Rightarrow> if phase r = Complete then of_int (total_ms line) else 0
      | Some s \<Rightarrow>
          if phase r = Hold
          then of_int (shot_start s) + min (of_int (shot_dwell s)) (clock_now r - started_at r)
          else if phase r = Paused \<and> resume_to r = Some ToHold
          then of_int (shot_start s) + max 0 (of_int (shot_dwell s) - remaining_ms r)
          else of_int (shot_start s))"

definition notify :: "timeline \<Rightarrow> runner \<Rightarrow> runner" where
  "notify line r = r\<lparr>told := told r @ [(phase r, shot_index r, position_ms line r)]\<rparr>"

definition clear_timer :: "runner \<Rightarrow> runner" where
  "clear_timer r = r\<lparr>timer := None\<rparr>"

definition wait :: "real \<Rightarrow> timer_action \<Rightarrow> runner \<Rightarrow> runner" where
  "wait ms act r =
     r\<lparr>started_at := clock_now r, length_ms := ms, timer := Some (clock_now r + max 0 ms, act)\<rparr>"

section \<open>Operations\<close>

definition stop_inner :: "timeline \<Rightarrow> runner \<Rightarrow> runner" where
  "stop_inner line r =
     notify line ((clear_timer r)\<lparr>phase := Idle, shot_index := -1, resume_to := None\<rparr>)"

definition complete :: "timeline \<Rightarrow> runner \<Rightarrow> runner" where
  "complete line r = notify line ((clear_timer r)\<lparr>phase := Complete\<rparr>)"

definition hold :: "timeline \<Rightarrow> real \<Rightarrow> runner \<Rightarrow> runner" where
  "hold line offset r =
     (case current_shot line r of
        None \<Rightarrow> complete line r
      | Some s \<Rightarrow>
          (let r1 = wait (max 0 (of_int (shot_dwell s) - offset)) DoNext (notify line (r\<lparr>phase := Hold\<rparr>))
           in r1\<lparr>started_at := started_at r1 - offset\<rparr>))"

definition select :: "timeline \<Rightarrow> real \<Rightarrow> int \<Rightarrow> real \<Rightarrow> runner \<Rightarrow> runner" where
  "select line travelMs to offset r =
     (if aborted r then r
      else
        (let r1 = r\<lparr>shot_index := to\<rparr>
         in case current_shot line r1 of
              None \<Rightarrow> complete line r1
            | Some s \<Rightarrow>
                (let r2 = (notify line (r1\<lparr>phase := Select\<rparr>))\<lparr>phase := Travel\<rparr>;
                     r3 = notify line (r2\<lparr>travelled := travelled r2 @ [(s, to)]\<rparr>)
                 in wait travelMs (DoHold offset) r3)))"

definition next_shot :: "timeline \<Rightarrow> real \<Rightarrow> runner \<Rightarrow> runner" where
  "next_shot line travelMs r =
     (if shot_index r + 1 \<ge> int (length (shots line)) then complete line r
      else select line travelMs (shot_index r + 1) 0 r)"

definition rn_start :: "timeline \<Rightarrow> real \<Rightarrow> real \<Rightarrow> runner \<Rightarrow> runner" where
  "rn_start line travelMs fromMs r =
     (if shots line = [] then complete line r
      else (case seek_timeline line fromMs of (i, off) \<Rightarrow> select line travelMs i off r))"

definition rn_pause :: "timeline \<Rightarrow> runner \<Rightarrow> runner" where
  "rn_pause line r =
     (if phase r \<noteq> Travel \<and> phase r \<noteq> Hold then r
      else notify line
        ((clear_timer r)\<lparr>remaining_ms := max 0 (length_ms r - (clock_now r - started_at r)),
           resume_to := Some (if phase r = Hold then ToHold else ToTravel), phase := Paused\<rparr>))"

definition rn_resume :: "timeline \<Rightarrow> runner \<Rightarrow> runner" where
  "rn_resume line r =
     (if phase r \<noteq> Paused then r
      else (case resume_to r of
          None \<Rightarrow> r
        | Some lane \<Rightarrow>
            (let r0 = r\<lparr>resume_to := None\<rparr>
             in case current_shot line r0 of
                  None \<Rightarrow> complete line r0
                | Some s \<Rightarrow>
                    (case lane of
                       ToHold \<Rightarrow>
                         (let r1 = wait (remaining_ms r0) DoNext (notify line (r0\<lparr>phase := Hold\<rparr>))
                          in r1\<lparr>started_at := started_at r1 - (of_int (shot_dwell s) - remaining_ms r0)\<rparr>)
                     | ToTravel \<Rightarrow>
                         wait (remaining_ms r0) (DoHold 0) (notify line (r0\<lparr>phase := Travel\<rparr>))))))"

definition rn_stop :: "timeline \<Rightarrow> runner \<Rightarrow> runner" where
  "rn_stop line r = stop_inner line (r\<lparr>listening := False\<rparr>)"

definition rn_seek :: "timeline \<Rightarrow> real \<Rightarrow> real \<Rightarrow> runner \<Rightarrow> runner" where
  "rn_seek line travelMs ms r =
     (if shots line = [] then r
      else (case seek_timeline line ms of (i, off) \<Rightarrow>
        (let r1 = select line travelMs i off (clear_timer r)
         in if phase r = Paused \<or> phase r = Idle then
              notify line ((clear_timer r1)\<lparr>remaining_ms := travelMs, resume_to := Some ToTravel, phase := Paused\<rparr>)
            else r1)))"

definition rn_abort :: "timeline \<Rightarrow> runner \<Rightarrow> runner" where
  "rn_abort line r = (let r1 = r\<lparr>aborted := True\<rparr> in if listening r then stop_inner line r1 else r1)"

definition elapse :: "real \<Rightarrow> runner \<Rightarrow> runner" where
  "elapse d r = r\<lparr>clock_now := clock_now r + d\<rparr>"

text \<open>The timer's callback; the timer is gone before it runs.\<close>

definition fire :: "timeline \<Rightarrow> real \<Rightarrow> runner \<Rightarrow> runner" where
  "fire line travelMs r =
     (case timer r of
        None \<Rightarrow> r
      | Some (due, act) \<Rightarrow>
          (case act of
             DoHold off \<Rightarrow> hold line off (clear_timer r)
           | DoNext \<Rightarrow> next_shot line travelMs (clear_timer r)))"

inductive runner_step :: "timeline \<Rightarrow> real \<Rightarrow> runner \<Rightarrow> runner \<Rightarrow> bool"
  for line :: timeline and travelMs :: real where
  step_start: "runner_step line travelMs r (rn_start line travelMs from r)"
| step_pause: "runner_step line travelMs r (rn_pause line r)"
| step_resume: "runner_step line travelMs r (rn_resume line r)"
| step_stop: "runner_step line travelMs r (rn_stop line r)"
| step_seek: "runner_step line travelMs r (rn_seek line travelMs ms r)"
| step_abort: "runner_step line travelMs r (rn_abort line r)"
| step_elapse: "0 \<le> d \<Longrightarrow> runner_step line travelMs r (elapse d r)"
| step_fire: "timer r = Some (due, act) \<Longrightarrow> due \<le> clock_now r \<Longrightarrow>
    runner_step line travelMs r (fire line travelMs r)"

inductive reachable :: "timeline \<Rightarrow> real \<Rightarrow> runner \<Rightarrow> bool" for line :: timeline and travelMs :: real where
  reach_init: "reachable line travelMs (create_runner t)"
| reach_step: "reachable line travelMs r \<Longrightarrow> runner_step line travelMs r r' \<Longrightarrow> reachable line travelMs r'"

inductive_cases runner_step_cases: "runner_step line travelMs r r'"

section \<open>The invariant\<close>

lemmas runner_ops = rn_start_def rn_pause_def rn_resume_def rn_stop_def rn_seek_def rn_abort_def
  elapse_def fire_def stop_inner_def complete_def hold_def select_def next_shot_def
  wait_def clear_timer_def notify_def

text \<open>The dwell of the shot the index points at.\<close>

definition dwell_at :: "timeline \<Rightarrow> runner \<Rightarrow> real" where
  "dwell_at line r = of_int (shot_dwell (shots line ! nat (shot_index r)))"

text \<open>
  The one thing that is scheduled: the hold of the shot travelled to, when the travel is over, or
  the next shot, when the dwell of the one held is over.
\<close>

definition timer_ok :: "timeline \<Rightarrow> runner \<Rightarrow> bool" where
  "timer_ok line r \<longleftrightarrow>
     (timer r = None \<and> (phase r = Travel \<or> phase r = Hold) \<longrightarrow> aborted r) \<and>
     (\<forall>due off. timer r = Some (due, DoHold off) \<longrightarrow>
        phase r = Travel \<and> 0 \<le> off \<and> off \<le> dwell_at line r \<and> due = started_at r + max 0 (length_ms r)) \<and>
     (\<forall>due. timer r = Some (due, DoNext) \<longrightarrow> phase r = Hold \<and> due = started_at r + dwell_at line r)"

definition runner_inv :: "timeline \<Rightarrow> runner \<Rightarrow> bool" where
  "runner_inv line r \<longleftrightarrow>
     -1 \<le> shot_index r \<and> shot_index r < int (length (shots line)) \<and>
     phase r \<noteq> Select \<and> timer_ok line r \<and>
     (phase r = Idle \<longrightarrow> shot_index r = -1) \<and>
     (phase r = Travel \<or> phase r = Hold \<longrightarrow> 0 \<le> shot_index r \<and> started_at r \<le> clock_now r) \<and>
     (phase r = Paused \<longrightarrow> resume_to r \<noteq> None \<and> (aborted r \<or> 0 \<le> shot_index r)) \<and>
     (phase r = Hold \<longrightarrow> length_ms r \<le> dwell_at line r) \<and>
     (phase r = Paused \<and> resume_to r = Some ToHold \<longrightarrow> 0 \<le> shot_index r \<and> 0 \<le> remaining_ms r \<and>
        remaining_ms r \<le> dwell_at line r)"

lemmas inv_defs = runner_inv_def timer_ok_def dwell_at_def

text \<open>The last thing the caller was told is the phase and the shot of now.\<close>

definition told_ok :: "runner \<Rightarrow> bool" where
  "told_ok r \<longleftrightarrow>
     (if told r = [] then phase r = Idle \<and> shot_index r = -1
      else fst (last (told r)) = phase r \<and> fst (snd (last (told r))) = shot_index r)"

lemma told_ok_notify [simp]: "told_ok (notify line r)"
  by (simp add: told_ok_def notify_def)

lemma told_ok_fields [simp]:
  "told_ok (r\<lparr>timer := a\<rparr>) = told_ok r" "told_ok (r\<lparr>started_at := b\<rparr>) = told_ok r"
  "told_ok (r\<lparr>length_ms := b\<rparr>) = told_ok r" "told_ok (r\<lparr>resume_to := c\<rparr>) = told_ok r"
  "told_ok (r\<lparr>aborted := d\<rparr>) = told_ok r" "told_ok (r\<lparr>clock_now := b\<rparr>) = told_ok r"
  "told_ok (wait b e r) = told_ok r" "told_ok (clear_timer r) = told_ok r"
  by (simp_all add: told_ok_def wait_def clear_timer_def)

lemma hold_told: "told_ok (hold line off r)"
  by (simp add: hold_def complete_def Let_def split: option.split)

lemma select_told: "told_ok r \<Longrightarrow> told_ok (select line travelMs to off r)"
  by (simp add: select_def complete_def Let_def split: option.split)

lemma runner_step_told: "runner_step line travelMs r r' \<Longrightarrow> told_ok r \<Longrightarrow> told_ok r'"
proof (induction rule: runner_step.induct)
  case (step_resume r)
  then show ?case
    by (auto simp: rn_resume_def complete_def Let_def split: option.split resume_lane.split)
next
  case (step_fire r due act)
  then show ?case
    by (cases act) (auto simp: fire_def next_shot_def complete_def hold_told intro!: select_told)
qed (auto simp: rn_start_def rn_pause_def rn_stop_def stop_inner_def rn_seek_def rn_abort_def elapse_def
    complete_def Let_def intro!: select_told split: prod.split)

lemma reachable_told: "reachable line travelMs r \<Longrightarrow> told_ok r"
  by (induction rule: reachable.induct) (simp add: told_ok_def create_runner_def, blast intro: runner_step_told)

lemma current_shot_Some:
  "current_shot line r = Some s \<longleftrightarrow>
     0 \<le> shot_index r \<and> shot_index r < int (length (shots line)) \<and> s = shots line ! nat (shot_index r)"
  by (auto simp: current_shot_def elem_at_def)

lemma current_shot_None:
  "current_shot line r = None \<longleftrightarrow> \<not> (0 \<le> shot_index r \<and> shot_index r < int (length (shots line)))"
  by (auto simp: current_shot_def elem_at_def)

lemma runner_inv_notify [simp]: "runner_inv line (notify line r) = runner_inv line r"
  by (simp add: inv_defs notify_def)

lemma notify_fields [simp]:
  "phase (notify line r) = phase r" "shot_index (notify line r) = shot_index r"
  "timer (notify line r) = timer r" "started_at (notify line r) = started_at r"
  "length_ms (notify line r) = length_ms r" "remaining_ms (notify line r) = remaining_ms r"
  "resume_to (notify line r) = resume_to r" "listening (notify line r) = listening r"
  "aborted (notify line r) = aborted r" "clock_now (notify line r) = clock_now r"
  "travelled (notify line r) = travelled r"
  "current_shot line (notify line r) = current_shot line r"
  by (simp_all add: notify_def current_shot_def)

text \<open>What a runner that plays nothing has to satisfy.\<close>

lemma runner_inv_rest:
  assumes "-1 \<le> shot_index r" and "shot_index r < int (length (shots line))" and "timer r = None"
    and "phase r = Idle \<and> shot_index r = -1 \<or> phase r = Complete"
  shows "runner_inv line r"
  using assms by (auto simp: inv_defs)

lemma runner_inv_range:
  "runner_inv line r \<Longrightarrow> -1 \<le> shot_index r \<and> shot_index r < int (length (shots line))"
  by (simp add: runner_inv_def)

lemma complete_inv:
  "-1 \<le> shot_index r \<Longrightarrow> shot_index r < int (length (shots line)) \<Longrightarrow> runner_inv line (complete line r)"
  by (simp add: complete_def) (rule runner_inv_rest; simp add: clear_timer_def)

lemma stop_inv: "runner_inv line (stop_inner line r)"
  by (simp add: stop_inner_def) (rule runner_inv_rest; simp add: clear_timer_def)

lemma dwell_nonneg:
  "timeline_ok line \<Longrightarrow> 0 \<le> i \<Longrightarrow> i < int (length (shots line)) \<Longrightarrow> 0 \<le> shot_dwell (shots line ! nat i)"
  by (simp add: timeline_ok_def)

lemma hold_inv:
  assumes "0 \<le> off" and "off \<le> dwell_at line r" and "0 \<le> shot_index r" and "shot_index r < int (length (shots line))"
  shows "runner_inv line (hold line off r)"
proof -
  have s: "current_shot line r = Some (shots line ! nat (shot_index r))"
    using assms(3,4) by (simp add: current_shot_Some)
  show ?thesis
    using assms s by (simp add: hold_def Let_def wait_def inv_defs)
qed

lemma select_inv:
  assumes "0 \<le> to" and "to < int (length (shots line))" and "0 \<le> off"
    and "off \<le> of_int (shot_dwell (shots line ! nat to))" and "aborted r \<Longrightarrow> runner_inv line r"
  shows "runner_inv line (select line travelMs to off r)"
proof (cases "aborted r")
  case True
  then show ?thesis using assms(5) by (simp add: select_def)
next
  case False
  have s: "current_shot line (r\<lparr>shot_index := to\<rparr>) = Some (shots line ! nat to)"
    using assms(1,2) by (simp add: current_shot_Some)
  show ?thesis
    using False assms s by (simp add: select_def Let_def wait_def inv_defs)
qed

lemma seek_range:
  "timeline_ok line \<Longrightarrow> shots line \<noteq> [] \<Longrightarrow> seek_timeline line ms = (i, off) \<Longrightarrow>
   0 \<le> i \<and> i < int (length (shots line)) \<and> 0 \<le> off \<and> off \<le> of_int (shot_dwell (shots line ! nat i))"
  using seek_timeline_spec [of line ms] by simp

lemma clear_inv: "runner_inv line r \<Longrightarrow> aborted r \<Longrightarrow> runner_inv line (clear_timer r)"
  by (simp add: inv_defs clear_timer_def)

lemma start_inv:
  assumes "timeline_ok line" and "runner_inv line r"
  shows "runner_inv line (rn_start line travelMs from r)"
proof (cases "shots line = []")
  case True
  then show ?thesis using assms by (simp add: rn_start_def) (rule complete_inv; simp add: runner_inv_def)
next
  case False
  obtain i off where s: "seek_timeline line from = (i, off)" by (metis prod.exhaust)
  show ?thesis
    using seek_range [OF assms(1) False s] assms(2) False s by (simp add: rn_start_def select_inv)
qed

lemma pause_inv:
  assumes "timeline_ok line" and "runner_inv line r"
  shows "runner_inv line (rn_pause line r)"
proof (cases "phase r = Hold")
  case True
  then have "0 \<le> shot_dwell (shots line ! nat (shot_index r))"
    using assms by (intro dwell_nonneg) (auto simp: runner_inv_def)
  then show ?thesis using assms(2) True by (auto simp: rn_pause_def inv_defs clear_timer_def)
next
  case False
  then show ?thesis using assms(2) by (auto simp: rn_pause_def inv_defs clear_timer_def)
qed

lemma resume_inv:
  assumes "timeline_ok line" and "runner_inv line r"
  shows "runner_inv line (rn_resume line r)"
proof (cases "phase r = Paused")
  case True
  then obtain lane where lane: "resume_to r = Some lane" using assms(2) by (auto simp: runner_inv_def)
  show ?thesis
  proof (cases "current_shot line (r\<lparr>resume_to := None\<rparr>)")
    case None
    then have "rn_resume line r = complete line (r\<lparr>resume_to := None\<rparr>)"
      using True lane by (simp add: rn_resume_def)
    then show ?thesis using runner_inv_range [OF assms(2)] complete_inv [of "r\<lparr>resume_to := None\<rparr>" line]
      by simp
  next
    case (Some s)
    then have s: "0 \<le> shot_index r" "shot_index r < int (length (shots line))"
      "s = shots line ! nat (shot_index r)" by (auto simp: current_shot_Some)
    show ?thesis
    proof (cases lane)
      case ToHold
      have rem: "0 \<le> remaining_ms r" "remaining_ms r \<le> of_int (shot_dwell s)"
        using assms(2) True lane ToHold s by (simp_all add: inv_defs)
      have "rn_resume line r = (wait (remaining_ms r) DoNext (notify line (r\<lparr>resume_to := None, phase := Hold\<rparr>)))
          \<lparr>started_at := clock_now r - (of_int (shot_dwell s) - remaining_ms r)\<rparr>"
        using True lane ToHold Some by (simp add: rn_resume_def Let_def wait_def)
      then show ?thesis using s rem by (simp add: inv_defs wait_def)
    next
      case ToTravel
      have "rn_resume line r = wait (remaining_ms r) (DoHold 0) (notify line (r\<lparr>resume_to := None, phase := Travel\<rparr>))"
        using True lane ToTravel Some by (simp add: rn_resume_def Let_def)
      then show ?thesis using s dwell_nonneg [OF assms(1) s(1,2)] by (simp add: inv_defs wait_def)
    qed
  qed
qed (use assms(2) in \<open>simp add: rn_resume_def\<close>)

lemma seek_inv:
  assumes "timeline_ok line" and "runner_inv line r"
  shows "runner_inv line (rn_seek line travelMs ms r)"
proof (cases "shots line = []")
  case False
  obtain i off where s: "seek_timeline line ms = (i, off)" by (metis prod.exhaust)
  have sel: "runner_inv line (select line travelMs i off (clear_timer r))"
    using seek_range [OF assms(1) False s] assms(2) clear_inv by (intro select_inv) (auto simp: clear_timer_def)
  have range: "aborted r \<or> 0 \<le> shot_index (select line travelMs i off (clear_timer r))"
    using seek_range [OF assms(1) False s]
    by (auto simp: select_def clear_timer_def complete_def wait_def Let_def split: option.split)
  have ab: "aborted (select line travelMs i off (clear_timer r)) = aborted r"
    by (simp add: select_def clear_timer_def complete_def wait_def Let_def split: option.split)
  have "runner_inv line ((clear_timer (select line travelMs i off (clear_timer r)))
      \<lparr>remaining_ms := travelMs, resume_to := Some ToTravel, phase := Paused\<rparr>)"
    using sel range ab by (auto simp: inv_defs clear_timer_def)
  then show ?thesis using sel False s by (simp add: rn_seek_def Let_def)
qed (use assms(2) in \<open>simp add: rn_seek_def\<close>)

lemma fire_inv:
  assumes "timeline_ok line" and "runner_inv line r"
  shows "runner_inv line (fire line travelMs r)"
proof (cases "timer r")
  case None
  then show ?thesis using assms(2) by (simp add: fire_def)
next
  case (Some t)
  obtain due act where t: "t = (due, act)" by (cases t)
  show ?thesis
  proof (cases act)
    case (DoHold off)
    then have "0 \<le> off" "off \<le> dwell_at line r" "0 \<le> shot_index r" "shot_index r < int (length (shots line))"
      using assms(2) Some t by (auto simp: runner_inv_def timer_ok_def)
    then show ?thesis
      using hold_inv [of off line "clear_timer r"] Some t DoHold by (simp add: fire_def clear_timer_def dwell_at_def)
  next
    case DoNext
    have clear: "aborted r \<Longrightarrow> runner_inv line (clear_timer r)" using assms(2) by (rule clear_inv)
    have idx: "0 \<le> shot_index r" "shot_index r < int (length (shots line))"
      using assms(2) Some t DoNext by (auto simp: runner_inv_def timer_ok_def)
    then show ?thesis
      using Some t DoNext clear dwell_nonneg [OF assms(1), of "shot_index r + 1"]
      by (auto simp: fire_def next_shot_def clear_timer_def intro!: complete_inv select_inv)
  qed
qed

lemma runner_step_inv:
  assumes "timeline_ok line" and "runner_inv line r" and "runner_step line travelMs r r'"
  shows "runner_inv line r'"
  using assms(3)
proof cases
  case (step_start st)
  then show ?thesis using start_inv [OF assms(1,2)] by simp
next
  case step_pause
  then show ?thesis using pause_inv [OF assms(1,2)] by simp
next
  case step_resume
  then show ?thesis using resume_inv [OF assms(1,2)] by simp
next
  case step_stop
  then show ?thesis by (simp add: rn_stop_def stop_inv)
next
  case (step_seek ms)
  then show ?thesis using seek_inv [OF assms(1,2)] by simp
next
  case step_abort
  moreover have "runner_inv line (r\<lparr>aborted := True\<rparr>)"
    using assms(2) by (auto simp: inv_defs split: option.splits)
  ultimately show ?thesis by (simp add: rn_abort_def Let_def stop_inv)
next
  case (step_elapse d)
  have "phase r = Travel \<or> phase r = Hold \<Longrightarrow> started_at r \<le> clock_now r" using assms(2) by (simp add: runner_inv_def)
  then have "phase r = Travel \<or> phase r = Hold \<longrightarrow> started_at r \<le> clock_now r + d" using step_elapse(2) by linarith
  then show ?thesis using assms(2) step_elapse(1) by (simp add: elapse_def inv_defs)
next
  case step_fire
  then show ?thesis using fire_inv [OF assms(1,2)] by simp
qed

lemma reachable_inv: "reachable line travelMs r \<Longrightarrow> timeline_ok line \<Longrightarrow> runner_inv line r"
proof (induction rule: reachable.induct)
  case (reach_init t)
  then show ?case by (simp add: create_runner_def inv_defs)
next
  case (reach_step r r')
  then show ?case using runner_step_inv by blast
qed

text \<open>
  C17: Whatever the reader and the clock do, over a well-formed timeline: an idle runner points at
  no shot, one that travels, holds or, unaborted, is paused at a shot of the timeline, and the
  reported position lies on the timeline. What is scheduled fits the phase: a travelling runner
  waits, as long as the travel takes, for the hold of its shot at an offset within it, a holding
  one for the next shot at the moment its dwell is over, and only an aborted one waits for
  nothing; in every other phase nothing is scheduled. A paused runner knows where to resume, and
  the last change told to the caller is the phase and the shot of now.
\<close>

theorem runner_invariant:
  assumes "timeline_ok line" and "reachable line travelMs r"
  shows "shot_index r < int (length (shots line)) \<and> phase r \<noteq> Select \<and>
    0 \<le> position_ms line r \<and> position_ms line r \<le> of_int (total_ms line) \<and>
    (phase r = Idle \<longrightarrow> shot_index r = -1) \<and>
    (phase r = Travel \<or> phase r = Hold \<or> phase r = Paused \<and> \<not> aborted r \<longrightarrow> 0 \<le> shot_index r) \<and>
    (timer r = None \<and> (phase r = Travel \<or> phase r = Hold) \<longrightarrow> aborted r) \<and>
    (\<forall>due off. timer r = Some (due, DoHold off) \<longrightarrow> phase r = Travel \<and> 0 \<le> off \<and>
       off \<le> of_int (shot_dwell (shots line ! nat (shot_index r))) \<and> due = started_at r + max 0 (length_ms r)) \<and>
    (\<forall>due. timer r = Some (due, DoNext) \<longrightarrow> phase r = Hold \<and>
       due = started_at r + of_int (shot_dwell (shots line ! nat (shot_index r)))) \<and>
    (phase r = Paused \<longrightarrow> resume_to r \<noteq> None) \<and>
    (if told r = [] then phase r = Idle
     else fst (last (told r)) = phase r \<and> fst (snd (last (told r))) = shot_index r)"
proof -
  have inv: "runner_inv line r" by (rule reachable_inv [OF assms(2,1)])
  have con: "contiguous 0 (shots line) (total_ms line)"
    and dw: "\<forall>s \<in> set (shots line). 0 \<le> shot_dwell s"
    using assms(1) by (auto simp: timeline_ok_def)
  have "0 \<le> position_ms line r \<and> position_ms line r \<le> of_int (total_ms line)"
  proof (cases "current_shot line r")
    case None
    have "0 \<le> total_ms line" using contiguous_le [OF con dw] .
    then show ?thesis using None by (simp add: position_ms_def)
  next
    case (Some s)
    then have i: "0 \<le> shot_index r" "nat (shot_index r) < length (shots line)"
      "s = shots line ! nat (shot_index r)" by (auto simp: current_shot_Some)
    have b: "0 \<le> shot_start s" "shot_start s + shot_dwell s \<le> total_ms line" "0 \<le> shot_dwell s"
      using contiguous_starts [OF con dw i(2)] dw i by auto
    then have rb: "(0::real) \<le> of_int (shot_start s)" "(0::real) \<le> of_int (shot_dwell s)"
      "real_of_int (shot_start s) + of_int (shot_dwell s) \<le> of_int (total_ms line)"
      by (simp_all flip: of_int_add)
    have h: "phase r = Hold \<Longrightarrow> started_at r \<le> clock_now r"
      and p: "phase r = Paused \<and> resume_to r = Some ToHold \<Longrightarrow> 0 \<le> remaining_ms r"
      using inv by (simp_all add: runner_inv_def)
    consider "phase r = Hold" | "phase r = Paused \<and> resume_to r = Some ToHold"
      | "phase r \<noteq> Hold" "\<not> (phase r = Paused \<and> resume_to r = Some ToHold)" by blast
    then show ?thesis
    proof cases
      case 1
      then have "position_ms line r = of_int (shot_start s) + min (of_int (shot_dwell s)) (clock_now r - started_at r)"
        using Some by (simp add: position_ms_def)
      then show ?thesis using h [OF 1] rb by (simp add: min_def)
    next
      case 2
      then have "position_ms line r = of_int (shot_start s) + max 0 (of_int (shot_dwell s) - remaining_ms r)"
        using Some by (simp add: position_ms_def)
      then show ?thesis using p [OF 2] rb by (simp add: max_def)
    next
      case 3
      then have "position_ms line r = of_int (shot_start s)"
        using Some by (auto simp: position_ms_def)
      then show ?thesis using rb by simp
    qed
  qed
  moreover have "timer_ok line r" using inv by (simp add: runner_inv_def)
  ultimately show ?thesis using inv reachable_told [OF assms(2)]
    unfolding runner_inv_def timer_ok_def dwell_at_def told_ok_def by (simp split: if_splits) blast+
qed

section \<open>An undisturbed play\<close>

text \<open>The clock runs to the due time and the timer fires, \<open>n\<close> times.\<close>

definition tick :: "timeline \<Rightarrow> real \<Rightarrow> runner \<Rightarrow> runner" where
  "tick line travelMs r =
     (case timer r of None \<Rightarrow> r
      | Some (due, act) \<Rightarrow> fire line travelMs (r\<lparr>clock_now := max (clock_now r) due\<rparr>))"

fun ticks :: "timeline \<Rightarrow> real \<Rightarrow> nat \<Rightarrow> runner \<Rightarrow> runner" where
  "ticks line travelMs 0 r = r"
| "ticks line travelMs (Suc n) r = ticks line travelMs n (tick line travelMs r)"

text \<open>A runner that has just set off for shot \<open>i\<close>, to hold it from \<open>off\<close> on.\<close>

definition on_way :: "timeline \<Rightarrow> real \<Rightarrow> nat \<Rightarrow> real \<Rightarrow> runner \<Rightarrow> bool" where
  "on_way line travelMs i off r \<longleftrightarrow>
     phase r = Travel \<and> shot_index r = int i \<and> \<not> aborted r \<and>
     timer r = Some (clock_now r + max 0 travelMs, DoHold off)"

lemma select_on_way:
  assumes "i < length (shots line)" and "\<not> aborted r"
  shows "on_way line travelMs i off (select line travelMs (int i) off r) \<and>
    travelled (select line travelMs (int i) off r) = travelled r @ [(shots line ! i, int i)] \<and>
    clock_now (select line travelMs (int i) off r) = clock_now r"
proof -
  have "current_shot line (r\<lparr>shot_index := int i\<rparr>) = Some (shots line ! i)"
    using assms(1) by (simp add: current_shot_Some)
  then show ?thesis using assms by (simp add: select_def Let_def wait_def on_way_def)
qed

lemma tick_tick:
  assumes "on_way line travelMs i off r" and "i < length (shots line)"
    and "off \<le> of_int (shot_dwell (shots line ! i))"
  shows "\<exists>r'. tick line travelMs (tick line travelMs r) = next_shot line travelMs r' \<and>
    shot_index r' = int i \<and> \<not> aborted r' \<and> travelled r' = travelled r \<and>
    clock_now r' = clock_now r + max 0 travelMs + (of_int (shot_dwell (shots line ! i)) - off)"
proof -
  let ?d = "real_of_int (shot_dwell (shots line ! i)) - off"
  let ?r0 = "clear_timer (r\<lparr>clock_now := clock_now r + max 0 travelMs\<rparr>)"
  have t1: "tick line travelMs r = hold line off ?r0"
    using assms(1) by (simp add: tick_def fire_def on_way_def)
  have s: "current_shot line ?r0 = Some (shots line ! i)"
    using assms(1,2) by (simp add: current_shot_Some on_way_def clear_timer_def)
  let ?r1 = "hold line off ?r0"
  have r1: "timer ?r1 = Some (clock_now r + max 0 travelMs + ?d, DoNext)" "shot_index ?r1 = int i"
    "\<not> aborted ?r1" "travelled ?r1 = travelled r" "clock_now ?r1 = clock_now r + max 0 travelMs"
    using assms(1,3) s by (simp_all add: hold_def Let_def wait_def on_way_def) (simp_all add: clear_timer_def)
  have "tick line travelMs ?r1 =
      next_shot line travelMs (clear_timer (?r1\<lparr>clock_now := clock_now r + max 0 travelMs + ?d\<rparr>))"
    using r1(1,5) assms(3) by (simp add: tick_def fire_def)
  then show ?thesis
    using r1 unfolding t1 by (intro exI [of _ "clear_timer (?r1\<lparr>clock_now := clock_now r + max 0 travelMs + ?d\<rparr>)"])
      (simp add: clear_timer_def)
qed

lemma play_from:
  assumes "on_way line travelMs i off r" and "i < length (shots line)"
    and "off \<le> of_int (shot_dwell (shots line ! i))" and "\<forall>s \<in> set (shots line). 0 \<le> shot_dwell s"
  shows "let n = length (shots line) - i; r' = ticks line travelMs (2 * n) r
    in phase r' = Complete \<and> timer r' = None \<and>
      travelled r' = travelled r @ map (\<lambda>k. (shots line ! k, int k)) [Suc i..<length (shots line)] \<and>
      clock_now r' = clock_now r + real n * max 0 travelMs +
        of_int (sum_list (map shot_dwell (drop i (shots line)))) - off"
  using assms
proof (induction "length (shots line) - Suc i" arbitrary: i off r)
  case 0
  then have n: "length (shots line) - i = 1" by simp
  have "drop i (shots line) = [shots line ! i]"
    using 0 by (metis Cons_nth_drop_Suc drop_all diff_is_0_eq)
  moreover obtain r' where "tick line travelMs (tick line travelMs r) = next_shot line travelMs r'"
    "shot_index r' = int i" "\<not> aborted r'" "travelled r' = travelled r"
    "clock_now r' = clock_now r + max 0 travelMs + (of_int (shot_dwell (shots line ! i)) - off)"
    using tick_tick [OF 0(2-4)] by auto
  moreover have "int (length (shots line)) \<le> int i + 1" using n by linarith
  ultimately show ?case
    using 0 n by (simp add: numeral_2_eq_2 next_shot_def complete_def Let_def) (simp add: clear_timer_def)
next
  case (Suc m)
  have i: "Suc i < length (shots line)" using Suc.hyps(2) by simp
  obtain r' where r': "tick line travelMs (tick line travelMs r) = next_shot line travelMs r'"
    "shot_index r' = int i" "\<not> aborted r'" "travelled r' = travelled r"
    "clock_now r' = clock_now r + max 0 travelMs + (of_int (shot_dwell (shots line ! i)) - off)"
    using tick_tick [OF Suc.prems(1-3)] by auto
  let ?r2 = "select line travelMs (int (Suc i)) 0 r'"
  have two: "tick line travelMs (tick line travelMs r) = ?r2"
    using r' i by (simp add: next_shot_def algebra_simps)
  note sel = select_on_way [OF i r'(3), of travelMs 0]
  have d: "(0::real) \<le> of_int (shot_dwell (shots line ! Suc i))" using Suc.prems(4) i by simp
  define n where "n = length (shots line) - Suc i"
  have n: "length (shots line) - i = Suc n" using i by (simp add: n_def)
  have ticks: "ticks line travelMs (2 * Suc n) r = ticks line travelMs (2 * n) ?r2"
    by (simp add: two)
  have "drop i (shots line) = shots line ! i # drop (Suc i) (shots line)"
    using Suc.prems(2) by (rule Cons_nth_drop_Suc [symmetric])
  moreover have "[Suc i..<length (shots line)] = Suc i # [Suc (Suc i)..<length (shots line)]"
    using i by (rule upt_conv_Cons)
  moreover have "m = length (shots line) - Suc (Suc i)" using Suc.hyps(2) by simp
  note IH = Suc.hyps(1) [OF this conjunct1 [OF sel] i d Suc.prems(4), unfolded Let_def, folded n_def]
  ultimately show ?case
    using sel r'(4,5) unfolding n Let_def ticks by (simp add: IH algebra_simps del: of_nat_Suc) (simp add: algebra_simps)
qed

lemma contiguous_rest:
  "contiguous c ss f \<Longrightarrow> i < length ss \<Longrightarrow> shot_start (ss ! i) + sum_list (map shot_dwell (drop i ss)) = f"
proof (induction ss arbitrary: c i)
  case (Cons s ss)
  then show ?case using contiguous_sum [of c "s # ss" f] by (cases i) auto
qed simp

text \<open>
  C18: Left alone, a runner that is started at any position, whatever it did before, as long as it
  was not aborted, travels to the shot at that position and then to every later shot once and in
  order, completes with nothing left scheduled, and takes the time of these travels and of what is
  left of the timeline.
\<close>

theorem runner_completes:
  assumes "timeline_ok line" and "shots line \<noteq> []" and "\<not> aborted r"
  shows "let i = nat (fst (seek_timeline line fromMs)); n = length (shots line) - i;
      r' = ticks line travelMs (2 * n) (rn_start line travelMs fromMs r)
    in phase r' = Complete \<and> timer r' = None \<and>
      travelled r' = travelled r @ map (\<lambda>k. (shots line ! k, int k)) [i..<length (shots line)] \<and>
      clock_now r' = clock_now r + real n * max 0 travelMs +
        (of_int (total_ms line) - min (max 0 fromMs) (of_int (total_ms line)))"
proof -
  obtain at' off where s: "seek_timeline line fromMs = (at', off)" by (metis prod.exhaust)
  define i where "i = nat at'"
  have sp: "0 \<le> at'" "at' < int (length (shots line))" "off \<le> of_int (shot_dwell (shots line ! i))"
    "of_int (shot_start (shots line ! i)) + off = min (max 0 fromMs) (of_int (total_ms line))"
    using seek_timeline_spec [OF assms(1,2), of fromMs] by (simp_all add: s i_def)
  have at': "at' = int i" and n: "i < length (shots line)" using sp(1,2) by (simp_all add: i_def)
  have con: "contiguous 0 (shots line) (total_ms line)"
    and dw: "\<forall>s \<in> set (shots line). 0 \<le> shot_dwell s"
    using assms(1) by (auto simp: timeline_ok_def)
  have start: "rn_start line travelMs fromMs r = select line travelMs (int i) off r"
    using assms(2) s by (simp add: rn_start_def at')
  note sel = select_on_way [OF n assms(3), of travelMs off]
  have "[i..<length (shots line)] = i # [Suc i..<length (shots line)]" using n by (rule upt_conv_Cons)
  moreover have "real_of_int (sum_list (map shot_dwell (drop i (shots line)))) =
      of_int (total_ms line) - of_int (shot_start (shots line ! i))"
    using contiguous_rest [OF con n] by linarith
  ultimately show ?thesis
    using play_from [OF conjunct1 [OF sel] n sp(3) dw] sel sp(4)
    by (simp add: Let_def start s i_def [symmetric])
qed

theorem runner_completes_witness:
  "phase (ticks sample_timeline 400 2 (rn_start sample_timeline 400 7000 (create_runner 0))) = Complete \<and>
   clock_now (ticks sample_timeline 400 2 (rn_start sample_timeline 400 7000 (create_runner 0))) = 3400"
proof -
  have "seek_timeline sample_timeline 7000 = (1, 1000)"
    by (simp add: seek_timeline_def sample_timeline_def numeral_2_eq_2)
  then show ?thesis
    using runner_completes [OF sample_timeline_ok, of "create_runner 0" 7000 400]
    by (simp add: Let_def) (simp add: create_runner_def)
qed

theorem runner_invariant_witness:
  "position_ms sample_timeline (rn_start sample_timeline 400 7000 (create_runner 0)) \<le> 10000"
proof -
  have "reachable sample_timeline 400 (rn_start sample_timeline 400 7000 (create_runner 0))"
    by (rule reach_step [OF reach_init step_start])
  then show ?thesis using runner_invariant [of sample_timeline 400] by force
qed

section \<open>Where the code falls short\<close>

lemma hold_fields:
  assumes "current_shot line r = Some s" and "0 \<le> shot_dwell s"
  shows "phase (hold line 0 r) = Hold \<and> length_ms (hold line 0 r) = of_int (shot_dwell s) \<and>
    started_at (hold line 0 r) = clock_now r \<and> clock_now (hold line 0 r) = clock_now r \<and>
    current_shot line (hold line 0 r) = Some s"
  using assms by (simp add: hold_def wait_def Let_def current_shot_def)

text \<open>
  a hold that is paused after \<open>a\<close> milliseconds and resumed counts them twice: at the next
  pause, \<open>b\<close> milliseconds later, the time left is the dwell less \<open>2 a + b\<close>, and not less \<open>a + b\<close>.
\<close>

theorem second_pause_counts_twice:
  assumes "current_shot line r = Some s" and "0 \<le> a" and "a \<le> of_int (shot_dwell s)" and "0 \<le> b"
  shows "remaining_ms (rn_pause line (elapse a (hold line 0 r))) = of_int (shot_dwell s) - a \<and>
    remaining_ms (rn_pause line (elapse b (rn_resume line (rn_pause line (elapse a (hold line 0 r)))))) =
      max 0 (of_int (shot_dwell s) - 2 * a - b)"
proof -
  have d: "0 \<le> shot_dwell s" using assms(2,3) by (metis of_int_0_le_iff order_trans)
  note h = hold_fields [OF assms(1) d]
  define r1 where "r1 = rn_pause line (elapse a (hold line 0 r))"
  have r1: "phase r1 = Paused" "resume_to r1 = Some ToHold" "current_shot line r1 = Some s"
    "remaining_ms r1 = of_int (shot_dwell s) - a"
    using h assms(3) by (simp_all add: r1_def rn_pause_def elapse_def clear_timer_def current_shot_def)
  define r2 where "r2 = rn_resume line r1"
  have "current_shot line (r1\<lparr>resume_to := None\<rparr>) = Some s" using r1(3) by (simp add: current_shot_def)
  then have r2: "phase r2 = Hold" "length_ms r2 = of_int (shot_dwell s) - a"
    "started_at r2 = clock_now r2 - a"
    using r1 by (simp_all add: r2_def rn_resume_def Let_def wait_def)
  have "remaining_ms (rn_pause line (elapse b r2)) = max 0 (of_int (shot_dwell s) - 2 * a - b)"
    using r2 by (simp add: rn_pause_def elapse_def clear_timer_def)
  then show ?thesis using r1(4) by (simp add: r1_def r2_def)
qed

theorem second_pause_counts_twice_witness:
  "remaining_ms (rn_pause sample_timeline (elapse 1000 (rn_resume sample_timeline (rn_pause sample_timeline
     (elapse 4000 (hold sample_timeline 0 ((create_runner 0)\<lparr>shot_index := 0\<rparr>))))))) = 0"
  using second_pause_counts_twice [of sample_timeline "(create_runner 0)\<lparr>shot_index := 0\<rparr>"
      "\<lparr>shot_card = ''bbc'', shot_item = Some ''a'', shot_title = ''x'', shot_dwell = 6000, shot_start = 0\<rparr>" 4000 1000]
  by (simp add: current_shot_def elem_at_def sample_timeline_def)

text \<open>
  The change to a hold is told before the hold begins: the position the caller gets is the time of
  the travel into the shot, not the offset the runner was started or sought at.
\<close>

lemma hold_tells_travel_time:
  "let r = tick sample_timeline 400 (rn_start sample_timeline 400 7000 (create_runner 0))
   in last (told r) = (Hold, 1, 6400) \<and> position_ms sample_timeline r = 7000"
  by (simp add: Let_def rn_start_def tick_def runner_ops seek_timeline_def position_ms_def
      current_shot_def elem_at_def sample_timeline_def create_runner_def)

text \<open>
  a runner that was stopped and started again no longer listens to its abort signal: an
  abort leaves it running, and the next change of shot leaves it holding without a timer.
\<close>

theorem abort_after_restart:
  "let r1 = tick sample_timeline 400 (rn_start sample_timeline 400 0
        (rn_stop sample_timeline (rn_start sample_timeline 400 0 (create_runner 0))));
      r2 = rn_abort sample_timeline r1; r3 = tick sample_timeline 400 r2
   in phase r2 = Hold \<and> timer r2 \<noteq> None \<and> phase r3 = Hold \<and> timer r3 = None"
  by (simp add: Let_def rn_start_def rn_stop_def rn_abort_def tick_def runner_ops seek_timeline_def
      current_shot_def elem_at_def sample_timeline_def create_runner_def)

end
