(* ===== verification/Holds.thy ===== *)
theory Holds
  imports Prelude "HOL-Library.Multiset"
begin

text \<open>
  The hold registry (\<open>news-core/src/holds.ts\<close>). The map of counts is an association list in
  insertion order (a deleted owner that takes again goes to the end). Every \<open>take\<close> returns a
  release; it is the number of the take, and \<open>releases\<close> keeps the owner of each and whether it
  was used (the closure's \<open>released\<close> flag). \<open>emitted\<close> counts the notifications.
\<close>

section \<open>Definitions\<close>

record hold_registry =
  holds :: "(string \<times> int) list"
  releases :: "(string \<times> bool) list"
  visible :: bool
  reduced_motion :: bool
  emitted :: nat

definition create_hold_registry :: hold_registry where
  "create_hold_registry =
     \<lparr>holds = [], releases = [], visible = True, reduced_motion = False, emitted = 0\<rparr>"

definition hold_of :: "hold_registry \<Rightarrow> string \<Rightarrow> int" where
  "hold_of r owner = or_else (map_of (holds r) owner) 0"

definition emit_hold :: "hold_registry \<Rightarrow> hold_registry" where
  "emit_hold r = r\<lparr>emitted := emitted r + 1\<rparr>"

text \<open>\<open>take\<close>: the registry and the number of the release it returns.\<close>

definition take_hold :: "string \<Rightarrow> hold_registry \<Rightarrow> hold_registry \<times> nat" where
  "take_hold owner r =
     (emit_hold (r\<lparr>holds := map_set owner (hold_of r owner + 1) (holds r),
                   releases := releases r @ [(owner, False)]\<rparr>),
      length (releases r))"

definition release_hold :: "nat \<Rightarrow> hold_registry \<Rightarrow> hold_registry" where
  "release_hold h r =
     (if h \<ge> length (releases r) \<or> snd (releases r ! h) then r
      else
        (let owner = fst (releases r ! h); n = hold_of r owner - 1;
             r1 = r\<lparr>releases := (releases r)[h := (owner, True)]\<rparr>
         in emit_hold (r1\<lparr>holds := (if n \<le> 0 then filter (\<lambda>(k, _). k \<noteq> owner) (holds r)
                                     else map_set owner n (holds r))\<rparr>)))"

definition hold_count :: "hold_registry \<Rightarrow> int" where
  "hold_count r = sum_list (map snd (holds r))"

definition hold_owners :: "hold_registry \<Rightarrow> string list" where
  "hold_owners r = map fst (holds r)"

definition set_visible :: "bool \<Rightarrow> hold_registry \<Rightarrow> hold_registry" where
  "set_visible b r = (if b = visible r then r else emit_hold (r\<lparr>visible := b\<rparr>))"

definition set_reduced_motion :: "bool \<Rightarrow> hold_registry \<Rightarrow> hold_registry" where
  "set_reduced_motion b r =
     (if b = reduced_motion r then r else emit_hold (r\<lparr>reduced_motion := b\<rparr>))"

definition can_animate :: "bool \<Rightarrow> hold_registry \<Rightarrow> bool" where
  "can_animate onscreen r \<longleftrightarrow> \<not> reduced_motion r \<and> visible r \<and> onscreen"

definition should_animate :: "string option \<Rightarrow> bool \<Rightarrow> hold_registry \<Rightarrow> bool" where
  "should_animate owner onscreen r =
     (if reduced_motion r \<or> \<not> visible r \<or> \<not> onscreen then False
      else (case owner of Some k \<Rightarrow> hold_of r k > 0 | None \<Rightarrow> hold_count r > 0))"

datatype hold_op = TakeHold string | ReleaseHold nat | SetVisible bool | SetReduced bool

fun hold_step :: "hold_op \<Rightarrow> hold_registry \<Rightarrow> hold_registry" where
  "hold_step (TakeHold owner) r = fst (take_hold owner r)"
| "hold_step (ReleaseHold h) r = release_hold h r"
| "hold_step (SetVisible b) r = set_visible b r"
| "hold_step (SetReduced b) r = set_reduced_motion b r"

definition run_holds :: "hold_op list \<Rightarrow> hold_registry" where
  "run_holds ops = fold hold_step ops create_hold_registry"

section \<open>The count is the number of releases not yet used\<close>

definition live_holds :: "hold_registry \<Rightarrow> string \<Rightarrow> nat" where
  "live_holds r owner = length (filter (\<lambda>(k, used). k = owner \<and> \<not> used) (releases r))"

definition holds_ok :: "hold_registry \<Rightarrow> bool" where
  "holds_ok r \<longleftrightarrow> distinct (map fst (holds r)) \<and> (\<forall>(k, n) \<in> set (holds r). 0 < n) \<and>
     (\<forall>k. hold_of r k = int (live_holds r k))"

lemma map_of_drop_key: "map_of (filter (\<lambda>(k, _). k \<noteq> o') xs) = (map_of xs)(o' := None)"
  by (induction xs) (auto simp: fun_eq_iff)

lemma count_update_used:
  "h < length rs \<Longrightarrow> rs ! h = (k, False) \<Longrightarrow>
   int (length (filter (\<lambda>(x, used). x = y \<and> \<not> used) (rs[h := (k, True)]))) =
   int (length (filter (\<lambda>(x, used). x = y \<and> \<not> used) rs)) - (if y = k then 1 else 0)"
proof (induction rs arbitrary: h)
  case (Cons a rs)
  then show ?case by (cases h) auto
qed simp

lemma take_ok: "holds_ok r \<Longrightarrow> holds_ok (fst (take_hold owner r))"
  using distinct_put set_put
  by (fastforce simp: holds_ok_def take_hold_def emit_hold_def hold_of_def live_holds_def map_of_put)

lemma release_ok:
  assumes ok: "holds_ok r"
  shows "holds_ok (release_hold h r)"
proof (cases "h \<ge> length (releases r) \<or> snd (releases r ! h)")
  case True
  then show ?thesis using ok by (simp add: release_hold_def)
next
  case False
  let ?k = "fst (releases r ! h)"
  have h: "h < length (releases r)" "releases r ! h = (?k, False)" using False by (auto simp: prod_eq_iff)
  have live: "hold_of r k = int (live_holds r k)" for k using ok by (simp add: holds_ok_def)
  let ?n = "hold_of r ?k - 1"
  let ?hs = "if ?n \<le> 0 then filter (\<lambda>(k, _). k \<noteq> ?k) (holds r) else map_set ?k ?n (holds r)"
  have "(?k, False) \<in> set (filter (\<lambda>(k, used). k = ?k \<and> \<not> used) (releases r))"
    using h nth_mem by force
  then have "live_holds r ?k \<noteq> 0" unfolding live_holds_def by (metis length_0_conv list.set(1) empty_iff)
  then have n0: "0 \<le> ?n" using live [of ?k] by simp
  have val: "or_else (map_of ?hs k) 0 = (if k = ?k then ?n else hold_of r k)" for k
    using n0 by (simp add: map_of_drop_key map_of_put hold_of_def)
  have d: "distinct (map fst ?hs)"
    using ok distinct_put by (auto simp: holds_ok_def intro!: distinct_map_filter)
  have "0 < m" if "(k, m) \<in> set ?hs" for k m
  proof (cases "?n \<le> 0")
    case True
    then show ?thesis using that ok by (auto simp: holds_ok_def)
  next
    case False
    then have "(k, m) \<in> set (holds r) \<or> (k = ?k \<and> m = ?n)" using that set_put by simp
    then show ?thesis using False ok by (auto simp: holds_ok_def)
  qed
  then have p: "\<forall>(k, n) \<in> set ?hs. 0 < n" by blast
  have cnt: "int (length (filter (\<lambda>(x, used). x = k \<and> \<not> used) ((releases r)[h := (?k, True)]))) =
      (if k = ?k then ?n else hold_of r k)" for k
    using count_update_used [OF h, of k] live [of k] live [of ?k] by (auto simp: live_holds_def)
  have "release_hold h r = emit_hold (r\<lparr>releases := (releases r)[h := (?k, True)], holds := ?hs\<rparr>)"
    using False by (simp add: release_hold_def Let_def)
  then show ?thesis
    using d p val cnt by (simp add: holds_ok_def emit_hold_def hold_of_def live_holds_def)
qed

lemma flags_ok: "holds_ok r \<Longrightarrow> holds_ok (set_visible b r)" "holds_ok r \<Longrightarrow> holds_ok (set_reduced_motion b r)"
  by (simp_all add: set_visible_def set_reduced_motion_def emit_hold_def holds_ok_def hold_of_def live_holds_def)

lemma run_holds_ok: "holds_ok (run_holds ops)"
proof -
  have "holds_ok r \<Longrightarrow> holds_ok (fold hold_step ops r)" for r
  proof (induction ops arbitrary: r)
    case (Cons a ops)
    have "holds_ok (hold_step a r)"
      using Cons.prems by (cases a) (simp_all add: take_ok release_ok flags_ok)
    then show ?case using Cons.IH by simp
  qed simp
  moreover have "holds_ok create_hold_registry"
    by (simp add: create_hold_registry_def holds_ok_def hold_of_def live_holds_def)
  ultimately show ?thesis by (simp add: run_holds_def)
qed

lemma count_pos:
  assumes "holds_ok r"
  shows "0 < hold_count r \<longleftrightarrow> (\<exists>k. 0 < hold_of r k)"
proof -
  have pos: "\<forall>(k, n) \<in> set (holds r). 0 < n" using assms by (simp add: holds_ok_def)
  show ?thesis
  proof (cases "holds r")
    case Nil
    then show ?thesis by (simp add: hold_count_def hold_of_def)
  next
    case (Cons p ps)
    obtain k n where p: "p = (k, n)" by (cases p)
    have "0 < n" using pos Cons p by auto
    moreover have "0 \<le> sum_list (map snd ps)" using pos Cons by (intro sum_list_nonneg) fastforce
    ultimately have "0 < hold_count r" using Cons p by (simp add: hold_count_def)
    moreover have "0 < hold_of r k" using Cons p \<open>0 < n\<close> by (simp add: hold_of_def)
    ultimately show ?thesis by blast
  qed
qed

text \<open>
  After any run, an owner's animation should run exactly when the tab is visible, motion is
  allowed, it is on screen and one of its holds is still unreleased; without an owner, when any
  hold is. Releasing a second time changes nothing.
\<close>

theorem should_animate_iff:
  "should_animate owner onscreen (run_holds ops) \<longleftrightarrow>
     can_animate onscreen (run_holds ops) \<and>
     (\<exists>k. (owner = None \<or> owner = Some k) \<and> 0 < live_holds (run_holds ops) k)"
proof -
  have ok: "holds_ok (run_holds ops)" by (rule run_holds_ok)
  then have live: "hold_of (run_holds ops) k = int (live_holds (run_holds ops) k)" for k
    by (simp add: holds_ok_def)
  show ?thesis
    using count_pos [OF ok] live by (cases owner) (auto simp: should_animate_def can_animate_def)
qed

theorem release_twice: "release_hold h (release_hold h r) = release_hold h r"
  by (auto simp: release_hold_def Let_def emit_hold_def)

end
