(* ===== verification/Wall_Theme.thy ===== *)
theory Wall_Theme
  imports Prelude
begin

text \<open>
  The theme wheel (\<open>news-core/src/wallTheme.ts\<close>): the editions, the ids they shipped under
  before, and the looks. A filter parameter is the integer number of hundredths that the
  table writes as a decimal. An id that names a property every object inherits finds a
  function in the legacy table, which equals no edition id, so it lands on the default like
  any unknown id.
\<close>

section \<open>Editions\<close>

record wall_edition =
  ed_id :: string
  ed_label :: string
  chrome_light :: string
  chrome_dark :: string
  accent :: string

definition wall_editions :: "wall_edition list" where
  "wall_editions =
     [\<lparr>ed_id = ''midnight'', ed_label = ''Midnight'', chrome_light = ''#eeeeee'', chrome_dark = ''#191617'', accent = ''#e81c2e''\<rparr>,
      \<lparr>ed_id = ''tide'', ed_label = ''Tide'', chrome_light = ''#dceefa'', chrome_dark = ''#08324f'', accent = ''#21a1d6''\<rparr>,
      \<lparr>ed_id = ''neon'', ed_label = ''Neon'', chrome_light = ''#fae4f0'', chrome_dark = ''#2b1322'', accent = ''#ff2f98''\<rparr>,
      \<lparr>ed_id = ''phosphor'', ed_label = ''Phosphor'', chrome_light = ''#dff4e7'', chrome_dark = ''#04140b'', accent = ''#1fe266''\<rparr>,
      \<lparr>ed_id = ''dune'', ed_label = ''Dune'', chrome_light = ''#f2ddc0'', chrome_dark = ''#211610'', accent = ''#dfa053''\<rparr>]"

definition default_edition_id :: string where
  "default_edition_id = ''midnight''"

definition legacy_edition_ids :: "(string \<times> string) list" where
  "legacy_edition_ids =
     [(''ruby'', ''midnight''), (''dark'', ''midnight''), (''daybreak'', ''dune''), (''light'', ''dune''),
      (''technical'', ''dune''), (''studio-showroom'', ''dune''), (''beach'', ''dune''),
      (''clay-sunrise'', ''dune''), (''blue'', ''tide''), (''pink'', ''neon''), (''terminal'', ''phosphor'')]"

definition find_edition :: "string option \<Rightarrow> wall_edition option" where
  "find_edition i = find (\<lambda>e. Some (ed_id e) = i) wall_editions"

definition default_edition :: wall_edition where
  "default_edition = hd (filter (\<lambda>e. ed_id e = default_edition_id) wall_editions)"

definition normalize_edition :: "string option \<Rightarrow> wall_edition" where
  "normalize_edition i =
     (let canonical = map_option (\<lambda>s. or_else (map_of legacy_edition_ids s) s) (truthy i)
      in or_else (find_edition canonical) default_edition)"

definition is_edition_id :: "string \<Rightarrow> bool" where
  "is_edition_id i \<longleftrightarrow> list_ex (\<lambda>e. ed_id e = i) wall_editions"

section \<open>Looks\<close>

record wall_look =
  look_id :: string
  look_label :: string
  grayscale :: int
  contrast :: int
  sepia :: int
  brightness :: int
  vignette :: bool
  grain :: bool
  scanlines :: bool
  tint :: "string option"

definition plain_look_id :: string where
  "plain_look_id = ''plain''"

definition wall_looks :: "wall_look list" where
  "wall_looks =
     [\<lparr>look_id = plain_look_id, look_label = ''Plain'', grayscale = 0, contrast = 100, sepia = 0, brightness = 100,
       vignette = False, grain = False, scanlines = False, tint = None\<rparr>,
      \<lparr>look_id = ''noir'', look_label = ''Noir'', grayscale = 100, contrast = 115, sepia = 15, brightness = 95,
       vignette = True, grain = True, scanlines = False, tint = None\<rparr>,
      \<lparr>look_id = ''night'', look_label = ''Night'', grayscale = 0, contrast = 100, sepia = 0, brightness = 100,
       vignette = False, grain = False, scanlines = False, tint = None\<rparr>]"

definition normalize_look :: "string option \<Rightarrow> wall_look" where
  "normalize_look i = or_else (find (\<lambda>l. Some (look_id l) = i) wall_looks) (hd wall_looks)"

definition is_look_id :: "string \<Rightarrow> bool" where
  "is_look_id i \<longleftrightarrow> list_ex (\<lambda>l. look_id l = i) wall_looks"

text \<open>A number of hundredths as the language prints the decimal.\<close>

definition show_centi :: "int \<Rightarrow> string" where
  "show_centi n =
     show_int (n div 100) @
     (if n mod 100 = 0 then []
      else if n mod 10 = 0 then ''.'' @ show_int (n mod 100 div 10)
      else ''.'' @ show_int (n mod 100 div 10) @ show_int (n mod 10))"

definition look_filter :: "wall_look \<Rightarrow> string" where
  "look_filter l =
     (if look_id l = plain_look_id then ''none''
      else
        (let parts =
            (if grayscale l > 0 then [''grayscale('' @ show_centi (grayscale l) @ '')''] else []) @
            (if contrast l \<noteq> 100 then [''contrast('' @ show_centi (contrast l) @ '')''] else []) @
            (if sepia l > 0 then [''sepia('' @ show_centi (sepia l) @ '')''] else []) @
            (if brightness l \<noteq> 100 then [''brightness('' @ show_centi (brightness l) @ '')''] else [])
         in if parts \<noteq> [] then join_with '' '' parts else ''none''))"

section \<open>Lemmas\<close>

lemma edition_ids: "map ed_id wall_editions = [''midnight'', ''tide'', ''neon'', ''phosphor'', ''dune'']"
  by (simp add: wall_editions_def)

lemma default_edition_eq: "default_edition = hd wall_editions"
  by (simp add: default_edition_def wall_editions_def default_edition_id_def)

lemma find_edition_in: "find_edition i = Some e \<Longrightarrow> e \<in> set wall_editions \<and> i = Some (ed_id e)"
  by (auto simp: find_edition_def find_Some_iff)

lemma find_edition_all: "\<forall>e \<in> set wall_editions. find_edition (Some (ed_id e)) = Some e"
  by (simp add: find_edition_def wall_editions_def)

lemma find_edition_of: "e \<in> set wall_editions \<Longrightarrow> find_edition (Some (ed_id e)) = Some e"
  using find_edition_all by blast

lemma current_none_legacy: "\<forall>e \<in> set wall_editions. map_of legacy_edition_ids (ed_id e) = None"
  by (simp add: legacy_edition_ids_def wall_editions_def)

lemma current_not_legacy: "e \<in> set wall_editions \<Longrightarrow> map_of legacy_edition_ids (ed_id e) = None"
  using current_none_legacy by blast

lemma edition_id_ne: "e \<in> set wall_editions \<Longrightarrow> ed_id e \<noteq> []"
  by (auto simp: wall_editions_def)

text \<open>
  any stored or shared id gives an edition of the table; the id of an edition gives that
  edition; an id an edition shipped under before gives the edition it became; and every other
  id gives the default, so normalizing twice changes nothing.
\<close>

theorem normalize_edition_spec:
  "normalize_edition i \<in> set wall_editions \<and>
   (\<forall>e \<in> set wall_editions. normalize_edition (Some (ed_id e)) = e) \<and>
   (\<forall>(old, new) \<in> set legacy_edition_ids. is_edition_id new \<and> ed_id (normalize_edition (Some old)) = new) \<and>
   (\<forall>s. i = Some s \<longrightarrow> \<not> is_edition_id s \<longrightarrow> map_of legacy_edition_ids s = None \<longrightarrow>
      ed_id (normalize_edition i) = default_edition_id) \<and>
   normalize_edition (Some (ed_id (normalize_edition i))) = normalize_edition i"
proof -
  have default: "default_edition \<in> set wall_editions" by (simp add: default_edition_eq wall_editions_def)
  have mem: "normalize_edition j \<in> set wall_editions" for j
    using default find_edition_in by (auto simp: normalize_edition_def Let_def or_else_def split: option.splits)
  have own: "normalize_edition (Some (ed_id e)) = e" if "e \<in> set wall_editions" for e
    using that find_edition_of current_not_legacy edition_id_ne
    by (simp add: normalize_edition_def truthy_def)
  have legacy: "\<forall>(old, new) \<in> set legacy_edition_ids. is_edition_id new \<and> ed_id (normalize_edition (Some old)) = new"
    by (simp add: legacy_edition_ids_def is_edition_id_def normalize_edition_def truthy_def find_edition_def
        wall_editions_def)
  have unknown: "ed_id (normalize_edition (Some s)) = default_edition_id"
    if "\<not> is_edition_id s" "map_of legacy_edition_ids s = None" for s
  proof -
    have "find_edition (Some s) = None"
      using that(1) by (auto simp: find_edition_def find_None_iff is_edition_id_def list_ex_iff)
    moreover have "find_edition None = None" by (auto simp: find_edition_def find_None_iff)
    moreover have "ed_id default_edition = default_edition_id"
      by (simp add: default_edition_eq wall_editions_def default_edition_id_def)
    ultimately show ?thesis using that(2) by (simp add: normalize_edition_def truthy_def)
  qed
  show ?thesis using mem own legacy unknown by blast
qed

theorem normalize_edition_spec_witness:
  "ed_id (normalize_edition (Some ''terminal'')) = ''phosphor'' \<and>
   ed_id (normalize_edition (Some ''no-such'')) = default_edition_id"
  using normalize_edition_spec [of "Some ''no-such''"]
  by (simp add: legacy_edition_ids_def is_edition_id_def wall_editions_def)

theorem look_filters:
  "map look_filter wall_looks =
     [''none'', ''grayscale(1) contrast(1.15) sepia(0.15) brightness(0.95)'', ''none'']"
  by code_simp

end
