(* ===== verification/Refresher.thy ===== *)
theory Refresher
  imports Json
begin

text \<open>
  The app's session refresher (\<open>apps/app/auth/refresher.ts\<close>) and the middleware that
  drives it (\<open>refreshMiddleware.ts\<close>).

  The module variables are the record \<open>refresher\<close>. The asynchronous refresh is two steps:
  \<open>refresh_access_token\<close> starts it (or joins the one in flight) and \<open>settle_ok\<close> or
  \<open>settle_fail\<close> is its continuation, once the token endpoint answered; between the two any
  other operation may run. The current time is an argument. \<open>sessions\<close> records the calls of
  \<open>setSession\<close>, \<open>calls\<close> and \<open>settled\<close> count the requests to the token endpoint and their
  answers. A request object has an identity (\<open>new Request\<close> makes a new one), which is what
  the map of pending bodies is keyed by.
\<close>

section \<open>The refresher\<close>

record session_data =
  sd_access :: string
  sd_refresh :: "string option"
  sd_expires :: "int option"

record refresher =
  access_token :: "string option"
  refresh_token :: "string option"
  expires_at :: "int option"
  has_set_session :: bool
  known_lifetime :: "int option"
  in_flight :: "string option"
  last_transient :: bool
  sessions :: "session_data option list"
  calls :: nat
  settled :: nat

definition init_refresher :: refresher where
  "init_refresher =
     \<lparr>access_token = None, refresh_token = None, expires_at = None, has_set_session = False,
      known_lifetime = None, in_flight = None, last_transient = False, sessions = [], calls = 0, settled = 0\<rparr>"

definition default_lifetime :: int where "default_lifetime = 60000"
definition min_refresh_margin :: int where "min_refresh_margin = 1000"
definition max_refresh_margin :: int where "max_refresh_margin = 60000"

definition configure_refresher ::
  "string option \<Rightarrow> string option \<Rightarrow> int option \<Rightarrow> int \<Rightarrow> refresher \<Rightarrow> refresher" where
  "configure_refresher acc ref expires now r =
     (let r1 = r\<lparr>access_token := acc, refresh_token := ref, expires_at := expires, has_set_session := True\<rparr>
      in case (known_lifetime r, expires) of
           (None, Some e) \<Rightarrow> if e - now > 0 then r1\<lparr>known_lifetime := Some (e - now)\<rparr> else r1
         | _ \<Rightarrow> r1)"

definition has_refresh_token :: "refresher \<Rightarrow> bool" where
  "has_refresh_token r \<longleftrightarrow> truthy (refresh_token r) \<noteq> None"

text \<open>An error the request threw, as the value whose \<open>params.error\<close> the code looks for.\<close>

definition token_error_code :: "json \<Rightarrow> string option" where
  "token_error_code err =
     (case err of
        JObj ms \<Rightarrow>
          (case map_of (rev ms) ''params'' of
             Some (JObj ps) \<Rightarrow>
               (case map_of (rev ps) ''error'' of Some (JStr c) \<Rightarrow> Some c | _ \<Rightarrow> None)
           | _ \<Rightarrow> None)
      | _ \<Rightarrow> None)"

definition should_clear_session :: "json \<Rightarrow> bool" where
  "should_clear_session err \<longleftrightarrow>
     (case token_error_code err of
        None \<Rightarrow> False
      | Some c \<Rightarrow> c \<in> set [''invalid_grant'', ''invalid_client'', ''unauthorized_client'',
                       ''unsupported_grant_type'', ''invalid_scope''])"

definition note_request_succeeded :: "refresher \<Rightarrow> refresher" where
  "note_request_succeeded r = r\<lparr>last_transient := False\<rparr>"

definition refresh_margin :: "refresher \<Rightarrow> int" where
  "refresh_margin r =
     max min_refresh_margin
       (min max_refresh_margin (or_else (known_lifetime r) default_lifetime div 3))"

definition is_access_token_stale :: "int \<Rightarrow> refresher \<Rightarrow> bool" where
  "is_access_token_stale now r =
     (if truthy (refresh_token r) = None then False
      else (case expires_at r of None \<Rightarrow> False | Some e \<Rightarrow> e - now < refresh_margin r))"

datatype refresh_call = ReturnsNull | Joins | Starts

definition refresh_access_token :: "refresher \<Rightarrow> refresh_call \<times> refresher" where
  "refresh_access_token r =
     (case truthy (refresh_token r) of
        None \<Rightarrow> (ReturnsNull, r)
      | Some tok \<Rightarrow>
          if \<not> has_set_session r then (ReturnsNull, r)
          else if in_flight r \<noteq> None then (Joins, r)
          else (Starts, r\<lparr>in_flight := Some tok, calls := calls r + 1\<rparr>))"

record token_response =
  tr_access :: string
  tr_refresh :: "string option"
  tr_expires_in :: "int option"

text \<open>The continuations; the result is what every caller that waits receives.\<close>

definition settle_ok :: "token_response \<Rightarrow> int \<Rightarrow> refresher \<Rightarrow> string option \<times> refresher" where
  "settle_ok resp now r =
     (case in_flight r of
        None \<Rightarrow> (None, r)
      | Some tok \<Rightarrow>
          (let ref = or_else (tr_refresh resp) tok;
               expires = map_option (\<lambda>s. now + s * 1000) (tr_expires_in resp);
               r1 = r\<lparr>access_token := Some (tr_access resp), refresh_token := Some ref, expires_at := expires\<rparr>;
               r2 = (case tr_expires_in resp of None \<Rightarrow> r1 | Some s \<Rightarrow> r1\<lparr>known_lifetime := Some (s * 1000)\<rparr>);
               r3 = r2\<lparr>sessions := sessions r2 @ [Some \<lparr>sd_access = tr_access resp, sd_refresh = Some ref, sd_expires = expires\<rparr>]\<rparr>
           in (Some (tr_access resp),
               r3\<lparr>last_transient := False, in_flight := None, settled := settled r3 + 1\<rparr>)))"

definition settle_fail :: "json \<Rightarrow> refresher \<Rightarrow> string option \<times> refresher" where
  "settle_fail err r =
     (case in_flight r of
        None \<Rightarrow> (None, r)
      | Some tok \<Rightarrow>
          (let r1 = (if \<not> should_clear_session err then r\<lparr>last_transient := True\<rparr>
                     else r\<lparr>last_transient := False, access_token := None, refresh_token := None,
                            expires_at := None, known_lifetime := None, sessions := sessions r @ [None]\<rparr>)
           in (None, r1\<lparr>in_flight := None, settled := settled r1 + 1\<rparr>)))"

section \<open>The middleware\<close>

record request =
  req_id :: nat
  req_url :: string
  req_method :: string
  authorization :: "string option"
  req_body :: "string option"
  cloneable :: bool

record middleware =
  pending_bodies :: "nat \<rightharpoonup> string"
  next_id :: nat

definition is_oauth_endpoint :: "string \<Rightarrow> bool" where
  "is_oauth_endpoint url \<longleftrightarrow>
     includes_str ''/v1/oauth2/token'' url \<or> includes_str ''/v1/oauth2/revoke'' url"

definition has_body :: "request \<Rightarrow> bool" where
  "has_body req \<longleftrightarrow> req_method req \<noteq> ''GET'' \<and> req_method req \<noteq> ''HEAD''"

definition bearer :: "string \<Rightarrow> string" where
  "bearer tok = ''Bearer '' @ tok"

text \<open>\<open>new Request(request)\<close> with the header set.\<close>

definition with_token :: "string \<Rightarrow> request \<Rightarrow> middleware \<Rightarrow> request \<times> middleware" where
  "with_token tok req mw =
     (req\<lparr>req_id := next_id mw, authorization := Some (bearer tok)\<rparr>, mw\<lparr>next_id := next_id mw + 1\<rparr>)"

definition remember_body :: "request \<Rightarrow> middleware \<Rightarrow> middleware" where
  "remember_body req mw =
     (if has_body req \<and> cloneable req
      then mw\<lparr>pending_bodies := (pending_bodies mw)(req_id req \<mapsto> or_else (req_body req) [])\<rparr>
      else mw)"

text \<open>
  \<open>onRequest\<close>: the request to send and the middleware's state; \<open>refreshed\<close> is the answer of
  \<open>refreshAccessToken\<close>, awaited only when the token is stale.
\<close>

definition on_request ::
  "int \<Rightarrow> refresher \<Rightarrow> string option \<Rightarrow> request \<Rightarrow> middleware \<Rightarrow> request \<times> middleware" where
  "on_request now r refreshed req mw =
     (if is_oauth_endpoint (req_url req) then (req, mw)
      else
        (let mw1 = remember_body req mw
         in if has_refresh_token r \<and> is_access_token_stale now r then
              (case truthy refreshed of None \<Rightarrow> (req, mw1) | Some tok \<Rightarrow> with_token tok req mw1)
            else
              (case truthy (access_token r) of
                 None \<Rightarrow> (req, mw1)
               | Some tok \<Rightarrow>
                   if authorization req \<noteq> Some (bearer tok) then with_token tok req mw1 else (req, mw1))))"

text \<open>\<open>onResponse\<close>: the request to send again, when there is one.\<close>

definition on_response ::
  "nat \<Rightarrow> refresher \<Rightarrow> string option \<Rightarrow> request \<Rightarrow> middleware \<Rightarrow> request option" where
  "on_response status r refreshed req mw =
     (if status \<noteq> 401 \<or> is_oauth_endpoint (req_url req) \<or> \<not> has_refresh_token r then None
      else (case truthy refreshed of
          None \<Rightarrow> None
        | Some tok \<Rightarrow>
            Some \<lparr>req_id = next_id mw, req_url = req_url req, req_method = req_method req,
                  authorization = Some (bearer tok),
                  req_body = (if has_body req then pending_bodies mw (req_id req) else None),
                  cloneable = True\<rparr>))"

section \<open>Staleness\<close>

lemma refresh_margin_bounds: "1000 \<le> refresh_margin r \<and> refresh_margin r \<le> 60000"
  by (simp add: refresh_margin_def min_refresh_margin_def max_refresh_margin_def)

text \<open>
  a token is only called stale within its last minute, always within its last second,
  and never when there is nothing to refresh it with or its expiry is unknown; a token that
  has just been refreshed for a second or more is fresh, so a refresh is not followed by
  another at once.
\<close>

theorem staleness:
  "(is_access_token_stale now r \<longrightarrow> has_refresh_token r \<and> (\<exists>e. expires_at r = Some e \<and> e - now < 60000)) \<and>
   (has_refresh_token r \<longrightarrow> (\<forall>e. expires_at r = Some e \<longrightarrow> e - now < 1000 \<longrightarrow> is_access_token_stale now r)) \<and>
   (in_flight r \<noteq> None \<longrightarrow> (\<forall>s. tr_expires_in resp = Some s \<longrightarrow> 1 \<le> s \<longrightarrow>
      \<not> is_access_token_stale now (snd (settle_ok resp now r))))"
proof -
  have "\<not> is_access_token_stale now (snd (settle_ok resp now r))"
    if "in_flight r = Some tok" "tr_expires_in resp = Some s" "1 \<le> s" for tok s
  proof -
    let ?r = "snd (settle_ok resp now r)"
    have "expires_at ?r = Some (now + s * 1000)" and "known_lifetime ?r = Some (s * 1000)"
      using that by (simp_all add: settle_ok_def Let_def)
    moreover have "\<not> s * 1000 < max 1000 (min 60000 (s * 1000 div 3))"
      using that(3) by (auto simp: max_def min_def)
    ultimately show ?thesis
      by (simp add: is_access_token_stale_def refresh_margin_def min_refresh_margin_def max_refresh_margin_def)
  qed
  moreover have "is_access_token_stale now r \<Longrightarrow> has_refresh_token r \<and> (\<exists>e. expires_at r = Some e \<and> e - now < 60000)"
    using refresh_margin_bounds [of r]
    by (auto simp: is_access_token_stale_def has_refresh_token_def split: if_splits option.splits)
  moreover have "is_access_token_stale now r" if "has_refresh_token r" "expires_at r = Some e" "e - now < 1000" for e
    using that refresh_margin_bounds [of r] by (auto simp: is_access_token_stale_def has_refresh_token_def)
  ultimately show ?thesis by blast
qed

definition sample_session :: refresher where
  "sample_session = configure_refresher (Some ''old'') (Some ''r1'') (Some 5000) 4500 init_refresher"

abbreviation sample_response :: token_response where
  "sample_response \<equiv> \<lparr>tr_access = ''new'', tr_refresh = None, tr_expires_in = Some 3600\<rparr>"

theorem staleness_witness:
  "is_access_token_stale 4500 sample_session \<and>
   \<not> is_access_token_stale 4500 (snd (settle_ok sample_response 4500 (snd (refresh_access_token sample_session))))"
proof -
  have "in_flight (snd (refresh_access_token sample_session)) = Some ''r1''" by code_simp
  then show ?thesis
    using staleness [of 4500 sample_session sample_response]
      staleness [of 4500 "snd (refresh_access_token sample_session)" sample_response]
    by (simp add: sample_session_def configure_refresher_def init_refresher_def has_refresh_token_def truthy_def)
qed

section \<open>Refreshing\<close>

datatype refresher_event =
    Configure "string option" "string option" "int option" int
  | BeginRefresh | SettleOk token_response int | SettleFail json | RequestSucceeded

fun refresher_step :: "refresher_event \<Rightarrow> refresher \<Rightarrow> refresher" where
  "refresher_step (Configure a t e now) r = configure_refresher a t e now r"
| "refresher_step BeginRefresh r = snd (refresh_access_token r)"
| "refresher_step (SettleOk resp now) r = snd (settle_ok resp now r)"
| "refresher_step (SettleFail err) r = snd (settle_fail err r)"
| "refresher_step RequestSucceeded r = note_request_succeeded r"

definition run_refresher :: "refresher_event list \<Rightarrow> refresher" where
  "run_refresher evs = fold refresher_step evs init_refresher"

text \<open>The errors with which the token endpoint judges the request or the session, not its own health.\<close>

definition rejected_for_good :: "json \<Rightarrow> bool" where
  "rejected_for_good err \<longleftrightarrow>
     (\<exists>ms ps c. err = JObj ms \<and> map_of (rev ms) ''params'' = Some (JObj ps) \<and>
        map_of (rev ps) ''error'' = Some (JStr c) \<and>
        (c = ''invalid_grant'' \<or> c = ''invalid_client'' \<or> c = ''unauthorized_client'' \<or>
         c = ''unsupported_grant_type'' \<or> c = ''invalid_scope''))"

lemma should_clear_iff: "should_clear_session err \<longleftrightarrow> rejected_for_good err"
  by (auto simp: should_clear_session_def rejected_for_good_def token_error_code_def split: json.splits option.splits)

text \<open>What may happen while a refresh is under way: further callers and requests that succeed.\<close>

lemma while_in_flight:
  assumes "set others \<subseteq> {BeginRefresh, RequestSucceeded}" and "in_flight r = Some tok"
  shows "fold refresher_step others r = r \<or> fold refresher_step others r = r\<lparr>last_transient := False\<rparr>"
  using assms
proof (induction others arbitrary: r)
  case (Cons ev others)
  have "refresher_step ev r = r \<or> refresher_step ev r = r\<lparr>last_transient := False\<rparr>"
    using Cons.prems by (auto simp: refresh_access_token_def note_request_succeeded_def split: option.split)
  then show ?case using Cons.IH [of r] Cons.IH [of "r\<lparr>last_transient := False\<rparr>"] Cons.prems by fastforce
qed simp

lemma begun:
  assumes "truthy (refresh_token r) = Some tok" and "has_set_session r" and "in_flight r = None"
    and "set others \<subseteq> {BeginRefresh, RequestSucceeded}"
  shows "\<exists>b. fold refresher_step (BeginRefresh # others) r =
    r\<lparr>in_flight := Some tok, calls := calls r + 1, last_transient := b\<rparr>"
proof -
  let ?r = "r\<lparr>in_flight := Some tok, calls := calls r + 1\<rparr>"
  have "refresher_step BeginRefresh r = ?r" using assms(1-3) by (simp add: refresh_access_token_def)
  then have "fold refresher_step (BeginRefresh # others) r = ?r\<lparr>last_transient := last_transient r\<rparr> \<or>
      fold refresher_step (BeginRefresh # others) r = ?r\<lparr>last_transient := False\<rparr>"
    using while_in_flight [OF assms(4), of ?r tok] by simp
  then show ?thesis by blast
qed

text \<open>
  C22: What a refresh comes to, with any number of callers joining it and requests succeeding while
  it is under way: one request goes out, with the refresh token of the start. If it succeeds, every
  caller gets the new access token; it is installed with the new refresh token (the old one, when
  the server sent none) and with the expiry of as many seconds from now as the server said, the
  session is told all three, and the token counts as stale again from a third of its lifetime,
  at least a second and at most a minute, before its end. If the endpoint rejects it with one of
  the five codes that are final, the session is signed out and later refreshes ask nobody. Any
  other failure, an error without a code included, leaves tokens, expiry and session as they
  were, marks the failure as transient, and the next refresh starts again with the same token.
\<close>

theorem refresh_outcomes:
  fixes r others
  defines "q \<equiv> fold refresher_step (BeginRefresh # others) r"
  assumes "truthy (refresh_token r) = Some tok" and "has_set_session r" and "in_flight r = None"
    and "set others \<subseteq> {BeginRefresh, RequestSucceeded}"
  shows "calls q = calls r + 1 \<and> in_flight q = Some tok \<and>
    (case settle_ok resp now q of (res, r') \<Rightarrow>
      res = Some (tr_access resp) \<and> access_token r' = res \<and>
      refresh_token r' = Some (or_else (tr_refresh resp) tok) \<and>
      expires_at r' = map_option (\<lambda>s. now + 1000 * s) (tr_expires_in resp) \<and>
      \<not> last_transient r' \<and> in_flight r' = None \<and>
      sessions r' = sessions r @
        [Some \<lparr>sd_access = tr_access resp, sd_refresh = refresh_token r', sd_expires = expires_at r'\<rparr>] \<and>
      (\<forall>s later. tr_expires_in resp = Some s \<longrightarrow>
         (is_access_token_stale later r' \<longleftrightarrow>
            has_refresh_token r' \<and> now + 1000 * s - max 1000 (min 60000 (1000 * s div 3)) < later))) \<and>
    (case settle_fail err q of (res, r') \<Rightarrow>
      res = None \<and> in_flight r' = None \<and>
      (if rejected_for_good err
       then access_token r' = None \<and> refresh_token r' = None \<and> expires_at r' = None \<and>
         \<not> last_transient r' \<and> sessions r' = sessions r @ [None] \<and>
         refresh_access_token r' = (ReturnsNull, r')
       else access_token r' = access_token r \<and> refresh_token r' = refresh_token r \<and>
         expires_at r' = expires_at r \<and> last_transient r' \<and> sessions r' = sessions r \<and>
         fst (refresh_access_token r') = Starts \<and> in_flight (snd (refresh_access_token r')) = Some tok))"
proof -
  obtain b where q: "q = r\<lparr>in_flight := Some tok, calls := calls r + 1, last_transient := b\<rparr>"
    using begun [OF assms(2-5)] by (auto simp: q_def)
  have stale: "is_access_token_stale later r' \<longleftrightarrow>
      has_refresh_token r' \<and> now + 1000 * s - max 1000 (min 60000 (1000 * s div 3)) < later"
    if "settle_ok resp now q = (res, r')" "tr_expires_in resp = Some s" for res r' s later
  proof -
    have "expires_at r' = Some (now + s * 1000)" "known_lifetime r' = Some (s * 1000)"
      using that by (auto simp: q settle_ok_def Let_def)
    then show ?thesis
      by (auto simp: is_access_token_stale_def has_refresh_token_def refresh_margin_def min_refresh_margin_def
          max_refresh_margin_def mult.commute)
  qed
  have ok: "case settle_ok resp now q of (res, r') \<Rightarrow>
      res = Some (tr_access resp) \<and> access_token r' = res \<and>
      refresh_token r' = Some (or_else (tr_refresh resp) tok) \<and>
      expires_at r' = map_option (\<lambda>s. now + 1000 * s) (tr_expires_in resp) \<and>
      \<not> last_transient r' \<and> in_flight r' = None \<and>
      sessions r' = sessions r @
        [Some \<lparr>sd_access = tr_access resp, sd_refresh = refresh_token r', sd_expires = expires_at r'\<rparr>]"
    by (simp add: q settle_ok_def Let_def mult.commute split: option.split)
  have fail: "case settle_fail err q of (res, r') \<Rightarrow>
      res = None \<and> in_flight r' = None \<and>
      (if rejected_for_good err
       then access_token r' = None \<and> refresh_token r' = None \<and> expires_at r' = None \<and>
         \<not> last_transient r' \<and> sessions r' = sessions r @ [None] \<and>
         refresh_access_token r' = (ReturnsNull, r')
       else access_token r' = access_token r \<and> refresh_token r' = refresh_token r \<and>
         expires_at r' = expires_at r \<and> last_transient r' \<and> sessions r' = sessions r \<and>
         fst (refresh_access_token r') = Starts \<and> in_flight (snd (refresh_access_token r')) = Some tok)"
    using assms(2,3)
    by (simp add: q settle_fail_def should_clear_iff Let_def refresh_access_token_def) (simp add: truthy_def)
  obtain res r' where s: "settle_ok resp now q = (res, r')" by (metis prod.exhaust)
  show ?thesis using ok fail stale [OF s] unfolding s by (simp add: q)
qed

theorem refresh_outcomes_witness:
  "let q = run_refresher [Configure (Some ''old'') (Some ''r1'') (Some 5000) 4500, BeginRefresh, BeginRefresh]
   in fst (settle_ok sample_response 4600 q) = Some ''new'' \<and>
      expires_at (snd (settle_ok sample_response 4600 q)) = Some 3604600 \<and>
      access_token (snd (settle_fail (JObj []) q)) = Some ''old'' \<and>
      access_token (snd (settle_fail (JObj [(''params'', JObj [(''error'', JStr ''invalid_grant'')])]) q)) = None"
proof -
  let ?q = "fold refresher_step [BeginRefresh, BeginRefresh] sample_session"
  let ?bad = "JObj [(''params'', JObj [(''error'', JStr ''invalid_grant'')])]"
  have s: "truthy (refresh_token sample_session) = Some ''r1''" "has_set_session sample_session"
    "in_flight sample_session = None" "access_token sample_session = Some ''old''"
    by (simp_all add: sample_session_def configure_refresher_def init_refresher_def truthy_def)
  have run: "run_refresher [Configure (Some ''old'') (Some ''r1'') (Some 5000) 4500, BeginRefresh, BeginRefresh] = ?q"
    by (simp add: run_refresher_def sample_session_def)
  have j: "\<not> rejected_for_good (JObj [])" "rejected_for_good ?bad" by (simp_all add: rejected_for_good_def)
  note out = refresh_outcomes [OF s(1-3), of "[BeginRefresh]" sample_response 4600]
  show ?thesis
    using out [of "JObj []"] out [of ?bad] j unfolding Let_def run
    by (simp add: split_def s(4) del: fold_simps)
qed

lemma refresher_step_counts:
  "calls r = settled r + (if in_flight r = None then 0 else 1) \<Longrightarrow>
   calls (refresher_step ev r) =
     settled (refresher_step ev r) + (if in_flight (refresher_step ev r) = None then 0 else 1)"
  by (cases ev) (auto simp: configure_refresher_def refresh_access_token_def settle_ok_def settle_fail_def
      note_request_succeeded_def Let_def split: option.splits)

text \<open>C21: At every moment at most one request to the token endpoint is unanswered.\<close>

theorem single_flight:
  "calls (run_refresher evs) =
     settled (run_refresher evs) + (if in_flight (run_refresher evs) = None then 0 else 1)"
proof -
  have "calls (fold refresher_step evs r) = settled (fold refresher_step evs r) +
      (if in_flight (fold refresher_step evs r) = None then 0 else 1)"
    if "calls r = settled r + (if in_flight r = None then 0 else 1)" for r
    using that
  proof (induction evs arbitrary: r)
    case (Cons ev evs)
    show ?case using Cons.IH [OF refresher_step_counts [OF Cons.prems]] by simp
  qed simp
  then show ?thesis by (simp add: run_refresher_def init_refresher_def)
qed

text \<open>
  signing out while a refresh is in flight does not last: when the refresh succeeds it
  puts its tokens back and opens the session again.
\<close>

theorem sign_out_undone:
  assumes "in_flight r = Some tok"
  shows "(let r' = snd (settle_ok resp now (configure_refresher None None None t r))
     in access_token r' = Some (tr_access resp) \<and> refresh_token r' \<noteq> None \<and>
        last (sessions r') \<noteq> None)"
  using assms by (simp add: settle_ok_def configure_refresher_def Let_def split: option.splits)

theorem sign_out_undone_witness:
  "access_token (run_refresher [Configure (Some ''old'') (Some ''r1'') (Some 5000) 0, BeginRefresh,
     Configure None None None 10, SettleOk sample_response 20]) = Some ''new''"
  using sign_out_undone [of "run_refresher [Configure (Some ''old'') (Some ''r1'') (Some 5000) 0, BeginRefresh]"
      "''r1''" sample_response 20 10]
  by (simp add: run_refresher_def configure_refresher_def init_refresher_def refresh_access_token_def
      truthy_def Let_def)

section \<open>Retrying\<close>

text \<open>
  after a 401 the request is sent once more with the refreshed token. When the middleware
  sent the caller's own request on, its body goes with it; when it had replaced the request to
  put the current token on it, the body is looked up under the replacement and is lost.
\<close>

theorem retry_body:
  assumes "\<not> is_oauth_endpoint (req_url req)" and "has_body req" and "cloneable req"
    and "has_refresh_token r'" and "tok \<noteq> []" and "req_id req < next_id mw"
    and "\<forall>i \<ge> next_id mw. pending_bodies mw i = None"
  shows "(case on_request now r refreshed req mw of (sent, mw') \<Rightarrow>
     (case on_response 401 r' (Some tok) sent mw' of
        None \<Rightarrow> False
      | Some again \<Rightarrow>
          authorization again = Some (bearer tok) \<and> req_url again = req_url req \<and>
          req_method again = req_method req \<and>
          req_body again = (if req_id sent = req_id req then Some (or_else (req_body req) []) else None)))"
proof -
  obtain sent mw' where s: "on_request now r refreshed req mw = (sent, mw')" by (metis prod.exhaust)
  have "on_request now r refreshed req mw = (req, remember_body req mw) \<or>
      (\<exists>t. on_request now r refreshed req mw = with_token t req (remember_body req mw))"
    using assms(1) by (simp add: on_request_def Let_def split: option.split) blast
  then have "(sent = req \<and> mw' = remember_body req mw) \<or> (\<exists>t. (sent, mw') = with_token t req (remember_body req mw))"
    unfolding s by auto
  then have "req_url sent = req_url req \<and> req_method sent = req_method req \<and>
      pending_bodies mw' (req_id sent) =
        (if req_id sent = req_id req then Some (or_else (req_body req) []) else None)"
    using assms by (auto simp: with_token_def remember_body_def)
  then show ?thesis
    using s assms by (simp add: on_response_def truthy_def has_body_def)
qed

abbreviation sample_post :: request where
  "sample_post \<equiv> \<lparr>req_id = 0, req_url = ''/v1/news'', req_method = ''POST'',
     authorization = Some ''Bearer stale'', req_body = Some ''payload'', cloneable = True\<rparr>"

theorem retry_body_witness:
  "map_option req_body (case on_request 0 (sample_session\<lparr>expires_at := None\<rparr>) None sample_post
       \<lparr>pending_bodies = Map.empty, next_id = 1\<rparr> of
     (sent, mw') \<Rightarrow> on_response 401 (sample_session\<lparr>expires_at := None\<rparr>) (Some ''new'') sent mw') = Some None"
proof -
  let ?r = "sample_session\<lparr>expires_at := None\<rparr>" and ?mw = "\<lparr>pending_bodies = Map.empty, next_id = 1\<rparr>"
  have o: "on_request 0 ?r None sample_post ?mw =
      (sample_post\<lparr>req_id := 1, authorization := Some ''Bearer old''\<rparr>,
       \<lparr>pending_bodies = [0 \<mapsto> ''payload''], next_id = 2\<rparr>)"
    by (simp add: on_request_def is_oauth_endpoint_def starts_with_def remember_body_def has_body_def
        is_access_token_stale_def with_token_def bearer_def sample_session_def configure_refresher_def
        init_refresher_def truthy_def Let_def)
  have n: "\<not> is_oauth_endpoint (req_url sample_post)" "has_body sample_post" "cloneable sample_post"
    "has_refresh_token ?r"
    by (simp_all add: is_oauth_endpoint_def starts_with_def has_body_def has_refresh_token_def
        sample_session_def configure_refresher_def init_refresher_def truthy_def)
  show ?thesis
    using retry_body [OF n, of "''new''" ?mw 0 ?r None] unfolding o by (simp split: option.splits)
qed

end
