(* ===== verification/Storage_Mirror.thy ===== *)
theory Storage_Mirror
  imports Storage
begin

text \<open>
  The app's storage mirror (\<open>apps/app/utils/storageMirror.ts\<close>). Reads and writes are served
  by \<open>memory\<close>; the writes to the disk are fired and forgotten and recorded in \<open>disk_writes\<close>.
  The hydration is two steps: \<open>hydrate_keys\<close> asks the disk for the keys (or joins what is in
  flight) and \<open>hydrate_loaded\<close> or \<open>hydrate_failed\<close> is its continuation, so writes may come in
  between. \<open>pending\<close> is the promise the code keeps: it is dropped only by a failure.
\<close>

section \<open>Definitions\<close>

datatype disk_write = DiskSet string string | DiskRemove string

record mirror =
  memory :: "string \<rightharpoonup> string"
  dirty :: "string set"
  mirror_done :: bool
  pending :: "string list option"
  disk_writes :: "disk_write list"

definition create_storage_mirror :: mirror where
  "create_storage_mirror =
     \<lparr>memory = Map.empty, dirty = {}, mirror_done = False, pending = None, disk_writes = []\<rparr>"

definition mirror_get_item :: "mirror \<Rightarrow> string \<Rightarrow> storage_error + string option" where
  "mirror_get_item m k = Inr (memory m k)"

definition mirror_set_item :: "mirror \<Rightarrow> string \<Rightarrow> string \<Rightarrow> storage_error + mirror" where
  "mirror_set_item m k v =
     Inr (m\<lparr>memory := (memory m)(k \<mapsto> v), dirty := insert k (dirty m),
            disk_writes := disk_writes m @ [DiskSet k v]\<rparr>)"

definition mirror_remove_item :: "mirror \<Rightarrow> string \<Rightarrow> storage_error + mirror" where
  "mirror_remove_item m k =
     Inr (m\<lparr>memory := (memory m)(k := None), dirty := insert k (dirty m),
            disk_writes := disk_writes m @ [DiskRemove k]\<rparr>)"

text \<open>\<open>hydrate\<close>: whether the disk was asked, and the mirror.\<close>

definition hydrate_keys :: "string list \<Rightarrow> mirror \<Rightarrow> bool \<times> mirror" where
  "hydrate_keys keys m =
     (case pending m of Some _ \<Rightarrow> (False, m) | None \<Rightarrow> (True, m\<lparr>pending := Some keys\<rparr>))"

fun load_entries :: "(string \<times> string option) list \<Rightarrow> mirror \<Rightarrow> mirror" where
  "load_entries [] m = m"
| "load_entries ((k, v) # entries) m =
     (if k \<in> dirty m then load_entries entries m
      else load_entries entries (m\<lparr>memory := (memory m)(k := v)\<rparr>))"

definition hydrate_loaded :: "(string \<times> string option) list \<Rightarrow> mirror \<Rightarrow> mirror" where
  "hydrate_loaded entries m = (load_entries entries m)\<lparr>mirror_done := True\<rparr>"

definition hydrate_failed :: "mirror \<Rightarrow> mirror" where
  "hydrate_failed m = m\<lparr>pending := None\<rparr>"

section \<open>A storage like any other\<close>

interpretation mirrored: prefs_storage mirror_get_item mirror_set_item mirror_remove_item
  by unfold_locales (auto simp: mirror_get_item_def mirror_set_item_def mirror_remove_item_def)

text \<open>
  the welcome is offered at most once on the app as well: after the mark, or any stored
  card set, the gate over the mirror stays closed.
\<close>

theorem mirror_offers_once:
  "\<not> should_offer_starters mirror_get_item (mark_starters_offered mirror_set_item m) deep consent \<and>
   (\<forall>v m'. mirror_set_item m (pref_key KeyFocused) v = Inr m' \<longrightarrow>
      \<not> should_offer_starters mirror_get_item m' deep consent)"
  using mirrored.offered_once [of m _ deep consent] mirrored.not_offered_after_cards [of m _ _ deep consent]
  by (auto simp: mirror_set_item_def)

theorem mirror_offers_once_witness:
  "\<not> should_offer_starters mirror_get_item (mark_starters_offered mirror_set_item create_storage_mirror) False False"
  using mirror_offers_once [of create_storage_mirror False False] by blast

section \<open>Hydration\<close>

lemma load_entries_fields [simp]:
  "dirty (load_entries entries m) = dirty m" "pending (load_entries entries m) = pending m"
  "disk_writes (load_entries entries m) = disk_writes m"
  by (induction entries m rule: load_entries.induct) auto

lemma load_entries_memory:
  "distinct (map fst entries) \<Longrightarrow>
   memory (load_entries entries m) k =
     (if k \<in> dirty m then memory m k
      else case map_of entries k of Some v \<Rightarrow> v | None \<Rightarrow> memory m k)"
proof (induction entries m rule: load_entries.induct)
  case (2 k' v entries m)
  have "map_of entries k' = None" using "2.prems" by (simp add: map_of_eq_None_iff)
  then show ?case using 2 by (cases "k' \<in> dirty m"; cases "k = k'") (simp_all split: option.split)
qed simp

datatype mirror_op = MSet string string | MRemove string

fun mirror_write :: "mirror_op \<Rightarrow> mirror \<Rightarrow> mirror" where
  "mirror_write (MSet k v) m = (case mirror_set_item m k v of Inr m' \<Rightarrow> m' | Inl _ \<Rightarrow> m)"
| "mirror_write (MRemove k) m = (case mirror_remove_item m k of Inr m' \<Rightarrow> m' | Inl _ \<Rightarrow> m)"

fun op_key :: "mirror_op \<Rightarrow> string" where
  "op_key (MSet k v) = k"
| "op_key (MRemove k) = k"

lemma mirror_writes_dirty:
  "dirty (fold mirror_write ops m) = dirty m \<union> op_key ` set ops"
proof (induction ops arbitrary: m)
  case (Cons a ops)
  then show ?case by (cases a) (auto simp: mirror_set_item_def mirror_remove_item_def)
qed simp

lemma mirror_writes_other:
  "k \<notin> op_key ` set ops \<Longrightarrow> memory (fold mirror_write ops m) k = memory m k"
proof (induction ops arbitrary: m)
  case (Cons a ops)
  then show ?case by (cases a) (auto simp: mirror_set_item_def mirror_remove_item_def)
qed simp

text \<open>
  C31: Once hydration lands, a key written meanwhile keeps what was written, and every other
  key asked for has the disk's value; and a key not asked for is as it was.
\<close>

theorem hydration_keeps_writes:
  assumes "distinct (map fst entries)"
  shows "let m = fold mirror_write ops (snd (hydrate_keys keys create_storage_mirror));
      m' = hydrate_loaded entries m
    in mirror_done m' \<and> (\<forall>k. memory m' k =
         (if k \<in> op_key ` set ops then memory m k
          else case map_of entries k of Some v \<Rightarrow> v | None \<Rightarrow> None))"
proof -
  let ?m0 = "snd (hydrate_keys keys create_storage_mirror)"
  have m0: "dirty ?m0 = {}" "memory ?m0 = Map.empty"
    by (simp_all add: hydrate_keys_def create_storage_mirror_def)
  show ?thesis
    using load_entries_memory [OF assms] mirror_writes_dirty [of ops ?m0] mirror_writes_other [of _ ops ?m0] m0
    by (simp add: hydrate_loaded_def Let_def split: option.split)
qed

theorem hydration_keeps_writes_witness:
  "memory (hydrate_loaded [(''a'', Some ''disk''), (''b'', Some ''disk'')]
     (fold mirror_write [MSet ''a'' ''mine''] (snd (hydrate_keys [''a'', ''b''] create_storage_mirror)))) ''b'' = Some ''disk''"
  using hydration_keeps_writes [of "[(''a'', Some ''disk''), (''b'', Some ''disk'')]" "[MSet ''a'' ''mine'']" "[''a'', ''b'']"]
  by (simp add: Let_def)

text \<open>
  \<open>hydrate\<close> is not safe to repeat with other keys: once a hydration has begun or ended
  well, a later call asks the disk for nothing and its keys stay unread.
\<close>

theorem hydrate_again_ignored:
  "let m = hydrate_loaded entries (snd (hydrate_keys keys create_storage_mirror))
   in hydrate_keys others m = (False, m)"
  by (simp add: Let_def hydrate_keys_def hydrate_loaded_def create_storage_mirror_def)

end
