(* ===== verification/Shared_View.thy ===== *)
theory Shared_View
  imports Share_Link Wall_Theme
begin

text \<open>
  Share links on the app (\<open>apps/app/utils/shareLinks.ts\<close>) with the two appearance stores they
  reach: the edition (\<open>design-system/themeStore.ts\<close>) and the tone (\<open>toneStore.ts\<close>). The reads
  of the disk are two steps, the request and its continuation. \<open>emits\<close> counts the times
  listeners were told, \<open>saved\<close> holds the last value sent to the disk under each key.
\<close>

section \<open>The tone\<close>

datatype tone_override = System | Light | Dark

record appearance =
  edition :: string
  ed_hydrated :: bool
  ed_reading :: bool
  ed_emits :: nat
  tone :: tone_override
  tone_hydrated :: bool
  tone_reading :: bool
  tone_emits :: nat
  saved :: "string \<rightharpoonup> string"

definition tone_key :: string where "tone_key = ''news.tone''"
definition edition_key :: string where "edition_key = ''news.wallTheme''"

fun tone_name :: "tone_override \<Rightarrow> string" where
  "tone_name System = ''system''"
| "tone_name Light = ''light''"
| "tone_name Dark = ''dark''"

definition normalize_tone :: "string option \<Rightarrow> tone_override" where
  "normalize_tone v =
     (if v = Some ''light'' then Light else if v = Some ''dark'' then Dark else System)"

definition hydrate_tone :: "appearance \<Rightarrow> bool \<times> appearance" where
  "hydrate_tone a =
     (if tone_hydrated a \<or> tone_reading a then (False, a) else (True, a\<lparr>tone_reading := True\<rparr>))"

definition tone_loaded :: "string option \<Rightarrow> appearance \<Rightarrow> appearance" where
  "tone_loaded stored a =
     (let a1 = a\<lparr>tone_reading := False\<rparr>
      in if tone_hydrated a1 then a1
         else
           (let a2 = a1\<lparr>tone_hydrated := True\<rparr>; next' = normalize_tone stored
            in if next' \<noteq> tone a2 then a2\<lparr>tone := next', tone_emits := tone_emits a2 + 1\<rparr> else a2))"

definition tone_load_failed :: "appearance \<Rightarrow> appearance" where
  "tone_load_failed a = a\<lparr>tone_reading := False\<rparr>"

definition set_tone :: "tone_override \<Rightarrow> appearance \<Rightarrow> appearance" where
  "set_tone t a =
     a\<lparr>tone_hydrated := True, tone := t, saved := (saved a)(tone_key \<mapsto> tone_name t),
       tone_emits := tone_emits a + 1\<rparr>"

definition use_tone :: "bool \<Rightarrow> appearance \<Rightarrow> tone_override" where
  "use_tone os_dark a =
     (if tone a = Light \<or> tone a = Dark then tone a else if os_dark then Dark else Light)"

section \<open>The edition\<close>

definition app_edition_ids :: "string list" where
  "app_edition_ids = [''midnight'', ''tide'', ''phosphor'', ''neon'', ''dune'']"

definition retired_editions :: "(string \<times> string) list" where
  "retired_editions = [(''ruby'', ''midnight'')]"

definition app_normalize :: "string option \<Rightarrow> string" where
  "app_normalize i =
     (case truthy i of
        None \<Rightarrow> default_edition_id
      | Some s \<Rightarrow>
          (let canonical = or_else (map_of retired_editions s) s
           in if canonical \<noteq> [] \<and> canonical \<in> set app_edition_ids then canonical else default_edition_id))"

definition hydrate_edition :: "appearance \<Rightarrow> bool \<times> appearance" where
  "hydrate_edition a =
     (if ed_hydrated a \<or> ed_reading a then (False, a) else (True, a\<lparr>ed_reading := True\<rparr>))"

definition edition_loaded :: "string option \<Rightarrow> appearance \<Rightarrow> appearance" where
  "edition_loaded stored a =
     (let a1 = a\<lparr>ed_reading := False\<rparr>
      in if ed_hydrated a1 then a1
         else
           (let a2 = a1\<lparr>ed_hydrated := True\<rparr>; next' = app_normalize stored
            in if next' \<noteq> edition a2 then a2\<lparr>edition := next', ed_emits := ed_emits a2 + 1\<rparr> else a2))"

definition edition_load_failed :: "appearance \<Rightarrow> appearance" where
  "edition_load_failed a = a\<lparr>ed_reading := False\<rparr>"

definition set_edition :: "string \<Rightarrow> appearance \<Rightarrow> appearance" where
  "set_edition i a =
     (let next' = app_normalize (Some i); a1 = a\<lparr>ed_hydrated := True\<rparr>;
          a2 = (if next' \<noteq> edition a1 then a1\<lparr>edition := next', ed_emits := ed_emits a1 + 1\<rparr> else a1)
      in a2\<lparr>saved := (saved a2)(edition_key \<mapsto> edition a2)\<rparr>)"

definition cycle_edition :: "bool \<Rightarrow> appearance \<Rightarrow> appearance" where
  "cycle_edition light a =
     (if light then (let a1 = set_tone Dark a in a1\<lparr>ed_emits := ed_emits a1 + 1\<rparr>)
      else
        (let a1 = a\<lparr>ed_hydrated := True\<rparr>;
             i = index_of (edition a1) app_edition_ids;
             e = app_edition_ids ! nat ((i + 1) mod int (length app_edition_ids));
             a2 = set_tone Light (a1\<lparr>edition := e\<rparr>)
         in a2\<lparr>saved := (saved a2)(edition_key \<mapsto> e), ed_emits := ed_emits a2 + 1\<rparr>))"

section \<open>The shared view\<close>

record shared_view =
  sv_cards :: "string list"
  sv_story :: "string option"

definition empty_view :: shared_view where
  "empty_view = \<lparr>sv_cards = [], sv_story = None\<rparr>"

text \<open>\<open>view_is_empty\<close> is the identity test against the frozen \<open>EMPTY_VIEW\<close>.\<close>

record app_share =
  appear :: appearance
  view :: shared_view
  view_is_empty :: bool
  view_emits :: nat

definition clear_shared_view :: "app_share \<Rightarrow> app_share" where
  "clear_shared_view s =
     (if view_is_empty s then s
      else s\<lparr>view := empty_view, view_is_empty := True, view_emits := view_emits s + 1\<rparr>)"

definition split_address :: "string \<Rightarrow> string \<times> string" where
  "split_address url =
     (let hashAt = index_of (CHR ''#'') url;
          before = (if hashAt = -1 then url else take (nat hashAt) url);
          hash = (if hashAt = -1 then [] else drop (nat hashAt) url);
          queryAt = index_of (CHR ''?'') before;
          search = (if queryAt = -1 then [] else drop (nat queryAt) before)
      in (search, hash))"

definition app_handlers :: "restore_lane \<Rightarrow> app_share restore_handler" where
  "app_handlers lane st s =
     (case lane of
        LaneTheme \<Rightarrow>
          (Some True, case truthy (sl_edition st) of
             Some e \<Rightarrow> s\<lparr>appear := set_edition e (appear s)\<rparr> | None \<Rightarrow> s)
      | LaneCards \<Rightarrow>
          (Some (sl_cards st \<noteq> [] \<or> sl_lead st \<noteq> None),
           s\<lparr>view := \<lparr>sv_cards = sl_cards st, sv_story = sl_story st\<rparr>, view_is_empty := False,
             view_emits := view_emits s + 1\<rparr>)
      | LaneStory \<Rightarrow> (Some True, s))"

definition apply_share_address :: "string \<Rightarrow> app_share \<Rightarrow> string option \<times> app_share" where
  "apply_share_address url s =
     (let (search, hash) = split_address url;
          st = parse_share_link (Some search) (Some hash)
      in if \<not> is_share_link st then (None, s)
         else (sl_lead st, snd (restore_from_link (\<lambda>_ _. False) app_handlers st s)))"

section \<open>Lemmas\<close>

lemma index_of_takeWhile:
  "index_of c s = -1 \<and> c \<notin> set s \<or>
   c \<in> set s \<and> index_of c s = int (length (takeWhile (\<lambda>x. x \<noteq> c) s))"
  by (induction s) (auto simp: Let_def)

lemma split_address_parts: "split_address url = (url_search url, url_hash url)"
proof -
  have cut: "(if index_of c s = -1 then s else take (nat (index_of c s)) s) = takeWhile (\<lambda>x. x \<noteq> c) s \<and>
      (if index_of c s = -1 then [] else drop (nat (index_of c s)) s) = dropWhile (\<lambda>x. x \<noteq> c) s"
    for c :: char and s
  proof (cases "c \<in> set s")
    case True
    then have "index_of c s = int (length (takeWhile (\<lambda>x. x \<noteq> c) s))" using index_of_takeWhile by force
    then show ?thesis by (simp add: takeWhile_eq_take [symmetric] dropWhile_eq_drop)
  next
    case False
    then have "index_of c s = -1" by (rule index_of_absent)
    moreover have tw: "takeWhile (\<lambda>x. x \<noteq> c) s = s" using False by (auto simp: takeWhile_eq_all_conv)
    moreover have dw: "dropWhile (\<lambda>x. x \<noteq> c) s = []" using False by (auto simp: dropWhile_eq_Nil_conv)
    ultimately show ?thesis unfolding tw dw by simp
  qed
  show ?thesis
    using cut by (simp add: split_address_def Let_def url_search_def url_hash_def)
qed

lemma restored_cards_view:
  assumes "sl_cards st \<noteq> [] \<or> sl_lead st \<noteq> None"
  shows "view (snd (restore_from_link (\<lambda>_ _. False) app_handlers st s)) =
      \<lparr>sv_cards = sl_cards st, sv_story = sl_story st\<rparr> \<and>
    appear (snd (restore_from_link (\<lambda>_ _. False) app_handlers st s)) =
      (case truthy (sl_edition st) of Some e \<Rightarrow> set_edition e (appear s) | None \<Rightarrow> appear s)"
proof -
  have none: "truthy None = None" by (simp add: truthy_def)
  have cards: "run_lane (\<lambda>_ _. False) (app_handlers LaneCards) LaneCards st s' =
      (Applied, s'\<lparr>view := \<lparr>sv_cards = sl_cards st, sv_story = sl_story st\<rparr>, view_is_empty := False,
         view_emits := view_emits s' + 1\<rparr>)" for s'
    using assms by (auto simp: run_lane_def app_handlers_def)
  have story: "run_lane (\<lambda>_ _. False) (app_handlers LaneStory) LaneStory st s' = (Applied, s')" for s'
    by (simp add: run_lane_def app_handlers_def)
  show ?thesis
    using assms none
    by (simp add: restore_from_link_def cards story Let_def)
      (simp add: run_lane_def app_handlers_def split: option.split)
qed

text \<open>
  opening the link of a valid share on the app shows the sender's cards and story, opens
  its lead card and puts its edition on (the looks are ignored).
\<close>

theorem share_opens_on_app:
  assumes "valid_input inp" and "or_else (in_cards inp) [] \<noteq> [] \<or> in_lead inp \<noteq> None"
  shows "case apply_share_address (build_share_link inp) s of (lead, s') \<Rightarrow>
    lead = in_lead inp \<and> sv_cards (view s') = or_else (in_cards inp) [] \<and> sv_story (view s') = in_story inp \<and>
    appear s' = (case truthy (in_edition inp) of Some e \<Rightarrow> set_edition e (appear s) | None \<Rightarrow> appear s)"
proof -
  have st: "parse_share_link (Some (url_search (build_share_link inp))) (Some (url_hash (build_share_link inp))) =
      restored inp"
    by (rule parse_built_link [OF assms(1)])
  have "is_share_link (restored inp)" and "sl_cards (restored inp) \<noteq> [] \<or> sl_lead (restored inp) \<noteq> None"
    using assms(2) by (auto simp: is_share_link_def restored_def)
  then show ?thesis
    using restored_cards_view [of "restored inp" s]
    by (simp add: apply_share_address_def split_address_parts st) (simp add: restored_def)
qed

definition start_share :: app_share where
  "start_share =
     \<lparr>appear = \<lparr>edition = ''midnight'', ed_hydrated = False, ed_reading = False, ed_emits = 0, tone = System,
        tone_hydrated = False, tone_reading = False, tone_emits = 0, saved = Map.empty\<rparr>,
      view = empty_view, view_is_empty = True, view_emits = 0\<rparr>"

theorem share_opens_on_app_witness:
  "sv_cards (view (snd (apply_share_address (build_share_link sample_link) start_share))) = [''bbc'', ''country:GB'']"
  using share_opens_on_app [OF sample_link_valid, of start_share]
  by (simp add: split_def) (simp add: sample_link_def)

section \<open>Appearance\<close>

text \<open>
  a choice the reader makes while the stored edition is still being read is kept when the
  read lands; with no choice the stored one is put on; and the edition is always one of the
  app's own.
\<close>

theorem edition_choice_wins:
  "edition (edition_loaded stored (set_edition i a)) = app_normalize (Some i) \<and>
   edition (edition_loaded stored (cycle_edition False a)) = edition (cycle_edition False a) \<and>
   (\<not> ed_hydrated a \<longrightarrow> edition (edition_loaded stored (snd (hydrate_edition a))) = app_normalize stored) \<and>
   app_normalize stored \<in> set app_edition_ids \<and> edition (cycle_edition False a) \<in> set app_edition_ids"
proof -
  have "0 \<le> (index_of (edition a) app_edition_ids + 1) mod 5 \<and> (index_of (edition a) app_edition_ids + 1) mod 5 < 5"
    by simp
  then have cyc: "app_edition_ids ! nat ((index_of (edition a) app_edition_ids + 1) mod int (length app_edition_ids))
      \<in> set app_edition_ids"
    by (intro nth_mem) (simp add: app_edition_ids_def nat_less_iff)
  have norm: "app_normalize stored \<in> set app_edition_ids"
    by (auto simp: app_normalize_def default_edition_id_def Let_def app_edition_ids_def split: option.split)
  show ?thesis
    using cyc norm
    by (simp add: edition_loaded_def set_edition_def cycle_edition_def set_tone_def hydrate_edition_def Let_def)
qed

theorem edition_choice_wins_witness:
  "edition (edition_loaded (Some ''neon'') (snd (hydrate_edition (appear start_share)))) = ''neon''"
  using edition_choice_wins [of "Some ''neon''" "''tide''" "appear start_share"]
  by (simp add: start_share_def app_normalize_def truthy_def retired_editions_def app_edition_ids_def)

text \<open>
  the app's table of retired editions is not the shared one: a shared link that carries
  the old id \<open>terminal\<close> restores the phosphor edition on the web and the default on the app.
\<close>

theorem legacy_edition_differs:
  "ed_id (normalize_edition (Some ''terminal'')) = ''phosphor'' \<and>
   edition (set_edition ''terminal'' a) = ''midnight''"
  by (simp add: set_edition_def app_normalize_def Let_def normalize_edition_def legacy_edition_ids_def
      retired_editions_def app_edition_ids_def find_edition_def wall_editions_def truthy_def default_edition_id_def)

end
