(* ===== verification/Ingest.thy ===== *)
theory Ingest
  imports Url
begin

text \<open>
  The same-origin relay of the visit counter (\<open>apps/web/src/app/ingest/[...path]/route.ts\<close>).
  The counter behind it is the parameter \<open>upstream\<close>: what the platform's \<open>fetch\<close> answers, or
  nothing when it throws. Request headers are a lookup by lower-case name, response headers a
  list; a body is its bytes.
\<close>

section \<open>Definitions\<close>

definition api_host :: string where
  "api_host = ''https://eu.i.posthog.com''"

definition allowed_endpoints :: "(string \<times> string list) list" where
  "allowed_endpoints =
     [(''e'', [''POST'']), (''i'', [''POST'']), (''batch'', [''POST'']), (''decide'', [''POST'']),
      (''flags'', [''POST'']), (''array'', [''GET''])]"

definition forward_headers :: "string list" where
  "forward_headers =
     [''accept'', ''accept-language'', ''content-type'', ''origin'', ''user-agent'', ''x-forwarded-for'']"

definition max_body_bytes :: nat where
  "max_body_bytes = 1000000"

definition strip_response :: "string list" where
  "strip_response =
     [''set-cookie'', ''content-encoding'', ''content-length'', ''transfer-encoding'', ''connection'']"

record ingest_request =
  ig_method :: string
  ig_path :: "string list"
  ig_search :: string
  ig_headers :: "string \<Rightarrow> string option"
  ig_body :: string

record upstream_request =
  up_url :: string
  up_method :: string
  up_headers :: "(string \<times> string) list"
  up_body :: "string option"

record http_response =
  rs_status :: nat
  rs_headers :: "(string \<times> string) list"
  rs_body :: "string option"

definition bare_status :: "nat \<Rightarrow> http_response" where
  "bare_status n = \<lparr>rs_status = n, rs_headers = [], rs_body = None\<rparr>"

definition ingest_target :: "ingest_request \<Rightarrow> string" where
  "ingest_target req =
     api_host @ ''/'' @ join_with ''/'' (map encode_uri_component (ig_path req)) @ ig_search req"

fun forwarded :: "(string \<Rightarrow> string option) \<Rightarrow> string list \<Rightarrow> (string \<times> string) list" where
  "forwarded headers [] = []"
| "forwarded headers (name # names) =
     (case truthy (headers name) of
        None \<Rightarrow> forwarded headers names
      | Some v \<Rightarrow> (name, v) # forwarded headers names)"

definition ingest_methods :: "ingest_request \<Rightarrow> string list" where
  "ingest_methods req =
     or_else (map_of allowed_endpoints (or_else (elem_at (ig_path req) 0) [])) []"

definition ingest_proxy ::
  "(upstream_request \<Rightarrow> http_response option) \<Rightarrow> ingest_request \<Rightarrow> upstream_request option \<times> http_response" where
  "ingest_proxy upstream req =
     (if ig_method req \<notin> set (ingest_methods req) then (None, bare_status 404)
      else if ig_method req \<noteq> ''GET'' \<and> length (ig_body req) > max_body_bytes then (None, bare_status 413)
      else
        (let up = \<lparr>up_url = ingest_target req, up_method = ig_method req,
                   up_headers = forwarded (ig_headers req) forward_headers,
                   up_body = (if ig_method req \<noteq> ''GET'' then Some (ig_body req) else None)\<rparr>
         in case upstream up of
              None \<Rightarrow> (Some up, bare_status 502)
            | Some rs \<Rightarrow>
                (Some up, \<lparr>rs_status = rs_status rs,
                   rs_headers = filter (\<lambda>(k, v). to_lower k \<notin> set strip_response) (rs_headers rs),
                   rs_body = rs_body rs\<rparr>)))"

section \<open>Nothing of the reader's leaks\<close>

lemma forwarded_names: "(k, v) \<in> set (forwarded headers names) \<Longrightarrow> k \<in> set names \<and> headers k = Some v \<and> v \<noteq> []"
  by (induction names) (auto simp: truthy_Some split: option.splits)

lemma listed_method:
  assumes "ig_method req \<in> set (ingest_methods req)"
  obtains e rest methods where "ig_path req = e # rest" and "map_of allowed_endpoints e = Some methods"
    and "ig_method req \<in> set methods"
proof (cases "ig_path req")
  case Nil
  then show ?thesis using assms by (simp add: ingest_methods_def elem_at_def or_else_def allowed_endpoints_def)
next
  case (Cons e rest)
  then show ?thesis
    using assms that by (cases "map_of allowed_endpoints e") (auto simp: ingest_methods_def elem_at_def or_else_def)
qed

text \<open>
  C24: A request goes out only to the counter's host, for a listed endpoint with its method and
  with a body of at most a megabyte; it carries the six listed headers at most, so no cookie and no referrer;
  and no answer sets a cookie on the reader's origin.
\<close>

theorem ingest_closed:
  "case ingest_proxy upstream req of (sent, rs) \<Rightarrow>
     (\<forall>up. sent = Some up \<longrightarrow>
        (\<exists>e rest methods. ig_path req = e # rest \<and> map_of allowed_endpoints e = Some methods \<and>
           up_method up = ig_method req \<and> ig_method req \<in> set methods) \<and>
        (\<exists>t. up_url up = api_host @ ''/'' @ t) \<and>
        (\<forall>b. up_body up = Some b \<longrightarrow> length b \<le> max_body_bytes) \<and>
        (\<forall>k v. (k, v) \<in> set (up_headers up) \<longrightarrow> k \<in> set forward_headers \<and> ig_headers req k = Some v) \<and>
        ''cookie'' \<notin> fst ` set (up_headers up) \<and> ''referer'' \<notin> fst ` set (up_headers up)) \<and>
     (\<forall>k v. (k, v) \<in> set (rs_headers rs) \<longrightarrow> to_lower k \<noteq> ''set-cookie'') \<and>
     (sent = None \<longrightarrow> rs_status rs \<in> {404, 413})"
proof (cases "ig_method req \<in> set (ingest_methods req)")
  case False
  then show ?thesis by (simp add: ingest_proxy_def bare_status_def)
next
  case m: True
  then obtain e rest methods where path: "ig_path req = e # rest"
    "map_of allowed_endpoints e = Some methods" "ig_method req \<in> set methods"
    by (rule listed_method)
  have hd: "k \<in> set forward_headers \<and> ig_headers req k = Some v"
    if "(k, v) \<in> set (forwarded (ig_headers req) forward_headers)" for k v
    using forwarded_names [OF that] by simp
  have nc: "''cookie'' \<notin> fst ` set (forwarded (ig_headers req) forward_headers)"
    "''referer'' \<notin> fst ` set (forwarded (ig_headers req) forward_headers)"
    using hd by (force simp: forward_headers_def)+
  have sc: "to_lower k \<noteq> ''set-cookie''" if "to_lower k \<notin> set strip_response" for k
    using that by (auto simp: strip_response_def)
  show ?thesis
    using m path hd nc sc
    by (auto simp: ingest_proxy_def Let_def bare_status_def ingest_target_def split: option.split)
qed

definition sample_ingest :: ingest_request where
  "sample_ingest =
     \<lparr>ig_method = ''POST'', ig_path = [''e''], ig_search = [], ig_headers = (\<lambda>_. Some ''x''), ig_body = []\<rparr>"

theorem ingest_closed_witness:
  "\<exists>up. fst (ingest_proxy (\<lambda>_. None) sample_ingest) = Some up \<and> ''cookie'' \<notin> fst ` set (up_headers up)"
proof -
  have "fst (ingest_proxy (\<lambda>_. None) sample_ingest) \<noteq> None"
    by (simp add: ingest_proxy_def ingest_methods_def allowed_endpoints_def elem_at_def sample_ingest_def
        or_else_def max_body_bytes_def Let_def split: option.split)
  then show ?thesis
    using ingest_closed [where upstream = "\<lambda>_. None" and req = sample_ingest] by (auto simp: split_def)
qed

end
