(* ===== verification/Web_Proxy.thy ===== *)
theory Web_Proxy
  imports Url
begin

text \<open>
  The web app's request middleware (\<open>apps/web/src/proxy.ts\<close>). The session endpoint of the API is
  the parameter \<open>session_api\<close> (an answer or nothing when it is unreachable), the policy and the
  nonce are \<open>build_csp\<close> and \<open>nonce\<close>, the serialised user is \<open>encode_user\<close>. Headers and cookies
  are lookups by name; writing the logs is left out. The framework consults \<open>config.matcher\<close>
  before it calls the middleware.
\<close>

section \<open>Definitions\<close>

text \<open>\<open>^/name(/.*)?$\<close>, where the dot stops at a line end.\<close>

definition line_char :: "char \<Rightarrow> bool" where
  "line_char c \<longleftrightarrow> code c \<noteq> 10 \<and> code c \<noteq> 13"

definition under :: "string \<Rightarrow> string \<Rightarrow> bool" where
  "under p path \<longleftrightarrow> path = p \<or>
     (starts_with (p @ ''/'') path \<and> (\<forall>c \<in> set (drop (length p + 1) path). line_char c))"

text \<open>\<open>^/launches/[^/]+/edit$\<close>.\<close>

definition launch_edit :: "string \<Rightarrow> bool" where
  "launch_edit path \<longleftrightarrow>
     (case split_on (CHR ''/'') path of
        [r, l, i, e] \<Rightarrow> r = [] \<and> l = ''launches'' \<and> i \<noteq> [] \<and> e = ''edit''
      | _ \<Rightarrow> False)"

definition requires_authentication :: "string \<Rightarrow> bool" where
  "requires_authentication path \<longleftrightarrow>
     under ''/start'' path \<or> under ''/account'' path \<or> under ''/launches/new'' path \<or>
     under ''/launches/mine'' path \<or> under ''/launches/analytics'' path \<or> launch_edit path \<or>
     under ''/settings'' path \<or> under ''/oauth2'' path \<or> under ''/to'' path"

definition unmatched_segments :: "string list" where
  "unmatched_segments =
     [''api'', ''fonts'', ''ingest'', ''monitoring'', ''assets'', ''_next'', ''og'']"

text \<open>In the matcher's \<open>favicon.ico\<close> and the like the dot stands for any character.\<close>

definition dotted :: "string \<Rightarrow> string \<Rightarrow> string \<Rightarrow> bool" where
  "dotted a b s \<longleftrightarrow> (\<exists>c. line_char c \<and> s = a @ c # b)"

definition first_segment :: "string \<Rightarrow> string" where
  "first_segment path = takeWhile (\<lambda>c. c \<noteq> CHR ''/'') (drop 1 path)"

definition matched :: "string \<Rightarrow> bool" where
  "matched path \<longleftrightarrow> take 1 path = ''/'' \<and>
     \<not> (first_segment path \<in> set unmatched_segments \<or> dotted ''favicon'' ''ico'' (first_segment path) \<or>
        dotted ''sitemap'' ''xml'' (first_segment path) \<or> dotted ''robots'' ''txt'' (first_segment path))"

record 'u web_request =
  wr_path :: string
  wr_search :: string
  wr_headers :: "string \<Rightarrow> string option"
  wr_cookies :: "string \<Rightarrow> string option"
  wr_geo :: "string option"

record 'u session_answer =
  sa_status :: nat
  sa_data :: "'u option"

datatype proxy_outcome =
    PermanentRedirect string
  | LoginRedirect string
  | ServerError
  | Continue "string \<Rightarrow> string option" string "string option"

definition session_cookie :: string where
  "session_cookie = ''outception_session''"

definition geo_country_cookie :: string where
  "geo_country_cookie = ''oc-geo-country''"

definition ok_status :: "nat \<Rightarrow> bool" where
  "ok_status n \<longleftrightarrow> 200 \<le> n \<and> n < 300"

text \<open>The user a request acts as, or \<open>Inl\<close> when the code throws.\<close>

definition resolve_user ::
  "('u web_request \<Rightarrow> 'u session_answer option) \<Rightarrow> 'u web_request \<Rightarrow> unit + 'u option" where
  "resolve_user session_api req =
     (if wr_cookies req session_cookie = None then Inr None
      else (case session_api req of
          None \<Rightarrow> Inr None
        | Some a \<Rightarrow>
            if sa_status a = 429 then Inr (sa_data a)
            else if sa_status a \<in> {502, 503, 504} then Inr (sa_data a)
            else if \<not> ok_status (sa_status a) \<and> sa_status a \<noteq> 401 then Inl ()
            else Inr (sa_data a)))"

definition geo_country :: "'u web_request \<Rightarrow> string option" where
  "geo_country req =
     (case wr_headers req ''cf-ipcountry'' of
        Some c \<Rightarrow> Some c
      | None \<Rightarrow>
          (case wr_geo req of
             Some g \<Rightarrow> if length g = 2 \<and> (\<forall>c \<in> set g. is_alpha c) then Some (to_upper g) else None
           | None \<Rightarrow> None))"

definition web_proxy ::
  "('u web_request \<Rightarrow> 'u session_answer option) \<Rightarrow> ('u \<Rightarrow> string) \<Rightarrow> string \<Rightarrow> (string \<Rightarrow> string \<Rightarrow> string) \<Rightarrow>
     'u web_request \<Rightarrow> proxy_outcome" where
  "web_proxy session_api encode_user nonce build_csp req =
     (if length (wr_path req) > 1 \<and> last (wr_path req) = CHR ''/''
      then PermanentRedirect (if strip_slashes (wr_path req) = [] then ''/'' else strip_slashes (wr_path req))
      else (case resolve_user session_api req of
          Inl _ \<Rightarrow> ServerError
        | Inr user \<Rightarrow>
            if requires_authentication (wr_path req) \<and> user = None
            then LoginRedirect (wr_path req @ wr_search req)
            else
              (let csp = build_csp nonce (wr_path req);
                   h1 = (wr_headers req)(''x-outception-user'' := None, ''x-nonce'' := None);
                   h2 = (case user of None \<Rightarrow> h1 | Some u \<Rightarrow> h1(''x-outception-user'' \<mapsto> encode_user u));
                   h3 = h2(''x-nonce'' \<mapsto> nonce, ''content-security-policy'' \<mapsto> csp);
                   country = truthy (geo_country req)
               in Continue h3 csp
                    (if country \<noteq> None \<and> wr_cookies req geo_country_cookie \<noteq> country then country else None))))"

section \<open>Identity and access\<close>

lemma web_proxy_cases:
  "(\<exists>p. web_proxy api enc nonce csp req = PermanentRedirect p) \<or>
   web_proxy api enc nonce csp req = ServerError \<or>
   (\<exists>p. web_proxy api enc nonce csp req = LoginRedirect p) \<or>
   (\<exists>user. resolve_user api req = Inr user \<and> (requires_authentication (wr_path req) \<longrightarrow> user \<noteq> None) \<and>
      (\<exists>geo. web_proxy api enc nonce csp req = Continue
        (((case user of
             None \<Rightarrow> (wr_headers req)(''x-outception-user'' := None, ''x-nonce'' := None)
           | Some u \<Rightarrow> (wr_headers req)(''x-outception-user'' := None, ''x-nonce'' := None, ''x-outception-user'' \<mapsto> enc u)))
          (''x-nonce'' \<mapsto> nonce, ''content-security-policy'' \<mapsto> csp nonce (wr_path req)))
        (csp nonce (wr_path req)) geo))"
  by (cases "resolve_user api req") (auto simp: web_proxy_def Let_def)

text \<open>
  C23: A page the middleware lets through carries the identity the session gave it or none, never
  the one the client sent; a guarded page is only let through with a user; and the nonce and the
  policy the page sees are the ones minted for it.
\<close>

theorem identity_not_forged:
  "case web_proxy session_api encode_user nonce build_csp req of
     Continue headers csp geo \<Rightarrow>
       (\<exists>user. resolve_user session_api req = Inr user \<and>
          headers ''x-outception-user'' = map_option encode_user user \<and>
          (wr_cookies req session_cookie = None \<or> session_api req = None \<longrightarrow> user = None) \<and>
          (requires_authentication (wr_path req) \<longrightarrow> user \<noteq> None)) \<and>
       headers ''x-nonce'' = Some nonce \<and> headers ''content-security-policy'' = Some csp \<and>
       csp = build_csp nonce (wr_path req) \<and>
       (\<forall>h. h \<notin> {''x-outception-user'', ''x-nonce'', ''content-security-policy''} \<longrightarrow> headers h = wr_headers req h)
   | LoginRedirect back \<Rightarrow> requires_authentication (wr_path req) \<and> back = wr_path req @ wr_search req
   | _ \<Rightarrow> True"
proof -
  have anon: "user = None" if "resolve_user session_api req = Inr user"
    "wr_cookies req session_cookie = None \<or> session_api req = None" for user
    using that by (auto simp: resolve_user_def split: if_splits)
  have login: "requires_authentication (wr_path req) \<and> target = wr_path req @ wr_search req"
    if "web_proxy session_api encode_user nonce build_csp req = LoginRedirect target" for target
    using that by (auto simp: web_proxy_def Let_def split: if_splits sum.splits option.splits)
  show ?thesis
    using web_proxy_cases [of session_api encode_user nonce build_csp req] anon login
    by (elim disjE exE conjE) (auto split: option.splits)
qed

definition sample_request :: "nat web_request" where
  "sample_request =
     \<lparr>wr_path = ''/'', wr_search = [], wr_headers = [''x-outception-user'' \<mapsto> ''forged''],
      wr_cookies = Map.empty, wr_geo = None\<rparr>"

definition unreachable_api :: "nat web_request \<Rightarrow> nat session_answer option" where
  "unreachable_api req = None"

definition sample_encode :: "nat \<Rightarrow> string" where
  "sample_encode n = show_nat n"

theorem identity_not_forged_witness:
  "\<exists>h. web_proxy unreachable_api sample_encode ''n'' (\<lambda>_ _. ''csp'') sample_request = Continue h ''csp'' None \<and>
     h ''x-outception-user'' = None"
proof -
  have reached: "web_proxy unreachable_api sample_encode ''n'' (\<lambda>_ _. ''csp'') sample_request =
      Continue (Map.empty(''x-nonce'' \<mapsto> ''n'', ''content-security-policy'' \<mapsto> ''csp'')) ''csp'' None"
    by (simp add: web_proxy_def resolve_user_def sample_request_def session_cookie_def requires_authentication_def
        under_def starts_with_def launch_edit_def geo_country_def truthy_def Let_def fun_eq_iff)
  then show ?thesis
    using identity_not_forged [where session_api = unreachable_api and encode_user = sample_encode
        and nonce = "''n''" and build_csp = "\<lambda>_ _. ''csp''" and req = sample_request]
    unfolding reached by auto
qed

lemma join_split: "join_with [d] (split_on d s) = s"
proof (induction s)
  case (Cons c s)
  then show ?case by (cases "split_on d s" rule: remdups_adj.cases) (auto split: list.splits)
qed simp

lemma underE: "under p path \<Longrightarrow> path = p \<or> (\<exists>r. path = p @ ''/'' @ r)"
  unfolding under_def starts_with_def by (metis append_assoc append_take_drop_id)

lemma launch_editE:
  assumes "launch_edit path"
  shows "\<exists>i. path = ''/launches/'' @ i @ ''/edit''"
proof -
  obtain i where "split_on (CHR ''/'') path = [[], ''launches'', i, ''edit'']"
    using assms by (auto simp: launch_edit_def split: list.splits)
  then have "path = join_with ''/'' [[], ''launches'', i, ''edit'']" by (metis join_split)
  then show ?thesis by auto
qed

lemma first_segment_append:
  "take 1 p = ''/'' \<Longrightarrow> first_segment (p @ ''/'' @ r) = first_segment p \<and> take 1 (p @ ''/'' @ r) = ''/''"
proof -
  assume "take 1 p = ''/''"
  then obtain n where p: "p = CHR ''/'' # n" by (cases p) auto
  have "takeWhile (\<lambda>c. c \<noteq> CHR ''/'') (n @ CHR ''/'' # r) = takeWhile (\<lambda>c. c \<noteq> CHR ''/'') n"
    by (induction n) auto
  then show ?thesis by (simp add: p first_segment_def)
qed

lemma matched_segment:
  "take 1 path = ''/'' \<Longrightarrow>
   first_segment path \<in> {''start'', ''account'', ''launches'', ''settings'', ''oauth2'', ''to''} \<Longrightarrow> matched path"
  by (auto simp: matched_def unmatched_segments_def dotted_def)

lemma matched_under:
  assumes "under p path" and "take 1 p = ''/''"
    and "first_segment p \<in> {''start'', ''account'', ''launches'', ''settings'', ''oauth2'', ''to''}"
  shows "matched path"
  using underE [OF assms(1)] first_segment_append [OF assms(2)] assms(2,3) by (metis matched_segment)

lemma guarded_matched:
  assumes "requires_authentication path"
  shows "matched path"
proof -
  consider "under ''/start'' path" | "under ''/account'' path" | "under ''/launches/new'' path"
    | "under ''/launches/mine'' path" | "under ''/launches/analytics'' path" | "launch_edit path"
    | "under ''/settings'' path" | "under ''/oauth2'' path" | "under ''/to'' path"
    using assms unfolding requires_authentication_def by blast
  then show ?thesis
  proof cases
    case 6
    then obtain i where "path = ''/launches/'' @ i @ ''/edit''" using launch_editE by blast
    then show ?thesis by (intro matched_segment) (simp_all add: first_segment_def)
  qed (erule matched_under; simp add: first_segment_def)+
qed

text \<open>
  the redirect to the slashless page never leads to another one, and every guarded page is
  one the matcher sends through the middleware.
\<close>

theorem guard_reached:
  "(\<forall>p. web_proxy session_api encode_user nonce build_csp req = PermanentRedirect p \<longrightarrow>
      \<not> (length p > 1 \<and> last p = CHR ''/'')) \<and>
   (requires_authentication path \<longrightarrow> matched path)"
proof -
  have no_loop: "\<not> (length p > 1 \<and> last p = CHR ''/'')"
    if "web_proxy session_api encode_user nonce build_csp req = PermanentRedirect p" for p
    using that strip_slashes_last [of "wr_path req"]
    by (auto simp: web_proxy_def Let_def split: if_splits sum.splits option.splits)
  then show ?thesis using guarded_matched by blast
qed

theorem guard_reached_witness:
  "matched ''/launches/42/edit'' \<and>
   web_proxy (\<lambda>_. None) (\<lambda>_. ''u'') ''n'' (\<lambda>_ _. ''csp'') (sample_request\<lparr>wr_path := ''/account/''\<rparr>) =
     PermanentRedirect ''/account''"
proof -
  have "requires_authentication ''/launches/42/edit''" by (simp add: requires_authentication_def launch_edit_def)
  then show ?thesis
    using guard_reached [where path = "''/launches/42/edit''" and req = sample_request]
    by (auto simp: web_proxy_def strip_slashes_def sample_request_def)
qed

end
