(* ===== verification/Toast.thy ===== *)
theory Toast
  imports Prelude
begin

text \<open>
  The toast queue (\<open>apps/web/src/components/Toast/use-toast.ts\<close>): the reducer with the
  removal timers it starts, the dispatcher that tells the mounted listeners, and the handles a
  toast returns. The module's variables are the record \<open>toaster\<close>; the timers are the ids with
  a running timeout, and \<open>fire_toast\<close> is a timeout running out, at any time after it was
  started. A toast's title, description and action are the map \<open>toast_props\<close>; its \<open>open\<close> flag
  is kept apart, and the closing callback is the operation \<open>open_change\<close>. The report of a
  malformed description to the error tracker is left out. The counter is a natural number, so
  the model covers the first \<open>2 ^ 53\<close> toasts of a session.
\<close>

section \<open>The reducer\<close>

definition toast_limit :: nat where
  "toast_limit = 1"

record 'v toast =
  toast_id :: string
  toast_props :: "string \<rightharpoonup> 'v"
  toast_open :: "bool option"

datatype 'v toast_action =
    AddToast "'v toast"
  | UpdateToast string "string \<rightharpoonup> 'v" "bool option"
  | DismissToast "string option"
  | RemoveToast "string option"

definition add_to_remove_queue :: "string list \<Rightarrow> string \<Rightarrow> string list" where
  "add_to_remove_queue timers i = (if i \<in> set timers then timers else timers @ [i])"

text \<open>The spread \<open>{ ...t, ...patch }\<close>: what the patch has wins.\<close>

definition patch_toast :: "(string \<rightharpoonup> 'v) \<Rightarrow> bool option \<Rightarrow> 'v toast \<Rightarrow> 'v toast" where
  "patch_toast props flag t =
     t\<lparr>toast_props := toast_props t ++ props,
       toast_open := (case flag of None \<Rightarrow> toast_open t | Some b \<Rightarrow> Some b)\<rparr>"

fun toast_reducer ::
  "'v toast list \<Rightarrow> string list \<Rightarrow> 'v toast_action \<Rightarrow> 'v toast list \<times> string list" where
  "toast_reducer toasts timers (AddToast t) = (take toast_limit (t # toasts), timers)"
| "toast_reducer toasts timers (UpdateToast i props flag) =
     (map (\<lambda>t. if toast_id t = i then patch_toast props flag t else t) toasts, timers)"
| "toast_reducer toasts timers (DismissToast which) =
     (map (\<lambda>t. if Some (toast_id t) = which \<or> which = None then t\<lparr>toast_open := Some False\<rparr> else t) toasts,
      case truthy which of
        Some i \<Rightarrow> add_to_remove_queue timers i
      | None \<Rightarrow> foldl add_to_remove_queue timers (map toast_id toasts))"
| "toast_reducer toasts timers (RemoveToast which) =
     (case which of None \<Rightarrow> [] | Some i \<Rightarrow> filter (\<lambda>t. toast_id t \<noteq> i) toasts, timers)"

section \<open>The module's state\<close>

record 'v toaster =
  toasts :: "'v toast list"
  timers :: "string list"
  toast_count :: nat
  toast_listeners :: "nat list"
  toast_heard :: "(nat \<times> 'v toast list) list"

definition empty_toaster :: "'v toaster" where
  "empty_toaster = \<lparr>toasts = [], timers = [], toast_count = 0, toast_listeners = [], toast_heard = []\<rparr>"

definition dispatch :: "'v toast_action \<Rightarrow> 'v toaster \<Rightarrow> 'v toaster" where
  "dispatch a s =
     (case toast_reducer (toasts s) (timers s) a of
        (ts, tm) \<Rightarrow>
          s\<lparr>toasts := ts, timers := tm,
            toast_heard := toast_heard s @ map (\<lambda>l. (l, ts)) (toast_listeners s)\<rparr>)"

definition gen_id :: "'v toaster \<Rightarrow> string \<times> 'v toaster" where
  "gen_id s = (show_nat (toast_count s + 1), s\<lparr>toast_count := toast_count s + 1\<rparr>)"

definition show_toast :: "(string \<rightharpoonup> 'v) \<Rightarrow> 'v toaster \<Rightarrow> string \<times> 'v toaster" where
  "show_toast props s =
     (case gen_id s of
        (i, s') \<Rightarrow> (i, dispatch (AddToast \<lparr>toast_id = i, toast_props = props, toast_open = Some True\<rparr>) s'))"

definition update_toast :: "string \<Rightarrow> (string \<rightharpoonup> 'v) \<Rightarrow> bool option \<Rightarrow> 'v toaster \<Rightarrow> 'v toaster" where
  "update_toast i props flag = dispatch (UpdateToast i props flag)"

definition dismiss_toast :: "string option \<Rightarrow> 'v toaster \<Rightarrow> 'v toaster" where
  "dismiss_toast which = dispatch (DismissToast which)"

definition open_change :: "string \<Rightarrow> bool \<Rightarrow> 'v toaster \<Rightarrow> 'v toaster" where
  "open_change i shown s = (if \<not> shown then dismiss_toast (Some i) s else s)"

definition fire_toast :: "string \<Rightarrow> 'v toaster \<Rightarrow> 'v toaster" where
  "fire_toast i s =
     dispatch (RemoveToast (Some i)) (s\<lparr>timers := filter (\<lambda>x. x \<noteq> i) (timers s)\<rparr>)"

text \<open>\<open>useToast\<close>: the effect pushes the component's setter and its cleanup takes one out.\<close>

definition mount_listener :: "nat \<Rightarrow> 'v toaster \<Rightarrow> 'v toaster" where
  "mount_listener l s = s\<lparr>toast_listeners := toast_listeners s @ [l]\<rparr>"

definition unmount_listener :: "nat \<Rightarrow> 'v toaster \<Rightarrow> 'v toaster" where
  "unmount_listener l s = s\<lparr>toast_listeners := remove1 l (toast_listeners s)\<rparr>"

inductive toaster_step :: "'v toaster \<Rightarrow> 'v toaster \<Rightarrow> bool" where
  step_show: "toaster_step s (snd (show_toast props s))"
| step_update: "toaster_step s (update_toast i props flag s)"
| step_dismiss: "toaster_step s (dismiss_toast which s)"
| step_open: "toaster_step s (open_change i shown s)"
| step_fire: "i \<in> set (timers s) \<Longrightarrow> toaster_step s (fire_toast i s)"
| step_mount: "toaster_step s (mount_listener l s)"
| step_unmount: "toaster_step s (unmount_listener l s)"

inductive toaster_reachable :: "'v toaster \<Rightarrow> bool" where
  toaster_init: "toaster_reachable empty_toaster"
| toaster_next: "toaster_reachable s \<Longrightarrow> toaster_step s s' \<Longrightarrow> toaster_reachable s'"

section \<open>The queue holds\<close>

definition toaster_inv :: "'v toaster \<Rightarrow> bool" where
  "toaster_inv s \<longleftrightarrow>
     length (toasts s) \<le> toast_limit \<and> distinct (map toast_id (toasts s)) \<and> distinct (timers s) \<and>
     (\<forall>t \<in> set (toasts s). \<exists>n \<le> toast_count s. toast_id t = show_nat n)"

lemmas toaster_defs = dispatch_def gen_id_def show_toast_def update_toast_def dismiss_toast_def open_change_def
  fire_toast_def mount_listener_def unmount_listener_def

lemma add_to_remove_queue_simps [simp]:
  "distinct (add_to_remove_queue q i) = distinct q"
  "set (add_to_remove_queue q i) = insert i (set q)"
  by (auto simp: add_to_remove_queue_def)

lemma add_all_to_remove_queue [simp]:
  "distinct (foldl add_to_remove_queue q xs) = distinct q"
  "set (foldl add_to_remove_queue q xs) = set xs \<union> set q"
  by (induction xs arbitrary: q) auto

lemma patch_toast_id [simp]: "toast_id (patch_toast props flag t) = toast_id t"
  by (simp add: patch_toast_def)

lemma patched_ids [simp]:
  "map toast_id (map (\<lambda>t. if P t then patch_toast props flag t else t) ts) = map toast_id ts"
  "map toast_id (map (\<lambda>t. if P t then t\<lparr>toast_open := b\<rparr> else t) ts) = map toast_id ts"
  by (induction ts) auto

text \<open>An action other than adding shows no toast that was not shown, under its id.\<close>

lemma reducer_ids:
  assumes "toast_reducer ts tm a = (ts', tm')" and "\<forall>t. a \<noteq> AddToast t"
  shows "\<exists>P. map toast_id ts' = filter P (map toast_id ts)"
proof (cases a)
  case (UpdateToast i props flag)
  then have "map toast_id ts' = filter (\<lambda>_. True) (map toast_id ts)"
    using assms(1) by (auto simp del: map_map)
  then show ?thesis by blast
next
  case (DismissToast which)
  then have "map toast_id ts' = filter (\<lambda>_. True) (map toast_id ts)"
    using assms(1) by (auto simp del: map_map)
  then show ?thesis by blast
next
  case (RemoveToast which)
  then have "map toast_id ts' = filter (\<lambda>j. which \<noteq> None \<and> Some j \<noteq> which) (map toast_id ts)"
    using assms(1) by (cases which) (auto simp: filter_map o_def)
  then show ?thesis by blast
qed (use assms(2) in auto)

lemma dispatch_inv:
  assumes "toaster_inv s" and "\<forall>t. a \<noteq> AddToast t"
  shows "toaster_inv (dispatch a s)"
proof -
  obtain ts tm where r: "toast_reducer (toasts s) (timers s) a = (ts, tm)" by fastforce
  obtain P where ids: "map toast_id ts = filter P (map toast_id (toasts s))"
    using reducer_ids [OF r assms(2)] by blast
  have ts: "toasts (dispatch a s) = ts" "timers (dispatch a s) = tm" "toast_count (dispatch a s) = toast_count s"
    by (simp_all add: dispatch_def r)
  have "length ts \<le> length (toasts s)" using arg_cong [OF ids, of length] by (metis length_filter_le length_map)
  then have len: "length ts \<le> toast_limit" using assms(1) by (simp add: toaster_inv_def)
  have dist: "distinct (map toast_id ts)" using assms(1) unfolding ids toaster_inv_def by (blast intro: distinct_filter)
  have tm: "distinct tm" using r assms by (cases a) (auto simp: toaster_inv_def split: option.splits)
  have known: "\<exists>n \<le> toast_count s. toast_id t = show_nat n" if "t \<in> set ts" for t
  proof -
    have "toast_id t \<in> set (filter P (map toast_id (toasts s)))" using that unfolding ids [symmetric] by simp
    then have "toast_id t \<in> toast_id ` set (toasts s)" by auto
    then show ?thesis using assms(1) by (auto simp: toaster_inv_def)
  qed
  show ?thesis unfolding toaster_inv_def ts using len dist tm known by blast
qed

lemma show_inv: "toaster_inv s \<Longrightarrow> toaster_inv (snd (show_toast props s))"
  by (auto simp: toaster_inv_def toaster_defs toast_limit_def)

lemma step_inv: "toaster_step s s' \<Longrightarrow> toaster_inv s \<Longrightarrow> toaster_inv s'"
proof (induction rule: toaster_step.induct)
  case (step_fire i s)
  then have "toaster_inv (s\<lparr>timers := filter (\<lambda>x. x \<noteq> i) (timers s)\<rparr>)" by (simp add: toaster_inv_def)
  then show ?case unfolding fire_toast_def by (rule dispatch_inv) simp
next
  case (step_show s props)
  then show ?case by (rule show_inv)
next
  case (step_update s i props flag)
  then show ?case by (simp add: update_toast_def dispatch_inv)
next
  case (step_dismiss s which)
  then show ?case by (simp add: dismiss_toast_def dispatch_inv)
next
  case (step_open s i shown)
  then show ?case by (simp add: open_change_def dismiss_toast_def dispatch_inv)
qed (simp_all add: toaster_inv_def mount_listener_def unmount_listener_def)

lemma toaster_reachable_inv: "toaster_reachable s \<Longrightarrow> toaster_inv s"
  by (induction rule: toaster_reachable.induct)
    (auto simp: empty_toaster_def toaster_inv_def dest: step_inv)

text \<open>
  At most one toast shows, whatever the page does; toasts never share an id, the next
  one gets an id no shown toast has, and no toast has two removal timers.
\<close>

theorem toaster_invariant:
  assumes "toaster_reachable s"
  shows "length (toasts s) \<le> 1 \<and> distinct (map toast_id (toasts s)) \<and> distinct (timers s) \<and>
    fst (show_toast props s) \<notin> toast_id ` set (toasts s) \<and>
    map toast_id (toasts (snd (show_toast props s))) = [fst (show_toast props s)]"
proof -
  have inv: "toaster_inv s" using assms by (rule toaster_reachable_inv)
  then have "fst (show_toast props s) \<notin> toast_id ` set (toasts s)"
    by (fastforce simp: toaster_inv_def show_toast_def gen_id_def)
  then show ?thesis using inv by (simp add: toaster_inv_def toast_limit_def show_toast_def gen_id_def dispatch_def)
qed

definition two_toasts :: "nat toaster" where
  "two_toasts = dismiss_toast None (snd (show_toast Map.empty (snd (show_toast Map.empty empty_toaster))))"

lemma two_toasts_reachable: "toaster_reachable two_toasts"
proof -
  have "toaster_reachable (snd (show_toast Map.empty empty_toaster))"
    by (rule toaster_next [OF toaster_init step_show])
  then have "toaster_reachable (snd (show_toast Map.empty (snd (show_toast Map.empty empty_toaster))))"
    by (rule toaster_next [OF _ step_show])
  then show ?thesis unfolding two_toasts_def by (rule toaster_next [OF _ step_dismiss])
qed

theorem toaster_invariant_witness: "length (toasts two_toasts) \<le> 1 \<and> distinct (timers two_toasts)"
  using toaster_invariant [OF two_toasts_reachable] by blast

section \<open>A dismissed toast goes away\<close>

text \<open>A toast that was issued and is queued, or no longer shown.\<close>

definition leaving :: "string \<Rightarrow> 'v toaster \<Rightarrow> bool" where
  "leaving i s \<longleftrightarrow> toaster_inv s \<and> (\<exists>n \<le> toast_count s. i = show_nat n) \<and>
     (i \<in> set (timers s) \<or> i \<notin> toast_id ` set (toasts s))"

lemma dispatch_timers:
  "set (timers s) \<subseteq> set (timers (dispatch a s))"
  by (cases a) (auto simp: dispatch_def split: option.splits)

lemma dispatch_ids:
  assumes "\<forall>t. a \<noteq> AddToast t"
  shows "toast_id ` set (toasts (dispatch a s)) \<subseteq> toast_id ` set (toasts s)"
proof -
  obtain ts tm where r: "toast_reducer (toasts s) (timers s) a = (ts, tm)" by fastforce
  obtain P where "map toast_id ts = filter P (map toast_id (toasts s))"
    using reducer_ids [OF r assms] by blast
  from arg_cong [OF this, of set] show ?thesis by (auto simp: dispatch_def r)
qed

lemma leaving_dispatch:
  assumes "leaving i s" and "\<forall>t. a \<noteq> AddToast t"
  shows "leaving i (dispatch a s)"
  using assms(1) dispatch_inv [OF _ assms(2), of s] dispatch_timers [of s a] dispatch_ids [OF assms(2), of s]
  by (auto simp: leaving_def dispatch_def split: prod.splits)

lemma leaving_show: "leaving i s \<Longrightarrow> leaving i (snd (show_toast props s))"
  using show_inv [of s props]
  by (fastforce simp: leaving_def show_toast_def gen_id_def dispatch_def toast_limit_def)

lemma leaving_fire: "leaving i s \<Longrightarrow> leaving i (fire_toast j s)"
  using dispatch_inv [of "s\<lparr>timers := filter (\<lambda>x. x \<noteq> j) (timers s)\<rparr>" "RemoveToast (Some j)"]
  by (auto simp: leaving_def fire_toast_def dispatch_def toaster_inv_def)

lemma leaving_step: "toaster_step s s' \<Longrightarrow> leaving i s \<Longrightarrow> leaving i s'"
proof (induction rule: toaster_step.induct)
  case (step_open s j shown)
  then show ?case by (simp add: open_change_def dismiss_toast_def leaving_dispatch)
qed (simp_all add: leaving_show leaving_fire update_toast_def dismiss_toast_def leaving_dispatch,
    simp_all add: leaving_def toaster_inv_def mount_listener_def unmount_listener_def)

lemma leaving_steps: "toaster_step\<^sup>*\<^sup>* s s' \<Longrightarrow> leaving i s \<Longrightarrow> leaving i s'"
  by (induction rule: rtranclp_induct) (auto intro: leaving_step)

lemma dismissed_leaving:
  assumes "toaster_inv s" and "t \<in> set (toasts s)" and "which = None \<or> which = Some (toast_id t)"
  shows "leaving (toast_id t) (dismiss_toast which s)"
proof -
  have issued: "\<exists>n \<le> toast_count s. toast_id t = show_nat n" using assms(1,2) by (simp add: toaster_inv_def)
  then have "toast_id t \<noteq> []" using show_nat_digits by metis
  then have "toast_id t \<in> set (timers (dismiss_toast which s))"
    using assms(2,3) by (auto simp: dismiss_toast_def dispatch_def truthy_def)
  moreover have "toaster_inv (dismiss_toast which s)" using assms(1) by (simp add: dismiss_toast_def dispatch_inv)
  ultimately show ?thesis using issued by (auto simp: leaving_def dismiss_toast_def dispatch_def)
qed

text \<open>
  a dismissed toast leaves for good: whatever the pages do after the dismissal, once its
  removal timer has run out it is not shown, and dismissing closes it at once.
\<close>

theorem dismissed_toast_leaves:
  assumes "toaster_reachable s" and "t \<in> set (toasts s)" and "which = None \<or> which = Some (toast_id t)"
    and "toaster_step\<^sup>*\<^sup>* (dismiss_toast which s) s'" and "toast_id t \<notin> set (timers s')"
  shows "toast_id t \<notin> toast_id ` set (toasts s') \<and>
    (\<forall>u \<in> set (toasts (dismiss_toast which s)). toast_id u = toast_id t \<longrightarrow> toast_open u = Some False)"
proof -
  have "leaving (toast_id t) (dismiss_toast which s)"
    using dismissed_leaving [OF toaster_reachable_inv [OF assms(1)] assms(2,3)] .
  then have "leaving (toast_id t) s'" using leaving_steps assms(4) by blast
  then show ?thesis
    using assms(3,5) by (auto simp: leaving_def dismiss_toast_def dispatch_def split: if_splits)
qed

theorem dismissed_toast_leaves_witness:
  "toasts (fire_toast ''1'' (dismiss_toast None (snd (show_toast Map.empty (empty_toaster :: nat toaster))))) = []"
proof -
  let ?s = "snd (show_toast Map.empty (empty_toaster :: nat toaster))"
  let ?t = "\<lparr>toast_id = ''1'', toast_props = Map.empty, toast_open = Some True\<rparr>"
  have id: "show_nat (Suc 0) = ''1''" by code_simp
  have one: "toasts ?s = [?t]" "timers ?s = []"
    by (simp_all add: show_toast_def gen_id_def dispatch_def empty_toaster_def toast_limit_def id)
  have reach: "toaster_reachable ?s" by (rule toaster_next [OF toaster_init step_show])
  have queued: "timers (dismiss_toast None ?s) = [''1'']"
    using one by (simp add: dismiss_toast_def dispatch_def add_to_remove_queue_def truthy_def)
  have "toaster_step\<^sup>*\<^sup>* (dismiss_toast None ?s) (fire_toast ''1'' (dismiss_toast None ?s))"
    by (rule r_into_rtranclp, rule step_fire) (simp add: queued)
  moreover have "timers (fire_toast ''1'' (dismiss_toast None ?s)) = []"
    using queued by (simp add: fire_toast_def dispatch_def)
  ultimately have "''1'' \<notin> toast_id ` set (toasts (fire_toast ''1'' (dismiss_toast None ?s)))"
    using dismissed_toast_leaves [OF reach, of ?t None] one by simp
  moreover have "toast_id ` set (toasts (fire_toast ''1'' (dismiss_toast None ?s))) \<subseteq> {''1''}"
    using one by (simp add: fire_toast_def dispatch_def dismiss_toast_def)
  ultimately show ?thesis by (cases "toasts (fire_toast ''1'' (dismiss_toast None ?s))") auto
qed

end
