(* ===== verification/Race.thy ===== *)
theory Race
  imports Js_Sort "HOL-Library.Product_Lexorder"
begin

text \<open>
  The bar race of the analytics page (\<open>apps/web/src/components/Analytics/race.ts\<close>): trimming
  the rows to the last days and building the frames. Rows carry a date \<open>YYYY-MM-DD\<close>, a name and
  a value, a real number. The collation order \<open>localeCompare\<close> of names is the parameter \<open>lc\<close>.
  A \<open>Map\<close> is its list of entries in insertion order.

  The part of \<open>Date\<close> the source uses is the calendar below: a day is year, month and day of the
  month, and going back a number of days steps to the day before as often. A text that is no
  calendar day gives the error branch, where \<open>toISOString\<close> throws.
\<close>

section \<open>Days\<close>

type_synonym civil = "int \<times> int \<times> int"

definition leap_year :: "int \<Rightarrow> bool" where
  "leap_year y \<longleftrightarrow> y mod 4 = 0 \<and> (y mod 100 \<noteq> 0 \<or> y mod 400 = 0)"

definition days_in_month :: "int \<Rightarrow> int \<Rightarrow> int" where
  "days_in_month y m =
     (if m = 2 then (if leap_year y then 29 else 28) else if m \<in> {4, 6, 9, 11} then 30 else 31)"

definition civil_ok :: "civil \<Rightarrow> bool" where
  "civil_ok c = (case c of (y, m, d) \<Rightarrow> 1 \<le> m \<and> m \<le> 12 \<and> 1 \<le> d \<and> d \<le> days_in_month y m)"

definition day_before :: "civil \<Rightarrow> civil" where
  "day_before c =
     (case c of (y, m, d) \<Rightarrow>
        if 1 < d then (y, m, d - 1)
        else if 1 < m then (y, m - 1, days_in_month y (m - 1))
        else (y - 1, 12, 31))"

definition day_after :: "civil \<Rightarrow> civil" where
  "day_after c =
     (case c of (y, m, d) \<Rightarrow>
        if d < days_in_month y m then (y, m, d + 1)
        else if m < 12 then (y, m + 1, 1)
        else (y + 1, 1, 1))"

text \<open>The day \<open>n\<close> days before, a later one when \<open>n\<close> is negative.\<close>

definition shift_back :: "int \<Rightarrow> civil \<Rightarrow> civil" where
  "shift_back n c = (if 0 \<le> n then (day_before ^^ nat n) c else (day_after ^^ nat (- n)) c)"

fun padded_nat :: "nat \<Rightarrow> nat \<Rightarrow> string" where
  "padded_nat 0 n = []"
| "padded_nat (Suc k) n = padded_nat k (n div 10) @ [digit_char (n mod 10)]"

definition iso_year :: "int \<Rightarrow> string" where
  "iso_year y =
     (if 0 \<le> y \<and> y \<le> 9999 then padded_nat 4 (nat y)
      else (if y < 0 then ''-'' else ''+'') @ padded_nat 6 (nat \<bar>y\<bar>))"

definition iso_date :: "civil \<Rightarrow> string" where
  "iso_date c =
     (case c of (y, m, d) \<Rightarrow> iso_year y @ ''-'' @ padded_nat 2 (nat m) @ ''-'' @ padded_nat 2 (nat d))"

definition parse_civil :: "string \<Rightarrow> civil option" where
  "parse_civil s =
     (let c = (int (read_nat (take 4 s)), int (read_nat (take 2 (drop 5 s))), int (read_nat (drop 8 s)))
      in if length s = 10 \<and> list_all is_digit (take 4 s @ take 2 (drop 5 s) @ drop 8 s) \<and>
            s ! 4 = CHR ''-'' \<and> s ! 7 = CHR ''-'' \<and> civil_ok c
         then Some c else None)"

section \<open>Rows\<close>

record race_row =
  row_date :: string
  row_name :: string
  row_value :: real

datatype race_error = InvalidDate

definition last_date :: "race_row list \<Rightarrow> string" where
  "last_date rows = foldl (\<lambda>acc row. if row_date row > acc then row_date row else acc) [] rows"

definition trim_rows :: "race_row list \<Rightarrow> int \<Rightarrow> race_error + race_row list" where
  "trim_rows rows days =
     (if last_date rows = [] then Inr []
      else (case parse_civil (last_date rows) of
          None \<Rightarrow> Inl InvalidDate
        | Some e \<Rightarrow>
            (let since = take 10 (iso_date (shift_back (days - 1) e))
             in Inr (filter (\<lambda>row. row_date row \<ge> since) rows))))"

section \<open>Frames\<close>

type_synonym race_values = "(string \<times> real) list"

record race_frames =
  rf_dates :: "string list"
  rf_frames :: "race_values list"
  rf_names :: "string list"

definition add_value :: "string \<Rightarrow> real \<Rightarrow> race_values \<Rightarrow> race_values" where
  "add_value n v vs = map_set n (or_else (map_of vs n) 0 + v) vs"

definition add_row :: "(string \<times> race_values) list \<Rightarrow> race_row \<Rightarrow> (string \<times> race_values) list" where
  "add_row days row =
     map_set (row_date row)
       (add_value (row_name row) (row_value row) (or_else (map_of days (row_date row)) [])) days"

definition group_rows :: "race_row list \<Rightarrow> (string \<times> race_values) list" where
  "group_rows rows = foldl add_row [] rows"

definition add_day :: "race_values \<Rightarrow> race_values \<Rightarrow> race_values" where
  "add_day totals day = foldl (\<lambda>t (n, v). add_value n v t) totals day"

definition bar_order :: "(string \<Rightarrow> string \<Rightarrow> real) \<Rightarrow> string \<times> real \<Rightarrow> string \<times> real \<Rightarrow> real" where
  "bar_order lc a b = (if snd b - snd a \<noteq> 0 then snd b - snd a else lc (fst a) (fst b))"

definition bars_of :: "(string \<Rightarrow> string \<Rightarrow> real) \<Rightarrow> nat \<Rightarrow> race_values \<Rightarrow> race_values" where
  "bars_of lc topN vs = take topN (js_sort (bar_order lc) (filter (\<lambda>(_, v). v > 0) vs))"

definition note_names :: "string list \<Rightarrow> race_values \<Rightarrow> string list" where
  "note_names names bars =
     foldl (\<lambda>ns b. if fst b \<in> set ns then ns else ns @ [fst b]) names bars"

definition date_order :: "string \<Rightarrow> string \<Rightarrow> int" where
  "date_order a b = (if a < b then -1 else if b < a then 1 else 0)"

fun frame_loop ::
  "(race_values \<Rightarrow> race_values) \<Rightarrow> bool \<Rightarrow> (string \<times> race_values) list \<Rightarrow> string list \<Rightarrow> race_values \<Rightarrow>
     race_frames \<Rightarrow> race_frames" where
  "frame_loop bars cumulative days [] totals out = out"
| "frame_loop bars cumulative days (date # dates) totals out =
     (let day = or_else (map_of days date) [];
          totals' = (if cumulative then add_day totals day else totals);
          shown = bars (if cumulative then totals' else day)
      in if shown = [] \<and> rf_frames out = [] then frame_loop bars cumulative days dates totals' out
         else frame_loop bars cumulative days dates totals'
           \<lparr>rf_dates = rf_dates out @ [date], rf_frames = rf_frames out @ [shown],
            rf_names = note_names (rf_names out) shown\<rparr>)"

definition build_frames ::
  "(string \<Rightarrow> string \<Rightarrow> real) \<Rightarrow> race_row list \<Rightarrow> bool \<Rightarrow> nat \<Rightarrow> race_frames" where
  "build_frames lc rows cumulative topN =
     (let days = group_rows rows
      in frame_loop (bars_of lc topN) cumulative days (js_sort date_order (map fst days)) []
           \<lparr>rf_dates = [], rf_frames = [], rf_names = []\<rparr>)"

section \<open>The frames\<close>

text \<open>What a name is worth over a set of days.\<close>

definition total_over :: "race_row list \<Rightarrow> string set \<Rightarrow> string \<Rightarrow> real" where
  "total_over rows D n = sum_list (map row_value (filter (\<lambda>r. row_date r \<in> D \<and> row_name r = n) rows))"

definition races :: "race_row list \<Rightarrow> string set \<Rightarrow> string \<Rightarrow> bool" where
  "races rows D n \<longleftrightarrow> (\<exists>r \<in> set rows. row_date r \<in> D \<and> row_name r = n)"

text \<open>A list of values that holds, for every name of those days, its total.\<close>

definition holds_totals :: "race_row list \<Rightarrow> string set \<Rightarrow> race_values \<Rightarrow> bool" where
  "holds_totals rows D vs \<longleftrightarrow> distinct (map fst vs) \<and>
     (\<forall>n. map_of vs n = (if races rows D n then Some (total_over rows D n) else None))"

lemma holds_totals_empty: "D = {} \<Longrightarrow> holds_totals rows D []"
  by (simp add: holds_totals_def races_def)

lemma total_over_snoc:
  "total_over (rows @ [r]) D n =
     total_over rows D n + (if row_date r \<in> D \<and> row_name r = n then row_value r else 0)"
  by (simp add: total_over_def)

lemma races_snoc: "races (rows @ [r]) D n \<longleftrightarrow> races rows D n \<or> row_date r \<in> D \<and> row_name r = n"
  by (auto simp: races_def)

lemma not_races: "\<not> races rows D n \<Longrightarrow> total_over rows D n = 0"
  by (auto simp: races_def total_over_def filter_empty_conv)

lemma map_of_add_value:
  "map_of (add_value n v vs) = (map_of vs)(n \<mapsto> or_else (map_of vs n) 0 + v)"
  by (simp add: add_value_def map_of_put)

lemma distinct_add_value: "distinct (map fst vs) \<Longrightarrow> distinct (map fst (add_value n v vs))"
  by (simp add: add_value_def distinct_put)

lemma holds_totals_snoc:
  assumes "holds_totals rows {d} vs"
  shows "holds_totals (rows @ [r]) {d} (if row_date r = d then add_value (row_name r) (row_value r) vs else vs)"
  using assms
  by (auto simp: holds_totals_def races_snoc total_over_snoc map_of_add_value distinct_add_value not_races)

lemma group_rows_spec:
  "distinct (map fst (group_rows rows)) \<and> set (map fst (group_rows rows)) = row_date ` set rows \<and>
   (\<forall>d. holds_totals rows {d} (or_else (map_of (group_rows rows) d) []))"
proof (induction rows rule: rev_induct)
  case Nil
  then show ?case by (simp add: group_rows_def holds_totals_def races_def)
next
  case (snoc r rows)
  let ?g = "group_rows rows"
  have step: "group_rows (rows @ [r]) = add_row ?g r" by (simp add: group_rows_def)
  have keys: "map fst (add_row ?g r) = map fst ?g @ (if row_date r \<in> set (map fst ?g) then [] else [row_date r])"
    by (simp add: add_row_def keys_put)
  have "or_else (map_of (add_row ?g r) d) [] =
      (if row_date r = d then add_value (row_name r) (row_value r) (or_else (map_of ?g d) []) else or_else (map_of ?g d) [])"
    for d by (simp add: add_row_def map_of_put)
  then have "holds_totals (rows @ [r]) {d} (or_else (map_of (add_row ?g r) d) [])" for d
    using holds_totals_snoc snoc by simp
  then show ?case using snoc keys unfolding step by auto
qed

lemma map_of_add_day:
  "distinct (map fst day) \<Longrightarrow> map_of (add_day t day) n =
     (case map_of day n of None \<Rightarrow> map_of t n | Some v \<Rightarrow> Some (or_else (map_of t n) 0 + v))"
proof (induction day arbitrary: t)
  case (Cons p day)
  obtain m v where p: "p = (m, v)" by force
  have "map_of day m = None" using Cons.prems by (simp add: p map_of_eq_None_iff)
  then show ?case
    using Cons.IH [of "add_value m v t"] Cons.prems
    by (cases "n = m") (auto simp: add_day_def p map_of_add_value split: option.split)
qed (simp add: add_day_def)

lemma distinct_add_day: "distinct (map fst t) \<Longrightarrow> distinct (map fst (add_day t day))"
  unfolding add_day_def
  by (induction day arbitrary: t) (auto simp: distinct_add_value split: prod.splits)

lemma total_over_insert:
  "d \<notin> D \<Longrightarrow> total_over rows (insert d D) n = total_over rows D n + total_over rows {d} n"
  by (induction rows) (auto simp: total_over_def)

lemma races_insert: "races rows (insert d D) n \<longleftrightarrow> races rows D n \<or> races rows {d} n"
  unfolding races_def by blast

lemma holds_totals_insert:
  assumes "holds_totals rows D t" and "holds_totals rows {d} day" and "d \<notin> D"
  shows "holds_totals rows (insert d D) (add_day t day)"
proof -
  have t: "distinct (map fst t)" "\<And>n. map_of t n = (if races rows D n then Some (total_over rows D n) else None)"
    and day: "distinct (map fst day)"
      "\<And>n. map_of day n = (if races rows {d} n then Some (total_over rows {d} n) else None)"
    using assms(1,2) by (simp_all add: holds_totals_def)
  have "map_of (add_day t day) n =
      (if races rows (insert d D) n then Some (total_over rows (insert d D) n) else None)" for n
    unfolding map_of_add_day [OF day(1)] t(2) day(2) total_over_insert [OF assms(3)] races_insert [of rows d D]
    by (simp add: not_races)
  then show ?thesis using distinct_add_day [OF t(1)] by (simp add: holds_totals_def)
qed

lemma holds_totals_cong:
  assumes "D \<inter> row_date ` set rows = E \<inter> row_date ` set rows"
  shows "holds_totals rows D vs = holds_totals rows E vs"
proof -
  have in_iff: "row_date r \<in> D \<longleftrightarrow> row_date r \<in> E" if "r \<in> set rows" for r using assms that by blast
  then have "filter (\<lambda>r. row_date r \<in> D \<and> row_name r = n) rows = filter (\<lambda>r. row_date r \<in> E \<and> row_name r = n) rows"
    for n by (intro filter_cong) auto
  moreover have "races rows D n = races rows E n" for n using in_iff by (auto simp: races_def)
  ultimately show ?thesis by (simp add: holds_totals_def total_over_def)
qed

text \<open>The loop as a list of frames: those before the first bar are dropped.\<close>

fun frame_list ::
  "(race_values \<Rightarrow> race_values) \<Rightarrow> bool \<Rightarrow> (string \<times> race_values) list \<Rightarrow> string list \<Rightarrow> race_values \<Rightarrow>
     (string \<times> race_values) list" where
  "frame_list bars cumulative days [] totals = []"
| "frame_list bars cumulative days (date # dates) totals =
     (let day = or_else (map_of days date) [];
          totals' = (if cumulative then add_day totals day else totals)
      in (date, bars (if cumulative then totals' else day)) # frame_list bars cumulative days dates totals')"

definition trim_frames :: "race_frames \<Rightarrow> (string \<times> race_values) list \<Rightarrow> (string \<times> race_values) list" where
  "trim_frames out ps = (if rf_frames out = [] then dropWhile (\<lambda>p. snd p = []) ps else ps)"

lemma frame_loop_list:
  "frame_loop bars cumulative days dates totals out =
     (let ps = trim_frames out (frame_list bars cumulative days dates totals)
      in \<lparr>rf_dates = rf_dates out @ map fst ps, rf_frames = rf_frames out @ map snd ps,
          rf_names = foldl note_names (rf_names out) (map snd ps)\<rparr>)"
  by (induction bars cumulative days dates totals out rule: frame_loop.induct)
    (simp_all add: Let_def trim_frames_def)

lemma note_names_spec:
  "distinct ns \<Longrightarrow> distinct (note_names ns bars) \<and> set (note_names ns bars) = set ns \<union> fst ` set bars"
  unfolding note_names_def by (induction bars arbitrary: ns) auto

lemma note_all_names:
  "distinct ns \<Longrightarrow> distinct (foldl note_names ns fs) \<and>
   set (foldl note_names ns fs) = set ns \<union> fst ` \<Union> (set ` set fs)"
proof (induction fs arbitrary: ns)
  case (Cons f fs)
  show ?case using Cons.IH [of "note_names ns f"] note_names_spec [OF Cons.prems, of f] by auto
qed simp

lemma frame_list_dates: "map fst (frame_list bars cumulative days dates totals) = dates"
  by (induction bars cumulative days dates totals rule: frame_list.induct) (simp_all add: Let_def)

definition frame_days :: "bool \<Rightarrow> string \<Rightarrow> string set" where
  "frame_days cumulative d = (if cumulative then {x. x \<le> d} else {d})"

lemma frame_list_values:
  assumes "(d, b) \<in> set (frame_list bars cumulative (group_rows rows) dates totals)"
    and "sorted_wrt (<) dates" and "set dates \<subseteq> row_date ` set rows"
    and "\<forall>x \<in> row_date ` set rows - set dates. \<forall>y \<in> set dates. x < y"
    and "cumulative \<Longrightarrow> holds_totals rows (row_date ` set rows - set dates) totals"
  shows "\<exists>vs. holds_totals rows (frame_days cumulative d) vs \<and> b = bars vs"
  using assms
proof (induction dates arbitrary: totals)
  case (Cons d0 dates)
  let ?R = "row_date ` set rows" and ?day = "or_else (map_of (group_rows rows) d0) []"
  let ?t = "if cumulative then add_day totals ?day else totals"
  have day: "holds_totals rows {d0} ?day" using group_rows_spec by blast
  have d0: "d0 \<notin> ?R - set (d0 # dates)" "d0 \<in> ?R" "d0 \<notin> set dates" using Cons.prems(2,3) by auto
  then have rest: "?R - set dates = insert d0 (?R - set (d0 # dates))" by auto
  have t: "holds_totals rows (?R - set dates) ?t" if cumulative
    using holds_totals_insert [OF Cons.prems(5) [OF that] day d0(1)] that unfolding rest by simp
  have after: "x \<in> set dates \<Longrightarrow> \<not> x \<le> d0" for x using Cons.prems(2) by auto
  have upto: "(?R - set dates) \<inter> ?R = {x. x \<le> d0} \<inter> ?R"
    using Cons.prems(4) d0 by (auto intro: less_imp_le dest: after)
  show ?case
  proof (cases "(d, b) = (d0, bars (if cumulative then ?t else ?day))")
    case True
    have "holds_totals rows (frame_days cumulative d0) (if cumulative then ?t else ?day)"
      using t day holds_totals_cong [OF upto] by (simp add: frame_days_def)
    then show ?thesis using True by blast
  next
    case False
    then have "(d, b) \<in> set (frame_list bars cumulative (group_rows rows) dates ?t)"
      using Cons.prems(1) by (auto simp: Let_def)
    moreover have "\<forall>x \<in> ?R - set dates. \<forall>y \<in> set dates. x < y"
      unfolding rest using Cons.prems(2,4) by auto
    ultimately show ?thesis using Cons.IH Cons.prems(2,3) t by auto
  qed
qed simp

section \<open>The bars of a frame\<close>

text \<open>The \<open>topN\<close> biggest totals above zero, biggest first.\<close>

definition top_bars :: "race_row list \<Rightarrow> string set \<Rightarrow> nat \<Rightarrow> race_values \<Rightarrow> bool" where
  "top_bars rows D topN b \<longleftrightarrow>
     length b \<le> topN \<and> distinct (map fst b) \<and> sorted_wrt (\<lambda>x y. snd y \<le> snd x) b \<and>
     (\<forall>(n, v) \<in> set b. v = total_over rows D n \<and> 0 < v) \<and>
     (\<forall>n. 0 < total_over rows D n \<and> n \<notin> fst ` set b \<longrightarrow>
        length b = topN \<and> (\<forall>(m, v) \<in> set b. total_over rows D n \<le> v))"

lemma bar_order_consistent:
  assumes "comparator_on lc UNIV"
  shows "comparator_on (bar_order lc) UNIV"
proof (rule comparator_on.intro)
  fix x y :: "string \<times> real"
  show "bar_order lc x y \<le> 0 \<or> bar_order lc y x \<le> 0"
    using comparator_on.cmp_total [OF assms, of "fst x" "fst y"] by (auto simp: bar_order_def)
next
  fix x y z :: "string \<times> real"
  assume "bar_order lc x y \<le> 0" and "bar_order lc y z \<le> 0"
  then show "bar_order lc x z \<le> 0"
    using comparator_on.cmp_trans [OF assms, of "fst x" "fst y" "fst z"]
    by (auto simp: bar_order_def split: if_splits)
qed

lemma sorted_wrt_impl: "sorted_wrt P xs \<Longrightarrow> (\<And>x y. P x y \<Longrightarrow> Q x y) \<Longrightarrow> sorted_wrt Q xs"
  by (erule sorted_wrt_mono_rel [rotated]) blast

lemma bars_top:
  assumes "comparator_on lc UNIV" and "holds_totals rows D vs"
  shows "top_bars rows D topN (bars_of lc topN vs)"
proof -
  let ?s = "js_sort (bar_order lc) (filter (\<lambda>(_, v). v > 0) vs)"
  have "sorted_wrt (\<lambda>x y. bar_order lc x y \<le> 0) ?s"
    by (rule comparator_on.sorted_js_sort [OF bar_order_consistent [OF assms(1)]]) simp
  then have sorted: "sorted_wrt (\<lambda>x y. snd y \<le> snd x) ?s"
    by (rule sorted_wrt_impl) (auto simp: bar_order_def split: if_splits)
  have dist: "distinct (map fst ?s)" using assms(2) by (simp add: holds_totals_def distinct_map_filter)
  have elem: "(n, v) \<in> set ?s \<longleftrightarrow> races rows D n \<and> v = total_over rows D n \<and> 0 < v" for n v
  proof -
    have "(n, v) \<in> set vs \<longleftrightarrow> map_of vs n = Some v"
      using assms(2) unfolding holds_totals_def by (metis map_of_eq_Some_iff)
    also have "\<dots> \<longleftrightarrow> races rows D n \<and> v = total_over rows D n"
      using assms(2) unfolding holds_totals_def by auto
    finally show ?thesis by auto
  qed
  have split: "?s = take topN ?s @ drop topN ?s" by simp
  have rest: "length (take topN ?s) = topN \<and> (\<forall>(m, v) \<in> set (take topN ?s). total_over rows D n \<le> v)"
    if n: "0 < total_over rows D n" "n \<notin> fst ` set (take topN ?s)" for n
  proof -
    have "(n, total_over rows D n) \<in> set ?s" using n(1) not_races [of rows D n] elem by (metis less_irrefl)
    then have late: "(n, total_over rows D n) \<in> set (drop topN ?s)"
      using n(2) set_append [of "take topN ?s" "drop topN ?s"] by (force simp: append_take_drop_id)
    have "sorted_wrt (\<lambda>x y. snd y \<le> snd x) (take topN ?s @ drop topN ?s)" using sorted by simp
    then have "\<forall>x \<in> set (take topN ?s). total_over rows D n \<le> snd x"
      using late unfolding sorted_wrt_append by (metis snd_conv)
    moreover have "topN < length ?s" using late by (cases "topN < length ?s") auto
    ultimately show ?thesis by auto
  qed
  show ?thesis
    unfolding top_bars_def bars_of_def
  proof (intro conjI)
    show "distinct (map fst (take topN ?s))" using dist by (simp flip: take_map)
    show "sorted_wrt (\<lambda>x y. snd y \<le> snd x) (take topN ?s)" using sorted by (rule sorted_wrt_take)
    show "\<forall>(n, v) \<in> set (take topN ?s). v = total_over rows D n \<and> 0 < v"
      using elem in_set_takeD [of _ topN ?s] by fastforce
    show "length (take topN ?s) \<le> topN" by simp
    show "\<forall>n. 0 < total_over rows D n \<and> n \<notin> fst ` set (take topN ?s) \<longrightarrow>
      length (take topN ?s) = topN \<and> (\<forall>(m, v) \<in> set (take topN ?s). total_over rows D n \<le> v)"
      using rest by blast
  qed
qed

interpretation day_order: comparator_on date_order "UNIV :: string set"
  by unfold_locales (auto simp: date_order_def split: if_splits)

lemma sorted_dates: "distinct ds \<Longrightarrow> sorted_wrt (<) (js_sort date_order ds)"
proof -
  assume "distinct ds"
  have "sorted_wrt (\<lambda>x y. date_order x y \<le> 0) (js_sort date_order ds)"
    by (rule day_order.sorted_js_sort) simp
  then have "sorted (js_sort date_order ds)"
    by (rule sorted_wrt_impl) (auto simp: date_order_def split: if_splits)
  then show ?thesis using \<open>distinct ds\<close> by (simp add: strict_sorted_iff)
qed

section \<open>The race\<close>

lemma dropWhile_hd: "dropWhile P xs \<noteq> [] \<Longrightarrow> \<not> P (hd (dropWhile P xs))"
  by (induction xs) auto

lemma dropWhile_lost: "x \<in> set xs \<Longrightarrow> x \<notin> set (dropWhile P xs) \<Longrightarrow> P x"
  by (metis UnE set_append set_takeWhileD takeWhile_dropWhile_id)

lemma build_frames_list:
  obtains dropped ps where
    "build_frames lc rows cumulative topN =
       \<lparr>rf_dates = map fst ps, rf_frames = map snd ps, rf_names = foldl note_names [] (map snd ps)\<rparr>"
    and "sorted_wrt (<) (map fst (dropped @ ps))" and "fst ` set (dropped @ ps) = row_date ` set rows"
    and "\<forall>p \<in> set dropped. snd p = []" and "ps = [] \<or> snd (hd ps) \<noteq> []"
    and "\<forall>(d, b) \<in> set (dropped @ ps).
      \<exists>vs. holds_totals rows (frame_days cumulative d) vs \<and> b = bars_of lc topN vs"
proof -
  let ?dates = "js_sort date_order (map fst (group_rows rows))"
  let ?all = "frame_list (bars_of lc topN) cumulative (group_rows rows) ?dates []"
  let ?ps = "dropWhile (\<lambda>p. snd p = []) ?all" and ?dropped = "takeWhile (\<lambda>p. snd p = []) ?all"
  have dates: "sorted_wrt (<) ?dates" "set ?dates = row_date ` set rows"
    using group_rows_spec [of rows] sorted_dates by simp_all
  have vals: "\<exists>vs. holds_totals rows (frame_days cumulative d) vs \<and> b = bars_of lc topN vs"
    if "(d, b) \<in> set ?all" for d b
    by (rule frame_list_values [OF that dates(1)]) (simp_all add: dates(2) [symmetric] holds_totals_empty)
  have whole: "?dropped @ ?ps = ?all" by simp
  have "build_frames lc rows cumulative topN =
      \<lparr>rf_dates = map fst ?ps, rf_frames = map snd ?ps, rf_names = foldl note_names [] (map snd ?ps)\<rparr>"
    by (simp add: build_frames_def Let_def frame_loop_list trim_frames_def)
  moreover have "sorted_wrt (<) (map fst (?dropped @ ?ps))" and "fst ` set (?dropped @ ?ps) = row_date ` set rows"
    unfolding whole using dates by (simp_all add: frame_list_dates flip: set_map)
  moreover have "\<forall>p \<in> set ?dropped. snd p = []" by (auto dest: set_takeWhileD)
  moreover have "?ps = [] \<or> snd (hd ?ps) \<noteq> []" using dropWhile_hd by blast
  moreover have "\<forall>(d, b) \<in> set (?dropped @ ?ps).
      \<exists>vs. holds_totals rows (frame_days cumulative d) vs \<and> b = bars_of lc topN vs"
    unfolding whole using vals by blast
  ultimately show ?thesis by (rule that)
qed

text \<open>
  The race has one frame a day in order, from the first day with a bar to the last day
  of the data; each frame shows the biggest totals above zero of its day, or of all days so far
  when it accumulates, biggest first and each name once; and the names are those ever shown.
\<close>

theorem build_frames_spec:
  assumes "comparator_on lc UNIV" and "build_frames lc rows cumulative topN = f"
  shows "length (rf_frames f) = length (rf_dates f) \<and> sorted_wrt (<) (rf_dates f) \<and>
    set (rf_dates f) \<subseteq> row_date ` set rows \<and>
    (\<forall>(d, b) \<in> set (zip (rf_dates f) (rf_frames f)). top_bars rows (frame_days cumulative d) topN b) \<and>
    (\<forall>d \<in> row_date ` set rows - set (rf_dates f).
       top_bars rows (frame_days cumulative d) topN [] \<and> (\<forall>d' \<in> set (rf_dates f). d < d')) \<and>
    (rf_frames f = [] \<or> hd (rf_frames f) \<noteq> []) \<and>
    distinct (rf_names f) \<and> set (rf_names f) = fst ` \<Union> (set ` set (rf_frames f))"
proof -
  obtain dropped ps where built: "build_frames lc rows cumulative topN = \<lparr>rf_dates = map fst ps, rf_frames = map snd ps,
        rf_names = foldl note_names [] (map snd ps)\<rparr>"
    and sorted: "sorted_wrt (<) (map fst (dropped @ ps))"
    and dates: "fst ` set (dropped @ ps) = row_date ` set rows"
    and empty: "\<forall>p \<in> set dropped. snd p = []" and first: "ps = [] \<or> snd (hd ps) \<noteq> []"
    and vals: "\<forall>(d, b) \<in> set (dropped @ ps).
      \<exists>vs. holds_totals rows (frame_days cumulative d) vs \<and> b = bars_of lc topN vs"
    by (rule build_frames_list)
  note f = built [unfolded assms(2)]
  have top: "top_bars rows (frame_days cumulative d) topN b" if "(d, b) \<in> set (dropped @ ps)" for d b
    using vals that bars_top [OF assms(1)] by fast
  have left_out: "top_bars rows (frame_days cumulative d) topN [] \<and> (\<forall>d' \<in> fst ` set ps. d < d')"
    if "d \<in> row_date ` set rows - fst ` set ps" for d
  proof -
    have "d \<in> fst ` set dropped" using that unfolding dates [symmetric] by auto
    then obtain b where b: "(d, b) \<in> set dropped" by auto
    then have "b = []" using empty by auto
    moreover have "\<forall>d' \<in> fst ` set ps. d < d'" using sorted b by (force simp: sorted_wrt_append)
    ultimately show ?thesis using top [of d b] b by simp
  qed
  have "zip (map fst ps) (map snd ps) = ps" by (rule zip_map_fst_snd)
  then show ?thesis
    using sorted dates top left_out first note_all_names [of "[]" "map snd ps"]
    by (auto simp: f sorted_wrt_append hd_map)
qed

definition sample_rows :: "race_row list" where
  "sample_rows =
     [\<lparr>row_date = ''2024-01-02'', row_name = ''a'', row_value = 2\<rparr>,
      \<lparr>row_date = ''2024-01-01'', row_name = ''b'', row_value = 0\<rparr>,
      \<lparr>row_date = ''2024-01-02'', row_name = ''b'', row_value = 3\<rparr>]"

lemma no_collation: "comparator_on (\<lambda>(_ :: string) _. 0 :: real) UNIV"
  by (rule comparator_on.intro) simp_all

theorem build_frames_spec_witness:
  "sorted_wrt (<) (rf_dates (build_frames (\<lambda>_ _. 0) sample_rows True 1)) \<and>
   set (rf_dates (build_frames (\<lambda>_ _. 0) sample_rows True 1)) \<subseteq> {''2024-01-02'', ''2024-01-01''}"
proof -
  have "row_date ` set sample_rows = {''2024-01-02'', ''2024-01-01''}" by (auto simp: sample_rows_def)
  then show ?thesis using build_frames_spec [OF no_collation refl, of sample_rows True 1] by (metis (no_types))
qed

section \<open>Trimming to the last days\<close>

lemma days_in_month_range: "28 \<le> days_in_month y m \<and> days_in_month y m \<le> 31"
  by (simp add: days_in_month_def)

lemma day_before_ok: "civil_ok c \<Longrightarrow> civil_ok (day_before c)"
  using days_in_month_range
  by (cases c) (auto simp: civil_ok_def day_before_def days_in_month_def split: if_splits)

lemma day_before_less: "civil_ok c \<Longrightarrow> day_before c < c"
  by (cases c) (auto simp: civil_ok_def day_before_def less_prod_def)

text \<open>There is no day between a day and the one before it.\<close>

lemma day_before_next: "civil_ok x \<Longrightarrow> civil_ok c \<Longrightarrow> x < c \<Longrightarrow> x \<le> day_before c"
proof -
  assume ok: "civil_ok x" "civil_ok c" and less: "x < c"
  obtain y m d where c: "c = (y, m, d)" by (cases c)
  obtain y' m' d' where x: "x = (y', m', d')" by (cases x)
  show ?thesis
  proof (cases "m = m' + 1")
    case True
    then show ?thesis
      using ok less by (auto simp: c x civil_ok_def day_before_def less_prod_def less_eq_prod_def)
  next
    case False
    then show ?thesis
      using ok less days_in_month_range [of y' m']
      by (auto simp: c x civil_ok_def day_before_def less_prod_def less_eq_prod_def)
  qed
qed

lemma back_ok: "civil_ok c \<Longrightarrow> civil_ok ((day_before ^^ n) c) \<and> (day_before ^^ n) c \<le> c"
  by (induction n) (auto intro: day_before_ok dest: day_before_less order_trans less_imp_le)

lemma back_reaches:
  "civil_ok x \<Longrightarrow> civil_ok e \<Longrightarrow> x \<le> e \<Longrightarrow> (day_before ^^ n) e \<le> x \<Longrightarrow>
   \<exists>k \<le> n. x = (day_before ^^ k) e"
proof (induction n arbitrary: e)
  case (Suc n)
  show ?case
  proof (cases "x = e")
    case False
    then have "x \<le> day_before e" using Suc.prems day_before_next by (simp add: order_le_less)
    then obtain k where "k \<le> n" and "x = (day_before ^^ k) (day_before e)"
      using Suc.IH [of "day_before e"] Suc.prems day_before_ok by (auto simp: funpow_swap1)
    then have "Suc k \<le> Suc n \<and> x = (day_before ^^ Suc k) e" by (simp add: funpow_swap1)
    then show ?thesis by blast
  qed (auto intro: exI [of _ 0])
qed auto

subsection \<open>Dates as text\<close>

lemma length_padded [simp]: "length (padded_nat k n) = k"
  by (induction k arbitrary: n) auto

lemma padded_digits: "list_all is_digit (padded_nat k n)"
  by (induction k arbitrary: n) (auto simp: digit_char_digit)

lemma read_padded: "n < 10 ^ k \<Longrightarrow> read_nat (padded_nat k n) = n"
proof (induction k arbitrary: n)
  case (Suc k)
  then have "n div 10 < 10 ^ k" by (simp add: less_mult_imp_div_less mult.commute)
  then have "read_nat (padded_nat k (n div 10)) = n div 10" by (rule Suc.IH)
  then show ?case by (simp add: read_nat_def digit_char_digit)
qed (simp add: read_nat_def)

lemma append_less:
  "length a = length b \<Longrightarrow> (a @ x < b @ y) = (a < b \<or> a = b \<and> x < y)" for a b x y :: string
  by (induction a b rule: list_induct2) auto

lemma digit_char_less: "m < 10 \<Longrightarrow> n < 10 \<Longrightarrow> digit_char m < digit_char n \<longleftrightarrow> m < n"
  by (simp add: digit_char_def less_char_def)

lemma last_digit_less:
  "b < 10 \<Longrightarrow> d < 10 \<Longrightarrow> (a < c \<or> a = c \<and> b < d) = (a * 10 + b < c * 10 + d)" for a b c d :: nat
  by (cases "a = c") auto

lemma padded_less:
  "m < 10 ^ k \<Longrightarrow> n < 10 ^ k \<Longrightarrow> padded_nat k m < padded_nat k n \<longleftrightarrow> m < n"
proof (induction k arbitrary: m n)
  case (Suc k)
  have small: "m div 10 < 10 ^ k" "n div 10 < 10 ^ k"
    using Suc.prems by (simp_all add: less_mult_imp_div_less mult.commute)
  have same: "padded_nat k (m div 10) = padded_nat k (n div 10) \<longleftrightarrow> m div 10 = n div 10"
    using read_padded [OF small(1)] read_padded [OF small(2)] by metis
  have "padded_nat (Suc k) m < padded_nat (Suc k) n \<longleftrightarrow>
      m div 10 < n div 10 \<or> m div 10 = n div 10 \<and> m mod 10 < n mod 10"
    using same by (simp add: append_less digit_char_less Suc.IH [OF small])
  also have "\<dots> \<longleftrightarrow> m < n"
    using last_digit_less [of "m mod 10" "n mod 10" "m div 10" "n div 10"] by simp
  finally show ?case .
qed simp

text \<open>A day of the years the four digits can write.\<close>

definition written :: "civil \<Rightarrow> bool" where
  "written c \<longleftrightarrow> civil_ok c \<and> 0 \<le> fst c \<and> fst c \<le> 9999"

lemma writtenE:
  assumes "written c"
  obtains y m d where "c = (int y, int m, int d)" and "y < 10 ^ 4" and "m < 10 ^ 2" and "d < 10 ^ 2"
    and "iso_date c = padded_nat 4 y @ ''-'' @ padded_nat 2 m @ ''-'' @ padded_nat 2 d"
proof -
  obtain y m d where c: "c = (y, m, d)" by (cases c)
  have "0 \<le> y" "y \<le> 9999" "1 \<le> m" "m \<le> 12" "1 \<le> d" "d \<le> 31"
    using assms days_in_month_range [of y m] by (auto simp: written_def civil_ok_def c)
  then show thesis
    by (intro that [of "nat y" "nat m" "nat d"]) (simp_all add: c iso_date_def iso_year_def)
qed

lemma parse_iso: "written c \<Longrightarrow> parse_civil (iso_date c) = Some c"
proof -
  assume w: "written c"
  then obtain y m d where c: "c = (int y, int m, int d)" "y < 10 ^ 4" "m < 10 ^ 2" "d < 10 ^ 2"
    and iso: "iso_date c = padded_nat 4 y @ ''-'' @ padded_nat 2 m @ ''-'' @ padded_nat 2 d" by (rule writtenE)
  have parts: "take 4 (iso_date c) = padded_nat 4 y" "take 2 (drop 5 (iso_date c)) = padded_nat 2 m"
    "drop 8 (iso_date c) = padded_nat 2 d" "iso_date c ! 4 = CHR ''-''" "iso_date c ! 7 = CHR ''-''"
    "length (iso_date c) = 10"
    by (simp_all add: iso nth_append)
  have "civil_ok (int y, int m, int d)" using w c(1) by (simp add: written_def)
  then show ?thesis
    unfolding parse_civil_def parts using c by (simp add: read_padded padded_digits)
qed

lemma iso_less: "written a \<Longrightarrow> written b \<Longrightarrow> iso_date a < iso_date b \<longleftrightarrow> a < b"
proof -
  assume w: "written a" "written b"
  from w(1) obtain y m d where a: "a = (int y, int m, int d)" "y < 10 ^ 4" "m < 10 ^ 2" "d < 10 ^ 2"
      "iso_date a = padded_nat 4 y @ ''-'' @ padded_nat 2 m @ ''-'' @ padded_nat 2 d" by (rule writtenE)
  from w(2) obtain y' m' d' where b: "b = (int y', int m', int d')" "y' < 10 ^ 4" "m' < 10 ^ 2" "d' < 10 ^ 2"
      "iso_date b = padded_nat 4 y' @ ''-'' @ padded_nat 2 m' @ ''-'' @ padded_nat 2 d'" by (rule writtenE)
  have eq: "padded_nat k p = padded_nat k q \<longleftrightarrow> p = q" if "p < 10 ^ k" "q < 10 ^ k" for k p q
    using read_padded [OF that(1)] read_padded [OF that(2)] by metis
  show ?thesis
    unfolding a(5) b(5)
    by (simp add: append_less a(1) b(1) less_prod_def eq [OF a(2) b(2)] eq [OF a(3) b(3)]
        padded_less [OF a(2) b(2)] padded_less [OF a(3) b(3)] padded_less [OF a(4) b(4)]) auto
qed

lemma length_iso: "written c \<Longrightarrow> length (iso_date c) = 10"
  by (erule writtenE) simp

lemma last_date_from:
  "foldl (\<lambda>acc row. if row_date row > acc then row_date row else acc) a rows =
     Max (insert a (row_date ` set rows))"
proof (induction rows arbitrary: a)
  case (Cons r rows)
  have "Max (insert (if row_date r > a then row_date r else a) (row_date ` set rows)) =
      max (max a (row_date r)) (Max (insert a (row_date ` set rows)))"
    by (cases "rows = []") (auto simp: max_def)
  also have "\<dots> = Max (insert a (row_date ` set (r # rows)))"
    by (cases "rows = []") (auto simp: max_def)
  finally show ?case using Cons by simp
qed simp

lemma last_date_Max: "rows \<noteq> [] \<Longrightarrow> last_date rows = Max (row_date ` set rows)"
  unfolding last_date_def last_date_from by (subst Max_insert) (auto simp: max_def)

text \<open>
  trimming to the last \<open>days\<close> days keeps the latest day, leaves the order and the rows of
  the days it keeps alone, drops earlier days only, and keeps at most \<open>days\<close> of them.
\<close>

theorem trim_rows_spec:
  assumes "rows \<noteq> []" and "\<forall>r \<in> set rows. \<exists>c. written c \<and> row_date r = iso_date c" and "1 \<le> days"
    and "last_date rows = iso_date e" and "written e" and "0 \<le> fst (shift_back (days - 1) e)"
  shows "\<exists>kept since. trim_rows rows days = Inr kept \<and> kept = filter (\<lambda>r. row_date r \<ge> since) rows \<and>
    last_date kept = last_date rows \<and> int (card (row_date ` set kept)) \<le> days"
proof -
  define n where "n = nat (days - 1)"
  define s where "s = (day_before ^^ n) e"
  define kept where "kept = filter (\<lambda>r. row_date r \<ge> iso_date s) rows"
  have e: "civil_ok e" using assms(5) by (simp add: written_def)
  have shifted: "shift_back (days - 1) e = s" using assms(3) by (simp add: shift_back_def s_def n_def)
  have s: "civil_ok s" "s \<le> e" using back_ok [OF e] by (simp_all add: s_def)
  then have "fst s \<le> fst e" by (cases s; cases e) (auto simp: less_eq_prod_def)
  then have ws: "written s" using s assms(5,6) unfolding shifted written_def by linarith
  have ne: "last_date rows \<noteq> []" using length_iso [OF assms(5)] assms(4) by auto
  have trim: "trim_rows rows days = Inr kept"
    using ne parse_iso [OF assms(5)] length_iso [OF ws]
    by (simp add: trim_rows_def assms(4) shifted kept_def)
  have last: "last_date rows = Max (row_date ` set rows)" using assms(1) by (rule last_date_Max)
  have le: "iso_date s \<le> last_date rows"
    using s iso_less [OF assms(5) ws] unfolding assms(4) by (simp add: not_less [symmetric])
  have "last_date rows \<in> row_date ` set rows" unfolding last using assms(1) by (intro Max_in) auto
  then have top: "last_date rows \<in> row_date ` set kept" using le by (auto simp: kept_def)
  then have "last_date kept = Max (row_date ` set kept)" by (intro last_date_Max) auto
  also have "\<dots> = last_date rows"
  proof (rule Max_eqI)
    fix d assume "d \<in> row_date ` set kept"
    then show "d \<le> last_date rows" unfolding last by (intro Max_ge) (auto simp: kept_def)
  qed (use top in auto)
  finally have same: "last_date kept = last_date rows" .
  have "row_date ` set kept \<subseteq> (\<lambda>k. iso_date ((day_before ^^ k) e)) ` {..n}"
  proof
    fix d assume "d \<in> row_date ` set kept"
    then obtain r where r: "r \<in> set rows" "d = row_date r" "iso_date s \<le> d" by (auto simp: kept_def)
    then obtain c where "written c \<and> row_date r = iso_date c" using assms(2) by blast
    then have c: "written c" "d = iso_date c" "iso_date s \<le> d" using r by simp_all
    have "d \<le> last_date rows" unfolding last r(2) using r(1) by (intro Max_ge) auto
    then have "d \<le> iso_date e" unfolding assms(4) .
    then have "c \<le> e" "s \<le> c"
      using c iso_less [OF assms(5) c(1)] iso_less [OF c(1) ws] by (auto simp: not_less [symmetric])
    then obtain k where "k \<le> n" "c = (day_before ^^ k) e"
      using back_reaches [OF _ e, of c n] c(1) by (auto simp: written_def s_def)
    then show "d \<in> (\<lambda>k. iso_date ((day_before ^^ k) e)) ` {..n}" using c(2) by auto
  qed
  then have "card (row_date ` set kept) \<le> card {..n}" by (meson surj_card_le finite_atMost)
  then have "int (card (row_date ` set kept)) \<le> days" using assms(3) by (simp add: n_def)
  then show ?thesis using trim same unfolding kept_def by blast
qed

lemma sample_days:
  "written (2024, 1, 1) \<and> iso_date (2024, 1, 1) = ''2024-01-01''"
  "written (2024, 1, 2) \<and> iso_date (2024, 1, 2) = ''2024-01-02''"
  by code_simp+

theorem trim_rows_spec_witness: "\<exists>kept. trim_rows sample_rows 1 = Inr kept \<and> card (row_date ` set kept) \<le> 1"
proof -
  have ok: "\<forall>r \<in> set sample_rows. \<exists>c. written c \<and> row_date r = iso_date c"
    using sample_days by (auto simp: sample_rows_def) metis+
  have last: "last_date sample_rows = iso_date (2024, 1, 2)"
    unfolding sample_days(2) [THEN conjunct2] by (simp add: last_date_def sample_rows_def)
  have "\<exists>kept since. trim_rows sample_rows 1 = Inr kept \<and> kept = filter (\<lambda>r. row_date r \<ge> since) sample_rows \<and>
      last_date kept = last_date sample_rows \<and> int (card (row_date ` set kept)) \<le> 1"
    by (rule trim_rows_spec [OF _ ok _ last]) (use sample_days in \<open>simp_all add: sample_rows_def shift_back_def\<close>)
  then show ?thesis by auto
qed

end
