(* ===== verification/I18n.thy ===== *)
theory I18n
  imports Prelude
begin

text \<open>
  The string table and its lookup (\<open>packages/i18n/src/index.ts\<close>). The English table itself is
  data and a parameter, \<open>table\<close>: nested objects with strings at the leaves. The plural rules of
  \<open>Intl\<close> are the parameter \<open>category\<close>, \<open>None\<close> where they throw. What an object, a string or a
  builtin value inherits is the parameter \<open>js_runtime\<close>: the walk of the code reads inherited
  properties too, so a key like \<open>constructor.name\<close> leaves the table and finds a text
  (\<open>inherited_name_shown\<close>), and a property like \<open>caller\<close> of a function throws when it is read
  (\<open>inherited_getter_throws\<close>). A plural entry without a usable template is the error branch where
  \<open>replace\<close> throws. The placeholder names and the plural keys (\<open>_mode\<close>, \<open>=0\<close>, \<open>one\<close>, \<open>other\<close>) are
  no names an object inherits, so those lookups are by own properties.
\<close>

section \<open>Topics\<close>

definition news_columns :: "string list" where
  "news_columns =
     [''news'', ''world'', ''sports'', ''finance'', ''science'', ''entertainment'', ''tech'', ''social'',
      ''betting'', ''weather'', ''lifestyle'', ''food'', ''travel'', ''culture'', ''faith'', ''music'',
      ''gaming'', ''movies'', ''tv'', ''anime'', ''books'', ''gadgets'', ''cars'', ''podcasts'', ''cities'',
      ''deals'', ''property'']"

definition news_column_keys :: "(string \<times> string) list" where
  "news_column_keys = map (\<lambda>c. (c, ''news.columns.'' @ c)) news_columns"

definition news_topic_groups :: "(string \<times> string list) list" where
  "news_topic_groups =
     [(''news'', [''news'', ''world'', ''cities'', ''weather'']),
      (''finance'', [''finance'']),
      (''sports'', [''sports'', ''betting'']),
      (''tech'', [''tech'', ''gadgets'', ''science'', ''social'']),
      (''entertainment'',
       [''entertainment'', ''movies'', ''tv'', ''music'', ''anime'', ''gaming'', ''podcasts'', ''culture'', ''books'']),
      (''lifestyle'', [''lifestyle'', ''food'', ''travel'', ''cars'', ''deals'', ''property'', ''faith''])]"

definition news_grouped_columns :: "string set" where
  "news_grouped_columns = set (concat (map snd news_topic_groups))"

section \<open>Placeholders\<close>

datatype interp_value = IText string | INum int

fun show_value :: "interp_value \<Rightarrow> string" where
  "show_value (IText s) = s"
| "show_value (INum n) = show_int n"

type_synonym interpolations = "string \<rightharpoonup> interp_value"

definition word_char :: "char \<Rightarrow> bool" where
  "word_char c \<longleftrightarrow> is_alnum c \<or> c = CHR ''_''"

text \<open>The name of the placeholder the text starts with, \<open>/\{([a-zA-Z0-9_]+)\}/\<close>, and the rest.\<close>

definition placeholder_at :: "string \<Rightarrow> (string \<times> string) option" where
  "placeholder_at s =
     (case s of
        [] \<Rightarrow> None
      | c # r \<Rightarrow>
          (let k = takeWhile word_char r; t = dropWhile word_char r
           in if c = CHR ''{'' \<and> k \<noteq> [] \<and> t \<noteq> [] \<and> hd t = CHR ''}'' then Some (k, tl t) else None))"

lemma placeholder_shorter: "placeholder_at s = Some (k, t) \<Longrightarrow> length t < length s"
proof -
  assume a: "placeholder_at s = Some (k, t)"
  then obtain c r where s: "s = c # r" by (cases s) (auto simp: placeholder_at_def)
  have "length (dropWhile word_char r) \<le> length r" by (rule length_dropWhile_le)
  then show ?thesis using a by (auto simp: placeholder_at_def s Let_def split: if_splits)
qed

definition fill_in :: "interpolations \<Rightarrow> string \<Rightarrow> string" where
  "fill_in m k = (case m k of None \<Rightarrow> ''{'' @ k @ ''}'' | Some v \<Rightarrow> show_value v)"

function replace_placeholders :: "interpolations \<Rightarrow> string \<Rightarrow> string" where
  "replace_placeholders m s =
     (case s of
        [] \<Rightarrow> []
      | c # r \<Rightarrow>
          (case placeholder_at s of
             Some (k, t) \<Rightarrow> fill_in m k @ replace_placeholders m t
           | None \<Rightarrow> c # replace_placeholders m r))"
  by pat_completeness auto
termination
  by (relation "measure (length \<circ> snd)") (auto dest: placeholder_shorter)

declare replace_placeholders.simps [simp del]

definition interpolate :: "string \<Rightarrow> interpolations option \<Rightarrow> string" where
  "interpolate template values' = (case values' of None \<Rightarrow> template | Some m \<Rightarrow> replace_placeholders m template)"

section \<open>Lookup\<close>

datatype entry = Leaf string | Node "(string \<times> entry) list"

datatype i18n_error = NoTemplate | GetterThrew

text \<open>
  What the walk stands on: an object of the table, a string (of the table or not), or any other
  value, which is not of the table.
\<close>

datatype 'f thing = In_Table "(string \<times> entry) list" | Text string | Builtin 'f

fun thing_of :: "entry \<Rightarrow> 'f thing" where
  "thing_of (Leaf s) = Text s"
| "thing_of (Node es) = In_Table es"

text \<open>
  The properties the runtime supplies: \<open>object_prop k\<close> is the property \<open>k\<close> a plain object
  inherits, \<open>text_prop s k\<close> a string's property that is no character, and \<open>builtin_prop f k\<close> that of
  any other value, whose accessor may throw. \<open>None\<close> is null or undefined.
\<close>

record 'f js_runtime =
  object_prop :: "string \<Rightarrow> 'f thing option"
  text_prop :: "string \<Rightarrow> string \<Rightarrow> 'f thing option"
  builtin_prop :: "'f \<Rightarrow> string \<Rightarrow> i18n_error + 'f thing option"

text \<open>The character a string has under an index key.\<close>

definition char_prop :: "string \<Rightarrow> string \<Rightarrow> char option" where
  "char_prop s k = map_of (zip (map show_nat [0..<length s]) s) k"

text \<open>The property \<open>k\<close> of a value: its own first, then what it inherits.\<close>

fun prop_of :: "'f js_runtime \<Rightarrow> 'f thing \<Rightarrow> string \<Rightarrow> i18n_error + 'f thing option" where
  "prop_of rt (In_Table es) k =
     Inr (case map_of es k of Some e \<Rightarrow> Some (thing_of e) | None \<Rightarrow> object_prop rt k)"
| "prop_of rt (Text s) k =
     Inr (case char_prop s k of Some c \<Rightarrow> Some (Text [c]) | None \<Rightarrow> text_prop rt s k)"
| "prop_of rt (Builtin f) k = builtin_prop rt f k"

fun step_into ::
  "'f js_runtime \<Rightarrow> i18n_error + 'f thing option \<Rightarrow> string \<Rightarrow> i18n_error + 'f thing option" where
  "step_into rt (Inr (Some v)) k = prop_of rt v k"
| "step_into rt (Inr None) k = Inr None"
| "step_into rt (Inl e) k = Inl e"

definition walk :: "'f js_runtime \<Rightarrow> entry \<Rightarrow> string \<Rightarrow> i18n_error + 'f thing option" where
  "walk rt table key = foldl (step_into rt) (Inr (Some (thing_of table))) (split_on (CHR ''.'') key)"

definition plural_category :: "(interp_value \<Rightarrow> string option) \<Rightarrow> interp_value \<Rightarrow> string" where
  "plural_category category count = or_else (category count) ''other''"

definition count_of :: "interpolations option \<Rightarrow> interp_value" where
  "count_of values' = (case values' of None \<Rightarrow> INum 0 | Some m \<Rightarrow> or_else (m ''count'') (INum 0))"

definition plural_template :: "(interp_value \<Rightarrow> string option) \<Rightarrow> (string \<times> entry) list \<Rightarrow> interp_value \<Rightarrow> entry option" where
  "plural_template category es count =
     (case map_of es (''='' @ show_value count) of
        Some e \<Rightarrow> Some e
      | None \<Rightarrow>
          (case map_of es (plural_category category count) of
             Some e \<Rightarrow> Some e
           | None \<Rightarrow> map_of es ''other''))"

text \<open>The number sign of a plural template stands for the count.\<close>

definition count_in :: "interp_value \<Rightarrow> string \<Rightarrow> string" where
  "count_in count t = concat (map (\<lambda>c. if c = CHR ''#'' then show_value count else [c]) t)"

definition is_plural :: "(string \<times> entry) list \<Rightarrow> bool" where
  "is_plural es \<longleftrightarrow> map_of es ''_mode'' = Some (Leaf ''plural'')"

definition translate ::
  "'f js_runtime \<Rightarrow> entry \<Rightarrow> (interp_value \<Rightarrow> string option) \<Rightarrow> string \<Rightarrow> interpolations option \<Rightarrow>
   i18n_error + string" where
  "translate rt table category key values' =
     (case walk rt table key of
        Inl e \<Rightarrow> Inl e
      | Inr (Some (In_Table es)) \<Rightarrow>
          if is_plural es then
            (let count = count_of values' in
             case plural_template category es count of
               Some (Leaf t) \<Rightarrow> Inr (interpolate (count_in count t) values')
             | _ \<Rightarrow> Inl NoTemplate)
          else Inr key
      | Inr (Some (Text s)) \<Rightarrow> Inr (interpolate s values')
      | Inr (Some (Builtin f)) \<Rightarrow> Inr key
      | Inr None \<Rightarrow> Inr key)"

section \<open>Properties\<close>

text \<open>
  every topic column has a label key and belongs to exactly one group, and a group is
  named after its first column.
\<close>

theorem topic_groups_partition:
  "set (map fst news_column_keys) = news_grouped_columns \<and> distinct (concat (map snd news_topic_groups)) \<and>
   (\<forall>g \<in> set news_topic_groups. hd (snd g) = fst g)"
  unfolding news_grouped_columns_def by code_simp

text \<open>A template in parts: text without an opening brace, and named holes.\<close>

datatype segment = Lit string | Hole string

fun render_segment :: "segment \<Rightarrow> string" where
  "render_segment (Lit s) = s"
| "render_segment (Hole k) = ''{'' @ k @ ''}''"

fun fill_segment :: "interpolations \<Rightarrow> segment \<Rightarrow> string" where
  "fill_segment m (Lit s) = s"
| "fill_segment m (Hole k) = fill_in m k"

fun segment_ok :: "segment \<Rightarrow> bool" where
  "segment_ok (Lit s) \<longleftrightarrow> CHR ''{'' \<notin> set s"
| "segment_ok (Hole k) \<longleftrightarrow> k \<noteq> [] \<and> list_all word_char k"

lemma replace_Nil [simp]: "replace_placeholders m [] = []"
  by (simp add: replace_placeholders.simps)

lemma replace_plain: "CHR ''{'' \<notin> set s \<Longrightarrow> replace_placeholders m (s @ t) = s @ replace_placeholders m t"
proof (induction s)
  case (Cons c s)
  then have "placeholder_at (c # s @ t) = None" by (auto simp: placeholder_at_def Let_def)
  then show ?case using Cons by (simp add: replace_placeholders.simps [of m "c # s @ t"])
qed simp

lemma replace_hole:
  assumes "k \<noteq> []" and "list_all word_char k"
  shows "replace_placeholders m (''{'' @ k @ ''}'' @ t) = fill_in m k @ replace_placeholders m t"
proof -
  have stop: "\<not> word_char (CHR ''}'')" by (simp add: word_char_def is_alnum_def is_alpha_def is_lower_def is_upper_def is_digit_def)
  have all: "\<And>c. c \<in> set k \<Longrightarrow> word_char c" using assms(2) by (simp add: list_all_iff)
  have "takeWhile word_char (k @ CHR ''}'' # t) = k" "dropWhile word_char (k @ CHR ''}'' # t) = CHR ''}'' # t"
    using all stop by (simp_all add: takeWhile_append2 dropWhile_append2)
  then have "placeholder_at (''{'' @ k @ ''}'' @ t) = Some (k, t)"
    using assms(1) stop by (simp add: placeholder_at_def Let_def)
  then show ?thesis by (simp add: replace_placeholders.simps [of m "CHR ''{'' # k @ CHR ''}'' # t"])
qed

text \<open>
  filling in a template replaces every hole by its value, leaves a hole without one and all
  other text as they are, and looks for no placeholder in a value it put in.
\<close>

theorem interpolate_segments:
  assumes "list_all segment_ok segs"
  shows "interpolate (concat (map render_segment segs)) (Some m) = concat (map (fill_segment m) segs)"
  unfolding interpolate_def using assms
proof (induction segs)
  case (Cons g segs)
  then show ?case by (cases g) (use replace_plain replace_hole in \<open>auto simp del: append_Cons append.append_Cons\<close>)
qed simp

theorem interpolate_segments_witness:
  "interpolate ''a{n}{x}'' (Some [''n'' \<mapsto> IText ''{x}'']) = ''a{x}{x}''"
proof -
  have "list_all segment_ok [Lit ''a'', Hole ''n'', Hole ''x'']" by code_simp
  from interpolate_segments [OF this, of "[''n'' \<mapsto> IText ''{x}'']"] show ?thesis by (simp add: fill_in_def)
qed

text \<open>A table whose plural entries all have the template the fallback needs.\<close>

fun table_ok :: "entry \<Rightarrow> bool" where
  "table_ok (Leaf s) = True"
| "table_ok (Node es) =
     ((\<forall>p \<in> set es. table_ok (snd p)) \<and>
      (map_of es ''_mode'' = Some (Leaf ''plural'') \<longrightarrow>
         map_of es ''other'' \<noteq> None \<and> (\<forall>p \<in> set es. case snd p of Leaf _ \<Rightarrow> True | Node _ \<Rightarrow> False)))"

text \<open>The entry at a path of the table, by the table's own names alone.\<close>

fun entry_at :: "entry \<Rightarrow> string list \<Rightarrow> entry option" where
  "entry_at e [] = Some e"
| "entry_at (Node es) (k # ks) = (case map_of es k of Some e \<Rightarrow> entry_at e ks | None \<Rightarrow> None)"
| "entry_at (Leaf s) (k # ks) = None"

text \<open>Neither the entry nor the runtime has anything under the name.\<close>

fun nothing_under :: "'f js_runtime \<Rightarrow> entry \<Rightarrow> string \<Rightarrow> bool" where
  "nothing_under rt (Node es) k \<longleftrightarrow> map_of es k = None \<and> object_prop rt k = None"
| "nothing_under rt (Leaf s) k \<longleftrightarrow> char_prop s k = None \<and> text_prop rt s k = None"

lemma nothing_under_prop: "nothing_under rt e k \<Longrightarrow> prop_of rt (thing_of e) k = Inr None"
  by (cases e) auto

lemma steps_from_nothing [simp]: "foldl (step_into rt) (Inr None) ks = Inr None"
  by (induction ks) auto

lemma steps_along_table:
  "entry_at e ks = Some e' \<Longrightarrow>
   foldl (step_into rt) (Inr (Some (thing_of e))) ks = Inr (Some (thing_of e'))"
  by (induction e ks rule: entry_at.induct) (auto split: option.splits)

lemma entry_at_ok: "entry_at e ks = Some e' \<Longrightarrow> table_ok e \<Longrightarrow> table_ok e'"
proof (induction e ks rule: entry_at.induct)
  case (2 es k ks)
  then obtain u where u: "map_of es k = Some u" "entry_at u ks = Some e'" by (auto split: option.splits)
  have "table_ok u" using 2(3) map_of_SomeD [OF u(1)] by fastforce
  then show ?case using 2(1) [OF u(1)] u(2) by blast
qed auto

lemma plural_template_leaf:
  assumes "table_ok (Node es)" and "is_plural es"
  shows "\<exists>k t. map_of es k = Some (Leaf t) \<and> plural_template category es count = Some (Leaf t)"
proof -
  have "map_of es ''other'' \<noteq> None" using assms by (simp add: is_plural_def)
  then obtain k u where u: "plural_template category es count = Some u" "map_of es k = Some u"
    unfolding plural_template_def by (fastforce split: option.splits)
  then have "(k, u) \<in> set es" by (auto dest: map_of_SomeD)
  then have "\<exists>t. u = Leaf t" using assms by (cases u) (auto simp: is_plural_def)
  then show ?thesis using u by blast
qed

text \<open>
  A walk that ends at an object of the table has only taken names of the table: an object the
  runtime supplies is never one of its objects.
\<close>

definition runtime_apart :: "'f js_runtime \<Rightarrow> bool" where
  "runtime_apart rt \<longleftrightarrow>
     (\<forall>k es. object_prop rt k \<noteq> Some (In_Table es)) \<and> (\<forall>s k es. text_prop rt s k \<noteq> Some (In_Table es)) \<and>
     (\<forall>f k es. builtin_prop rt f k \<noteq> Inr (Some (In_Table es))) \<and>
     (\<forall>f k. builtin_prop rt f k \<noteq> Inl NoTemplate)"

lemma outside_stays_outside:
  assumes "runtime_apart rt" and "\<forall>es. v \<noteq> Inr (Some (In_Table es))" and "v \<noteq> Inl NoTemplate"
  shows "(\<forall>es. foldl (step_into rt) v ks \<noteq> Inr (Some (In_Table es))) \<and>
    foldl (step_into rt) v ks \<noteq> Inl NoTemplate"
  using assms(2,3)
proof (induction ks arbitrary: v)
  case (Cons k ks)
  have "(\<forall>es. step_into rt v k \<noteq> Inr (Some (In_Table es))) \<and> step_into rt v k \<noteq> Inl NoTemplate"
  proof (cases v)
    case (Inr o')
    show ?thesis
    proof (cases o')
      case (Some w)
      then show ?thesis using assms(1) Cons.prems Inr
        by (cases w) (auto simp: runtime_apart_def split: option.splits)
    qed (simp add: Inr)
  qed (use Cons.prems in simp)
  then show ?case using Cons.IH [of "step_into rt v k"] by simp
qed simp

lemma off_table_steps:
  assumes "runtime_apart rt" and "entry_at e ks = None"
  shows "(\<forall>es. foldl (step_into rt) (Inr (Some (thing_of e))) ks \<noteq> Inr (Some (In_Table es))) \<and>
    foldl (step_into rt) (Inr (Some (thing_of e))) ks \<noteq> Inl NoTemplate"
  using assms(2)
proof (induction e ks rule: entry_at.induct)
  case (2 es k ks)
  show ?case
  proof (cases "map_of es k")
    case None
    have "(\<forall>es. Inr (object_prop rt k) \<noteq> Inr (Some (In_Table es)))"
      using assms(1) by (simp add: runtime_apart_def)
    then show ?thesis using outside_stays_outside [OF assms(1), of "Inr (object_prop rt k)" ks] None by simp
  next
    case (Some u)
    then show ?thesis using 2 by simp
  qed
next
  case (3 s k ks)
  then show ?case using outside_stays_outside [OF assms(1), of "Inr (Some (Text s))" "k # ks"] by simp
qed simp

lemma nothing_gives_key:
  assumes "split_on (CHR ''.'') key = pre @ k # post" and "entry_at table pre = Some e" and "nothing_under rt e k"
  shows "translate rt table category key values' = Inr key"
  using assms steps_along_table [OF assms(2), of rt] nothing_under_prop [OF assms(3)]
  by (simp add: translate_def walk_def)

text \<open>
  C39: A lookup with a complete table follows the table: a key that is a path to a string gives
  that string filled in, a path to a plural entry one of its templates with the count and the
  values filled in, a path to a group the key itself, and a key that meets, at the end of its
  part inside the table, a name neither the table nor the runtime knows gives the key itself; for
  a runtime whose own values are none of the table's objects (\<open>runtime_apart\<close>). A lookup throws only for a key that leaves the table into what the runtime's values inherit, at
  an accessor of theirs that throws.
\<close>

theorem translate_total:
  assumes "table_ok table" and "runtime_apart rt"
  shows "(case entry_at table (split_on (CHR ''.'') key) of
      Some (Leaf s) \<Rightarrow> translate rt table category key values' = Inr (interpolate s values')
    | Some (Node es) \<Rightarrow>
        if is_plural es
        then \<exists>k t. map_of es k = Some (Leaf t) \<and>
          translate rt table category key values' = Inr (interpolate (count_in (count_of values') t) values')
        else translate rt table category key values' = Inr key
    | None \<Rightarrow> translate rt table category key values' \<noteq> Inl NoTemplate \<and>
        (\<forall>pre k post e. split_on (CHR ''.'') key = pre @ k # post \<and> entry_at table pre = Some e \<and>
           nothing_under rt e k \<longrightarrow> translate rt table category key values' = Inr key))"
proof (cases "entry_at table (split_on (CHR ''.'') key)")
  case None
  have "(\<forall>es. walk rt table key \<noteq> Inr (Some (In_Table es))) \<and> walk rt table key \<noteq> Inl NoTemplate"
    unfolding walk_def by (rule off_table_steps [OF assms(2) None])
  then have "translate rt table category key values' \<noteq> Inl NoTemplate"
    by (auto simp: translate_def split: sum.splits option.splits thing.splits)
  then show ?thesis using None nothing_gives_key by (auto simp del: nothing_under.simps)
next
  case (Some e)
  have w: "walk rt table key = Inr (Some (thing_of e))" unfolding walk_def by (rule steps_along_table [OF Some])
  show ?thesis
  proof (cases e)
    case (Node es)
    show ?thesis
    proof (cases "is_plural es")
      case True
      obtain k t where "map_of es k = Some (Leaf t)" "plural_template category es (count_of values') = Some (Leaf t)"
        using plural_template_leaf [OF _ True] entry_at_ok [OF Some assms(1)] Node by blast
      then show ?thesis using True by (auto simp: translate_def Let_def w Node Some)
    qed (simp add: translate_def w Node Some)
  qed (simp add: translate_def w Some)
qed

definition sample_table :: entry where
  "sample_table =
     Node [(''a'', Node [(''_mode'', Leaf ''plural''), (''=0'', Leaf ''none''), (''one'', Leaf ''# story''),
                         (''other'', Leaf ''# stories'')]),
           (''hi'', Leaf ''Hello'')]"

text \<open>
  A runtime with the names the language documents: every object inherits \<open>constructor\<close>, whose
  \<open>name\<close> is a string and whose \<open>caller\<close> throws.
\<close>

definition sample_runtime :: "string js_runtime" where
  "sample_runtime =
     \<lparr>object_prop = (\<lambda>k. if k = ''constructor'' then Some (Builtin ''Object'') else None),
      text_prop = (\<lambda>s k. if k = ''constructor'' then Some (Builtin ''String'') else None),
      builtin_prop = (\<lambda>f k. if k = ''name'' then Inr (Some (Text f))
         else if k = ''caller'' then Inl GetterThrew else Inr None)\<rparr>"

theorem translate_total_witness:
  "translate sample_runtime sample_table (\<lambda>_. Some ''other'') ''a.b'' None = Inr ''a.b'' \<and>
   translate sample_runtime sample_table (\<lambda>_. Some ''other'') ''hi'' None = Inr ''Hello''"
proof -
  have ok: "table_ok sample_table" by (simp add: sample_table_def)
  have rt: "runtime_apart sample_runtime" by (simp add: sample_runtime_def runtime_apart_def)
  have ab: "split_on (CHR ''.'') ''a.b'' = [''a''] @ ''b'' # []" by simp
  obtain e where e: "entry_at sample_table [''a''] = Some e" "nothing_under sample_runtime e ''b''"
    by (simp add: sample_table_def sample_runtime_def)
  have none: "entry_at sample_table (split_on (CHR ''.'') ''a.b'') = None" by (simp add: sample_table_def)
  note all = translate_total [OF ok rt, where key = "''a.b''" and category = "\<lambda>_. Some ''other''" and values' = None,
      unfolded none option.case, THEN conjunct2]
  have "translate sample_runtime sample_table (\<lambda>_. Some ''other'') ''a.b'' None = Inr ''a.b''"
    using all ab e by blast
  then show ?thesis using translate_total [OF ok rt, where key = "''hi''" and category = "\<lambda>_. Some ''other''" and values' = None]
    by (simp add: sample_table_def interpolate_def)
qed

text \<open>The names the runtime supplies are followed, and so are the characters of a string.\<close>

lemma inherited_name_shown:
  "translate sample_runtime sample_table (\<lambda>_. None) ''constructor.name'' None = Inr ''Object''"
  by (simp add: translate_def walk_def sample_runtime_def sample_table_def interpolate_def)

lemma character_shown:
  "translate sample_runtime sample_table (\<lambda>_. None) ''hi.1'' None = Inr ''e''"
proof -
  have "char_prop ''Hello'' ''1'' = Some (CHR ''e'')" by code_simp
  then show ?thesis by (simp add: translate_def walk_def sample_table_def interpolate_def)
qed

lemma inherited_getter_throws:
  "translate sample_runtime sample_table (\<lambda>_. None) ''constructor.caller'' None = Inl GetterThrew"
  by (simp add: translate_def walk_def sample_runtime_def sample_table_def)

end
