(* ===== verification/Crawler.thy ===== *)
theory Crawler
  imports Url
begin

text \<open>
  The crawler pages of the web app (\<open>apps/web/src/lib/seo/crawler.ts\<close>): their slugs and the
  pages per country, city and starter. The server is the record \<open>server\<close>: for every endpoint the
  answer to a path, \<open>None\<close> when the request fails or times out, otherwise whether the status was
  ok and the body, \<open>None\<close> where it is not JSON. Cache lifetimes are left out. The country names
  of \<open>Intl\<close> are the parameter \<open>display\<close>.
\<close>

section \<open>Slugs\<close>

definition country_pages :: "string list" where
  "country_pages =
     [''IE'', ''GB'', ''US'', ''CA'', ''AU'', ''NZ'', ''IN'', ''DE'', ''FR'', ''ES'', ''IT'', ''NL'', ''SE'', ''NO'', ''DK'',
      ''FI'', ''PL'', ''PT'', ''BR'', ''MX'', ''AR'', ''ZA'', ''NG'', ''KE'', ''JP'', ''KR'', ''SG'', ''PH'', ''ID'', ''AE'']"

definition headlines_per_card :: nat where "headlines_per_card = 8"
definition cards_per_page :: nat where "cards_per_page = 6"

definition slug_char :: "char \<Rightarrow> bool" where
  "slug_char c \<longleftrightarrow> is_lower c \<or> is_digit c \<or> c = CHR ''-''"

text \<open>What follows a prefix, when it has only such characters and a length in bounds.\<close>

definition after_prefix :: "string \<Rightarrow> (char \<Rightarrow> bool) \<Rightarrow> nat \<Rightarrow> nat \<Rightarrow> string \<Rightarrow> string option" where
  "after_prefix p ok lo hi s =
     (let r = drop (length p) s
      in if starts_with p s \<and> list_all ok r \<and> lo \<le> length r \<and> length r \<le> hi then Some r else None)"

definition country_of_slug :: "string \<Rightarrow> string option" where
  "country_of_slug = after_prefix ''news-in-'' is_lower 2 2"

definition is_city_slug :: "string \<Rightarrow> bool" where
  "is_city_slug s \<longleftrightarrow> after_prefix ''city-'' slug_char 3 80 s \<noteq> None"

definition starter_of_slug :: "string \<Rightarrow> string option" where
  "starter_of_slug = after_prefix ''starter-'' slug_char 1 40"

datatype crawler_slug = CountrySlug string | CitySlug string | StarterSlug string

definition parse_crawler_slug :: "string \<Rightarrow> crawler_slug option" where
  "parse_crawler_slug s =
     (case country_of_slug s of
        Some c \<Rightarrow> Some (CountrySlug (to_upper c))
      | None \<Rightarrow>
          if is_city_slug s then Some (CitySlug s)
          else map_option StarterSlug (starter_of_slug s))"

definition country_slug :: "string \<Rightarrow> string" where
  "country_slug c = ''news-in-'' @ to_lower c"

definition starter_slug :: "string \<Rightarrow> string" where
  "starter_slug i = ''starter-'' @ i"

definition country_name :: "(string \<Rightarrow> string option) \<Rightarrow> string \<Rightarrow> string" where
  "country_name display c = or_else (display c) c"

definition starter_name :: "string \<Rightarrow> (string \<rightharpoonup> string) \<Rightarrow> string" where
  "starter_name i names = or_else (names i) (map (\<lambda>c. if c = CHR ''-'' then CHR '' '' else c) i)"

section \<open>What the server answers\<close>

record source_meta =
  sm_id :: string
  sm_name :: string
  sm_home :: "string option"
  sm_column :: "string option"
  sm_redirect :: "string option"

record crawler_item =
  it_id :: string
  it_title :: string
  it_url :: string

record source_card =
  sc_feed :: bool
  sc_items :: "crawler_item list"
  sc_meta :: "source_meta option"
  sc_updated :: "int option"
  sc_state :: string

record template =
  tp_id :: string
  tp_sources :: "string list"

type_synonym 'a answer = "(bool \<times> 'a option) option"

record server =
  sv_card :: "string \<Rightarrow> source_card answer"
  sv_sources :: "string \<Rightarrow> source_meta list answer"
  sv_source :: "string \<Rightarrow> source_meta answer"
  sv_defaults :: "string \<Rightarrow> string list answer"
  sv_templates :: "string \<Rightarrow> template list answer"

definition fetch_json :: "(string \<Rightarrow> 'a answer) \<Rightarrow> string \<Rightarrow> 'a option" where
  "fetch_json api path = (case api path of None \<Rightarrow> None | Some (ok, body) \<Rightarrow> if ok then body else None)"

section \<open>Pages\<close>

record crawler_card =
  cr_id :: string
  cr_name :: string
  cr_home :: "string option"
  cr_updated :: "int option"
  cr_state :: string
  cr_items :: "crawler_item list"

record crawler_page =
  pg_title :: string
  pg_intro :: string
  pg_wall :: string
  pg_cards :: "crawler_card list"
  pg_more :: int

record page_text =
  tx_title :: "string \<Rightarrow> string"
  tx_intro :: "string \<Rightarrow> string"

definition first_some :: "'a option \<Rightarrow> 'a option \<Rightarrow> 'a option" where
  "first_some a b = (case a of None \<Rightarrow> b | Some _ \<Rightarrow> a)"

definition card_for :: "server \<Rightarrow> string \<Rightarrow> source_meta option \<Rightarrow> crawler_card option" where
  "card_for sv i meta =
     (case fetch_json (sv_card sv) (''/v1/cards/'' @ encode_uri_component i) of
        None \<Rightarrow> None
      | Some c \<Rightarrow>
          if \<not> sc_feed c then None
          else Some
            \<lparr>cr_id = i,
             cr_name = or_else (first_some (map_option sm_name meta) (map_option sm_name (sc_meta c))) i,
             cr_home = first_some (Option.bind meta sm_home) (Option.bind (sc_meta c) sm_home),
             cr_updated = sc_updated c, cr_state = sc_state c,
             cr_items = take headlines_per_card (sc_items c)\<rparr>)"

definition metas_for :: "server \<Rightarrow> string list \<Rightarrow> string \<rightharpoonup> source_meta" where
  "metas_for sv ids =
     (if ids = [] then Map.empty
      else map_of (rev (map (\<lambda>m. (sm_id m, m))
        (or_else (fetch_json (sv_sources sv)
            (''/v1/news/sources?ids='' @ encode_uri_component (join_with '','' ids))) []))))"

definition feed_ids :: "string list \<Rightarrow> string list" where
  "feed_ids ids = filter (\<lambda>i. i \<noteq> ''weather'') ids"

definition cards_for :: "server \<Rightarrow> string list \<Rightarrow> crawler_card list" where
  "cards_for sv ids =
     (let wanted = take cards_per_page (feed_ids ids); metas = metas_for sv wanted
      in filter (\<lambda>c. cr_items c \<noteq> []) (List.map_filter (\<lambda>i. card_for sv i (metas i)) wanted))"

definition country_page :: "server \<Rightarrow> (string \<Rightarrow> string option) \<Rightarrow> string \<Rightarrow> page_text \<Rightarrow> crawler_page option" where
  "country_page sv display c t =
     (if c \<notin> set country_pages then None
      else (case fetch_json (sv_defaults sv) (''/v1/news/default-cards?country='' @ c) of
          None \<Rightarrow> None
        | Some ids \<Rightarrow>
            if ids = [] then None
            else
              (let cards = cards_for sv ids; country = country_name display c
               in if cards = [] then None
                  else Some
                    \<lparr>pg_title = tx_title t country, pg_intro = tx_intro t country,
                     pg_wall = ''/?card='' @ encode_uri_component (''gnews-'' @ to_lower c), pg_cards = cards,
                     pg_more = max 0 (int (length (feed_ids ids)) - int (length cards))\<rparr>)))"

definition city_page :: "server \<Rightarrow> string \<Rightarrow> page_text \<Rightarrow> crawler_page option" where
  "city_page sv i t =
     (case fetch_json (sv_source sv) (''/v1/news/sources/'' @ encode_uri_component i) of
        None \<Rightarrow> None
      | Some meta \<Rightarrow>
          if sm_column meta \<noteq> Some ''cities'' then None
          else (case card_for sv i (Some meta) of
              None \<Rightarrow> None
            | Some cc \<Rightarrow>
                if cr_items cc = [] then None
                else Some
                  \<lparr>pg_title = tx_title t (sm_name meta), pg_intro = tx_intro t (sm_name meta),
                   pg_wall = ''/?card='' @ encode_uri_component i, pg_cards = [cc], pg_more = 0\<rparr>))"

definition starter_page :: "server \<Rightarrow> string \<Rightarrow> (string \<rightharpoonup> string) \<Rightarrow> page_text \<Rightarrow> crawler_page option" where
  "starter_page sv i names t =
     (case Option.bind (fetch_json (sv_templates sv) ''/v1/news/templates'') (find (\<lambda>x. tp_id x = i)) of
        None \<Rightarrow> None
      | Some tp \<Rightarrow>
          if tp_sources tp = [] then None
          else
            (let cards = cards_for sv (tp_sources tp); name = starter_name i names
             in if cards = [] then None
                else Some
                  \<lparr>pg_title = tx_title t name, pg_intro = tx_intro t name, pg_wall = ''/'', pg_cards = cards,
                   pg_more = max 0 (int (length (tp_sources tp)) - int (length cards))\<rparr>))"

definition crawler_slugs :: "server \<Rightarrow> string list" where
  "crawler_slugs sv =
     map country_slug country_pages @
     map (\<lambda>tp. starter_slug (tp_id tp)) (or_else (fetch_json (sv_templates sv) ''/v1/news/templates'') []) @
     map sm_id (filter (\<lambda>m. sm_column m = Some ''cities'' \<and> truthy (sm_redirect m) = None \<and> is_city_slug (sm_id m))
       (or_else (fetch_json (sv_sources sv) ''/v1/news/sources'') []))"

section \<open>The slugs\<close>

lemma after_prefix_append:
  "after_prefix p ok lo hi (p @ r) = (if list_all ok r \<and> lo \<le> length r \<and> length r \<le> hi then Some r else None)"
  by (simp add: after_prefix_def Let_def)

lemma after_prefix_Some: "after_prefix p ok lo hi s = Some r \<Longrightarrow> s = p @ r"
  by (auto simp: after_prefix_def Let_def starts_with_def split: if_splits) (metis append_take_drop_id)

lemma after_prefix_None: "(\<And>r. s \<noteq> p @ r) \<Longrightarrow> after_prefix p ok lo hi s = None"
proof (cases "after_prefix p ok lo hi s")
  case (Some r)
  assume "\<And>r. s \<noteq> p @ r"
  then show ?thesis using after_prefix_Some [OF Some] by blast
qed

lemma upper_lower_char: "is_upper c \<Longrightarrow> upper_char (lower_char c) = c \<and> is_lower (lower_char c)"
  by (auto simp: upper_char_def lower_char_def is_upper_def is_lower_def)

lemma country_slugs_parse: "\<forall>c \<in> set country_pages. parse_crawler_slug (country_slug c) = Some (CountrySlug c)"
proof
  fix c assume "c \<in> set country_pages"
  moreover have "list_all (\<lambda>c. length c = 2 \<and> list_all is_upper c) country_pages"
    by (simp add: country_pages_def is_upper_def)
  ultimately have c: "length c = 2" "list_all is_upper c" by (auto simp: list_all_iff)
  then have lower: "list_all is_lower (to_lower c)" "to_upper (to_lower c) = c" "length (to_lower c) = 2"
    using upper_lower_char by (auto simp: list_all_iff to_lower_def to_upper_def intro: map_idI)
  have "country_of_slug (country_slug c) = Some (to_lower c)"
    unfolding country_of_slug_def country_slug_def after_prefix_append using lower by simp
  then show "parse_crawler_slug (country_slug c) = Some (CountrySlug c)"
    using lower by (simp add: parse_crawler_slug_def)
qed

lemma starter_slug_parse:
  "parse_crawler_slug (starter_slug i) =
     (if list_all slug_char i \<and> 1 \<le> length i \<and> length i \<le> 40 then Some (StarterSlug i) else None)"
proof -
  have "country_of_slug (starter_slug i) = None" "\<not> is_city_slug (starter_slug i)"
    unfolding country_of_slug_def is_city_slug_def starter_slug_def not_not
    by (rule after_prefix_None; simp)+
  moreover have "starter_of_slug (starter_slug i) =
      (if list_all slug_char i \<and> 1 \<le> length i \<and> length i \<le> 40 then Some i else None)"
    unfolding starter_of_slug_def starter_slug_def by (rule after_prefix_append)
  ultimately show ?thesis by (simp add: parse_crawler_slug_def)
qed

lemma city_slug_parse: "is_city_slug i \<Longrightarrow> parse_crawler_slug i = Some (CitySlug i)"
proof -
  assume city: "is_city_slug i"
  then obtain r where "i = ''city-'' @ r" using after_prefix_Some by (fastforce simp: is_city_slug_def)
  then have "country_of_slug i = None"
    unfolding country_of_slug_def by (intro after_prefix_None) simp
  then show ?thesis using city by (simp add: parse_crawler_slug_def)
qed

text \<open>
  the page route understands every slug the sitemap lists, as the page it was listed for,
  except a starter whose id the route's pattern does not allow; without the server the sitemap
  is the fixed countries.
\<close>

theorem sitemap_slugs_resolve:
  "(\<forall>s \<in> set (crawler_slugs sv).
      (\<exists>c \<in> set country_pages. parse_crawler_slug s = Some (CountrySlug c)) \<or>
      parse_crawler_slug s = Some (CitySlug s) \<or>
      (\<exists>i. s = starter_slug i \<and>
         parse_crawler_slug s = (if list_all slug_char i \<and> 1 \<le> length i \<and> length i \<le> 40 then Some (StarterSlug i) else None))) \<and>
   (fetch_json (sv_templates sv) ''/v1/news/templates'' = None \<and> fetch_json (sv_sources sv) ''/v1/news/sources'' = None \<longrightarrow>
      crawler_slugs sv = map country_slug country_pages)"
proof (intro conjI ballI impI)
  fix s assume "s \<in> set (crawler_slugs sv)"
  then consider c where "c \<in> set country_pages" "s = country_slug c" | i where "s = starter_slug i" | "is_city_slug s"
    unfolding crawler_slugs_def by auto
  then show "(\<exists>c \<in> set country_pages. parse_crawler_slug s = Some (CountrySlug c)) \<or>
      parse_crawler_slug s = Some (CitySlug s) \<or>
      (\<exists>i. s = starter_slug i \<and>
         parse_crawler_slug s = (if list_all slug_char i \<and> 1 \<le> length i \<and> length i \<le> 40 then Some (StarterSlug i) else None))"
  proof cases
    case 1
    then show ?thesis using country_slugs_parse by blast
  next
    case 2
    then show ?thesis using starter_slug_parse by blast
  next
    case 3
    then show ?thesis using city_slug_parse by blast
  qed
qed (simp add: crawler_slugs_def)

definition no_server :: server where
  "no_server = \<lparr>sv_card = (\<lambda>_. None), sv_sources = (\<lambda>_. None), sv_source = (\<lambda>_. None),
     sv_defaults = (\<lambda>_. None), sv_templates = (\<lambda>_. None)\<rparr>"

theorem sitemap_slugs_resolve_witness: "crawler_slugs no_server = map country_slug country_pages"
  by (rule sitemap_slugs_resolve [THEN conjunct2, THEN mp]) (simp add: fetch_json_def no_server_def)

section \<open>The pages\<close>

lemma card_for_Some:
  "card_for sv i meta = Some c \<Longrightarrow> cr_id c = i \<and> length (cr_items c) \<le> headlines_per_card"
  by (auto simp: card_for_def split: option.splits if_splits)

lemma ids_of_map_filter:
  "(\<And>i c. f i = Some c \<Longrightarrow> g c = i) \<Longrightarrow> map g (List.map_filter f xs) = filter (\<lambda>i. f i \<noteq> None) xs"
  by (induction xs) (auto simp: List.map_filter_def)

text \<open>The cards of a page: wanted sources in their order, each with its first headlines.\<close>

definition page_cards_ok :: "string list \<Rightarrow> crawler_card list \<Rightarrow> bool" where
  "page_cards_ok ids cs \<longleftrightarrow>
     length cs \<le> cards_per_page \<and>
     (\<exists>P. map cr_id cs = filter P (take cards_per_page (feed_ids ids))) \<and>
     list_all (\<lambda>c. cr_items c \<noteq> [] \<and> length (cr_items c) \<le> headlines_per_card \<and> cr_id c \<noteq> ''weather'') cs"

lemma map_filter_filter: "map g (filter P xs) = filter Q (map g xs)" if "\<And>x. x \<in> set xs \<Longrightarrow> P x = Q (g x)"
  using that by (induction xs) auto

lemma cards_for_ok: "page_cards_ok ids (cards_for sv ids)"
proof -
  define wanted where "wanted = take cards_per_page (feed_ids ids)"
  define f where "f = (\<lambda>i. card_for sv i (metas_for sv wanted i))"
  define full where "full = (\<lambda>i. case f i of None \<Rightarrow> False | Some c \<Rightarrow> cr_items c \<noteq> [])"
  let ?found = "List.map_filter f wanted"
  have cards: "cards_for sv ids = filter (\<lambda>c. cr_items c \<noteq> []) ?found"
    by (simp add: cards_for_def Let_def wanted_def f_def)
  have member: "f (cr_id c) = Some c \<and> cr_id c \<in> set wanted" if "c \<in> set ?found" for c
    using that card_for_Some by (fastforce simp: List.map_filter_def f_def)
  have ids: "map cr_id ?found = filter (\<lambda>i. f i \<noteq> None) wanted"
    by (rule ids_of_map_filter) (auto simp: f_def dest: card_for_Some)
  have "map cr_id (cards_for sv ids) = filter full (map cr_id ?found)"
    unfolding cards by (rule map_filter_filter) (use member in \<open>fastforce simp: full_def\<close>)
  then have order: "map cr_id (cards_for sv ids) = filter (\<lambda>i. f i \<noteq> None \<and> full i) wanted"
    by (simp add: ids conj_commute)
  have "length (cards_for sv ids) \<le> length wanted"
    using arg_cong [OF order, of length] by (metis length_filter_le length_map)
  then have len: "length (cards_for sv ids) \<le> cards_per_page" by (simp add: wanted_def)
  have "cr_items c \<noteq> [] \<and> length (cr_items c) \<le> headlines_per_card \<and> cr_id c \<noteq> ''weather''"
    if "c \<in> set (cards_for sv ids)" for c
  proof -
    have c: "c \<in> set ?found" "cr_items c \<noteq> []" using that by (simp_all add: cards)
    then have "cr_id c \<in> set (feed_ids ids)" using member by (auto simp: wanted_def dest: in_set_takeD)
    moreover have "card_for sv (cr_id c) (metas_for sv wanted (cr_id c)) = Some c"
      using member [OF c(1)] by (simp add: f_def)
    ultimately show ?thesis using c(2) card_for_Some [of sv "cr_id c" _ c] by (simp add: feed_ids_def)
  qed
  then show ?thesis using len order unfolding page_cards_ok_def wanted_def list_all_iff by blast
qed

definition page_ok :: "string list \<Rightarrow> crawler_page \<Rightarrow> bool" where
  "page_ok ids p \<longleftrightarrow> pg_cards p \<noteq> [] \<and> page_cards_ok ids (pg_cards p) \<and> 0 \<le> pg_more p"

text \<open>
  A crawler page always has something to show: one to six cards, in the order the server
  gave, each with one to eight headlines and none of them the weather strip; a country page exists
  for a listed country only and a city page for a city card only.
\<close>

theorem crawler_pages_sound:
  "(country_page sv display c t = Some p \<longrightarrow>
      c \<in> set country_pages \<and>
      (\<exists>ids. fetch_json (sv_defaults sv) (''/v1/news/default-cards?country='' @ c) = Some ids \<and> page_ok ids p \<and>
         pg_more p = int (length (feed_ids ids)) - int (length (pg_cards p)))) \<and>
   (city_page sv i t = Some q \<and> i \<noteq> ''weather'' \<longrightarrow> page_ok [i] q \<and> pg_more q = 0) \<and>
   (starter_page sv i names t = Some r \<longrightarrow>
      (\<exists>tps tp. fetch_json (sv_templates sv) ''/v1/news/templates'' = Some tps \<and> tp \<in> set tps \<and> tp_id tp = i \<and>
         page_ok (tp_sources tp) r \<and> pg_more r = int (length (tp_sources tp)) - int (length (pg_cards r))))"
proof (intro conjI impI)
  have fewer: "length (cards_for sv ids) \<le> length (feed_ids ids)" for ids
  proof -
    obtain P where "map cr_id (cards_for sv ids) = filter P (take cards_per_page (feed_ids ids))"
      using cards_for_ok [of ids sv] by (auto simp: page_cards_ok_def)
    from arg_cong [OF this, of length] show ?thesis
      using length_filter_le [of P "take cards_per_page (feed_ids ids)"] by simp
  qed
  {
    assume page: "country_page sv display c t = Some p"
    then show "c \<in> set country_pages" by (auto simp: country_page_def split: if_splits)
    show "\<exists>ids. fetch_json (sv_defaults sv) (''/v1/news/default-cards?country='' @ c) = Some ids \<and> page_ok ids p \<and>
       pg_more p = int (length (feed_ids ids)) - int (length (pg_cards p))"
      using page fewer cards_for_ok
      by (auto simp: country_page_def Let_def page_ok_def split: if_splits option.splits)
  next
    assume "city_page sv i t = Some q \<and> i \<noteq> ''weather''"
    then show "page_ok [i] q" and "pg_more q = 0"
      using card_for_Some
      by (auto simp: city_page_def page_ok_def page_cards_ok_def feed_ids_def cards_per_page_def
          split: if_splits option.splits intro!: exI [of _ "\<lambda>_. True"])
  next
    assume "starter_page sv i names t = Some r"
    moreover from this obtain tp where
      tp: "Option.bind (fetch_json (sv_templates sv) ''/v1/news/templates'') (find (\<lambda>x. tp_id x = i)) = Some tp"
      by (cases "Option.bind (fetch_json (sv_templates sv) ''/v1/news/templates'') (find (\<lambda>x. tp_id x = i))")
        (simp_all add: starter_page_def)
    ultimately have "page_ok (tp_sources tp) r \<and> pg_more r = int (length (tp_sources tp)) - int (length (pg_cards r))"
      using cards_for_ok le_trans [OF fewer length_filter_le [of "\<lambda>i. i \<noteq> ''weather''" "tp_sources tp", folded feed_ids_def]]
      by (auto simp: starter_page_def Let_def page_ok_def split: if_splits)
    moreover obtain tps where "fetch_json (sv_templates sv) ''/v1/news/templates'' = Some tps" "tp \<in> set tps" "tp_id tp = i"
      using tp by (auto simp: bind_eq_Some_conv find_Some_iff)
    ultimately show "\<exists>tps tp. fetch_json (sv_templates sv) ''/v1/news/templates'' = Some tps \<and> tp \<in> set tps \<and>
        tp_id tp = i \<and> page_ok (tp_sources tp) r \<and>
        pg_more r = int (length (tp_sources tp)) - int (length (pg_cards r))"
      by blast
  }
qed

definition sample_server :: server where
  "sample_server =
     \<lparr>sv_card = (\<lambda>_. Some (True, Some \<lparr>sc_feed = True, sc_items = [\<lparr>it_id = ''1'', it_title = ''t'', it_url = ''u''\<rparr>],
        sc_meta = None, sc_updated = None, sc_state = ''nominal''\<rparr>)),
      sv_sources = (\<lambda>_. None), sv_source = (\<lambda>_. None),
      sv_defaults = (\<lambda>_. Some (True, Some [''weather'', ''bbc''])),
      sv_templates = (\<lambda>_. Some (True, Some [\<lparr>tp_id = ''s'', tp_sources = [''weather'', ''bbc'']\<rparr>]))\<rparr>"

definition plain_text :: page_text where
  "plain_text = \<lparr>tx_title = (\<lambda>x. x), tx_intro = (\<lambda>x. x)\<rparr>"

text \<open>The same sources leave nothing more on a country page and one more on a starter page.\<close>

lemma weather_counted_on_starters:
  "map_option pg_more (country_page sample_server Some ''IE'' plain_text) = Some 0 \<and>
   map_option pg_more (starter_page sample_server ''s'' Map.empty plain_text) = Some 1"
proof -
  have "cards_for sample_server [''weather'', ''bbc''] =
      [\<lparr>cr_id = ''bbc'', cr_name = ''bbc'', cr_home = None, cr_updated = None, cr_state = ''nominal'',
        cr_items = [\<lparr>it_id = ''1'', it_title = ''t'', it_url = ''u''\<rparr>]\<rparr>]"
    by (simp add: cards_for_def feed_ids_def cards_per_page_def metas_for_def card_for_def fetch_json_def
        sample_server_def headlines_per_card_def first_some_def List.map_filter_def Let_def)
  then show ?thesis
    by (simp add: country_page_def starter_page_def fetch_json_def country_pages_def feed_ids_def Let_def)
      (simp add: sample_server_def feed_ids_def Let_def)
qed

theorem crawler_pages_sound_witness:
  "\<exists>p. country_page sample_server Some ''IE'' plain_text = Some p \<and> page_ok [''weather'', ''bbc''] p"
proof -
  obtain p where p: "country_page sample_server Some ''IE'' plain_text = Some p"
    using weather_counted_on_starters by auto
  then show ?thesis
    using crawler_pages_sound [of sample_server Some "''IE''" plain_text p]
    by (auto simp: fetch_json_def sample_server_def)
qed

end
