(* ===== verification/Box_Styles.thy ===== *)
theory Box_Styles
  imports Js_Sort
begin

text \<open>
  The style resolver of the design system's boxes (\<open>packages/orbit/src/utils/resolvers.ts\<close>).
  The calls of \<open>addTokenProp\<close> and \<open>addArbitraryProp\<close> are the list \<open>box_rules\<close>, in their order;
  resolving folds them over the state the closures share. The atomic styles and the values of
  the design tokens come from the style compiler and are the parameter record \<open>style_env\<close>,
  as are the spelling of a number and the collation order \<open>localeCompare\<close>. A property value is a
  scalar or an object of states; its entries are listed in the object's order, \<open>None\<close> is
  \<open>undefined\<close>, and keys an object inherits are left out.
\<close>

section \<open>Values\<close>

datatype css_value = CText string | CNum real

datatype style_value = Scalar css_value | ByState "(string \<times> css_value option) list"

type_synonym style_props = "string \<rightharpoonup> style_value"
type_synonym decls = "(string \<times> css_value option) list"

record 'sx style_env =
  ev_table :: "string \<Rightarrow> string \<rightharpoonup> string"
  ev_style :: "string \<Rightarrow> string \<Rightarrow> 'sx option"
  ev_num :: "real \<Rightarrow> string"
  ev_lc :: "string \<Rightarrow> string \<Rightarrow> real"

definition pseudo_selectors :: "(string \<times> string) list" where
  "pseudo_selectors =
     [(''hover'', '':hover''), (''focus'', '':focus''), (''active'', '':active''),
      (''focusVisible'', '':focus-visible''), (''focusWithin'', '':focus-within'')]"

definition breakpoint_widths :: "(string \<times> int) list" where
  "breakpoint_widths = [(''sm'', 640), (''md'', 768), (''lg'', 1024), (''xl'', 1280)]"

definition to_kebab :: "string \<Rightarrow> string" where
  "to_kebab s = concat (map (\<lambda>c. if is_upper c then [CHR ''-'', lower_char c] else [c]) s)"

definition normalized_css_key :: "string \<Rightarrow> string" where
  "normalized_css_key k = (if CHR ''-'' \<in> set k then k else to_kebab k)"

definition declaration_order :: "string list" where
  "declaration_order =
     [''padding'', ''margin'', ''gap'', ''padding-inline'', ''margin-inline'', ''padding-block'',
      ''margin-block'', ''row-gap'', ''column-gap'', ''padding-top'', ''padding-right'', ''padding-bottom'',
      ''padding-left'', ''margin-top'', ''margin-right'', ''margin-bottom'', ''margin-left'',
      ''border-width'', ''border-style'', ''border-color'', ''border-radius'', ''border-top-left-radius'',
      ''border-top-right-radius'', ''border-bottom-left-radius'', ''border-bottom-right-radius'',
      ''border-top-width'', ''border-right-width'', ''border-bottom-width'', ''border-left-width'',
      ''overflow'', ''overflow-x'', ''overflow-y'', ''flex'', ''flex-direction'', ''flex-wrap'',
      ''flex-grow'', ''flex-shrink'', ''flex-basis'', ''inset'', ''top'', ''right'', ''bottom'', ''left'']"

definition order_place :: "string \<Rightarrow> int" where
  "order_place k = (let i = index_of k declaration_order in if i = -1 then 10000 else i)"

definition compare_keys :: "(string \<Rightarrow> string \<Rightarrow> real) \<Rightarrow> string \<Rightarrow> string \<Rightarrow> real" where
  "compare_keys lc a b =
     (let ka = normalized_css_key a; kb = normalized_css_key b; pa = order_place ka; pb = order_place kb
      in if pa \<noteq> pb then real_of_int (pa - pb) else lc ka kb)"

definition sorted_entries :: "(string \<Rightarrow> string \<Rightarrow> real) \<Rightarrow> decls \<Rightarrow> decls" where
  "sorted_entries lc ds = js_sort (\<lambda>a b. compare_keys lc (fst a) (fst b)) ds"

section \<open>From tokens to CSS\<close>

fun show_css :: "'sx style_env \<Rightarrow> css_value \<Rightarrow> string" where
  "show_css ev (CText s) = s"
| "show_css ev (CNum x) = ev_num ev x"

definition show_decl_value :: "'sx style_env \<Rightarrow> css_value option \<Rightarrow> string" where
  "show_decl_value ev v = (case v of None \<Rightarrow> ''undefined'' | Some c \<Rightarrow> show_css ev c)"

fun px_value :: "'sx style_env \<Rightarrow> css_value \<Rightarrow> css_value" where
  "px_value ev (CNum x) = CText (if x = 0 then ''0'' else ev_num ev x @ ''px'')"
| "px_value ev (CText s) = CText (s @ ''px'')"

definition is_positive_spacing :: "'sx style_env \<Rightarrow> string \<Rightarrow> bool" where
  "is_positive_spacing ev s \<longleftrightarrow> ev_table ev ''spacing'' s \<noteq> None"

definition is_negative_spacing :: "'sx style_env \<Rightarrow> string \<Rightarrow> bool" where
  "is_negative_spacing ev s \<longleftrightarrow> take 1 s = ''-'' \<and> is_positive_spacing ev (drop 1 s)"

definition negative_spacing :: "'sx style_env \<Rightarrow> string \<Rightarrow> css_value" where
  "negative_spacing ev s = CText (''calc('' @ or_else (ev_table ev ''spacing'' (drop 1 s)) ''undefined'' @ '' * -1)'')"

definition spacing_css :: "'sx style_env \<Rightarrow> string \<Rightarrow> css_value option" where
  "spacing_css ev s =
     (if is_negative_spacing ev s then Some (negative_spacing ev s)
      else map_option CText (ev_table ev ''spacing'' s))"

fun offset_css :: "'sx style_env \<Rightarrow> css_value \<Rightarrow> css_value option" where
  "offset_css ev (CNum x) = Some (px_value ev (CNum x))"
| "offset_css ev (CText s) =
     (if is_positive_spacing ev s then map_option CText (ev_table ev ''spacing'' s)
      else if is_negative_spacing ev s then Some (negative_spacing ev s)
      else Some (CText s))"

definition transition_values :: "(string \<times> string) list" where
  "transition_values =
     [(''none'', ''none''), (''all'', ''all''),
      (''common'', ''color, background-color, border-color, box-shadow, opacity, transform''),
      (''colors'', ''color, background-color, border-color''), (''opacity'', ''opacity''),
      (''shadow'', ''box-shadow''), (''transform'', ''transform'')]"

definition flex_keywords :: "(string \<times> string) list" where
  "flex_keywords =
     [(''start'', ''flex-start''), (''end'', ''flex-end''), (''between'', ''space-between''),
      (''around'', ''space-around''), (''evenly'', ''space-evenly'')]"

definition flex_keyword :: "string \<Rightarrow> string" where
  "flex_keyword v = or_else (map_of flex_keywords v) v"

text \<open>The functions the calls pass as \<open>transform\<close>.\<close>

datatype transform =
    TSpacing | TMargin | TTable string | TTransition | TKeyword | TSame | TPx | TSize | TFlex | TOffset

fun transform_value :: "'sx style_env \<Rightarrow> transform \<Rightarrow> css_value \<Rightarrow> css_value option" where
  "transform_value ev TSpacing v = spacing_css ev (show_css ev v)"
| "transform_value ev TMargin v =
     (if v = CText ''auto'' then Some (CText ''auto'') else spacing_css ev (show_css ev v))"
| "transform_value ev (TTable name) v = map_option CText (ev_table ev name (show_css ev v))"
| "transform_value ev TTransition v = map_option CText (map_of transition_values (show_css ev v))"
| "transform_value ev TKeyword v = Some (case v of CText s \<Rightarrow> CText (flex_keyword s) | CNum x \<Rightarrow> CNum x)"
| "transform_value ev TSame v = Some v"
| "transform_value ev TPx v = Some (px_value ev v)"
| "transform_value ev TSize v = Some (case v of CNum x \<Rightarrow> px_value ev (CNum x) | CText s \<Rightarrow> CText s)"
| "transform_value ev TFlex v =
     Some (case v of CNum x \<Rightarrow> CText (ev_num ev x @ '' '' @ ev_num ev x @ '' 0%'') | CText s \<Rightarrow> CText s)"
| "transform_value ev TOffset v = offset_css ev v"

section \<open>The properties\<close>

definition box_style_prop_keys :: "string list" where
  "box_style_prop_keys =
     [''padding'', ''paddingTop'', ''paddingRight'', ''paddingBottom'', ''paddingLeft'',
      ''paddingHorizontal'', ''paddingVertical'', ''p'', ''pt'', ''pr'', ''pb'', ''pl'', ''px'', ''py'',
      ''margin'', ''marginTop'', ''marginRight'', ''marginBottom'', ''marginLeft'', ''marginHorizontal'',
      ''marginVertical'', ''m'', ''mt'', ''mr'', ''mb'', ''ml'', ''mx'', ''my'', ''gap'', ''rowGap'',
      ''columnGap'', ''g'', ''backgroundColor'', ''color'', ''borderColor'', ''borderRadius'',
      ''borderTopLeftRadius'', ''borderTopRightRadius'', ''borderBottomLeftRadius'',
      ''borderBottomRightRadius'', ''borderWidth'', ''borderTopWidth'', ''borderRightWidth'',
      ''borderBottomWidth'', ''borderLeftWidth'', ''borderStyle'', ''boxShadow'', ''display'', ''overflow'',
      ''overflowX'', ''overflowY'', ''width'', ''height'', ''minWidth'', ''maxWidth'', ''minHeight'',
      ''maxHeight'', ''aspectRatio'', ''flex'', ''flexDirection'', ''flexWrap'', ''flexGrow'',
      ''flexShrink'', ''flexBasis'', ''alignItems'', ''alignSelf'', ''justifyContent'', ''alignContent'',
      ''gridTemplateColumns'', ''gridTemplateRows'', ''gridTemplateAreas'', ''gridColumn'', ''gridRow'',
      ''gridArea'', ''gridColumnStart'', ''gridColumnEnd'', ''gridRowStart'', ''gridRowEnd'',
      ''gridAutoFlow'', ''gridAutoColumns'', ''gridAutoRows'', ''position'', ''top'', ''right'', ''bottom'',
      ''left'', ''inset'', ''zIndex'', ''transitionProperty'', ''transitionDuration'',
      ''transitionTimingFunction'', ''ease'', ''transitionDelay'', ''transform'', ''transformOrigin'',
      ''willChange'', ''opacity'', ''cursor'', ''pointerEvents'', ''visibility'', ''userSelect'',
      ''textAlign'']"

text \<open>A token call with the spellings \<open>??\<close> tries in turn, and an arbitrary call.\<close>

datatype style_rule = TokenRule "string list" string transform | ArbRule string transform

text \<open>The calls, section by section.\<close>

definition spacing_rules :: "style_rule list" where
  "spacing_rules =
     [TokenRule [''padding'', ''p''] ''padding'' TSpacing,
      TokenRule [''paddingTop'', ''pt''] ''padding-top'' TSpacing,
      TokenRule [''paddingRight'', ''pr''] ''padding-right'' TSpacing,
      TokenRule [''paddingBottom'', ''pb''] ''padding-bottom'' TSpacing,
      TokenRule [''paddingLeft'', ''pl''] ''padding-left'' TSpacing,
      TokenRule [''paddingHorizontal'', ''px''] ''padding-inline'' TSpacing,
      TokenRule [''paddingVertical'', ''py''] ''padding-block'' TSpacing,
      TokenRule [''margin'', ''m''] ''margin'' TMargin,
      TokenRule [''marginTop'', ''mt''] ''margin-top'' TMargin,
      TokenRule [''marginRight'', ''mr''] ''margin-right'' TMargin,
      TokenRule [''marginBottom'', ''mb''] ''margin-bottom'' TMargin,
      TokenRule [''marginLeft'', ''ml''] ''margin-left'' TMargin,
      TokenRule [''marginHorizontal'', ''mx''] ''margin-inline'' TMargin,
      TokenRule [''marginVertical'', ''my''] ''margin-block'' TMargin,
      TokenRule [''gap'', ''g''] ''gap'' TSpacing, TokenRule [''rowGap''] ''row-gap'' TSpacing,
      TokenRule [''columnGap''] ''column-gap'' TSpacing]"

definition colour_border_rules :: "style_rule list" where
  "colour_border_rules =
     [TokenRule [''backgroundColor''] ''background-color'' (TTable ''backgroundColors''),
      TokenRule [''color''] ''color'' (TTable ''textColors''),
      TokenRule [''borderColor''] ''border-color'' (TTable ''borderColors''),
      TokenRule [''borderRadius''] ''border-radius'' (TTable ''borderRadii''),
      TokenRule [''borderTopLeftRadius''] ''border-top-left-radius'' (TTable ''borderRadii''),
      TokenRule [''borderTopRightRadius''] ''border-top-right-radius'' (TTable ''borderRadii''),
      TokenRule [''borderBottomLeftRadius''] ''border-bottom-left-radius'' (TTable ''borderRadii''),
      TokenRule [''borderBottomRightRadius''] ''border-bottom-right-radius'' (TTable ''borderRadii''),
      ArbRule ''borderWidth'' TPx, ArbRule ''borderTopWidth'' TPx, ArbRule ''borderRightWidth'' TPx,
      ArbRule ''borderBottomWidth'' TPx, ArbRule ''borderLeftWidth'' TPx,
      TokenRule [''borderStyle''] ''border-style'' TSame,
      TokenRule [''boxShadow''] ''box-shadow'' (TTable ''shadows'')]"

definition layout_flex_rules :: "style_rule list" where
  "layout_flex_rules =
     [TokenRule [''display''] ''display'' TSame, TokenRule [''overflow''] ''overflow'' TSame,
      TokenRule [''overflowX''] ''overflow-x'' TSame, TokenRule [''overflowY''] ''overflow-y'' TSame,
      ArbRule ''width'' TSize, ArbRule ''height'' TSize, ArbRule ''minWidth'' TSize,
      ArbRule ''maxWidth'' TSize, ArbRule ''minHeight'' TSize, ArbRule ''maxHeight'' TSize,
      ArbRule ''aspectRatio'' TSame, ArbRule ''flex'' TFlex,
      TokenRule [''flexDirection''] ''flex-direction'' TSame, TokenRule [''flexWrap''] ''flex-wrap'' TSame,
      ArbRule ''flexGrow'' TSame, ArbRule ''flexShrink'' TSame, ArbRule ''flexBasis'' TSize,
      TokenRule [''alignItems''] ''align-items'' TKeyword, TokenRule [''alignSelf''] ''align-self'' TKeyword,
      TokenRule [''justifyContent''] ''justify-content'' TKeyword,
      TokenRule [''alignContent''] ''align-content'' TKeyword]"

definition grid_rules :: "style_rule list" where
  "grid_rules =
     [ArbRule ''gridTemplateColumns'' TSame, ArbRule ''gridTemplateRows'' TSame,
      ArbRule ''gridTemplateAreas'' TSame, ArbRule ''gridColumn'' TSame, ArbRule ''gridRow'' TSame,
      ArbRule ''gridArea'' TSame, ArbRule ''gridColumnStart'' TSame, ArbRule ''gridColumnEnd'' TSame,
      ArbRule ''gridRowStart'' TSame, ArbRule ''gridRowEnd'' TSame,
      TokenRule [''gridAutoFlow''] ''grid-auto-flow'' TSame, ArbRule ''gridAutoColumns'' TSame,
      ArbRule ''gridAutoRows'' TSame]"

definition position_rules :: "style_rule list" where
  "position_rules =
     [TokenRule [''position''] ''position'' TSame, ArbRule ''top'' TOffset, ArbRule ''right'' TOffset,
      ArbRule ''bottom'' TOffset, ArbRule ''left'' TOffset, ArbRule ''inset'' TOffset,
      ArbRule ''zIndex'' TSame]"

definition motion_visual_rules :: "style_rule list" where
  "motion_visual_rules =
     [TokenRule [''transitionProperty''] ''transition-property'' TTransition,
      TokenRule [''transitionDuration''] ''transition-duration'' (TTable ''durations''),
      TokenRule [''transitionTimingFunction'', ''ease''] ''transition-timing-function'' (TTable ''easings''),
      TokenRule [''transitionDelay''] ''transition-delay'' (TTable ''durations''), ArbRule ''transform'' TSame,
      ArbRule ''transformOrigin'' TSame, ArbRule ''willChange'' TSame, ArbRule ''opacity'' TSame,
      TokenRule [''cursor''] ''cursor'' TSame, TokenRule [''pointerEvents''] ''pointer-events'' TSame,
      TokenRule [''visibility''] ''visibility'' TSame, TokenRule [''userSelect''] ''user-select'' TSame,
      TokenRule [''textAlign''] ''text-align'' TSame]"

definition box_rules :: "style_rule list" where
  "box_rules =
     spacing_rules @ colour_border_rules @ layout_flex_rules @ grid_rules @ position_rules @ motion_visual_rules"

lemmas box_rules_defs = box_rules_def spacing_rules_def colour_border_rules_def layout_flex_rules_def grid_rules_def position_rules_def motion_visual_rules_def

fun rule_props :: "style_rule \<Rightarrow> string list" where
  "rule_props (TokenRule names css tr) = names"
| "rule_props (ArbRule name tr) = [name]"

fun rule_css :: "style_rule \<Rightarrow> string" where
  "rule_css (TokenRule names css tr) = css"
| "rule_css (ArbRule name tr) = name"

fun rule_transform :: "style_rule \<Rightarrow> transform" where
  "rule_transform (TokenRule names css tr) = tr"
| "rule_transform (ArbRule name tr) = tr"

fun first_prop :: "style_props \<Rightarrow> string list \<Rightarrow> style_value option" where
  "first_prop props [] = None"
| "first_prop props (n # ns) = (case props n of Some v \<Rightarrow> Some v | None \<Rightarrow> first_prop props ns)"

section \<open>Resolving\<close>

record 'sx resolving =
  rs_sx :: "'sx list"
  rs_inline :: decls
  rs_bps :: "(int \<times> decls) list"
  rs_pseudos :: "(string \<times> decls) list"

definition put_in :: "'k \<Rightarrow> string \<Rightarrow> css_value option \<Rightarrow> ('k \<times> decls) list \<Rightarrow> ('k \<times> decls) list" where
  "put_in slot css v m = map_set slot (map_set css v (or_else (map_of m slot) [])) m"

definition push_style :: "'sx style_env \<Rightarrow> string \<Rightarrow> css_value \<Rightarrow> 'sx resolving \<Rightarrow> 'sx resolving" where
  "push_style ev css v st =
     (case ev_style ev css (show_css ev v) of None \<Rightarrow> st | Some s \<Rightarrow> st\<lparr>rs_sx := rs_sx st @ [s]\<rparr>)"

text \<open>An entry for a pseudo-state or a breakpoint; any other key has no effect.\<close>

definition scoped_entry :: "string \<Rightarrow> string \<Rightarrow> css_value option \<Rightarrow> 'sx resolving \<Rightarrow> 'sx resolving" where
  "scoped_entry state css v st =
     (case map_of pseudo_selectors state of
        Some sel \<Rightarrow> st\<lparr>rs_pseudos := put_in sel css v (rs_pseudos st)\<rparr>
      | None \<Rightarrow>
          (case map_of breakpoint_widths state of
             Some w \<Rightarrow> st\<lparr>rs_bps := put_in w css v (rs_bps st)\<rparr>
           | None \<Rightarrow> st))"

definition token_entry ::
  "'sx style_env \<Rightarrow> string \<Rightarrow> transform \<Rightarrow> string \<times> css_value option \<Rightarrow> 'sx resolving \<Rightarrow> 'sx resolving" where
  "token_entry ev css tr e st =
     (case snd e of
        None \<Rightarrow> st
      | Some v \<Rightarrow>
          if fst e = ''base'' then push_style ev css v st
          else scoped_entry (fst e) css (transform_value ev tr v) st)"

definition arbitrary_entry ::
  "'sx style_env \<Rightarrow> string \<Rightarrow> transform \<Rightarrow> string \<times> css_value option \<Rightarrow> 'sx resolving \<Rightarrow> 'sx resolving" where
  "arbitrary_entry ev css tr e st =
     (case snd e of
        None \<Rightarrow> st
      | Some v \<Rightarrow>
          if fst e = ''base'' then st\<lparr>rs_bps := put_in 0 css (transform_value ev tr v) (rs_bps st)\<rparr>
          else scoped_entry (fst e) css (transform_value ev tr v) st)"

definition add_token_prop ::
  "'sx style_env \<Rightarrow> string \<Rightarrow> transform \<Rightarrow> style_value option \<Rightarrow> 'sx resolving \<Rightarrow> 'sx resolving" where
  "add_token_prop ev css tr value' st =
     (case value' of
        None \<Rightarrow> st
      | Some (Scalar v) \<Rightarrow> push_style ev css v st
      | Some (ByState es) \<Rightarrow> foldl (\<lambda>st e. token_entry ev css tr e st) st es)"

definition add_arbitrary_prop ::
  "'sx style_env \<Rightarrow> string \<Rightarrow> transform \<Rightarrow> style_value option \<Rightarrow> 'sx resolving \<Rightarrow> 'sx resolving" where
  "add_arbitrary_prop ev css tr value' st =
     (case value' of
        None \<Rightarrow> st
      | Some (Scalar v) \<Rightarrow> st\<lparr>rs_inline := map_set css (transform_value ev tr v) (rs_inline st)\<rparr>
      | Some (ByState es) \<Rightarrow> foldl (\<lambda>st e. arbitrary_entry ev css tr e st) st es)"

fun apply_rule :: "'sx style_env \<Rightarrow> style_props \<Rightarrow> style_rule \<Rightarrow> 'sx resolving \<Rightarrow> 'sx resolving" where
  "apply_rule ev props (TokenRule names css tr) st = add_token_prop ev css tr (first_prop props names) st"
| "apply_rule ev props (ArbRule name tr) st = add_arbitrary_prop ev name tr (props name) st"

definition no_styles :: "'sx resolving" where
  "no_styles = \<lparr>rs_sx = [], rs_inline = [], rs_bps = [], rs_pseudos = []\<rparr>"

definition resolve_rules :: "'sx style_env \<Rightarrow> style_props \<Rightarrow> style_rule list \<Rightarrow> 'sx resolving" where
  "resolve_rules ev props rules = foldl (\<lambda>st r. apply_rule ev props r st) no_styles rules"

definition decls_text :: "'sx style_env \<Rightarrow> decls \<Rightarrow> string" where
  "decls_text ev ds =
     join_with ''; ''
       (map (\<lambda>(k, v). normalized_css_key k @ '': '' @ show_decl_value ev v) (sorted_entries (ev_lc ev) ds))"

definition scoped_selector :: "string \<Rightarrow> string" where
  "scoped_selector cls = ''.'' @ cls @ concat (replicate 4 ('':not(#'' @ [CHR 0x5C] @ ''#)''))"

definition responsive_css :: "'sx style_env \<Rightarrow> string \<Rightarrow> 'sx resolving \<Rightarrow> string option" where
  "responsive_css ev cls st =
     (let sel = scoped_selector cls;
          bps = js_sort (\<lambda>a b. fst a - fst b) (rs_bps st)
      in if rs_bps st = [] \<and> rs_pseudos st = [] then None
         else Some (join_with '' ''
           (map (\<lambda>(w, ds).
               if w = 0 then sel @ '' { '' @ decls_text ev ds @ '' }''
               else ''@media (min-width: '' @ show_int w @ ''px) { '' @ sel @ '' { '' @ decls_text ev ds @ '' } }'') bps @
            map (\<lambda>(p, ds). sel @ p @ '' { '' @ decls_text ev ds @ '' }'') (rs_pseudos st))))"

definition resolve_box_styles ::
  "'sx style_env \<Rightarrow> style_props \<Rightarrow> string \<Rightarrow> 'sx list \<times> decls \<times> string option" where
  "resolve_box_styles ev props cls =
     (let st = resolve_rules ev props box_rules
      in (rs_sx st, rs_inline st, responsive_css ev cls st))"

section \<open>One property, one rule\<close>

definition rule_value :: "style_props \<Rightarrow> style_rule \<Rightarrow> style_value option" where
  "rule_value props r =
     (case r of TokenRule names css tr \<Rightarrow> first_prop props names | ArbRule name tr \<Rightarrow> props name)"

lemma distinct_rule_css: "distinct (map rule_css box_rules)"
  by (simp add: box_rules_defs)

lemma rule_of_css: "r \<in> set rs \<Longrightarrow> q \<in> set rs \<Longrightarrow> distinct (map rule_css rs) \<Longrightarrow> rule_css r = rule_css q \<Longrightarrow> r = q"
  by (auto simp: distinct_map inj_on_def)

definition scoped_keys :: "('k \<times> decls) list \<Rightarrow> string set" where
  "scoped_keys m = (\<Union>p \<in> set m. fst ` set (snd p))"

lemma scoped_keys_put: "scoped_keys (put_in slot css v m) \<subseteq> insert css (scoped_keys m)"
proof
  fix k assume "k \<in> scoped_keys (put_in slot css v m)"
  then obtain s ds w where p: "(s, ds) \<in> set (put_in slot css v m)" "(k, w) \<in> set ds"
    by (fastforce simp: scoped_keys_def)
  show "k \<in> insert css (scoped_keys m)"
    using set_put [OF p(1) [unfolded put_in_def]]
  proof
    assume "(s, ds) \<in> set m"
    then show ?thesis using p(2) by (force simp: scoped_keys_def)
  next
    assume "s = slot \<and> ds = map_set css v (or_else (map_of m slot) [])"
    then have "(k, w) \<in> set (or_else (map_of m slot) []) \<or> k = css" using p(2) set_put by fastforce
    then show ?thesis by (cases "map_of m slot") (force simp: scoped_keys_def dest: map_of_SomeD)+
  qed
qed

text \<open>What one call touches.\<close>

definition touched :: "'sx resolving \<Rightarrow> 'sx resolving \<Rightarrow> string \<Rightarrow> bool" where
  "touched st st' css \<longleftrightarrow> rs_inline st' = rs_inline st \<and>
     scoped_keys (rs_bps st') \<subseteq> insert css (scoped_keys (rs_bps st)) \<and>
     scoped_keys (rs_pseudos st') \<subseteq> insert css (scoped_keys (rs_pseudos st))"

lemma touched_refl [simp]: "touched st st css"
  by (auto simp: touched_def)

lemma touched_trans: "touched a b css \<Longrightarrow> touched b c css \<Longrightarrow> touched a c css"
  by (auto simp: touched_def)

lemma touched_push [simp]: "touched st (push_style ev css' v st) css"
  by (auto simp: touched_def push_style_def split: option.splits)

lemma touched_scoped [simp]: "touched st (scoped_entry state css v st) css"
  by (auto simp: touched_def scoped_entry_def split: option.split dest: subsetD [OF scoped_keys_put])

lemma touched_entries [simp]:
  "touched st (foldl (\<lambda>st e. token_entry ev css tr e st) st es) css"
  "touched st (foldl (\<lambda>st e. arbitrary_entry ev css tr e st) st es) css"
proof -
  have token: "touched st (token_entry ev css tr e st) css" for e st
    by (simp add: token_entry_def split: option.split)
  have arb: "touched st (arbitrary_entry ev css tr e st) css" for e st
    by (cases "snd e") (auto simp: arbitrary_entry_def, auto simp: touched_def dest: subsetD [OF scoped_keys_put])
  show "touched st (foldl (\<lambda>st e. token_entry ev css tr e st) st es) css"
    by (induction es arbitrary: st) (auto intro: touched_trans token)
  show "touched st (foldl (\<lambda>st e. arbitrary_entry ev css tr e st) st es) css"
    by (induction es arbitrary: st) (auto intro: touched_trans arb)
qed

lemma map_set_keys [simp]: "fst ` set (map_set k v xs) = insert k (fst ` set xs)"
  using arg_cong [OF keys_put [of k v xs], of set] by (auto split: if_splits)

lemma rule_keys:
  assumes "apply_rule ev props r st = st'"
  shows "fst ` set (rs_inline st') \<subseteq>
      fst ` set (rs_inline st) \<union> (case rule_value props r of Some (Scalar v) \<Rightarrow> {rule_css r} | _ \<Rightarrow> {})"
    and "scoped_keys (rs_bps st') \<union> scoped_keys (rs_pseudos st') \<subseteq>
      scoped_keys (rs_bps st) \<union> scoped_keys (rs_pseudos st) \<union>
      (case rule_value props r of Some (ByState es) \<Rightarrow> {rule_css r} | _ \<Rightarrow> {})"
proof -
  have push: "rs_inline (push_style ev css v st) = rs_inline st \<and> rs_bps (push_style ev css v st) = rs_bps st \<and>
      rs_pseudos (push_style ev css v st) = rs_pseudos st" for css v
    by (simp add: push_style_def split: option.split)
  consider "rule_value props r = None" "st' = st"
    | v where "rule_value props r = Some (Scalar v)" "rs_bps st' = rs_bps st" "rs_pseudos st' = rs_pseudos st"
        "fst ` set (rs_inline st') \<subseteq> insert (rule_css r) (fst ` set (rs_inline st))"
    | es where "rule_value props r = Some (ByState es)" "touched st st' (rule_css r)"
  proof (cases "rule_value props r")
    case None
    then show thesis using that(1) assms
      by (cases r) (auto simp: rule_value_def add_token_prop_def add_arbitrary_prop_def)
  next
    case (Some value')
    show thesis
    proof (cases value')
      case (Scalar v)
      then show thesis using that(2) [of v] assms Some push
        by (cases r) (auto simp: rule_value_def add_token_prop_def add_arbitrary_prop_def subset_insertI)
    next
      case (ByState es)
      then show thesis using that(3) [of es] assms Some
        by (cases r) (auto simp: rule_value_def add_token_prop_def add_arbitrary_prop_def)
    qed
  qed
  then have "fst ` set (rs_inline st') \<subseteq>
      fst ` set (rs_inline st) \<union> (case rule_value props r of Some (Scalar v) \<Rightarrow> {rule_css r} | _ \<Rightarrow> {}) \<and>
    scoped_keys (rs_bps st') \<union> scoped_keys (rs_pseudos st') \<subseteq>
      scoped_keys (rs_bps st) \<union> scoped_keys (rs_pseudos st) \<union>
      (case rule_value props r of Some (ByState es) \<Rightarrow> {rule_css r} | _ \<Rightarrow> {})"
  proof cases
    case (3 es)
    then show ?thesis unfolding touched_def by (simp only: option.case style_value.case) blast
  qed simp_all
  then show "fst ` set (rs_inline st') \<subseteq>
      fst ` set (rs_inline st) \<union> (case rule_value props r of Some (Scalar v) \<Rightarrow> {rule_css r} | _ \<Rightarrow> {})"
    and "scoped_keys (rs_bps st') \<union> scoped_keys (rs_pseudos st') \<subseteq>
      scoped_keys (rs_bps st) \<union> scoped_keys (rs_pseudos st) \<union>
      (case rule_value props r of Some (ByState es) \<Rightarrow> {rule_css r} | _ \<Rightarrow> {})" by blast+
qed

lemma union_step: "A' \<subseteq> A \<union> N \<Longrightarrow> A \<subseteq> U \<Longrightarrow> A' \<subseteq> N \<union> U"
  by blast

lemma resolved_keys:
  "fst ` set (rs_inline (resolve_rules ev props rules)) \<subseteq>
     (\<Union>r \<in> set rules. case rule_value props r of Some (Scalar v) \<Rightarrow> {rule_css r} | _ \<Rightarrow> {}) \<and>
   scoped_keys (rs_bps (resolve_rules ev props rules)) \<union> scoped_keys (rs_pseudos (resolve_rules ev props rules)) \<subseteq>
     (\<Union>r \<in> set rules. case rule_value props r of Some (ByState es) \<Rightarrow> {rule_css r} | _ \<Rightarrow> {})"
proof (induction rules rule: rev_induct)
  case Nil
  then show ?case by (simp add: resolve_rules_def no_styles_def scoped_keys_def)
next
  case (snoc r rules)
  have "resolve_rules ev props (rules @ [r]) = apply_rule ev props r (resolve_rules ev props rules)"
    by (simp add: resolve_rules_def)
  note step = rule_keys [OF this [symmetric]]
  have "set (rules @ [r]) = insert r (set rules)" by simp
  show ?case
    unfolding \<open>set (rules @ [r]) = insert r (set rules)\<close> UN_insert
    using snoc by (intro conjI union_step [OF step(1)] union_step [OF step(2)]) (erule conjunct1, erule conjunct2)
qed

text \<open>
  A property with a scoped rule, for a breakpoint or a pseudo-state, never has an inline
  declaration as well, which no scoped rule could override.
\<close>

theorem inline_never_overridden:
  assumes "resolve_rules ev props box_rules = st"
  shows "fst ` set (rs_inline st) \<inter> (scoped_keys (rs_bps st) \<union> scoped_keys (rs_pseudos st)) = {}"
proof (rule ccontr)
  assume "fst ` set (rs_inline st) \<inter> (scoped_keys (rs_bps st) \<union> scoped_keys (rs_pseudos st)) \<noteq> {}"
  then obtain css where "css \<in> fst ` set (rs_inline st)" "css \<in> scoped_keys (rs_bps st) \<union> scoped_keys (rs_pseudos st)"
    by auto
  then obtain r q where r: "r \<in> set box_rules" "css \<in> (case rule_value props r of Some (Scalar v) \<Rightarrow> {rule_css r} | _ \<Rightarrow> {})"
    and q: "q \<in> set box_rules" "css \<in> (case rule_value props q of Some (ByState es) \<Rightarrow> {rule_css q} | _ \<Rightarrow> {})"
    using resolved_keys [of ev props box_rules] unfolding assms by blast
  obtain v where "r \<in> set box_rules" "rule_css r = css" "rule_value props r = Some (Scalar v)"
    using r by (auto split: option.splits style_value.splits)
  moreover obtain es where "q \<in> set box_rules" "rule_css q = css" "rule_value props q = Some (ByState es)"
    using q by (auto split: option.splits style_value.splits)
  moreover from calculation have "r = q" using rule_of_css distinct_rule_css by blast
  ultimately show False by simp
qed

definition plain_env :: "string style_env" where
  "plain_env = \<lparr>ev_table = (\<lambda>_ s. Some s), ev_style = (\<lambda>css s. Some (css @ s)), ev_num = (\<lambda>_. ''1''), ev_lc = (\<lambda>_ _. 0)\<rparr>"

definition border_props :: style_props where
  "border_props = [''borderWidth'' \<mapsto> Scalar (CNum 1), ''borderTopWidth'' \<mapsto> ByState [(''md'', Some (CNum 2))]]"

lemma resolve_border:
  "resolve_rules plain_env border_props box_rules =
     \<lparr>rs_sx = [], rs_inline = [(''borderWidth'', Some (CText ''1px''))],
      rs_bps = [(768, [(''borderTopWidth'', Some (CText ''1px''))])], rs_pseudos = []\<rparr>"
  by (simp add: resolve_rules_def box_rules_defs border_props_def no_styles_def add_token_prop_def add_arbitrary_prop_def
      arbitrary_entry_def scoped_entry_def pseudo_selectors_def breakpoint_widths_def put_in_def plain_env_def)

theorem inline_never_overridden_witness:
  "fst ` set (rs_inline (resolve_rules plain_env border_props box_rules)) = {''borderWidth''} \<and>
   ''borderWidth'' \<notin> scoped_keys (rs_bps (resolve_rules plain_env border_props box_rules))"
  using inline_never_overridden [OF resolve_border] unfolding resolve_border by auto

text \<open>
  a scalar shorthand is inline all the same while its longhand is scoped: a box with a
  border width of one and a top border width for wide screens never shows the latter.
\<close>

theorem inline_shorthand_blocks:
  "''borderWidth'' \<in> fst ` set (rs_inline (resolve_rules plain_env border_props box_rules)) \<and>
   ''borderTopWidth'' \<in> scoped_keys (rs_bps (resolve_rules plain_env border_props box_rules))"
  unfolding resolve_border by (simp add: scoped_keys_def)

section \<open>Every declaration lands in its rule\<close>

text \<open>The slot a state's declarations go to: the base rule, a media query or a pseudo-class.\<close>

datatype slot = Width int | Pseudo string

definition slot_of :: "string \<Rightarrow> slot option" where
  "slot_of state =
     (if state = ''base'' then Some (Width 0)
      else (case map_of pseudo_selectors state of
          Some sel \<Rightarrow> Some (Pseudo sel)
        | None \<Rightarrow> map_option Width (map_of breakpoint_widths state)))"

definition decl_at :: "'sx resolving \<Rightarrow> slot \<Rightarrow> string \<Rightarrow> css_value option option" where
  "decl_at st sl css =
     (case sl of
        Width w \<Rightarrow> Option.bind (map_of (rs_bps st) w) (\<lambda>ds. map_of ds css)
      | Pseudo p \<Rightarrow> Option.bind (map_of (rs_pseudos st) p) (\<lambda>ds. map_of ds css))"

lemma slot_of_inj: "slot_of a = Some sl \<Longrightarrow> slot_of b = Some sl \<Longrightarrow> a = b"
  by (auto simp: slot_of_def pseudo_selectors_def breakpoint_widths_def split: if_splits option.splits)

lemma bind_put_in:
  "Option.bind (map_of (put_in s c v m) s') (\<lambda>ds. map_of ds c') =
     (if s' = s \<and> c' = c then Some v else Option.bind (map_of m s') (\<lambda>ds. map_of ds c'))"
  by (cases "map_of m s") (auto simp: put_in_def map_of_put)

lemma decl_at_push [simp]: "decl_at (push_style ev css' v st) sl css = decl_at st sl css"
  by (simp add: push_style_def decl_at_def split: option.split slot.split)

lemma decl_at_inline [simp]: "decl_at (st\<lparr>rs_inline := x\<rparr>) sl css = decl_at st sl css"
  by (simp add: decl_at_def split: slot.split)

lemma decl_at_scoped:
  "state \<noteq> ''base'' \<Longrightarrow> decl_at (scoped_entry state css' v st) sl css =
     (if slot_of state = Some sl \<and> css' = css then Some v else decl_at st sl css)"
  by (cases sl) (auto simp: scoped_entry_def slot_of_def decl_at_def bind_put_in split: option.splits)

lemma decl_at_token:
  "decl_at (token_entry ev css' tr e st) sl css =
     (if fst e \<noteq> ''base'' \<and> slot_of (fst e) = Some sl \<and> css' = css \<and> snd e \<noteq> None
      then Some (transform_value ev tr (the (snd e))) else decl_at st sl css)"
  by (cases "snd e") (auto simp: token_entry_def decl_at_scoped)

lemma decl_at_arbitrary:
  "decl_at (arbitrary_entry ev css' tr e st) sl css =
     (if slot_of (fst e) = Some sl \<and> css' = css \<and> snd e \<noteq> None
      then Some (transform_value ev tr (the (snd e))) else decl_at st sl css)"
proof (cases "fst e = ''base''")
  case True
  then have "slot_of (fst e) = Some (Width 0)" by (simp add: slot_of_def)
  then show ?thesis
    using True by (cases "snd e"; cases sl) (auto simp: arbitrary_entry_def decl_at_def bind_put_in)
next
  case False
  then show ?thesis by (cases "snd e") (auto simp: arbitrary_entry_def decl_at_scoped)
qed

lemma decl_at_entries:
  "css' \<noteq> css \<or> (\<forall>e \<in> set es. slot_of (fst e) \<noteq> Some sl) \<Longrightarrow>
     decl_at (foldl (\<lambda>st e. token_entry ev css' tr e st) st es) sl css = decl_at st sl css"
  "css' \<noteq> css \<or> (\<forall>e \<in> set es. slot_of (fst e) \<noteq> Some sl) \<Longrightarrow>
     decl_at (foldl (\<lambda>st e. arbitrary_entry ev css' tr e st) st es) sl css = decl_at st sl css"
  by (induction es arbitrary: st) (auto simp: decl_at_token decl_at_arbitrary)

text \<open>Of an object's entries only one goes to a slot, so it stays there.\<close>

lemma decl_at_own_entries:
  assumes "distinct (map fst es)" and "(state, Some v) \<in> set es" and "slot_of state = Some sl"
  shows "state \<noteq> ''base'' \<Longrightarrow> decl_at (foldl (\<lambda>st e. token_entry ev css tr e st) st es) sl css = Some (transform_value ev tr v)"
    and "decl_at (foldl (\<lambda>st e. arbitrary_entry ev css tr e st) st es) sl css = Some (transform_value ev tr v)"
proof -
  obtain xs ys where es: "es = xs @ (state, Some v) # ys" using split_list [OF assms(2)] by blast
  have later: "\<forall>e \<in> set ys. slot_of (fst e) \<noteq> Some sl"
  proof
    fix e assume "e \<in> set ys"
    then have "fst e \<noteq> state" using assms(1) unfolding es by auto
    then show "slot_of (fst e) \<noteq> Some sl" using slot_of_inj [OF assms(3), of "fst e"] by blast
  qed
  show "decl_at (foldl (\<lambda>st e. arbitrary_entry ev css tr e st) st es) sl css = Some (transform_value ev tr v)"
    using later assms(3) by (simp add: es decl_at_entries(2) decl_at_arbitrary)
  assume "state \<noteq> ''base''"
  then show "decl_at (foldl (\<lambda>st e. token_entry ev css tr e st) st es) sl css = Some (transform_value ev tr v)"
    using later assms(3) by (simp add: es decl_at_entries(1) decl_at_token)
qed

lemma decl_at_other_rule:
  "rule_css r \<noteq> css \<Longrightarrow> decl_at (apply_rule ev props r st) sl css = decl_at st sl css"
  by (cases r) (auto simp: add_token_prop_def add_arbitrary_prop_def decl_at_entries split: option.split style_value.split)

lemma decl_at_other_rules:
  "css \<notin> rule_css ` set rs \<Longrightarrow> decl_at (foldl (\<lambda>st r. apply_rule ev props r st) st rs) sl css = decl_at st sl css"
  by (induction rs arbitrary: st) (auto simp: decl_at_other_rule)

text \<open>
  no state of a property is lost or written twice: the value a property has for a
  breakpoint, a pseudo-state or, for an arbitrary property, the base ends up translated in the rule
  of that state.
\<close>

theorem states_resolved:
  assumes "r \<in> set box_rules" and "rule_value props r = Some (ByState es)" and "distinct (map fst es)"
    and "(state, Some v) \<in> set es" and "slot_of state = Some sl"
    and "state \<noteq> ''base'' \<or> (\<exists>name tr. r = ArbRule name tr)"
  shows "decl_at (resolve_rules ev props box_rules) sl (rule_css r) = Some (transform_value ev (rule_transform r) v)"
proof -
  obtain xs ys where rules: "box_rules = xs @ r # ys" using split_list [OF assms(1)] by blast
  have "rule_css r \<notin> rule_css ` set ys" using distinct_rule_css unfolding rules by auto
  then have "decl_at (resolve_rules ev props box_rules) sl (rule_css r) =
      decl_at (apply_rule ev props r (foldl (\<lambda>st r. apply_rule ev props r st) no_styles xs)) sl (rule_css r)"
    by (simp add: resolve_rules_def rules decl_at_other_rules)
  also have "\<dots> = Some (transform_value ev (rule_transform r) v)"
    using assms(2,6) decl_at_own_entries [OF assms(3-5)]
    by (cases r) (auto simp: rule_value_def add_token_prop_def add_arbitrary_prop_def)
  finally show ?thesis .
qed

theorem states_resolved_witness:
  "decl_at (resolve_rules plain_env border_props box_rules) (Width 768) ''borderTopWidth'' = Some (Some (CText ''1px''))"
proof -
  have rule: "ArbRule ''borderTopWidth'' TPx \<in> set box_rules" by (simp add: box_rules_defs)
  have val: "rule_value border_props (ArbRule ''borderTopWidth'' TPx) = Some (ByState [(''md'', Some (CNum 2))])"
    by (simp add: rule_value_def border_props_def)
  have slot: "slot_of ''md'' = Some (Width 768)" by (simp add: slot_of_def pseudo_selectors_def breakpoint_widths_def)
  have "decl_at (resolve_rules plain_env border_props box_rules) (Width 768) (rule_css (ArbRule ''borderTopWidth'' TPx)) =
      Some (transform_value plain_env (rule_transform (ArbRule ''borderTopWidth'' TPx)) (CNum 2))"
    by (rule states_resolved [OF rule val _ _ slot]) simp_all
  then show ?thesis by (simp add: plain_env_def)
qed

section \<open>The cascade\<close>

text \<open>The shorthands of CSS among the properties with a place in the order, with their longhands.\<close>

definition css_longhands :: "(string \<times> string list) list" where
  "css_longhands =
     [(''padding'', [''padding-inline'', ''padding-block'', ''padding-top'', ''padding-right'', ''padding-bottom'', ''padding-left'']),
      (''padding-inline'', [''padding-left'', ''padding-right'']), (''padding-block'', [''padding-top'', ''padding-bottom'']),
      (''margin'', [''margin-inline'', ''margin-block'', ''margin-top'', ''margin-right'', ''margin-bottom'', ''margin-left'']),
      (''margin-inline'', [''margin-left'', ''margin-right'']), (''margin-block'', [''margin-top'', ''margin-bottom'']),
      (''gap'', [''row-gap'', ''column-gap'']),
      (''border-width'', [''border-top-width'', ''border-right-width'', ''border-bottom-width'', ''border-left-width'']),
      (''border-radius'', [''border-top-left-radius'', ''border-top-right-radius'', ''border-bottom-left-radius'',
        ''border-bottom-right-radius'']),
      (''overflow'', [''overflow-x'', ''overflow-y'']), (''flex'', [''flex-grow'', ''flex-shrink'', ''flex-basis'']),
      (''inset'', [''top'', ''right'', ''bottom'', ''left''])]"

lemma longhands_later:
  "list_all (\<lambda>(s, ls). list_all (\<lambda>l. order_place s < order_place l) ls) css_longhands"
  by (simp add: css_longhands_def order_place_def declaration_order_def)

lemma compare_keys_consistent:
  assumes "comparator_on lc UNIV"
  shows "comparator_on (\<lambda>(a :: string \<times> css_value option) b. compare_keys lc (fst a) (fst b)) UNIV"
proof (rule comparator_on.intro)
  fix x y :: "string \<times> css_value option"
  show "compare_keys lc (fst x) (fst y) \<le> 0 \<or> compare_keys lc (fst y) (fst x) \<le> 0"
    using comparator_on.cmp_total [OF assms, of "normalized_css_key (fst x)" "normalized_css_key (fst y)"]
    by (auto simp: compare_keys_def Let_def)
next
  fix x y z :: "string \<times> css_value option"
  assume "compare_keys lc (fst x) (fst y) \<le> 0" and "compare_keys lc (fst y) (fst z) \<le> 0"
  then show "compare_keys lc (fst x) (fst z) \<le> 0"
    using comparator_on.cmp_trans [OF assms, of "normalized_css_key (fst x)" "normalized_css_key (fst y)"
        "normalized_css_key (fst z)"]
    by (auto simp: compare_keys_def Let_def split: if_splits)
qed

lemma entries_in_order:
  assumes "comparator_on lc UNIV" and "i < j" and "j < length (sorted_entries lc ds)"
  shows "order_place (normalized_css_key (fst (sorted_entries lc ds ! i))) \<le>
    order_place (normalized_css_key (fst (sorted_entries lc ds ! j)))"
proof -
  have "sorted_wrt (\<lambda>a b. compare_keys lc (fst a) (fst b) \<le> 0) (sorted_entries lc ds)"
    unfolding sorted_entries_def
    by (rule comparator_on.sorted_js_sort [OF compare_keys_consistent [OF assms(1)]]) simp
  from sorted_wrt_nth_less [OF this assms(2,3)] show ?thesis
    unfolding compare_keys_def Let_def by (simp split: if_splits)
qed

interpretation width_order: comparator_on "\<lambda>a b. fst a - fst b" "UNIV :: (int \<times> decls) set"
  by unfold_locales auto

definition widths_ok :: "'sx resolving \<Rightarrow> bool" where
  "widths_ok st \<longleftrightarrow> distinct (map fst (rs_bps st)) \<and> fst ` set (rs_bps st) \<subseteq> {0, 640, 768, 1024, 1280}"

lemma widths_put: "widths_ok st \<Longrightarrow> w \<in> {0, 640, 768, 1024, 1280} \<Longrightarrow> widths_ok (st\<lparr>rs_bps := put_in w css v (rs_bps st)\<rparr>)"
  by (simp add: widths_ok_def put_in_def distinct_put)

lemma widths_scoped: "widths_ok st \<Longrightarrow> widths_ok (scoped_entry state css v st)"
proof (cases "map_of pseudo_selectors state")
  case None
  assume ok: "widths_ok st"
  show ?thesis
  proof (cases "map_of breakpoint_widths state")
    case (Some w)
    then have "w \<in> {0, 640, 768, 1024, 1280}" by (auto simp: breakpoint_widths_def split: if_splits)
    then show ?thesis using ok None Some by (simp add: scoped_entry_def widths_put)
  qed (simp add: scoped_entry_def None ok)
qed (simp add: scoped_entry_def widths_ok_def)

lemma widths_push [simp]: "widths_ok (push_style ev css v st) = widths_ok st"
  by (simp add: push_style_def widths_ok_def split: option.split)

lemma widths_entries:
  "widths_ok st \<Longrightarrow> widths_ok (foldl (\<lambda>st e. token_entry ev css tr e st) st es)"
  "widths_ok st \<Longrightarrow> widths_ok (foldl (\<lambda>st e. arbitrary_entry ev css tr e st) st es)"
  by (induction es arbitrary: st)
    (auto simp: token_entry_def arbitrary_entry_def widths_scoped widths_put split: option.split)

lemma widths_rules: "widths_ok (resolve_rules ev props rules)"
proof (induction rules rule: rev_induct)
  case Nil
  then show ?case by (simp add: resolve_rules_def no_styles_def widths_ok_def)
next
  case (snoc r rules)
  have "widths_ok (apply_rule ev props r st)" if "widths_ok st" for st :: "'a resolving"
    using that
    by (cases r) (auto simp: add_token_prop_def add_arbitrary_prop_def widths_entries widths_ok_def [of "_\<lparr>rs_inline := _\<rparr>"]
        widths_ok_def [of st] split: option.split style_value.split)
  then show ?case using snoc by (simp add: resolve_rules_def)
qed

text \<open>
  the scoped text cascades as written: media queries come in strictly growing width, the base
  rule before them, and within a rule every shorthand comes before its longhands, whatever the
  collation of the other names.
\<close>

theorem cascade_order:
  assumes "comparator_on lc UNIV"
    and "i < length (sorted_entries lc ds)" and "j < length (sorted_entries lc ds)"
    and "(normalized_css_key (fst (sorted_entries lc ds ! i)), longs) \<in> set css_longhands"
    and "normalized_css_key (fst (sorted_entries lc ds ! j)) \<in> set longs"
  shows "i < j \<and>
    sorted_wrt (<) (map fst (js_sort (\<lambda>a b. fst a - fst b) (rs_bps (resolve_rules ev props box_rules))))"
proof -
  let ?m = "rs_bps (resolve_rules ev props box_rules)"
  have later: "order_place (normalized_css_key (fst (sorted_entries lc ds ! i))) <
      order_place (normalized_css_key (fst (sorted_entries lc ds ! j)))"
    using longhands_later assms(4,5) by (auto simp: list_all_iff)
  then have "i \<noteq> j" by auto
  moreover have "\<not> j < i" using entries_in_order [OF assms(1) _ assms(2), of j] later by auto
  moreover have "sorted (map fst (js_sort (\<lambda>a b. fst a - fst b) ?m))"
    using width_order.sorted_js_sort [of ?m] by (simp add: sorted_map)
  moreover have "distinct (map fst (js_sort (\<lambda>a b. fst a - fst b) ?m))"
    using widths_rules [of ev props box_rules] by (simp add: widths_ok_def)
  ultimately show ?thesis by (simp add: strict_sorted_iff)
qed

theorem cascade_order_witness:
  "sorted_entries (\<lambda>_ _. 0) [(''borderTopWidth'', None), (''borderWidth'', None)] =
     [(''borderWidth'', None), (''borderTopWidth'', None)] \<and> (0::nat) < 1"
proof -
  let ?ds = "[(''borderTopWidth'', None), (''borderWidth'', None)] :: decls"
  have keys: "normalized_css_key ''borderWidth'' = ''border-width''"
    "normalized_css_key ''borderTopWidth'' = ''border-top-width''" by code_simp+
  have sorted: "sorted_entries (\<lambda>_ _. 0) ?ds = [(''borderWidth'', None), (''borderTopWidth'', None)]"
    by (simp add: sorted_entries_def compare_keys_def keys order_place_def declaration_order_def)
  have lc: "comparator_on (\<lambda>(_ :: string) _. 0 :: real) UNIV" by (rule comparator_on.intro) simp_all
  have "(0 :: nat) < 1 \<and>
      sorted_wrt (<) (map fst (js_sort (\<lambda>a b. fst a - fst b) (rs_bps (resolve_rules plain_env Map.empty box_rules))))"
    by (rule cascade_order [OF lc, of 0 ?ds 1 "[''border-top-width'', ''border-right-width'', ''border-bottom-width'', ''border-left-width'']"])
      (simp_all add: sorted keys css_longhands_def)
  then show ?thesis using sorted by blast
qed

text \<open>
  the list of style properties, which decides what is kept from the element, and the resolver
  agree: every listed property is resolved, under one rule, and every property the resolver
  reads is listed.
\<close>

theorem style_props_listed:
  "set (concat (map rule_props box_rules)) = set box_style_prop_keys \<and> distinct (concat (map rule_props box_rules))"
proof
  show "distinct (concat (map rule_props box_rules))" by (simp add: box_rules_defs)
  have "set (concat (map rule_props box_rules)) \<subseteq> set box_style_prop_keys"
    by (simp add: box_rules_defs box_style_prop_keys_def)
  moreover have "set box_style_prop_keys \<subseteq> set (concat (map rule_props box_rules))"
    by (simp add: box_rules_defs box_style_prop_keys_def)
  ultimately show "set (concat (map rule_props box_rules)) = set box_style_prop_keys" by (rule subset_antisym)
qed

end
