(* ===== verification/Locale_Files.thy ===== *)
theory Locale_Files
  imports I18n Json
begin

text \<open>
  The locale file tools (\<open>packages/i18n/scripts/utils.ts\<close> and \<open>check-keys.ts\<close>): a nested locale
  object is flattened into dotted keys, which are compared with the cache, sent for translation
  and put back into a nested object. An object is the list of its properties in the order
  \<open>Object.entries\<close> gives them; a \<open>Map\<close> or a \<open>Set\<close> is the list of its entries.

  An \<open>entry\<close> is a string (\<open>Leaf\<close>) or an object (\<open>Node\<close>); other values do not occur in a locale
  file. The walk of the checked files and the patterns that find keys in their text are left out:
  the keys found are arguments.
\<close>

type_synonym entries = "(string \<times> entry) list"

section \<open>Entries\<close>

definition is_plural_object :: "entry \<Rightarrow> bool" where
  "is_plural_object e = (case e of Leaf _ \<Rightarrow> False | Node es \<Rightarrow> map_of es ''_mode'' = Some (Leaf ''plural''))"

definition get_string_value :: "entry \<Rightarrow> entry option" where
  "get_string_value e = (case e of Leaf _ \<Rightarrow> Some e | Node es \<Rightarrow> map_of es ''value'')"

definition has_llm_context :: "entry \<Rightarrow> bool" where
  "has_llm_context e = (case e of Leaf _ \<Rightarrow> False | Node es \<Rightarrow> map_of es ''_llmContext'' \<noteq> None)"

definition is_leaf_node :: "entry \<Rightarrow> bool" where
  "is_leaf_node e = (case e of Leaf _ \<Rightarrow> True | Node es \<Rightarrow> ''value'' \<in> fst ` set es)"

definition full_key :: "string \<Rightarrow> string \<Rightarrow> string" where
  "full_key prefix key = (if prefix = [] then key else prefix @ ''.'' @ key)"

section \<open>Flattening\<close>

fun plural_paths :: "string \<Rightarrow> entries \<Rightarrow> string list" where
  "plural_paths prefix [] = []"
| "plural_paths prefix ((key, e) # es) =
     (if is_plural_object e then [full_key prefix key]
      else (case e of Leaf _ \<Rightarrow> [] | Node fs \<Rightarrow> plural_paths (full_key prefix key) fs)) @ plural_paths prefix es"

definition find_plural_paths :: "entries \<Rightarrow> string list" where
  "find_plural_paths es = uniq (plural_paths [] es)"

text \<open>\<open>result.set\<close> for every entry of a list.\<close>

definition set_all :: "(string \<times> 'v) list \<Rightarrow> (string \<times> 'v) list \<Rightarrow> (string \<times> 'v) list" where
  "set_all result kvs = foldl (\<lambda>m (k, v). map_set k v m) result kvs"

definition plural_variants :: "string \<Rightarrow> entry \<Rightarrow> entries" where
  "plural_variants path e =
     (case e of
        Leaf _ \<Rightarrow> []
      | Node vs \<Rightarrow> map (\<lambda>(k, t). (path @ ''.'' @ k, t)) (filter (\<lambda>(k, t). k \<noteq> ''_mode'') vs))"

text \<open>The loop of both flattening functions; \<open>leaf\<close> is what they store for a leaf.\<close>

fun flatten_from :: "(entry \<Rightarrow> entry) \<Rightarrow> entries \<Rightarrow> string \<Rightarrow> entries \<Rightarrow> entries" where
  "flatten_from leaf result prefix [] = result"
| "flatten_from leaf result prefix ((key, e) # es) =
     flatten_from leaf
       (if is_plural_object e then set_all result (plural_variants (full_key prefix key) e)
        else if is_leaf_node e then map_set (full_key prefix key) (leaf e) result
        else (case e of Leaf _ \<Rightarrow> result
              | Node fs \<Rightarrow> set_all result (flatten_from leaf [] (full_key prefix key) fs)))
       prefix es"

definition flatten_keys :: "entries \<Rightarrow> entries" where
  "flatten_keys es = flatten_from id [] [] es"

definition flatten_keys_to_strings :: "entries \<Rightarrow> entries" where
  "flatten_keys_to_strings es = flatten_from (\<lambda>e. or_else (get_string_value e) e) [] [] es"

section \<open>Putting keys back\<close>

text \<open>
  Assigning a property: in place when the object has it, else at the end, with the array-index
  keys kept first in ascending order. Assigning a string to \<open>__proto__\<close> has no effect.
\<close>

definition is_index :: "string \<Rightarrow> bool" where
  "is_index k \<longleftrightarrow> k \<noteq> [] \<and> list_all is_digit k \<and> show_nat (read_nat k) = k \<and> read_nat k < 2 ^ 32 - 1"

definition put_new :: "string \<Rightarrow> 'v \<Rightarrow> (string \<times> 'v) list \<Rightarrow> (string \<times> 'v) list" where
  "put_new k v es =
     (if is_index k
      then takeWhile (\<lambda>(j, _). is_index j \<and> read_nat j < read_nat k) es @ [(k, v)] @
           dropWhile (\<lambda>(j, _). is_index j \<and> read_nat j < read_nat k) es
      else es @ [(k, v)])"

definition set_prop :: "string \<Rightarrow> 'v \<Rightarrow> (string \<times> 'v) list \<Rightarrow> (string \<times> 'v) list" where
  "set_prop k v es =
     (if k = ''__proto__'' then es else if k \<in> fst ` set es then map_set k v es else put_new k v es)"

text \<open>
  What stops the walk: a string where an object is needed (the TypeError of \<open>in\<close>, or of assigning
  to a string), or a name every object inherits, where the code goes on outside the result.
\<close>

datatype unflatten_error = NotAnObject | InheritedName

fun put_path :: "string list \<Rightarrow> entry \<Rightarrow> entries \<Rightarrow> unflatten_error + entries" where
  "put_path [] v es = Inr es"
| "put_path [k] v es = Inr (set_prop k v es)"
| "put_path (k # j # ks) v es =
     (case map_of es k of
        Some (Leaf _) \<Rightarrow> Inl NotAnObject
      | Some (Node fs) \<Rightarrow> map_sum id (\<lambda>gs. set_prop k (Node gs) es) (put_path (j # ks) v fs)
      | None \<Rightarrow>
          if k \<in> set object_prototype_keys then Inl InheritedName
          else map_sum id (\<lambda>gs. set_prop k (Node gs) es) (put_path (j # ks) v []))"

text \<open>The walk along a plural path; a part is taken for the last one when it has its name.\<close>

fun mark_path :: "string \<Rightarrow> string list \<Rightarrow> entries \<Rightarrow> unflatten_error + entries" where
  "mark_path final [] es = Inr es"
| "mark_path final (p # ps) es =
     (case map_of es p of
        None \<Rightarrow> if p \<in> set object_prototype_keys then Inl InheritedName else Inr es
      | Some (Leaf _) \<Rightarrow> if p = final then mark_path final ps es else Inl NotAnObject
      | Some (Node fs) \<Rightarrow>
          if p = final then mark_path final ps (set_prop p (Node (set_prop ''_mode'' (Leaf ''plural'') fs)) es)
          else map_sum id (\<lambda>gs. set_prop p (Node gs) es) (mark_path final ps fs))"

fun try_all :: "('a \<Rightarrow> entries \<Rightarrow> unflatten_error + entries) \<Rightarrow> 'a list \<Rightarrow> entries \<Rightarrow> unflatten_error + entries" where
  "try_all f [] es = Inr es"
| "try_all f (x # xs) es = (case f x es of Inl err \<Rightarrow> Inl err | Inr fs \<Rightarrow> try_all f xs fs)"

definition unflatten_keys :: "entries \<Rightarrow> string list \<Rightarrow> unflatten_error + entries" where
  "unflatten_keys m paths =
     (case try_all (\<lambda>(key, v). put_path (split_on (CHR ''.'') key) v) m [] of
        Inl err \<Rightarrow> Inl err
      | Inr es \<Rightarrow> try_all (\<lambda>path. let parts = split_on (CHR ''.'') path in mark_path (last parts) parts) paths es)"

section \<open>What to translate\<close>

definition find_changed_keys :: "entries \<Rightarrow> (string \<rightharpoonup> string) \<Rightarrow> entries \<Rightarrow> string list" where
  "find_changed_keys sources cache translation =
     (let known = fst ` set (flatten_keys translation)
      in map fst (filter (\<lambda>(k, e). k \<notin> known \<or> map_option Leaf (cache k) \<noteq> get_string_value e) sources))"

definition find_orphaned_keys :: "entries \<Rightarrow> entries \<Rightarrow> string list" where
  "find_orphaned_keys sources translation =
     filter (\<lambda>k. k \<notin> fst ` set sources) (map fst (flatten_keys translation))"

text \<open>An empty source string is as good as none: \<open>if (!entry) continue\<close>.\<close>

fun prepare_from :: "entries \<Rightarrow> (string \<times> (string \<times> entry option) list) list \<Rightarrow> string list \<Rightarrow>
    (string \<times> (string \<times> entry option) list) list" where
  "prepare_from sources result [] = result"
| "prepare_from sources result (k # ks) =
     (case map_of sources k of
        None \<Rightarrow> prepare_from sources result ks
      | Some e \<Rightarrow>
          if e = Leaf [] then prepare_from sources result ks
          else (case e of
              Node es \<Rightarrow>
                prepare_from sources
                  (set_prop k
                    (if has_llm_context e
                     then [(''value'', map_of es ''value''), (''_llmContext'', map_of es ''_llmContext'')]
                     else [(''value'', get_string_value e)]) result) ks
            | Leaf _ \<Rightarrow> prepare_from sources (set_prop k [(''value'', get_string_value e)] result) ks))"

definition prepare_for_llm :: "entries \<Rightarrow> string list \<Rightarrow> (string \<times> (string \<times> entry option) list) list" where
  "prepare_for_llm sources keys = prepare_from sources [] keys"

definition response_value :: "json \<Rightarrow> json option" where
  "response_value v = (case v of JStr _ \<Rightarrow> Some v | JObj es \<Rightarrow> map_of es ''value'' | _ \<Rightarrow> None)"

definition normalize_response :: "(string \<times> json) list \<Rightarrow> (string \<times> json) list" where
  "normalize_response response =
     foldl (\<lambda>r (k, v). case response_value v of None \<Rightarrow> r | Some t \<Rightarrow> set_prop k t r) [] response"

section \<open>Placeholders\<close>

text \<open>A name, \<open>[a-zA-Z_][a-zA-Z0-9_]*\<close>, at the start of a text, and the rest.\<close>

definition name_at :: "string \<Rightarrow> (string \<times> string) option" where
  "name_at s =
     (case s of
        [] \<Rightarrow> None
      | c # r \<Rightarrow> if is_alpha c \<or> c = CHR ''_'' then Some (c # takeWhile word_char r, dropWhile word_char r) else None)"

definition after_text :: "string \<Rightarrow> string \<Rightarrow> string option" where
  "after_text p s = (if starts_with p s then Some (drop (length p) s) else None)"

definition simple_at :: "string \<Rightarrow> (string \<times> string) option" where
  "simple_at s =
     Option.bind (after_text ''{'' s) (\<lambda>r. Option.bind (name_at r) (\<lambda>(n, t). map_option (Pair n) (after_text ''}'' t)))"

definition icu_at :: "string \<Rightarrow> (string \<times> string) option" where
  "icu_at s =
     Option.bind (after_text ''{'' s) (\<lambda>r. Option.bind (name_at r) (\<lambda>(n, t).
       Option.bind (after_text '','' t) (\<lambda>u.
         case after_text ''plural'' (trim_start u) of
           Some w \<Rightarrow> Some (n, w)
         | None \<Rightarrow> map_option (Pair n) (after_text ''select'' (trim_start u)))))"

definition double_at :: "string \<Rightarrow> (string \<times> string) option" where
  "double_at s =
     Option.bind (after_text ''{{'' s) (\<lambda>r. Option.bind (name_at r) (\<lambda>(n, t). map_option (Pair n) (after_text ''}}'' t)))"

text \<open>\<open>str.matchAll\<close>: every match consumes text, so the length bounds the search.\<close>

fun match_all :: "nat \<Rightarrow> (string \<Rightarrow> (string \<times> string) option) \<Rightarrow> string \<Rightarrow> string list" where
  "match_all 0 m s = []"
| "match_all (Suc n) m s =
     (case s of
        [] \<Rightarrow> []
      | c # r \<Rightarrow> (case m s of Some (k, t) \<Rightarrow> k # match_all n m t | None \<Rightarrow> match_all n m r))"

definition extract_placeholders :: "string \<Rightarrow> string list" where
  "extract_placeholders s =
     sort (uniq (match_all (length s) simple_at s @ match_all (length s) icu_at s @ match_all (length s) double_at s @
                 (if CHR ''#'' \<in> set s then [''#''] else [])))"

definition arrays_equal :: "string list \<Rightarrow> string list \<Rightarrow> bool" where
  "arrays_equal a b = (length a = length b \<and> list_all (\<lambda>(x, y). x = y) (zip a b))"

section \<open>Keys used and keys known\<close>

text \<open>The longest prefix of a path that is a known key.\<close>

fun known_prefix :: "string set \<Rightarrow> string list \<Rightarrow> nat \<Rightarrow> string option" where
  "known_prefix known parts 0 = None"
| "known_prefix known parts (Suc i) =
     (let candidate = join_with ''.'' (take (Suc i) parts)
      in if candidate \<in> known then Some candidate else known_prefix known parts i)"

definition used_keys :: "string set \<Rightarrow> string list \<Rightarrow> string list \<Rightarrow> string list" where
  "used_keys known calls paths =
     uniq (calls @ List.map_filter (\<lambda>p. let parts = split_on (CHR ''.'') p in known_prefix known parts (length parts)) paths)"

definition missing_keys :: "entries \<Rightarrow> string list \<Rightarrow> string list \<Rightarrow> string list" where
  "missing_keys en calls paths =
     (let known = fst ` set (flatten_keys en)
      in sort (filter (\<lambda>k. k \<notin> known) (used_keys known calls paths)))"

section \<open>Flatten and put back\<close>

text \<open>A usable key: none of the names that objects, paths or leaves give a meaning of their own.\<close>

definition clean_key :: "string \<Rightarrow> bool" where
  "clean_key k \<longleftrightarrow> k \<noteq> [] \<and> CHR ''.'' \<notin> set k \<and> \<not> is_index k \<and> k \<notin> set object_prototype_keys \<and> k \<noteq> ''value''"

fun locale_ok :: "entries \<Rightarrow> bool" where
  "locale_ok [] = True"
| "locale_ok ((k, e) # es) =
     (clean_key k \<and> k \<notin> fst ` set es \<and> locale_ok es \<and>
      (case e of Leaf _ \<Rightarrow> True
       | Node fs \<Rightarrow>
           locale_ok fs \<and> (\<exists>f \<in> set fs. fst f \<noteq> ''_mode'' \<or> \<not> is_plural_object e) \<and>
           (is_plural_object e \<longrightarrow> (\<forall>f \<in> set fs. case snd f of Leaf _ \<Rightarrow> True | Node _ \<Rightarrow> False))))"

definition variants :: "entries \<Rightarrow> entries" where
  "variants fs = filter (\<lambda>(k, t). k \<noteq> ''_mode'') fs"

text \<open>The same object with the \<open>_mode\<close> of its plurals as their last property, or left out.\<close>

fun with_modes :: "entries \<Rightarrow> entries \<Rightarrow> entries" where
  "with_modes mode [] = []"
| "with_modes mode ((k, e) # es) =
     (k, case e of Leaf s \<Rightarrow> Leaf s
         | Node fs \<Rightarrow> Node (if is_plural_object e then variants fs @ mode else with_modes mode fs)) # with_modes mode es"

abbreviation mode_last :: "entries \<Rightarrow> entries" where
  "mode_last \<equiv> with_modes [(''_mode'', Leaf ''plural'')]"

text \<open>The leaves and the plurals with their paths in parts.\<close>

fun leaf_paths :: "entries \<Rightarrow> (string list \<times> entry) list" where
  "leaf_paths [] = []"
| "leaf_paths ((k, e) # es) =
     (case e of Leaf s \<Rightarrow> [([k], Leaf s)]
      | Node fs \<Rightarrow>
          map (\<lambda>(q, v). (k # q, v))
            (if is_plural_object e then map (\<lambda>(j, t). ([j], t)) (variants fs) else leaf_paths fs)) @ leaf_paths es"

fun mode_paths :: "entries \<Rightarrow> string list list" where
  "mode_paths [] = []"
| "mode_paths ((k, e) # es) =
     (if is_plural_object e then [[k]] else (case e of Leaf _ \<Rightarrow> [] | Node fs \<Rightarrow> map ((#) k) (mode_paths fs))) @
     mode_paths es"

definition clean_path :: "string list \<Rightarrow> bool" where
  "clean_path q \<longleftrightarrow> q \<noteq> [] \<and> list_all clean_key q"

lemma clean_variants: "locale_ok fs \<Longrightarrow> list_all (clean_key \<circ> fst) fs \<and> distinct (map fst fs)"
  by (induction fs rule: locale_ok.induct) auto

lemma clean_keys: "locale_ok fs \<Longrightarrow> (k, e) \<in> set fs \<Longrightarrow> clean_key k"
  by (induction fs rule: locale_ok.induct) auto

lemma distinct_variants: "distinct (map fst fs) \<Longrightarrow> distinct (map fst (variants fs))"
  by (induction fs) (auto simp: variants_def)

lemma leaf_paths_heads: "(k # q, v) \<in> set (leaf_paths es) \<Longrightarrow> k \<in> fst ` set es"
  by (induction es rule: leaf_paths.induct) (auto split: entry.splits if_splits)

lemma leaf_paths_clean: "locale_ok es \<Longrightarrow> (q, v) \<in> set (leaf_paths es) \<Longrightarrow> clean_path q"
proof (induction es arbitrary: q v rule: leaf_paths.induct)
  case (2 k e es)
  show ?case
  proof (cases "(q, v) \<in> set (leaf_paths es)")
    case False
    then show ?thesis
      using 2 by (cases e) (auto simp: clean_path_def variants_def list_all_iff dest: clean_keys split: if_splits)
  qed (use 2 in auto)
qed simp

lemma keys_mapped: "fst ` set (map (\<lambda>(q, v). (f q, v)) xs) = f ` fst ` set xs"
  by force

lemma distinct_mapped:
  assumes "distinct (map fst xs)" and "inj_on f (fst ` set xs)"
  shows "distinct (map fst (map (\<lambda>(q, v). (f q, v)) xs))"
proof -
  have "map fst (map (\<lambda>(q, v). (f q, v)) xs) = map f (map fst xs)" by (simp add: case_prod_beta)
  then show ?thesis using assms by (simp add: distinct_map [of f "map fst xs"] del: map_map)
qed

lemma leaf_paths_distinct: "locale_ok es \<Longrightarrow> distinct (map fst (leaf_paths es))"
proof (induction es rule: leaf_paths.induct)
  case (2 k e es)
  have tl: "distinct (map fst (leaf_paths es))" using 2 by simp
  have apart: "(k # q, v) \<notin> set (leaf_paths es)" for q v
    using 2 leaf_paths_heads [of k q v es] by auto
  show ?case
  proof (cases e)
    case (Leaf s)
    then show ?thesis using tl apart by (auto simp: image_iff)
  next
    case (Node fs)
    have "distinct (map fst (map (\<lambda>(j, t). ([j], t)) (variants fs)))"
      using 2 Node clean_variants [of fs] distinct_variants [of fs]
      by (intro distinct_mapped) (auto simp: inj_on_def)
    then have "distinct (map fst (if is_plural_object e then map (\<lambda>(j, t). ([j], t)) (variants fs) else leaf_paths fs))"
      using 2 Node by auto
    then have "distinct (map fst (map (\<lambda>(q, v). (k # q, v))
        (if is_plural_object e then map (\<lambda>(j, t). ([j], t)) (variants fs) else leaf_paths fs)))"
      by (rule distinct_mapped) simp
    then show ?thesis using tl apart Node by (auto simp: image_iff split: if_splits)
  qed
qed simp

subsection \<open>Paths and dotted keys\<close>

abbreviation dotted :: "string list \<Rightarrow> string" where
  "dotted \<equiv> join_with ''.''"

lemma split_dotted: "clean_path q \<Longrightarrow> split_on (CHR ''.'') (dotted q) = q"
  by (rule split_join) (auto simp: clean_path_def clean_key_def list_all_iff)

lemma full_key_dotted: "k \<noteq> [] \<Longrightarrow> q \<noteq> [] \<Longrightarrow> full_key (full_key prefix k) (dotted q) = full_key prefix (dotted (k # q))"
  by (cases q) (auto simp: full_key_def)

lemma full_key_inj:
  "clean_path p \<Longrightarrow> clean_path q \<Longrightarrow> full_key prefix (dotted p) = full_key prefix (dotted q) \<longleftrightarrow> p = q"
  by (auto simp: full_key_def split: if_splits) (metis split_dotted)+

lemma map_set_fresh: "k \<notin> fst ` set m \<Longrightarrow> map_set k v m = m @ [(k, v)]"
  by (induction m) auto

lemma set_all_fresh:
  "distinct (map fst kvs) \<Longrightarrow> fst ` set m \<inter> fst ` set kvs = {} \<Longrightarrow> set_all m kvs = m @ kvs"
proof (induction kvs arbitrary: m)
  case (Cons a kvs)
  obtain k v where a: "a = (k, v)" by (cases a)
  have "set_all m (a # kvs) = set_all (m @ [a]) kvs"
    using Cons.prems a by (simp add: set_all_def map_set_fresh)
  also have "\<dots> = (m @ [a]) @ kvs" using Cons.prems by (intro Cons.IH) auto
  finally show ?case by simp
qed (simp add: set_all_def)

lemma set_parts:
  assumes "distinct (map fst (h @ r))" and "fst ` set m \<inter> fst ` set (h @ r) = {}"
  shows "set_all m h = m @ h" and "fst ` set (m @ h) \<inter> fst ` set r = {}"
  using assms set_all_fresh [of h m] by auto

lemma raw_mode_paths:
  "locale_ok es \<Longrightarrow> plural_paths prefix es = map (\<lambda>q. full_key prefix (dotted q)) (mode_paths es)"
proof (induction prefix es rule: plural_paths.induct)
  case (2 prefix key e es)
  have ne: "q \<noteq> []" if "q \<in> set (mode_paths fs)" for q fs
    using that by (induction fs rule: mode_paths.induct) (auto split: if_splits entry.splits)
  have "key \<noteq> []" using 2 by (simp add: clean_key_def)
  then show ?case using 2 by (cases e) (auto simp: full_key_dotted ne)
qed simp

lemma flatten_strings_paths:
  assumes "locale_ok es" and "fst ` set result \<inter> (\<lambda>q. full_key prefix (dotted q)) ` fst ` set (leaf_paths es) = {}"
    and "leaf = id \<or> leaf = (\<lambda>e. or_else (get_string_value e) e)"
  shows "flatten_from leaf result prefix es = result @ map (\<lambda>(q, v). (full_key prefix (dotted q), v)) (leaf_paths es)"
  using assms
proof (induction leaf result prefix es rule: flatten_from.induct)
  case (2 leaf result prefix key e es)
  let ?dot = "\<lambda>(q, v). (full_key prefix (dotted q), v)"
  let ?here = "leaf_paths [(key, e)]"
  have leaves: "leaf_paths ((key, e) # es) = ?here @ leaf_paths es" by simp
  have key: "key \<noteq> []" using 2 by (simp add: clean_key_def)
  have ok: "locale_ok ((key, e) # es)" using 2 by simp
  have "inj_on (\<lambda>q. full_key prefix (dotted q)) (fst ` set (leaf_paths ((key, e) # es)))"
    using leaf_paths_clean [OF ok] full_key_inj by (fastforce simp: inj_on_def)
  then have inj: "distinct (map fst (map ?dot (leaf_paths ((key, e) # es))))"
    by (rule distinct_mapped [OF leaf_paths_distinct [OF ok]])
  have apart: "fst ` set result \<inter> fst ` set (map ?dot (leaf_paths ((key, e) # es))) = {}"
    using 2 unfolding keys_mapped by blast
  note parts = set_parts [of "map ?dot ?here" "map ?dot (leaf_paths es)" result, folded map_append,
      unfolded leaves [symmetric], OF inj apart]
  have here: "(if is_plural_object e then set_all result (plural_variants (full_key prefix key) e)
        else if is_leaf_node e then map_set (full_key prefix key) (leaf e) result
        else (case e of Leaf _ \<Rightarrow> result
              | Node fs \<Rightarrow> set_all result (flatten_from leaf [] (full_key prefix key) fs))) = result @ map ?dot ?here"
  proof (cases e)
    case (Leaf s)
    then show ?thesis
      using 2 apart by (auto simp: is_plural_object_def is_leaf_node_def get_string_value_def map_set_fresh image_iff)
  next
    case (Node fs)
    have fs: "locale_ok fs" using 2 Node by simp
    have "\<not> is_leaf_node e" using clean_keys [OF fs, of "''value''"] by (auto simp: Node is_leaf_node_def clean_key_def)
    moreover have "plural_variants (full_key prefix key) e = map ?dot ?here" if "is_plural_object e"
      using that key by (auto simp: Node plural_variants_def variants_def full_key_def)
    moreover have "flatten_from leaf [] (full_key prefix key) fs = map ?dot ?here" if "\<not> is_plural_object e"
    proof -
      have "flatten_from leaf [] (full_key prefix key) fs =
          map (\<lambda>(q, v). (full_key (full_key prefix key) (dotted q), v)) (leaf_paths fs)"
        using 2 that Node \<open>\<not> is_leaf_node e\<close> fs by simp
      also have "\<dots> = map ?dot ?here"
        using that key leaf_paths_clean [OF fs] by (auto simp: Node full_key_dotted clean_path_def)
      finally show ?thesis .
    qed
    ultimately show ?thesis using parts(1) by (cases "is_plural_object e") (simp_all add: Node del: leaf_paths.simps map_map)
  qed
  have "fst ` set (result @ map ?dot ?here) \<inter> (\<lambda>q. full_key prefix (dotted q)) ` fst ` set (leaf_paths es) = {}"
    using parts(2) by (simp only: keys_mapped)
  then show ?case using 2 here leaves by simp
qed simp

subsection \<open>The walk along a path\<close>

lemma try_all_append:
  "try_all f (xs @ ys) es = (case try_all f xs es of Inl err \<Rightarrow> Inl err | Inr fs \<Rightarrow> try_all f ys fs)"
  by (induction xs arbitrary: es) (auto split: sum.splits)

abbreviation put_all :: "(string list \<times> entry) list \<Rightarrow> entries \<Rightarrow> unflatten_error + entries" where
  "put_all \<equiv> try_all (\<lambda>(q, v). put_path q v)"

abbreviation mark_all :: "string list list \<Rightarrow> entries \<Rightarrow> unflatten_error + entries" where
  "mark_all \<equiv> try_all (\<lambda>q. mark_path (last q) q)"

lemma clean_key_set:
  "clean_key k \<Longrightarrow> k \<notin> fst ` set es \<Longrightarrow> set_prop k v es = es @ [(k, v)]"
  by (auto simp: set_prop_def put_new_def clean_key_def object_prototype_keys_def)

lemma set_prop_there:
  assumes "clean_key k" and "k \<notin> fst ` set es"
  shows "set_prop k v (es @ (k, u) # fs) = es @ (k, v) # fs"
proof -
  have "map_set k v (es @ (k, u) # fs) = es @ (k, v) # fs" using assms(2) by (induction es) auto
  then show ?thesis using assms(1) by (simp add: set_prop_def clean_key_def object_prototype_keys_def)
qed

lemma map_of_there: "k \<notin> fst ` set es \<Longrightarrow> map_of (es @ (k, v) # fs) k = Some v"
  by (induction es) auto

lemma put_all_inside:
  assumes "clean_key k" and "k \<notin> fst ` set es"
  shows "\<forall>x \<in> set xs. fst x \<noteq> [] \<Longrightarrow>
    put_all (map (\<lambda>(q, v). (k # q, v)) xs) (es @ [(k, Node fs)]) = map_sum id (\<lambda>gs. es @ [(k, Node gs)]) (put_all xs fs)"
proof (induction xs arbitrary: fs)
  case (Cons x xs)
  obtain j q v where x: "x = (j # q, v)" using Cons.prems by (cases x; cases "fst x") auto
  have there: "map_of (es @ [(k, Node gs)]) k = Some (Node gs)" for gs by (rule map_of_there [OF assms(2)])
  have "put_path (k # j # q) v (es @ [(k, Node fs)]) = map_sum id (\<lambda>gs. es @ [(k, Node gs)]) (put_path (j # q) v fs)"
    using there set_prop_there [OF assms, of _ _ "[]"] by (simp del: map_of_append)
  then show ?case using Cons by (cases "put_path (j # q) v fs") (simp_all add: x del: put_path.simps)
qed simp

lemma put_all_fresh:
  assumes "clean_key k" and "k \<notin> fst ` set es" and "\<forall>x \<in> set xs. fst x \<noteq> []" and "xs \<noteq> []"
    and "put_all xs [] = Inr gs"
  shows "put_all (map (\<lambda>(q, v). (k # q, v)) xs) es = Inr (es @ [(k, Node gs)])"
proof -
  obtain j q v ys where xs: "xs = (j # q, v) # ys"
    using assms(3,4) by (cases xs; cases "fst (hd xs)") auto
  obtain fs where fs: "put_path (j # q) v [] = Inr fs" "put_all ys fs = Inr gs"
    using assms(5) by (auto simp: xs split: sum.splits)
  have "map_of es k = None" using assms(2) by (simp add: map_of_eq_None_iff)
  then have "put_path (k # j # q) v es = Inr (es @ [(k, Node fs)])"
    using assms(1) fs(1) clean_key_set [OF assms(1,2)] by (simp add: clean_key_def)
  then show ?thesis using put_all_inside [OF assms(1,2), of ys fs] assms(3) fs(2) by (simp add: xs)
qed

lemma put_all_flat:
  "list_all (clean_key \<circ> fst) vs \<Longrightarrow> distinct (map fst vs) \<Longrightarrow> fst ` set es \<inter> fst ` set vs = {} \<Longrightarrow>
     put_all (map (\<lambda>(j, t). ([j], t)) vs) es = Inr (es @ vs)"
  by (induction vs arbitrary: es) (auto simp: clean_key_set)

lemma leaf_paths_ne: "locale_ok fs \<Longrightarrow> fs \<noteq> [] \<Longrightarrow> leaf_paths fs \<noteq> []"
proof (induction fs rule: leaf_paths.induct)
  case (2 k e es)
  show ?case
  proof (cases e)
    case (Node fs)
    then have "fs \<noteq> []" using 2 by auto
    then show ?thesis using 2 Node by (auto simp: variants_def filter_empty_conv)
  qed simp
qed simp

lemma put_leaf_paths:
  "locale_ok es \<Longrightarrow> fst ` set acc \<inter> fst ` set es = {} \<Longrightarrow> put_all (leaf_paths es) acc = Inr (acc @ with_modes [] es)"
proof (induction es arbitrary: acc rule: leaf_paths.induct)
  case (2 k e es)
  have k: "clean_key k" "k \<notin> fst ` set acc" using 2 by auto
  have rest: "put_all (leaf_paths es) (acc @ [(k, x)]) = Inr (acc @ (k, x) # with_modes [] es)" for x
    using 2 by auto
  show ?case
  proof (cases e)
    case (Leaf s)
    then show ?thesis using rest by (simp add: clean_key_set [OF k])
  next
    case (Node fs)
    have fs: "locale_ok fs" "fs \<noteq> []" using 2 Node by auto
    let ?xs = "if is_plural_object e then map (\<lambda>(j, t). ([j], t)) (variants fs) else leaf_paths fs"
    let ?gs = "if is_plural_object e then variants fs else with_modes [] fs"
    have "list_all (clean_key \<circ> fst) (variants fs)" "distinct (map fst (variants fs))"
      using clean_variants [OF fs(1)] distinct_variants [of fs] by (auto simp: variants_def list_all_iff)
    then have "put_all ?xs [] = Inr ?gs" using 2 Node fs put_all_flat [of "variants fs" "[]"] by auto
    moreover have "?xs \<noteq> []" using 2 Node leaf_paths_ne [OF fs] by (auto simp: variants_def filter_empty_conv)
    moreover have "\<forall>x \<in> set ?xs. fst x \<noteq> []" using leaf_paths_clean [OF fs(1)]
      by (cases "is_plural_object e") (auto simp: clean_path_def)
    ultimately have "put_all (map (\<lambda>(q, v). (k # q, v)) ?xs) acc = Inr (acc @ [(k, Node ?gs)])"
      using put_all_fresh [OF k] by blast
    then show ?thesis using rest by (simp add: Node try_all_append)
  qed
qed simp

lemma mark_all_inside:
  assumes "clean_key k" and "k \<notin> fst ` set es"
  shows "\<forall>q \<in> set qs. q \<noteq> [] \<and> k \<noteq> last q \<Longrightarrow>
    mark_all (map ((#) k) qs) (es @ (k, Node fs) # gs) = map_sum id (\<lambda>hs. es @ (k, Node hs) # gs) (mark_all qs fs)"
proof (induction qs arbitrary: fs)
  case (Cons q qs)
  have there: "map_of (es @ (k, Node hs) # gs) k = Some (Node hs)" for hs by (rule map_of_there [OF assms(2)])
  have "mark_path (last q) (k # q) (es @ (k, Node fs) # gs) =
      map_sum id (\<lambda>hs. es @ (k, Node hs) # gs) (mark_path (last q) q fs)"
    using Cons.prems there set_prop_there [OF assms] by (simp del: map_of_append)
  then show ?case using Cons by (cases "mark_path (last q) q fs") simp_all
qed simp

lemma mode_paths_ne: "q \<in> set (mode_paths es) \<Longrightarrow> q \<noteq> []"
  by (induction es rule: mode_paths.induct) (auto split: if_splits entry.splits)

lemma mark_mode: "''_mode'' \<notin> fst ` set fs \<Longrightarrow> set_prop ''_mode'' v fs = fs @ [(''_mode'', v)]"
  by (auto simp: set_prop_def put_new_def is_index_def is_digit_def)

text \<open>No plural repeats, further up its path, the name of its own key.\<close>

definition plurals_apart :: "entries \<Rightarrow> bool" where
  "plurals_apart es \<longleftrightarrow> (\<forall>q \<in> set (mode_paths es). last q \<notin> set (butlast q))"

lemma mark_mode_paths:
  "locale_ok es \<Longrightarrow> plurals_apart es \<Longrightarrow> fst ` set acc \<inter> fst ` set es = {} \<Longrightarrow>
     mark_all (mode_paths es) (acc @ with_modes [] es) = Inr (acc @ mode_last es)"
proof (induction es arbitrary: acc rule: mode_paths.induct)
  case (2 k e es)
  have k: "clean_key k" "k \<notin> fst ` set acc" using 2 by auto
  have apart: "plurals_apart es" using 2 by (auto simp: plurals_apart_def)
  have rest: "mark_all (mode_paths es) (acc @ (k, x) # with_modes [] es) = Inr (acc @ (k, x) # mode_last es)" for x
    using 2(2) [of "acc @ [(k, x)]"] 2(3,5) apart by auto
  show ?case
  proof (cases e)
    case (Leaf s)
    then show ?thesis using rest by (simp add: is_plural_object_def)
  next
    case (Node fs)
    have fs: "locale_ok fs" using 2 Node by simp
    show ?thesis
    proof (cases "is_plural_object e")
      case True
      have mode: "set_prop ''_mode'' (Leaf ''plural'') (variants fs) = variants fs @ [(''_mode'', Leaf ''plural'')]"
        by (rule mark_mode) (auto simp: variants_def)
      have "map_of (acc @ (k, Node (variants fs)) # with_modes [] es) k = Some (Node (variants fs))"
        by (rule map_of_there [OF k(2)])
      then show ?thesis using True rest mode set_prop_there [OF k] by (simp add: Node del: map_of_append)
    next
      case False
      have sub: "\<forall>q \<in> set (mode_paths fs). q \<noteq> [] \<and> k \<noteq> last q" "plurals_apart fs"
      proof -
        have "last (k # q) \<notin> set (butlast (k # q))" if "q \<in> set (mode_paths fs)" for q
        proof -
          have "k # q \<in> set (mode_paths ((k, e) # es))" using that False by (simp add: Node)
          then show ?thesis using 2(4) unfolding plurals_apart_def by blast
        qed
        then show "\<forall>q \<in> set (mode_paths fs). q \<noteq> [] \<and> k \<noteq> last q" "plurals_apart fs"
          using mode_paths_ne [of _ fs] by (fastforce simp: plurals_apart_def)+
      qed
      have "mark_all (mode_paths fs) (with_modes [] fs) = Inr (mode_last fs)"
        using 2(1) [OF False Node fs sub(2), of "[]"] by simp
      then show ?thesis
        using False rest mark_all_inside [OF k sub(1)] by (simp add: Node try_all_append)
    qed
  qed
qed simp

lemma mode_paths_heads: "k # q \<in> set (mode_paths es) \<Longrightarrow> k \<in> fst ` set es"
  by (induction es rule: mode_paths.induct) (auto split: entry.splits if_splits)

lemma mode_paths_distinct: "locale_ok es \<Longrightarrow> distinct (mode_paths es)"
proof (induction es rule: mode_paths.induct)
  case (2 k e es)
  have "k # q \<notin> set (mode_paths es)" for q using 2 mode_paths_heads [of k q es] by auto
  then show ?case using 2 by (cases e) (auto simp: distinct_map)
qed simp

lemma mode_paths_clean: "locale_ok es \<Longrightarrow> q \<in> set (mode_paths es) \<Longrightarrow> clean_path q"
  by (induction es arbitrary: q rule: mode_paths.induct)
    (auto simp: clean_path_def split: if_splits entry.splits)

lemma try_all_map: "try_all f (map g xs) es = try_all (f \<circ> g) xs es"
  by (induction xs arbitrary: es) (auto split: sum.splits)

lemma try_all_cong:
  "(\<And>x fs. x \<in> set xs \<Longrightarrow> f x fs = g x fs) \<Longrightarrow> try_all f xs es = try_all g xs es"
  by (induction xs arbitrary: es) (auto split: sum.splits)

text \<open>
  A locale file flattened for translation and put back is the file itself, up to the place
  of the plural marks: no text is lost, moved or made a plural, and both ways of flattening agree.
\<close>

theorem locale_round_trip:
  assumes "locale_ok es" and "plurals_apart es"
  shows "unflatten_keys (flatten_keys_to_strings es) (find_plural_paths es) = Inr (mode_last es) \<and>
    flatten_keys es = flatten_keys_to_strings es"
proof -
  have flat: "flatten_from leaf [] [] es = map (\<lambda>(q, v). (dotted q, v)) (leaf_paths es)"
    if "leaf = id \<or> leaf = (\<lambda>e. or_else (get_string_value e) e)" for leaf
    using flatten_strings_paths [OF assms(1) _ that, of "[]" "[]"] by (simp add: full_key_def)
  have "try_all (\<lambda>(key, v). put_path (split_on (CHR ''.'') key) v) (map (\<lambda>(q, v). (dotted q, v)) (leaf_paths es)) [] =
      put_all (leaf_paths es) []"
    unfolding try_all_map using leaf_paths_clean [OF assms(1)] by (intro try_all_cong) (auto simp: split_dotted)
  also have "\<dots> = Inr (with_modes [] es)" using put_leaf_paths [OF assms(1), of "[]"] by simp
  finally have puts: "try_all (\<lambda>(key, v). put_path (split_on (CHR ''.'') key) v)
      (map (\<lambda>(q, v). (dotted q, v)) (leaf_paths es)) [] = Inr (with_modes [] es)" .
  have "inj_on dotted (set (mode_paths es))"
    using mode_paths_clean [OF assms(1)] by (intro inj_onI) (metis split_dotted)
  then have modes: "find_plural_paths es = map dotted (mode_paths es)"
    using mode_paths_distinct [OF assms(1)] raw_mode_paths [OF assms(1), of "[]"]
    by (simp add: find_plural_paths_def full_key_def distinct_map)
  have "try_all (\<lambda>path. let parts = split_on (CHR ''.'') path in mark_path (last parts) parts) (find_plural_paths es) fs =
      mark_all (mode_paths es) fs" for fs
    unfolding modes try_all_map using mode_paths_clean [OF assms(1)] by (intro try_all_cong) (simp add: split_dotted)
  then show ?thesis
    using mark_mode_paths [OF assms, of "[]"] puts flat
    by (simp add: unflatten_keys_def flatten_keys_def flatten_keys_to_strings_def)
qed

definition sample_locale :: entries where
  "sample_locale =
     [(''news'', Node [(''stories'', Node [(''_mode'', Leaf ''plural''), (''other'', Leaf ''# stories'')]),
                       (''title'', Leaf ''News'')])]"

lemma sample_locale_ok: "locale_ok sample_locale \<and> plurals_apart sample_locale"
  unfolding plurals_apart_def list_all_iff [symmetric] by code_simp

theorem locale_round_trip_witness:
  "unflatten_keys (flatten_keys_to_strings sample_locale) (find_plural_paths sample_locale) =
     Inr [(''news'', Node [(''stories'', Node [(''other'', Leaf ''# stories''), (''_mode'', Leaf ''plural'')]),
                           (''title'', Leaf ''News'')])]"
proof -
  have "mode_last sample_locale =
      [(''news'', Node [(''stories'', Node [(''other'', Leaf ''# stories''), (''_mode'', Leaf ''plural'')]),
                        (''title'', Leaf ''News'')])]" by code_simp
  then show ?thesis using locale_round_trip [of sample_locale] sample_locale_ok by simp
qed

text \<open>
  A plural under an object of the same name is put back wrongly: the outer object becomes the
  plural, the inner one none.
\<close>

lemma nested_plural_misplaced:
  "unflatten_keys (flatten_keys_to_strings [(''a'', Node [(''a'', Node [(''_mode'', Leaf ''plural''), (''other'', Leaf ''x'')])])])
     (find_plural_paths [(''a'', Node [(''a'', Node [(''_mode'', Leaf ''plural''), (''other'', Leaf ''x'')])])]) =
   Inr [(''a'', Node [(''a'', Node [(''other'', Leaf ''x'')]), (''_mode'', Leaf ''plural'')])]"
  by code_simp

end
