(* ===== verification/Installer.thy ===== *)
theory Installer
  imports Mcp_Tools
begin

text \<open>
  The installer (\<open>packages/cli/src\<close>): it merges the tool server into the configuration of every
  coding agent of the machine and copies the skills. The file system is a record of the files with
  their text and of the folders, and its operations succeed; paths are joined as written. A number
  in a configuration keeps its text, and the order that array-index keys have in an object is not
  modelled.
\<close>

section \<open>Targets\<close>

datatype config_format = JsonFormat | TomlFormat

record agent_target =
  tg_id :: string
  tg_label :: string
  tg_config :: string
  tg_format :: config_format
  tg_servers_key :: string
  tg_skills_dir :: "string option"
  tg_marker :: string

definition targets :: "agent_target list" where
  "targets =
     [\<lparr>tg_id = ''cursor'', tg_label = ''Cursor'', tg_config = ''.cursor/mcp.json'', tg_format = JsonFormat,
       tg_servers_key = ''mcpServers'', tg_skills_dir = None, tg_marker = ''.cursor''\<rparr>,
      \<lparr>tg_id = ''codex'', tg_label = ''Codex'', tg_config = ''.codex/config.toml'', tg_format = TomlFormat,
       tg_servers_key = ''mcp_servers'', tg_skills_dir = Some ''.codex/skills'', tg_marker = ''.codex''\<rparr>,
      \<lparr>tg_id = ''windsurf'', tg_label = ''Windsurf'', tg_config = ''.codeium/windsurf/mcp_config.json'',
       tg_format = JsonFormat, tg_servers_key = ''mcpServers'', tg_skills_dir = None, tg_marker = ''.codeium/windsurf''\<rparr>]"

section \<open>The file system\<close>

record file_system =
  fs_files :: "string \<rightharpoonup> string"
  fs_folders :: "string set"

definition join_path :: "string \<Rightarrow> string \<Rightarrow> string" where
  "join_path a b = a @ ''/'' @ b"

definition exists_sync :: "file_system \<Rightarrow> string \<Rightarrow> bool" where
  "exists_sync fs path \<longleftrightarrow> fs_files fs path \<noteq> None \<or> path \<in> fs_folders fs"

definition write_file :: "string \<Rightarrow> string \<Rightarrow> file_system \<Rightarrow> file_system" where
  "write_file path text fs = fs\<lparr>fs_files := (fs_files fs)(path \<mapsto> text)\<rparr>"

text \<open>The folder of a path, and the folders a recursive \<open>mkdir\<close> makes.\<close>

definition dirname :: "string \<Rightarrow> string" where
  "dirname path = rev (tl (dropWhile (\<lambda>c. c \<noteq> CHR ''/'') (rev path)))"

definition mkdir_all :: "string \<Rightarrow> file_system \<Rightarrow> file_system" where
  "mkdir_all path fs =
     fs\<lparr>fs_folders := fs_folders fs \<union> {take n path | n. n = length path \<or> (0 < n \<and> n < length path \<and> path ! n = CHR ''/'')}\<rparr>"

text \<open>The recursive copy of a folder: every file under it, to the same place under the other.\<close>

definition copy_all :: "string \<Rightarrow> string \<Rightarrow> file_system \<Rightarrow> file_system" where
  "copy_all dir dest fs =
     fs\<lparr>fs_files := (\<lambda>p. if starts_with (dest @ ''/'') p
          then (case fs_files fs (dir @ drop (length dest) p) of Some t \<Rightarrow> Some t | None \<Rightarrow> fs_files fs p)
          else fs_files fs p),
        fs_folders := fs_folders fs \<union> {dest @ drop (length dir) p | p. p \<in> fs_folders fs \<and> starts_with (dir @ ''/'') p}\<rparr>"

section \<open>Merging a configuration\<close>

definition server_key :: string where
  "server_key = ''outception''"

record server_entry =
  se_command :: string
  se_env :: "(string \<times> string) list"

definition make_entry :: "string \<Rightarrow> string option \<Rightarrow> server_entry" where
  "make_entry apiUrl token =
     \<lparr>se_command = ''outception-mcp'',
      se_env = (''OUTCEPTION_API_URL'', apiUrl) #
        (case truthy token of None \<Rightarrow> [] | Some t \<Rightarrow> [(''OUTCEPTION_API_TOKEN'', t)])\<rparr>"

definition entry_json :: "server_entry \<Rightarrow> json" where
  "entry_json e =
     JObj [(''command'', JStr (se_command e)), (''args'', JArr []),
           (''env'', JObj (map (\<lambda>(k, v). (k, JStr v)) (se_env e)))]"

text \<open>The objects of a parsed text: of properties with one name the last one counts.\<close>

fun as_parsed :: "json \<Rightarrow> json" where
  "as_parsed (JArr xs) = JArr (map as_parsed xs)"
| "as_parsed (JObj es) = JObj (foldl (\<lambda>m (k, v). map_set k v m) [] (map (\<lambda>(k, v). (k, as_parsed v)) es))"
| "as_parsed j = j"

text \<open>\<open>None\<close>: the error that the file is not valid JSON. A text that is no object counts as empty.\<close>

definition read_json :: "file_system \<Rightarrow> string \<Rightarrow> (string \<times> json) list option" where
  "read_json fs path =
     (if \<not> exists_sync fs path then Some []
      else (case Option.bind (fs_files fs path) json_parse of
          None \<Rightarrow> None
        | Some j \<Rightarrow> Some (case as_parsed j of JObj es \<Rightarrow> es | _ \<Rightarrow> [])))"

definition servers_of :: "json option \<Rightarrow> (string \<times> json) list" where
  "servers_of j =
     (case j of
        Some (JObj es) \<Rightarrow> es
      | Some (JArr xs) \<Rightarrow> zip (map show_nat [0..<length xs]) xs
      | _ \<Rightarrow> [])"

definition merge_json_config :: "(string \<times> json) list \<Rightarrow> string \<Rightarrow> server_entry \<Rightarrow> (string \<times> json) list" where
  "merge_json_config current key e =
     map_set key (JObj (map_set server_key (entry_json e) (servers_of (map_of current key)))) current"

text \<open>\<open>JSON.stringify(v, null, 2)\<close>.\<close>

definition new_line :: "nat \<Rightarrow> string" where
  "new_line n = CHR 0x0A # replicate (2 * n) (CHR '' '')"

fun pretty :: "nat \<Rightarrow> json \<Rightarrow> string" where
  "pretty n (JArr xs) =
     (if xs = [] then ''[]''
      else ''['' @ new_line (n + 1) @ join_with ('','' @ new_line (n + 1)) (map (pretty (n + 1)) xs) @ new_line n @ '']'')"
| "pretty n (JObj es) =
     (if es = [] then ''{}''
      else ''{'' @ new_line (n + 1) @
        join_with ('','' @ new_line (n + 1)) (map (\<lambda>(k, v). json_quote k @ '': '' @ pretty (n + 1) v) es) @
        new_line n @ ''}'')"
| "pretty n j = stringify j"

declare pretty.simps [simp del]

text \<open>
  A section of a TOML file, \<open>/\n?\[mcp_servers\.outception\][\s\S]*?(?=\n\[|$)/\<close>: its first
  occurrence goes, with the line end before it, up to the next line that opens with a bracket.
\<close>

fun from_section :: "string \<Rightarrow> string" where
  "from_section [] = []"
| "from_section (c # s) = (if starts_with [CHR 0x0A, CHR ''[''] (c # s) then c # s else from_section s)"

fun cut_section :: "string \<Rightarrow> string \<Rightarrow> string" where
  "cut_section header [] = []"
| "cut_section header (c # s) =
     (if starts_with (CHR 0x0A # header) (c # s) then from_section (drop (length header + 1) (c # s))
      else if starts_with header (c # s) then from_section (drop (length header) (c # s))
      else c # cut_section header s)"

definition toml_header :: string where
  "toml_header = ''[mcp_servers.outception]''"

definition toml_env_header :: string where
  "toml_env_header = ''[mcp_servers.outception.env]''"

definition toml_section :: "server_entry \<Rightarrow> string" where
  "toml_section e =
     [CHR 0x0A] @ toml_header @ [CHR 0x0A] @ ''command = '' @ json_quote (se_command e) @ [CHR 0x0A] @
     ''args = []'' @ [CHR 0x0A, CHR 0x0A] @ toml_env_header @ [CHR 0x0A] @
     join_with [CHR 0x0A] (map (\<lambda>(k, v). k @ '' = '' @ json_quote v) (se_env e)) @ [CHR 0x0A]"

definition without_sections :: "string \<Rightarrow> string" where
  "without_sections current = cut_section toml_env_header (cut_section toml_header current)"

definition merge_toml_config :: "string \<Rightarrow> server_entry \<Rightarrow> string" where
  "merge_toml_config current e = trim_end (without_sections current) @ [CHR 0x0A] @ toml_section e"

section \<open>Installing\<close>

record install_options =
  io_home :: string
  io_skills_dir :: "string option"
  io_api_url :: string
  io_token :: "string option"
  io_targets :: "string list"
  io_dry_run :: bool

datatype step_action = Configured | SkillsCopied | Skipped

record install_step =
  is_target :: string
  is_action :: step_action
  is_path :: string
  is_note :: "string option"

definition detect_targets :: "file_system \<Rightarrow> string \<Rightarrow> agent_target list" where
  "detect_targets fs home = filter (\<lambda>t. exists_sync fs (join_path home (tg_marker t))) targets"

definition wanted_targets :: "file_system \<Rightarrow> install_options \<Rightarrow> agent_target list" where
  "wanted_targets fs opts =
     (if io_targets opts \<noteq> [] then filter (\<lambda>t. tg_id t \<in> set (io_targets opts)) targets
      else detect_targets fs (io_home opts))"

text \<open>The configuration of one target; \<open>None\<close> where its file is not valid JSON.\<close>

definition configure_target :: "install_options \<Rightarrow> agent_target \<Rightarrow> file_system \<Rightarrow> file_system option" where
  "configure_target opts t fs =
     (let file = join_path (io_home opts) (tg_config t); e = make_entry (io_api_url opts) (io_token opts)
      in case tg_format t of
           JsonFormat \<Rightarrow>
             map_option
               (\<lambda>current. if io_dry_run opts then fs
                  else write_file file (pretty 0 (JObj (merge_json_config current (tg_servers_key t) e)) @ [CHR 0x0A])
                         (mkdir_all (dirname file) fs))
               (read_json fs file)
         | TomlFormat \<Rightarrow>
             (let current = (if exists_sync fs file then or_else (fs_files fs file) [] else [])
              in Some (if io_dry_run opts then fs
                       else write_file file (merge_toml_config current e) (mkdir_all (dirname file) fs))))"

definition copy_skills :: "install_options \<Rightarrow> agent_target \<Rightarrow> file_system \<Rightarrow> file_system \<times> install_step list" where
  "copy_skills opts t fs =
     (case truthy (tg_skills_dir t) of
        None \<Rightarrow> (fs, [])
      | Some d \<Rightarrow>
          (let dest = join_path (io_home opts) d in
           case truthy (io_skills_dir opts) of
             Some src \<Rightarrow>
               if exists_sync fs src
               then (if io_dry_run opts then fs else copy_all src dest (mkdir_all dest fs),
                     [\<lparr>is_target = tg_id t, is_action = SkillsCopied, is_path = dest, is_note = None\<rparr>])
               else (fs, [\<lparr>is_target = tg_id t, is_action = Skipped, is_path = dest,
                           is_note = Some ''no skills folder to copy''\<rparr>])
           | None \<Rightarrow> (fs, [\<lparr>is_target = tg_id t, is_action = Skipped, is_path = dest,
                            is_note = Some ''no skills folder to copy''\<rparr>])))"

text \<open>What was written before an invalid file stopped the loop stays written.\<close>

fun install_all :: "install_options \<Rightarrow> agent_target list \<Rightarrow> file_system \<Rightarrow> file_system \<times> install_step list option" where
  "install_all opts [] fs = (fs, Some [])"
| "install_all opts (t # ts) fs =
     (case configure_target opts t fs of
        None \<Rightarrow> (fs, None)
      | Some fs1 \<Rightarrow>
          (case copy_skills opts t fs1 of
             (fs2, skills) \<Rightarrow>
               (case install_all opts ts fs2 of
                  (fs3, rest) \<Rightarrow>
                    (fs3, map_option
                       (\<lambda>steps. \<lparr>is_target = tg_id t, is_action = Configured,
                                 is_path = join_path (io_home opts) (tg_config t), is_note = None\<rparr> # skills @ steps)
                       rest))))"

definition install :: "install_options \<Rightarrow> file_system \<Rightarrow> file_system \<times> install_step list option" where
  "install opts fs = install_all opts (wanted_targets fs opts) fs"

section \<open>The command line\<close>

definition flag_of :: "string list \<Rightarrow> string \<Rightarrow> string option" where
  "flag_of argv name = (let i = index_of name argv in if i \<ge> 0 then elem_at argv (i + 1) else None)"

fun flags_of :: "string list \<Rightarrow> string \<Rightarrow> string list" where
  "flags_of [] name = []"
| "flags_of (a # argv) name =
     (if a = name then (case argv of b # _ \<Rightarrow> if b \<noteq> [] then [b] else [] | [] \<Rightarrow> []) else []) @ flags_of argv name"

definition api_url_of :: "string list \<Rightarrow> string option \<Rightarrow> string" where
  "api_url_of argv env_url = or_else (flag_of argv ''--api-url'') (or_else env_url ''https://api.outception.com'')"

definition options_of :: "string list \<Rightarrow> string option \<Rightarrow> string option \<Rightarrow> string \<Rightarrow> string \<Rightarrow> install_options" where
  "options_of argv env_url env_token home skills_dir =
     \<lparr>io_home = home, io_skills_dir = Some skills_dir, io_api_url = api_url_of argv env_url,
      io_token = (case flag_of argv ''--token'' of Some t \<Rightarrow> Some t | None \<Rightarrow> env_token),
      io_targets = flags_of argv ''--target'', io_dry_run = ''--dry-run'' \<in> set argv\<rparr>"

text \<open>
  The exit code of the command; \<open>doctor\<close> is whether the health check of the API answered well,
  and an error of the installation ends with code 1.
\<close>

definition cli_main ::
  "string list \<Rightarrow> string option \<Rightarrow> string option \<Rightarrow> string \<Rightarrow> string \<Rightarrow> bool \<Rightarrow> file_system \<Rightarrow> file_system \<times> nat" where
  "cli_main argv env_url env_token home skills_dir doctor fs =
     (let command = elem_at argv 0
      in if command = Some ''targets'' then (fs, 0)
         else if command = Some ''install'' then
           (case install (options_of argv env_url env_token home skills_dir) fs of
              (fs', Some steps) \<Rightarrow> (fs', if steps = [] then 1 else 0)
            | (fs', None) \<Rightarrow> (fs', 1))
         else if command = Some ''doctor'' then (fs, if doctor then 0 else 1)
         else (fs, if command = None \<or> command = Some ''--help'' \<or> command = Some ''help'' then 0 else 1))"

section \<open>The JSON configurations\<close>

lemma map_set_twice: "map_set k v (map_set k u es) = map_set k v es"
  by (induction es) auto

text \<open>
  merging into a JSON configuration touches the server's entry and nothing else: every other
  property and every other server keeps its value, and merging again replaces the entry.
\<close>

theorem json_merge_touches_own_entry:
  "map_of (merge_json_config current key e) k =
     (if k = key then Some (JObj (map_set server_key (entry_json e) (servers_of (map_of current key)))) else map_of current k) \<and>
   map_of (servers_of (map_of (merge_json_config current key e) key)) name =
     (if name = server_key then Some (entry_json e) else map_of (servers_of (map_of current key)) name) \<and>
   merge_json_config (merge_json_config current key e) key e' = merge_json_config current key e' \<and>
   map fst (merge_json_config current key e) = map fst current @ (if key \<in> set (map fst current) then [] else [key])"
proof (intro conjI)
  have here: "map_of (merge_json_config current key e) key =
      Some (JObj (map_set server_key (entry_json e) (servers_of (map_of current key))))"
    by (simp add: merge_json_config_def map_of_put)
  then show "map_of (servers_of (map_of (merge_json_config current key e) key)) name =
      (if name = server_key then Some (entry_json e) else map_of (servers_of (map_of current key)) name)"
    by (simp add: servers_of_def map_of_put)
  show "merge_json_config (merge_json_config current key e) key e' = merge_json_config current key e'"
    unfolding merge_json_config_def [of "merge_json_config current key e"] here
    by (simp add: merge_json_config_def servers_of_def map_set_twice)
qed (auto simp: merge_json_config_def map_of_put keys_put)

section \<open>The TOML configuration\<close>

lemma cut_section_skips:
  assumes "CHR 0x0A \<notin> set header"
  shows "\<not> includes_str header p \<Longrightarrow> cut_section header (p @ CHR 0x0A # s) = p @ cut_section header (CHR 0x0A # s)"
proof (induction p)
  case (Cons c p)
  have no: "\<not> starts_with header (c # p)" "\<not> includes_str header p" using Cons.prems by auto
  have sub: "starts_with h p \<Longrightarrow> includes_str h p" for h
    by (cases p) (auto simp: starts_with_def)
  have "\<not> starts_with (CHR 0x0A # header) (c # p @ CHR 0x0A # s)"
    using starts_with_barrier [OF assms, of p s] no(2) sub by (auto simp: starts_with_def)
  moreover have "\<not> starts_with header ((c # p) @ CHR 0x0A # s)" using starts_with_barrier [OF assms] no(1) by blast
  ultimately show ?case using Cons.IH no(2) by simp
qed simp

lemma cut_section_hit:
  assumes "header = CHR ''['' # h"
  shows "cut_section header (CHR 0x0A # CHR 0x0A # header @ t) = CHR 0x0A # from_section t"
  using assms by (simp add: starts_with_def)

lemma from_section_line: "CHR 0x0A \<notin> set l \<Longrightarrow> from_section (l @ s) = from_section s"
  by (induction l) (auto simp: starts_with_def)

lemma from_section_next:
  assumes "l \<noteq> []" and "hd l \<noteq> CHR ''[''" and "CHR 0x0A \<notin> set l"
  shows "from_section (CHR 0x0A # l @ s) = from_section s"
proof -
  have "from_section (CHR 0x0A # l @ s) = from_section (l @ s)" using assms by (cases l) (simp_all add: starts_with_def)
  then show ?thesis by (simp only: from_section_line [OF assms(3)])
qed

lemma quote_one_line [simp]: "CHR 0x0A \<notin> set (json_quote s)"
proof -
  have hex: "CHR 0x0A \<noteq> hex_digit n" if "n < 16" for n
  proof
    assume "CHR 0x0A = hex_digit n"
    then have "code (CHR 0x0A) = code (hex_digit n)" by simp
    then show False using that by (simp add: hex_digit_def split: if_splits)
  qed
  have "CHR 0x0A \<notin> set (escape_char c)" for c
    using hex [of "code c div 16"] hex [of "code c mod 16"] by (auto simp: escape_char_def)
  then show ?thesis by (auto simp: json_quote_def)
qed

lemma not_included_trim: "\<not> includes_str h s \<Longrightarrow> \<not> includes_str h (trim_end s)"
  using trim_end_splits [of s] by (metis append.assoc includes_str_iff)

lemma cut_section_none: "\<not> includes_str header s \<Longrightarrow> header \<noteq> [] \<Longrightarrow> cut_section header s = s"
proof (induction s)
  case (Cons c s)
  then have no: "\<not> starts_with header (c # s)" "\<not> includes_str header s" by auto
  moreover have "\<not> starts_with (CHR 0x0A # header) (c # s)"
    using no(2) includes_str_prefix [of header s] by (auto simp: starts_with_def)
  ultimately show ?case using Cons by simp
qed simp

definition env_lines :: "server_entry \<Rightarrow> string" where
  "env_lines e = join_with [CHR 0x0A] (map (\<lambda>(k, v). k @ '' = '' @ json_quote v) (se_env e)) @ [CHR 0x0A]"

lemma toml_section_parts:
  "toml_section e = CHR 0x0A # toml_header @ (CHR 0x0A # (''command = '' @ json_quote (se_command e)) @ CHR 0x0A #
     ''args = []'' @ CHR 0x0A # CHR 0x0A # toml_env_header @ CHR 0x0A # env_lines e)"
  by (simp add: toml_section_def env_lines_def)

lemma from_command:
  "from_section (CHR 0x0A # (''command = '' @ json_quote c) @ CHR 0x0A # ''args = []'' @ CHR 0x0A # CHR 0x0A #
     toml_env_header @ t) = CHR 0x0A # toml_env_header @ t"
proof -
  have "from_section (CHR 0x0A # (''command = '' @ json_quote c) @ CHR 0x0A # ''args = []'' @ CHR 0x0A # CHR 0x0A #
      toml_env_header @ t) = from_section (CHR 0x0A # ''args = []'' @ CHR 0x0A # CHR 0x0A # toml_env_header @ t)"
    by (rule from_section_next) simp_all
  also have "\<dots> = from_section (CHR 0x0A # CHR 0x0A # toml_env_header @ t)" by (rule from_section_next) simp_all
  finally show ?thesis by (simp add: starts_with_def toml_env_header_def)
qed

lemma from_env_lines: "from_section (CHR 0x0A # env_lines (make_entry u t)) = []"
proof -
  let ?l = "\<lambda>k v. k @ '' = '' @ json_quote v"
  have nil: "from_section [CHR 0x0A] = []" by (simp add: starts_with_def)
  have url: "from_section (CHR 0x0A # ?l ''OUTCEPTION_API_URL'' u @ s) = from_section s" for s
    by (rule from_section_next) simp_all
  have token: "from_section (CHR 0x0A # ?l ''OUTCEPTION_API_TOKEN'' v @ s) = from_section s" for v s
    by (rule from_section_next) simp_all
  show ?thesis
  proof (cases "truthy t")
    case None
    have lines: "env_lines (make_entry u t) = ?l ''OUTCEPTION_API_URL'' u @ [CHR 0x0A]"
      unfolding env_lines_def make_entry_def None by simp
    show ?thesis unfolding lines url nil by (rule refl)
  next
    case (Some v)
    have lines: "env_lines (make_entry u t) =
        ?l ''OUTCEPTION_API_URL'' u @ CHR 0x0A # ?l ''OUTCEPTION_API_TOKEN'' v @ [CHR 0x0A]"
      unfolding env_lines_def make_entry_def Some by simp
    show ?thesis unfolding lines url token nil by (rule refl)
  qed
qed

text \<open>
  merging into a TOML configuration that holds the server's two sections at most once keeps the
  rest of the text in front, merging again replaces the sections, and a configuration without
  them only gets them appended.
\<close>

theorem toml_merge_replaces:
  assumes "\<not> includes_str toml_header (without_sections c)" and "\<not> includes_str toml_env_header (without_sections c)"
  shows "merge_toml_config (merge_toml_config c (make_entry u t)) (make_entry u' t') = merge_toml_config c (make_entry u' t') \<and>
    starts_with (trim_end (without_sections c)) (merge_toml_config c (make_entry u t)) \<and>
    (includes_str toml_header c \<or> includes_str toml_env_header c \<or> without_sections c = c)"
proof -
  let ?p = "trim_end (without_sections c)"
  let ?e = "make_entry u t"
  have no: "\<not> includes_str toml_header ?p" "\<not> includes_str toml_env_header ?p"
    using assms not_included_trim by blast+
  have plain: "CHR 0x0A \<notin> set toml_header" "CHR 0x0A \<notin> set toml_env_header"
    by (simp_all add: toml_header_def toml_env_header_def)
  have hit: "cut_section toml_header (CHR 0x0A # CHR 0x0A # toml_header @ s) = CHR 0x0A # from_section s"
    "cut_section toml_env_header (CHR 0x0A # CHR 0x0A # toml_env_header @ s) = CHR 0x0A # from_section s" for s
    by (rule cut_section_hit, simp add: toml_header_def toml_env_header_def)+
  let ?rest = "CHR 0x0A # CHR 0x0A # toml_env_header @ CHR 0x0A # env_lines ?e"
  have merged: "merge_toml_config c ?e = ?p @ CHR 0x0A # CHR 0x0A # toml_header @
      CHR 0x0A # (''command = '' @ json_quote (se_command ?e)) @ CHR 0x0A # ''args = []'' @ ?rest"
    unfolding merge_toml_config_def toml_section_parts by simp
  have "cut_section toml_header (merge_toml_config c ?e) = ?p @ ?rest"
    unfolding merged cut_section_skips [OF plain(1) no(1)] hit from_command by (rule refl)
  moreover have "cut_section toml_env_header (?p @ ?rest) = ?p @ [CHR 0x0A]"
    unfolding cut_section_skips [OF plain(2) no(2)] hit from_env_lines by (rule refl)
  ultimately have again: "without_sections (merge_toml_config c ?e) = ?p @ [CHR 0x0A]"
    by (simp add: without_sections_def)
  have "without_sections c = c" if "\<not> includes_str toml_header c" "\<not> includes_str toml_env_header c"
    using that cut_section_none by (simp add: without_sections_def toml_header_def toml_env_header_def)
  then show ?thesis unfolding merge_toml_config_def [of "merge_toml_config c ?e"] again by (auto simp: merge_toml_config_def)
qed

definition sample_toml :: string where
  "sample_toml = ''[a]'' @ [CHR 0x0A] @ ''b = 1'' @ [CHR 0x0A]"

theorem toml_merge_replaces_witness:
  "merge_toml_config (merge_toml_config sample_toml (make_entry ''https://a.example'' (Some ''t'')))
     (make_entry ''http://localhost'' None) = merge_toml_config sample_toml (make_entry ''http://localhost'' None)"
proof -
  have "\<not> includes_str toml_header (without_sections sample_toml) \<and>
      \<not> includes_str toml_env_header (without_sections sample_toml)" by code_simp
  then show ?thesis using toml_merge_replaces by blast
qed

section \<open>What an installation changes\<close>

definition target_file :: "install_options \<Rightarrow> agent_target \<Rightarrow> string" where
  "target_file opts t = join_path (io_home opts) (tg_config t)"

text \<open>The text a target's configuration gets, from the files as they were.\<close>

definition merged_text :: "install_options \<Rightarrow> agent_target \<Rightarrow> file_system \<Rightarrow> string option" where
  "merged_text opts t fs =
     (let e = make_entry (io_api_url opts) (io_token opts); file = target_file opts t
      in case tg_format t of
           JsonFormat \<Rightarrow>
             map_option (\<lambda>current. pretty 0 (JObj (merge_json_config current (tg_servers_key t) e)) @ [CHR 0x0A])
               (read_json fs file)
         | TomlFormat \<Rightarrow>
             Some (merge_toml_config (if exists_sync fs file then or_else (fs_files fs file) [] else []) e))"

definition is_skill_path :: "install_options \<Rightarrow> agent_target \<Rightarrow> string \<Rightarrow> bool" where
  "is_skill_path opts t p \<longleftrightarrow>
     (\<exists>d. tg_skills_dir t = Some d \<and> starts_with (join_path (io_home opts) d @ ''/'') p)"

lemma configure_cases:
  "configure_target opts t fs =
     map_option (\<lambda>text. if io_dry_run opts then fs
                   else write_file (target_file opts t) text (mkdir_all (dirname (target_file opts t)) fs))
       (merged_text opts t fs)"
  unfolding configure_target_def merged_text_def target_file_def Let_def
  by (cases "tg_format t") (simp_all add: option.map_comp comp_def)

lemma mkdir_files [simp]: "fs_files (mkdir_all path fs) = fs_files fs"
  by (simp add: mkdir_all_def)

lemma configure_frame:
  "configure_target opts t fs = Some fs1 \<Longrightarrow> p \<noteq> target_file opts t \<Longrightarrow> fs_files fs1 p = fs_files fs p"
  by (auto simp: configure_cases write_file_def split: if_splits)

lemma copy_frame: "copy_skills opts t fs = (fs1, steps) \<Longrightarrow> \<not> is_skill_path opts t p \<Longrightarrow> fs_files fs1 p = fs_files fs p"
  by (auto simp: copy_skills_def copy_all_def is_skill_path_def truthy_Some Let_def split: option.splits if_splits)

lemma install_all_frame:
  assumes "install_all opts ts fs = (fs', r)"
  shows "(io_dry_run opts \<longrightarrow> fs' = fs) \<and>
    ((\<forall>t \<in> set ts. p \<noteq> target_file opts t \<and> \<not> is_skill_path opts t p) \<longrightarrow> fs_files fs' p = fs_files fs p)"
  using assms
proof (induction ts arbitrary: fs fs' r)
  case (Cons t ts)
  show ?case
  proof (cases "configure_target opts t fs")
    case (Some fs1)
    obtain fs2 skills fs3 rest where steps: "copy_skills opts t fs1 = (fs2, skills)" "install_all opts ts fs2 = (fs3, rest)"
      by (cases "copy_skills opts t fs1"; cases "install_all opts ts (fst (copy_skills opts t fs1))") auto
    have "fs' = fs3" using Cons.prems Some steps by simp
    moreover have "io_dry_run opts \<Longrightarrow> fs1 = fs \<and> fs2 = fs1"
      using Some steps(1) by (auto simp: configure_cases copy_skills_def Let_def split: option.splits if_splits)
    ultimately show ?thesis
      using Cons.IH [OF steps(2)] configure_frame [OF Some, of p] copy_frame [OF steps(1), of p] by auto
  qed (use Cons in simp)
qed simp

text \<open>Paths of the targets: none is under another's skills, or above a folder that is made.\<close>

lemma starts_with_home [simp]: "starts_with (join_path h a) (join_path h b) \<longleftrightarrow> starts_with a b"
  by (auto simp: starts_with_def join_path_def)

lemma mkdir_folders:
  assumes "\<not> starts_with c d"
  shows "join_path h c \<in> fs_folders (mkdir_all (join_path h d) fs) \<longleftrightarrow> join_path h c \<in> fs_folders fs"
proof -
  have "starts_with (take n (join_path h d)) (join_path h d)" for n by (simp add: starts_with_def min_def)
  then have "join_path h c \<noteq> take n (join_path h d)" for n using assms starts_with_home [of h c d] by metis
  then show ?thesis by (auto simp: mkdir_all_def)
qed

lemma dirname_join: "CHR ''/'' \<in> set c \<Longrightarrow> dirname (join_path h c) = join_path h (dirname c)"
proof -
  assume "CHR ''/'' \<in> set c"
  then have "dropWhile (\<lambda>c. c \<noteq> CHR ''/'') (rev c) \<noteq> []" "\<exists>x \<in> set (rev c). \<not> (x \<noteq> CHR ''/'')"
    by (auto simp: dropWhile_eq_Nil_conv)
  then show ?thesis by (simp add: dirname_def join_path_def dropWhile_append1)
qed

lemma target_table:
  "list_all (\<lambda>t. list_all (\<lambda>u.
     CHR ''/'' \<in> set (tg_config u) \<and> \<not> starts_with (tg_config t) (dirname (tg_config u)) \<and>
     (tg_config t = tg_config u \<longrightarrow> t = u) \<and>
     (case tg_skills_dir u of None \<Rightarrow> True
      | Some d \<Rightarrow> \<not> starts_with (tg_config t) d \<and> \<not> starts_with (d @ ''/'') (tg_config t))) targets) targets"
  by code_simp

lemma target_paths:
  assumes "t \<in> set targets" and "u \<in> set targets"
  shows "CHR ''/'' \<in> set (tg_config u)" and "\<not> starts_with (tg_config t) (dirname (tg_config u))"
    and "tg_config t = tg_config u \<Longrightarrow> t = u"
    and "tg_skills_dir u = Some d \<Longrightarrow> \<not> starts_with (tg_config t) d \<and> \<not> starts_with (d @ ''/'') (tg_config t)"
  using target_table [unfolded list_all_iff] assms by fastforce+

lemma target_not_skill: "t \<in> set targets \<Longrightarrow> u \<in> set targets \<Longrightarrow> \<not> is_skill_path opts u (target_file opts t)"
proof -
  assume "t \<in> set targets" "u \<in> set targets"
  moreover have "join_path h d @ ''/'' = join_path h (d @ ''/'')" for h d by (simp add: join_path_def)
  ultimately show ?thesis using target_paths(4) [of t u] by (auto simp: is_skill_path_def target_file_def)
qed

lemma configure_folders:
  assumes "t \<in> set targets" and "u \<in> set targets" and "configure_target opts u fs = Some fs1"
  shows "target_file opts t \<in> fs_folders fs1 \<longleftrightarrow> target_file opts t \<in> fs_folders fs"
proof -
  have "target_file opts t \<in> fs_folders (mkdir_all (dirname (target_file opts u)) fs) \<longleftrightarrow> target_file opts t \<in> fs_folders fs"
    unfolding target_file_def dirname_join [OF target_paths(1) [OF assms(1,2)]]
    by (rule mkdir_folders [OF target_paths(2) [OF assms(1,2)]])
  then show ?thesis using assms(3) by (auto simp: configure_cases write_file_def split: if_splits)
qed

lemma copy_folders:
  assumes "t \<in> set targets" and "u \<in> set targets" and "copy_skills opts u fs = (fs1, steps)"
  shows "target_file opts t \<in> fs_folders fs1 \<longleftrightarrow> target_file opts t \<in> fs_folders fs"
proof (cases "truthy (tg_skills_dir u)")
  case (Some d)
  then have d: "tg_skills_dir u = Some d" by (simp add: truthy_Some)
  have "\<not> starts_with (join_path (io_home opts) d @ ''/'') (target_file opts t)"
    using target_not_skill [OF assms(1,2), of opts] d by (auto simp: is_skill_path_def)
  then have "target_file opts t \<noteq> join_path (io_home opts) d @ drop (length src) p" if "starts_with (src @ ''/'') p" for src p
    using that by (auto simp: starts_with_iff)
  then have copied: "target_file opts t \<in> fs_folders (copy_all src (join_path (io_home opts) d) gs) \<longleftrightarrow>
      target_file opts t \<in> fs_folders gs" for src gs
    by (auto simp: copy_all_def)
  have made: "target_file opts t \<in> fs_folders (mkdir_all (join_path (io_home opts) d) fs) \<longleftrightarrow> target_file opts t \<in> fs_folders fs"
    unfolding target_file_def using mkdir_folders target_paths(4) [OF assms(1,2) d] by blast
  show ?thesis
    using assms(3) copied made by (auto simp: copy_skills_def Some Let_def split: option.splits if_splits)
qed (use assms in \<open>simp add: copy_skills_def\<close>)

text \<open>Configuring another target leaves alone what a target's own merge depends on.\<close>

lemma merged_text_cong:
  assumes "fs_files fs1 (target_file opts t) = fs_files fs (target_file opts t)"
    and "target_file opts t \<in> fs_folders fs1 \<longleftrightarrow> target_file opts t \<in> fs_folders fs"
  shows "merged_text opts t fs1 = merged_text opts t fs"
proof -
  have "exists_sync fs1 (target_file opts t) \<longleftrightarrow> exists_sync fs (target_file opts t)"
    using assms by (simp add: exists_sync_def)
  then show ?thesis using assms(1) by (simp add: merged_text_def read_json_def Let_def split: config_format.split)
qed

lemma other_target_kept:
  assumes "t \<in> set targets" and "u \<in> set targets" and "t \<noteq> u"
    and "configure_target opts u fs = Some fs1" and "copy_skills opts u fs1 = (fs2, steps)"
  shows "fs_files fs2 (target_file opts t) = fs_files fs (target_file opts t) \<and>
    merged_text opts t fs2 = merged_text opts t fs"
proof -
  have "target_file opts t \<noteq> target_file opts u"
    using target_paths(3) [OF assms(1,2)] assms(3) by (auto simp: target_file_def join_path_def)
  then have same: "fs_files fs2 (target_file opts t) = fs_files fs (target_file opts t)"
    using configure_frame [OF assms(4)] copy_frame [OF assms(5) target_not_skill [OF assms(1,2)]] by simp
  moreover have "target_file opts t \<in> fs_folders fs2 \<longleftrightarrow> target_file opts t \<in> fs_folders fs"
    using configure_folders [OF assms(1,2,4)] copy_folders [OF assms(1,2,5)] by blast
  ultimately show ?thesis using merged_text_cong by blast
qed

lemma install_all_content:
  assumes "install_all opts ts fs = (fs', Some steps)" and "\<not> io_dry_run opts"
    and "set ts \<subseteq> set targets" and "distinct ts" and "t \<in> set ts"
  shows "fs_files fs' (target_file opts t) = merged_text opts t fs \<and> merged_text opts t fs \<noteq> None \<and>
    \<lparr>is_target = tg_id t, is_action = Configured, is_path = target_file opts t, is_note = None\<rparr> \<in> set steps"
  using assms
proof (induction ts arbitrary: fs fs' steps)
  case (Cons u ts)
  obtain fs1 where fs1: "configure_target opts u fs = Some fs1" using Cons.prems(1) by (auto split: option.splits)
  obtain fs2 skills where fs2: "copy_skills opts u fs1 = (fs2, skills)" by fastforce
  obtain rest where rest: "install_all opts ts fs2 = (fs', Some rest)"
    and steps: "steps = \<lparr>is_target = tg_id u, is_action = Configured, is_path = target_file opts u, is_note = None\<rparr> # skills @ rest"
    using Cons.prems(1) fs1 fs2 by (auto simp: target_file_def split: prod.splits)
  have u: "u \<in> set targets" "u \<notin> set ts" using Cons.prems by auto
  show ?case
  proof (cases "t = u")
    case False
    then have t: "t \<in> set ts" "t \<in> set targets" using Cons.prems by auto
    show ?thesis
      using Cons.IH [OF rest] other_target_kept [OF t(2) u(1) False fs1 fs2] Cons.prems t steps by auto
  next
    case True
    obtain body where body: "merged_text opts u fs = Some body"
        "fs1 = write_file (target_file opts u) body (mkdir_all (dirname (target_file opts u)) fs)"
      using fs1 Cons.prems(2) by (auto simp: configure_cases)
    have "fs_files fs2 (target_file opts u) = Some body"
      using copy_frame [OF fs2 target_not_skill [OF u(1) u(1)]] body(2) by (simp add: write_file_def)
    moreover have "\<forall>v \<in> set ts. target_file opts u \<noteq> target_file opts v \<and> \<not> is_skill_path opts v (target_file opts u)"
    proof (intro ballI conjI)
      fix v assume v: "v \<in> set ts"
      then have "v \<in> set targets" "u \<noteq> v" using Cons.prems(3) u(2) by auto
      then show "target_file opts u \<noteq> target_file opts v" "\<not> is_skill_path opts v (target_file opts u)"
        using target_paths(3) [OF u(1)] target_not_skill [OF u(1)] by (auto simp: target_file_def join_path_def)
    qed
    ultimately have "fs_files fs' (target_file opts u) = Some body"
      using install_all_frame [OF rest, of "target_file opts u"] by simp
    then show ?thesis using True body(1) steps by simp
  qed
qed simp

lemma wanted_targets_set: "set (wanted_targets fs opts) \<subseteq> set targets \<and> distinct (wanted_targets fs opts)"
  by (auto simp: wanted_targets_def detect_targets_def intro: distinct_filter) (simp_all add: targets_def)

text \<open>
  C40: An installation touches nothing but the configuration files of the agents it is for and the
  files under their skills folders, and a dry run touches nothing at all; when it succeeds every one
  of those agents is reported and its configuration is the merge of what it held before.
\<close>

theorem install_touches_own_files:
  assumes "install opts fs = (fs', result)"
  shows "(io_dry_run opts \<longrightarrow> fs' = fs) \<and>
    (\<forall>p. fs_files fs' p \<noteq> fs_files fs p \<longrightarrow>
      (\<exists>t \<in> set (wanted_targets fs opts). p = target_file opts t \<or> is_skill_path opts t p)) \<and>
    (\<forall>steps. result = Some steps \<and> \<not> io_dry_run opts \<longrightarrow>
      (\<forall>t \<in> set (wanted_targets fs opts).
         fs_files fs' (target_file opts t) = merged_text opts t fs \<and> merged_text opts t fs \<noteq> None \<and>
         \<lparr>is_target = tg_id t, is_action = Configured, is_path = target_file opts t, is_note = None\<rparr> \<in> set steps))"
  using assms install_all_frame [of opts "wanted_targets fs opts" fs fs' result]
    install_all_content [of opts "wanted_targets fs opts" fs fs'] wanted_targets_set [of fs opts]
  unfolding install_def by blast

definition sample_home :: file_system where
  "sample_home = \<lparr>fs_files = [''/h/.codex/config.toml'' \<mapsto> sample_toml, ''/h/notes'' \<mapsto> ''x''], fs_folders = {''/h/.codex''}\<rparr>"

definition sample_install :: install_options where
  "sample_install =
     \<lparr>io_home = ''/h'', io_skills_dir = None, io_api_url = ''http://localhost'', io_token = None,
      io_targets = [], io_dry_run = False\<rparr>"

theorem install_touches_own_files_witness:
  "fs_files (fst (install sample_install sample_home)) ''/h/notes'' = Some ''x''"
proof -
  obtain fs' result where run: "install sample_install sample_home = (fs', result)" by fastforce
  have "\<not> (\<exists>t \<in> set targets. ''/h/notes'' = target_file sample_install t \<or> is_skill_path sample_install t ''/h/notes'')"
    by (simp add: targets_def target_file_def is_skill_path_def join_path_def sample_install_def starts_with_def)
  then have "fs_files fs' ''/h/notes'' = fs_files sample_home ''/h/notes''"
    using install_touches_own_files [OF run] wanted_targets_set [of sample_home sample_install] by blast
  moreover have "fs_files sample_home ''/h/notes'' = Some ''x''" by (simp add: sample_home_def)
  ultimately show ?thesis by (simp add: run)
qed

text \<open>
  The installer accepts to write, for an API off this machine, a configuration without a token,
  from which the server refuses to start.
\<close>

lemma installed_without_token:
  assumes "\<not> is_loopback (strip_slashes u)" and "truthy t = None"
  shows "create_api \<lparr>ao_base = or_else (map_of (se_env (make_entry u t)) ''OUTCEPTION_API_URL'') d,
    ao_token = map_of (se_env (make_entry u t)) ''OUTCEPTION_API_TOKEN''\<rparr> = None"
  using assms by (simp add: make_entry_def create_api_def requires_token_def truthy_def)

end
