(* ===== verification/Pagination.thy ===== *)
theory Pagination
  imports Prelude
begin

text \<open>
  The paginator (\<open>packages/ui/src/components/atoms/Paginator.tsx\<close>): the list of page
  buttons around the current page, with an ellipsis for what is left out, and what each
  button does. Counts and page numbers are integers; \<open>Math.ceil\<close> of their quotient is
  written with \<open>div\<close>, for a positive page size.
\<close>

section \<open>The list of pages\<close>

datatype pager_item = Page int | Dots

text \<open>\<open>Array.from({ length }, (_, i) => i + start)\<close>: a negative length counts as zero.\<close>

definition page_range :: "int \<Rightarrow> int \<Rightarrow> int list" where
  "page_range start stop = map (\<lambda>i. int i + start) [0..<nat (stop - start + 1)]"

definition page_count :: "int \<Rightarrow> int \<Rightarrow> int" where
  "page_count total_count page_size = - ((- total_count) div page_size)"

text \<open>\<open>None\<close> is the \<open>undefined\<close> of a callback that ends without a return.\<close>

definition use_pagination :: "int \<Rightarrow> int \<Rightarrow> int \<Rightarrow> int \<Rightarrow> pager_item list option" where
  "use_pagination total_count page_size sibling_count current_page =
     (let pages = page_count total_count page_size in
      if sibling_count + 5 \<ge> pages then Some (map Page (page_range 1 pages))
      else
        let left = max (current_page - sibling_count) 1;
            right = min (current_page + sibling_count) pages;
            left_dots = left > 2;
            right_dots = right < pages - 2;
            items = 3 + 2 * sibling_count
        in if \<not> left_dots \<and> right_dots then
             Some (map Page (page_range 1 items) @ [Dots, Page pages])
           else if left_dots \<and> \<not> right_dots then
             Some ([Page 1, Dots] @ map Page (page_range (pages - items + 1) pages))
           else if left_dots \<and> right_dots then
             Some ([Page 1, Dots] @ map Page (page_range left right) @ [Dots, Page pages])
           else None)"

section \<open>The component\<close>

text \<open>
  A link has a page in its address, for a reader without scripts, and a click handler,
  which asks for a page or does nothing.
\<close>

record pager_link =
  link_page :: int
  on_click :: "int option"
  is_disabled :: bool

datatype pill = Ellipsis | Pill int bool pager_link

record pager_view =
  prev_link :: pager_link
  pills :: "pill list"
  next_link :: pager_link

definition page_pill :: "int \<Rightarrow> pager_item \<Rightarrow> pill" where
  "page_pill current_page it =
     (case it of
        Dots \<Rightarrow> Ellipsis
      | Page p \<Rightarrow>
          Pill p (p = current_page)
            \<lparr>link_page = p, on_click = (if p \<noteq> current_page then Some p else None),
             is_disabled = False\<rparr>)"

definition last_page :: "pager_item list \<Rightarrow> int" where
  "last_page ps = (if ps = [] then 1 else case last ps of Page p \<Rightarrow> p | Dots \<Rightarrow> 1)"

definition paginator :: "int \<Rightarrow> int \<Rightarrow> int \<Rightarrow> int \<Rightarrow> pager_view option" where
  "paginator total_count page_size sibling_count current_page =
     (let ps = or_else (use_pagination total_count page_size sibling_count current_page) [];
          l = last_page ps
      in if current_page = 0 \<or> length ps < 2 then None
         else Some
           \<lparr>prev_link =
              \<lparr>link_page = (if current_page > 1 then current_page - 1 else 1),
               on_click = (if current_page > 1 then Some (current_page - 1) else None),
               is_disabled = (current_page = 1)\<rparr>,
            pills = map (page_pill current_page) ps,
            next_link =
              \<lparr>link_page = l,
               on_click = (if current_page < l then Some (current_page + 1) else None),
               is_disabled = (current_page \<ge> l)\<rparr>\<rparr>)"

section \<open>What a reader may expect of the list\<close>

text \<open>
  From one item to the next the page grows by one, or an ellipsis stands for at least one
  page left out; the list starts and ends on a page.
\<close>

fun pager_steps :: "pager_item list \<Rightarrow> bool" where
  "pager_steps [Page a] \<longleftrightarrow> True"
| "pager_steps (Page a # Page b # r) \<longleftrightarrow> b = a + 1 \<and> pager_steps (Page b # r)"
| "pager_steps (Page a # Dots # Page b # r) \<longleftrightarrow> a + 1 < b \<and> pager_steps (Page b # r)"
| "pager_steps _ \<longleftrightarrow> False"

lemma page_range_upto: "page_range a b = [a..b]"
proof (rule nth_equalityI)
  fix i assume "i < length (page_range a b)"
  then show "page_range a b ! i = [a..b] ! i" by (simp add: page_range_def)
qed (simp add: page_range_def)

lemma upto_join: "a \<le> b \<Longrightarrow> [a..b] = a # [a + 1..b]"
  by (rule upto_rec1)

lemma steps_range: "a \<le> b \<Longrightarrow> pager_steps (map Page [a..b])"
proof (induction "nat (b - a)" arbitrary: a)
  case (Suc n)
  then have "pager_steps (map Page [a + 1..b])" by simp
  then show ?case using Suc(2) by (simp add: upto_join [of a b] upto_join [of "a + 1" b])
qed (simp add: upto_join)

lemma steps_range_dots:
  "a \<le> b \<Longrightarrow> b + 1 < c \<Longrightarrow> pager_steps (map Page [a..b] @ [Dots, Page c])"
proof (induction "nat (b - a)" arbitrary: a)
  case (Suc n)
  then have "pager_steps (map Page [a + 1..b] @ [Dots, Page c])" by simp
  then show ?case using Suc(2) by (simp add: upto_join [of a b] upto_join [of "a + 1" b])
qed (simp add: upto_join)

lemma steps_after_dots:
  assumes "pager_steps (map Page [a..b] @ rest)" and "a \<le> b" and "2 < a"
  shows "pager_steps ([Page 1, Dots] @ map Page [a..b] @ rest)"
  using assms upto_join [OF assms(2)] by simp

lemma page_count_pos: "0 < sz \<Longrightarrow> 0 < tot \<Longrightarrow> 1 \<le> page_count tot sz"
  by (simp add: page_count_def div_neg_pos_less0 int_one_le_iff_zero_less)

text \<open>The number of pages is the least one whose pages hold everything.\<close>

lemma page_count_least:
  assumes "0 < sz"
  shows "tot \<le> page_count tot sz * sz \<and> (page_count tot sz - 1) * sz < tot"
proof -
  let ?q = "(- tot) div sz"
  have "?q * sz \<le> - tot" "- tot < ?q * sz + sz"
    using assms pos_mod_bound [of sz "- tot"] pos_mod_sign [of sz "- tot"]
      div_mult_mod_eq [of "- tot" sz] by linarith+
  then show ?thesis by (simp add: page_count_def algebra_simps)
qed

lemma pages_listed:
  assumes "0 \<le> s" and "s \<le> 1" and "1 \<le> cur" and "cur \<le> page_count tot sz"
  shows "\<exists>ps. use_pagination tot sz s cur = Some ps \<and> pager_steps ps
     \<and> hd ps = Page 1 \<and> last ps = Page (page_count tot sz)
     \<and> (\<forall>p \<in> {max 1 (cur - s)..min (cur + s) (page_count tot sz)}. Page p \<in> set ps)
     \<and> int (length ps) \<le> 2 * s + 5"
proof -
  define n where "n = page_count tot sz"
  have hd_upto: "hd [a..b] = a" if "a \<le> b" for a b :: int using that by (simp add: upto_join)
  have last_upto: "last [a..b] = b" if "a \<le> b" for a b :: int
    using that by (simp add: upto_rec2)
  have ne: "[a..b] \<noteq> [] \<longleftrightarrow> a \<le> b" for a b :: int by auto
  note facts = use_pagination_def page_range_upto n_def [symmetric] Let_def hd_map last_map ne
    hd_upto last_upto steps_range steps_range_dots image_iff
  consider "n \<le> s + 5" | "s + 5 < n" "cur \<le> s + 2" | "s + 5 < n" "n - 2 \<le> cur + s"
    | "s + 5 < n" "s + 2 < cur" "cur + s < n - 2" by linarith
  then show ?thesis
  proof cases
    case 1
    then show ?thesis using assms by (auto simp: facts)
  next
    case 2
    then have "use_pagination tot sz s cur = Some (map Page [1..3 + 2 * s] @ [Dots, Page n])"
      using assms by (simp add: facts)
    then show ?thesis using 2 assms by (auto simp: facts)
  next
    case 3
    let ?b = "n - (3 + 2 * s) + 1"
    have "use_pagination tot sz s cur = Some ([Page 1, Dots] @ map Page [?b..n])"
      using 3 assms by (simp add: facts)
    moreover have "pager_steps ([Page 1, Dots] @ map Page [?b..n])"
      using steps_after_dots [of ?b n "[]"] 3 assms by (simp add: steps_range)
    ultimately show ?thesis using 3 assms by (auto simp: facts)
  next
    case 4
    let ?a = "cur - s" and ?b = "cur + s"
    have "use_pagination tot sz s cur
        = Some ([Page 1, Dots] @ map Page [?a..?b] @ [Dots, Page n])"
      using 4 assms by (simp add: facts max_def min_def)
    moreover have "pager_steps ([Page 1, Dots] @ map Page [?a..?b] @ [Dots, Page n])"
      using 4 assms by (intro steps_after_dots steps_range_dots) simp_all
    ultimately show ?thesis using 4 assms by (auto simp: facts)
  qed
qed

section \<open>Properties\<close>

text \<open>
  With no sibling or one, on any page there is, the list is defined, starts on the
  first page and ends on the last, grows by single pages with an ellipsis only for pages
  left out, shows the current page and its siblings, and has at most \<open>2 s + 5\<close> entries.
\<close>

lemma pagination_list:
  assumes "0 \<le> s" and "s \<le> 1" and "1 \<le> cur" and "cur \<le> page_count tot sz"
  shows "\<exists>ps. use_pagination tot sz s cur = Some ps \<and> pager_steps ps
     \<and> hd ps = Page 1 \<and> last ps = Page (page_count tot sz)
     \<and> (\<forall>p \<in> {max 1 (cur - s)..min (cur + s) (page_count tot sz)}. Page p \<in> set ps)
     \<and> int (length ps) \<le> 2 * s + 5"
  using assms by (rule pages_listed)

lemma pagination_list_witness:
  "\<exists>ps. use_pagination 95 10 1 5 = Some ps \<and> pager_steps ps
     \<and> hd ps = Page 1 \<and> last ps = Page (page_count 95 10)"
  using pagination_list [of 1 5 95 10] by (auto simp: page_count_def)

lemma use_pagination_sample:
  "use_pagination 95 10 1 5
     = Some [Page 1, Dots, Page 4, Page 5, Page 6, Dots, Page 10]"
  by code_simp

text \<open>The bound on the siblings matters: with two the list can be missing, with three repeat.\<close>

lemma two_siblings_undefined: "use_pagination 80 10 2 4 = None" "paginator 80 10 2 4 = None"
  by code_simp+

lemma three_siblings_repeat:
  "use_pagination 90 10 3 1 = Some (map Page [1..9] @ [Dots, Page 9])"
  by code_simp

text \<open>An ellipsis on the right may stand for one page only.\<close>

lemma one_page_hidden: "use_pagination 70 10 1 3 = Some (map Page [1..5] @ [Dots, Page 7])"
  by code_simp

text \<open>
  with no sibling or one, from two pages on, the buttons are there: the arrow back asks
  for the page before unless this is the first, the arrow forward for the page after unless
  this is the last, and exactly the current page's own button asks for nothing.
\<close>

lemma paginator_buttons:
  assumes "0 \<le> s" and "s \<le> 1" and "1 \<le> cur" and "cur \<le> page_count tot sz"
    and "2 \<le> page_count tot sz"
  shows "\<exists>v. paginator tot sz s cur = Some v
     \<and> on_click (prev_link v) = (if cur = 1 then None else Some (cur - 1))
     \<and> on_click (next_link v) = (if cur = page_count tot sz then None else Some (cur + 1))
     \<and> is_disabled (prev_link v) = (on_click (prev_link v) = None)
     \<and> is_disabled (next_link v) = (on_click (next_link v) = None)
     \<and> (\<forall>p lit l. Pill p lit l \<in> set (pills v)
          \<longrightarrow> lit = (p = cur) \<and> on_click l = (if p = cur then None else Some p))
     \<and> (\<exists>l. Pill cur True l \<in> set (pills v))"
proof -
  obtain ps where ps: "use_pagination tot sz s cur = Some ps" "hd ps = Page 1"
    "last ps = Page (page_count tot sz)" "pager_steps ps" "Page cur \<in> set ps"
    using pages_listed [OF assms(1-4)] assms by fastforce
  then have len: "2 \<le> length ps"
    using assms(5) by (cases ps; cases "tl ps") auto
  then have last_p: "last_page ps = page_count tot sz"
    using ps(3) by (auto simp: last_page_def)
  from len have v: "paginator tot sz s cur = Some
           \<lparr>prev_link =
              \<lparr>link_page = (if cur > 1 then cur - 1 else 1),
               on_click = (if cur > 1 then Some (cur - 1) else None),
               is_disabled = (cur = 1)\<rparr>,
            pills = map (page_pill cur) ps,
            next_link =
              \<lparr>link_page = page_count tot sz,
               on_click = (if cur < page_count tot sz then Some (cur + 1) else None),
               is_disabled = (cur \<ge> page_count tot sz)\<rparr>\<rparr>"
    using ps(1) assms(3) last_p by (auto simp: paginator_def Let_def)
  have "Pill cur True \<lparr>link_page = cur, on_click = None, is_disabled = False\<rparr>
      \<in> set (map (page_pill cur) ps)"
    using imageI [OF ps(5), of "page_pill cur"] by (simp add: page_pill_def)
  moreover have "Pill p lit l \<in> set (map (page_pill cur) ps)
      \<Longrightarrow> lit = (p = cur) \<and> on_click l = (if p = cur then None else Some p)" for p lit l
    by (auto simp: page_pill_def split: pager_item.splits)
  ultimately show ?thesis
    unfolding v using assms(3,4) by (intro exI conjI) (rule refl, auto)
qed

lemma paginator_buttons_witness:
  "\<exists>v. paginator 95 10 1 5 = Some v \<and> on_click (next_link v) = Some 6"
  using paginator_buttons [of 1 5 95 10] by (auto simp: page_count_def)

text \<open>
  The address of the arrow forward is the last page, not the next: without scripts it
  skips whatever lies between.
\<close>

lemma next_address_is_last:
  "map_option (\<lambda>v. (link_page (next_link v), on_click (next_link v))) (paginator 95 10 1 5)
     = Some (10, Some 6)"
  by code_simp

end
