(* ===== verification/App_Toast.thy ===== *)
theory App_Toast
  imports Prelude
begin

text \<open>
  The toast of the app (\<open>apps/app/providers/ToastProvider.tsx\<close>): one toast at a time,
  dismissed by itself after two seconds unless it is persistent, and taken away 200 ms
  after a dismissal, when it has slid out. The state is the provider's, with the timers
  that run and a clock; \<open>run_until\<close> lets time pass, firing what falls due.
\<close>

section \<open>State\<close>

datatype toast_type = Info | Success | Error_Toast | Warning

record shown_toast =
  toast_id :: nat
  toast_message :: string
  toast_kind :: toast_type
  persistent :: bool

datatype toast_timer = Auto_Dismiss | Clear_Toast

record toast_host =
  shown :: "shown_toast option"
  visible :: bool
  timeout_ref :: "nat option"
  id_counter :: nat
  host_timers :: "(nat \<times> int \<times> toast_timer) list"
  host_clock :: int
  next_timer :: nat

definition empty_host :: toast_host where
  "empty_host =
     \<lparr>shown = None, visible = False, timeout_ref = None, id_counter = 0,
      host_timers = [], host_clock = 0, next_timer = 1\<rparr>"

definition auto_dismiss_duration :: int where
  "auto_dismiss_duration = 2000"

definition slide_out_ms :: int where
  "slide_out_ms = 200"

section \<open>Operations\<close>

text \<open>\<open>setTimeout\<close>: a fresh handle, due after the delay.\<close>

definition set_timeout :: "toast_timer \<Rightarrow> int \<Rightarrow> toast_host \<Rightarrow> toast_host" where
  "set_timeout task delay h =
     h\<lparr>host_timers := host_timers h @ [(next_timer h, host_clock h + delay, task)],
       next_timer := next_timer h + 1\<rparr>"

definition clear_timer :: "toast_host \<Rightarrow> toast_host" where
  "clear_timer h =
     (case timeout_ref h of
        None \<Rightarrow> h
      | Some i \<Rightarrow>
          h\<lparr>host_timers := filter (\<lambda>t. fst t \<noteq> i) (host_timers h), timeout_ref := None\<rparr>)"

definition dismiss_toast_host :: "toast_host \<Rightarrow> toast_host" where
  "dismiss_toast_host h =
     set_timeout Clear_Toast slide_out_ms ((clear_timer h)\<lparr>visible := False\<rparr>)"

definition show_on_host :: "string \<Rightarrow> toast_type \<Rightarrow> bool \<Rightarrow> toast_host \<Rightarrow> toast_host" where
  "show_on_host message kind persists h =
     (let h1 = clear_timer h;
          n = id_counter h1 + 1;
          h2 = h1\<lparr>id_counter := n,
                  shown := Some \<lparr>toast_id = n, toast_message = message, toast_kind = kind,
                                 persistent = persists\<rparr>,
                  visible := True\<rparr>
      in if persists then h2
         else (set_timeout Auto_Dismiss auto_dismiss_duration h2)
                \<lparr>timeout_ref := Some (next_timer h2)\<rparr>)"

text \<open>A timer that fires is gone; what it runs sees the time it was due.\<close>

definition fire_timer :: "nat \<times> int \<times> toast_timer \<Rightarrow> toast_host \<Rightarrow> toast_host" where
  "fire_timer t h =
     (let h1 = h\<lparr>host_timers := filter (\<lambda>u. fst u \<noteq> fst t) (host_timers h),
                 host_clock := max (host_clock h) (fst (snd t))\<rparr>
      in case snd (snd t) of
           Auto_Dismiss \<Rightarrow> dismiss_toast_host h1
         | Clear_Toast \<Rightarrow> h1\<lparr>shown := None\<rparr>)"

text \<open>The timer due first, the older one where two are due together.\<close>

fun earliest :: "(nat \<times> int \<times> toast_timer) list \<Rightarrow> (nat \<times> int \<times> toast_timer) option" where
  "earliest [] = None"
| "earliest (t # ts) =
     (case earliest ts of
        None \<Rightarrow> Some t
      | Some u \<Rightarrow> if fst (snd u) < fst (snd t) then Some u else Some t)"

lemma earliest_none [simp]: "earliest ts = None \<longleftrightarrow> ts = []"
  by (cases ts) (auto split: option.splits)

lemma earliest_in: "earliest ts = Some t \<Longrightarrow> t \<in> set ts \<and> (\<forall>u \<in> set ts. fst (snd t) \<le> fst (snd u))"
proof (induction ts arbitrary: t)
  case (Cons a ts)
  show ?case
  proof (cases "earliest ts")
    case (Some u)
    then show ?thesis using Cons.IH [OF Some] Cons.prems by (auto split: if_splits)
  qed (use Cons.prems in auto)
qed simp

text \<open>
  Letting time pass ends: a dismissal that fires leaves one timer of the other kind, and
  that one leaves none.
\<close>

fun timer_weight :: "toast_timer \<Rightarrow> nat" where
  "timer_weight Auto_Dismiss = 2"
| "timer_weight Clear_Toast = 1"

definition pending_weight :: "toast_host \<Rightarrow> nat" where
  "pending_weight h = sum_list (map (\<lambda>t. timer_weight (snd (snd t))) (host_timers h))"

lemma weight_filter_le:
  "sum_list (map (\<lambda>t. f (snd (snd t))) (filter P ts)) \<le> (sum_list (map (\<lambda>t. f (snd (snd t))) ts) :: nat)"
  by (induction ts) auto

lemma weight_filter_less:
  "t \<in> set ts \<Longrightarrow>
   sum_list (map (\<lambda>t. f (snd (snd t))) (filter (\<lambda>u. fst u \<noteq> fst t) ts)) + f (snd (snd t))
     \<le> (sum_list (map (\<lambda>t. f (snd (snd t))) ts) :: nat)"
proof (induction ts)
  case (Cons a ts)
  then show ?case
    using weight_filter_le [of f "\<lambda>u. fst u \<noteq> fst t" ts] by (cases "a = t") auto
qed simp

lemma weight_clear_timer: "pending_weight (clear_timer h) \<le> pending_weight h"
  by (simp add: clear_timer_def pending_weight_def weight_filter_le split: option.splits)

lemma weight_fire:
  assumes "t \<in> set (host_timers h)"
  shows "pending_weight (fire_timer t h) < pending_weight h"
proof -
  let ?h1 = "h\<lparr>host_timers := filter (\<lambda>u. fst u \<noteq> fst t) (host_timers h),
               host_clock := max (host_clock h) (fst (snd t))\<rparr>"
  have less: "pending_weight ?h1 + timer_weight (snd (snd t)) \<le> pending_weight h"
    using weight_filter_less [OF assms, of timer_weight] by (simp add: pending_weight_def)
  have "pending_weight (dismiss_toast_host ?h1) = pending_weight (clear_timer ?h1) + 1"
    by (simp add: dismiss_toast_host_def set_timeout_def pending_weight_def)
  then show ?thesis
    using less weight_clear_timer [of ?h1]
    by (cases "snd (snd t)") (auto simp: fire_timer_def Let_def pending_weight_def)
qed

function run_until :: "int \<Rightarrow> toast_host \<Rightarrow> toast_host" where
  "run_until stop h =
     (case earliest (host_timers h) of
        None \<Rightarrow> h\<lparr>host_clock := max (host_clock h) stop\<rparr>
      | Some t \<Rightarrow>
          if stop < fst (snd t) then h\<lparr>host_clock := max (host_clock h) stop\<rparr>
          else run_until stop (fire_timer t h))"
  by pat_completeness auto
termination
  by (relation "measure (\<lambda>(_, h). pending_weight h)")
    (auto dest: earliest_in intro: weight_fire)

declare run_until.simps [simp del]

datatype host_event = Show string toast_type bool | Dismiss | Wait nat | Unmount

text \<open>Unmounting the provider clears the timer it holds (the effect's cleanup).\<close>

fun host_step :: "host_event \<Rightarrow> toast_host \<Rightarrow> toast_host" where
  "host_step (Show message kind persists) h = show_on_host message kind persists h"
| "host_step Dismiss h = dismiss_toast_host h"
| "host_step (Wait d) h = run_until (host_clock h + int d) h"
| "host_step Unmount h = clear_timer h"

definition run_host :: "host_event list \<Rightarrow> toast_host" where
  "run_host es = fold host_step es empty_host"

lemma not_auto [simp]: "task \<noteq> Auto_Dismiss \<longleftrightarrow> task = Clear_Toast"
  by (cases task) auto

section \<open>The invariant\<close>

text \<open>
  Handles are distinct and fresh, nothing is overdue, the timer that dismisses is the one
  the provider holds, and no timer is due later than its delay allows.
\<close>

definition timer_ok :: "toast_host \<Rightarrow> nat \<times> int \<times> toast_timer \<Rightarrow> bool" where
  "timer_ok h t \<longleftrightarrow>
     fst t < next_timer h \<and> host_clock h \<le> fst (snd t) \<and>
     (case snd (snd t) of
        Auto_Dismiss \<Rightarrow> timeout_ref h = Some (fst t) \<and> fst (snd t) \<le> host_clock h + 2000
      | Clear_Toast \<Rightarrow> timeout_ref h \<noteq> Some (fst t) \<and> fst (snd t) \<le> host_clock h + 200)"

definition host_ok :: "toast_host \<Rightarrow> bool" where
  "host_ok h \<longleftrightarrow>
     distinct (map fst (host_timers h)) \<and>
     (\<forall>t \<in> set (host_timers h). timer_ok h t) \<and>
     (\<forall>i. timeout_ref h = Some i \<longrightarrow> i < next_timer h) \<and>
     (\<forall>t. shown h = Some t \<longrightarrow> toast_id t \<le> id_counter h)"

lemmas host_defs = host_ok_def timer_ok_def set_timeout_def auto_dismiss_duration_def
  slide_out_ms_def

lemma empty_host_ok: "host_ok empty_host"
  by (simp add: host_ok_def empty_host_def)

lemma clear_timer_ok:
  assumes "host_ok h"
  shows "host_ok (clear_timer h)"
    and "timeout_ref (clear_timer h) = None"
    and "host_clock (clear_timer h) = host_clock h"
    and "\<forall>t \<in> set (host_timers (clear_timer h)). snd (snd t) = Clear_Toast"
    and "\<And>t. t \<in> set (host_timers h) \<Longrightarrow> snd (snd t) = Clear_Toast
          \<Longrightarrow> t \<in> set (host_timers (clear_timer h))"
  using assms
  by (auto simp: clear_timer_def host_ok_def timer_ok_def distinct_map inj_on_def
      split: option.splits toast_timer.splits)

lemma clear_timer_keeps [simp]:
  "shown (clear_timer h) = shown h" "visible (clear_timer h) = visible h"
  "id_counter (clear_timer h) = id_counter h" "next_timer (clear_timer h) = next_timer h"
  by (simp_all add: clear_timer_def split: option.splits)

lemma schedule_clear_ok:
  "host_ok h \<Longrightarrow> timeout_ref h = None \<Longrightarrow> host_ok (set_timeout Clear_Toast slide_out_ms h)"
  by (auto simp: host_defs split: toast_timer.splits)

lemma schedule_auto_ok:
  assumes "host_ok h" and "\<forall>t \<in> set (host_timers h). snd (snd t) = Clear_Toast"
    and "n = next_timer h"
  shows "host_ok ((set_timeout Auto_Dismiss auto_dismiss_duration h)\<lparr>timeout_ref := Some n\<rparr>)"
  using assms by (auto simp: host_defs split: toast_timer.splits)

lemma visible_ok: "host_ok h \<Longrightarrow> host_ok (h\<lparr>visible := v\<rparr>)"
  by (auto simp: host_ok_def timer_ok_def split: toast_timer.splits)

lemma new_toast_ok:
  "host_ok h \<Longrightarrow> host_ok (h\<lparr>id_counter := toast_id t, shown := Some t, visible := v\<rparr>)"
  by (auto simp: host_ok_def timer_ok_def split: toast_timer.splits)

lemma dismiss_ok: "host_ok h \<Longrightarrow> host_ok (dismiss_toast_host h)"
  using clear_timer_ok [of h] by (simp add: dismiss_toast_host_def schedule_clear_ok visible_ok)

lemma show_ok: "host_ok h \<Longrightarrow> host_ok (show_on_host message kind persists h)"
  using clear_timer_ok(1,4) [of h]
    new_toast_ok [where h = "clear_timer h" and v = True and t = "\<lparr>toast_id = id_counter h + 1, toast_message = message,
      toast_kind = kind, persistent = persists\<rparr>"]
  by (cases persists) (simp_all add: show_on_host_def Let_def schedule_auto_ok)

lemma advance_ok:
  assumes "host_ok h" and "\<forall>t \<in> set (host_timers h). c \<le> fst (snd t)"
  shows "host_ok (h\<lparr>host_clock := max (host_clock h) c\<rparr>)"
  using assms by (fastforce simp: host_ok_def timer_ok_def split: toast_timer.splits)

text \<open>Two timers with one handle are one timer.\<close>

lemma same_handle:
  "host_ok h \<Longrightarrow> t \<in> set (host_timers h) \<Longrightarrow> u \<in> set (host_timers h) \<Longrightarrow> fst t = fst u \<Longrightarrow> t = u"
  by (simp add: host_ok_def distinct_map inj_on_def)

lemma held_timer:
  "host_ok h \<Longrightarrow> t \<in> set (host_timers h) \<Longrightarrow> timeout_ref h = Some (fst t) \<longleftrightarrow> snd (snd t) = Auto_Dismiss"
  by (cases "snd (snd t)") (auto simp: host_ok_def timer_ok_def)

lemma hide_ok: "host_ok h \<Longrightarrow> host_ok (h\<lparr>shown := None\<rparr>)"
  by (auto simp: host_ok_def timer_ok_def split: toast_timer.splits)

lemma fire_ok:
  assumes "host_ok h" and "t \<in> set (host_timers h)"
    and "\<forall>u \<in> set (host_timers h). fst (snd t) \<le> fst (snd u)"
  shows "host_ok (fire_timer t h)"
proof -
  let ?ts = "filter (\<lambda>u. fst u \<noteq> fst t) (host_timers h)"
  have "host_ok (h\<lparr>host_timers := ?ts\<rparr>)"
    using assms(1)
    by (auto simp: host_ok_def timer_ok_def distinct_map inj_on_def split: toast_timer.splits)
  then have "host_ok (h\<lparr>host_timers := ?ts, host_clock := max (host_clock h) (fst (snd t))\<rparr>)"
    using advance_ok [of "h\<lparr>host_timers := ?ts\<rparr>" "fst (snd t)"] assms(3) by simp
  then show ?thesis
    by (cases "snd (snd t)") (auto simp: fire_timer_def Let_def dismiss_ok hide_ok)
qed

text \<open>
  How a run is reasoned about: what every timer that fires keeps holds in the end, when
  nothing is left that was due.
\<close>

lemma run_until_keeps:
  assumes "P h"
    and "\<And>h t. P h \<Longrightarrow> t \<in> set (host_timers h) \<Longrightarrow> fst (snd t) \<le> stop
      \<Longrightarrow> \<forall>u \<in> set (host_timers h). fst (snd t) \<le> fst (snd u) \<Longrightarrow> P (fire_timer t h)"
  shows "\<exists>g. P g \<and> (\<forall>t \<in> set (host_timers g). stop < fst (snd t))
     \<and> run_until stop h = g\<lparr>host_clock := max (host_clock g) stop\<rparr>"
  using assms
proof (induction stop h rule: run_until.induct [case_names step])
  case (step stop h)
  show ?case
  proof (cases "earliest (host_timers h)")
    case None
    then show ?thesis using step(2) by (subst run_until.simps) auto
  next
    case (Some t)
    note min = earliest_in [OF Some]
    show ?thesis
    proof (cases "stop < fst (snd t)")
      case True
      then have "\<forall>u \<in> set (host_timers h). stop < fst (snd u)" using min by force
      then show ?thesis using True Some step(2) by (subst run_until.simps) auto
    next
      case False
      then have fired: "P (fire_timer t h)" using step(2) min by (intro step(3)) auto
      have eq: "run_until stop h = run_until stop (fire_timer t h)"
        using Some False by (subst run_until.simps) simp
      show ?thesis unfolding eq by (rule step(1) [OF Some False fired]) (rule step(3))
    qed
  qed
qed

lemma run_until_ok: "host_ok h \<Longrightarrow> host_ok (run_until stop h)"
  using run_until_keeps [of host_ok h stop] fire_ok advance_ok by (metis less_imp_le)

lemma step_ok: "host_ok h \<Longrightarrow> host_ok (host_step e h)"
  by (cases e) (simp_all add: show_ok dismiss_ok run_until_ok clear_timer_ok)

lemma run_host_ok: "host_ok (run_host es)"
proof -
  have "host_ok h \<Longrightarrow> host_ok (fold host_step es h)" for h
    by (induction es arbitrary: h) (simp_all add: step_ok)
  then show ?thesis using empty_host_ok by (simp add: run_host_def)
qed

section \<open>What becomes of a toast\<close>

text \<open>A pending removal takes away whatever shows when it fires.\<close>

lemma pending_clear_clears:
  assumes "shown h = None \<or> (\<exists>i due. (i, due, Clear_Toast) \<in> set (host_timers h) \<and> due \<le> stop)"
    and "host_ok h"
  shows "shown (run_until stop h) = None"
proof -
  define P where "P h \<longleftrightarrow> host_ok h \<and>
      (shown h = None \<or> (\<exists>i due. (i, due, Clear_Toast) \<in> set (host_timers h) \<and> due \<le> stop))" for h
  have "P (fire_timer t h)" if "P h" "t \<in> set (host_timers h)"
    "\<forall>u \<in> set (host_timers h). fst (snd t) \<le> fst (snd u)" for h t
  proof (cases "snd (snd t)")
    case Auto_Dismiss
    let ?h1 = "h\<lparr>host_timers := filter (\<lambda>u. fst u \<noteq> fst t) (host_timers h),
               host_clock := max (host_clock h) (fst (snd t))\<rparr>"
    have ok: "host_ok (fire_timer t h)" using that fire_ok by (simp add: P_def)
    have keep: "(i, due, Clear_Toast) \<in> set (host_timers (fire_timer t h))"
      if "(i, due, Clear_Toast) \<in> set (host_timers h)" for i due
    proof -
      have "host_ok h" using \<open>P h\<close> by (simp add: P_def)
      then have "timeout_ref h \<noteq> Some i" "i \<noteq> fst t"
        using held_timer [of h "(i, due, Clear_Toast)"] held_timer [of h t] that
          \<open>t \<in> set (host_timers h)\<close> Auto_Dismiss by auto
      then show ?thesis
        using that Auto_Dismiss
        by (auto simp: fire_timer_def Let_def dismiss_toast_host_def set_timeout_def clear_timer_def
            split: option.splits)
    qed
    have "shown (fire_timer t h) = shown h"
      using Auto_Dismiss by (simp add: fire_timer_def Let_def dismiss_toast_host_def set_timeout_def)
    then show ?thesis using \<open>P h\<close> ok keep unfolding P_def by metis
  next
    case Clear_Toast
    then show ?thesis using that fire_ok [of h t] by (simp add: P_def fire_timer_def Let_def)
  qed
  moreover have "P h" using assms by (simp add: P_def)
  ultimately obtain g where "P g" "\<forall>t \<in> set (host_timers g). stop < fst (snd t)"
    "run_until stop h = g\<lparr>host_clock := max (host_clock g) stop\<rparr>"
    using run_until_keeps [of P h stop] by metis
  then show ?thesis by (fastforce simp: P_def)
qed

text \<open>A removal that is not due yet stays pending.\<close>

lemma run_until_pending:
  assumes "host_ok h" and "(i, due, Clear_Toast) \<in> set (host_timers h)" and "stop < due"
  shows "(i, due, Clear_Toast) \<in> set (host_timers (run_until stop h))"
proof -
  define P where "P h \<longleftrightarrow> host_ok h \<and> (i, due, Clear_Toast) \<in> set (host_timers h)" for h
  have "P (fire_timer t h)" if "P h" "t \<in> set (host_timers h)" "fst (snd t) \<le> stop"
    "\<forall>u \<in> set (host_timers h). fst (snd t) \<le> fst (snd u)" for h t
  proof -
    have "i \<noteq> fst t"
    proof
      assume "i = fst t"
      then have "t = (i, due, Clear_Toast)"
        using that(1) by (intro same_handle [OF _ that(2)]) (auto simp: P_def)
      then show False using that(3) assms(3) by simp
    qed
    moreover have "timeout_ref h \<noteq> Some i"
      using that(1) held_timer [of h "(i, due, Clear_Toast)"] by (auto simp: P_def)
    ultimately show ?thesis
      using that fire_ok [of h t]
      by (auto simp: P_def fire_timer_def Let_def dismiss_toast_host_def set_timeout_def
          clear_timer_def split: option.splits toast_timer.splits)
  qed
  moreover have "P h" using assms by (simp add: P_def)
  ultimately obtain g where "P g" "run_until stop h = g\<lparr>host_clock := max (host_clock g) stop\<rparr>"
    using run_until_keeps [of P h stop] by metis
  then show ?thesis by (simp add: P_def)
qed

text \<open>What a toast that dismisses itself goes through on its way out.\<close>

definition leaving_by :: "int \<Rightarrow> toast_host \<Rightarrow> bool" where
  "leaving_by stop h \<longleftrightarrow> host_ok h \<and>
     (if visible h then (\<exists>i due. (i, due, Auto_Dismiss) \<in> set (host_timers h) \<and> due + 200 \<le> stop)
      else shown h = None \<or> (\<exists>i due. (i, due, Clear_Toast) \<in> set (host_timers h) \<and> due \<le> stop))"

lemma leaving_host_fire:
  assumes "leaving_by stop h" and "t \<in> set (host_timers h)"
    and "\<forall>u \<in> set (host_timers h). fst (snd t) \<le> fst (snd u)"
  shows "leaving_by stop (fire_timer t h)"
proof (cases "snd (snd t)")
  case Auto_Dismiss
  have ok: "host_ok h" using assms(1) by (simp add: leaving_by_def)
  have clock: "host_clock h \<le> fst (snd t)" using ok assms(2) by (simp add: host_ok_def timer_ok_def)
  have fired: "\<not> visible (fire_timer t h)" "shown (fire_timer t h) = shown h"
    "\<exists>i. (i, fst (snd t) + 200, Clear_Toast) \<in> set (host_timers (fire_timer t h))"
    using Auto_Dismiss clock
    by (auto simp: fire_timer_def Let_def dismiss_toast_host_def set_timeout_def slide_out_ms_def
        clear_timer_def split: option.splits)
  have keep: "u \<in> set (host_timers (fire_timer t h))"
    if "u \<in> set (host_timers h)" "snd (snd u) = Clear_Toast" for u
  proof -
    have "fst u \<noteq> fst t" "timeout_ref h \<noteq> Some (fst u)"
      using held_timer [OF ok that(1)] held_timer [OF ok assms(2)] that Auto_Dismiss by auto
    then show ?thesis
      using that Auto_Dismiss
      by (auto simp: fire_timer_def Let_def dismiss_toast_host_def set_timeout_def clear_timer_def
          split: option.splits)
  qed
  have "fst (snd t) + 200 \<le> stop" if "visible h"
  proof -
    obtain i due where u: "(i, due, Auto_Dismiss) \<in> set (host_timers h)" "due + 200 \<le> stop"
      using assms(1) \<open>visible h\<close> by (auto simp: leaving_by_def)
    have "fst t = i" using held_timer [OF ok u(1)] held_timer [OF ok assms(2)] Auto_Dismiss by simp
    then show ?thesis using same_handle [OF ok assms(2) u(1)] u(2) by simp
  qed
  then show ?thesis
    using assms(1) fired keep fire_ok [OF ok assms(2,3)] by (fastforce simp: leaving_by_def)
next
  case Clear_Toast
  have ok: "host_ok h" using assms(1) by (simp add: leaving_by_def)
  have "(i, due, Auto_Dismiss) \<in> set (host_timers (fire_timer t h))"
    if "(i, due, Auto_Dismiss) \<in> set (host_timers h)" for i due
  proof -
    have "i \<noteq> fst t"
      using held_timer [OF ok that] held_timer [OF ok assms(2)] Clear_Toast by auto
    then show ?thesis using that Clear_Toast by (simp add: fire_timer_def Let_def)
  qed
  then show ?thesis
    using assms(1) Clear_Toast fire_ok [OF ok assms(2,3)]
    by (auto simp: leaving_by_def) (auto simp: fire_timer_def Let_def)
qed

lemma leaving_gone:
  assumes "leaving_by stop h"
  shows "shown (run_until stop h) = None \<and> \<not> visible (run_until stop h)"
proof -
  obtain g where "leaving_by stop g" "\<forall>t \<in> set (host_timers g). stop < fst (snd t)"
    "run_until stop h = g\<lparr>host_clock := max (host_clock g) stop\<rparr>"
    using run_until_keeps [of "leaving_by stop" h stop] assms leaving_host_fire by metis
  then show ?thesis by (fastforce simp: leaving_by_def split: if_splits)
qed

section \<open>Properties\<close>

text \<open>
  after any sequence of toasts, dismissals and waits, timer handles are distinct and
  fresh, no timer is overdue, at most one dismissal is scheduled and it is the one the
  provider holds, and no timer is due later than its delay.
\<close>

lemma host_invariant: "host_ok (run_host es)"
  by (rule run_host_ok)

text \<open>
  whatever came before, a toast that is not persistent is out of sight and gone
  2200 ms after it was shown.
\<close>

lemma toast_leaves:
  "shown (run_until (host_clock (run_host es) + 2200) (show_on_host m k False (run_host es))) = None
   \<and> \<not> visible (run_until (host_clock (run_host es) + 2200) (show_on_host m k False (run_host es)))"
proof -
  let ?h = "run_host es"
  have "leaving_by (host_clock ?h + 2200) (show_on_host m k False ?h)"
    using show_ok [OF run_host_ok, of m k False es] clear_timer_ok(3) [OF run_host_ok, of es]
    unfolding leaving_by_def
    by (auto simp: show_on_host_def Let_def set_timeout_def auto_dismiss_duration_def
        intro!: exI [of _ "next_timer ?h"] exI [of _ "host_clock ?h + 2000"])
  then show ?thesis by (rule leaving_gone)
qed

text \<open>
  a toast shown less than 200 ms after a dismissal, persistent or not, is taken away
  by the removal that dismissal left behind.
\<close>

lemma toast_lost_to_removal:
  assumes "d < 200"
  shows "shown (run_until (host_clock (run_host es) + 200)
           (show_on_host m k persists
             (run_until (host_clock (run_host es) + int d) (dismiss_toast_host (run_host es))))) = None"
proof -
  let ?h = "run_host es"
  let ?d = "dismiss_toast_host ?h"
  let ?w = "run_until (host_clock ?h + int d) ?d"
  have ok: "host_ok ?d" "host_ok ?w" by (simp_all add: run_host_ok dismiss_ok run_until_ok)
  have "(next_timer ?h, host_clock ?h + 200, Clear_Toast) \<in> set (host_timers ?d)"
    using clear_timer_ok(3) [OF run_host_ok, of es]
    by (simp add: dismiss_toast_host_def set_timeout_def slide_out_ms_def)
  then have "(next_timer ?h, host_clock ?h + 200, Clear_Toast) \<in> set (host_timers ?w)"
    using run_until_pending ok(1) assms by simp
  then have "(next_timer ?h, host_clock ?h + 200, Clear_Toast)
      \<in> set (host_timers (show_on_host m k persists ?w))"
    using clear_timer_ok(5) [OF ok(2)] by (auto simp: show_on_host_def Let_def set_timeout_def)
  then show ?thesis using pending_clear_clears show_ok [OF ok(2)] by blast
qed

lemma toast_lost_to_removal_witness:
  "shown (run_until 200 (show_on_host ''saved'' Info True
     (run_until 100 (dismiss_toast_host (run_host []))))) = None"
  using toast_lost_to_removal [of 100 "[]" "''saved''" Info True]
  by (simp add: run_host_def empty_host_def)

text \<open>
  with no removal pending, a toast shows and stays until something is done about it:
  a persistent one for good, any other for its two seconds.
\<close>

lemma toast_stays:
  assumes "\<forall>t \<in> set (host_timers (run_host es)). snd (snd t) \<noteq> Clear_Toast"
    and "persists \<or> stop < host_clock (run_host es) + 2000"
  shows "visible (run_until stop (show_on_host m k persists (run_host es)))
     \<and> map_option toast_message (shown (run_until stop (show_on_host m k persists (run_host es)))) = Some m"
proof -
  let ?h = "run_host es"
  have "set (host_timers (clear_timer ?h)) \<subseteq> set (host_timers ?h)"
    by (auto simp: clear_timer_def split: option.splits)
  then have "set (host_timers (clear_timer ?h)) = {}"
    using assms(1) clear_timer_ok(4) [OF run_host_ok, of es] by (metis equals0I subsetD)
  then have "host_timers (clear_timer ?h) = []" by simp
  then show ?thesis
    using assms(2) clear_timer_ok(3) [OF run_host_ok, of es]
    by (auto simp: show_on_host_def Let_def set_timeout_def auto_dismiss_duration_def
        run_until.simps)
qed

lemma toast_stays_witness:
  "visible (run_until 9000 (show_on_host ''offline'' Warning True (run_host [])))"
  using toast_stays [of "[]" True 9000 "''offline''" Warning] by (simp add: run_host_def empty_host_def)

text \<open>
  Left alone the provider comes to rest: whatever was done before, 2.2 seconds later no
  timer runs any more.
\<close>

lemma host_comes_to_rest: "host_timers (host_step (Wait 2200) (run_host es)) = []"
proof -
  define h where "h = run_host es"
  define stop where "stop = host_clock h + 2200"
  define P where "P g \<longleftrightarrow> host_ok g \<and> (\<forall>(i, due, task) \<in> set (host_timers g).
      due \<le> (case task of Auto_Dismiss \<Rightarrow> stop - 200 | Clear_Toast \<Rightarrow> stop))" for g
  have "P h"
    using run_host_ok [of es]
    by (force simp: P_def h_def stop_def host_ok_def timer_ok_def split: toast_timer.splits)
  moreover have "P (fire_timer t g)" if "P g" "t \<in> set (host_timers g)"
    "\<forall>u \<in> set (host_timers g). fst (snd t) \<le> fst (snd u)" for g t
  proof -
    have "host_clock g \<le> fst (snd t)"
      using that(1,2) by (auto simp: P_def host_ok_def timer_ok_def)
    then show ?thesis
      using that fire_ok [of g t]
      by (cases "snd (snd t)")
        (auto simp: P_def fire_timer_def Let_def dismiss_toast_host_def set_timeout_def slide_out_ms_def
          clear_timer_def max_def split: option.splits)
  qed
  ultimately obtain g where "P g" "\<forall>t \<in> set (host_timers g). stop < fst (snd t)"
    "run_until stop h = g\<lparr>host_clock := max (host_clock g) stop\<rparr>"
    using run_until_keeps [of P h stop] by metis
  moreover have "host_timers g = []"
  proof (rule ccontr)
    assume "host_timers g \<noteq> []"
    then obtain i due task where "(i, due, task) \<in> set (host_timers g)" by (cases "host_timers g") auto
    then show False using calculation(1,2) by (fastforce simp: P_def split: toast_timer.splits)
  qed
  ultimately show ?thesis by (simp add: h_def stop_def)
qed

end
