(* ===== verification/Failed_Sources.thy ===== *)
theory Failed_Sources
  imports Prelude
begin

text \<open>
  Sources whose feed keeps failing. The app (\<open>apps/app/utils/failedSources.ts\<close>) keeps a
  module state with one retry timer per dropped source; the web wall
  (\<open>apps/web/src/components/News/NewsColumnContext.tsx\<close>) keeps one map in component
  state and one timer for all that are dropped, set anew by an effect at every change of
  the map. Both count strikes, so both are instances of one interface, and agree on which
  sources are dropped; they differ in when a dropped source comes back.
\<close>

definition failures_before_drop :: nat where
  "failures_before_drop = 3"

definition retry_dropped_after_ms :: int where
  "retry_dropped_after_ms = 10 * 60000"

lemmas failure_constants = failures_before_drop_def retry_dropped_after_ms_def

section \<open>The app\<close>

text \<open>A timer is its handle, the source it retries and the time it is due.\<close>

record app_failures =
  strikes :: "string \<rightharpoonup> nat"
  retry_timers :: "string \<rightharpoonup> nat"
  failed :: "string list"
  running_timers :: "(nat \<times> string \<times> int) list"
  next_handle :: nat
  emitted :: nat
  app_clock :: int

definition no_failures :: app_failures where
  "no_failures =
     \<lparr>strikes = Map.empty, retry_timers = Map.empty, failed = [], running_timers = [],
      next_handle = 1, emitted = 0, app_clock = 0\<rparr>"

definition app_mark_failed :: "string \<Rightarrow> app_failures \<Rightarrow> app_failures" where
  "app_mark_failed a s =
     (if a \<in> set (failed s) then s
      else
        let count = or_else (strikes s a) 0 + 1;
            s1 = s\<lparr>strikes := (strikes s)(a \<mapsto> count)\<rparr>
        in if count < failures_before_drop then s1
           else s1\<lparr>failed := failed s1 @ [a],
                   emitted := emitted s1 + 1,
                   running_timers := running_timers s1
                     @ [(next_handle s1, a, app_clock s1 + retry_dropped_after_ms)],
                   retry_timers := (retry_timers s1)(a \<mapsto> next_handle s1),
                   next_handle := next_handle s1 + 1\<rparr>)"

definition clear_retry :: "string \<Rightarrow> app_failures \<Rightarrow> app_failures" where
  "clear_retry a s =
     (case retry_timers s a of
        None \<Rightarrow> s
      | Some h \<Rightarrow>
          s\<lparr>running_timers := filter (\<lambda>t. fst t \<noteq> h) (running_timers s),
            retry_timers := (retry_timers s)(a := None)\<rparr>)"

definition forget_strikes :: "string \<Rightarrow> app_failures \<Rightarrow> app_failures" where
  "forget_strikes a s =
     (if strikes s a = None then s
      else
        let s1 = s\<lparr>strikes := (strikes s)(a := None)\<rparr>
        in if a \<in> set (failed s1)
           then s1\<lparr>failed := filter (\<lambda>x. x \<noteq> a) (failed s1), emitted := emitted s1 + 1\<rparr>
           else s1)"

definition app_mark_loaded :: "string \<Rightarrow> app_failures \<Rightarrow> app_failures" where
  "app_mark_loaded a s = forget_strikes a (clear_retry a s)"

text \<open>A timer that is still running when its time comes retries its source.\<close>

definition fire_retry :: "nat \<times> string \<times> int \<Rightarrow> app_failures \<Rightarrow> app_failures" where
  "fire_retry t s =
     (if t \<in> set (running_timers s) then
        app_mark_loaded (fst (snd t))
          (s\<lparr>running_timers := filter (\<lambda>u. fst u \<noteq> fst t) (running_timers s),
             retry_timers := (retry_timers s)(fst (snd t) := None)\<rparr>)
      else s)"

definition app_elapse :: "nat \<Rightarrow> app_failures \<Rightarrow> app_failures" where
  "app_elapse d s =
     (let now = app_clock s + int d
      in fold fire_retry (filter (\<lambda>t. snd (snd t) \<le> now) (running_timers s)) (s\<lparr>app_clock := now\<rparr>))"

definition app_is_failed :: "app_failures \<Rightarrow> string \<Rightarrow> bool" where
  "app_is_failed s a \<longleftrightarrow> a \<in> set (failed s)"

section \<open>The web wall\<close>

record web_failures =
  counts :: "(string \<times> nat) list"
  web_retry :: "(int \<times> string list) option"
  web_clock :: int

definition no_web_failures :: web_failures where
  "no_web_failures = \<lparr>counts = [], web_retry = None, web_clock = 0\<rparr>"

text \<open>The effect on the map: the timer of before is cleared, a new one covers all that are dropped.\<close>

definition retry_effect :: "web_failures \<Rightarrow> web_failures" where
  "retry_effect s =
     (let dropped = map fst (filter (\<lambda>e. failures_before_drop \<le> snd e) (counts s))
      in s\<lparr>web_retry := (if dropped = [] then None
                        else Some (web_clock s + retry_dropped_after_ms, dropped))\<rparr>)"

definition web_mark_failed :: "string \<Rightarrow> web_failures \<Rightarrow> web_failures" where
  "web_mark_failed a s =
     (let count = or_else (map_of (counts s) a) 0 + 1
      in if failures_before_drop < count then s
         else retry_effect (s\<lparr>counts := map_set a count (counts s)\<rparr>))"

definition web_mark_loaded :: "string \<Rightarrow> web_failures \<Rightarrow> web_failures" where
  "web_mark_loaded a s =
     (if map_of (counts s) a = None then s
      else retry_effect (s\<lparr>counts := filter (\<lambda>e. fst e \<noteq> a) (counts s)\<rparr>))"

definition web_elapse :: "nat \<Rightarrow> web_failures \<Rightarrow> web_failures" where
  "web_elapse d s =
     (let now = web_clock s + int d
      in case web_retry s of
           None \<Rightarrow> s\<lparr>web_clock := now\<rparr>
         | Some (due, dropped) \<Rightarrow>
             if now < due then s\<lparr>web_clock := now\<rparr>
             else (retry_effect
                     (s\<lparr>counts := filter (\<lambda>e. fst e \<notin> set dropped) (counts s),
                        web_clock := due\<rparr>))\<lparr>web_clock := now\<rparr>)"

definition web_is_failed :: "web_failures \<Rightarrow> string \<Rightarrow> bool" where
  "web_is_failed s a \<longleftrightarrow> failures_before_drop \<le> or_else (map_of (counts s) a) 0"

section \<open>The interface\<close>

text \<open>Polls, as the two report them.\<close>

datatype poll = Poll_Failed string | Poll_Loaded string

fun poll_source :: "poll \<Rightarrow> string" where
  "poll_source (Poll_Failed a) = a"
| "poll_source (Poll_Loaded a) = a"

fun report :: "(string \<Rightarrow> 's \<Rightarrow> 's) \<Rightarrow> (string \<Rightarrow> 's \<Rightarrow> 's) \<Rightarrow> poll \<Rightarrow> 's \<Rightarrow> 's" where
  "report mark_failed mark_loaded (Poll_Failed a) s = mark_failed a s"
| "report mark_failed mark_loaded (Poll_Loaded a) s = mark_loaded a s"

text \<open>How many of a source's last polls failed in a row.\<close>

definition failing_streak :: "poll list \<Rightarrow> string \<Rightarrow> nat" where
  "failing_streak ps a =
     length (takeWhile (\<lambda>p. p = Poll_Failed a) (rev (filter (\<lambda>p. poll_source p = a) ps)))"

locale failure_tracker =
  fixes mark_failed :: "string \<Rightarrow> 's \<Rightarrow> 's"
    and mark_loaded :: "string \<Rightarrow> 's \<Rightarrow> 's"
    and strike_count :: "'s \<Rightarrow> string \<Rightarrow> nat"
    and is_failed :: "'s \<Rightarrow> string \<Rightarrow> bool"
    and ok :: "'s \<Rightarrow> bool"
    and start :: 's
  assumes start_ok: "ok start"
    and start_count: "strike_count start a = 0"
    and failed_ok: "ok s \<Longrightarrow> ok (mark_failed a s)"
    and loaded_ok: "ok s \<Longrightarrow> ok (mark_loaded a s)"
    and failed_count: "ok s \<Longrightarrow>
          strike_count (mark_failed a s) = (strike_count s)(a := min 3 (strike_count s a + 1))"
    and loaded_count: "ok s \<Longrightarrow> strike_count (mark_loaded a s) = (strike_count s)(a := 0)"
    and is_failed_iff: "ok s \<Longrightarrow> is_failed s a \<longleftrightarrow> 3 \<le> strike_count s a"
begin

lemma report_ok: "ok s \<Longrightarrow> ok (report mark_failed mark_loaded p s)"
  by (cases p) (simp_all add: failed_ok loaded_ok)

lemma reports_ok: "ok s \<Longrightarrow> ok (fold (report mark_failed mark_loaded) ps s)"
  by (induction ps arbitrary: s) (simp_all add: report_ok)

lemma strikes_streak:
  "strike_count (fold (report mark_failed mark_loaded) ps start) a = min 3 (failing_streak ps a)"
proof (induction ps rule: rev_induct)
  case (snoc p ps)
  have "ok (fold (report mark_failed mark_loaded) ps start)" by (rule reports_ok [OF start_ok])
  then show ?case
    using snoc by (cases p) (auto simp: failed_count loaded_count failing_streak_def)
qed (simp add: start_count failing_streak_def)

lemma failed_streak:
  "is_failed (fold (report mark_failed mark_loaded) ps start) a \<longleftrightarrow> 3 \<le> failing_streak ps a"
  by (simp add: is_failed_iff reports_ok start_ok strikes_streak)

end

section \<open>Invariants\<close>

text \<open>
  App: a source is dropped exactly when it has its strikes and exactly when a retry is
  pending; the map of handles and the running timers agree.
\<close>

definition app_ok :: "app_failures \<Rightarrow> bool" where
  "app_ok s \<longleftrightarrow>
     distinct (failed s) \<and>
     distinct (map fst (running_timers s)) \<and>
     (\<forall>a n. strikes s a = Some n \<longrightarrow> 1 \<le> n \<and> n \<le> 3) \<and>
     (\<forall>a. a \<in> set (failed s) \<longleftrightarrow> strikes s a = Some 3) \<and>
     (\<forall>a. a \<in> set (failed s) \<longleftrightarrow> retry_timers s a \<noteq> None) \<and>
     (\<forall>a h. retry_timers s a = Some h \<longleftrightarrow> (\<exists>due. (h, a, due) \<in> set (running_timers s))) \<and>
     (\<forall>h a due. (h, a, due) \<in> set (running_timers s)
        \<longrightarrow> h < next_handle s \<and> due \<le> app_clock s + retry_dropped_after_ms)"

definition app_strikes :: "app_failures \<Rightarrow> string \<Rightarrow> nat" where
  "app_strikes s a = or_else (strikes s a) 0"

text \<open>Web: no more than the strikes that drop, and the timer covers just those dropped.\<close>

definition web_ok :: "web_failures \<Rightarrow> bool" where
  "web_ok s \<longleftrightarrow>
     distinct (map fst (counts s)) \<and>
     (\<forall>e \<in> set (counts s). 1 \<le> snd e \<and> snd e \<le> 3) \<and>
     (case web_retry s of
        None \<Rightarrow> \<forall>e \<in> set (counts s). snd e < 3
      | Some (due, dropped) \<Rightarrow>
          web_clock s < due \<and> due \<le> web_clock s + retry_dropped_after_ms \<and>
          dropped = map fst (filter (\<lambda>e. 3 \<le> snd e) (counts s)))"

definition web_strikes :: "web_failures \<Rightarrow> string \<Rightarrow> nat" where
  "web_strikes s a = or_else (map_of (counts s) a) 0"

section \<open>The app keeps its invariant\<close>

lemma no_failures_ok: "app_ok no_failures"
  by (simp add: app_ok_def no_failures_def)

lemma app_ok_distinct:
  "app_ok s \<Longrightarrow> distinct (failed s)" "app_ok s \<Longrightarrow> distinct (map fst (running_timers s))"
  by (simp_all add: app_ok_def)

lemma app_ok_strikes: "app_ok s \<Longrightarrow> strikes s a = Some n \<Longrightarrow> 1 \<le> n \<and> n \<le> 3"
  unfolding app_ok_def by blast

lemma app_ok_failed: "app_ok s \<Longrightarrow> a \<in> set (failed s) \<longleftrightarrow> strikes s a = Some 3"
  unfolding app_ok_def by blast

lemma app_ok_retry: "app_ok s \<Longrightarrow> retry_timers s a = None \<longleftrightarrow> a \<notin> set (failed s)"
  unfolding app_ok_def by blast

lemma app_ok_handle:
  "app_ok s \<Longrightarrow> retry_timers s a = Some h \<longleftrightarrow> (\<exists>due. (h, a, due) \<in> set (running_timers s))"
  unfolding app_ok_def by blast

lemma app_ok_running:
  assumes "app_ok s" and "(h, a, due) \<in> set (running_timers s)"
  shows "a \<in> set (failed s) \<and> h < next_handle s \<and> due \<le> app_clock s + retry_dropped_after_ms"
proof -
  have "retry_timers s a = Some h" using assms app_ok_handle by blast
  then have "a \<in> set (failed s)" using app_ok_retry [OF assms(1), of a] by auto
  then show ?thesis using assms unfolding app_ok_def by blast
qed

lemma app_failed_cases:
  assumes "app_ok s"
  obtains (dropped) "a \<in> set (failed s)" "strikes s a = Some 3" "app_mark_failed a s = s"
    | (strike) "a \<notin> set (failed s)" "or_else (strikes s a) 0 + 1 < 3" "retry_timers s a = None"
        "app_mark_failed a s = s\<lparr>strikes := (strikes s)(a \<mapsto> or_else (strikes s a) 0 + 1)\<rparr>"
    | (drop) "a \<notin> set (failed s)" "or_else (strikes s a) 0 + 1 = 3" "retry_timers s a = None"
        "app_mark_failed a s
           = s\<lparr>strikes := (strikes s)(a \<mapsto> 3), failed := failed s @ [a], emitted := emitted s + 1,
               running_timers := running_timers s
                 @ [(next_handle s, a, app_clock s + retry_dropped_after_ms)],
               retry_timers := (retry_timers s)(a \<mapsto> next_handle s),
               next_handle := next_handle s + 1\<rparr>"
proof (cases "a \<in> set (failed s)")
  case True
  then show ?thesis using assms dropped by (simp add: app_mark_failed_def app_ok_def)
next
  case False
  then have "strikes s a \<noteq> Some 3" "retry_timers s a = None" "\<forall>n. strikes s a = Some n \<longrightarrow> n \<le> 3"
    using app_ok_failed [OF assms, of a] app_ok_retry [OF assms, of a] app_ok_strikes [OF assms, of a]
    by simp_all
  then have "or_else (strikes s a) 0 + 1 \<le> 3"
    by (cases "strikes s a") (auto simp: le_less)
  then show ?thesis
    using False \<open>retry_timers s a = None\<close> strike drop
    by (cases "or_else (strikes s a) 0 + 1 < 3")
      (auto simp: app_mark_failed_def Let_def failures_before_drop_def)
qed

lemma app_failed_ok:
  assumes "app_ok s"
  shows "app_ok (app_mark_failed a s)"
  using assms
proof (cases rule: app_failed_cases [where a = a, case_names dropped strike drop])
  case strike
  then have "strikes s a \<noteq> Some 3" using app_ok_failed [OF assms] by auto
  then show ?thesis using assms strike unfolding app_ok_def by (simp del: not_None_eq) blast
next
  case drop
  then have new: "(h, a, due) \<notin> set (running_timers s)" for h due
    using app_ok_running [OF assms] by blast
  have "next_handle s \<notin> fst ` set (running_timers s)"
    using app_ok_running [OF assms] by force
  then show ?thesis
    using assms drop new by (auto simp: app_ok_def failure_constants less_Suc_eq)
qed (use assms in simp_all)

lemma app_failed_count:
  assumes "app_ok s"
  shows "app_strikes (app_mark_failed a s) = (app_strikes s)(a := min 3 (app_strikes s a + 1))"
  by (cases rule: app_failed_cases [OF assms, where a = a]) (auto simp: app_strikes_def fun_eq_iff)

text \<open>Clearing a retry and its strikes together keeps the invariant.\<close>

lemma app_loaded_eq:
  assumes "app_ok s"
  shows "app_mark_loaded a s
    = s\<lparr>strikes := (strikes s)(a := None),
        retry_timers := (retry_timers s)(a := None),
        failed := filter (\<lambda>x. x \<noteq> a) (failed s),
        running_timers := filter (\<lambda>t. fst (snd t) \<noteq> a) (running_timers s),
        emitted := (if a \<in> set (failed s) then emitted s + 1 else emitted s)\<rparr>"
proof (cases "a \<in> set (failed s)")
  case True
  then obtain h where "retry_timers s a = Some h" and drop: "strikes s a = Some 3"
    using app_ok_failed [OF assms, of a] app_ok_retry [OF assms, of a] by auto
  then obtain due where h: "retry_timers s a = Some h" "strikes s a = Some 3"
    "(h, a, due) \<in> set (running_timers s)"
    using app_ok_handle [OF assms, of a h] by auto
  have "(fst t \<noteq> h) = (fst (snd t) \<noteq> a)" if "t \<in> set (running_timers s)" for t
  proof
    assume "fst t \<noteq> h"
    then show "fst (snd t) \<noteq> a"
      using that h(1) app_ok_handle [OF assms, of a "fst t"] by (cases t) auto
  next
    assume "fst (snd t) \<noteq> a"
    then show "fst t \<noteq> h"
      using that h(3) eq_key_imp_eq_value [OF app_ok_distinct(2) [OF assms]]
      by (cases t) auto
  qed
  then have "filter (\<lambda>t. fst t \<noteq> h) (running_timers s) = filter (\<lambda>t. fst (snd t) \<noteq> a) (running_timers s)"
    by (rule filter_cong [OF refl])
  then show ?thesis
    using True h by (simp add: app_mark_loaded_def clear_retry_def forget_strikes_def Let_def)
next
  case False
  then have none: "retry_timers s a = None" "\<forall>t \<in> set (running_timers s). fst (snd t) \<noteq> a"
    using app_ok_retry [OF assms, of a] app_ok_running [OF assms] by auto
  then have "filter (\<lambda>t. fst (snd t) \<noteq> a) (running_timers s) = running_timers s" by simp
  then show ?thesis
    using False none
    by (auto simp: app_mark_loaded_def clear_retry_def forget_strikes_def Let_def
        filter_neq_absent fun_upd_idem)
qed

lemma app_loaded_ok:
  assumes "app_ok s"
  shows "app_ok (app_mark_loaded a s)"
  using assms by (auto simp: app_ok_def app_loaded_eq [OF assms] distinct_map inj_on_def)

lemma app_loaded_count:
  "app_ok s \<Longrightarrow> app_strikes (app_mark_loaded a s) = (app_strikes s)(a := 0)"
  by (simp add: app_loaded_eq app_strikes_def fun_eq_iff)

interpretation app_tracker:
  failure_tracker app_mark_failed app_mark_loaded app_strikes app_is_failed app_ok no_failures
proof
  show "app_is_failed s a = (3 \<le> app_strikes s a)" if "app_ok s" for s a
    using that by (cases "strikes s a") (auto simp: app_is_failed_def app_strikes_def app_ok_def le_antisym)
qed (simp_all add: no_failures_ok app_failed_ok app_loaded_ok app_failed_count app_loaded_count,
     simp add: app_strikes_def no_failures_def)

section \<open>The web wall keeps its invariant\<close>

lemma effect_simps [simp]:
  "counts (retry_effect s) = counts s" "web_clock (retry_effect s) = web_clock s"
  by (simp_all add: retry_effect_def Let_def)

lemma effect_ok:
  "distinct (map fst (counts s)) \<Longrightarrow> (\<And>a n. (a, n) \<in> set (counts s) \<Longrightarrow> 1 \<le> n \<and> n \<le> 3)
   \<Longrightarrow> web_ok (retry_effect s)"
  by (fastforce simp: web_ok_def retry_effect_def Let_def failure_constants filter_empty_conv not_le)

lemma web_ok_counts:
  "web_ok s \<Longrightarrow> distinct (map fst (counts s))"
  "web_ok s \<Longrightarrow> (b, n) \<in> set (counts s) \<Longrightarrow> 1 \<le> n \<and> n \<le> 3"
  by (simp add: web_ok_def, fastforce simp: web_ok_def)

lemma web_strikes_le: "web_ok s \<Longrightarrow> web_strikes s a \<le> 3"
  using map_of_SomeD [of "counts s" a]
  by (cases "map_of (counts s) a") (fastforce simp: web_strikes_def web_ok_def)+

lemma distinct_keys_filter: "distinct (map fst xs) \<Longrightarrow> distinct (map fst (filter P xs))"
  by (induction xs) auto

lemma map_of_without: "map_of (filter (\<lambda>e. fst e \<noteq> a) xs) b = (if b = a then None else map_of xs b)"
  by (induction xs) auto

lemma web_failed_ok:
  assumes "web_ok s"
  shows "web_ok (web_mark_failed a s)"
proof (cases "web_strikes s a = 3")
  case False
  then have "web_strikes s a + 1 \<le> 3" using web_strikes_le [OF assms, of a] by simp
  then show ?thesis
    using web_ok_counts [OF assms]
    by (auto simp: web_mark_failed_def Let_def web_strikes_def failures_before_drop_def distinct_put
        dest!: set_put intro!: effect_ok dest: web_ok_counts(2) [OF assms])
qed (use assms in \<open>simp add: web_mark_failed_def web_strikes_def Let_def failures_before_drop_def\<close>)

lemma web_loaded_ok:
  assumes "web_ok s"
  shows "web_ok (web_mark_loaded a s)"
proof -
  have "web_ok (retry_effect (s\<lparr>counts := filter (\<lambda>e. fst e \<noteq> a) (counts s)\<rparr>))"
    by (rule effect_ok)
      (simp add: distinct_keys_filter web_ok_counts(1) assms, use web_ok_counts(2) [OF assms] in force)
  then show ?thesis using assms by (simp add: web_mark_loaded_def)
qed

interpretation web_tracker:
  failure_tracker web_mark_failed web_mark_loaded web_strikes web_is_failed web_ok no_web_failures
proof
  show "web_strikes (web_mark_failed a s) = (web_strikes s)(a := min 3 (web_strikes s a + 1))"
    if "web_ok s" for s a
    using web_strikes_le [OF that, of a]
    by (auto simp: web_mark_failed_def web_strikes_def Let_def failures_before_drop_def map_of_put fun_eq_iff)
  show "web_strikes (web_mark_loaded a s) = (web_strikes s)(a := 0)" if "web_ok s" for s a
    by (auto simp: web_mark_loaded_def web_strikes_def map_of_without fun_eq_iff)
qed (simp_all add: web_failed_ok web_loaded_ok,
     simp_all add: web_is_failed_def web_strikes_def no_web_failures_def web_ok_def failures_before_drop_def)

section \<open>Coming back\<close>

datatype tracker_event = Poll poll | Wait nat

fun app_event :: "tracker_event \<Rightarrow> app_failures \<Rightarrow> app_failures" where
  "app_event (Poll p) s = report app_mark_failed app_mark_loaded p s"
| "app_event (Wait d) s = app_elapse d s"

fun web_event :: "tracker_event \<Rightarrow> web_failures \<Rightarrow> web_failures" where
  "web_event (Poll p) s = report web_mark_failed web_mark_loaded p s"
| "web_event (Wait d) s = web_elapse d s"

definition run_app :: "tracker_event list \<Rightarrow> app_failures" where
  "run_app es = fold app_event es no_failures"

definition run_web :: "tracker_event list \<Rightarrow> web_failures" where
  "run_web es = fold web_event es no_web_failures"

fun waited :: "tracker_event list \<Rightarrow> int" where
  "waited [] = 0"
| "waited (Poll p # es) = waited es"
| "waited (Wait d # es) = int d + waited es"

fun concerns :: "string \<Rightarrow> tracker_event \<Rightarrow> bool" where
  "concerns a (Poll p) \<longleftrightarrow> poll_source p = a"
| "concerns a (Wait d) \<longleftrightarrow> False"

text \<open>A timer that fires does for its source what a poll that loads does.\<close>

lemma fire_is_loaded:
  assumes "app_ok s" and "t \<in> set (running_timers s)"
  shows "fire_retry t s = app_mark_loaded (fst (snd t)) s"
proof -
  have "retry_timers s (fst (snd t)) = Some (fst t)"
    using assms app_ok_handle [OF assms(1)] by (cases t) auto
  then show ?thesis using assms(2) by (simp add: fire_retry_def app_mark_loaded_def clear_retry_def)
qed

lemma fire_running:
  assumes "app_ok s"
  shows "app_ok (fire_retry t s) \<and> app_clock (fire_retry t s) = app_clock s
     \<and> set (running_timers (fire_retry t s)) \<subseteq> set (running_timers s) - {t}"
proof (cases "t \<in> set (running_timers s)")
  case True
  then show ?thesis
    using assms by (auto simp: fire_is_loaded app_loaded_ok) (auto simp: app_loaded_eq)
qed (use assms in \<open>auto simp: fire_retry_def\<close>)

lemma fires_running:
  "app_ok s \<Longrightarrow> app_ok (fold fire_retry ts s) \<and> app_clock (fold fire_retry ts s) = app_clock s
     \<and> set (running_timers (fold fire_retry ts s)) \<subseteq> set (running_timers s) - set ts"
proof (induction ts arbitrary: s)
  case (Cons t ts)
  then show ?case using fire_running [OF Cons.prems, of t] Cons.IH [of "fire_retry t s"] by auto
qed simp

lemma app_clock_ok: "app_ok s \<Longrightarrow> app_clock s \<le> now \<Longrightarrow> app_ok (s\<lparr>app_clock := now\<rparr>)"
  by (fastforce simp: app_ok_def)

lemma app_elapse_facts:
  assumes "app_ok s"
  shows "app_ok (app_elapse d s)" "app_clock (app_elapse d s) = app_clock s + int d"
    "set (running_timers (app_elapse d s))
       \<subseteq> {t \<in> set (running_timers s). app_clock s + int d < snd (snd t)}"
proof -
  let ?now = "app_clock s + int d"
  note * = fires_running [OF app_clock_ok [OF assms, of ?now],
      of "filter (\<lambda>t. snd (snd t) \<le> ?now) (running_timers s)"]
  show "app_ok (app_elapse d s)" "app_clock (app_elapse d s) = ?now"
    using * by (simp_all add: app_elapse_def Let_def)
  show "set (running_timers (app_elapse d s)) \<subseteq> {t \<in> set (running_timers s). ?now < snd (snd t)}"
    using * by (force simp: app_elapse_def Let_def not_le)
qed

lemma app_event_ok: "app_ok s \<Longrightarrow> app_ok (app_event e s)"
  by (cases e) (simp_all add: app_tracker.report_ok app_elapse_facts)

lemma run_app_ok: "app_ok (run_app es)"
proof -
  have "app_ok s \<Longrightarrow> app_ok (fold app_event es s)" for s
    by (induction es arbitrary: s) (simp_all add: app_event_ok)
  then show ?thesis by (simp add: run_app_def no_failures_ok)
qed

text \<open>The retries of a source are due by a time that other sources cannot move.\<close>

definition retried_by :: "string \<Rightarrow> int \<Rightarrow> app_failures \<Rightarrow> bool" where
  "retried_by a deadline s \<longleftrightarrow> app_ok s \<and>
     (\<forall>h due. (h, a, due) \<in> set (running_timers s) \<longrightarrow> app_clock s < due \<and> due \<le> deadline)"

lemma app_marks_running:
  assumes "app_ok s" and "a \<noteq> b"
  shows "(h, a, due) \<in> set (running_timers (app_mark_failed b s)) \<longleftrightarrow> (h, a, due) \<in> set (running_timers s)"
    and "(h, a, due) \<in> set (running_timers (app_mark_loaded b s)) \<longleftrightarrow> (h, a, due) \<in> set (running_timers s)"
    and "app_clock (app_mark_failed b s) = app_clock s"
    and "app_clock (app_mark_loaded b s) = app_clock s"
  using assms by (simp_all add: app_loaded_eq) (simp_all add: app_mark_failed_def Let_def)

lemma app_clock_report: "app_ok s \<Longrightarrow> app_clock (report app_mark_failed app_mark_loaded p s) = app_clock s"
  by (cases p) (simp_all add: app_loaded_eq, simp add: app_mark_failed_def Let_def)

lemma retried_by_event:
  assumes "retried_by a deadline s" and "\<not> concerns a e"
  shows "retried_by a deadline (app_event e s)"
proof (cases e)
  case (Poll p)
  then show ?thesis
    using assms app_event_ok [of s e] app_marks_running [of s a "poll_source p"]
    by (cases p) (auto simp: retried_by_def)
next
  case (Wait d)
  have ok: "app_ok s" using assms(1) by (simp add: retried_by_def)
  show ?thesis
    using assms Wait app_elapse_facts [OF ok, of d] by (fastforce simp: retried_by_def)
qed

lemma retried_by_run:
  "retried_by a deadline s \<Longrightarrow> \<forall>e \<in> set es. \<not> concerns a e \<Longrightarrow>
   retried_by a deadline (fold app_event es s) \<and> app_clock (fold app_event es s) = app_clock s + waited es"
proof (induction es arbitrary: s)
  case (Cons e es)
  have ok: "app_ok s" using Cons.prems(1) by (simp add: retried_by_def)
  have "app_clock (app_event e s) = app_clock s + waited [e]"
    using ok by (cases e) (simp_all add: app_clock_report app_elapse_facts)
  moreover have "waited (e # es) = waited [e] + waited es" by (cases e) simp_all
  ultimately show ?case using Cons retried_by_event by simp
qed simp

lemma run_app_ahead: "\<forall>(h, a, due) \<in> set (running_timers (run_app es)). app_clock (run_app es) < due"
proof (induction es rule: rev_induct)
  case (snoc e es)
  have ok: "app_ok (run_app es)" by (rule run_app_ok)
  have step: "run_app (es @ [e]) = app_event e (run_app es)" by (simp add: run_app_def)
  show ?case
  proof (cases e)
    case (Wait d)
    then show ?thesis using app_elapse_facts [OF ok, of d] step by auto
  next
    case (Poll p)
    then show ?thesis
      using snoc step ok app_clock_report [OF ok, of p]
      by (cases p) (auto simp: app_loaded_eq app_mark_failed_def Let_def failure_constants split: if_splits)
  qed
qed (simp add: run_app_def no_failures_def)

lemma retried_by_start:
  "retried_by a (app_clock (run_app es) + retry_dropped_after_ms) (run_app es)"
  using run_app_ok [of es] run_app_ahead [of es] app_ok_running [OF run_app_ok]
  by (auto simp: retried_by_def)

text \<open>On the web wall the timer, once it runs out, brings every dropped source back.\<close>

lemma web_elapse_fired:
  assumes "web_ok s" and "web_retry s = Some (due, dropped)" and "due \<le> web_clock s + int d"
  shows "web_retry (web_elapse d s) = None"
    and "counts (web_elapse d s) = filter (\<lambda>e. snd e < 3) (counts s)"
proof -
  have dropped: "dropped = map fst (filter (\<lambda>e. 3 \<le> snd e) (counts s))"
    using assms(1,2) by (simp add: web_ok_def)
  have "fst e \<in> set dropped \<longleftrightarrow> 3 \<le> snd e" if "e \<in> set (counts s)" for e
  proof -
    have "fst e \<in> set dropped \<longleftrightarrow> (\<exists>n. (fst e, n) \<in> set (counts s) \<and> 3 \<le> n)"
      by (auto simp: dropped image_iff)
    moreover have "n = snd e" if "(fst e, n) \<in> set (counts s)" for n
      using eq_key_imp_eq_value [OF web_ok_counts(1) [OF assms(1)] that] \<open>e \<in> set (counts s)\<close>
      by (metis prod.collapse)
    ultimately show ?thesis using \<open>e \<in> set (counts s)\<close> by (metis prod.collapse)
  qed
  then have "filter (\<lambda>e. fst e \<notin> set dropped) (counts s) = filter (\<lambda>e. snd e < 3) (counts s)"
    by (intro filter_cong) (auto simp: not_le)
  then show "counts (web_elapse d s) = filter (\<lambda>e. snd e < 3) (counts s)"
    "web_retry (web_elapse d s) = None"
    using assms(2,3)
    by (simp_all add: web_elapse_def Let_def retry_effect_def failure_constants filter_empty_conv)
qed

lemma web_elapse_ok:
  assumes "web_ok s"
  shows "web_ok (web_elapse d s)"
proof (cases "web_retry s")
  case None
  then show ?thesis using assms by (simp add: web_elapse_def web_ok_def Let_def)
next
  case (Some r)
  obtain due dropped where r: "r = (due, dropped)" by (cases r)
  show ?thesis
  proof (cases "web_clock s + int d < due")
    case True
    then show ?thesis using assms Some r by (auto simp: web_elapse_def web_ok_def Let_def)
  next
    case False
    then show ?thesis
      using web_elapse_fired [OF assms Some [unfolded r], of d] assms
      by (simp add: web_ok_def distinct_keys_filter)
  qed
qed

lemma run_web_ok: "web_ok (run_web es)"
proof -
  have "web_ok s \<Longrightarrow> web_ok (fold web_event es s)" for s
  proof (induction es arbitrary: s)
    case (Cons e es)
    then show ?case by (cases e) (simp_all add: web_tracker.report_ok web_elapse_ok)
  qed simp
  then show ?thesis by (simp add: run_web_def web_tracker.start_ok)
qed

text \<open>One blip of another source starts the ten minutes anew.\<close>

definition blips :: "nat \<Rightarrow> string \<Rightarrow> tracker_event list" where
  "blips n b = concat (replicate n [Wait 599999, Poll (Poll_Failed b), Poll (Poll_Loaded b)])"

definition dropped_at :: "string \<Rightarrow> int \<Rightarrow> web_failures" where
  "dropped_at a c = \<lparr>counts = [(a, 3)], web_retry = Some (c + 600000, [a]), web_clock = c\<rparr>"

lemmas web_unfold = web_mark_failed_def web_mark_loaded_def retry_effect_def web_elapse_def
  failure_constants Let_def dropped_at_def

lemma blip:
  "a \<noteq> b \<Longrightarrow> web_mark_loaded b (web_mark_failed b (web_elapse 599999 (dropped_at a c))) = dropped_at a (c + 599999)"
  by (simp add: web_unfold)

lemma blips_dropped:
  "a \<noteq> b \<Longrightarrow> fold web_event (blips n b) (dropped_at a c) = dropped_at a (c + 599999 * int n)"
  by (induction n arbitrary: c) (simp_all add: blips_def blip algebra_simps)

lemma waited_blips: "waited (blips n b) = 599999 * int n"
  by (induction n) (simp_all add: blips_def)

section \<open>Before the first retry\<close>

text \<open>The polls of a run, without the times between them.\<close>

fun polls :: "tracker_event list \<Rightarrow> poll list" where
  "polls [] = []"
| "polls (Poll p # es) = p # polls es"
| "polls (Wait d # es) = polls es"

text \<open>
  A tracker with a clock: time moves the clock and, before any retry is due, nothing else. Until
  \<open>quiet\<close> ends, the strikes are those of the polls alone.
\<close>

locale timed_tracker = failure_tracker mark_failed mark_loaded strike_count is_failed ok start
  for mark_failed :: "string \<Rightarrow> 's \<Rightarrow> 's" and mark_loaded :: "string \<Rightarrow> 's \<Rightarrow> 's"
    and strike_count :: "'s \<Rightarrow> string \<Rightarrow> nat" and is_failed :: "'s \<Rightarrow> string \<Rightarrow> bool"
    and ok :: "'s \<Rightarrow> bool" and start :: 's +
  fixes event :: "tracker_event \<Rightarrow> 's \<Rightarrow> 's"
    and clock :: "'s \<Rightarrow> int"
    and quiet :: "'s \<Rightarrow> bool"
  assumes event_poll: "event (Poll p) s = report mark_failed mark_loaded p s"
    and start_quiet: "clock start = 0 \<and> quiet start"
    and poll_quiet: "ok s \<Longrightarrow> 0 \<le> clock s \<Longrightarrow> quiet s \<Longrightarrow>
          clock (report mark_failed mark_loaded p s) = clock s \<and> quiet (report mark_failed mark_loaded p s)"
    and wait_quiet: "ok s \<Longrightarrow> quiet s \<Longrightarrow> clock s + int d < 600000 \<Longrightarrow>
          ok (event (Wait d) s) \<and> clock (event (Wait d) s) = clock s + int d \<and> quiet (event (Wait d) s) \<and>
          strike_count (event (Wait d) s) = strike_count s"
begin

lemma run_quiet:
  "ok s \<Longrightarrow> 0 \<le> clock s \<Longrightarrow> quiet s \<Longrightarrow> clock s + waited es < 600000 \<Longrightarrow>
   strike_count s = strike_count s' \<Longrightarrow> ok s' \<Longrightarrow>
   ok (fold event es s) \<and>
   strike_count (fold event es s) = strike_count (fold (report mark_failed mark_loaded) (polls es) s')"
proof (induction es arbitrary: s s')
  case (Cons e es)
  show ?case
  proof (cases e)
    case (Poll p)
    have same: "strike_count (report mark_failed mark_loaded p s) = strike_count (report mark_failed mark_loaded p s')"
      using Cons.prems(1,5,6) by (cases p) (simp_all add: failed_count loaded_count)
    show ?thesis
      using Cons.IH [OF report_ok [OF Cons.prems(1)] _ _ _ same report_ok [OF Cons.prems(6)]]
        poll_quiet [OF Cons.prems(1-3), of p] Cons.prems(2,4) Poll by (simp add: event_poll)
  next
    case (Wait d)
    have "0 \<le> waited es" by (induction es rule: waited.induct) simp_all
    then have "clock s + int d < 600000" using Cons.prems(4) Wait by simp
    then show ?thesis
      using Cons.IH [of "event (Wait d) s" s'] wait_quiet [OF Cons.prems(1,3), of d] Cons.prems(2,4,5,6) Wait
      by simp
  qed
qed simp

lemma failed_before_retry:
  "waited es < 600000 \<Longrightarrow> is_failed (fold event es start) a \<longleftrightarrow> 3 \<le> failing_streak (polls es) a"
  using run_quiet [OF start_ok _ _ _ refl start_ok, of es] start_quiet
  by (simp add: is_failed_iff strikes_streak)

end

definition app_quiet :: "app_failures \<Rightarrow> bool" where
  "app_quiet s \<longleftrightarrow> (\<forall>(h, a, due) \<in> set (running_timers s). 600000 \<le> due)"

definition web_quiet :: "web_failures \<Rightarrow> bool" where
  "web_quiet s \<longleftrightarrow> (case web_retry s of None \<Rightarrow> True | Some (due, dropped) \<Rightarrow> 600000 \<le> due)"

interpretation app_timed:
  timed_tracker app_mark_failed app_mark_loaded app_strikes app_is_failed app_ok no_failures
    app_event app_clock app_quiet
proof
  show "app_clock (report app_mark_failed app_mark_loaded p s) = app_clock s \<and>
      app_quiet (report app_mark_failed app_mark_loaded p s)"
    if "app_ok s" "0 \<le> app_clock s" "app_quiet s" for s p
    using that app_clock_report [OF that(1), of p]
    by (cases p) (auto simp: app_quiet_def app_loaded_eq app_mark_failed_def Let_def failure_constants)
  show "app_ok (app_event (Wait d) s) \<and> app_clock (app_event (Wait d) s) = app_clock s + int d \<and>
      app_quiet (app_event (Wait d) s) \<and> app_strikes (app_event (Wait d) s) = app_strikes s"
    if "app_ok s" "app_quiet s" "app_clock s + int d < 600000" for s d
  proof -
    have "filter (\<lambda>t. snd (snd t) \<le> app_clock s + int d) (running_timers s) = []"
      using that(2,3) by (fastforce simp: filter_empty_conv app_quiet_def)
    then have "app_elapse d s = s\<lparr>app_clock := app_clock s + int d\<rparr>" by (simp add: app_elapse_def Let_def)
    then show ?thesis
      using app_elapse_facts(1,2) [OF that(1), of d] that(2) by (simp add: app_quiet_def app_strikes_def fun_eq_iff)
  qed
qed (simp_all add: no_failures_def app_quiet_def)

interpretation web_timed:
  timed_tracker web_mark_failed web_mark_loaded web_strikes web_is_failed web_ok no_web_failures
    web_event web_clock web_quiet
proof
  show "web_clock (report web_mark_failed web_mark_loaded p s) = web_clock s \<and>
      web_quiet (report web_mark_failed web_mark_loaded p s)"
    if "web_ok s" "0 \<le> web_clock s" "web_quiet s" for s p
    using that
    by (cases p) (auto simp: web_quiet_def web_mark_failed_def web_mark_loaded_def retry_effect_def failure_constants Let_def)
  show "web_ok (web_event (Wait d) s) \<and> web_clock (web_event (Wait d) s) = web_clock s + int d \<and>
      web_quiet (web_event (Wait d) s) \<and> web_strikes (web_event (Wait d) s) = web_strikes s"
    if "web_ok s" "web_quiet s" "web_clock s + int d < 600000" for s d
  proof -
    have "web_elapse d s = s\<lparr>web_clock := web_clock s + int d\<rparr>"
      using that(2,3) by (auto simp: web_elapse_def web_quiet_def Let_def split: option.splits prod.splits)
    then show ?thesis
      using web_elapse_ok [OF that(1), of d] that(2) by (simp add: web_quiet_def web_strikes_def fun_eq_iff)
  qed
qed (simp_all add: no_web_failures_def web_quiet_def)

section \<open>Properties\<close>

text \<open>
  C32: In the first ten minutes, before any retry can be due, the app and the web wall drop the
  same sources over any polls at any times: those whose last three polls failed. (Later the retries
  part them, \<open>app_retry_on_time\<close> and \<open>web_retry_starves\<close>.)
\<close>

lemma trackers_agree:
  assumes "waited es < retry_dropped_after_ms"
  shows "(app_is_failed (run_app es) a \<longleftrightarrow> 3 \<le> failing_streak (polls es) a) \<and>
    (web_is_failed (run_web es) a \<longleftrightarrow> 3 \<le> failing_streak (polls es) a)"
  using app_timed.failed_before_retry [of es a] web_timed.failed_before_retry [of es a] assms
  by (simp_all add: run_app_def run_web_def failure_constants)

lemma trackers_agree_witness:
  "app_is_failed (run_app [Poll (Poll_Failed ''a''), Wait 60000, Poll (Poll_Failed ''a''), Poll (Poll_Loaded ''b''),
      Wait 60000, Poll (Poll_Failed ''a'')]) ''a'' \<and>
   web_is_failed (run_web [Poll (Poll_Failed ''a''), Wait 60000, Poll (Poll_Failed ''a''), Poll (Poll_Loaded ''b''),
      Wait 60000, Poll (Poll_Failed ''a'')]) ''a''"
proof -
  let ?es = "[Poll (Poll_Failed ''a''), Wait 60000, Poll (Poll_Failed ''a''), Poll (Poll_Loaded ''b''),
      Wait 60000, Poll (Poll_Failed ''a'')]"
  have "3 \<le> failing_streak (polls ?es) ''a''" by (simp add: failing_streak_def)
  moreover have "waited ?es < retry_dropped_after_ms" by (simp add: failure_constants)
  ultimately show ?thesis using trackers_agree [of ?es "''a''"] by blast
qed

text \<open>
  C33: In the app a dropped source is always given another go ten minutes later at the
  latest, whatever the polls of the other sources do meanwhile.
\<close>

lemma app_retry_on_time:
  assumes "\<forall>e \<in> set es'. \<not> concerns a e" and "600000 \<le> waited es'"
  shows "\<not> app_is_failed (run_app (es @ es')) a"
proof -
  let ?s = "run_app (es @ es')"
  have s: "?s = fold app_event es' (run_app es)" by (simp add: run_app_def)
  have "retried_by a (app_clock (run_app es) + 600000) ?s"
    "app_clock ?s = app_clock (run_app es) + waited es'"
    using retried_by_run [OF retried_by_start assms(1)] s by (simp_all add: failure_constants)
  then have "(h, a, due) \<notin> set (running_timers ?s)" for h due
    using assms(2) by (fastforce simp: retried_by_def)
  then have "retry_timers ?s a = None"
    using app_ok_handle [OF run_app_ok, of "es @ es'" a] by (cases "retry_timers ?s a") auto
  then show ?thesis using app_ok_retry [OF run_app_ok, of "es @ es'" a] by (simp add: app_is_failed_def)
qed

lemma app_retry_on_time_witness:
  "\<not> app_is_failed (run_app
     ([Poll (Poll_Failed ''a''), Poll (Poll_Failed ''a''), Poll (Poll_Failed ''a'')]
        @ [Wait 599999, Poll (Poll_Failed ''b''), Poll (Poll_Loaded ''b''), Wait 1])) ''a''"
  by (rule app_retry_on_time) simp_all

text \<open>
  On the web wall another source that fails a poll now and then puts the retry off
  each time, so a dropped source can stay dropped for any length of time.
\<close>

lemma web_retry_starves:
  assumes "a \<noteq> b"
  shows "web_is_failed (run_web (replicate 3 (Poll (Poll_Failed a)) @ blips n b)) a
     \<and> waited (blips n b) = 599999 * int n"
proof -
  have "fold web_event (replicate 3 (Poll (Poll_Failed a))) no_web_failures = dropped_at a 0"
    by (simp add: numeral_eq_Suc no_web_failures_def web_unfold)
  then have "run_web (replicate 3 (Poll (Poll_Failed a)) @ blips n b) = dropped_at a (599999 * int n)"
    using blips_dropped [OF assms, of n 0] by (simp add: run_web_def)
  then show ?thesis
    by (simp add: web_is_failed_def dropped_at_def failure_constants waited_blips)
qed

lemma web_retry_starves_witness:
  "web_is_failed (run_web (replicate 3 (Poll (Poll_Failed ''a'')) @ blips 1000 ''b'')) ''a''"
  using web_retry_starves [of "''a''" "''b''" 1000] by simp

text \<open>
  left alone for ten minutes, the web wall too gives every dropped source another go.
\<close>

lemma web_retry_when_quiet: "\<not> web_is_failed (web_elapse 600000 (run_web es)) a"
proof (cases "web_retry (run_web es)")
  case None
  have ok: "web_ok (run_web es)" by (rule run_web_ok)
  then have "web_strikes (run_web es) a < 3"
    using None map_of_SomeD [of "counts (run_web es)" a]
    by (cases "map_of (counts (run_web es)) a") (fastforce simp: web_strikes_def web_ok_def)+
  then show ?thesis
    using None by (simp add: web_elapse_def web_is_failed_def web_strikes_def Let_def failure_constants)
next
  case (Some r)
  obtain due dropped where r: "r = (due, dropped)" by (cases r)
  have "due \<le> web_clock (run_web es) + int 600000"
    using run_web_ok [of es] Some r by (simp add: web_ok_def failure_constants)
  then have "counts (web_elapse 600000 (run_web es)) = filter (\<lambda>e. snd e < 3) (counts (run_web es))"
    using web_elapse_fired [OF run_web_ok Some [unfolded r]] by blast
  then have "web_strikes (web_elapse 600000 (run_web es)) a < 3"
    using map_of_SomeD [of "filter (\<lambda>e. snd e < 3) (counts (run_web es))" a]
    by (cases "map_of (filter (\<lambda>e. snd e < 3) (counts (run_web es))) a") (auto simp: web_strikes_def)
  then show ?thesis by (simp add: web_is_failed_def web_strikes_def failure_constants)
qed

end
