(* ===== verification/Speech.thy ===== *)
theory Speech
  imports Prelude
begin

text \<open>
  Reading headlines aloud: \<open>apps/app/utils/listen.ts\<close> and \<open>apps/web/src/utils/speech.ts\<close>.
  Both hand the lines to a speech engine one by one, each from the callback of the line
  before, and stop a chain by raising an epoch that the chain compares with its own.

  The engine is not under the model's control: \<open>awaiting\<close> lists the utterances whose
  callback is still to come, by the epoch of their chain, and the callback of any of them
  may come at any time, that of a cancelled one too, as the comment in the source says of
  one platform. \<open>spoken\<close> records the lines handed to the engine. Notifying the listeners
  and the language of an utterance are left out.
\<close>

section \<open>State and operations\<close>

text \<open>A chain is its queue with the index its closures share.\<close>

record speech =
  speaking :: bool
  epoch :: nat
  chains :: "nat \<rightharpoonup> string list \<times> nat"
  spoken :: "(nat \<times> string) list"
  awaiting :: "nat list"

definition silent :: speech where
  "silent = \<lparr>speaking = False, epoch = 0, chains = Map.empty, spoken = [], awaiting = []\<rparr>"

definition speech_queue :: "string list \<Rightarrow> string list" where
  "speech_queue lines = filter (\<lambda>l. l \<noteq> []) (map trim lines)"

text \<open>The function \<open>next\<close> of a chain.\<close>

definition speak_next :: "nat \<Rightarrow> speech \<Rightarrow> speech" where
  "speak_next my_epoch s =
     (if my_epoch \<noteq> epoch s then s
      else case chains s my_epoch of
        None \<Rightarrow> s
      | Some (queue, index) \<Rightarrow>
          if length queue \<le> index then s\<lparr>speaking := False\<rparr>
          else s\<lparr>chains := (chains s)(my_epoch \<mapsto> (queue, index + 1)),
                 spoken := spoken s @ [(my_epoch, queue ! index)],
                 awaiting := awaiting s @ [my_epoch]\<rparr>)"

definition speak_headlines :: "string list \<Rightarrow> speech \<Rightarrow> speech" where
  "speak_headlines titles s =
     (let queue = speech_queue titles in
      if queue = [] then s
      else
        let my_epoch = epoch s + 1
        in speak_next my_epoch
             (s\<lparr>epoch := my_epoch, speaking := True, chains := (chains s)(my_epoch \<mapsto> (queue, 0))\<rparr>))"

text \<open>The app leaves the epoch alone when nothing is being read.\<close>

definition app_stop_speaking :: "speech \<Rightarrow> speech" where
  "app_stop_speaking s = (if \<not> speaking s then s else s\<lparr>epoch := epoch s + 1, speaking := False\<rparr>)"

definition web_stop_speaking :: "speech \<Rightarrow> speech" where
  "web_stop_speaking s = s\<lparr>epoch := epoch s + 1, speaking := False\<rparr>"

definition speak_lines :: "bool \<Rightarrow> string list \<Rightarrow> speech \<Rightarrow> speech" where
  "speak_lines can_speak lines s = (if can_speak then speak_headlines lines s else s)"

text \<open>The callback of one utterance of the chain.\<close>

definition utterance_ends :: "nat \<Rightarrow> speech \<Rightarrow> speech" where
  "utterance_ends e s = speak_next e (s\<lparr>awaiting := remove1 e (awaiting s)\<rparr>)"

text \<open>
  What may happen: the reader starts or stops a queue, of the app or of the web wall, or the
  engine calls back.
\<close>

inductive speech_step :: "speech \<Rightarrow> speech \<Rightarrow> bool" where
  start: "speech_step s (speak_headlines titles s)"
| start_web: "speech_step s (speak_lines can_speak lines s)"
| stop: "speech_step s (app_stop_speaking s)"
| stop_web: "speech_step s (web_stop_speaking s)"
| ends: "e \<in> set (awaiting s) \<Longrightarrow> speech_step s (utterance_ends e s)"

inductive speech_run :: "speech \<Rightarrow> bool" where
  speech_init: "speech_run silent"
| speech_more: "speech_run s \<Longrightarrow> speech_step s t \<Longrightarrow> speech_run t"

inductive_cases speech_step_cases: "speech_step s t"

section \<open>The invariant\<close>

text \<open>
  What a chain has spoken is the first part of its queue; a chain has at most one callback
  to come; the current one has exactly one while it speaks; the lines of different chains
  do not mix.
\<close>

definition said_by :: "nat \<Rightarrow> speech \<Rightarrow> string list" where
  "said_by e s = map snd (filter (\<lambda>p. fst p = e) (spoken s))"

definition speech_ok :: "speech \<Rightarrow> bool" where
  "speech_ok s \<longleftrightarrow>
     (\<forall>e queue i. chains s e = Some (queue, i) \<longrightarrow> i \<le> length queue \<and> said_by e s = take i queue) \<and>
     (\<forall>e. chains s e = None \<longrightarrow> said_by e s = []) \<and>
     (\<forall>e. epoch s < e \<longrightarrow> chains s e = None) \<and>
     (\<forall>e. chains s e = None \<longrightarrow> e \<notin> set (awaiting s)) \<and>
     sorted (map fst (spoken s)) \<and>
     (\<forall>p \<in> set (spoken s). fst p \<le> epoch s) \<and>
     distinct (awaiting s) \<and>
     (speaking s \<longrightarrow> epoch s \<in> set (awaiting s)) \<and>
     (\<not> speaking s \<longrightarrow> (\<forall>queue i. chains s (epoch s) = Some (queue, i)
        \<longrightarrow> i = length queue \<and> epoch s \<notin> set (awaiting s)))"

lemma silent_ok: "speech_ok silent"
  by (simp add: speech_ok_def silent_def said_by_def)

text \<open>One line, spoken by the current chain when no callback of it is to come.\<close>

lemma speak_next_ok:
  assumes "\<And>e queue i. chains s e = Some (queue, i) \<Longrightarrow> i \<le> length queue \<and> said_by e s = take i queue"
    and "\<And>e. chains s e = None \<Longrightarrow> said_by e s = [] \<and> e \<notin> set (awaiting s)"
    and "\<And>e. epoch s < e \<Longrightarrow> chains s e = None"
    and "sorted (map fst (spoken s))" and "\<forall>p \<in> set (spoken s). fst p \<le> epoch s"
    and "distinct (awaiting s)" and "epoch s \<notin> set (awaiting s)"
    and "chains s (epoch s) = Some (queue, i)" and "speaking s"
  shows "speech_ok (speak_next (epoch s) s)"
proof -
  have "i \<le> length queue" using assms(1) [OF assms(8)] by simp
  then consider "i = length queue" | "i < length queue" by linarith
  then show ?thesis
    using assms
    by cases (auto simp: speech_ok_def speak_next_def said_by_def take_Suc_conv_app_nth
        sorted_append Suc_le_eq)
qed

lemma speech_ok_facts:
  assumes "speech_ok s"
  shows "chains s e = Some (queue, i) \<Longrightarrow> i \<le> length queue \<and> said_by e s = take i queue"
    and "chains s e = None \<Longrightarrow> said_by e s = [] \<and> e \<notin> set (awaiting s)"
    and "epoch s < e \<Longrightarrow> chains s e = None"
    and "sorted (map fst (spoken s))" and "\<forall>p \<in> set (spoken s). fst p \<le> epoch s"
    and "distinct (awaiting s)"
  using assms unfolding speech_ok_def by blast+

lemma speak_headlines_ok:
  assumes "speech_ok s"
  shows "speech_ok (speak_headlines titles s)"
proof (cases "speech_queue titles = []")
  case False
  let ?t = "s\<lparr>epoch := epoch s + 1, speaking := True,
             chains := (chains s)(epoch s + 1 \<mapsto> (speech_queue titles, 0))\<rparr>"
  have new: "chains s (epoch s + 1) = None" using assms by (simp add: speech_ok_def)
  have "speech_ok (speak_next (epoch ?t) ?t)"
    by (rule speak_next_ok [where queue = "speech_queue titles" and i = 0])
      (use speech_ok_facts [OF assms] new in
        \<open>auto simp: said_by_def le_Suc_eq split: if_splits\<close>)
  then show ?thesis using False by (simp add: speak_headlines_def Let_def)
qed (use assms in \<open>simp add: speak_headlines_def\<close>)

lemma stop_ok:
  assumes "speech_ok s"
  shows "speech_ok (web_stop_speaking s)" "speech_ok (app_stop_speaking s)"
proof -
  show "speech_ok (web_stop_speaking s)"
    using assms by (auto simp: speech_ok_def web_stop_speaking_def said_by_def)
  then show "speech_ok (app_stop_speaking s)"
    using assms by (cases "speaking s") (simp_all add: app_stop_speaking_def web_stop_speaking_def)
qed

lemma utterance_ends_ok:
  assumes "speech_ok s" and "e \<in> set (awaiting s)"
  shows "speech_ok (utterance_ends e s)"
proof (cases "e = epoch s")
  case True
  obtain queue i where chain: "chains s (epoch s) = Some (queue, i)"
    using speech_ok_facts(2) [OF assms(1), of "epoch s"] assms(2) True
    by (cases "chains s (epoch s)") auto
  have "speaking s"
    using assms chain True unfolding speech_ok_def by blast
  let ?t = "s\<lparr>awaiting := remove1 e (awaiting s)\<rparr>"
  have "speech_ok (speak_next (epoch ?t) ?t)"
    by (rule speak_next_ok [where queue = queue and i = i])
      (use speech_ok_facts [OF assms(1)] chain True \<open>speaking s\<close> in
        \<open>auto simp: said_by_def notin_set_remove1\<close>)
  then show ?thesis using True by (simp add: utterance_ends_def)
next
  case False
  then have "utterance_ends e s = s\<lparr>awaiting := remove1 e (awaiting s)\<rparr>"
    by (simp add: utterance_ends_def speak_next_def)
  then show ?thesis using assms False
    by (auto simp: speech_ok_def said_by_def notin_set_remove1)
qed

lemma speech_step_ok: "speech_step s t \<Longrightarrow> speech_ok s \<Longrightarrow> speech_ok t"
  by (erule speech_step_cases)
    (auto simp: speak_headlines_ok speak_lines_def stop_ok utterance_ends_ok)

lemma speech_run_ok: "speech_run s \<Longrightarrow> speech_ok s"
  by (induction rule: speech_run.induct) (auto simp: silent_ok speech_step_ok)

text \<open>One callback at a time reads the rest of the queue and ends.\<close>

lemma callback_reads:
  assumes "chains s (epoch s) = Some (queue, i)" and "i < length queue"
  shows "utterance_ends (epoch s) s
    = s\<lparr>awaiting := remove1 (epoch s) (awaiting s) @ [epoch s],
        chains := (chains s)(epoch s \<mapsto> (queue, i + 1)),
        spoken := spoken s @ [(epoch s, queue ! i)]\<rparr>"
  using assms by (simp add: utterance_ends_def speak_next_def)

lemma callbacks_finish:
  assumes "chains s (epoch s) = Some (queue, i)" and "i \<le> length queue"
    and "said_by (epoch s) s = take i queue"
  shows "\<not> speaking ((utterance_ends (epoch s) ^^ (length queue - i + 1)) s)
     \<and> said_by (epoch s) ((utterance_ends (epoch s) ^^ (length queue - i + 1)) s) = queue"
  using assms
proof (induction "length queue - i" arbitrary: i s)
  case 0
  then show ?case by (simp add: utterance_ends_def speak_next_def said_by_def)
next
  case (Suc n)
  then have i: "i < length queue" by simp
  let ?t = "utterance_ends (epoch s) s"
  have t: "epoch ?t = epoch s" "chains ?t (epoch ?t) = Some (queue, i + 1)"
    "said_by (epoch ?t) ?t = take (i + 1) queue"
    using Suc.prems i callback_reads [OF Suc.prems(1) i]
    by (simp_all add: said_by_def take_Suc_conv_app_nth)
  have "length queue - i + 1 = Suc (length queue - (i + 1) + 1)" using i by simp
  then show ?case
    using Suc.hyps(1) [of "i + 1" ?t] Suc.hyps(2) t i by (simp add: funpow_swap1)
qed

lemma callback_quiet:
  assumes "\<And>queue i. chains s (epoch s) = Some (queue, i) \<Longrightarrow> length queue \<le> i"
  shows "spoken (utterance_ends e s) = spoken s \<and> chains (utterance_ends e s) = chains s
     \<and> epoch (utterance_ends e s) = epoch s"
proof (cases "e = epoch s")
  case True
  then show ?thesis
    using assms by (cases "chains s e") (auto simp: utterance_ends_def speak_next_def)
qed (simp add: utterance_ends_def speak_next_def)

lemma callbacks_quiet:
  "(\<And>queue i. chains s (epoch s) = Some (queue, i) \<Longrightarrow> length queue \<le> i)
   \<Longrightarrow> spoken (fold utterance_ends es s) = spoken s"
proof (induction es arbitrary: s)
  case (Cons e es)
  have "spoken (fold utterance_ends es (utterance_ends e s)) = spoken (utterance_ends e s)"
    using callback_quiet [OF Cons.prems, where e = e] Cons.prems by (intro Cons.IH) simp
  then show ?case using callback_quiet [OF Cons.prems, where e = e] by simp
qed simp

section \<open>Properties\<close>

text \<open>
  C37: However starts, stops and callbacks follow each other, every queue is read from its
  beginning and in its order, nothing twice, and no line of an older queue is spoken after
  a line of a newer one.
\<close>

lemma speech_in_order:
  assumes "speech_run s"
  shows "sorted (map fst (spoken s))
     \<and> (\<forall>e queue i. chains s e = Some (queue, i) \<longrightarrow> said_by e s = take i queue)"
  using speech_ok_facts(1,4) [OF speech_run_ok [OF assms]] by blast

lemma speech_in_order_witness:
  "sorted (map fst (spoken (utterance_ends 1 (speak_headlines [''One'', ''Two''] silent))))"
proof -
  have "speech_run (utterance_ends 1 (speak_headlines [''One'', ''Two''] silent))"
    by (rule speech_more [OF speech_more [OF speech_init speech_step.start] speech_step.ends]) code_simp
  then show ?thesis using speech_in_order by blast
qed

text \<open>
  Left alone, a queue is read out to its last line after as many callbacks as it has
  lines, and then nothing is being spoken any more.
\<close>

lemma speech_finishes:
  assumes "speech_run s" and "speech_queue titles \<noteq> []"
  shows "\<not> speaking ((utterance_ends (epoch s + 1) ^^ length (speech_queue titles)) (speak_headlines titles s))
     \<and> said_by (epoch s + 1) ((utterance_ends (epoch s + 1) ^^ length (speech_queue titles)) (speak_headlines titles s))
         = speech_queue titles"
proof -
  let ?t = "speak_headlines titles s"
  have ok: "speech_ok ?t" using assms(1) by (simp add: speech_run_ok speak_headlines_ok)
  have t: "epoch ?t = epoch s + 1" "chains ?t (epoch ?t) = Some (speech_queue titles, 1)"
    using assms(2) by (simp_all add: speak_headlines_def Let_def speak_next_def)
  have len: "1 \<le> length (speech_queue titles)" using assms(2) by (simp add: Suc_le_eq)
  have "length (speech_queue titles) - 1 + 1 = length (speech_queue titles)" using len by simp
  then show ?thesis
    using callbacks_finish [OF t(2)] speech_ok_facts(1) [OF ok t(2)] t(1) by metis
qed

lemma speech_finishes_witness:
  "\<not> speaking ((utterance_ends 1 ^^ 2) (speak_headlines [''One'', '' '', ''Two''] silent))"
proof -
  have q: "speech_queue [''One'', '' '', ''Two''] = [''One'', ''Two'']" by code_simp
  show ?thesis
    using speech_finishes [OF speech_init, of "[''One'', '' '', ''Two'']"]
    unfolding q by (simp add: silent_def eval_nat_numeral)
qed

text \<open>
  once the reader stops, no callback makes another line be spoken.
\<close>

lemma stop_is_final:
  assumes "speech_run s"
  shows "spoken (fold utterance_ends es (web_stop_speaking s)) = spoken s
     \<and> spoken (fold utterance_ends es (app_stop_speaking s)) = spoken s"
proof -
  have ok: "speech_ok s" using assms by (rule speech_run_ok)
  have none: "chains s (epoch s + 1) = None" using speech_ok_facts(3) [OF ok] by simp
  then have web: "spoken (fold utterance_ends es (web_stop_speaking s)) = spoken s"
    using callbacks_quiet [of "web_stop_speaking s" es] by (simp add: web_stop_speaking_def)
  moreover have "spoken (fold utterance_ends es (app_stop_speaking s)) = spoken s"
  proof (cases "speaking s")
    case True
    then show ?thesis using web by (simp add: app_stop_speaking_def web_stop_speaking_def)
  next
    case False
    then have "chains s (epoch s) = Some (queue, i) \<Longrightarrow> length queue \<le> i" for queue i
      using ok by (fastforce simp: speech_ok_def)
    then show ?thesis using False callbacks_quiet [of s es] by (simp add: app_stop_speaking_def)
  qed
  ultimately show ?thesis by simp
qed

lemma stop_is_final_witness:
  "spoken (fold utterance_ends [1, 1, 2] (web_stop_speaking (speak_headlines [''One'', ''Two''] silent)))
     = [(1, ''One'')]"
proof -
  have "speech_run (speak_headlines [''One'', ''Two''] silent)"
    by (rule speech_more [OF speech_init speech_step.start])
  moreover have "spoken (speak_headlines [''One'', ''Two''] silent) = [(1, ''One'')]" by code_simp
  ultimately show ?thesis using stop_is_final by metis
qed

end
