(* ===== verification/Device_Storage.thy ===== *)
theory Device_Storage
  imports Prelude
begin

text \<open>
  Single values on the device (\<open>apps/app/hooks/storage.ts\<close>): the secure store of a phone,
  or on the web the local storage, which may be missing or throw. Both hold strings by key.
  With it, \<open>parseInt\<close>, which reads the numbers kept this way.
\<close>

section \<open>Numbers\<close>

text \<open>\<open>parseInt(s, 10)\<close>: white space, a sign, the digits up to the first other character; NaN is \<open>None\<close>.\<close>

definition parse_int :: "string \<Rightarrow> int option" where
  "parse_int s =
     (let t = trim_start s;
          (neg, r) = (case t of
              c # u \<Rightarrow> if c = CHR ''-'' then (True, u) else if c = CHR ''+'' then (False, u) else (False, t)
            | [] \<Rightarrow> (False, []));
          ds = takeWhile is_digit r
      in if ds = [] then None
         else Some (if neg then - int (read_nat ds) else int (read_nat ds)))"

lemma digits_no_space: "c # s = show_nat n \<Longrightarrow> is_digit c \<and> space_len (c # s @ t) = 0 \<and> c \<noteq> CHR ''-'' \<and> c \<noteq> CHR ''+''"
proof -
  assume "c # s = show_nat n"
  then have "is_digit c" using show_nat_digits [of n] by (metis list.set_intros(1))
  then show ?thesis by (cases "s @ t"; cases "tl (s @ t)") (auto simp: is_digit_def)
qed

lemma parse_show_nat:
  assumes "t = [] \<or> \<not> is_digit (hd t)"
  shows "parse_int (show_nat n @ t) = Some (int n)"
proof -
  obtain c s where cs: "show_nat n = c # s" using show_nat_digits [of n] by (cases "show_nat n") auto
  note first = digits_no_space [OF cs [symmetric], of t]
  have "trim_start (show_nat n @ t) = show_nat n @ t"
    using first by (subst trim_start.simps) (simp add: cs)
  moreover have "takeWhile is_digit (show_nat n @ t) = show_nat n"
    using assms show_nat_digits [of n] by (cases t) (auto simp: takeWhile_append)
  ultimately show ?thesis using first by (simp add: parse_int_def Let_def cs) (metis cs read_show_nat)
qed

lemma parse_show_int: "0 \<le> i \<Longrightarrow> parse_int (show_int i) = Some i"
  using parse_show_nat [of "[]" "nat i"] by (simp add: show_int_def)

section \<open>Storage\<close>

text \<open>
  The platform: a phone with its secure store, or the web with a local storage that may be
  absent or refuse reads and writes.
\<close>

datatype platform = Phone | Web

record device_storage =
  on_platform :: platform
  has_local_storage :: bool
  storage_throws :: bool
  kept :: "string \<rightharpoonup> string"

definition storage_works :: "device_storage \<Rightarrow> bool" where
  "storage_works d \<longleftrightarrow>
     (case on_platform d of Phone \<Rightarrow> True | Web \<Rightarrow> has_local_storage d \<and> \<not> storage_throws d)"

definition get_storage_item :: "string \<Rightarrow> device_storage \<Rightarrow> string option" where
  "get_storage_item key d =
     (case on_platform d of
        Web \<Rightarrow> (if \<not> has_local_storage d then None
                else if storage_throws d then None else kept d key)
      | Phone \<Rightarrow> kept d key)"

definition set_storage_item :: "string \<Rightarrow> string option \<Rightarrow> device_storage \<Rightarrow> device_storage" where
  "set_storage_item key v d =
     (case on_platform d of
        Web \<Rightarrow> (if \<not> has_local_storage d \<or> storage_throws d then d
                else d\<lparr>kept := (kept d)(key := v)\<rparr>)
      | Phone \<Rightarrow> d\<lparr>kept := (kept d)(key := v)\<rparr>)"

text \<open>
  \<open>useStorageState\<close>: whether the value is still loading, and the value. The effect loads
  it after the first render; the setter shows a value at once and stores it.
\<close>

type_synonym storage_state = "bool \<times> string option"

definition initial_state :: storage_state where
  "initial_state = (True, None)"

definition load_state :: "string \<Rightarrow> device_storage \<Rightarrow> storage_state \<Rightarrow> storage_state" where
  "load_state key d st =
     (case on_platform d of
        Web \<Rightarrow> (if has_local_storage d \<and> \<not> storage_throws d then (False, kept d key) else st)
      | Phone \<Rightarrow> (False, kept d key))"

definition set_state :: "string \<Rightarrow> string option \<Rightarrow> device_storage \<Rightarrow> storage_state \<times> device_storage" where
  "set_state key v d = ((False, v), set_storage_item key v d)"

lemma get_set:
  "get_storage_item key (set_storage_item k v d)
     = (if storage_works d \<and> key = k then v else get_storage_item key d)"
  by (auto simp: get_storage_item_def set_storage_item_def storage_works_def split: platform.splits)

lemma works_set [simp]: "storage_works (set_storage_item k v d) = storage_works d"
  by (auto simp: set_storage_item_def storage_works_def split: platform.splits)

text \<open>On the web a storage that cannot be read leaves the state loading for good.\<close>

lemma load_state_stuck: "\<not> storage_works d \<Longrightarrow> load_state key d initial_state = (True, None)"
  by (auto simp: load_state_def storage_works_def initial_state_def split: platform.splits)

lemma load_state_loads: "storage_works d \<Longrightarrow> load_state key d st = (False, get_storage_item key d)"
  by (auto simp: load_state_def storage_works_def get_storage_item_def split: platform.splits)

end
