(* ===== verification/App_Session.thy ===== *)
theory App_Session
  imports Refresher Device_Storage
begin

text \<open>
  The app's session (\<open>apps/app/providers/SessionProvider.tsx\<close>), how a reader signs in
  (\<open>apps/app/hooks/oauth.ts\<close>) and out (\<open>apps/app/hooks/auth.ts\<close>). The provider keeps three
  values, each with its storage key, hands them to the refresher at every change and takes
  the refresher's new session back. What the authorization library answers is an argument;
  reporting and logging are left out. A number read from storage is finite here: a text of
  more digits than a double can hold is not modelled.
\<close>

section \<open>The provider\<close>

definition access_token_key :: string where "access_token_key = ''session''"
definition refresh_token_key :: string where "refresh_token_key = ''session_refresh_token''"
definition expires_at_key :: string where "expires_at_key = ''session_expires_at''"

lemmas session_keys = access_token_key_def refresh_token_key_def expires_at_key_def

record session_states =
  access_state :: storage_state
  refresh_state :: storage_state
  expires_state :: storage_state

definition signed_out_states :: session_states where
  "signed_out_states =
     \<lparr>access_state = initial_state, refresh_state = initial_state, expires_state = initial_state\<rparr>"

text \<open>Mounting the provider: the three effects that load.\<close>

definition load_session :: "device_storage \<Rightarrow> session_states" where
  "load_session d =
     \<lparr>access_state = load_state access_token_key d initial_state,
      refresh_state = load_state refresh_token_key d initial_state,
      expires_state = load_state expires_at_key d initial_state\<rparr>"

definition session_expires :: "session_states \<Rightarrow> int option" where
  "session_expires st = Option.bind (truthy (snd (expires_state st))) parse_int"

definition session_loading :: "session_states \<Rightarrow> bool" where
  "session_loading st \<longleftrightarrow>
     fst (access_state st) \<or> fst (refresh_state st) \<or> fst (expires_state st)"

definition set_session ::
  "session_data option \<Rightarrow> device_storage \<Rightarrow> session_states \<times> device_storage" where
  "set_session data d =
     (let (acc, ref, ex) = (case data of
          None \<Rightarrow> (None, None, None)
        | Some sd \<Rightarrow> (Some (sd_access sd), sd_refresh sd, map_option show_int (sd_expires sd)));
          (a, d1) = set_state access_token_key acc d;
          (r, d2) = set_state refresh_token_key ref d1;
          (e, d3) = set_state expires_at_key ex d2
      in (\<lparr>access_state = a, refresh_state = r, expires_state = e\<rparr>, d3))"

text \<open>
  The switch of \<open>apps/app/utils/features.ts\<close>: accounts are off for the present launch, so the
  app offers no session and stores none. What the provider does with them on is kept in the code
  and modelled for either value.
\<close>

definition accounts_enabled :: bool where
  "accounts_enabled = False"

text \<open>What the context offers: nothing while accounts are switched off.\<close>

record auth_context =
  auth_session :: "string option"
  auth_refresh :: "string option"
  auth_expires :: "int option"
  auth_loading :: bool

definition session_provider :: "bool \<Rightarrow> session_states \<Rightarrow> auth_context" where
  "session_provider enabled st =
     (if \<not> enabled
      then \<lparr>auth_session = None, auth_refresh = None, auth_expires = None, auth_loading = False\<rparr>
      else \<lparr>auth_session = snd (access_state st), auth_refresh = snd (refresh_state st),
            auth_expires = session_expires st, auth_loading = session_loading st\<rparr>)"

text \<open>The \<open>setSession\<close> of the context, as what it leaves on the device.\<close>

definition offered_set_session :: "bool \<Rightarrow> session_data option \<Rightarrow> device_storage \<Rightarrow> device_storage" where
  "offered_set_session enabled data d = (if enabled then snd (set_session data d) else d)"

text \<open>The effect that hands the session to the refresher.\<close>

definition configure_effect :: "session_states \<Rightarrow> int \<Rightarrow> refresher \<Rightarrow> refresher" where
  "configure_effect st now r =
     configure_refresher (snd (access_state st)) (snd (refresh_state st)) (session_expires st) now r"

section \<open>Signing in and out\<close>

datatype auth_response = Auth_Success string | Auth_Dismissed | Auth_Error "string option"

text \<open>The session a sign-in stores: \<open>exchange\<close> is the token endpoint, \<open>None\<close> where it throws.\<close>

definition authenticate ::
  "(string \<Rightarrow> token_response option) \<Rightarrow> auth_response \<Rightarrow> int \<Rightarrow> session_data option" where
  "authenticate exchange response now =
     (case response of
        Auth_Success auth_code \<Rightarrow>
          map_option
            (\<lambda>tok. \<lparr>sd_access = tr_access tok, sd_refresh = tr_refresh tok,
                    sd_expires = map_option (\<lambda>s. now + s * 1000) (tr_expires_in tok)\<rparr>)
            (exchange auth_code)
      | _ \<Rightarrow> None)"

datatype token_kind = Access_Token | Refresh_Token

record sign_out_result =
  revoked :: "(string \<times> token_kind) list"
  cache_cleared :: bool
  left_states :: session_states
  left_device :: device_storage
  routed_to :: string

definition sign_out :: "auth_context \<Rightarrow> device_storage \<Rightarrow> sign_out_result" where
  "sign_out ctx d =
     (let (st, d') = set_session None d in
      \<lparr>revoked =
         (case truthy (auth_session ctx) of None \<Rightarrow> [] | Some t \<Rightarrow> [(t, Access_Token)])
         @ (case truthy (auth_refresh ctx) of None \<Rightarrow> [] | Some t \<Rightarrow> [(t, Refresh_Token)]),
       cache_cleared = True, left_states = st, left_device = d', routed_to = ''/''\<rparr>)"

section \<open>Lemmas\<close>

lemma parse_show_int_any [simp]: "parse_int (show_int i) = Some i"
proof (cases "0 \<le> i")
  case False
  have ds: "takeWhile is_digit (show_nat n) = show_nat n" "show_nat n \<noteq> []" for n
    using show_nat_digits [of n] by auto
  have "trim_start (CHR ''-'' # s) = CHR ''-'' # s" for s :: string
    by (subst trim_start.simps) (cases s; cases "tl s"; simp)
  then show ?thesis
    using False by (simp add: show_int_def parse_int_def Let_def ds del: takeWhile_eq_all_conv)
qed (simp add: parse_show_int)

lemma show_int_ne [simp]: "show_int i \<noteq> []"
  using show_nat_digits by (simp add: show_int_def)

lemma set_session_stored:
  assumes "storage_works d"
  shows "get_storage_item access_token_key (snd (set_session data d)) = map_option sd_access data"
    and "get_storage_item refresh_token_key (snd (set_session data d)) = Option.bind data sd_refresh"
    and "get_storage_item expires_at_key (snd (set_session data d))
          = map_option show_int (Option.bind data sd_expires)"
    and "storage_works (snd (set_session data d))"
  using assms
  by (auto simp: set_session_def set_state_def get_set session_keys Let_def split: option.splits)

lemma load_set_session:
  assumes "storage_works d"
  shows "snd (access_state (load_session (snd (set_session data d)))) = map_option sd_access data"
    and "snd (refresh_state (load_session (snd (set_session data d)))) = Option.bind data sd_refresh"
    and "session_expires (load_session (snd (set_session data d))) = Option.bind data sd_expires"
    and "\<not> session_loading (load_session (snd (set_session data d)))"
  using set_session_stored [OF assms, of data]
  by (auto simp: load_session_def load_state_loads session_expires_def session_loading_def truthy_def
      split: option.splits bind_splits)

section \<open>Properties\<close>

text \<open>
  C25: On a device whose storage works, what a sign-in or a refresh stores through the session
  provider is what the app offers the next time it starts, value for value, when accounts are
  enabled. With the switch off, as the app now ships it, nothing is stored and nothing is
  offered, whatever an earlier version left on the device.
\<close>

lemma session_round_trip:
  assumes "storage_works d"
  shows "session_provider enabled (load_session (offered_set_session enabled data d)) =
      (if enabled
       then \<lparr>auth_session = map_option sd_access data, auth_refresh = Option.bind data sd_refresh,
             auth_expires = Option.bind data sd_expires, auth_loading = False\<rparr>
       else \<lparr>auth_session = None, auth_refresh = None, auth_expires = None, auth_loading = False\<rparr>) \<and>
    offered_set_session accounts_enabled data d = d \<and>
    session_provider accounts_enabled (load_session d) =
      \<lparr>auth_session = None, auth_refresh = None, auth_expires = None, auth_loading = False\<rparr>"
  using load_set_session [OF assms, of data]
  by (simp add: session_provider_def offered_set_session_def accounts_enabled_def)

definition empty_phone :: device_storage where
  "empty_phone = \<lparr>on_platform = Phone, has_local_storage = False, storage_throws = False, kept = Map.empty\<rparr>"

lemma session_round_trip_witness:
  "auth_expires (session_provider True (load_session (offered_set_session True
     (Some \<lparr>sd_access = ''at'', sd_refresh = Some ''rt'', sd_expires = Some 1700000000000\<rparr>)
     empty_phone))) = Some 1700000000000 \<and>
   auth_session (session_provider accounts_enabled (load_session (snd (set_session
     (Some \<lparr>sd_access = ''at'', sd_refresh = Some ''rt'', sd_expires = None\<rparr>) empty_phone)))) = None"
proof -
  have works: "storage_works empty_phone" by (simp add: storage_works_def empty_phone_def)
  let ?d = "snd (set_session (Some \<lparr>sd_access = ''at'', sd_refresh = Some ''rt'', sd_expires = None\<rparr>) empty_phone)"
  have "storage_works ?d" using set_session_stored(4) [OF works] .
  then show ?thesis
    using session_round_trip [OF works, of True
        "Some \<lparr>sd_access = ''at'', sd_refresh = Some ''rt'', sd_expires = Some 1700000000000\<rparr>"]
      session_round_trip [of ?d False None] by simp
qed

text \<open>
  a refresh that lands is not lost by closing the app: the refresher configured at the
  next start holds the tokens and the expiry it had when the refresh settled.
\<close>

lemma refresh_survives_restart:
  assumes "in_flight r = Some tok" and "storage_works d"
  shows "let r' = snd (settle_ok resp now r);
             d' = snd (set_session (last (sessions r')) d);
             r'' = configure_effect (load_session d') later init_refresher
         in access_token r'' = access_token r' \<and> refresh_token r'' = refresh_token r'
            \<and> expires_at r'' = expires_at r' \<and> access_token r' = Some (tr_access resp)"
proof -
  define data where "data = last (sessions (snd (settle_ok resp now r)))"
  have data: "data = Some \<lparr>sd_access = tr_access resp, sd_refresh = Some (or_else (tr_refresh resp) tok),
      sd_expires = map_option (\<lambda>s. now + s * 1000) (tr_expires_in resp)\<rparr>"
    using assms(1) by (simp add: data_def settle_ok_def Let_def split: option.splits)
  have conf: "access_token (configure_effect st t q) = snd (access_state st)"
    "refresh_token (configure_effect st t q) = snd (refresh_state st)"
    "expires_at (configure_effect st t q) = session_expires st" for st t q
    by (simp_all add: configure_effect_def configure_refresher_def Let_def split: option.splits)
  have "access_token (snd (settle_ok resp now r)) = Some (tr_access resp)"
    "refresh_token (snd (settle_ok resp now r)) = Some (or_else (tr_refresh resp) tok)"
    "expires_at (snd (settle_ok resp now r)) = map_option (\<lambda>s. now + s * 1000) (tr_expires_in resp)"
    using assms(1) by (simp_all add: settle_ok_def Let_def split: option.splits)
  then show ?thesis
    using load_set_session [OF assms(2), of data] by (simp add: Let_def conf data_def [symmetric]) (simp add: data)
qed

lemma refresh_survives_restart_witness:
  "access_token (configure_effect
     (load_session (snd (set_session
        (last (sessions (snd (settle_ok \<lparr>tr_access = ''new'', tr_refresh = None, tr_expires_in = Some 3600\<rparr> 5
           (init_refresher\<lparr>in_flight := Some ''rt''\<rparr>))))) empty_phone))) 9 init_refresher) = Some ''new''"
  using refresh_survives_restart [of "init_refresher\<lparr>in_flight := Some ''rt''\<rparr>" "''rt''" empty_phone
      "\<lparr>tr_access = ''new'', tr_refresh = None, tr_expires_in = Some 3600\<rparr>" 5 9]
  by (simp add: Let_def storage_works_def empty_phone_def)

text \<open>
  signing out asks the server to revoke every token the app holds, clears the cache
  and leaves no session, neither shown nor, where the storage works, for the next start.
\<close>

lemma sign_out_complete:
  assumes "storage_works d" and "ctx = session_provider True st"
    and "truthy (snd (access_state st)) = Some a" and "truthy (snd (refresh_state st)) = Some r"
  shows "set (revoked (sign_out ctx d)) = {(a, Access_Token), (r, Refresh_Token)}
    \<and> session_provider True (left_states (sign_out ctx d))
        = \<lparr>auth_session = None, auth_refresh = None, auth_expires = None, auth_loading = False\<rparr>
    \<and> session_provider True (load_session (left_device (sign_out ctx d)))
        = \<lparr>auth_session = None, auth_refresh = None, auth_expires = None, auth_loading = False\<rparr>
    \<and> cache_cleared (sign_out ctx d)"
  using load_set_session [OF assms(1), of None] assms
  by (simp add: sign_out_def session_provider_def set_session_def set_state_def Let_def
      session_expires_def session_loading_def truthy_def)

lemma sign_out_complete_witness:
  "revoked (sign_out (session_provider True
      \<lparr>access_state = (False, Some ''at''), refresh_state = (False, Some ''rt''),
       expires_state = (False, None)\<rparr>) empty_phone) \<noteq> []"
  using sign_out_complete [of empty_phone _ "\<lparr>access_state = (False, Some ''at''),
      refresh_state = (False, Some ''rt''), expires_state = (False, None)\<rparr>" "''at''" "''rt''", OF _ refl]
  by (force simp: storage_works_def empty_phone_def truthy_def)

text \<open>On the web, without a local storage the session is still loading whatever happens.\<close>

lemma session_never_loads:
  "\<not> storage_works d \<Longrightarrow> auth_loading (session_provider True (load_session d))"
  by (simp add: session_provider_def session_loading_def load_session_def load_state_stuck)

end
