(* ===== verification/App_Update.thy ===== *)
theory App_Update
  imports Json Device_Storage
begin

text \<open>
  The update banner of the app (\<open>apps/app/utils/appUpdate.ts\<close>): versions are compared part
  by part, the store's answer is kept for an hour, and a dismissed version stays hidden.
  The lookup request is an argument (\<open>None\<close> where it fails, runs into its deadline or gives
  no version), so is the clock. The storage is a map of strings; its own failures are left
  out, as are number literals other than integers in a cache entry, which the code never
  writes.
\<close>

section \<open>Versions\<close>

text \<open>The loop over the parts, a missing one being 0.\<close>

fun newer_parts :: "int list \<Rightarrow> int list \<Rightarrow> bool" where
  "newer_parts [] [] \<longleftrightarrow> False"
| "newer_parts (x # a) [] \<longleftrightarrow> (if x \<noteq> 0 then 0 < x else newer_parts a [])"
| "newer_parts [] (y # b) \<longleftrightarrow> (if y \<noteq> 0 then y < 0 else newer_parts [] b)"
| "newer_parts (x # a) (y # b) \<longleftrightarrow> (if x \<noteq> y then y < x else newer_parts a b)"

definition version_parts :: "string \<Rightarrow> int option list" where
  "version_parts v = map parse_int (split_on CHR ''.'' v)"

definition is_newer_version :: "string \<Rightarrow> string \<Rightarrow> bool" where
  "is_newer_version latest installed =
     (let a = version_parts latest; b = version_parts installed
      in if None \<in> set a \<or> None \<in> set b then False
         else newer_parts (map the a) (map the b))"

section \<open>The store's version\<close>

definition cache_key :: string where "cache_key = ''news:store-version:v1''"
definition dismiss_key :: string where "dismiss_key = ''news:store-version-dismissed:v1''"
definition store_url :: string where "store_url = ''https://apps.apple.com/app/id6793827093''"
definition cache_ms :: int where "cache_ms = 60 * 60 * 1000"

definition cache_entry :: "string \<Rightarrow> int \<Rightarrow> string" where
  "cache_entry version now =
     ''{'' @ json_quote ''version'' @ '':'' @ json_quote version @ '','' @ json_quote ''at'' @ '':''
       @ show_int now @ ''}''"

text \<open>
  Reading an entry: \<open>None\<close> where parsing or taking the value apart throws; otherwise the
  version, when there is one, and the time. A version that is not a string is left out.
\<close>

definition json_int :: "json \<Rightarrow> int option" where
  "json_int j =
     (case j of
        JNum lit \<Rightarrow> (if list_all is_digit lit \<or> (lit \<noteq> [] \<and> hd lit = CHR ''-'' \<and> list_all is_digit (tl lit))
                     then parse_int lit else None)
      | _ \<Rightarrow> None)"

definition read_entry :: "string \<Rightarrow> (string option \<times> int option) option" where
  "read_entry raw =
     (case json_parse raw of
        None \<Rightarrow> None
      | Some JNull \<Rightarrow> None
      | Some (JObj ms) \<Rightarrow>
          Some ((case map_of (rev ms) ''version'' of Some (JStr v) \<Rightarrow> Some v | _ \<Rightarrow> None),
                Option.bind (map_of (rev ms) ''at'') json_int)
      | Some _ \<Rightarrow> Some (None, None))"

type_synonym stored = "string \<rightharpoonup> string"

text \<open>
  \<open>storeVersion\<close>: the version, the storage after it, and whether the network was asked.
\<close>

definition fresh_lookup :: "string option \<Rightarrow> int \<Rightarrow> stored \<Rightarrow> string option \<times> stored \<times> bool" where
  "fresh_lookup lookup now st =
     (case truthy lookup of
        None \<Rightarrow> (None, st, True)
      | Some v \<Rightarrow> (Some v, st(cache_key \<mapsto> cache_entry v now), True))"

definition store_version :: "string option \<Rightarrow> int \<Rightarrow> stored \<Rightarrow> string option \<times> stored \<times> bool" where
  "store_version lookup now st =
     (case truthy (st cache_key) of
        None \<Rightarrow> fresh_lookup lookup now st
      | Some raw \<Rightarrow>
          (case read_entry raw of
             Some (v, Some t) \<Rightarrow>
               (if now - t < cache_ms then (v, st, False) else fresh_lookup lookup now st)
           | _ \<Rightarrow> fresh_lookup lookup now st))"

record store_update =
  update_version :: string
  update_url :: string

definition check_for_store_update ::
  "bool \<Rightarrow> string option \<Rightarrow> string option \<Rightarrow> int \<Rightarrow> stored
   \<Rightarrow> store_update option \<times> stored \<times> bool" where
  "check_for_store_update ios runtime_version lookup now st =
     (if \<not> ios then (None, st, False)
      else case truthy runtime_version of
        None \<Rightarrow> (None, st, False)
      | Some installed \<Rightarrow>
          (let (latest, st1, asked) = store_version lookup now st
           in case truthy latest of
                None \<Rightarrow> (None, st1, asked)
              | Some v \<Rightarrow>
                  if \<not> is_newer_version v installed then (None, st1, asked)
                  else if st1 dismiss_key = Some v then (None, st1, asked)
                  else (Some \<lparr>update_version = v, update_url = store_url\<rparr>, st1, asked)))"

definition dismiss_store_update :: "string \<Rightarrow> stored \<Rightarrow> stored" where
  "dismiss_store_update version st = st(dismiss_key \<mapsto> version)"

section \<open>The order of versions\<close>

text \<open>A part of a version, 0 past its end.\<close>

definition part :: "int list \<Rightarrow> nat \<Rightarrow> int" where
  "part a i = (if i < length a then a ! i else 0)"

lemma part_Nil [simp]: "part [] i = 0"
  by (simp add: part_def)

lemma part_Cons [simp]: "part (x # a) 0 = x" "part (x # a) (Suc i) = part a i"
  by (simp_all add: part_def)

text \<open>The first difference decides.\<close>

definition later :: "(nat \<Rightarrow> int) \<Rightarrow> (nat \<Rightarrow> int) \<Rightarrow> bool" where
  "later f g \<longleftrightarrow> (\<exists>i. g i < f i \<and> (\<forall>j<i. f j = g j))"

lemma later_unfold: "later f g \<longleftrightarrow> (if f 0 \<noteq> g 0 then g 0 < f 0 else later (f \<circ> Suc) (g \<circ> Suc))"
proof (cases "f 0 = g 0")
  case True
  have "later f g \<longleftrightarrow> (\<exists>i. g (Suc i) < f (Suc i) \<and> (\<forall>j<Suc i. f j = g j))"
    unfolding later_def using True by (metis less_irrefl not0_implies_Suc)
  also have "\<dots> \<longleftrightarrow> later (f \<circ> Suc) (g \<circ> Suc)"
    using True by (simp add: later_def All_less_Suc2)
  finally show ?thesis using True by simp
next
  case False
  then show ?thesis unfolding later_def by (metis not_gr_zero not_less_zero)
qed

lemma part_Suc: "part (x # a) \<circ> Suc = part a" "part [] \<circ> Suc = part []"
  by (simp_all add: fun_eq_iff)

lemma newer_parts_later: "newer_parts a b \<longleftrightarrow> later (part a) (part b)"
proof (induction a b rule: newer_parts.induct)
  case 1
  then show ?case by (simp add: later_def)
qed (subst later_unfold, simp add: part_Suc o_def)+

lemma later_trans: "later f g \<Longrightarrow> later g h \<Longrightarrow> later f h"
proof -
  assume "later f g" "later g h"
  then obtain i k where i: "g i < f i" "\<forall>j<i. f j = g j" and k: "h k < g k" "\<forall>j<k. g j = h j"
    by (auto simp: later_def)
  consider "i < k" | "i = k" | "k < i" by linarith
  then show ?thesis unfolding later_def
  proof cases
    case 1
    then show "\<exists>i. h i < f i \<and> (\<forall>j<i. f j = h j)" using i k by (intro exI [of _ i]) auto
  next
    case 2
    then show "\<exists>i. h i < f i \<and> (\<forall>j<i. f j = h j)" using i k by (intro exI [of _ i]) auto
  next
    case 3
    then show "\<exists>i. h i < f i \<and> (\<forall>j<i. f j = h j)" using i k by (intro exI [of _ k]) auto
  qed
qed

section \<open>The cache entry\<close>

lemma show_nat_zero: "show_nat n = CHR ''0'' # ds \<Longrightarrow> n = 0"
proof (induction n arbitrary: ds rule: show_nat.induct)
  case (1 n)
  have digit: "digit_char d = CHR ''0'' \<Longrightarrow> d = 0" if "d < 10" for d
    using digit_char_digit [OF that] by (auto simp: is_digit_def)
  show ?case
  proof (cases "n < 10")
    case True
    then show ?thesis using 1 digit by (simp add: show_nat.simps [of n])
  next
    case False
    then have "show_nat (n div 10) @ [digit_char (n mod 10)] = CHR ''0'' # ds"
      using 1 by (simp add: show_nat.simps [of n])
    then obtain es where "show_nat (n div 10) = CHR ''0'' # es"
      using show_nat_digits [of "n div 10"] by (cases "show_nat (n div 10)") auto
    then show ?thesis using 1 False by auto
  qed
qed

lemma digits_show_nat: "digits_rest (show_nat n @ CHR ''}'' # r) = (show_nat n, CHR ''}'' # r)"
proof -
  have "\<forall>c \<in> set (show_nat n). is_digit c" using show_nat_digits by blast
  then show ?thesis
    by (simp add: digits_rest_def is_digit_def takeWhile_append dropWhile_append)
qed

lemma number_rest_show_nat: "number_rest (show_nat n @ CHR ''}'' # r) = Some (show_nat n, CHR ''}'' # r)"
proof -
  obtain c s where cs: "show_nat n = c # s" using show_nat_digits [of n] by (cases "show_nat n") auto
  have "c = CHR ''0'' \<Longrightarrow> s = []" using cs show_nat_zero [of n s] by (simp add: show_nat.simps [of 0])
  then have "number_int (show_nat n @ CHR ''}'' # r) = Some (show_nat n, CHR ''}'' # r)"
    unfolding number_int_def digits_show_nat by (simp add: cs)
  then show ?thesis
    using digits_no_space [OF cs [symmetric]] by (simp add: number_rest_def number_frac_def number_exp_def cs)
qed

text \<open>One member of an object, then its end or the next.\<close>

lemma parse_member:
  assumes "parse_value s = Some (v, e # t)" and "skip_ws s = s" and "skip_ws (e # t) = e # t"
  shows "parse_members (json_quote k @ CHR '':'' # s)
    = (if e = CHR ''}'' then Some ([(k, v)], t)
       else if e = CHR '','' \<and> length (skip_ws t) < length (json_quote k @ CHR '':'' # s) then
         map_option (\<lambda>(ms, q). ((k, v) # ms, q)) (parse_members (skip_ws t))
       else None)"
proof -
  obtain q where q: "json_quote k @ CHR '':'' # s = CHR 0x22 # q" "string_rest q = Some (k, CHR '':'' # s)"
    using string_rest_body [of k] by (simp add: json_quote_def)
  have "length s < length (json_quote k @ CHR '':'' # s)" by simp
  then show ?thesis
    using assms by (subst parse_members.simps) (simp only: q(1), simp add: q(2))
qed

lemma read_cache_entry:
  assumes "0 \<le> now"
  shows "read_entry (cache_entry v now) = Some (Some v, Some now)"
proof -
  let ?n = "show_nat (nat now)"
  obtain c s where cs: "?n = c # s" using show_nat_digits by (cases ?n) auto
  have digit: "is_digit c" using digits_no_space [OF cs [symmetric]] by simp
  have ws: "skip_ws (?n @ CHR ''}'' # r) = ?n @ CHR ''}'' # r" for r
    using digit by (auto simp: cs is_digit_def)
  have num: "parse_value (?n @ CHR ''}'' # r) = Some (JNum ?n, CHR ''}'' # r)" for r
  proof -
    have "c \<noteq> CHR 0x22" "c \<noteq> CHR ''[''" "c \<noteq> CHR ''{''" "c \<noteq> CHR ''n''" "c \<noteq> CHR ''t''" "c \<noteq> CHR ''f''"
      using digit by (auto simp: is_digit_def)
    then show ?thesis
      using number_rest_show_nat [of "nat now" r] by (subst parse_value.simps) (simp add: cs)
  qed
  have at: "parse_members (json_quote ''at'' @ CHR '':'' # ?n @ ''}'') = Some ([(''at'', JNum ?n)], [])"
    using parse_member [OF num [of "[]"]] ws [of "[]"] by simp
  let ?rest = "json_quote ''at'' @ CHR '':'' # ?n @ ''}''"
  have ver: "parse_members (json_quote ''version'' @ CHR '':'' # json_quote v @ CHR '','' # ?rest)
      = Some ([(''version'', JStr v), (''at'', JNum ?n)], [])"
    using at parse_member [OF parse_value_quote [of v "CHR '','' # ?rest"], of "''version''"] by simp
  let ?body = "json_quote ''version'' @ CHR '':'' # json_quote v @ CHR '','' # ?rest"
  have body: "skip_ws ?body = ?body" "take 1 ?body \<noteq> ''}''"
    by (rule skip_ws_quote, unfold json_quote_ne, simp)
  have "parse_value (CHR ''{'' # ?body) = Some (JObj [(''version'', JStr v), (''at'', JNum ?n)], [])"
    by (subst parse_value.simps) (use body ver in \<open>simp del: take_append\<close>)
  moreover have "cache_entry v now = CHR ''{'' # ?body"
    using assms by (simp add: cache_entry_def show_int_def)
  ultimately have "json_parse (cache_entry v now) = Some (JObj [(''version'', JStr v), (''at'', JNum ?n)])"
    by (simp add: json_parse_def)
  moreover have "json_int (JNum ?n) = Some now"
    using assms show_nat_digits [of "nat now"] parse_show_nat [of "[]" "nat now"]
    by (simp add: json_int_def list_all_iff)
  ultimately show ?thesis by (simp add: read_entry_def)
qed

section \<open>Properties\<close>

text \<open>
  newer is a strict order on versions: nothing is newer than itself, and newer than
  newer is newer; a version decides by its first part that differs, missing parts being 0.
\<close>

lemma newer_version_order:
  "\<not> is_newer_version v v
   \<and> (is_newer_version u v \<longrightarrow> is_newer_version v w \<longrightarrow> is_newer_version u w)
   \<and> (is_newer_version u v \<longleftrightarrow>
        None \<notin> set (version_parts u) \<and> None \<notin> set (version_parts v) \<and>
        (\<exists>i. part (map the (version_parts v)) i < part (map the (version_parts u)) i \<and>
             (\<forall>j<i. part (map the (version_parts u)) j = part (map the (version_parts v)) j)))"
proof -
  have iff: "is_newer_version a b \<longleftrightarrow> None \<notin> set (version_parts a) \<and> None \<notin> set (version_parts b)
      \<and> later (part (map the (version_parts a))) (part (map the (version_parts b)))" for a b
    by (simp add: is_newer_version_def Let_def newer_parts_later)
  show ?thesis unfolding iff by (auto simp: later_def [of "part _"] intro: later_trans [unfolded later_def])
qed

lemma newer_version_order_witness:
  "is_newer_version ''2.0.1'' ''1.9''"
proof -
  have "is_newer_version ''2.0.1'' ''2.0''" "is_newer_version ''2.0'' ''1.9''" by code_simp+
  then show ?thesis using newer_version_order [where u = "''2.0.1''" and v = "''2.0''" and w = "''1.9''"] by blast
qed

text \<open>
  an update is only offered on iOS, for a version strictly newer than the one
  installed that the reader has not dismissed.
\<close>

lemma update_offer_sound:
  assumes "check_for_store_update ios runtime lookup now st = (Some u, st', asked)"
  shows "ios \<and> (\<exists>installed. runtime = Some installed \<and> is_newer_version (update_version u) installed)
    \<and> st dismiss_key \<noteq> Some (update_version u) \<and> update_url u = store_url"
proof -
  have keep: "fst (snd (store_version lookup now st)) dismiss_key = st dismiss_key"
    by (auto simp: store_version_def fresh_lookup_def cache_key_def dismiss_key_def
        split: option.splits prod.splits)
  show ?thesis
    using assms keep
    by (auto simp: check_for_store_update_def truthy_Some split: if_splits option.splits prod.splits)
qed

lemma update_offer_sound_witness:
  "is_newer_version ''1.4.0'' ''1.3.9''"
proof -
  have "check_for_store_update True (Some ''1.3.9'') (Some ''1.4.0'') 0 Map.empty
      = (Some \<lparr>update_version = ''1.4.0'', update_url = store_url\<rparr>,
         [cache_key \<mapsto> cache_entry ''1.4.0'' 0], True)"
    by (simp add: check_for_store_update_def store_version_def fresh_lookup_def truthy_def
        cache_key_def dismiss_key_def) code_simp
  then show ?thesis using update_offer_sound by fastforce
qed

text \<open>
  Within an hour of a lookup that succeeded the answer comes from the cache: the
  network is not asked again, whatever it would say, and the version is the one found.
\<close>

lemma one_lookup_an_hour:
  assumes "store_version lookup t0 st = (Some v, st1, True)" and "0 \<le> t0" and "t < t0 + cache_ms"
  shows "store_version lookup' t st1 = (Some v, st1, False)"
proof -
  have "st1 cache_key = Some (cache_entry v t0)"
    using assms(1) by (auto simp: store_version_def fresh_lookup_def split: option.splits if_splits prod.splits)
  moreover have "cache_entry v t0 \<noteq> []" by (simp add: cache_entry_def)
  ultimately show ?thesis
    using assms(2,3) by (simp add: store_version_def truthy_def read_cache_entry)
qed

lemma one_lookup_an_hour_witness:
  "store_version None 3599999 [cache_key \<mapsto> cache_entry ''1.4.0'' 0]
     = (Some ''1.4.0'', [cache_key \<mapsto> cache_entry ''1.4.0'' 0], False)"
  by (rule one_lookup_an_hour [of "Some ''1.4.0''" 0 Map.empty])
    (simp_all add: store_version_def fresh_lookup_def truthy_def cache_ms_def)

lemma dismissed_stays_hidden:
  "fst (check_for_store_update ios runtime lookup now (dismiss_store_update v st)) \<noteq> Some \<lparr>update_version = v, update_url = store_url\<rparr>"
proof
  assume "fst (check_for_store_update ios runtime lookup now (dismiss_store_update v st))
      = Some \<lparr>update_version = v, update_url = store_url\<rparr>"
  moreover have "fst (snd (store_version lookup now (dismiss_store_update v st))) dismiss_key = Some v"
    by (auto simp: store_version_def fresh_lookup_def cache_key_def dismiss_key_def
        dismiss_store_update_def split: option.splits prod.splits)
  ultimately show False
    by (auto simp: check_for_store_update_def split: if_splits option.splits prod.splits)
qed

end
