(* ===== verification/Store_Review.thy ===== *)
theory Store_Review
  imports Device_Storage
begin

text \<open>
  When the app may ask for a store review (\<open>apps/app/hooks/useStoreReview.ts\<close>) and how it
  counts its starts (\<open>apps/app/hooks/useAppOpenTracking.ts\<close>). A hook holds the four stored
  values as they were when it was mounted, and decides on those; what it writes goes to the
  storage only. The clock and whether the platform can ask are arguments. \<open>parseInt\<close> of a
  text without digits is NaN, with which every comparison is false.
\<close>

section \<open>State\<close>

definition has_rated_key :: string where "has_rated_key = ''rating_prompt_has_rated''"
definition app_open_count_key :: string where "app_open_count_key = ''rating_prompt_app_open_count''"
definition last_shown_key :: string where "last_shown_key = ''rating_prompt_last_shown''"
definition ask_count_key :: string where "ask_count_key = ''rating_prompt_ask_count''"

lemmas review_keys = has_rated_key_def app_open_count_key_def last_shown_key_def ask_count_key_def

definition minimum_app_opens :: int where "minimum_app_opens = 5"
definition max_prompts_per_year :: int where "max_prompts_per_year = 3"
definition minimum_days_between_prompts :: int where "minimum_days_between_prompts = 120"

lemmas review_limits = minimum_app_opens_def max_prompts_per_year_def minimum_days_between_prompts_def

record review_hook =
  has_rated :: storage_state
  app_open_count :: storage_state
  last_shown :: storage_state
  ask_count :: storage_state
  is_available :: bool

definition mount_review :: "bool \<Rightarrow> device_storage \<Rightarrow> review_hook" where
  "mount_review available d =
     \<lparr>has_rated = load_state has_rated_key d initial_state,
      app_open_count = load_state app_open_count_key d initial_state,
      last_shown = load_state last_shown_key d initial_state,
      ask_count = load_state ask_count_key d initial_state,
      is_available = available\<rparr>"

definition review_loading :: "review_hook \<Rightarrow> bool" where
  "review_loading h \<longleftrightarrow>
     fst (has_rated h) \<or> fst (app_open_count h) \<or> fst (last_shown h) \<or> fst (ask_count h)"

section \<open>Operations\<close>

text \<open>\<open>value ? parseInt(value, 10) : 0\<close>.\<close>

definition stored_count :: "string option \<Rightarrow> int option" where
  "stored_count v = (case truthy v of None \<Rightarrow> Some 0 | Some s \<Rightarrow> parse_int s)"

definition days_since :: "int \<Rightarrow> string \<Rightarrow> int option" where
  "days_since now shown = map_option (\<lambda>t. (now - t) div (1000 * 60 * 60 * 24)) (parse_int shown)"

text \<open>Comparisons with NaN on the left.\<close>

definition nan_ge :: "int option \<Rightarrow> int \<Rightarrow> bool" where
  "nan_ge a b \<longleftrightarrow> (case a of None \<Rightarrow> False | Some x \<Rightarrow> b \<le> x)"

definition nan_less :: "int option \<Rightarrow> int \<Rightarrow> bool" where
  "nan_less a b \<longleftrightarrow> (case a of None \<Rightarrow> False | Some x \<Rightarrow> x < b)"

definition should_show :: "int \<Rightarrow> review_hook \<Rightarrow> bool" where
  "should_show now h \<longleftrightarrow>
     (if review_loading h \<or> \<not> is_available h then False
      else
        let meets_requirements = nan_ge (stored_count (snd (app_open_count h))) minimum_app_opens;
            has_not_rated = (snd (has_rated h) \<noteq> Some ''true'');
            under_max = nan_less (stored_count (snd (ask_count h))) max_prompts_per_year;
            timing = (case truthy (snd (last_shown h)) of
                None \<Rightarrow> True
              | Some s \<Rightarrow> nan_ge (days_since now s) minimum_days_between_prompts)
        in meets_requirements \<and> (has_not_rated \<and> under_max \<and> timing))"

text \<open>\<open>(count + 1).toString()\<close>.\<close>

definition show_number :: "int option \<Rightarrow> string" where
  "show_number n = (case n of None \<Rightarrow> ''NaN'' | Some i \<Rightarrow> show_int i)"

text \<open>Whether the platform's prompt is asked for, and the storage after it.\<close>

definition request_review :: "int \<Rightarrow> review_hook \<Rightarrow> device_storage \<Rightarrow> bool \<times> device_storage" where
  "request_review now h d =
     (if \<not> is_available h then (False, d)
      else if snd (has_rated h) = Some ''true'' then (False, d)
      else
        let count = stored_count (snd (ask_count h)) in
        if nan_ge count max_prompts_per_year then (False, d)
        else if (case truthy (snd (last_shown h)) of
                   None \<Rightarrow> False
                 | Some s \<Rightarrow> nan_less (days_since now s) minimum_days_between_prompts) then (False, d)
        else (True,
              set_storage_item has_rated_key (Some ''true'')
                (set_storage_item ask_count_key (Some (show_number (map_option (\<lambda>n. n + 1) count)))
                  (set_storage_item last_shown_key (Some (show_int now)) d))))"

definition increment_app_open_count :: "device_storage \<Rightarrow> device_storage" where
  "increment_app_open_count d =
     (let current = stored_count (get_storage_item app_open_count_key d)
      in set_storage_item app_open_count_key (Some (show_number (map_option (\<lambda>n. n + 1) current))) d)"

text \<open>The tracking effect counts once for each time it is mounted.\<close>

definition track_open :: "bool \<times> device_storage \<Rightarrow> bool \<times> device_storage" where
  "track_open s = (if \<not> fst s then (True, increment_app_open_count (snd s)) else s)"

section \<open>Lemmas\<close>

lemma works_increment [simp]: "storage_works (increment_app_open_count d) = storage_works d"
  by (simp add: increment_app_open_count_def Let_def)

lemma mounted_values:
  assumes "storage_works d"
  shows "\<not> review_loading (mount_review available d)"
    and "snd (has_rated (mount_review available d)) = get_storage_item has_rated_key d"
    and "snd (app_open_count (mount_review available d)) = get_storage_item app_open_count_key d"
    and "snd (last_shown (mount_review available d)) = get_storage_item last_shown_key d"
    and "snd (ask_count (mount_review available d)) = get_storage_item ask_count_key d"
  using assms by (simp_all add: review_loading_def mount_review_def load_state_loads)

lemma stored_count_show: "stored_count (Some (show_int i)) = parse_int (show_int i)"
  using show_nat_digits by (simp add: stored_count_def truthy_def show_int_def)

lemma increment_count:
  assumes "storage_works d" and "stored_count (get_storage_item app_open_count_key d) = Some n"
    and "0 \<le> n"
  shows "stored_count (get_storage_item app_open_count_key (increment_app_open_count d)) = Some (n + 1)"
  using assms by (simp add: increment_app_open_count_def Let_def get_set show_number_def
      stored_count_show parse_show_int)

section \<open>Properties\<close>

text \<open>
  every start of the app is counted: after \<open>k\<close> starts on a device whose storage works
  and holds nothing yet, the count is \<open>k\<close>.
\<close>

lemma app_opens_counted:
  assumes "storage_works d" and "get_storage_item app_open_count_key d = None"
  shows "stored_count (get_storage_item app_open_count_key ((increment_app_open_count ^^ k) d)) = Some (int k)"
proof -
  have "storage_works ((increment_app_open_count ^^ k) d)
      \<and> stored_count (get_storage_item app_open_count_key ((increment_app_open_count ^^ k) d)) = Some (int k)"
  proof (induction k)
    case (Suc k)
    then show ?case using increment_count [of "(increment_app_open_count ^^ k) d" "int k"] by simp
  qed (use assms in \<open>simp add: stored_count_def truthy_def\<close>)
  then show ?thesis ..
qed

definition new_phone :: device_storage where
  "new_phone = \<lparr>on_platform = Phone, has_local_storage = False, storage_throws = False, kept = Map.empty\<rparr>"

lemma app_opens_counted_witness:
  "stored_count (get_storage_item app_open_count_key ((increment_app_open_count ^^ 7) new_phone)) = Some 7"
  using app_opens_counted [of new_phone 7]
  by (simp add: storage_works_def new_phone_def get_storage_item_def)

text \<open>
  a reader is shown the prompt once at most over the life of an installation: after a
  request that asked, no hook mounted later shows or asks, at whatever time.
\<close>

lemma one_review_only:
  assumes "storage_works d" and "request_review now h d = (True, d')"
  shows "\<not> should_show later (mount_review available d')
     \<and> \<not> fst (request_review later (mount_review available d') d')"
proof -
  have "d' = set_storage_item has_rated_key (Some ''true'')
      (set_storage_item ask_count_key (Some (show_number (map_option (\<lambda>n. n + 1) (stored_count (snd (ask_count h))))))
        (set_storage_item last_shown_key (Some (show_int now)) d))"
    using assms(2) by (auto simp: request_review_def Let_def split: if_splits)
  then have "storage_works d'" "get_storage_item has_rated_key d' = Some ''true''"
    using assms(1) by (simp_all add: get_set)
  then show ?thesis
    using mounted_values [of d' available] by (simp add: should_show_def request_review_def Let_def)
qed

lemma one_review_only_witness:
  "\<not> should_show 99999999999 (mount_review True (snd (request_review 5 (mount_review True new_phone) new_phone)))"
proof -
  have "request_review 5 (mount_review True new_phone) new_phone
      = (True, snd (request_review 5 (mount_review True new_phone) new_phone))"
    by (simp add: request_review_def mount_review_def load_state_def new_phone_def truthy_def
        stored_count_def nan_ge_def max_prompts_per_year_def)
  then show ?thesis
    using one_review_only [of new_phone 5 "mount_review True new_phone"]
    by (simp add: storage_works_def new_phone_def)
qed

text \<open>A hook that stays mounted decides on what it loaded, so it asks again at once.\<close>

lemma mounted_hook_asks_again:
  "request_review now h d = (True, d') \<Longrightarrow> fst (request_review now h d')"
  by (auto simp: request_review_def Let_def split: if_splits)

text \<open>
  the prompt is only shown to a reader who has opened the app five times, has not been
  asked three times or rated, and not within 120 days of the last time.
\<close>

lemma should_show_gates:
  assumes "should_show now h"
  shows "is_available h \<and> \<not> review_loading h \<and> snd (has_rated h) \<noteq> Some ''true''
     \<and> (\<exists>n. stored_count (snd (app_open_count h)) = Some n \<and> 5 \<le> n)
     \<and> (\<exists>n. stored_count (snd (ask_count h)) = Some n \<and> n < 3)
     \<and> (\<forall>s t. snd (last_shown h) = Some s \<longrightarrow> parse_int s = Some t \<longrightarrow> s \<noteq> [] \<longrightarrow> 120 * 86400000 \<le> now - t)
     \<and> fst (request_review now h d)"
proof -
  have div: "120 \<le> x div 86400000 \<longleftrightarrow> 120 * 86400000 \<le> x" for x :: int by linarith
  show ?thesis
    using assms
    by (auto simp: should_show_def request_review_def Let_def nan_ge_def nan_less_def days_since_def
        review_limits truthy_def div split: if_splits option.splits)
qed

lemma should_show_gates_witness:
  "fst (request_review 7 \<lparr>has_rated = (False, None), app_open_count = (False, Some ''5''),
     last_shown = (False, None), ask_count = (False, None), is_available = True\<rparr> new_phone)"
proof -
  have "should_show 7 \<lparr>has_rated = (False, None), app_open_count = (False, Some ''5''),
     last_shown = (False, None), ask_count = (False, None), is_available = True\<rparr>"
    by code_simp
  then show ?thesis using should_show_gates by blast
qed

end
