(* ===== verification/Deck_Hook.thy ===== *)
theory Deck_Hook
  imports Swipe_Deck
begin

text \<open>
  The hook that owns a deck's position, of the web wall and of the app
  (\<open>apps/web/src/components/News/useSwipeCards.ts\<close>, \<open>apps/app/components/News/useSwipeCards.ts\<close>).
  Its state is the index, three refs and, outside any component, the last follow request
  acted on; the saved positions are kept as the map they parse to. A commit is one render
  with its two effects, which see the index of that render. The two hooks differ in two
  points, which are arguments: whether a position is saved under a key at all, and whether
  a jump to an added card is saved.
\<close>

section \<open>State\<close>

record deck_hook =
  dh_index :: int
  active_ref :: "string option"
  prev_items :: "string list"
  last_focus_seq :: nat

record deck_world =
  deck :: deck_hook
  consumed_focus_seq :: nat
  positions :: card_positions
  positions_writable :: bool

type_synonym focus_request = "(string option \<times> nat) option"

section \<open>Operations\<close>

definition persist_active :: "string \<Rightarrow> string \<Rightarrow> deck_world \<Rightarrow> deck_world" where
  "persist_active column cid w =
     (if positions_writable w then w\<lparr>positions := with_position (positions w) column cid\<rparr> else w)"

definition mount_deck ::
  "string option \<Rightarrow> string option \<Rightarrow> string list \<Rightarrow> deck_world \<Rightarrow> deck_world" where
  "mount_deck key preferred ids w =
     (let i = initial_index ids (Option.bind key (positions w)) preferred
      in w\<lparr>deck := \<lparr>dh_index = i, active_ref = elem_at ids i, prev_items = ids,
                   last_focus_seq = consumed_focus_seq w\<rparr>\<rparr>)"

definition move_deck :: "string option \<Rightarrow> string list \<Rightarrow> int \<Rightarrow> deck_world \<Rightarrow> deck_world" where
  "move_deck key ids to w =
     (if ids = [] then w
      else
        let i = wrap_index to (int (length ids));
            w1 = w\<lparr>deck := (deck w)\<lparr>dh_index := i\<rparr>\<rparr>
        in case truthy (elem_at ids i) of
             None \<Rightarrow> w1
           | Some cid \<Rightarrow>
               (let w2 = w1\<lparr>deck := (deck w1)\<lparr>active_ref := Some cid\<rparr>\<rparr>
                in case key of None \<Rightarrow> w2 | Some column \<Rightarrow> persist_active column cid w2))"

definition go_next :: "string option \<Rightarrow> string list \<Rightarrow> deck_world \<Rightarrow> deck_world" where
  "go_next key ids w = move_deck key ids (dh_index (deck w) + 1) w"

definition go_prev :: "string option \<Rightarrow> string list \<Rightarrow> deck_world \<Rightarrow> deck_world" where
  "go_prev key ids w = move_deck key ids (dh_index (deck w) - 1) w"

text \<open>The effect that jumps to a followed card, once, when the card is there.\<close>

definition focus_effect ::
  "string option \<Rightarrow> string list \<Rightarrow> focus_request \<Rightarrow> deck_world \<Rightarrow> deck_world" where
  "focus_effect key ids request w =
     (case request of
        Some (Some cid, s) \<Rightarrow>
          if s = last_focus_seq (deck w) then w
          else
            let i = index_of cid ids
            in if i < 0 then w
               else move_deck key ids i
                      (w\<lparr>deck := (deck w)\<lparr>last_focus_seq := s\<rparr>, consumed_focus_seq := s\<rparr>)
      | _ \<Rightarrow> w)"

text \<open>The effect on a changed list; \<open>idx\<close> is the index of the render it belongs to.\<close>

definition change_effect ::
  "string option \<Rightarrow> string list \<Rightarrow> int \<Rightarrow> deck_world \<Rightarrow> deck_world" where
  "change_effect persist_added ids idx w =
     (let (target, added) = resolve_index_on_change ids (prev_items (deck w)) (active_ref (deck w)) idx;
          w1 = w\<lparr>deck := (deck w)\<lparr>prev_items := ids\<rparr>\<rparr>;
          i = clamp_index target (int (length ids))
      in if i \<noteq> idx then
           let w2 = w1\<lparr>deck := (deck w1)\<lparr>dh_index := i, active_ref := elem_at ids i\<rparr>\<rparr>
           in if added then
                (case (persist_added, elem_at ids i) of
                   (Some column, Some cid) \<Rightarrow> persist_active column cid w2
                 | _ \<Rightarrow> w2)
              else w2
         else w1)"

definition commit_deck ::
  "string option \<Rightarrow> string option \<Rightarrow> string list \<Rightarrow> focus_request \<Rightarrow> deck_world \<Rightarrow> deck_world" where
  "commit_deck key persist_added ids request w =
     change_effect persist_added ids (dh_index (deck w)) (focus_effect key ids request w)"

definition web_commit :: "string \<Rightarrow> string list \<Rightarrow> focus_request \<Rightarrow> deck_world \<Rightarrow> deck_world" where
  "web_commit column = commit_deck (Some column) (Some column)"

definition app_commit :: "string option \<Rightarrow> string list \<Rightarrow> focus_request \<Rightarrow> deck_world \<Rightarrow> deck_world" where
  "app_commit key = commit_deck key None"

definition visible_card :: "string list \<Rightarrow> deck_world \<Rightarrow> string option" where
  "visible_card ids w = elem_at ids (dh_index (deck w))"

definition fresh_world :: deck_world where
  "fresh_world =
     \<lparr>deck = \<lparr>dh_index = 0, active_ref = None, prev_items = [], last_focus_seq = 0\<rparr>,
      consumed_focus_seq = 0, positions = Map.empty, positions_writable = True\<rparr>"

section \<open>The index\<close>

definition index_in :: "string list \<Rightarrow> int \<Rightarrow> bool" where
  "index_in ids i \<longleftrightarrow> 0 \<le> i \<and> (if ids = [] then i = 0 else i < int (length ids))"

lemma persist_deck [simp]: "deck (persist_active column cid w) = deck w"
  by (simp add: persist_active_def)

lemma initial_index_in: "index_in ids (initial_index ids saved preferred)"
  using index_of_range [of _ ids]
  by (cases ids) (auto simp: index_in_def initial_index_def Let_def split: option.splits)

lemma wrap_in: "ids \<noteq> [] \<Longrightarrow> index_in ids (wrap_index to (int (length ids)))"
  by (simp add: index_in_def wrap_index_mod)

lemma clamp_in: "index_in ids (clamp_index to (int (length ids)))"
  by (cases ids) (auto simp: index_in_def clamp_index_def)

lemma clamp_id: "index_in ids i \<Longrightarrow> clamp_index i (int (length ids)) = i"
  by (auto simp: index_in_def clamp_index_def split: if_splits)

lemma index_of_in: "a \<in> set ids \<Longrightarrow> index_in ids (index_of a ids)"
  using index_of_range [of a ids] by (auto simp: index_in_def)

lemma move_deck_index:
  "ids \<noteq> [] \<Longrightarrow> dh_index (deck (move_deck key ids to w)) = wrap_index to (int (length ids))"
  by (simp add: move_deck_def Let_def split: option.splits)

lemma move_deck_active:
  assumes "ids \<noteq> []" and "[] \<notin> set ids"
  shows "active_ref (deck (move_deck key ids to w)) = elem_at ids (wrap_index to (int (length ids)))"
proof -
  obtain c where c: "elem_at ids (wrap_index to (int (length ids))) = Some c"
    using wrap_in [OF assms(1), of to] assms(1) by (auto simp: index_in_def elem_at_def)
  then have "truthy (Some c) = Some c" using assms(2) at_Some_set by (fastforce simp: truthy_def)
  then show ?thesis using assms(1) c by (simp add: move_deck_def Let_def split: option.splits)
qed

lemma move_deck_keeps [simp]:
  "prev_items (deck (move_deck key ids to w)) = prev_items (deck w)"
  "last_focus_seq (deck (move_deck key ids to w)) = last_focus_seq (deck w)"
  by (simp_all add: move_deck_def Let_def split: option.splits)

lemma wrap_index_of: "a \<in> set ids \<Longrightarrow> wrap_index (index_of a ids) (int (length ids)) = index_of a ids"
  using index_of_range [of a ids] by (cases ids) (auto simp: wrap_index_mod)

lemma focus_effect_cases:
  assumes "[] \<notin> set ids"
  obtains (idle) "focus_effect key ids request w = w"
    | (jump) cid s where "request = Some (Some cid, s)" "s \<noteq> last_focus_seq (deck w)" "cid \<in> set ids"
        "dh_index (deck (focus_effect key ids request w)) = index_of cid ids"
        "active_ref (deck (focus_effect key ids request w)) = Some cid"
        "last_focus_seq (deck (focus_effect key ids request w)) = s"
        "prev_items (deck (focus_effect key ids request w)) = prev_items (deck w)"
proof (cases "\<exists>cid s. request = Some (Some cid, s) \<and> s \<noteq> last_focus_seq (deck w) \<and> cid \<in> set ids")
  case True
  then obtain cid s where r: "request = Some (Some cid, s)" "s \<noteq> last_focus_seq (deck w)" "cid \<in> set ids"
    by blast
  then have "ids \<noteq> []" by auto
  then show ?thesis
    using r assms jump [OF r]
    by (simp add: focus_effect_def Let_def move_deck_index move_deck_active wrap_index_of elem_at_index_of)
next
  case False
  then have "focus_effect key ids request w = w"
    by (auto simp: focus_effect_def Let_def split: option.splits prod.splits)
  then show ?thesis by (rule idle)
qed

lemma change_effect_index:
  "dh_index (deck (change_effect p ids idx w))
     = (let i = clamp_index (fst (resolve_index_on_change ids (prev_items (deck w)) (active_ref (deck w)) idx))
                  (int (length ids))
        in if i \<noteq> idx then i else dh_index (deck w))"
  by (auto simp: change_effect_def Let_def split: prod.splits option.splits)

lemma change_effect_active:
  "active_ref (deck (change_effect p ids idx w))
     = (let i = clamp_index (fst (resolve_index_on_change ids (prev_items (deck w)) (active_ref (deck w)) idx))
                  (int (length ids))
        in if i \<noteq> idx then elem_at ids i else active_ref (deck w))"
  by (auto simp: change_effect_def Let_def split: prod.splits option.splits)

lemma change_effect_prev [simp]:
  "prev_items (deck (change_effect p ids idx w)) = ids"
  "last_focus_seq (deck (change_effect p ids idx w)) = last_focus_seq (deck w)"
  by (auto simp: change_effect_def Let_def split: prod.splits option.splits)

text \<open>The ref names the card on top.\<close>

definition anchored :: "string list \<Rightarrow> deck_world \<Rightarrow> bool" where
  "anchored ids w \<longleftrightarrow> index_in ids (dh_index (deck w)) \<and> active_ref (deck w) = visible_card ids w
     \<and> prev_items (deck w) = ids"

lemma mount_anchored: "anchored ids (mount_deck key preferred ids w)"
  by (simp add: anchored_def mount_deck_def Let_def visible_card_def initial_index_in)

lemma index_in_wrap: "ids \<noteq> [] \<Longrightarrow> index_in ids i \<Longrightarrow> i mod int (length ids) = i"
  by (simp add: index_in_def)

lemma steps_mod:
  assumes "ids \<noteq> []" and "index_in ids (dh_index (deck w))"
  shows "dh_index (deck ((go_next key ids ^^ n) w)) = (dh_index (deck w) + int n) mod int (length ids)"
proof (induction n)
  case (Suc n)
  then show ?case
    using assms(1) by (simp add: go_next_def move_deck_index wrap_index_mod mod_add_left_eq algebra_simps)
      (metis add.commute add.left_commute mod_add_left_eq)
qed (simp add: index_in_wrap assms)

section \<open>Properties\<close>

text \<open>
  whatever the list becomes and whatever is followed, after a commit the index points
  into the list (at 0 where it is empty).
\<close>

lemma commit_index_in:
  assumes "[] \<notin> set ids"
  shows "index_in ids (dh_index (deck (commit_deck key p ids request w)))"
proof (cases rule: focus_effect_cases [OF assms, where key = key and request = request and w = w,
      case_names idle jump])
  case idle
  then show ?thesis
    using clamp_in [of ids] by (auto simp: commit_deck_def change_effect_index Let_def)
      (metis)
next
  case (jump cid s)
  then show ?thesis
    using clamp_in [of ids] index_of_in [of cid ids] by (auto simp: commit_deck_def change_effect_index Let_def)
qed

text \<open>
  a follow request is acted on as soon as its card is in the list, once: the card comes
  to the top unless the list gained another one before it, and the same request moves
  nothing afterwards.
\<close>

lemma focus_jumps_once:
  assumes "[] \<notin> set ids" and "cid \<in> set ids" and "s \<noteq> last_focus_seq (deck w)"
    and "find (\<lambda>i. i \<notin> set (prev_items (deck w))) ids \<in> {None, Some cid}"
  shows "visible_card ids (commit_deck key p ids (Some (Some cid, s)) w) = Some cid
     \<and> last_focus_seq (deck (commit_deck key p ids (Some (Some cid, s)) w)) = s
     \<and> focus_effect key ids (Some (Some cid, s)) (commit_deck key p ids (Some (Some cid, s)) w)
         = commit_deck key p ids (Some (Some cid, s)) w"
proof (cases rule: focus_effect_cases [OF assms(1), where key = key and request = "Some (Some cid, s)" and w = w,
      case_names idle jump])
  case idle
  have "last_focus_seq (deck (focus_effect key ids (Some (Some cid, s)) w)) = s"
    using assms by (simp add: focus_effect_def Let_def)
  then show ?thesis using idle assms(3) by simp
next
  case (jump c t)
  then have same: "c = cid" "t = s" by simp_all
  let ?w = "focus_effect key ids (Some (Some cid, s)) w"
  have target: "fst (resolve_index_on_change ids (prev_items (deck ?w)) (active_ref (deck ?w)) i) = index_of cid ids" for i
    using assms(2,4) jump same by (auto simp: resolve_index_on_change_def Let_def)
  have "dh_index (deck (commit_deck key p ids (Some (Some cid, s)) w)) = index_of cid ids"
    using jump(4) same
    by (simp add: commit_deck_def change_effect_index Let_def target clamp_id index_of_in assms(2))
  moreover have "last_focus_seq (deck (commit_deck key p ids (Some (Some cid, s)) w)) = s"
    using jump(6) same by (simp add: commit_deck_def)
  ultimately show ?thesis
    using elem_at_index_of [OF assms(2)] by (simp add: visible_card_def focus_effect_def)
qed

lemma focus_jumps_once_witness:
  "visible_card [''a'', ''b'', ''c''] (web_commit ''wall'' [''a'', ''b'', ''c''] (Some (Some ''c'', 1))
     (mount_deck (Some ''wall'') None [''a'', ''b'', ''c'']
        fresh_world)) = Some ''c''"
  unfolding web_commit_def
  by (rule focus_jumps_once [THEN conjunct1]) (simp_all add: mount_deck_def Let_def initial_index_def fresh_world_def)

lemma commit_index_in_witness:
  "index_in [''x''] (dh_index (deck (app_commit None [''x''] None
     \<lparr>deck = \<lparr>dh_index = 5, active_ref = None, prev_items = [], last_focus_seq = 0\<rparr>,
      consumed_focus_seq = 0, positions = Map.empty, positions_writable = True\<rparr>)))"
  unfolding app_commit_def by (rule commit_index_in) simp

text \<open>Whether a commit acts on a follow request.\<close>

definition acts_on :: "string list \<Rightarrow> focus_request \<Rightarrow> deck_world \<Rightarrow> bool" where
  "acts_on ids request w \<longleftrightarrow>
     (\<exists>cid s. request = Some (Some cid, s) \<and> s \<noteq> last_focus_seq (deck w) \<and> cid \<in> set ids)"

text \<open>
  The runs of a mounted deck in which no render takes the card on top away or puts a new card
  that nobody followed in its very place: moves of the reader, and renders of lists that
  otherwise gain, lose and reorder cards, with or without a follow request.
\<close>

inductive deck_run :: "string option \<Rightarrow> string option \<Rightarrow> string list \<Rightarrow> deck_world \<Rightarrow> bool" for key p where
  mounted: "[] \<notin> set ids \<Longrightarrow> deck_run key p ids (mount_deck key preferred ids w)"
| moved: "deck_run key p ids w \<Longrightarrow> deck_run key p ids (move_deck key ids to w)"
| committed: "deck_run key p old w \<Longrightarrow> [] \<notin> set ids \<Longrightarrow>
    \<forall>a. visible_card old w = Some a \<longrightarrow> a \<in> set ids \<Longrightarrow>
    \<forall>n. find (\<lambda>i. i \<notin> set old) ids = Some n \<longrightarrow>
      index_of n ids \<noteq> dh_index (deck w) \<or> acts_on ids request w \<Longrightarrow>
    deck_run key p ids (commit_deck key p ids request w)"

lemma change_effect_anchored:
  assumes "a \<in> set ids"
    and "fst (resolve_index_on_change ids (prev_items (deck w)) (active_ref (deck w)) idx) = index_of a ids"
    and "index_of a ids = idx \<longrightarrow> index_in ids (dh_index (deck w)) \<and> active_ref (deck w) = visible_card ids w"
  shows "anchored ids (change_effect p ids idx w)"
  using assms clamp_id [OF index_of_in [OF assms(1)]] index_of_in [OF assms(1)]
  by (auto simp: anchored_def visible_card_def change_effect_index change_effect_active Let_def)

lemma find_in: "find P xs = Some n \<Longrightarrow> n \<in> set xs"
  by (auto simp: find_Some_iff)

lemma resolve_new:
  "find (\<lambda>i. i \<notin> set prev) ids = Some n \<Longrightarrow> fst (resolve_index_on_change ids prev act idx) = index_of n ids"
  using index_of_in [of n ids] find_in [of _ ids n] by (simp add: resolve_index_on_change_def Let_def index_in_def)

lemma resolve_old:
  "find (\<lambda>i. i \<notin> set prev) ids = None \<Longrightarrow> a \<in> set ids \<Longrightarrow>
   fst (resolve_index_on_change ids prev (Some a) idx) = index_of a ids"
  by (simp add: resolve_index_on_change_def Let_def)

lemma commit_anchored:
  assumes "anchored old w" and "[] \<notin> set ids" and "\<forall>a. visible_card old w = Some a \<longrightarrow> a \<in> set ids"
    and "\<forall>n. find (\<lambda>i. i \<notin> set old) ids = Some n \<longrightarrow>
      index_of n ids \<noteq> dh_index (deck w) \<or> acts_on ids request w"
  shows "anchored ids (commit_deck key p ids request w)"
proof (cases rule: focus_effect_cases [OF assms(2), where key = key and request = request and w = w,
      case_names idle jump])
  case (jump cid s)
  let ?w = "focus_effect key ids request w"
  have here: "index_in ids (dh_index (deck ?w))" "active_ref (deck ?w) = visible_card ids ?w"
    using jump(3,4,5) index_of_in elem_at_index_of [of cid ids] by (simp_all add: visible_card_def)
  have "\<exists>n \<in> set ids. fst (resolve_index_on_change ids (prev_items (deck ?w)) (active_ref (deck ?w)) (dh_index (deck w)))
      = index_of n ids"
  proof (cases "find (\<lambda>i. i \<notin> set (prev_items (deck ?w))) ids")
    case None
    then show ?thesis using resolve_old [OF None jump(3)] jump(3,5) by auto
  next
    case (Some n)
    then show ?thesis using resolve_new [OF Some] find_in [OF Some] by blast
  qed
  then show ?thesis using change_effect_anchored here unfolding commit_deck_def by blast
next
  case idle
  have prev: "prev_items (deck w) = old" using assms(1) by (simp add: anchored_def)
  show ?thesis
  proof (cases "find (\<lambda>i. i \<notin> set old) ids")
    case (Some n)
    have "index_of n ids \<noteq> dh_index (deck w)"
    proof (rule ccontr)
      assume "\<not> ?thesis"
      then have "acts_on ids request w" using assms(4) Some by simp
      then obtain cid s where r: "request = Some (Some cid, s)" "s \<noteq> last_focus_seq (deck w)" "cid \<in> set ids"
        by (auto simp: acts_on_def)
      then have "last_focus_seq (deck (focus_effect key ids request w)) = s" by (simp add: focus_effect_def Let_def)
      then show False using idle r(2) by simp
    qed
    then show ?thesis
      using change_effect_anchored [OF find_in [OF Some]] resolve_new [OF Some] prev idle unfolding commit_deck_def by simp
  next
    case None
    show ?thesis
    proof (cases "visible_card old w")
      case None': None
      then have "old = []"
        using assms(1) by (cases old) (auto simp: anchored_def index_in_def visible_card_def elem_at_def)
      then have "ids = []" using None by (cases ids) auto
      then show ?thesis
        using None' assms(1) idle \<open>old = []\<close>
        by (simp add: commit_deck_def anchored_def visible_card_def change_effect_index change_effect_active
            index_in_def resolve_index_on_change_def clamp_index_def Let_def elem_at_def)
    next
      case (Some a)
      have a: "a \<in> set ids" using assms(3) Some by simp
      have act: "active_ref (deck w) = Some a" using assms(1) Some by (simp add: anchored_def)
      have "index_of a ids = dh_index (deck w) \<longrightarrow>
          index_in ids (dh_index (deck w)) \<and> active_ref (deck w) = visible_card ids w"
        using act index_of_in [OF a] elem_at_index_of [OF a] by (auto simp: visible_card_def)
      then show ?thesis
        using change_effect_anchored [OF a, of w "dh_index (deck w)"] resolve_old [OF None a] prev act idle
        unfolding commit_deck_def by simp
    qed
  qed
qed

lemma move_anchored: "anchored ids w \<Longrightarrow> [] \<notin> set ids \<Longrightarrow> anchored ids (move_deck key ids to w)"
proof (cases "ids = []")
  case False
  assume "anchored ids w" "[] \<notin> set ids"
  then show ?thesis
    using False by (simp add: anchored_def visible_card_def move_deck_index move_deck_active wrap_in)
qed (simp add: move_deck_def)

lemma deck_run_anchored: "deck_run key p ids w \<Longrightarrow> anchored ids w \<and> [] \<notin> set ids"
proof (induction rule: deck_run.induct)
  case (committed old w ids request)
  then show ?case using commit_anchored by blast
qed (simp_all add: mount_anchored move_anchored)

text \<open>Lists that only lose or reorder cards, one after the other.\<close>

fun shrinking :: "string list \<Rightarrow> string list list \<Rightarrow> bool" where
  "shrinking ids [] \<longleftrightarrow> True"
| "shrinking ids (d # ds) \<longleftrightarrow> set d \<subseteq> set ids \<and> shrinking d ds"

lemma reordered_keeps_top:
  assumes "anchored old w" and "visible_card old w = Some a" and "a \<in> set ids" and "set ids \<subseteq> set old"
  shows "visible_card ids (commit_deck key p ids None w) = Some a
     \<and> anchored ids (commit_deck key p ids None w)"
proof -
  have none: "find (\<lambda>i. i \<notin> set (prev_items (deck w))) ids = None"
    using assms(1,4) by (auto simp: find_None_iff anchored_def)
  have active: "active_ref (deck w) = Some a" using assms(1,2) by (simp add: anchored_def)
  note target = resolve_old [OF none assms(3)]
  let ?c = "commit_deck key p ids None w"
  have i: "dh_index (deck ?c) = index_of a ids"
    using target clamp_id [OF index_of_in [OF assms(3)]] active
    by (simp add: commit_deck_def focus_effect_def change_effect_index Let_def)
  moreover have "active_ref (deck ?c) = Some a"
    using target clamp_id [OF index_of_in [OF assms(3)]] active elem_at_index_of [OF assms(3)]
    by (simp add: commit_deck_def focus_effect_def change_effect_active Let_def)
  moreover have "prev_items (deck ?c) = ids" by (simp add: commit_deck_def)
  ultimately show ?thesis
    using elem_at_index_of [OF assms(3)] index_of_in [OF assms(3)] by (simp add: anchored_def visible_card_def)
qed

text \<open>
  C36: While the list is reordered and loses other cards, any number of times, the card on top stays
  on top, by id, whatever its new place: from the mount of the deck and after any moves, follow
  requests and renders, as long as none of them took the card on top away
  (\<open>removed_card_unanchors\<close>) or put a new card that nobody followed in its very place
  (\<open>added_in_place_unanchors\<close>).
\<close>

lemma deck_stays_anchored:
  assumes "deck_run key p ids w" and "visible_card ids w = Some a" and "\<forall>d \<in> set ds. a \<in> set d"
    and "shrinking ids ds"
  shows "visible_card (last (ids # ds)) (fold (\<lambda>d. commit_deck key p d None) ds w) = Some a"
proof -
  have "anchored old v \<Longrightarrow> visible_card old v = Some a \<Longrightarrow> \<forall>d \<in> set ds. a \<in> set d \<Longrightarrow> shrinking old ds \<Longrightarrow>
      visible_card (last (old # ds)) (fold (\<lambda>d. commit_deck key p d None) ds v) = Some a" for old v
  proof (induction ds arbitrary: old v)
    case (Cons d ds)
    have "visible_card d (commit_deck key p d None v) = Some a \<and> anchored d (commit_deck key p d None v)"
      using reordered_keeps_top [OF Cons.prems(1,2)] Cons.prems(3,4) by simp
    then show ?case using Cons.IH [of d "commit_deck key p d None v"] Cons.prems(3,4) by simp
  qed simp
  then show ?thesis using deck_run_anchored [OF assms(1)] assms(2-4) by blast
qed

lemma deck_stays_anchored_witness:
  "visible_card [''c''] (fold (\<lambda>d. commit_deck None None d None) [[''c'', ''b''], [''c'']]
     (move_deck None [''a'', ''b'', ''c''] 2 (mount_deck None (Some ''b'') [''a'', ''b'', ''c''] fresh_world))) = Some ''c''"
proof -
  let ?w = "move_deck None [''a'', ''b'', ''c''] 2 (mount_deck None (Some ''b'') [''a'', ''b'', ''c''] fresh_world)"
  have run: "deck_run None None [''a'', ''b'', ''c''] ?w"
    by (rule deck_run.moved, rule deck_run.mounted) simp
  have "visible_card [''a'', ''b'', ''c''] ?w = Some ''c''" by code_simp
  then show ?thesis using deck_stays_anchored [OF run, of "''c''" "[[''c'', ''b''], [''c'']]"] by simp
qed

text \<open>
  A card that joins the deck in the very place of the card on top is shown without becoming the
  anchor, so a later reordering brings the old card back.
\<close>

lemma added_in_place_unanchors:
  "let w = commit_deck None None [''n'', ''a'', ''b''] None (mount_deck None None [''a'', ''b''] fresh_world);
       w' = commit_deck None None [''b'', ''n'', ''a''] None w
   in visible_card [''n'', ''a'', ''b''] w = Some ''n'' \<and> active_ref (deck w) = Some ''a'' \<and>
      visible_card [''b'', ''n'', ''a''] w' = Some ''a''"
  by code_simp

text \<open>
  but when the card on top is removed, the next card takes its place without becoming
  the anchor, so a later reordering of the same cards puts another card on top.
\<close>

lemma removed_card_unanchors:
  assumes "distinct [a, b, c]" and "b \<noteq> []"
  shows "let w = commit_deck key p [a, c] None (mount_deck None (Some b) [a, b, c] fresh_world);
             w' = commit_deck key p [c, a] None w
         in visible_card [a, c] w = Some c \<and> visible_card [c, a] w' = Some a
            \<and> active_ref (deck w) = Some b"
proof -
  let ?at = "\<lambda>i prev. fresh_world\<lparr>deck := \<lparr>dh_index = i, active_ref = Some b, prev_items = prev, last_focus_seq = 0\<rparr>\<rparr>"
  have mount: "mount_deck None (Some b) [a, b, c] fresh_world = ?at 1 [a, b, c]"
    using assms by (simp add: mount_deck_def Let_def initial_index_def truthy_def fresh_world_def elem_at_def)
  have removed: "commit_deck key p [a, c] None (?at 1 [a, b, c]) = ?at 1 [a, c]"
    using assms by (auto simp: commit_deck_def focus_effect_def change_effect_def resolve_index_on_change_def Let_def
        clamp_index_def fresh_world_def)
  have reordered: "commit_deck key p [c, a] None (?at 1 [a, c]) = ?at 1 [c, a]"
    using assms by (auto simp: commit_deck_def focus_effect_def change_effect_def resolve_index_on_change_def Let_def
        clamp_index_def fresh_world_def)
  show ?thesis by (simp add: Let_def mount removed reordered visible_card_def elem_at_def)
qed

lemma removed_card_unanchors_witness:
  "visible_card [''c'', ''a''] (commit_deck None None [''c'', ''a''] None
     (commit_deck None None [''a'', ''c''] None
       (mount_deck None (Some ''b'') [''a'', ''b'', ''c''] fresh_world))) = Some ''a''"
  using removed_card_unanchors [of "''a''" "''b''" "''c''" None None] by (simp add: Let_def)

text \<open>
  going on as many times as there are cards comes back to the card one started from,
  and each step brings the card a reload of the column would open on.
\<close>

lemma deck_loops_and_resumes:
  assumes "ids \<noteq> []" and "[] \<notin> set ids" and "index_in ids (dh_index (deck w))" and "positions_writable w"
  shows "visible_card ids ((go_next key ids ^^ length ids) w) = visible_card ids w
     \<and> visible_card ids (mount_deck (Some column) None ids (go_next (Some column) ids w))
         = visible_card ids (go_next (Some column) ids w)"
proof -
  let ?n = "go_next (Some column) ids w"
  let ?i = "wrap_index (dh_index (deck w) + 1) (int (length ids))"
  obtain c where c: "elem_at ids ?i = Some c"
    using wrap_in [OF assms(1)] assms(1) by (auto simp: index_in_def elem_at_def)
  then have in_ids: "c \<in> set ids" by (rule at_Some_set)
  then have "truthy (Some c) = Some c" using assms(2) by (auto simp: truthy_def)
  then have n: "dh_index (deck ?n) = ?i" "positions ?n column = Some c"
    using assms(1,4) c
    by (simp_all add: go_next_def move_deck_def Let_def persist_active_def with_position_def)
  have "visible_card ids (mount_deck (Some column) None ids ?n) = Some c"
    using in_ids n(2) elem_at_index_of [OF in_ids] index_of_range [of c ids]
    by (simp add: visible_card_def mount_deck_def Let_def initial_index_def truthy_def max_def)
  then show ?thesis
    using c n(1) steps_mod [OF assms(1,3), where key = key and n = "length ids"] assms(3) index_in_wrap [OF assms(1,3)]
    by (simp add: visible_card_def)
qed

lemma deck_loops_and_resumes_witness:
  "visible_card [''a'', ''b''] (mount_deck (Some ''wall'') None [''a'', ''b'']
     (go_next (Some ''wall'') [''a'', ''b''] fresh_world))
   = visible_card [''a'', ''b''] (go_next (Some ''wall'') [''a'', ''b''] fresh_world)"
  by (rule deck_loops_and_resumes [THEN conjunct2])
    (simp_all add: fresh_world_def index_in_def)

end
