(* ===== verification/Deck_View.thy ===== *)
theory Deck_View
  imports Deck_Hook
begin

text \<open>
  What the deck components draw: the window of mounted cards, the arrow keys and the row of
  pips (\<open>apps/web/src/components/News/NewsCards.tsx\<close>,
  \<open>apps/app/components/News/NewsCards.tsx\<close>).
\<close>

section \<open>The window of cards\<close>

definition window_ahead :: int where
  "window_ahead = 1"

definition window_offsets :: "int \<Rightarrow> int list" where
  "window_offsets len =
     (if len > 2 then [-1, 0, window_ahead] else if len = 2 then [0, window_ahead] else [0])"

definition windowed :: "string list \<Rightarrow> int \<Rightarrow> (string option \<times> int) list" where
  "windowed ids i =
     (let len = int (length ids)
      in map (\<lambda>depth. (elem_at ids (js_rem (js_rem (i + depth) len + len) len), depth))
           (window_offsets len))"

text \<open>The arrow keys of the web deck; the direction of the script is a flag.\<close>

datatype swipe_move = Next | Prev

definition key_move :: "bool \<Rightarrow> string \<Rightarrow> swipe_move option" where
  "key_move rtl key =
     (if key \<noteq> ''ArrowLeft'' \<and> key \<noteq> ''ArrowRight'' then None
      else if (if rtl then key = ''ArrowLeft'' else key = ''ArrowRight'') then Some Next else Some Prev)"

definition on_swipe :: "string option \<Rightarrow> string list \<Rightarrow> swipe_move \<Rightarrow> deck_world \<Rightarrow> deck_world" where
  "on_swipe column ids m w = (case m of Next \<Rightarrow> go_next column ids w | Prev \<Rightarrow> go_prev column ids w)"

section \<open>The pips\<close>

definition max_pips :: int where
  "max_pips = 7"

definition pip_window :: "int \<Rightarrow> int \<Rightarrow> int list" where
  "pip_window position tot =
     (let count = min max_pips tot;
          half = count div 2;
          stop = min tot (max 1 (position - half) + count - 1);
          start = max 1 (stop - count + 1)
      in map (\<lambda>i. start + int i) [0..<nat (stop - start + 1)])"

lemma pip_arith:
  fixes c tot position h :: int
  assumes "1 \<le> c" and "c \<le> tot" and "h = c div 2" and "1 \<le> position" and "position \<le> tot"
  shows "min tot (max 1 (position - h) + c - 1) - c + 1 \<le> position
    \<and> position \<le> min tot (max 1 (position - h) + c - 1)"
proof -
  have h: "2 * h \<le> c" "c \<le> 2 * h + 1" unfolding assms(3) by linarith+
  show ?thesis
  proof (cases "1 \<le> position - h")
    case True
    then have "max 1 (position - h) = position - h" by simp
    then show ?thesis using assms(1,2,4,5) h by (simp add: min_def)
  next
    case False
    then have "max 1 (position - h) = 1" by simp
    then show ?thesis using False assms(1,2,4,5) h by (simp add: min_def)
  qed
qed

section \<open>Properties\<close>

text \<open>
  the window mounts up to three cards, the current one among them at depth 0, each at
  most once, each the card its depth away around the deck.
\<close>

lemma window_sound:
  assumes "distinct ids" and "ids \<noteq> []" and "index_in ids i"
  shows "(elem_at ids i, 0) \<in> set (windowed ids i)
     \<and> distinct (map fst (windowed ids i))
     \<and> length (windowed ids i) = min 3 (length ids)
     \<and> (\<forall>(c, d) \<in> set (windowed ids i). c = elem_at ids ((i + d) mod int (length ids)) \<and> c \<noteq> None)"
proof -
  let ?n = "int (length ids)"
  have n: "0 < ?n" using assms(2) by simp
  have i: "0 \<le> i" "i < ?n" using assms(2,3) by (auto simp: index_in_def)
  have w: "windowed ids i = map (\<lambda>d. (elem_at ids ((i + d) mod ?n), d)) (window_offsets ?n)"
    by (simp add: windowed_def Let_def js_rem_mod [OF n])
  have some: "elem_at ids (x mod ?n) = Some (ids ! nat (x mod ?n))" for x
    using n pos_mod_bound [OF n, of x] pos_mod_sign [OF n, of x] by (simp add: elem_at_def)
  have inj: "elem_at ids (x mod ?n) = elem_at ids (y mod ?n) \<longleftrightarrow> x mod ?n = y mod ?n" for x y
    unfolding some using assms(1) n pos_mod_bound [OF n] pos_mod_sign [OF n]
    by (simp add: nth_eq_iff_index_eq nat_less_iff nat_eq_iff)
  have shift: "(i + x) mod ?n = (i + y) mod ?n \<longleftrightarrow> ?n dvd x - y" for x y
    by (simp add: mod_eq_dvd_iff)
  have off: "distinct (map (\<lambda>d. (i + d) mod ?n) (window_offsets ?n))"
  proof -
    have "\<not> ?n dvd 1" if "2 \<le> ?n" using that zdvd_imp_le [of ?n 1] by auto
    moreover have "\<not> ?n dvd 2" if "2 < ?n" using that zdvd_imp_le [of ?n 2] by auto
    ultimately show ?thesis
      by (auto simp: window_offsets_def window_ahead_def shift mod_eq_dvd_iff
          dvd_minus_iff [of _ 1, simplified] dvd_minus_iff [of _ 2, simplified])
  qed
  have "distinct (map fst (windowed ids i))"
    unfolding w using off by (simp add: o_def distinct_map inj_on_def inj)
  moreover have "i mod ?n = i" "elem_at ids i = Some (ids ! nat i)" "1 \<le> length ids"
    using i assms(2) by (simp_all add: elem_at_def Suc_le_eq)
  moreover have "length (windowed ids i) = min 3 (length ids)"
    using \<open>1 \<le> length ids\<close> by (auto simp: w window_offsets_def)
  ultimately show ?thesis
    unfolding w using n some
    by (auto simp: window_offsets_def window_ahead_def image_iff)
qed

lemma window_sound_witness:
  "distinct (map fst (windowed [''a'', ''b'', ''c''] 0))"
  using window_sound [of "[''a'', ''b'', ''c'']" 0] by (simp add: index_in_def)

text \<open>
  the pips are consecutive positions of the deck with the current one among them, and
  as many as there are cards, seven at most.
\<close>

lemma pips_sound:
  assumes "1 \<le> position" and "position \<le> tot"
  shows "\<exists>a. pip_window position tot = [a..a + min 7 tot - 1]
     \<and> 1 \<le> a \<and> a + min 7 tot - 1 \<le> tot
     \<and> position \<in> set (pip_window position tot)
     \<and> length (pip_window position tot) = nat (min 7 tot)"
proof -
  let ?c = "min 7 tot"
  define stop where "stop = min tot (max 1 (position - ?c div 2) + ?c - 1)"
  define start where "start = max 1 (stop - ?c + 1)"
  have upto: "map (\<lambda>i. a + int i) [0..<nat (b - a + 1)] = [a..b]" for a b :: int
  proof (rule nth_equalityI)
    fix k assume "k < length (map (\<lambda>i. a + int i) [0..<nat (b - a + 1)])"
    then show "map (\<lambda>i. a + int i) [0..<nat (b - a + 1)] ! k = [a..b] ! k" by simp
  qed simp
  have pips: "pip_window position tot = [start..stop]"
    unfolding upto [symmetric] by (simp add: pip_window_def max_pips_def Let_def stop_def start_def)
  have start: "start = stop - ?c + 1"
    using assms by (auto simp: start_def stop_def)
  then have "stop = start + ?c - 1" by simp
  moreover have "1 \<le> start" "stop \<le> tot" by (simp_all add: start_def stop_def)
  moreover have "start \<le> position \<and> position \<le> stop"
    unfolding start stop_def using pip_arith [of ?c tot position "?c div 2"] assms by auto
  moreover have "length [start..stop] = nat ?c" using start by simp
  ultimately show ?thesis unfolding pips by auto
qed

lemma pips_sound_witness: "length (pip_window 40 60) = 7 \<and> 40 \<in> set (pip_window 40 60)"
  using pips_sound [of 40 60] by auto

end
