(* ===== verification/Wall_Page.thy ===== *)
theory Wall_Page
  imports Share_Link Wall_Theme Storage
begin

text \<open>
  The look of the web wall: the store of the edition and the look
  (\<open>apps/web/src/utils/wallTheme.ts\<close>), and of \<open>components/News/NewsWall.tsx\<close> the mark that
  walks through the editions and the effect that keeps the page's address in step. The
  state is the page's: its storage, which may throw, the two attributes of the document, the
  tone and the hash of the address. Listeners are a counter; the delay of the effect and the
  library that sets the tone's class are left out.
\<close>

section \<open>The store\<close>

record wall_page =
  page_storage :: storage
  doc_theme :: "string option"
  doc_look :: "string option"
  is_dark :: bool
  page_hash :: string
  page_emits :: nat

definition stored_item :: "pref_name \<Rightarrow> wall_page \<Rightarrow> string option" where
  "stored_item k p = (case get_item (page_storage p) (pref_key k) of Inl _ \<Rightarrow> None | Inr v \<Rightarrow> v)"

definition try_store :: "pref_name \<Rightarrow> string \<Rightarrow> wall_page \<Rightarrow> wall_page" where
  "try_store k v p =
     (case set_item (page_storage p) (pref_key k) v of
        Inl _ \<Rightarrow> p | Inr st \<Rightarrow> p\<lparr>page_storage := st\<rparr>)"

definition get_wall_theme :: "wall_page \<Rightarrow> wall_edition" where
  "get_wall_theme p = normalize_edition (stored_item KeyEdition p)"

definition get_wall_look :: "wall_page \<Rightarrow> wall_look" where
  "get_wall_look p = normalize_look (stored_item KeyLook p)"

definition set_wall_theme :: "string \<Rightarrow> wall_page \<Rightarrow> wall_page" where
  "set_wall_theme i p =
     (let theme = normalize_edition (Some i);
          p1 = try_store KeyEdition (ed_id theme) (p\<lparr>doc_theme := Some (ed_id theme)\<rparr>)
      in p1\<lparr>page_emits := page_emits p1 + 1\<rparr>)"

definition set_wall_look :: "string \<Rightarrow> wall_page \<Rightarrow> wall_page" where
  "set_wall_look i p =
     (let look = normalize_look (Some i);
          p1 = try_store KeyLook (look_id look) (p\<lparr>doc_look := Some (look_id look)\<rparr>)
      in p1\<lparr>page_emits := page_emits p1 + 1\<rparr>)"

section \<open>The mark\<close>

definition next_edition :: "wall_page \<Rightarrow> wall_page" where
  "next_edition p =
     (if \<not> is_dark p then p\<lparr>is_dark := True\<rparr>
      else
        let ids = map ed_id wall_editions;
            pos = index_of (ed_id (get_wall_theme p)) ids;
            i = or_else (elem_at ids ((pos + 1) mod int (length ids))) (hd ids)
        in (set_wall_theme i p)\<lparr>is_dark := False\<rparr>)"

section \<open>The address\<close>

definition is_plain :: "wall_edition \<Rightarrow> wall_look \<Rightarrow> bool" where
  "is_plain e l \<longleftrightarrow> ed_id e = default_edition_id \<and> look_id l = plain_look_id"

text \<open>The hash that carries the edition and the look, empty when both are the default.\<close>

definition look_input :: "wall_edition \<Rightarrow> wall_look \<Rightarrow> share_link_input" where
  "look_input e l =
     \<lparr>in_path = None, in_lead = None, in_cards = None, in_story = None, in_edition = Some (ed_id e),
      in_look = (if look_id l = plain_look_id then None else Some (look_id l)),
      in_topic = None, in_at = None\<rparr>"

definition look_hash :: "wall_edition \<Rightarrow> wall_look \<Rightarrow> string" where
  "look_hash e l =
     (let built = (if is_plain e l then []
                   else case split_on CHR ''#'' (build_share_link (look_input e l)) of
                          _ # h # _ \<Rightarrow> h | _ \<Rightarrow> [])
      in if built \<noteq> [] then CHR ''#'' # built else [])"

definition sync_address :: "bool \<Rightarrow> wall_page \<Rightarrow> wall_page" where
  "sync_address restoring p =
     (if restoring then p
      else
        let current = parse_share_link None (Some (page_hash p));
            next_hash = look_hash (get_wall_theme p) (get_wall_look p)
        in if sl_cards current \<noteq> [] \<or> sl_story current \<noteq> None then p
           else if page_hash p = next_hash then p
           else if next_hash = [] \<and> \<not> starts_with ''#v='' (page_hash p) then p
           else p\<lparr>page_hash := next_hash\<rparr>)"

section \<open>Lemmas\<close>

definition storage_fine :: "wall_page \<Rightarrow> bool" where
  "storage_fine p \<longleftrightarrow>
     \<not> get_fails (page_storage p) (pref_key KeyEdition) \<and>
     (\<forall>v. \<not> set_fails (page_storage p) (pref_key KeyEdition) v)"

lemma normalize_member: "normalize_edition i \<in> set wall_editions"
  using find_edition_in
  by (auto simp: normalize_edition_def Let_def or_else_def default_edition_eq wall_editions_def
      split: option.splits)

lemma normalize_id: "e \<in> set wall_editions \<Longrightarrow> normalize_edition (Some (ed_id e)) = e"
  using find_edition_of current_not_legacy edition_id_ne
  by (simp add: normalize_edition_def truthy_def)

lemma get_set_theme:
  assumes "storage_fine p"
  shows "get_wall_theme (set_wall_theme i p) = normalize_edition (Some i)"
    and "storage_fine (set_wall_theme i p)"
  using assms normalize_id [OF normalize_member]
  by (simp_all add: get_wall_theme_def set_wall_theme_def try_store_def stored_item_def set_item_def
      get_item_def storage_fine_def Let_def)

text \<open>The ten faces, numbered: an edition's light tone, then its dark one.\<close>

definition face :: "wall_page \<Rightarrow> string \<times> bool" where
  "face p = (ed_id (get_wall_theme p), is_dark p)"

definition faces :: "(string \<times> bool) list" where
  "faces = concat (map (\<lambda>e. [(ed_id e, False), (ed_id e, True)]) wall_editions)"

lemma faces_eq:
  "faces = [(''midnight'', False), (''midnight'', True), (''tide'', False), (''tide'', True),
     (''neon'', False), (''neon'', True), (''phosphor'', False), (''phosphor'', True),
     (''dune'', False), (''dune'', True)]"
  by (simp add: faces_def wall_editions_def)

lemma length_faces [simp]: "length faces = 10"
  by (simp add: faces_eq)

lemma face_in: "face p \<in> set faces"
  using normalize_member [of "stored_item KeyEdition p"]
  by (auto simp: face_def get_wall_theme_def faces_def)

text \<open>A face and the one a press leads to, as the table orders them.\<close>

definition next_face :: "string \<times> bool \<Rightarrow> string \<times> bool" where
  "next_face f = faces ! ((nat (index_of f faces) + 1) mod 10)"

lemma next_face_table:
  "\<forall>e \<in> set wall_editions.
     next_face (ed_id e, False) = (ed_id e, True) \<and>
     next_face (ed_id e, True)
       = (or_else (elem_at (map ed_id wall_editions) ((index_of (ed_id e) (map ed_id wall_editions) + 1) mod 5))
            (hd (map ed_id wall_editions)), False)"
  by code_simp

lemma elem_at_in: "elem_at (map ed_id wall_editions) i = Some s \<Longrightarrow> \<exists>e \<in> set wall_editions. s = ed_id e"
  by (auto dest!: at_Some_set)

lemma press_face:
  assumes "storage_fine p"
  shows "face (next_edition p) = next_face (face p) \<and> storage_fine (next_edition p)"
proof (cases "is_dark p")
  case False
  then have "get_wall_theme (next_edition p) = get_wall_theme p"
    by (simp add: next_edition_def get_wall_theme_def stored_item_def)
  then show ?thesis
    using False assms next_face_table normalize_member [of "stored_item KeyEdition p"]
    by (simp add: face_def next_edition_def get_wall_theme_def storage_fine_def)
next
  case True
  let ?ids = "map ed_id wall_editions"
  let ?i = "or_else (elem_at ?ids ((index_of (ed_id (get_wall_theme p)) ?ids + 1) mod 5)) (hd ?ids)"
  have len: "length wall_editions = 5" by (simp add: wall_editions_def)
  have pressed: "next_edition p = (set_wall_theme ?i p)\<lparr>is_dark := False\<rparr>"
    using True by (simp add: next_edition_def Let_def len)
  have "\<exists>e \<in> set wall_editions. ?i = ed_id e"
    using elem_at_in by (cases "elem_at ?ids ((index_of (ed_id (get_wall_theme p)) ?ids + 1) mod 5)")
      (auto simp: wall_editions_def)
  then have "ed_id (normalize_edition (Some ?i)) = ?i" using normalize_id by auto
  moreover have "get_wall_theme (q\<lparr>is_dark := b\<rparr>) = get_wall_theme q" for q b
    by (simp add: get_wall_theme_def stored_item_def)
  ultimately show ?thesis
    using True pressed get_set_theme [OF assms] next_face_table normalize_member [of "stored_item KeyEdition p"]
    by (simp add: face_def storage_fine_def) (simp add: get_wall_theme_def)
qed

lemma faces_step: "k < 10 \<Longrightarrow> next_face (faces ! k) = faces ! ((k + 1) mod 10)"
proof -
  have "\<forall>k \<in> set [0..<10]. next_face (faces ! k) = faces ! ((k + 1) mod 10)" by code_simp
  then show "k < 10 \<Longrightarrow> ?thesis" by simp
qed

lemma presses:
  assumes "storage_fine p" and "face p = faces ! j" and "j < 10"
  shows "face ((next_edition ^^ k) p) = faces ! ((j + k) mod 10) \<and> storage_fine ((next_edition ^^ k) p)"
proof (induction k)
  case (Suc k)
  then show ?case
    using press_face [of "(next_edition ^^ k) p"] faces_step [of "(j + k) mod 10"]
    by (simp add: mod_Suc_eq)
qed (use assms in simp)

section \<open>Properties\<close>

text \<open>
  pressing the mark ten times shows every edition in both its tones and comes back to
  the face one started from, where the storage works.
\<close>

lemma mark_shows_every_face:
  assumes "storage_fine p"
  shows "(\<lambda>k. face ((next_edition ^^ k) p)) ` {..<10} = (\<lambda>e. ed_id e) ` set wall_editions \<times> UNIV
     \<and> face ((next_edition ^^ 10) p) = face p"
proof -
  obtain j where j: "j < 10" "face p = faces ! j"
    using face_in [of p] by (auto simp: in_set_conv_nth)
  have all: "(\<lambda>m. faces ! m) ` {..<10} = set faces" by (auto simp: set_conv_nth)
  have shift: "(\<lambda>k. (j + k) mod 10) ` {..<10} = {..<10}"
  proof
    show "{..<10} \<subseteq> (\<lambda>k. (j + k) mod 10) ` {..<10}"
    proof
      fix m :: nat assume "m \<in> {..<10}"
      then have "m = (j + (m + 10 - j) mod 10) mod 10" using j(1) by (simp add: mod_add_right_eq)
      then show "m \<in> (\<lambda>k. (j + k) mod 10) ` {..<10}" by (rule image_eqI) simp
    qed
  qed auto
  have "(\<lambda>k. face ((next_edition ^^ k) p)) ` {..<10} = (\<lambda>m. faces ! m) ` (\<lambda>k. (j + k) mod 10) ` {..<10}"
    using presses [OF assms j(2,1)] by (auto simp: image_image)
  also have "\<dots> = set faces" unfolding shift by (rule all)
  also have "\<dots> = (\<lambda>e. ed_id e) ` set wall_editions \<times> UNIV"
    by (auto simp: faces_def)
  finally show ?thesis using presses [OF assms j(2,1), of 10] j by simp
qed

definition new_page :: wall_page where
  "new_page =
     \<lparr>page_storage = \<lparr>items = Map.empty, get_fails = (\<lambda>_. False), set_fails = (\<lambda>_ _. False),
                       remove_fails = (\<lambda>_. False)\<rparr>,
      doc_theme = None, doc_look = None, is_dark = False, page_hash = [], page_emits = 0\<rparr>"

lemma mark_shows_every_face_witness: "face ((next_edition ^^ 10) new_page) = face new_page"
  using mark_shows_every_face [of new_page] by (simp add: storage_fine_def new_page_def)

text \<open>
  Where nothing can be stored the snapshot stays the default edition, so the mark only ever
  reaches the one after it: the document shows two editions, the address and a shared link
  the default.
\<close>

definition storage_blocked :: "wall_page \<Rightarrow> bool" where
  "storage_blocked p \<longleftrightarrow>
     get_fails (page_storage p) (pref_key KeyEdition) \<and> (\<forall>v. set_fails (page_storage p) (pref_key KeyEdition) v)"

lemma blocked_press:
  assumes "storage_blocked p" and "doc_theme p \<in> {None, Some ''tide''}"
  shows "storage_blocked (next_edition p) \<and> doc_theme (next_edition p) \<in> {None, Some ''tide''}"
proof (cases "is_dark p")
  case True
  have "stored_item KeyEdition p = None" using assms(1) by (simp add: stored_item_def get_item_def storage_blocked_def)
  then have "ed_id (get_wall_theme p) = ''midnight''"
    by (simp add: get_wall_theme_def normalize_edition_def truthy_def find_edition_def default_edition_def
        wall_editions_def default_edition_id_def)
  then have "next_edition p = (set_wall_theme ''tide'' p)\<lparr>is_dark := False\<rparr>"
    using True by (simp add: next_edition_def Let_def edition_ids elem_at_def wall_editions_def)
  moreover have "ed_id (normalize_edition (Some ''tide'')) = ''tide''" by code_simp
  ultimately show ?thesis
    using assms(1) by (simp add: set_wall_theme_def try_store_def set_item_def storage_blocked_def Let_def)
qed (use assms in \<open>simp add: next_edition_def storage_blocked_def\<close>)

lemma blocked_storage_sticks:
  assumes "storage_blocked p" and "doc_theme p = None"
  shows "doc_theme ((next_edition ^^ k) p) \<in> {None, Some ''tide''}"
proof -
  have "storage_blocked ((next_edition ^^ k) p) \<and> doc_theme ((next_edition ^^ k) p) \<in> {None, Some ''tide''}"
  proof (induction k)
    case (Suc k)
    then show ?case using blocked_press [of "(next_edition ^^ k) p"] by simp
  qed (use assms in simp)
  then show ?thesis ..
qed

text \<open>What the hash of a face parses to, for every edition and look there is.\<close>

lemma look_inputs:
  "\<forall>e \<in> set wall_editions. \<forall>l \<in> set wall_looks.
     valid_slug (ed_id e) \<and> (look_id l \<noteq> plain_look_id \<longrightarrow> valid_slug (look_id l)) \<and>
     normalize_look (Some (look_id l)) = l \<and> (look_id l = plain_look_id \<longrightarrow> normalize_look None = l) \<and>
     ed_id e \<noteq> [] \<and> look_id l \<noteq> []"
  by code_simp

text \<open>The hash is one part of the link: it has no second mark of its own.\<close>

lemma look_hash_eq:
  assumes "e \<in> set wall_editions" and "l \<in> set wall_looks" and "\<not> is_plain e l"
  shows "look_hash e l = share_hash (look_input e l) \<and> look_hash e l \<noteq> []"
proof -
  have ids: "truthy (Some (ed_id e)) = Some (ed_id e)" "truthy (Some (look_id l)) = Some (look_id l)"
    using look_inputs assms(1,2) by (auto simp: truthy_def)
  have one: "show_nat share_link_version = ''1''"
    by code_simp
  obtain b where b: "share_hash (look_input e l) = CHR ''#'' # b" "b \<noteq> []" "CHR ''#'' \<notin> set b"
    using encode_no_separator(4) ids
    by (cases "look_id l = plain_look_id")
      (auto simp: share_hash_def look_input_def text_param_def param_def Let_def truthy_def one)
  have link: "build_share_link (look_input e l) = CHR ''/'' # CHR ''#'' # b"
    using b by (simp add: build_share_link_def share_query_def look_input_def truthy_def)
  have "split_on CHR ''#'' (build_share_link (look_input e l)) = [''/'', b]"
    unfolding link using b(3) by (simp add: split_on_plain)
  then show ?thesis using assms(3) b by (simp add: look_hash_def)
qed

lemma look_hash_parses:
  assumes "e \<in> set wall_editions" and "l \<in> set wall_looks" and "\<not> is_plain e l"
  shows "look_hash e l \<noteq> []
    \<and> parse_share_link None (Some (look_hash e l)) = restored (look_input e l)"
proof -
  let ?inp = "look_input e l"
  have valid: "valid_input ?inp"
    using look_inputs assms(1,2) by (auto simp: valid_input_def look_input_def)
  have "url_search (build_share_link ?inp) = share_query ?inp \<and> url_hash (build_share_link ?inp) = share_hash ?inp"
    unfolding build_share_link_def
    by (rule url_parts [OF _ share_query_chars share_query_split share_hash_split]) (simp add: look_input_def)
  moreover have "share_query ?inp = []" by (simp add: share_query_def look_input_def truthy_def)
  ultimately have "parse_share_link (Some []) (Some (share_hash ?inp)) = restored ?inp"
    using parse_built_link [OF valid] by simp
  moreover have "parse_share_link None h = parse_share_link (Some []) h" for h
    by (simp add: parse_share_link_def parse_params_def truthy_def)
  ultimately show ?thesis using look_hash_eq [OF assms] by metis
qed

lemma look_member: "normalize_look i \<in> set wall_looks"
  by (auto simp: normalize_look_def or_else_def wall_looks_def find_Some_iff split: option.splits)

text \<open>
  the address is left alone while it carries a sender's cards or story; otherwise it
  ends up carrying the edition and the look on show, as a link of that face parses, or
  nothing of either where both are the default; and a second run of the effect changes
  nothing.
\<close>

lemma address_follows_look:
  "(sl_cards (parse_share_link None (Some (page_hash p))) \<noteq> [] \<or>
    sl_story (parse_share_link None (Some (page_hash p))) \<noteq> None \<longrightarrow> sync_address restoring p = p)
   \<and> (sl_cards (parse_share_link None (Some (page_hash p))) = [] \<longrightarrow>
      sl_story (parse_share_link None (Some (page_hash p))) = None \<longrightarrow>
      \<not> is_plain (get_wall_theme p) (get_wall_look p) \<longrightarrow>
      (let st = parse_share_link None (Some (page_hash (sync_address False p)))
       in sl_edition st = Some (ed_id (get_wall_theme p)) \<and>
          normalize_look (sl_look st) = get_wall_look p \<and> sl_rejected st = []))
   \<and> sync_address restoring (sync_address restoring p) = sync_address restoring p"
proof -
  let ?e = "get_wall_theme p" and ?l = "get_wall_look p"
  have mem: "?e \<in> set wall_editions" "?l \<in> set wall_looks"
    by (simp_all add: get_wall_theme_def get_wall_look_def normalize_member look_member)
  have same: "get_wall_theme (p\<lparr>page_hash := h\<rparr>) = ?e" "get_wall_look (p\<lparr>page_hash := h\<rparr>) = ?l" for h
    by (simp_all add: get_wall_theme_def get_wall_look_def stored_item_def)
  have idem: "sync_address restoring (sync_address restoring p) = sync_address restoring p"
    by (simp add: sync_address_def Let_def same)
  have look: "normalize_look (Some (look_id ?l)) = ?l" "look_id ?l = plain_look_id \<Longrightarrow> normalize_look None = ?l"
    using look_inputs mem by blast+
  have "let st = parse_share_link None (Some (page_hash (sync_address False p)))
      in sl_edition st = Some (ed_id ?e) \<and> normalize_look (sl_look st) = ?l \<and> sl_rejected st = []"
    if "sl_cards (parse_share_link None (Some (page_hash p))) = []"
      "sl_story (parse_share_link None (Some (page_hash p))) = None" "\<not> is_plain ?e ?l"
  proof -
    have "page_hash (sync_address False p) = look_hash ?e ?l"
      using that look_hash_parses [OF mem that(3)] by (simp add: sync_address_def Let_def)
    then show ?thesis
      using look_hash_parses [OF mem that(3)] look by (simp add: Let_def restored_def look_input_def)
  qed
  moreover have "sync_address restoring p = p"
    if "sl_cards (parse_share_link None (Some (page_hash p))) \<noteq> [] \<or>
      sl_story (parse_share_link None (Some (page_hash p))) \<noteq> None"
    using that by (simp add: sync_address_def Let_def)
  ultimately show ?thesis using idem by blast
qed

lemma address_follows_look_witness:
  "sl_edition (parse_share_link None (Some (page_hash (sync_address False
     (set_wall_theme ''neon'' new_page))))) = Some ''neon''"
proof -
  let ?p = "set_wall_theme ''neon'' new_page"
  have e: "ed_id (get_wall_theme ?p) = ''neon''" "page_hash ?p = []"
    by code_simp+
  have st: "sl_cards (parse_share_link None (Some [])) = []" "sl_story (parse_share_link None (Some [])) = None"
    by code_simp+
  have "\<not> is_plain (get_wall_theme ?p) (get_wall_look ?p)"
    by (simp add: is_plain_def e default_edition_id_def)
  then show ?thesis
    using address_follows_look [of ?p False] e st by (simp add: Let_def)
qed

end
