(* ===== verification/Wall.thy ===== *)
theory Wall
  imports Card Deck Stories Wall_Page
begin

text \<open>
  The web wall (\<open>apps/web/src/components/News/NewsWall.tsx\<close>, \<open>Card.tsx\<close>): the deck it
  composes, how it ranks the deck by coverage read once, the cards it can paint, when it is
  still loading, and what an inbound share link does to it. The query cache and the answers
  of the queries are arguments; drawing is left out.
\<close>

section \<open>Coverage, read once\<close>

text \<open>A cached card: whether it is a feed and the outlet count of every row.\<close>

record cached_card =
  is_feed :: bool
  row_counts :: "int option list"

definition best_coverage :: "cached_card option \<Rightarrow> int" where
  "best_coverage cached =
     (case cached of
        None \<Rightarrow> 0
      | Some c \<Rightarrow> if is_feed c then foldl (\<lambda>m n. max m (or_else n 0)) 0 (row_counts c) else 0)"

definition coverage_of ::
  "(string \<Rightarrow> cached_card option) \<Rightarrow> string \<Rightarrow> (string \<rightharpoonup> int) \<Rightarrow> int \<times> (string \<rightharpoonup> int)" where
  "coverage_of cache i seen_cov =
     (case seen_cov i of
        Some n \<Rightarrow> (n, seen_cov)
      | None \<Rightarrow> (best_coverage (cache i), seen_cov(i \<mapsto> best_coverage (cache i))))"

definition pinned :: "string option \<Rightarrow> string \<Rightarrow> bool" where
  "pinned shared i \<longleftrightarrow> Some i = shared \<or> is_country_card_id i"

text \<open>The pinned head stays, the rest goes by coverage; the map of what is seen_cov grows.\<close>

definition rank_deck ::
  "string list \<Rightarrow> string option \<Rightarrow> (string \<Rightarrow> cached_card option) \<Rightarrow> (string \<rightharpoonup> int)
   \<Rightarrow> string list \<times> (string \<rightharpoonup> int)" where
  "rank_deck deck_ids shared cache seen_cov =
     (let head = takeWhile (pinned shared) deck_ids;
          rest = dropWhile (pinned shared) deck_ids;
          seen_cov' = fold (\<lambda>i m. snd (coverage_of cache i m)) rest seen_cov
      in (head @ rank_by_coverage rest seen_cov', seen_cov'))"

section \<open>The deck and its cards\<close>

record wall_input =
  focused_ids :: "string list"
  hidden_cards :: "string list"
  cards_cleared :: bool
  default_ids :: "string list option"
  shared_card_id :: "string option"
  shared_deck :: "string list"
  visitor_country :: "string option"

definition viewing_shared :: "wall_input \<Rightarrow> bool" where
  "viewing_shared inp \<longleftrightarrow> shared_deck inp \<noteq> []"

definition seeding :: "wall_input \<Rightarrow> bool" where
  "seeding inp \<longleftrightarrow> \<not> viewing_shared inp \<and> focused_ids inp = [] \<and> \<not> cards_cleared inp"

definition wall_deck_input :: "wall_input \<Rightarrow> reader_deck_input" where
  "wall_deck_input inp =
     \<lparr>followed = (if viewing_shared inp then shared_deck inp else focused_ids inp),
      seed = Some (or_else (default_ids inp) []),
      cleared = Some (if viewing_shared inp then True else cards_cleared inp),
      hidden_ids = Some (if viewing_shared inp then [] else hidden_cards inp),
      dropped = None,
      lead_card = shared_card_id inp,
      country_card = map_option country_card_id (truthy (visitor_country inp)),
      cap_override = None\<rparr>"

definition wall_ids ::
  "wall_input \<Rightarrow> (string \<Rightarrow> cached_card option) \<Rightarrow> (string \<rightharpoonup> int) \<Rightarrow> string list \<times> (string \<rightharpoonup> int)" where
  "wall_ids inp cache seen_cov =
     rank_deck (compose_deck (wall_deck_input inp)) (shared_card_id inp) cache seen_cov"

record source_meta =
  meta_id :: string
  meta_type :: "string option"
  meta_redirect :: "string option"
  meta_column :: "string option"

record card_descriptor =
  cd_id :: string
  cd_kind :: card_kind
  cd_meta :: source_meta

text \<open>The kinds are total here: the weather strip and games are refused before.\<close>

definition descriptor_for :: "string \<Rightarrow> source_meta option \<Rightarrow> card_descriptor option" where
  "descriptor_for i m =
     (if i = weather_strip_id then None
      else case m of
        None \<Rightarrow> None
      | Some meta \<Rightarrow>
          if meta_type meta = Some ''game'' then None
          else (case kind_for_id i (meta_type meta) of
                  Inr k \<Rightarrow> Some \<lparr>cd_id = i, cd_kind = k, cd_meta = meta\<rparr>
                | Inl _ \<Rightarrow> None))"

definition meta_map :: "source_meta list \<Rightarrow> string \<rightharpoonup> source_meta" where
  "meta_map metas = map_of (rev (map (\<lambda>m. (meta_id m, m)) metas))"

definition visible_cards ::
  "string list \<Rightarrow> source_meta list option \<Rightarrow> (string \<Rightarrow> bool) \<Rightarrow> string option \<Rightarrow> card_descriptor list" where
  "visible_cards ids metas is_failed shared =
     filter (\<lambda>c. Some (cd_id c) = shared \<or> truthy (meta_redirect (cd_meta c)) = None \<and> \<not> is_failed (cd_id c))
       (List.map_filter (\<lambda>i. descriptor_for i (meta_map (or_else metas []) i)) ids)"

definition wall_loading :: "wall_input \<Rightarrow> string list \<Rightarrow> bool \<Rightarrow> bool \<Rightarrow> bool" where
  "wall_loading inp ids default_loading metas_loading \<longleftrightarrow>
     seeding inp \<and> default_loading \<or> ids \<noteq> [] \<and> metas_loading"

datatype wall_screen = Spinner | Empty_Hint | Cards_Shown "card_descriptor list"

definition wall_screen ::
  "wall_input \<Rightarrow> string list \<Rightarrow> card_descriptor list \<Rightarrow> bool \<Rightarrow> bool \<Rightarrow> wall_screen" where
  "wall_screen inp ids cards default_loading metas_loading =
     (if wall_loading inp ids default_loading metas_loading then Spinner
      else if cards = [] then Empty_Hint else Cards_Shown cards)"

text \<open>The card the deck opens on.\<close>

definition initial_active ::
  "card_descriptor list \<Rightarrow> string option \<Rightarrow> string option \<Rightarrow> string option" where
  "initial_active cards shared topic =
     (case truthy shared of
        Some s \<Rightarrow> map_option cd_id (find (\<lambda>c. cd_id c = s) cards)
      | None \<Rightarrow>
          (case truthy topic of
             Some t \<Rightarrow> map_option cd_id (find (\<lambda>c. meta_column (cd_meta c) = Some t) cards)
           | None \<Rightarrow> None))"

definition shows_shared_caption :: "wall_input \<Rightarrow> string \<Rightarrow> bool" where
  "shows_shared_caption inp i \<longleftrightarrow> Some i = shared_card_id inp \<or> viewing_shared inp"

section \<open>Arrival over a share link\<close>

record wall_arrival =
  arrival_page :: wall_page
  arrival_shared :: "share_link_state option"

definition web_handlers :: "restore_lane \<Rightarrow> wall_arrival restore_handler" where
  "web_handlers lane st w =
     (case lane of
        LaneTheme \<Rightarrow>
          (let p1 = (case truthy (sl_edition st) of None \<Rightarrow> arrival_page w
                     | Some e \<Rightarrow> set_wall_theme e (arrival_page w));
               p2 = (case truthy (sl_look st) of None \<Rightarrow> p1 | Some l \<Rightarrow> set_wall_look l p1)
           in (Some True, w\<lparr>arrival_page := p2\<rparr>))
      | LaneCards \<Rightarrow> (Some (sl_cards st \<noteq> [] \<or> sl_lead st \<noteq> None), w\<lparr>arrival_shared := Some st\<rparr>)
      | LaneStory \<Rightarrow> (Some True, w))"

definition arrive :: "string \<Rightarrow> string \<Rightarrow> wall_arrival \<Rightarrow> wall_arrival" where
  "arrive search hash w =
     (let st = parse_share_link (Some search) (Some hash)
      in if \<not> is_share_link st then w
         else snd (restore_from_link (\<lambda>_ _. False) web_handlers st w))"

text \<open>
  The wall on a page that was opened at an address: the deck and the card of the link over what
  the reader has.
\<close>

definition opened_wall :: "string \<Rightarrow> wall_arrival \<Rightarrow> wall_input \<Rightarrow> wall_input" where
  "opened_wall search w own =
     own\<lparr>shared_deck := (case arrival_shared w of None \<Rightarrow> [] | Some st \<Rightarrow> sl_cards st),
         shared_card_id := map_of (parse_params (Some search)) lead_card_query\<rparr>"

section \<open>Lemmas\<close>

lemma coverage_known:
  "fold (\<lambda>i m. snd (coverage_of cache i m)) ids seen_cov i
     = (case seen_cov i of Some n \<Rightarrow> Some n
        | None \<Rightarrow> if i \<in> set ids then Some (best_coverage (cache i)) else None)"
  by (induction ids arbitrary: seen_cov) (auto simp: coverage_of_def split: option.splits)

lemma rank_deck_parts:
  "fst (rank_deck ids shared cache seen_cov)
     = takeWhile (pinned shared) ids
       @ rank_by_coverage (dropWhile (pinned shared) ids) (snd (rank_deck ids shared cache seen_cov))"
  by (simp add: rank_deck_def Let_def)

lemma mset_rank_deck: "mset (fst (rank_deck ids shared cache seen_cov)) = mset ids"
  by (simp add: rank_deck_parts rank_by_coverage_eq) (metis mset_append takeWhile_dropWhile_id)

lemma set_rank_deck [simp]: "set (fst (rank_deck ids shared cache seen_cov)) = set ids"
  using mset_rank_deck [of ids shared cache seen_cov] by (metis set_mset_mset)

lemma distinct_rank_deck [simp]: "distinct (fst (rank_deck ids shared cache seen_cov)) = distinct ids"
  using mset_rank_deck [of ids shared cache seen_cov] by (rule mset_eq_imp_distinct_iff)

lemma descriptor_id: "descriptor_for i m = Some c \<Longrightarrow> cd_id c = i \<and> m = Some (cd_meta c)
    \<and> i \<noteq> weather_strip_id \<and> meta_type (cd_meta c) \<noteq> Some ''game''"
  by (auto simp: descriptor_for_def split: if_splits option.splits sum.splits)

lemma visible_ids:
  "map cd_id (visible_cards ids metas is_failed shared)
     = filter (\<lambda>i. \<exists>c. descriptor_for i (meta_map (or_else metas []) i) = Some c \<and>
         (Some i = shared \<or> truthy (meta_redirect (cd_meta c)) = None \<and> \<not> is_failed i)) ids"
proof (induction ids)
  case (Cons i ids)
  then show ?case
    using descriptor_id [of i "meta_map (or_else metas []) i"]
    by (cases "descriptor_for i (meta_map (or_else metas []) i)")
      (auto simp: visible_cards_def List.map_filter_simps)
qed (simp add: visible_cards_def List.map_filter_simps)

lemma compose_distinct: "distinct (compose_deck inp)"
  by (simp add: compose_deck_def)

lemma compose_admissible:
  "i \<in> set (compose_deck inp) \<Longrightarrow> i \<noteq> weather_strip_id \<Longrightarrow>
   Some i = lead_card inp \<or> i \<notin> set (or_else (hidden_ids inp) [])"
  by (auto simp: compose_deck_def reader_admissible dest!: finalize_deck_admissible)

section \<open>Properties\<close>

text \<open>
  C30: What the wall shows is part of its deck, each card once, never the strip; every card has
  metadata and is no game, and unless it is the shared one it is neither an alias nor failing.
  While the reader's own deck is on show it is not hidden either; the deck of a share link is
  shown as it was sent, cards the reader hid among it.
\<close>

lemma wall_shows_sound:
  "distinct (map cd_id (visible_cards (fst (wall_ids inp cache seen_cov)) metas is_failed (shared_card_id inp)))
   \<and> (\<forall>c \<in> set (visible_cards (fst (wall_ids inp cache seen_cov)) metas is_failed (shared_card_id inp)).
        cd_id c \<in> set (compose_deck (wall_deck_input inp)) \<and> cd_id c \<noteq> weather_strip_id \<and>
        meta_type (cd_meta c) \<noteq> Some ''game'' \<and>
        (Some (cd_id c) = shared_card_id inp \<or>
         truthy (meta_redirect (cd_meta c)) = None \<and> \<not> is_failed (cd_id c) \<and>
         (viewing_shared inp \<or> cd_id c \<notin> set (hidden_cards inp))))"
proof -
  have d: "distinct (map cd_id (visible_cards (fst (wall_ids inp cache seen_cov)) metas is_failed (shared_card_id inp)))"
    by (simp add: visible_ids wall_ids_def compose_distinct)
  have "cd_id c \<in> set (compose_deck (wall_deck_input inp)) \<and> cd_id c \<noteq> weather_strip_id \<and>
      meta_type (cd_meta c) \<noteq> Some ''game'' \<and>
      (Some (cd_id c) = shared_card_id inp \<or>
         truthy (meta_redirect (cd_meta c)) = None \<and> \<not> is_failed (cd_id c))"
    if "c \<in> set (visible_cards (fst (wall_ids inp cache seen_cov)) metas is_failed (shared_card_id inp))" for c
    using that by (auto simp: visible_cards_def List.map_filter_def wall_ids_def dest: descriptor_id)
  moreover have "Some i = shared_card_id inp \<or> viewing_shared inp \<or> i \<notin> set (hidden_cards inp)"
    if "i \<in> set (compose_deck (wall_deck_input inp))" "i \<noteq> weather_strip_id" for i
    using compose_admissible [OF that] by (auto simp: wall_deck_input_def)
  ultimately show ?thesis using d by blast
qed

text \<open>
  ranking moves no pinned card from the head of the deck and orders the rest by
  coverage, widest first, cards that tie keeping their order; and since coverage is read once, what the
  cache holds later changes nothing.
\<close>

lemma ranking_frozen:
  "let (ids', seen_cov') = rank_deck ids shared cache seen_cov;
       head = takeWhile (pinned shared) ids; rest = drop (length head) ids';
       cov = (\<lambda>i. or_else (seen_cov' i) 0)
   in take (length head) ids' = head \<and> mset ids' = mset ids
      \<and> sorted_wrt (\<lambda>a b. cov b \<le> cov a) rest
      \<and> (\<forall>n. filter (\<lambda>i. cov i = n) rest = filter (\<lambda>i. cov i = n) (drop (length head) ids))
      \<and> rank_deck ids shared later_cache seen_cov' = (ids', seen_cov')"
proof -
  let ?rest = "dropWhile (pinned shared) ids"
  define seen_cov' where "seen_cov' = snd (rank_deck ids shared cache seen_cov)"
  have drop: "drop (length (takeWhile (pinned shared) ids)) ids = ?rest"
    by (simp add: dropWhile_eq_drop)
  have "fold (\<lambda>i m. snd (coverage_of later_cache i m)) ?rest seen_cov' = seen_cov'"
    by (rule ext) (auto simp: coverage_known seen_cov'_def rank_deck_def Let_def split: option.splits)
  then have again: "rank_deck ids shared later_cache seen_cov' = (fst (rank_deck ids shared cache seen_cov), seen_cov')"
    by (simp add: rank_deck_def [of ids shared later_cache] Let_def)
      (simp add: rank_deck_def Let_def seen_cov'_def rank_by_coverage_eq)
  have rest: "drop (length (takeWhile (pinned shared) ids)) (fst (rank_deck ids shared cache seen_cov))
      = js_sort (by_key_desc (\<lambda>i. or_else (seen_cov' i) 0)) ?rest"
    by (simp add: rank_deck_parts rank_by_coverage_eq seen_cov'_def)
  show ?thesis
    using again mset_rank_deck [of ids shared cache seen_cov] rest
      sorted_by_key_desc [of "\<lambda>i. or_else (seen_cov' i) 0" ?rest]
    by (simp add: split_def Let_def seen_cov'_def [symmetric] drop by_key_desc_stable)
      (simp add: rank_deck_def Let_def seen_cov'_def rank_by_coverage_eq)
qed

lemma ranking_frozen_witness:
  "fst (rank_deck [''a'', ''gnews-ie'', ''b'', ''c''] (Some ''a'')
     (\<lambda>i. if i = ''c'' then Some \<lparr>is_feed = True, row_counts = [Some 3, None]\<rparr> else None) Map.empty)
   = [''a'', ''gnews-ie'', ''c'', ''b'']"
proof -
  let ?cache = "\<lambda>i. if i = ''c'' then Some \<lparr>is_feed = True, row_counts = [Some 3, None]\<rparr> else None"
  have "rank_deck [''a'', ''gnews-ie'', ''b'', ''c''] (Some ''a'') (\<lambda>_. None)
      (snd (rank_deck [''a'', ''gnews-ie'', ''b'', ''c''] (Some ''a'') ?cache Map.empty))
      = rank_deck [''a'', ''gnews-ie'', ''b'', ''c''] (Some ''a'') ?cache Map.empty"
    using ranking_frozen [of "[''a'', ''gnews-ie'', ''b'', ''c'']" "Some ''a''" ?cache Map.empty "\<lambda>_. None"]
    by (simp add: split_def Let_def)
  moreover have "fst (rank_deck [''a'', ''gnews-ie'', ''b'', ''c''] (Some ''a'') ?cache Map.empty)
      = [''a'', ''gnews-ie'', ''c'', ''b'']"
    by code_simp
  ultimately show ?thesis by simp
qed

lemma reader_first_sub:
  "set (reader_first i) \<subseteq> set (reader_base i) \<union> set_option (truthy (lead_card i))"
  "set_option (truthy (lead_card i)) \<subseteq> set (reader_first i)"
  by (auto simp: reader_first_def split: option.splits if_splits)

text \<open>The deck a shared link gives: the sender's cards and the card that leads.\<close>

lemma shared_deck_cards:
  assumes "viewing_shared inp" and "length (shared_deck inp) < deck_cap" and "distinct (shared_deck inp)"
    and "weather_strip_id \<notin> set (shared_deck inp)" and "shared_card_id inp = None \<or> shared_card_id inp = Some s \<and> s \<noteq> [] \<and> s \<noteq> weather_strip_id"
  shows "set (compose_deck (wall_deck_input inp)) = set (shared_deck inp) \<union> set_option (shared_card_id inp)"
proof -
  let ?in = "wall_deck_input inp"
  have base: "reader_base ?in = shared_deck inp"
    using assms(1) by (simp add: reader_base_def wall_deck_input_def viewing_shared_def)
  have adm: "admissible (reader_filters ?in) i" for i
    using assms(1) by (simp add: reader_admissible wall_deck_input_def)
  have first: "set (reader_first ?in) \<subseteq> set (shared_deck inp) \<union> set_option (shared_card_id inp)"
    "set_option (shared_card_id inp) \<subseteq> set (reader_first ?in)"
    using reader_first_sub [of ?in] assms(5)
    by (auto simp: base) (auto simp: wall_deck_input_def truthy_def)
  let ?all = "uniq (reader_first ?in @ shared_deck inp)"
  have no_strip: "\<forall>c \<in> set ?all. c \<noteq> weather_strip_id"
    using first(1) assms(4,5) by (auto simp del: set_append) (auto)
  have all: "set ?all = set (shared_deck inp) \<union> set_option (shared_card_id inp)" using first by auto
  have len: "length ?all \<le> deck_cap"
  proof -
    have "length ?all = card (set ?all)" by (rule distinct_card [symmetric]) simp
    also have "\<dots> \<le> card (set (shared_deck inp)) + card (set_option (shared_card_id inp))"
      unfolding all by (rule card_Un_le)
    also have "\<dots> \<le> deck_cap"
      using assms(2,3) by (cases "shared_card_id inp") (simp_all add: distinct_card)
    finally show ?thesis .
  qed
  have cap: "cap_override ?in = None" by (simp add: wall_deck_input_def)
  have "weather_strip_id \<notin> set (reader_first ?in @ shared_deck inp)" using no_strip by (metis set_uniq)
  moreover have "filter (\<lambda>c. c \<noteq> weather_strip_id \<and> admissible (reader_filters ?in) c) ?all = ?all"
    using no_strip adm by (simp add: filter_id_conv del: set_uniq)
  ultimately have "compose_deck ?in = ?all"
    unfolding compose_deck_def finalize_deck_eq base cap or_else_simps using len by simp
  then show ?thesis using all by simp
qed

lemma arrive_restored:
  assumes "valid_input inp" and "or_else (in_cards inp) [] \<noteq> []"
  shows "arrival_shared (arrive (url_search (build_share_link inp)) (url_hash (build_share_link inp)) w)
           = Some (restored inp)
     \<and> arrival_page (arrive (url_search (build_share_link inp)) (url_hash (build_share_link inp)) w)
         = (case truthy (in_look inp) of None \<Rightarrow> id | Some l \<Rightarrow> set_wall_look l)
             ((case truthy (in_edition inp) of None \<Rightarrow> id | Some e \<Rightarrow> set_wall_theme e) (arrival_page w))"
proof -
  have st: "parse_share_link (Some (url_search (build_share_link inp))) (Some (url_hash (build_share_link inp)))
      = restored inp"
    by (rule parse_built_link [OF assms(1)])
  have cards: "sl_cards (restored inp) \<noteq> []" using assms(2) by (simp add: restored_def)
  have none: "truthy None = None" by (simp add: truthy_def)
  show ?thesis
    using cards none unfolding arrive_def st Let_def
    by (simp add: is_share_link_def restore_from_link_def run_lane_def web_handlers_def Let_def split_def)
      (simp add: restored_def split: option.split)
qed

text \<open>
  C7: Opening a valid share link that carries an edition and between one and 119 cards, the
  weather strip not among them, on a page whose storage works: the wall takes on the sender's
  edition, its deck is exactly the cards of the sender with the leading one, and on the screen
  is every one of them, once, that the wall has a descriptor for (metadata, no game) and that is
  neither an alias nor failing, the leading card even then. Nothing the recipient follows, hid
  or is seeded with changes this.
\<close>

lemma share_opens_on_web:
  fixes inp w own cache seen_cov metas is_failed
  defines "link \<equiv> build_share_link inp"
  defines "w' \<equiv> arrive (url_search link) (url_hash link) w"
  defines "wall \<equiv> opened_wall (url_search link) w' own"
  assumes "valid_input inp" and "or_else (in_cards inp) [] \<noteq> []" and "length (or_else (in_cards inp) []) < 120"
    and "weather_strip_id \<notin> set (or_else (in_cards inp) [])" and "in_lead inp \<noteq> Some weather_strip_id"
    and "in_edition inp = Some e" and "storage_fine (arrival_page w)"
  shows "get_wall_theme (arrival_page w') = normalize_edition (Some e)
     \<and> set (fst (wall_ids wall cache seen_cov)) = set (or_else (in_cards inp) []) \<union> set_option (in_lead inp)
     \<and> (let shown = map cd_id (visible_cards (fst (wall_ids wall cache seen_cov)) metas is_failed (shared_card_id wall))
        in distinct shown \<and>
           set shown = {i \<in> set (or_else (in_cards inp) []) \<union> set_option (in_lead inp).
             \<exists>c. descriptor_for i (meta_map (or_else metas []) i) = Some c \<and>
               (Some i = in_lead inp \<or> truthy (meta_redirect (cd_meta c)) = None \<and> \<not> is_failed i)})"
proof -
  note restored = arrive_restored [OF assms(4,5), of w, folded link_def, folded w'_def]
  have lead: "in_lead inp = Some l \<Longrightarrow> l \<noteq> []" for l
    using assms(4) valid_card_text by (simp add: valid_input_def)
  have e: "truthy (in_edition inp) = Some e"
    using assms(4,9) valid_slug_text by (auto simp: valid_input_def truthy_def)
  have look: "get_wall_theme (set_wall_look l p) = get_wall_theme p" for l p
    by (simp add: set_wall_look_def get_wall_theme_def stored_item_def try_store_def get_item_def set_item_def Let_def)
  have "arrival_page w' = (case truthy (in_look inp) of None \<Rightarrow> id | Some l \<Rightarrow> set_wall_look l)
      (set_wall_theme e (arrival_page w))"
    using restored e by simp
  then have "get_wall_theme (arrival_page w') = get_wall_theme (set_wall_theme e (arrival_page w))"
    by (cases "truthy (in_look inp)") (simp_all add: look)
  then have theme: "get_wall_theme (arrival_page w') = normalize_edition (Some e)"
    using get_set_theme(1) [OF assms(10)] by simp
  have deck: "shared_deck wall = or_else (in_cards inp) []"
    using restored by (simp add: wall_def opened_wall_def restored_def)
  have card: "shared_card_id wall = in_lead inp"
    unfolding wall_def opened_wall_def link_def by (simp add: search_of_link [OF assms(4)] lead_query [OF assms(4)])
  have "set (compose_deck (wall_deck_input wall)) = set (shared_deck wall) \<union> set_option (shared_card_id wall)"
  proof (rule shared_deck_cards)
    show "length (shared_deck wall) < deck_cap" "distinct (shared_deck wall)" "viewing_shared wall"
      "weather_strip_id \<notin> set (shared_deck wall)"
      using assms(4,5,6,7) by (simp_all add: deck deck_cap_def viewing_shared_def valid_input_def)
    show "shared_card_id wall = None \<or>
        shared_card_id wall = Some (the (in_lead inp)) \<and> the (in_lead inp) \<noteq> [] \<and> the (in_lead inp) \<noteq> weather_strip_id"
      using assms(8) lead by (cases "in_lead inp") (auto simp: card)
  qed
  then have ids: "set (fst (wall_ids wall cache seen_cov)) = set (or_else (in_cards inp) []) \<union> set_option (in_lead inp)"
    by (simp add: wall_ids_def deck card)
  have "distinct (fst (wall_ids wall cache seen_cov))" by (simp add: wall_ids_def compose_distinct)
  then show ?thesis unfolding Let_def visible_ids card set_filter ids using theme by simp
qed

definition own_wall :: wall_input where
  "own_wall =
     \<lparr>focused_ids = [''cnn''], hidden_cards = [''bbc''], cards_cleared = False, default_ids = None,
      shared_card_id = None, shared_deck = [], visitor_country = Some ''IE''\<rparr>"

definition plain_meta :: "string \<Rightarrow> source_meta" where
  "plain_meta i = \<lparr>meta_id = i, meta_type = None, meta_redirect = None, meta_column = None\<rparr>"

definition sample_opened :: wall_input where
  "sample_opened =
     (let link = build_share_link sample_link;
          w = arrive (url_search link) (url_hash link) \<lparr>arrival_page = new_page, arrival_shared = None\<rparr>
      in opened_wall (url_search link) w own_wall)"

lemma share_opens_on_web_witness:
  "set (map cd_id (visible_cards (fst (wall_ids sample_opened (\<lambda>_. None) Map.empty))
      (Some [plain_meta ''cnn'', plain_meta ''bbc'']) (\<lambda>i. i = ''bbc'') (shared_card_id sample_opened))) = {''bbc''}"
proof -
  have cards: "or_else (in_cards sample_link) [] = [''bbc'', ''country:GB'']" "in_lead sample_link = Some ''bbc''"
    "in_edition sample_link = Some ''tide''"
    by (simp_all add: sample_link_def)
  have desc: "descriptor_for ''bbc'' (meta_map [plain_meta ''cnn'', plain_meta ''bbc''] ''bbc'') \<noteq> None"
    "meta_map [plain_meta ''cnn'', plain_meta ''bbc''] ''country:GB'' = None"
    by (simp_all add: meta_map_def plain_meta_def descriptor_for_def weather_strip_id_def kind_for_id_def kind_for_type_def)
  have none: "descriptor_for ''country:GB'' None = None" by (simp add: descriptor_for_def)
  have "set (map cd_id (visible_cards (fst (wall_ids sample_opened (\<lambda>_. None) Map.empty))
      (Some [plain_meta ''cnn'', plain_meta ''bbc'']) (\<lambda>i. i = ''bbc'') (shared_card_id sample_opened)))
    = {i \<in> {''bbc'', ''country:GB''}. \<exists>c. descriptor_for i (meta_map [plain_meta ''cnn'', plain_meta ''bbc''] i) = Some c \<and>
        (Some i = Some ''bbc'' \<or> truthy (meta_redirect (cd_meta c)) = None \<and> i \<noteq> ''bbc'')}"
    using share_opens_on_web [OF sample_link_valid, of "''tide''" "\<lparr>arrival_page = new_page, arrival_shared = None\<rparr>"
        own_wall "\<lambda>_. None" Map.empty "Some [plain_meta ''cnn'', plain_meta ''bbc'']" "\<lambda>i. i = ''bbc''"] cards
    by (simp add: sample_opened_def weather_strip_id_def storage_fine_def new_page_def Let_def)
  also have "\<dots> = {''bbc''}" using desc none by auto
  finally show ?thesis .
qed

text \<open>
  a reader who emptied the deck sees the empty wall with its hint, never the default
  cards and never a spinner that waits for them.
\<close>

lemma cleared_wall_is_empty:
  assumes "focused_ids inp = []" and "cards_cleared inp" and "shared_deck inp = []" and "shared_card_id inp = None"
  shows "fst (wall_ids inp cache seen_cov) = []
     \<and> wall_screen inp (fst (wall_ids inp cache seen_cov))
         (visible_cards (fst (wall_ids inp cache seen_cov)) metas is_failed None) loading metas_loading = Empty_Hint"
proof -
  have "compose_deck (wall_deck_input inp) = []"
    using assms
    by (auto simp: compose_deck_def reader_base_def reader_first_def wall_deck_input_def viewing_shared_def
        finalize_deck_eq uniq_def truthy_def split: option.splits)
  then show ?thesis
    using assms
    by (simp add: wall_ids_def rank_deck_def rank_by_coverage_eq wall_screen_def wall_loading_def seeding_def
        visible_cards_def List.map_filter_simps)
qed

lemma cleared_wall_is_empty_witness:
  "fst (wall_ids (own_wall\<lparr>focused_ids := [], cards_cleared := True, shared_deck := [], shared_card_id := None\<rparr>)
     (\<lambda>_. None) Map.empty) = []"
  using cleared_wall_is_empty
    [of "own_wall\<lparr>focused_ids := [], cards_cleared := True, shared_deck := [], shared_card_id := None\<rparr>"]
  by simp

lemma wall_shows_sound_witness:
  "let cards = visible_cards (fst (wall_ids (own_wall\<lparr>shared_deck := [], shared_card_id := None\<rparr>) (\<lambda>_. None) Map.empty))
       (Some [\<lparr>meta_id = ''cnn'', meta_type = None, meta_redirect = None, meta_column = None\<rparr>]) (\<lambda>_. False) None
   in map cd_id cards = [''cnn''] \<and> distinct (map cd_id cards)"
proof -
  let ?inp = "own_wall\<lparr>shared_deck := [], shared_card_id := None\<rparr>"
  let ?metas = "Some [\<lparr>meta_id = ''cnn'', meta_type = None, meta_redirect = None, meta_column = None\<rparr>] :: source_meta list option"
  have "map cd_id (visible_cards (fst (wall_ids ?inp (\<lambda>_. None) Map.empty)) ?metas (\<lambda>_. False) None) = [''cnn'']"
    by code_simp
  then show ?thesis
    using wall_shows_sound [of ?inp "\<lambda>_. None" Map.empty ?metas "\<lambda>_. False"] by (simp add: own_wall_def Let_def)
qed

end
