(* ===== verification/Headline_Actions.thy ===== *)
theory Headline_Actions
  imports Muted Prefs_Store Speech Url
begin

text \<open>
  What a reader can do with a headline: the long-press menu of the app
  (\<open>apps/app/components/News/headlineActions.ts\<close>) with the sheet it raises on Android
  (\<open>apps/app/utils/actionSheet.ts\<close>, \<open>components/Shared/ActionSheet.tsx\<close>), and the
  right-click menu of the web wall (\<open>apps/web/src/components/News/HeadlineMenu.tsx\<close>). Both
  offer to mute a word of the headline. Which characters beyond ASCII are letters or digits
  is an argument; the labels are the translations the menus are given.
\<close>

section \<open>Words to mute\<close>

text \<open>A text as its characters, each the bytes that spell it.\<close>

function utf8_chars :: "string \<Rightarrow> string list" where
  "utf8_chars [] = []"
| "utf8_chars (c # s) =
     (c # takeWhile (\<lambda>d. is_cont (code d)) s) # utf8_chars (dropWhile (\<lambda>d. is_cont (code d)) s)"
  by pat_completeness auto
termination
  by (relation "measure length") (simp_all add: length_dropWhile_le le_imp_less_Suc)

definition is_word_char :: "(string \<Rightarrow> bool) \<Rightarrow> string \<Rightarrow> bool" where
  "is_word_char wide g = (case g of [c] \<Rightarrow> is_alnum c | _ \<Rightarrow> wide g)"

text \<open>The word without the punctuation around it; marks inside stay.\<close>

definition bare_word :: "(string \<Rightarrow> bool) \<Rightarrow> string \<Rightarrow> string" where
  "bare_word wide raw =
     (let no = (\<lambda>g. \<not> is_word_char wide g)
      in concat (rev (dropWhile no (rev (dropWhile no (utf8_chars raw))))))"

fun candidate_loop :: "(string \<Rightarrow> bool) \<Rightarrow> string set \<Rightarrow> string list \<Rightarrow> string list \<Rightarrow> string list" where
  "candidate_loop wide seen out [] = out"
| "candidate_loop wide seen out (raw # raws) =
     (let word = bare_word wide raw; key = to_lower word in
      if utf16_length word \<le> 3 then candidate_loop wide seen out raws
      else if key \<in> seen then candidate_loop wide seen out raws
      else if length (out @ [word]) \<ge> 8 then out @ [word]
      else candidate_loop wide (insert key seen) (out @ [word]) raws)"

definition mute_word_candidates :: "(string \<Rightarrow> bool) \<Rightarrow> string \<Rightarrow> string list" where
  "mute_word_candidates wide title = candidate_loop wide {} [] (words_of title)"

section \<open>The menu of the app\<close>

record news_item =
  hi_id :: string
  hi_title :: string
  hi_url :: string

record menu_source =
  ms_id :: string
  ms_name :: string

record menu_labels =
  l_listen :: string
  l_stop :: string
  l_share :: string
  l_open :: string
  l_mute_word :: string
  l_mute_source :: string
  l_cancel :: string

text \<open>What a row does when it is pressed.\<close>

datatype menu_action =
    Listen_From "string list"
  | Stop_Listening
  | Share_Headline string string
  | Open_Headline string
  | Pick_Word string
  | Mute_Word string
  | Mute_Source string

record sheet_option =
  o_label :: string
  o_destructive :: bool
  o_press :: menu_action

record sheet =
  sh_title :: string
  sh_options :: "sheet_option list"
  sh_cancel :: string

text \<open>
  The first hole is filled as \<open>String.replace\<close> does: in what it puts in, a dollar sign
  followed by a dollar sign, an ampersand, a backquote or a quote stands for itself, for
  what was matched, and for what is before and after it.
\<close>

fun expand_replacement :: "string \<Rightarrow> string \<Rightarrow> string \<Rightarrow> string \<Rightarrow> string" where
  "expand_replacement before hole behind [] = []"
| "expand_replacement before hole behind [c] = [c]"
| "expand_replacement before hole behind (c # d # r) =
     (if c \<noteq> CHR ''$'' then c # expand_replacement before hole behind (d # r)
      else if d = CHR ''$'' then CHR ''$'' # expand_replacement before hole behind r
      else if d = CHR ''&'' then hole @ expand_replacement before hole behind r
      else if d = CHR 0x60 then before @ expand_replacement before hole behind r
      else if d = CHR 0x27 then behind @ expand_replacement before hole behind r
      else c # expand_replacement before hole behind (d # r))"

fun replace_from :: "string \<Rightarrow> string \<Rightarrow> string \<Rightarrow> string \<Rightarrow> string" where
  "replace_from hole by before [] =
     (if hole = [] then expand_replacement before hole [] by else [])"
| "replace_from hole by before (c # s) =
     (if starts_with hole (c # s)
      then (let behind = drop (length hole) (c # s)
            in expand_replacement before hole behind by @ behind)
      else c # replace_from hole by (before @ [c]) s)"

definition replace_first :: "string \<Rightarrow> string \<Rightarrow> string \<Rightarrow> string" where
  "replace_first hole by s = replace_from hole by [] s"

text \<open>The world of the menu: what it shows and what its actions reach.\<close>

datatype presented = No_Menu | Native_Alert string "sheet_option list" string

record menu_world =
  on_android :: bool
  open_sheet :: "sheet option"
  native_alert :: presented
  voice :: speech
  muted_words :: muted_store
  reader_prefs :: prefs_store
  shared_out :: "(string \<times> string) list"
  opened_urls :: "string list"

definition show_action_sheet :: "sheet \<Rightarrow> menu_world \<Rightarrow> menu_world" where
  "show_action_sheet next_sheet w = w\<lparr>open_sheet := Some next_sheet\<rparr>"

definition dismiss_action_sheet :: "menu_world \<Rightarrow> menu_world" where
  "dismiss_action_sheet w = (if open_sheet w = None then w else w\<lparr>open_sheet := None\<rparr>)"

text \<open>The native alert lists the options with the cancelling button last.\<close>

definition present :: "string \<Rightarrow> sheet_option list \<Rightarrow> string \<Rightarrow> menu_world \<Rightarrow> menu_world" where
  "present title options cancel w =
     (if on_android w
      then show_action_sheet \<lparr>sh_title = title, sh_options = options, sh_cancel = cancel\<rparr> w
      else w\<lparr>native_alert := Native_Alert title options cancel\<rparr>)"

definition titles_to_read :: "news_item \<Rightarrow> news_item list option \<Rightarrow> string list" where
  "titles_to_read it card_items =
     (let start = (case card_items of None \<Rightarrow> - 1 | Some xs \<Rightarrow> index_of (hi_id it) (map hi_id xs))
      in if start \<ge> 0 then map hi_title (drop (nat start) (or_else card_items [])) else [hi_title it])"

definition headline_options ::
  "menu_labels \<Rightarrow> bool \<Rightarrow> news_item \<Rightarrow> menu_source \<Rightarrow> news_item list option \<Rightarrow> sheet_option list" where
  "headline_options t talking it src card_items =
     [\<lparr>o_label = (if talking then l_stop t else l_listen t), o_destructive = False,
       o_press = (if talking then Stop_Listening else Listen_From (titles_to_read it card_items))\<rparr>,
      \<lparr>o_label = l_share t, o_destructive = False, o_press = Share_Headline (hi_title it) (hi_url it)\<rparr>,
      \<lparr>o_label = l_open t, o_destructive = False, o_press = Open_Headline (hi_url it)\<rparr>,
      \<lparr>o_label = l_mute_word t, o_destructive = False, o_press = Pick_Word (hi_title it)\<rparr>,
      \<lparr>o_label = replace_first ''{source}'' (ms_name src) (l_mute_source t), o_destructive = True,
       o_press = Mute_Source (ms_id src)\<rparr>]"

definition show_headline_actions ::
  "menu_labels \<Rightarrow> news_item \<Rightarrow> menu_source \<Rightarrow> news_item list option \<Rightarrow> menu_world \<Rightarrow> menu_world" where
  "show_headline_actions t it src card_items w =
     present (hi_title it) (headline_options t (speaking (voice w)) it src card_items) (l_cancel t) w"

definition word_options :: "(string \<Rightarrow> bool) \<Rightarrow> string \<Rightarrow> sheet_option list" where
  "word_options wide title =
     map (\<lambda>w. \<lparr>o_label = w, o_destructive = False, o_press = Mute_Word w\<rparr>) (mute_word_candidates wide title)"

text \<open>What each action reaches; one that is given no web address leaves the world alone.\<close>

fun press :: "(string \<Rightarrow> bool) \<Rightarrow> menu_labels \<Rightarrow> menu_action \<Rightarrow> menu_world \<Rightarrow> menu_world" where
  "press wide t (Listen_From titles) w = w\<lparr>voice := speak_headlines titles (voice w)\<rparr>"
| "press wide t Stop_Listening w = w\<lparr>voice := app_stop_speaking (voice w)\<rparr>"
| "press wide t (Share_Headline title url) w =
     (if is_http_url (Some url)
      then w\<lparr>shared_out := shared_out w @ [(title @ CHR 0x0A # url, url)]\<rparr> else w)"
| "press wide t (Open_Headline url) w =
     (if is_http_url (Some url) then w\<lparr>opened_urls := opened_urls w @ [url]\<rparr> else w)"
| "press wide t (Pick_Word title) w =
     (if mute_word_candidates wide title = [] then w
      else present (l_mute_word t) (word_options wide title) (l_cancel t) w)"
| "press wide t (Mute_Word word) w = w\<lparr>muted_words := muted_add word (muted_words w)\<rparr>"
| "press wide t (Mute_Source i) w = w\<lparr>reader_prefs := store_op (HideSource i) (reader_prefs w)\<rparr>"

text \<open>
  Pressing a row of the sheet dismisses it first, so a row that raises the next sheet does
  not lose it; the native alert closes before it calls the handler.
\<close>

definition choose_row :: "(string \<Rightarrow> bool) \<Rightarrow> menu_labels \<Rightarrow> nat \<Rightarrow> menu_world \<Rightarrow> menu_world" where
  "choose_row wide t k w =
     (if on_android w then
        (case open_sheet w of
           None \<Rightarrow> w
         | Some s \<Rightarrow>
             if k < length (sh_options s)
             then press wide t (o_press (sh_options s ! k)) (dismiss_action_sheet w) else w)
      else
        (case native_alert w of
           No_Menu \<Rightarrow> w
         | Native_Alert _ os _ \<Rightarrow>
             if k < length os then press wide t (o_press (os ! k)) (w\<lparr>native_alert := No_Menu\<rparr>) else w))"

definition shown_rows :: "menu_world \<Rightarrow> sheet_option list" where
  "shown_rows w =
     (if on_android w then (case open_sheet w of None \<Rightarrow> [] | Some s \<Rightarrow> sh_options s)
      else (case native_alert w of No_Menu \<Rightarrow> [] | Native_Alert _ os _ \<Rightarrow> os))"

section \<open>The menu of the web wall\<close>

text \<open>The web counts its words to exactly eight; the loop is otherwise the app's.\<close>

fun choice_loop :: "(string \<Rightarrow> bool) \<Rightarrow> string set \<Rightarrow> string list \<Rightarrow> string list \<Rightarrow> string list" where
  "choice_loop wide seen chosen [] = chosen"
| "choice_loop wide seen chosen (raw # raws) =
     (let word = bare_word wide raw in
      if utf16_length word \<le> 3 then choice_loop wide seen chosen raws
      else (let key = to_lower word in
        if key \<in> seen then choice_loop wide seen chosen raws
        else if length (chosen @ [word]) = 8 then chosen @ [word]
        else choice_loop wide (insert key seen) (chosen @ [word]) raws))"

definition word_choices :: "(string \<Rightarrow> bool) \<Rightarrow> string \<Rightarrow> string list" where
  "word_choices wide title = choice_loop wide {} [] (words_of title)"

record open_menu_state =
  om_item :: news_item
  om_source :: menu_source
  om_x :: int
  om_y :: int

datatype menu_row =
    Row_Open | Row_Share | Row_Listen | Row_Copy_Link | Row_Copy_Headline | Row_Mute_Source
  | Row_Mute_Word | Row_Cancel | Row_Word string

text \<open>The state of the card is fresh when the menu opens; closing it stops the speech.\<close>

record web_menu =
  wm_menu :: "open_menu_state option"
  wm_picking :: bool
  wm_listening :: bool
  wm_can_listen :: bool
  wm_can_share :: bool
  wm_said :: "string list"
  wm_words :: muted_store
  wm_prefs :: prefs_store
  wm_shared :: "(string \<times> string) list"
  wm_copied :: "string list"
  wm_opened :: "string list"

definition open_web_menu ::
  "int \<Rightarrow> int \<Rightarrow> int \<Rightarrow> int \<Rightarrow> news_item \<Rightarrow> menu_source \<Rightarrow> web_menu \<Rightarrow> web_menu" where
  "open_web_menu client_x client_y inner_width inner_height it src w =
     w\<lparr>wm_picking := (wm_menu w \<noteq> None \<and> wm_picking w),
       wm_listening := (wm_menu w \<noteq> None \<and> wm_listening w),
       wm_menu := Some \<lparr>om_item = it, om_source = src, om_x = min client_x (inner_width - 240),
                       om_y = min client_y (inner_height - 240)\<rparr>\<rparr>"

definition close_web_menu :: "web_menu \<Rightarrow> web_menu" where
  "close_web_menu w = w\<lparr>wm_menu := None, wm_picking := False, wm_listening := False\<rparr>"

definition menu_rows :: "(string \<Rightarrow> bool) \<Rightarrow> web_menu \<Rightarrow> menu_row list" where
  "menu_rows wide w =
     (case wm_menu w of
        None \<Rightarrow> []
      | Some m \<Rightarrow>
          let choices = word_choices wide (hi_title (om_item m)) in
          if wm_picking w then Row_Cancel # map Row_Word choices
          else [Row_Open, Row_Share] @ (if wm_can_listen w then [Row_Listen] else [])
               @ [Row_Copy_Link, Row_Copy_Headline, Row_Mute_Source]
               @ (if choices \<noteq> [] then [Row_Mute_Word] else []))"

definition toggle_listen :: "news_item \<Rightarrow> web_menu \<Rightarrow> web_menu" where
  "toggle_listen it w =
     (if \<not> wm_can_listen w then w
      else if wm_listening w then w\<lparr>wm_listening := False\<rparr>
      else w\<lparr>wm_said := wm_said w @ [hi_title it], wm_listening := True\<rparr>)"

definition share_from_menu :: "news_item \<Rightarrow> string \<Rightarrow> web_menu \<Rightarrow> web_menu" where
  "share_from_menu it url w =
     (if wm_can_share w then w\<lparr>wm_shared := wm_shared w @ [(hi_title it, url)]\<rparr>
      else w\<lparr>wm_copied := wm_copied w @ [url]\<rparr>)"

definition select_row :: "menu_row \<Rightarrow> web_menu \<Rightarrow> web_menu" where
  "select_row row w =
     (case wm_menu w of
        None \<Rightarrow> w
      | Some m \<Rightarrow>
          let it = om_item m; url = or_else (safe_external_href (Some (hi_url it))) [] in
          (case row of
             Row_Open \<Rightarrow> close_web_menu (w\<lparr>wm_opened := wm_opened w @ [url]\<rparr>)
           | Row_Share \<Rightarrow> close_web_menu (share_from_menu it url w)
           | Row_Listen \<Rightarrow> toggle_listen it w
           | Row_Copy_Link \<Rightarrow> close_web_menu (w\<lparr>wm_copied := wm_copied w @ [url]\<rparr>)
           | Row_Copy_Headline \<Rightarrow> close_web_menu (w\<lparr>wm_copied := wm_copied w @ [hi_title it]\<rparr>)
           | Row_Mute_Source \<Rightarrow>
               close_web_menu (w\<lparr>wm_prefs := store_op (HideSource (ms_id (om_source m))) (wm_prefs w)\<rparr>)
           | Row_Mute_Word \<Rightarrow> w\<lparr>wm_picking := True\<rparr>
           | Row_Cancel \<Rightarrow> w\<lparr>wm_picking := False\<rparr>
           | Row_Word word \<Rightarrow> close_web_menu (w\<lparr>wm_words := muted_add word (wm_words w)\<rparr>)))"

section \<open>Words of a text\<close>

lemma has_space_append: "has_space a \<or> has_space b \<Longrightarrow> has_space (a @ b)"
proof (induction a)
  case (Cons c a)
  then show ?case using space_len_append [of "c # a" b] by auto
qed simp

lemma has_space_iff: "has_space s \<longleftrightarrow> (\<exists>v u. s = v @ u \<and> u \<noteq> [] \<and> 0 < space_len u)"
proof
  show "has_space s \<Longrightarrow> \<exists>v u. s = v @ u \<and> u \<noteq> [] \<and> 0 < space_len u"
  proof (induction s)
    case (Cons c s)
    show ?case
    proof (cases "0 < space_len (c # s)")
      case True then show ?thesis by (intro exI [of _ "[]"] exI [of _ "c # s"]) simp
    next
      case False
      then obtain v u where "s = v @ u" "u \<noteq> []" "0 < space_len u" using Cons by auto
      then show ?thesis by (intro exI [of _ "c # v"] exI [of _ u]) simp
    qed
  qed simp
  assume "\<exists>v u. s = v @ u \<and> u \<noteq> [] \<and> 0 < space_len u"
  then obtain v u where "s = v @ u" "u \<noteq> []" "0 < space_len u" by blast
  then show "has_space s" using has_space_append [of v u] by (cases u) auto
qed

lemma words_from_char: "space_len (c # r) = 0 \<Longrightarrow> words_from cur (c # r) = words_from (c # cur) r"
  by (subst words_from.simps) (simp del: space_at.simps list.map)

lemma words_from_space:
  "s \<noteq> [] \<Longrightarrow> space_len s \<noteq> 0 \<Longrightarrow>
   words_from cur s = (if cur = [] then [] else [rev cur]) @ words_from [] (drop (space_len s) s)"
  by (subst words_from.simps) (cases s; simp del: space_at.simps list.map)

lemma words_from_spaceless:
  assumes "w \<in> set (words_from cur s)" and "\<And>v u. rev cur = v @ u \<Longrightarrow> u \<noteq> [] \<Longrightarrow> space_len (u @ s) = 0"
  shows "\<not> has_space w \<and> (\<exists>a b. rev cur @ s = a @ w @ b)"
  using assms
proof (induction cur s rule: words_from.induct [case_names word])
  case (word cur s)
  have here: "\<not> has_space (rev cur)"
  proof
    assume "has_space (rev cur)"
    then obtain v u where "rev cur = v @ u" "u \<noteq> []" "0 < space_len u" using has_space_iff by blast
    then show False using word.prems(2) [of v u] space_len_append [of u s] by simp
  qed
  show ?case
  proof (cases s)
    case Nil
    then have "w = rev cur" using word.prems(1) by (simp add: words_from.simps [of cur "[]"] split: if_splits)
    then show ?thesis using here Nil by (metis append_Nil append_Nil2)
  next
    case (Cons c r)
    show ?thesis
    proof (cases "space_len s = 0")
      case True
      have "w \<in> set (words_from (c # cur) r)"
        using word.prems(1) True words_from_char [of c r cur] Cons by metis
      moreover have "space_len (u @ r) = 0" if split: "rev (c # cur) = v @ u" "u \<noteq> []" for v u
      proof -
        obtain u' where u: "u = u' @ [c]" "rev cur = v @ u'"
          using split by (cases u rule: rev_cases) auto
        then show ?thesis using word.prems(2) [of v u'] True Cons by (cases "u' = []") auto
      qed
      ultimately show ?thesis using word.IH(1) [OF Cons True] Cons by auto
    next
      case False
      then have "w = rev cur \<or> w \<in> set (words_from [] (drop (space_len s) s))"
        using word.prems(1) words_from_space [of s cur] Cons False by (cases "cur = []") auto
      then show ?thesis
      proof
        assume "w = rev cur" then show ?thesis using here by (metis append_Nil)
      next
        assume "w \<in> set (words_from [] (drop (space_len s) s))"
        then obtain a b where "\<not> has_space w" "drop (space_len s) s = a @ w @ b"
          using word.IH(2) [OF Cons False] by auto
        then have "rev cur @ s = (rev cur @ take (space_len s) s @ a) @ w @ b"
          by (metis append.assoc append_take_drop_id)
        then show ?thesis using \<open>\<not> has_space w\<close> by blast
      qed
    qed
  qed
qed

lemma words_of_spaceless: "w \<in> set (words_of s) \<Longrightarrow> \<not> has_space w \<and> (\<exists>a b. s = a @ w @ b)"
  using words_from_spaceless [of w "[]" s] by (simp add: words_of_def)

lemma trim_spaceless: "\<not> has_space s \<Longrightarrow> trim s = s"
proof -
  have start: "\<not> has_space s \<Longrightarrow> trim_start s = s" for s
    by (subst trim_start.simps) (cases s; simp)
  have "\<not> has_space s \<Longrightarrow> trim_end s = s"
    by (induction s) (simp_all add: start)
  then show "\<not> has_space s \<Longrightarrow> trim s = s" by (simp add: trim_def start)
qed

lemma concat_utf8_chars [simp]: "concat (utf8_chars s) = s"
  by (induction s rule: utf8_chars.induct) simp_all

lemma dropWhile_suffix: "\<exists>p. xs = p @ dropWhile P xs"
  by (metis takeWhile_dropWhile_id)

lemma bare_word_infix: "\<exists>a b. raw = a @ bare_word wide raw @ b"
proof -
  let ?no = "\<lambda>g. \<not> is_word_char wide g" and ?gs = "utf8_chars raw"
  obtain p where p: "?gs = p @ dropWhile ?no ?gs" using dropWhile_suffix by blast
  obtain q where q: "rev (dropWhile ?no ?gs) = q @ dropWhile ?no (rev (dropWhile ?no ?gs))"
    using dropWhile_suffix by blast
  then have "dropWhile ?no ?gs = rev (dropWhile ?no (rev (dropWhile ?no ?gs))) @ rev q"
    by (metis rev_append rev_rev_ident)
  then have "raw = concat p @ bare_word wide raw @ concat (rev q)"
    using p by (metis bare_word_def concat_append concat_utf8_chars)
  then show ?thesis by blast
qed

lemma bare_word_spaceless: "\<not> has_space raw \<Longrightarrow> \<not> has_space (bare_word wide raw)"
  using bare_word_infix [of raw wide] has_space_append by metis

text \<open>What is offered: words of the headline, longer than three, each once in any case, eight at most.\<close>

lemma candidate_loop_words:
  "w \<in> set (candidate_loop wide seen out raws) \<Longrightarrow>
   w \<in> set out \<or> (\<exists>raw \<in> set raws. w = bare_word wide raw \<and> 3 < utf16_length w)"
  by (induction wide seen out raws rule: candidate_loop.induct) (fastforce simp: Let_def split: if_splits)+

lemma candidate_loop_distinct:
  "distinct (map to_lower out) \<Longrightarrow> set (map to_lower out) = seen \<Longrightarrow> length out < 8 \<Longrightarrow>
   distinct (map to_lower (candidate_loop wide seen out raws)) \<and> length (candidate_loop wide seen out raws) \<le> 8"
  by (induction wide seen out raws rule: candidate_loop.induct) (auto simp: Let_def)

lemma candidate_loop_keeps: "set out \<subseteq> set (candidate_loop wide seen out raws)"
  by (induction wide seen out raws rule: candidate_loop.induct) (auto simp: Let_def)

lemma candidate_loop_complete:
  "length (candidate_loop wide seen out raws) < 8 \<Longrightarrow> to_lower ` set out = seen \<Longrightarrow>
   raw \<in> set raws \<Longrightarrow> 3 < utf16_length (bare_word wide raw) \<Longrightarrow>
   to_lower (bare_word wide raw) \<in> to_lower ` set (candidate_loop wide seen out raws)"
proof (induction wide seen out raws rule: candidate_loop.induct)
  case (2 wide seen out r raws)
  let ?w = "bare_word wide r"
  show ?case
  proof (cases "raw = r")
    case True
    then show ?thesis
      using 2(4-) candidate_loop_keeps [of out wide seen raws]
        candidate_loop_keeps [of "out @ [?w]" wide "insert (to_lower ?w) seen" raws]
      by (auto simp: Let_def split: if_splits)
  next
    case False
    then show ?thesis using 2 by (auto simp: Let_def split: if_splits)
  qed
qed simp

lemma utf16_lower [simp]: "utf16_length (to_lower s) = utf16_length s"
proof -
  have "(if 128 \<le> code (lower_char c) \<and> code (lower_char c) < 192 then 0 else if 240 \<le> code (lower_char c) then 2 else (1::nat))
      = (if 128 \<le> code c \<and> code c < 192 then 0 else if 240 \<le> code c then 2 else 1)" for c
    by (auto simp: lower_char_def is_upper_def)
  then show ?thesis by (simp add: utf16_length_def to_lower_def comp_def)
qed

text \<open>Both clients offer the same words.\<close>

lemma choice_loop_eq: "length out < 8 \<Longrightarrow> choice_loop wide seen out raws = candidate_loop wide seen out raws"
  by (induction wide seen out raws rule: candidate_loop.induct) (auto simp: Let_def)

lemma word_choices_eq: "word_choices wide title = mute_word_candidates wide title"
  by (simp add: word_choices_def mute_word_candidates_def choice_loop_eq)

lemma candidate_in_title:
  assumes "w \<in> set (mute_word_candidates wide title)"
  shows "3 < utf16_length w" and "\<not> has_space w" and "\<exists>a b. title = a @ w @ b"
proof -
  obtain raw where raw: "raw \<in> set (words_of title)" "w = bare_word wide raw" "3 < utf16_length w"
    using candidate_loop_words [of w wide "{}" "[]" "words_of title"] assms
    by (auto simp: mute_word_candidates_def)
  obtain a b where word: "\<not> has_space raw" "title = a @ raw @ b" using words_of_spaceless [OF raw(1)] by blast
  obtain c d where "raw = c @ w @ d" using bare_word_infix [of raw wide] raw(2) by blast
  then have "title = (a @ c) @ w @ (d @ b)" using word(2) by simp
  then show "\<exists>a b. title = a @ w @ b" by blast
  show "3 < utf16_length w" by (rule raw(3))
  show "\<not> has_space w" using bare_word_spaceless [OF word(1)] raw(2) by simp
qed

lemma normalize_candidate:
  assumes "w \<in> set (mute_word_candidates wide title)" and "utf16_length w \<le> 60"
  shows "normalize_muted_word w = Some (to_lower w)"
proof -
  have "to_lower w \<noteq> []"
    using candidate_in_title(1) [OF assms(1)] by (auto simp: to_lower_def utf16_length_def)
  then show ?thesis
    using trim_spaceless [OF candidate_in_title(2) [OF assms(1)]] assms(2)
    by (simp add: normalize_muted_word_def max_muted_word_length_def)
qed

lemma candidate_mutes:
  assumes "w \<in> set (mute_word_candidates wide title)" and "utf16_length w \<le> 60"
  shows "is_muted title (add_muted_word ws w)"
proof -
  obtain a b where "title = a @ w @ b" using candidate_in_title(3) [OF assms(1)] by blast
  moreover have "to_lower w \<in> set (add_muted_word ws w)"
    using normalize_candidate [OF assms] by (simp add: add_muted_word_def)
  moreover have "includes_str (to_lower w) (to_lower (a @ w @ b))" using includes_str_append by simp
  ultimately show ?thesis by (auto simp: is_muted_def list_ex_iff)
qed

text \<open>A word longer than a muted word may be is offered all the same, and choosing it does nothing.\<close>

lemma long_word_offered_in_vain:
  assumes "60 < utf16_length w" and "w \<in> set (mute_word_candidates wide title)"
  shows "add_muted_word ws w = ws"
  using assms trim_spaceless [OF candidate_in_title(2) [OF assms(2)]]
  by (simp add: add_muted_word_def normalize_muted_word_def max_muted_word_length_def)

section \<open>Properties\<close>

text \<open>
  The words offered are words of the headline without the punctuation around them, longer
  than three characters, each once in any case and eight at most; with fewer than eight, no
  such word is left out; and choosing one of up to sixty characters mutes the headline it
  was chosen from.
\<close>

lemma mute_words_offered:
  assumes "words = mute_word_candidates wide title"
  shows "length words \<le> 8 \<and> distinct (map to_lower words) \<and>
    (\<forall>w \<in> set words. \<exists>raw \<in> set (words_of title). w = bare_word wide raw \<and> 3 < utf16_length w) \<and>
    (length words < 8 \<longrightarrow> (\<forall>raw \<in> set (words_of title). 3 < utf16_length (bare_word wide raw) \<longrightarrow>
       to_lower (bare_word wide raw) \<in> to_lower ` set words)) \<and>
    (\<forall>w \<in> set words. utf16_length w \<le> 60 \<longrightarrow> is_muted title (add_muted_word ws w))"
proof -
  note loop = candidate_loop_words [of _ wide "{}" "[]" "words_of title"]
    candidate_loop_distinct [of "[]" "{}" wide "words_of title"]
    candidate_loop_complete [of wide "{}" "[]" "words_of title"]
  have "length words \<le> 8 \<and> distinct (map to_lower words)"
    using loop(2) by (simp add: assms mute_word_candidates_def)
  moreover have "\<exists>raw \<in> set (words_of title). w = bare_word wide raw \<and> 3 < utf16_length w" if "w \<in> set words" for w
    using loop(1) [of w] that by (simp add: assms mute_word_candidates_def)
  moreover have "to_lower (bare_word wide raw) \<in> to_lower ` set words"
    if "length words < 8" "raw \<in> set (words_of title)" "3 < utf16_length (bare_word wide raw)" for raw
    using loop(3) [of raw] that by (simp add: assms mute_word_candidates_def)
  ultimately show ?thesis using candidate_mutes [of _ wide title] assms by blast
qed

lemma mute_words_offered_witness:
  "map to_lower (mute_word_candidates (\<lambda>_. False) ''Storm-hit coast: \"Storm\" warnings, STORM!'')
     = [''storm-hit'', ''coast'', ''storm'', ''warnings'']
   \<and> is_muted ''Storm-hit coast: \"Storm\" warnings, STORM!''
       (add_muted_word [] (hd (mute_word_candidates (\<lambda>_. False) ''Storm-hit coast: \"Storm\" warnings, STORM!'')))"
proof -
  let ?t = "''Storm-hit coast: \"Storm\" warnings, STORM!''"
  have words: "mute_word_candidates (\<lambda>_. False) ?t = [''Storm-hit'', ''coast'', ''Storm'', ''warnings'']"
    by code_simp
  moreover have "map to_lower [''Storm-hit'', ''coast'', ''Storm'', ''warnings''] = [''storm-hit'', ''coast'', ''storm'', ''warnings'']"
    "utf16_length ''Storm-hit'' \<le> 60"
    by code_simp+
  moreover have "\<forall>w \<in> set (mute_word_candidates (\<lambda>_. False) ?t). utf16_length w \<le> 60 \<longrightarrow> is_muted ?t (add_muted_word [] w)"
    using mute_words_offered [OF refl, of "\<lambda>_. False" ?t "[]"] by blast
  ultimately show ?thesis by (metis list.sel(1) list.set_intros(1))
qed

text \<open>
  On Android and iOS a reader gets the same rows, the cancelling one apart, and choosing one
  does the same, whether it acts or leads to the words to mute.
\<close>

definition reached :: "menu_world \<Rightarrow> speech \<times> muted_store \<times> prefs_store \<times> (string \<times> string) list \<times> string list" where
  "reached w = (voice w, muted_words w, reader_prefs w, shared_out w, opened_urls w)"

lemma both_platforms_agree:
  assumes "on_android a" and "b = a\<lparr>on_android := False\<rparr>" and "open_sheet a = None" and "native_alert a = No_Menu"
    and "a1 = show_headline_actions t it src cards a" and "b1 = show_headline_actions t it src cards b"
  shows "shown_rows a1 = shown_rows b1 \<and> length (shown_rows a1) = 5
     \<and> reached (choose_row wide t k a1) = reached (choose_row wide t k b1)
     \<and> shown_rows (choose_row wide t k a1) = shown_rows (choose_row wide t k b1)"
proof -
  let ?os = "headline_options t (speaking (voice a)) it src cards"
  have a1: "a1 = a\<lparr>open_sheet := Some \<lparr>sh_title = hi_title it, sh_options = ?os, sh_cancel = l_cancel t\<rparr>\<rparr>"
    using assms by (simp add: show_headline_actions_def present_def show_action_sheet_def)
  have b1: "b1 = b\<lparr>native_alert := Native_Alert (hi_title it) ?os (l_cancel t)\<rparr>"
    using assms by (simp add: show_headline_actions_def present_def)
  have len: "length ?os = 5" by (simp add: headline_options_def)
  have acts: "reached (press wide t x (a\<lparr>open_sheet := None\<rparr>)) = reached (press wide t x (b\<lparr>native_alert := No_Menu\<rparr>))
      \<and> shown_rows (press wide t x (a\<lparr>open_sheet := None\<rparr>)) = shown_rows (press wide t x (b\<lparr>native_alert := No_Menu\<rparr>))" for x
    using assms(1-4)
    by (cases x) (simp_all add: reached_def shown_rows_def present_def show_action_sheet_def)
  show ?thesis
  proof (cases "k < length ?os")
    case True
    then show ?thesis
      using assms(1,2) len acts by (simp add: a1 b1 shown_rows_def choose_row_def dismiss_action_sheet_def)
  next
    case False
    then show ?thesis
      using assms(1,2) len by (simp add: a1 b1 shown_rows_def choose_row_def reached_def)
  qed
qed

lemma choose_word_mutes:
  assumes "k < length (mute_word_candidates wide title)" and "utf16_length (mute_word_candidates wide title ! k) \<le> 60"
    and "muted_inv m" and "\<And>ws. \<not> set_fails (m_device m) (pref_key KeyMutedWords) (stringify_list ws)"
  shows "is_muted title (get_words (muted_add (mute_word_candidates wide title ! k) m))"
  using muted_add_shows [OF assms(3)] assms(4) candidate_mutes [OF nth_mem [OF assms(1)] assms(2)] by simp

text \<open>
  C29: Muting a word from a headline works end to end, for a word of at most sixty characters on a
  device that takes the write: on either platform, and in the web menu, choosing the fourth row
  and then the word leaves the headline muted. (A longer word is offered and refused without a
  word, \<open>long_word_offered_in_vain\<close>; a write that fails is lost, \<open>muted_write_lost\<close>.)
\<close>

lemma muting_a_word_works:
  assumes "k < length (mute_word_candidates wide (hi_title it))"
    and "utf16_length (mute_word_candidates wide (hi_title it) ! k) \<le> 60"
    and "muted_inv (muted_words a)" and "\<forall>v. \<not> set_fails (m_device (muted_words a)) (pref_key KeyMutedWords) v"
    and "wm_menu w = Some m" and "om_item m = it" and "wm_words w = muted_words a"
    and "\<not> wm_picking w"
  shows "is_muted (hi_title it)
      (get_words (muted_words (choose_row wide t k (choose_row wide t 3 (show_headline_actions t it src cards a)))))
    \<and> Row_Mute_Word \<in> set (menu_rows wide w)
    \<and> menu_rows wide (select_row Row_Mute_Word w) ! (k + 1) = Row_Word (mute_word_candidates wide (hi_title it) ! k)
    \<and> is_muted (hi_title it)
      (get_words (wm_words (select_row (menu_rows wide (select_row Row_Mute_Word w) ! (k + 1)) (select_row Row_Mute_Word w))))"
proof -
  let ?os = "headline_options t (speaking (voice a)) it src cards"
  let ?ws = "mute_word_candidates wide (hi_title it)"
  have ne: "?ws \<noteq> []" using assms(1) by auto
  have fine: "\<not> set_fails (m_device (muted_words a)) (pref_key KeyMutedWords) (stringify_list ws)" for ws
    using assms(4) by simp
  have pick: "o_press (?os ! 3) = Pick_Word (hi_title it)" "3 < length ?os"
    by (simp_all add: headline_options_def numeral_3_eq_3)
  have "muted_words (choose_row wide t k (choose_row wide t 3 (show_headline_actions t it src cards a)))
      = muted_add (?ws ! k) (muted_words a)"
    using assms(1) ne pick
    by (cases "on_android a")
      (simp_all add: show_headline_actions_def present_def show_action_sheet_def choose_row_def
        dismiss_action_sheet_def word_options_def)
  moreover have "wm_words (select_row (Row_Word (?ws ! k)) (select_row Row_Mute_Word w)) = muted_add (?ws ! k) (muted_words a)"
    using assms(5-7) by (simp add: select_row_def close_web_menu_def)
  moreover have "menu_rows wide (select_row Row_Mute_Word w) ! (k + 1) = Row_Word (?ws ! k)"
    using assms(1,5,6) by (simp add: select_row_def menu_rows_def word_choices_eq)
  moreover have "Row_Mute_Word \<in> set (menu_rows wide w)"
    using assms(5,6,8) ne by (simp add: menu_rows_def word_choices_eq Let_def)
  ultimately show ?thesis
    using choose_word_mutes [OF assms(1-3) fine] by simp
qed

text \<open>A reader's device that takes every write, and both menus on it.\<close>

definition sample_words :: muted_store where
  "sample_words =
     create_muted_words_store
       \<lparr>items = Map.empty, get_fails = (\<lambda>_. False), set_fails = (\<lambda>_ _. False), remove_fails = (\<lambda>_. False)\<rparr>"

definition sample_menu_world :: menu_world where
  "sample_menu_world =
     \<lparr>on_android = True, open_sheet = None, native_alert = No_Menu, voice = silent, muted_words = sample_words,
      reader_prefs = full_store, shared_out = [], opened_urls = []\<rparr>"

definition sample_labels :: menu_labels where
  "sample_labels =
     \<lparr>l_listen = ''Listen'', l_stop = ''Stop'', l_share = ''Share'', l_open = ''Open'',
      l_mute_word = ''Mute a word'', l_mute_source = ''Mute {source}'', l_cancel = ''Cancel''\<rparr>"

definition sample_headline :: news_item where
  "sample_headline = \<lparr>hi_id = ''1'', hi_title = ''Storm hits coast'', hi_url = ''https://a.b/c''\<rparr>"

definition sample_source :: menu_source where
  "sample_source = \<lparr>ms_id = ''bbc'', ms_name = ''BBC''\<rparr>"

definition sample_web_menu :: web_menu where
  "sample_web_menu = open_web_menu 900 80 1000 800 sample_headline sample_source
     \<lparr>wm_menu = None, wm_picking = False, wm_listening = False, wm_can_listen = True, wm_can_share = False,
      wm_said = [], wm_words = sample_words, wm_prefs = full_store, wm_shared = [], wm_copied = [], wm_opened = []\<rparr>"

lemma both_platforms_agree_witness:
  "length (shown_rows (show_headline_actions sample_labels sample_headline sample_source None sample_menu_world)) = 5"
proof -
  have "on_android sample_menu_world" "open_sheet sample_menu_world = None" "native_alert sample_menu_world = No_Menu"
    by (simp_all add: sample_menu_world_def)
  then show ?thesis using both_platforms_agree [OF _ refl _ _ refl refl] by blast
qed

lemma muting_a_word_works_witness:
  "is_muted ''Storm hits coast''
     (get_words (muted_words (choose_row (\<lambda>_. False) sample_labels 2
       (choose_row (\<lambda>_. False) sample_labels 3
         (show_headline_actions sample_labels sample_headline sample_source None sample_menu_world)))))"
proof -
  have words: "mute_word_candidates (\<lambda>_. False) (hi_title sample_headline) = [''Storm'', ''hits'', ''coast'']"
    by code_simp
  have "utf16_length ''coast'' \<le> 60" by code_simp
  moreover have "muted_inv sample_words" "\<forall>v. \<not> set_fails (m_device sample_words) (pref_key KeyMutedWords) v"
    by (simp_all add: sample_words_def muted_inv_def create_muted_words_store_def)
  ultimately show ?thesis
    using muting_a_word_works [of 2 "\<lambda>_. False" sample_headline sample_menu_world sample_web_menu _ sample_labels sample_source None]
    by (simp add: words sample_menu_world_def sample_web_menu_def open_web_menu_def) (simp add: sample_headline_def)
qed

end
