(* ===== verification/Api_Client.thy ===== *)
theory Api_Client
  imports Json
begin

text \<open>
  How a client reads an answer of the API: \<open>unwrap\<close> and the errors it throws
  (\<open>packages/client/src/index.ts\<close>), which of them are tried again on the web
  (\<open>apps/web/src/hooks/queries/retry.ts\<close>) and in the app (\<open>apps/app/utils/query.ts\<close>), what
  is made of the body of an error (\<open>apps/web/src/utils/api/errors.ts\<close>), and the check of the
  login session (\<open>apps/web/src/utils/auth.ts\<close>). The query library calls a retry rule with the
  number of failures before this one; the network is a list of answers.
\<close>

section \<open>Answers and errors\<close>

text \<open>
  What the fetch library hands over: the data, the error body, the status. A body is a JSON
  value; \<open>None\<close> is the \<open>undefined\<close> of a member that is missing.
\<close>

record api_answer =
  an_data :: "json option"
  an_error :: "json option"
  an_status :: int

text \<open>The classes of errors, each a subclass of the first but the last, which is a plain error.\<close>

datatype api_error =
    Client_Response_Error json int
  | Unauthorized_Error json int
  | Not_Found_Error json int
  | Too_Many_Requests_Error json int
  | Plain_Error string

fun is_client_error :: "api_error \<Rightarrow> bool" where
  "is_client_error (Plain_Error _) \<longleftrightarrow> False"
| "is_client_error _ \<longleftrightarrow> True"

fun error_status :: "api_error \<Rightarrow> int option" where
  "error_status (Client_Response_Error _ s) = Some s"
| "error_status (Unauthorized_Error _ s) = Some s"
| "error_status (Not_Found_Error _ s) = Some s"
| "error_status (Too_Many_Requests_Error _ s) = Some s"
| "error_status (Plain_Error _) = None"

text \<open>Whether a value counts as true in a condition; a literal is zero when no digit before its exponent is another.\<close>

definition zero_literal :: "string \<Rightarrow> bool" where
  "zero_literal n \<longleftrightarrow>
     list_all (\<lambda>c. is_digit c \<longrightarrow> c = CHR ''0'') (takeWhile (\<lambda>c. c \<noteq> CHR ''e'' \<and> c \<noteq> CHR ''E'') n)"

fun json_truthy :: "json \<Rightarrow> bool" where
  "json_truthy JNull \<longleftrightarrow> False"
| "json_truthy (JBool b) \<longleftrightarrow> b"
| "json_truthy (JStr s) \<longleftrightarrow> s \<noteq> []"
| "json_truthy (JNum n) \<longleftrightarrow> \<not> zero_literal n"
| "json_truthy _ \<longleftrightarrow> True"

definition given :: "json option \<Rightarrow> json option" where
  "given v = (case v of Some j \<Rightarrow> if json_truthy j then Some j else None | None \<Rightarrow> None)"

text \<open>A handler the caller gives for a status throws what it likes.\<close>

definition unwrap :: "(int \<rightharpoonup> api_error) \<Rightarrow> api_answer \<Rightarrow> api_error + json" where
  "unwrap handlers a =
     (case handlers (an_status a) of
        Some e \<Rightarrow> Inl e
      | None \<Rightarrow>
          if an_status a = 429
          then Inl (Too_Many_Requests_Error (JObj [(''message'', JStr ''Too Many Requests'')]) (an_status a))
          else case given (an_error a) of
            Some e \<Rightarrow>
              Inl (if an_status a = 401 then Unauthorized_Error e (an_status a)
                   else if an_status a = 404 then Not_Found_Error e (an_status a)
                   else Client_Response_Error e (an_status a))
          | None \<Rightarrow>
              (case given (an_data a) of
                 None \<Rightarrow> Inl (Plain_Error ''No data returned'')
               | Some d \<Rightarrow> Inr d))"

section \<open>Trying again\<close>

definition authenticating_retry :: "nat \<Rightarrow> api_error \<Rightarrow> bool" where
  "authenticating_retry failure_count e =
     (case e of
        Unauthorized_Error _ _ \<Rightarrow> False
      | Not_Found_Error _ _ \<Rightarrow> False
      | _ \<Rightarrow> \<not> failure_count > 2)"

definition default_retry :: "nat \<Rightarrow> api_error \<Rightarrow> bool" where
  "default_retry = authenticating_retry"

text \<open>
  The app's rule. Its check for a validation error, \<open>isValidationError\<close>, is for the list of
  an error body; an error is no list, so the check never holds here.
\<close>

definition is_validation_error :: "json \<Rightarrow> unit + bool" where
  "is_validation_error detail =
     (case detail of
        JArr [] \<Rightarrow> Inl ()
      | JArr (JObj es # _) \<Rightarrow> Inr (case map_of es ''loc'' of Some v \<Rightarrow> json_truthy v | None \<Rightarrow> False)
      | JArr (JNull # _) \<Rightarrow> Inl ()
      | _ \<Rightarrow> Inr False)"

definition app_retry :: "nat \<Rightarrow> api_error \<Rightarrow> bool" where
  "app_retry failure_count e =
     (if is_client_error e \<and> (case error_status e of Some s \<Rightarrow> 400 \<le> s \<and> s < 500 | None \<Rightarrow> False) then False
      else \<not> failure_count \<ge> 3)"

text \<open>
  A query asks, and asks again while its rule says so; the answers come one after the
  other, and \<open>None\<close> is a request that never reached the server. It ends with the number of
  requests made and what it settled on.
\<close>

definition settle_answer :: "api_answer option \<Rightarrow> api_error + json" where
  "settle_answer r = (case r of None \<Rightarrow> Inl (Plain_Error ''network'') | Some a \<Rightarrow> unwrap Map.empty a)"

fun query_attempts ::
  "(nat \<Rightarrow> api_error \<Rightarrow> bool) \<Rightarrow> nat \<Rightarrow> (api_error + json) list \<Rightarrow> (nat \<times> (api_error + json)) option" where
  "query_attempts retry failures [] = None"
| "query_attempts retry failures (r # rs) =
     (case r of
        Inr d \<Rightarrow> Some (failures + 1, Inr d)
      | Inl e \<Rightarrow>
          if retry failures e then query_attempts retry (failures + 1) rs
          else Some (failures + 1, Inl e))"

definition ask ::
  "(nat \<Rightarrow> api_error \<Rightarrow> bool) \<Rightarrow> api_answer option list \<Rightarrow> (nat \<times> (api_error + json)) option" where
  "ask retry answers = query_attempts retry 0 (map settle_answer answers)"

section \<open>The body of an error\<close>

text \<open>One error of a form: its path as words, its type and its message.\<close>

record validation_error =
  ve_loc :: "string list"
  ve_type :: string
  ve_msg :: string

definition set_validation_errors ::
  "nat \<Rightarrow> string list option \<Rightarrow> validation_error list \<Rightarrow> (string \<times> string \<times> string) list" where
  "set_validation_errors slice discriminators errors =
     map (\<lambda>e.
       let loc = drop slice (ve_loc e);
           loc' = (case discriminators of
               Some ds \<Rightarrow> (case loc of l # _ \<Rightarrow> if l \<in> set ds then drop 1 loc else loc | [] \<Rightarrow> loc)
             | None \<Rightarrow> loc)
       in (join_with ''.'' loc', ve_type e, ve_msg e)) errors"

definition member_text :: "string \<Rightarrow> json \<Rightarrow> string option" where
  "member_text key j =
     (case j of JObj es \<Rightarrow> (case map_of es key of Some (JStr s) \<Rightarrow> Some s | _ \<Rightarrow> None) | _ \<Rightarrow> None)"

text \<open>The message is taken to be a text or missing, as the type of the argument says.\<close>

definition extract_api_error_message :: "json \<Rightarrow> string \<Rightarrow> string" where
  "extract_api_error_message e fallback =
     (case e of
        JObj es \<Rightarrow>
          (case map_of es ''detail'' of
             Some (JStr s) \<Rightarrow> s
           | Some (JArr (d # _)) \<Rightarrow> or_else (truthy (member_text ''msg'' d)) fallback
           | _ \<Rightarrow> fallback)
      | _ \<Rightarrow> fallback)"

text \<open>The members of an object or a list, in order.\<close>

fun object_values :: "json \<Rightarrow> json list" where
  "object_values (JObj es) = map snd es"
| "object_values (JArr xs) = xs"
| "object_values _ = []"

fun is_object :: "json \<Rightarrow> bool" where
  "is_object (JObj _) \<longleftrightarrow> True"
| "is_object (JArr _) \<longleftrightarrow> True"
| "is_object _ \<longleftrightarrow> False"

text \<open>The levels still allowed go down to none; an empty message found below counts as none.\<close>

function first_message :: "nat \<Rightarrow> json \<Rightarrow> string option" and first_message_in :: "nat \<Rightarrow> json list \<Rightarrow> string option" where
  "first_message depth j =
     (if depth > 10 \<or> \<not> is_object j then None
      else case member_text ''message'' j of
        Some s \<Rightarrow> Some s
      | None \<Rightarrow> first_message_in depth (object_values j))"
| "first_message_in depth [] = None"
| "first_message_in depth (v # vs) =
     (case truthy (first_message (depth + 1) v) of
        Some s \<Rightarrow> Some s
      | None \<Rightarrow> first_message_in depth vs)"
  by pat_completeness auto
termination
  by (relation "measures [\<lambda>x. case x of Inl (d, j) \<Rightarrow> 22 - 2 * d | Inr (d, vs) \<Rightarrow> 21 - 2 * d,
        \<lambda>x. case x of Inl (d, j) \<Rightarrow> 0 | Inr (d, vs) \<Rightarrow> length vs]") auto

declare first_message.simps [simp del]

section \<open>The login session\<close>

text \<open>
  The session of a login in progress: who is logging in, and the factors still to give. The
  error of an answer is its code.
\<close>

record login_session =
  ls_identity :: "string option"
  ls_factors :: "string list"

record status_answer =
  sa_status :: int
  sa_error :: "string option"
  sa_session :: "login_session option"

datatype check_outcome = No_Session | In_Session login_session | Complete_Login | Check_Throws string

definition ok_answer :: "int \<Rightarrow> bool" where
  "ok_answer s \<longleftrightarrow> 200 \<le> s \<and> s < 300"

definition check_authentication_session :: "status_answer \<Rightarrow> check_outcome" where
  "check_authentication_session a =
     (if sa_status a = 429 then No_Session
      else if \<not> ok_answer (sa_status a) \<and> sa_error a = None
      then Check_Throws (''Unexpected response from /v1/auth/status: '' @ show_int (sa_status a))
      else case sa_error a of
        Some err \<Rightarrow>
          if err \<noteq> ''InvalidAuthenticationSession''
          then Check_Throws (''Failed to check authentication session: '' @ err) else No_Session
      | None \<Rightarrow>
          (case sa_session a of
             None \<Rightarrow> Check_Throws ''TypeError''
           | Some s \<Rightarrow>
               if truthy (ls_identity s) \<noteq> None \<and> ls_factors s = [] then Complete_Login else In_Session s))"

definition session_redirect_path :: "login_session option \<Rightarrow> string option" where
  "session_redirect_path s =
     (case s of
        None \<Rightarrow> None
      | Some ls \<Rightarrow>
          if ''totp'' \<in> set (ls_factors ls) then Some ''/auth/totp''
          else if ''backup_codes'' \<in> set (ls_factors ls) then Some ''/auth/backup-codes''
          else None)"

section \<open>Lemmas\<close>

lemma unwrap_unhandled:
  "unwrap Map.empty a =
     (if an_status a = 429
      then Inl (Too_Many_Requests_Error (JObj [(''message'', JStr ''Too Many Requests'')]) 429)
      else case given (an_error a) of
        Some e \<Rightarrow>
          Inl (if an_status a = 401 then Unauthorized_Error e 401
               else if an_status a = 404 then Not_Found_Error e 404
               else Client_Response_Error e (an_status a))
      | None \<Rightarrow> (case given (an_data a) of None \<Rightarrow> Inl (Plain_Error ''No data returned'') | Some d \<Rightarrow> Inr d))"
  by (auto simp: unwrap_def split: option.split)

lemma query_attempts_bound:
  assumes "\<forall>n e. retry n e \<longrightarrow> n < m"
  shows "k \<le> m \<Longrightarrow> m - k < length rs \<Longrightarrow>
    \<exists>n res. query_attempts retry k rs = Some (n, res) \<and> k < n \<and> n \<le> m + 1 \<and> res = rs ! (n - k - 1)
      \<and> (\<forall>e. res = Inl e \<longrightarrow> \<not> retry (n - 1) e) \<and> (\<forall>i < n - k - 1. \<exists>e. rs ! i = Inl e \<and> retry (k + i) e)"
proof (induction rs arbitrary: k)
  case (Cons r rs)
  show ?case
  proof (cases "\<exists>e. r = Inl e \<and> retry k e")
    case True
    then obtain e where e: "r = Inl e" "retry k e" by blast
    then have "k < m" using assms by blast
    moreover have "m - Suc k < length rs" using Cons.prems(2) calculation by simp
    ultimately obtain n res where n: "query_attempts retry (k + 1) rs = Some (n, res)" "k + 1 < n" "n \<le> m + 1"
      "res = rs ! (n - (k + 1) - 1)" "\<forall>e. res = Inl e \<longrightarrow> \<not> retry (n - 1) e"
      "\<forall>i < n - (k + 1) - 1. \<exists>e. rs ! i = Inl e \<and> retry (k + 1 + i) e"
      using Cons.IH [of "k + 1"] Cons.prems by auto
    have "rs ! (n - (k + 1) - 1) = (r # rs) ! (n - k - 1)"
      using n(2) by (cases "n - k - 1") (auto simp: nth_Cons')
    moreover have "\<exists>e. (r # rs) ! i = Inl e \<and> retry (k + i) e" if "i < n - k - 1" for i
      using that e n(6) by (cases i) auto
    ultimately show ?thesis using n e by auto
  next
    case False
    then show ?thesis using Cons.prems(1)
      by (intro exI [of _ "k + 1"] exI [of _ r]) (auto split: sum.split)
  qed
qed simp

lemma app_retry_limit: "app_retry n e \<Longrightarrow> n < 3"
  by (auto simp: app_retry_def split: if_splits)

lemma web_retry_limit: "default_retry n e \<Longrightarrow> n < 3"
  by (auto simp: default_retry_def authenticating_retry_def split: api_error.splits)

section \<open>Properties\<close>

text \<open>
  C35: A query ends: with either client's rule it makes four requests at most, settles on the
  answer of the last one, and that is a result or an error the rule does not try again.
\<close>

lemma queries_end:
  assumes "retry \<in> {default_retry, app_retry}" and "4 \<le> length answers"
  shows "\<exists>n. 1 \<le> n \<and> n \<le> 4 \<and> ask retry answers = Some (n, settle_answer (answers ! (n - 1)))
     \<and> (\<forall>e. settle_answer (answers ! (n - 1)) = Inl e \<longrightarrow> \<not> retry (n - 1) e)"
proof -
  have limit: "\<forall>n e. retry n e \<longrightarrow> n < 3" using assms(1) app_retry_limit web_retry_limit by blast
  note bound = query_attempts_bound [where m = 3 and k = 0 and rs = "map settle_answer answers", OF limit]
  obtain n res where "query_attempts retry 0 (map settle_answer answers) = Some (n, res)" "0 < n" "n \<le> 4"
    "res = map settle_answer answers ! (n - 1)" "\<forall>e. res = Inl e \<longrightarrow> \<not> retry (n - 1) e"
    using bound assms(2) by auto
  then show ?thesis using assms(2) by (intro exI [of _ n]) (simp add: ask_def)
qed

lemma queries_end_witness:
  "ask app_retry (replicate 4 None) = Some (4, Inl (Plain_Error ''network''))"
proof -
  obtain n where "1 \<le> n" "n \<le> 4" "ask app_retry (replicate 4 None) = Some (n, settle_answer (replicate 4 None ! (n - 1)))"
    "\<forall>e. settle_answer (replicate 4 None ! (n - 1)) = Inl e \<longrightarrow> \<not> app_retry (n - 1) e"
    using queries_end [of app_retry "replicate 4 None"] by auto
  moreover have "replicate 4 None ! (n - 1) = None" using \<open>1 \<le> n\<close> \<open>n \<le> 4\<close> by simp
  ultimately show ?thesis by (auto simp: settle_answer_def app_retry_def)
qed

text \<open>
  Which answers end at once: on both clients a result, an unauthorized or unknown resource;
  in the app every other refusal of the server from 400 to 499 as well, which the web asks
  for three more times, a rate limit among them.
\<close>

lemma refusals_retried:
  assumes "given (an_error a) = Some body" and "400 \<le> an_status a" and "an_status a < 500"
  shows "ask app_retry (Some a # rest) = Some (1, unwrap Map.empty a)
    \<and> (an_status a \<in> {401, 404} \<longrightarrow> ask default_retry (Some a # rest) = Some (1, unwrap Map.empty a))
    \<and> (an_status a \<notin> {401, 404} \<longrightarrow> ask default_retry (replicate 4 (Some a)) = Some (4, unwrap Map.empty a))"
proof -
  obtain e where e: "unwrap Map.empty a = Inl e"
    using assms(1) by (cases "an_status a = 429") (simp_all add: unwrap_unhandled)
  moreover have "is_client_error e" "error_status e = Some (an_status a)"
    "an_status a \<in> {401, 404} \<longleftrightarrow> (\<exists>b s. e = Unauthorized_Error b s \<or> e = Not_Found_Error b s)"
    using e assms(1) by (auto simp: unwrap_unhandled split: if_splits)
  ultimately have e: "unwrap Map.empty a = Inl e" "is_client_error e" "error_status e = Some (an_status a)"
    "an_status a \<in> {401, 404} \<longleftrightarrow> (\<exists>b s. e = Unauthorized_Error b s \<or> e = Not_Found_Error b s)" by simp_all
  have "\<not> app_retry n e" for n using e assms by (simp add: app_retry_def)
  moreover have "\<not> default_retry n e" if "an_status a \<in> {401, 404}" for n
    using e(4) that by (auto simp: default_retry_def authenticating_retry_def)
  moreover have "default_retry n e \<longleftrightarrow> n < 3" if "an_status a \<notin> {401, 404}" for n
    using e(2,4) that by (cases e) (auto simp: default_retry_def authenticating_retry_def)
  ultimately show ?thesis using e(1) by (simp add: ask_def settle_answer_def numeral_eq_Suc)
qed

lemma refusals_retried_witness:
  "ask default_retry (replicate 4 (Some \<lparr>an_data = None, an_error = Some (JStr ''slow down''), an_status = 429\<rparr>))
     = Some (4, Inl (Too_Many_Requests_Error (JObj [(''message'', JStr ''Too Many Requests'')]) 429))"
  using refusals_retried [of "\<lparr>an_data = None, an_error = Some (JStr ''slow down''), an_status = 429\<rparr>" "JStr ''slow down''"]
  by (simp add: given_def unwrap_unhandled)

text \<open>
  An answer is a result only when it carries data and no error, and every error status with
  a body is thrown as its class; a refusal without a body is thrown too, but as a plain
  error, which even the app's rule tries again.
\<close>

lemma unwrap_sound:
  "(unwrap Map.empty a = Inr d \<longleftrightarrow>
      an_status a \<noteq> 429 \<and> given (an_error a) = None \<and> an_data a = Some d \<and> json_truthy d)
   \<and> (given (an_error a) = None \<and> given (an_data a) = None \<and> an_status a \<noteq> 429 \<longrightarrow>
        unwrap Map.empty a = Inl (Plain_Error ''No data returned'') \<and> app_retry 0 (Plain_Error ''No data returned''))"
  by (auto simp: unwrap_unhandled given_def app_retry_def split: option.splits if_splits)

lemma unwrap_sound_witness:
  "app_retry 0 (Plain_Error ''No data returned'')
   \<and> unwrap Map.empty \<lparr>an_data = None, an_error = None, an_status = 403\<rparr> = Inl (Plain_Error ''No data returned'')"
  using unwrap_sound [of "\<lparr>an_data = None, an_error = None, an_status = 403\<rparr>"] by (simp add: given_def)

text \<open>The message found in the errors of a form is one that is there, at most ten levels down.\<close>

inductive message_within :: "nat \<Rightarrow> json \<Rightarrow> string \<Rightarrow> bool" where
  here: "is_object j \<Longrightarrow> member_text ''message'' j = Some s \<Longrightarrow> message_within n j s"
| inside: "v \<in> set (object_values j) \<Longrightarrow> message_within n v s \<Longrightarrow> message_within (Suc n) j s"

lemma first_message_within:
  "depth \<le> 10 \<Longrightarrow> first_message depth j = Some s \<Longrightarrow> message_within (10 - depth) j s"
  "depth \<le> 10 \<Longrightarrow> first_message_in depth vs = Some s \<Longrightarrow>
     depth < 10 \<and> (\<exists>v \<in> set vs. message_within (9 - depth) v s)"
proof (induction depth j and depth vs rule: first_message_first_message_in.induct)
  case (1 depth j)
  then show ?case
  proof (cases "member_text ''message'' j")
    case None
    have obj: "is_object j" and deep: "first_message_in depth (object_values j) = Some s"
      using 1(3) None by (subst (asm) first_message.simps; auto split: if_splits)+
    then obtain v where "depth < 10" "v \<in> set (object_values j)" "message_within (9 - depth) v s"
      using 1(1) [OF _ None] 1(2) by auto
    then show ?thesis using inside [of v j "9 - depth" s] by (simp add: Suc_diff_le flip: Suc_diff_Suc)
  next
    case (Some m)
    have "is_object j" "m = s" using 1(3) Some by (subst (asm) first_message.simps; auto split: if_splits)+
    then show ?thesis using Some here by blast
  qed
next
  case (3 depth v vs)
  show ?case
  proof (cases "truthy (first_message (depth + 1) v)")
    case None
    then show ?thesis using 3 by auto
  next
    case (Some m)
    then have m: "first_message (depth + 1) v = Some s" using 3(4) by (auto simp: truthy_def split: option.splits if_splits)
    have "depth < 10"
    proof (rule ccontr)
      assume "\<not> depth < 10"
      then show False using m by (subst (asm) first_message.simps) simp
    qed
    moreover have "message_within (10 - (depth + 1)) v s" using 3(1) m \<open>depth < 10\<close> by simp
    ultimately show ?thesis by auto
  qed
qed simp

end
