(* ===== verification/News_Queries.thy ===== *)
theory News_Queries
  imports Prelude Card
begin

text \<open>
  The queries of the wall: the app's (\<open>apps/app/hooks/outception/news.ts\<close>,
  \<open>apps/app/utils/queryPersist.ts\<close>) and the web's (\<open>apps/web/src/hooks/queries/news.ts\<close>,
  \<open>apps/web/src/utils/news.ts\<close>). A hook gives the query library a key and options; they are
  records here. The accumulated source metadata is a state with the effect that asks for ids
  it lacks. What the library does with a refetch while the first request runs is an argument,
  \<open>joins\<close>: version 5, which both clients depend on, joins the running request as long as there is
  no data and replaces it once there is some, so \<open>joins\<close> is true there.
\<close>

section \<open>Options of a query\<close>

text \<open>Times in milliseconds; \<open>None\<close> is \<open>Infinity\<close> for a stale time, the default for a collection time, no polling.\<close>

datatype focus_policy = Never_On_Focus | When_Stale | Always_On_Focus

record query_options =
  q_key :: "string list"
  q_enabled :: bool
  q_stale :: "int option"
  q_gc :: "int option"
  q_poll :: "int option"
  q_focus :: focus_policy
  q_throws :: bool

definition max_age :: int where
  "max_age = 1000 * 60 * 60 * 24"

definition persisted_gc_time :: int where
  "persisted_gc_time = 1000 * 60 * 60 * 25"

text \<open>What the persister keeps: the start of the key and whether the query succeeded.\<close>

definition should_dehydrate :: "string list \<Rightarrow> bool \<Rightarrow> bool" where
  "should_dehydrate key succeeded \<longleftrightarrow>
     elem_at key 0 = Some ''news'' \<and> elem_at key 1 \<noteq> Some ''search'' \<and> elem_at key 1 \<noteq> Some ''sources'' \<and> succeeded"

text \<open>A query left to the library's defaults in the app: stale after a minute, errors thrown into render.\<close>

definition app_default :: query_options where
  "app_default =
     \<lparr>q_key = [], q_enabled = True, q_stale = Some 60000, q_gc = None, q_poll = None, q_focus = When_Stale,
      q_throws = True\<rparr>"

definition app_search :: "string \<Rightarrow> query_options" where
  "app_search query = app_default
     \<lparr>q_key := [''news'', ''search'', query], q_enabled := (utf16_length (trim query) \<ge> 2),
      q_throws := False, q_stale := Some 30000\<rparr>"

definition app_sources :: query_options where
  "app_sources = app_default
     \<lparr>q_key := [''news'', ''sources''], q_throws := False, q_stale := None, q_gc := Some persisted_gc_time\<rparr>"

definition app_source_metas :: "string list \<Rightarrow> query_options" where
  "app_source_metas wanted = app_default
     \<lparr>q_key := [''news'', ''source-metas''], q_enabled := (length wanted > 0), q_throws := False,
      q_stale := Some (5 * 60000), q_gc := Some persisted_gc_time\<rparr>"

definition app_templates :: "string option \<Rightarrow> bool \<Rightarrow> query_options" where
  "app_templates country enabled = app_default
     \<lparr>q_key := [''news'', ''templates'', or_else country []], q_throws := False, q_stale := None,
      q_enabled := enabled\<rparr>"

definition app_default_cards :: "string option \<Rightarrow> bool \<Rightarrow> query_options" where
  "app_default_cards country enabled = app_default
     \<lparr>q_key := [''news'', ''default-cards'', or_else country ''null''], q_enabled := enabled, q_throws := False,
      q_stale := Some (5 * 60000), q_gc := Some persisted_gc_time\<rparr>"

definition app_heatmap :: "string option \<Rightarrow> bool \<Rightarrow> query_options" where
  "app_heatmap i active = app_default
     \<lparr>q_key := [''news'', ''heatmap'', or_else i ''undefined''], q_enabled := (truthy i \<noteq> None),
      q_stale := Some (5 * 60000), q_gc := Some persisted_gc_time,
      q_poll := (if active then Some (5 * 60000) else None), q_focus := When_Stale, q_throws := False\<rparr>"

definition app_source :: "string option \<Rightarrow> bool \<Rightarrow> query_options" where
  "app_source i active = app_default
     \<lparr>q_key := [''news'', ''source'', or_else i ''undefined''], q_enabled := (truthy i \<noteq> None),
      q_stale := Some 60000, q_gc := Some persisted_gc_time,
      q_poll := (if active then Some 60000 else None), q_focus := When_Stale, q_throws := False\<rparr>"

text \<open>The web's queries; its library defaults never throw and refetch on focus when stale.\<close>

definition web_default :: query_options where
  "web_default =
     \<lparr>q_key = [], q_enabled = True, q_stale = Some 60000, q_gc = None, q_poll = None, q_focus = When_Stale,
      q_throws = False\<rparr>"

definition web_default_cards :: "string option \<Rightarrow> bool \<Rightarrow> query_options" where
  "web_default_cards country enabled = web_default
     \<lparr>q_key := [''news'', ''default-cards'', or_else country ''undefined''], q_enabled := enabled,
      q_stale := Some 300000\<rparr>"

definition web_sources :: "bool \<Rightarrow> query_options" where
  "web_sources enabled = web_default\<lparr>q_key := [''news'', ''sources''], q_stale := None, q_enabled := enabled\<rparr>"

definition web_source_metas :: "string list \<Rightarrow> query_options" where
  "web_source_metas wanted = web_default
     \<lparr>q_key := [''news'', ''source-metas''], q_enabled := (length wanted > 0), q_stale := Some 300000\<rparr>"

definition web_templates :: "bool \<Rightarrow> query_options" where
  "web_templates enabled = web_default\<lparr>q_key := [''news'', ''templates''], q_stale := None, q_enabled := enabled\<rparr>"

definition web_source :: "string option \<Rightarrow> string \<Rightarrow> bool \<Rightarrow> bool \<Rightarrow> query_options" where
  "web_source i srt active enabled = web_default
     \<lparr>q_key := [''news'', ''source'', or_else i ''null'', srt], q_enabled := (truthy i \<noteq> None \<and> enabled),
      q_stale := Some 60000, q_poll := (if active then Some 60000 else None),
      q_focus := (if active then Always_On_Focus else When_Stale)\<rparr>"

definition web_heatmap :: "string option \<Rightarrow> bool \<Rightarrow> query_options" where
  "web_heatmap i active = web_default
     \<lparr>q_key := [''news'', ''heatmap'', or_else i ''null''], q_enabled := (truthy i \<noteq> None),
      q_stale := Some 300000, q_poll := (if active then Some 300000 else None), q_focus := When_Stale\<rparr>"

definition web_search :: "string \<Rightarrow> query_options" where
  "web_search query = web_default
     \<lparr>q_key := [''news'', ''search'', query], q_enabled := (utf16_length (trim query) \<ge> 2), q_stale := Some 30000\<rparr>"

definition default_poll_ms :: int where
  "default_poll_ms = 60000"

fun poll_ms :: "card_kind \<Rightarrow> int" where
  "poll_ms Feed = default_poll_ms"
| "poll_ms Table = 300000"
| "poll_ms Strip = 600000"

definition web_card :: "string option \<Rightarrow> card_kind \<Rightarrow> bool \<Rightarrow> bool \<Rightarrow> string option \<Rightarrow> query_options" where
  "web_card i k active enabled attached_to = web_default
     \<lparr>q_key := [''news'', ''card'', or_else i ''null'', or_else attached_to ''null''],
      q_enabled := (truthy i \<noteq> None \<and> enabled), q_stale := Some (poll_ms k),
      q_poll := (if active then Some (poll_ms k) else None),
      q_focus := (if active \<and> k = Feed then Always_On_Focus else When_Stale)\<rparr>"

definition web_story :: "string option \<Rightarrow> query_options" where
  "web_story i = web_default
     \<lparr>q_key := [''news'', ''story'', or_else i ''null''], q_enabled := (truthy i \<noteq> None), q_stale := Some 60000\<rparr>"

definition web_credits :: "bool \<Rightarrow> query_options" where
  "web_credits enabled = web_default\<lparr>q_key := [''news'', ''credits''], q_stale := None, q_enabled := enabled\<rparr>"

section \<open>Promotion\<close>

text \<open>
  The effect that pulls a card live when it becomes the top one: its data is there and older
  than the time between two polls. A time of zero is the mark of no data.
\<close>

definition pull_on_promotion :: "int \<Rightarrow> bool \<Rightarrow> string option \<Rightarrow> int option \<Rightarrow> int \<Rightarrow> bool" where
  "pull_on_promotion poll active i updated_at now \<longleftrightarrow>
     active \<and> truthy i \<noteq> None \<and>
     (case updated_at of None \<Rightarrow> False | Some u \<Rightarrow> u \<noteq> 0 \<and> now - u > poll)"

text \<open>The feed of the app in the shape its card reads.\<close>

record 'i feed_view =
  fv_success :: bool
  fv_id :: string
  fv_updated :: int
  fv_state :: signal_state
  fv_items :: "'i list"

datatype 'i card_payload = Feed_Payload "'i list" | Other_Payload card_kind

definition feed_view_of :: "string \<Rightarrow> int \<Rightarrow> signal_state \<Rightarrow> 'i card_payload \<Rightarrow> 'i feed_view" where
  "feed_view_of i updated st payload =
     \<lparr>fv_success = (st = Nominal), fv_id = i, fv_updated = updated, fv_state = st,
      fv_items = (case payload of Feed_Payload xs \<Rightarrow> xs | Other_Payload _ \<Rightarrow> [])\<rparr>"

section \<open>Requests with a fallback\<close>

text \<open>
  The web's two hand-written requests. An answer is its status and the list of its body, or
  \<open>None\<close> where the request or the parsing throws; the full roster is what the generated client
  gives or throws.
\<close>

definition source_metas_request :: "(int \<times> 'm list) option \<Rightarrow> ('e + 'm list) \<Rightarrow> 'e + 'm list" where
  "source_metas_request answer roster =
     (case answer of
        Some (status, xs) \<Rightarrow> if 200 \<le> status \<and> status < 300 then Inr xs else roster
      | None \<Rightarrow> roster)"

definition default_cards_request :: "(int \<times> string list) option \<Rightarrow> string list" where
  "default_cards_request answer =
     (case answer of
        Some (status, xs) \<Rightarrow> if 200 \<le> status \<and> status < 300 then xs else []
      | None \<Rightarrow> [])"

section \<open>The accumulated metadata\<close>

text \<open>Metadata is an id with the rest; the known ones keep their place, the fetched ones win.\<close>

definition merge_metas :: "(string \<times> 'm) list \<Rightarrow> (string \<times> 'm) list \<Rightarrow> (string \<times> 'm) list" where
  "merge_metas known_metas fetched =
     fold (\<lambda>(i, m). map_set i m) fetched (fold (\<lambda>(i, m). map_set i m) known_metas [])"

text \<open>
  The query and the hook: the data, whether the last request failed, the request that runs,
  with the metadata known when it began and the ids it asks for, every request so far, the
  ids wanted at the last render, and those the effect has asked for.
\<close>

record 'm metas_hook =
  mh_data :: "(string \<times> 'm) list option"
  mh_error :: bool
  mh_flight :: "((string \<times> 'm) list \<times> string list) option"
  mh_requests :: "string list list"
  mh_wanted :: "string list"
  mh_asked :: "string set"

definition new_metas :: "'m metas_hook" where
  "new_metas =
     \<lparr>mh_data = None, mh_error = False, mh_flight = None, mh_requests = [], mh_wanted = [], mh_asked = {}\<rparr>"

definition known_metas :: "'m metas_hook \<Rightarrow> (string \<times> 'm) list" where
  "known_metas h = or_else (mh_data h) []"

text \<open>
  A refetch: it joins the running request as long as nothing is there, or else takes its place.
  With no data yet it clears the error.
\<close>

definition fetch_metas :: "bool \<Rightarrow> 'm metas_hook \<Rightarrow> 'm metas_hook" where
  "fetch_metas joins h =
     (if joins \<and> mh_flight h \<noteq> None \<and> mh_data h = None then h
      else h\<lparr>mh_flight := Some (known_metas h, mh_wanted h), mh_requests := mh_requests h @ [mh_wanted h],
             mh_error := (mh_error h \<and> mh_data h \<noteq> None)\<rparr>)"

definition asked_effect :: "bool \<Rightarrow> 'm metas_hook \<Rightarrow> 'm metas_hook" where
  "asked_effect joins h =
     (if mh_wanted h = [] \<or> mh_error h then h
      else
        let missing = filter (\<lambda>i. i \<notin> fst ` set (known_metas h) \<and> i \<notin> mh_asked h) (mh_wanted h)
        in if missing = [] then h
           else fetch_metas joins (h\<lparr>mh_asked := mh_asked h \<union> set missing\<rparr>))"

definition commit_metas :: "bool \<Rightarrow> string list \<Rightarrow> 'm metas_hook \<Rightarrow> 'm metas_hook" where
  "commit_metas joins ids h = asked_effect joins (h\<lparr>mh_wanted := sort ids\<rparr>)"

text \<open>The running request settles; the effect runs again, since the time of the data changed.\<close>

definition settle_metas :: "bool \<Rightarrow> (string \<times> 'm) list option \<Rightarrow> 'm metas_hook \<Rightarrow> 'm metas_hook" where
  "settle_metas joins answer h =
     (case mh_flight h of
        None \<Rightarrow> h
      | Some (known, asked) \<Rightarrow>
          asked_effect joins
            (case answer of
               Some fetched \<Rightarrow> h\<lparr>mh_data := Some (merge_metas known fetched), mh_error := False, mh_flight := None\<rparr>
             | None \<Rightarrow> h\<lparr>mh_error := True, mh_flight := None\<rparr>))"

text \<open>
  What happens to the hook; the library fetches by itself on mount and when the data is stale, and
  leaves a request that runs alone then.
\<close>

datatype 'm metas_event = Commit "string list" | Settle "(string \<times> 'm) list option" | Library_Fetch

fun metas_step :: "bool \<Rightarrow> 'm metas_event \<Rightarrow> 'm metas_hook \<Rightarrow> 'm metas_hook" where
  "metas_step joins (Commit ids) h = commit_metas joins ids h"
| "metas_step joins (Settle answer) h = settle_metas joins answer h"
| "metas_step joins Library_Fetch h =
     (if mh_wanted h = [] \<or> mh_flight h \<noteq> None then h else asked_effect joins (fetch_metas joins h))"

definition run_metas :: "bool \<Rightarrow> 'm metas_event list \<Rightarrow> 'm metas_hook" where
  "run_metas joins es = fold (metas_step joins) es new_metas"

section \<open>Lemmas\<close>

lemma fold_put:
  "map_of (fold (\<lambda>(i, m). map_set i m) ys xs) i = (case map_of (rev ys) i of Some m \<Rightarrow> Some m | None \<Rightarrow> map_of xs i)
   \<and> (distinct (map fst xs) \<longrightarrow> distinct (map fst (fold (\<lambda>(i, m). map_set i m) ys xs)))
   \<and> (\<exists>zs. map fst (fold (\<lambda>(i, m). map_set i m) ys xs) = map fst xs @ zs)
   \<and> set (map fst (fold (\<lambda>(i, m). map_set i m) ys xs)) = set (map fst xs) \<union> set (map fst ys)"
proof (induction ys arbitrary: xs)
  case (Cons y ys)
  obtain j n where y: "y = (j, n)" by (cases y)
  show ?case
    using Cons [of "map_set j n xs"] distinct_put [of xs j n]
    by (auto simp: y map_of_put keys_put map_add_def split: option.splits if_splits)
qed simp

lemma merge_value:
  "map_of (merge_metas known_list fetched) i
     = (case map_of (rev fetched) i of Some m \<Rightarrow> Some m | None \<Rightarrow> map_of (rev known_list) i)"
  using fold_put [of fetched "fold (\<lambda>(i, m). map_set i m) known_list []" i] fold_put [of known_list "[]" i]
  by (simp add: merge_metas_def split: option.splits)

lemma merge_ids: "fst ` set (merge_metas known_list fetched) = fst ` set known_list \<union> fst ` set fetched"
  using fold_put [of fetched "fold (\<lambda>(i, m). map_set i m) known_list []"] fold_put [of known_list "[]"]
  by (simp add: merge_metas_def)

lemma merge_distinct: "distinct (map fst (merge_metas known_list fetched))"
  using fold_put [of fetched "fold (\<lambda>(i, m). map_set i m) known_list []"] fold_put [of known_list "[]"]
  by (simp add: merge_metas_def)

lemma fold_put_fresh: "distinct (map fst (xs @ ys)) \<Longrightarrow> fold (\<lambda>(i, m). map_set i m) ys xs = xs @ ys"
proof (induction ys arbitrary: xs)
  case (Cons y ys)
  obtain j n where y: "y = (j, n)" by (cases y)
  have "j \<notin> set (map fst xs) \<Longrightarrow> map_set j n xs = xs @ [(j, n)]"
    by (induction xs) auto
  then show ?case using Cons.IH [of "xs @ [y]"] Cons.prems by (auto simp: y)
qed simp

lemma known_fields [simp]:
  "known_metas (h\<lparr>mh_asked := A\<rparr>) = known_metas h" "known_metas (h\<lparr>mh_flight := f\<rparr>) = known_metas h"
  "known_metas (h\<lparr>mh_wanted := w\<rparr>) = known_metas h" "known_metas (h\<lparr>mh_error := e\<rparr>) = known_metas h"
  "known_metas (h\<lparr>mh_data := d\<rparr>) = or_else d []" "known_metas (h\<lparr>mh_requests := r\<rparr>) = known_metas h"
  by (simp_all add: known_metas_def)

lemma fetch_fields [simp]:
  "mh_data (fetch_metas joins h) = mh_data h" "mh_wanted (fetch_metas joins h) = mh_wanted h"
  "mh_asked (fetch_metas joins h) = mh_asked h" "known_metas (fetch_metas joins h) = known_metas h"
  by (simp_all add: fetch_metas_def)

lemma effect_fields [simp]:
  "mh_data (asked_effect joins h) = mh_data h" "mh_wanted (asked_effect joins h) = mh_wanted h"
  "known_metas (asked_effect joins h) = known_metas h"
  by (simp_all add: asked_effect_def Let_def)

text \<open>What the hook has seen: the ids it knows and those it has asked for.\<close>

definition seen_ids :: "'m metas_hook \<Rightarrow> string set" where
  "seen_ids h = mh_asked h \<union> fst ` set (known_metas h)"

lemma effect_seen:
  "seen_ids h \<subseteq> seen_ids (asked_effect joins h)"
  "\<not> mh_error h \<Longrightarrow> set (mh_wanted h) \<subseteq> seen_ids (asked_effect joins h)"
  "set (mh_wanted h) \<subseteq> seen_ids h \<Longrightarrow> asked_effect joins h = h"
  by (auto simp: seen_ids_def asked_effect_def Let_def filter_empty_conv)

text \<open>A request that runs began with the data there is.\<close>

definition flight_current :: "'m metas_hook \<Rightarrow> bool" where
  "flight_current h \<longleftrightarrow> (\<forall>known asked. mh_flight h = Some (known, asked) \<longrightarrow> known = known_metas h)"

lemma fetch_current: "flight_current h \<Longrightarrow> flight_current (fetch_metas joins h)"
  by (auto simp: flight_current_def fetch_metas_def)

lemma effect_current: "flight_current h \<Longrightarrow> flight_current (asked_effect joins h)"
  using fetch_current [of "h\<lparr>mh_asked := X\<rparr>" joins for X]
  by (simp add: asked_effect_def Let_def) (simp add: flight_current_def)

lemma step_current:
  fixes h :: "'a metas_hook"
  shows "flight_current h \<Longrightarrow> flight_current (metas_step joins e h)"
proof (cases e)
  case (Commit ids)
  assume "flight_current h"
  then have "flight_current (h\<lparr>mh_wanted := sort ids\<rparr>)" by (simp add: flight_current_def known_metas_def)
  then show ?thesis by (simp add: Commit commit_metas_def effect_current)
next
  case (Settle answer)
  assume "flight_current h"
  moreover have "mh_flight g = None \<Longrightarrow> flight_current g" for g :: "'a metas_hook" by (simp add: flight_current_def)
  ultimately show ?thesis
    by (simp add: Settle settle_metas_def effect_current split: option.split)
next
  case Library_Fetch
  assume "flight_current h"
  then show ?thesis by (simp add: Library_Fetch effect_current fetch_current)
qed

lemma run_metas_current: "flight_current (run_metas joins es)"
proof -
  have "flight_current h \<Longrightarrow> flight_current (fold (metas_step joins) es h)" for h :: "'a metas_hook"
    by (induction es arbitrary: h) (simp_all add: step_current)
  then show ?thesis by (simp add: run_metas_def) (simp add: new_metas_def flight_current_def)
qed

section \<open>Properties\<close>

text \<open>
  Metadata accumulates: a merge loses no id, lists each once, keeps the known ones in their
  place and gives every fetched id what was fetched last; merging the same answer again
  changes nothing.
\<close>

lemma merge_metas_spec:
  assumes "distinct (map fst known_list)"
  shows "fst ` set (merge_metas known_list fetched) = fst ` set known_list \<union> fst ` set fetched
     \<and> distinct (map fst (merge_metas known_list fetched))
     \<and> take (length known_list) (map fst (merge_metas known_list fetched)) = map fst known_list
     \<and> map_of (merge_metas known_list fetched) i
         = (case map_of (rev fetched) i of Some m \<Rightarrow> Some m | None \<Rightarrow> map_of known_list i)
     \<and> map_of (merge_metas (merge_metas known_list fetched) fetched) i = map_of (merge_metas known_list fetched) i"
proof -
  have known: "fold (\<lambda>(i, m). map_set i m) known_list [] = known_list"
    using fold_put_fresh [of "[]" known_list] assms by simp
  then obtain zs where "map fst (merge_metas known_list fetched) = map fst known_list @ zs"
    unfolding merge_metas_def known using fold_put [THEN conjunct2, THEN conjunct2, THEN conjunct1] by blast
  then have "take (length known_list) (map fst (merge_metas known_list fetched)) = map fst known_list" by simp
  moreover have rev: "map_of (rev xs) = map_of xs" if "distinct (map fst xs)" for xs :: "(string \<times> 'a) list"
    using that by (intro map_of_eqI) (auto simp: rev_map [symmetric] map_of_eq_Some_iff)
  ultimately show ?thesis
    using merge_ids [of known_list fetched] merge_distinct [of known_list fetched] assms
    by (simp add: merge_value rev [OF assms] rev [OF merge_distinct] split: option.split)
qed

lemma merge_metas_spec_witness:
  "map_of (merge_metas [(''a'', 1), (''b'', 2)] [(''c'', 3), (''a'', 4)]) ''a'' = Some (4 :: int)
   \<and> take 2 (map fst (merge_metas [(''a'', 1), (''b'', 2)] [(''c'', 3), (''a'', 4 :: int)])) = [''a'', ''b'']"
  using merge_metas_spec [of "[(''a'', 1), (''b'', 2)]" "[(''c'', 3), (''a'', 4 :: int)]" "''a''"]
  by (simp add: numeral_2_eq_2)

text \<open>
  The effect comes to rest: once a deck has been rendered without an error, no answer,
  failure or render of a part of that deck makes it start another request.
\<close>

definition quiet_event :: "string set \<Rightarrow> 'm metas_event \<Rightarrow> bool" where
  "quiet_event ids e =
     (case e of Commit ids' \<Rightarrow> set ids' \<subseteq> ids | Settle _ \<Rightarrow> True | Library_Fetch \<Rightarrow> False)"

lemma quiet_step:
  assumes "flight_current h" and "ids \<subseteq> seen_ids h" and "set (mh_wanted h) \<subseteq> ids" and "quiet_event ids e"
  shows "mh_requests (metas_step joins e h) = mh_requests h \<and> ids \<subseteq> seen_ids (metas_step joins e h)
     \<and> set (mh_wanted (metas_step joins e h)) \<subseteq> ids"
proof (cases e)
  case (Commit ids')
  have sub: "set ids' \<subseteq> ids" using assms(4) Commit by (simp add: quiet_event_def)
  then have "set (mh_wanted (h\<lparr>mh_wanted := sort ids'\<rparr>)) \<subseteq> seen_ids (h\<lparr>mh_wanted := sort ids'\<rparr>)"
    using assms(2) by (auto simp: seen_ids_def)
  from effect_seen(3) [OF this, of joins] show ?thesis
    using sub assms(2) by (simp add: Commit commit_metas_def seen_ids_def)
next
  case (Settle answer)
  show ?thesis
  proof (cases "mh_flight h")
    case None
    then show ?thesis using Settle assms(2,3) by (simp add: settle_metas_def)
  next
    case (Some f)
    then obtain asked where f: "f = (known_metas h, asked)" using assms(1) by (cases f) (simp add: flight_current_def)
    define g where "g = (case answer of
        Some fetched \<Rightarrow> h\<lparr>mh_data := Some (merge_metas (known_metas h) fetched), mh_error := False, mh_flight := None\<rparr>
      | None \<Rightarrow> h\<lparr>mh_error := True, mh_flight := None\<rparr>)"
    have "seen_ids h \<subseteq> seen_ids g" by (auto simp: g_def seen_ids_def merge_ids split: option.split)
    moreover have "mh_wanted g = mh_wanted h" "mh_requests g = mh_requests h"
      by (simp_all add: g_def split: option.split)
    ultimately have "asked_effect joins g = g" using effect_seen(3) [of g joins] assms(2,3) by auto
    then show ?thesis
      using Some f Settle assms(2,3) \<open>seen_ids h \<subseteq> seen_ids g\<close> \<open>mh_wanted g = mh_wanted h\<close> \<open>mh_requests g = mh_requests h\<close>
      by (simp add: settle_metas_def g_def [symmetric])
  qed
next
  case Library_Fetch
  then show ?thesis using assms(4) by (simp add: quiet_event_def)
qed

lemma metas_effect_rests:
  assumes "\<not> mh_error (run_metas joins es)" and "\<forall>e \<in> set es'. quiet_event (set ids) e"
  shows "mh_requests (run_metas joins (es @ [Commit ids] @ es')) = mh_requests (run_metas joins (es @ [Commit ids]))"
proof -
  have "flight_current h \<Longrightarrow> set ids \<subseteq> seen_ids h \<Longrightarrow> set (mh_wanted h) \<subseteq> set ids \<Longrightarrow> \<forall>e \<in> set es'. quiet_event (set ids) e \<Longrightarrow>
      mh_requests (fold (metas_step joins) es' h) = mh_requests h" for h :: "'a metas_hook"
  proof (induction es' arbitrary: h)
    case (Cons e es')
    then have "quiet_event (set ids) e" by simp
    from quiet_step [OF Cons.prems(1-3) this, of joins]
    show ?case using Cons.IH [OF step_current [OF Cons.prems(1)], of joins e] Cons.prems(4) by simp
  qed simp
  moreover have "set ids \<subseteq> seen_ids (run_metas joins (es @ [Commit ids]))"
    using effect_seen(2) [of "(run_metas joins es)\<lparr>mh_wanted := sort ids\<rparr>" joins] assms(1)
    by (simp add: run_metas_def commit_metas_def)
  moreover have "set (mh_wanted (run_metas joins (es @ [Commit ids]))) \<subseteq> set ids"
    by (simp add: run_metas_def commit_metas_def)
  ultimately show ?thesis
    using assms(2) run_metas_current [of joins "es @ [Commit ids]"] by (simp add: run_metas_def)
qed

lemma metas_effect_rests_witness:
  "mh_requests (run_metas True ([] @ [Commit [''b'', ''a'']] @ [Settle (Some [(''a'', 1 :: nat)]), Commit [''b''], Settle None]))
     = mh_requests (run_metas True ([] @ [Commit [''b'', ''a'']]) :: nat metas_hook)"
  using metas_effect_rests [of True "[]" "[Settle (Some [(''a'', 1 :: nat)]), Commit [''b''], Settle None]" "[''b'', ''a'']"]
  by (simp add: run_metas_def new_metas_def quiet_event_def)

text \<open>
  A wall whose deck only grows once there is metadata, and has no new card while the first request
  runs, with a server that answers every request. A running request, the first apart, is replaced
  when a card joins.
\<close>

definition served :: "(string \<rightharpoonup> 'm) \<Rightarrow> string list \<Rightarrow> (string \<times> 'm) list" where
  "served catalog ids = List.map_filter (\<lambda>i. map_option (Pair i) (catalog i)) ids"

inductive growing_wall :: "(string \<rightharpoonup> 'm) \<Rightarrow> 'm metas_hook \<Rightarrow> bool" for catalog where
  start: "growing_wall catalog new_metas"
| grow: "growing_wall catalog h \<Longrightarrow> set (mh_wanted h) \<subseteq> set ids \<Longrightarrow>
    mh_data h = None \<and> mh_flight h \<noteq> None \<longrightarrow> set ids = set (mh_wanted h) \<Longrightarrow>
    growing_wall catalog (metas_step True (Commit ids) h)"
| answer: "growing_wall catalog h \<Longrightarrow> mh_flight h = Some (known, asked) \<Longrightarrow>
    growing_wall catalog (metas_step True (Settle (Some (served catalog asked))) h)"
| fetch: "growing_wall catalog h \<Longrightarrow> growing_wall catalog (metas_step True Library_Fetch h)"

lemma served_ids: "fst ` set (served catalog ids) = {i \<in> set ids. catalog i \<noteq> None}"
  by (force simp: served_def List.map_filter_def)

text \<open>An id is covered when it is known, or not known to the server, or asked for by the running request.\<close>

definition covered :: "(string \<rightharpoonup> 'm) \<Rightarrow> 'm metas_hook \<Rightarrow> string \<Rightarrow> bool" where
  "covered catalog h i \<longleftrightarrow>
     i \<in> fst ` set (known_metas h) \<or> catalog i = None \<or> (\<exists>known asked. mh_flight h = Some (known, asked) \<and> i \<in> set asked)"

text \<open>The first request asks for all that is wanted.\<close>

definition first_asks_all :: "'m metas_hook \<Rightarrow> bool" where
  "first_asks_all h \<longleftrightarrow>
     (\<forall>known asked. mh_data h = None \<and> mh_flight h = Some (known, asked) \<longrightarrow> set (mh_wanted h) \<subseteq> set asked)"

definition growing_ok :: "(string \<rightharpoonup> 'm) \<Rightarrow> 'm metas_hook \<Rightarrow> bool" where
  "growing_ok catalog h \<longleftrightarrow>
     \<not> mh_error h \<and> flight_current h \<and> mh_asked h \<subseteq> set (mh_wanted h) \<and> first_asks_all h
     \<and> (\<forall>i \<in> mh_asked h. covered catalog h i)"

lemma joined_fetch: "mh_flight h \<noteq> None \<and> mh_data h = None \<Longrightarrow> fetch_metas True h = h"
  by (simp add: fetch_metas_def)

lemma fetch_ok:
  assumes "growing_ok catalog h" and "mh_flight h = None"
  shows "growing_ok catalog (fetch_metas True h)"
  using assms fetch_current [of h True]
  by (auto simp: growing_ok_def covered_def first_asks_all_def) (auto simp: fetch_metas_def)

lemma asked_effect_ok:
  assumes "growing_ok catalog h"
  shows "growing_ok catalog (asked_effect True h)
     \<and> (\<forall>i \<in> set (mh_wanted h). covered catalog (asked_effect True h) i)"
proof -
  define missing where "missing = filter (\<lambda>i. i \<notin> fst ` set (known_metas h) \<and> i \<notin> mh_asked h) (mh_wanted h)"
  show ?thesis
  proof (cases "mh_wanted h = [] \<or> missing = []")
    case True
    then have "asked_effect True h = h"
      using assms(1) by (auto simp: growing_ok_def asked_effect_def missing_def Let_def)
    moreover have "\<forall>i \<in> set (mh_wanted h). covered catalog h i"
      using True assms by (auto simp: growing_ok_def missing_def filter_empty_conv covered_def)
    ultimately show ?thesis using assms by simp
  next
    case False
    let ?g = "h\<lparr>mh_asked := mh_asked h \<union> set missing\<rparr>"
    have eff: "asked_effect True h = fetch_metas True ?g"
      using False assms(1) by (simp add: growing_ok_def asked_effect_def Let_def missing_def)
    have sub: "set missing \<subseteq> set (mh_wanted h)" by (auto simp: missing_def)
    show ?thesis
    proof (cases "mh_flight h \<noteq> None \<and> mh_data h = None")
      case True
      then obtain known asked where f: "mh_flight h = Some (known, asked)" by auto
      then have "set (mh_wanted h) \<subseteq> set asked" using assms True by (simp add: growing_ok_def first_asks_all_def)
      then have "\<forall>i \<in> set (mh_wanted h). covered catalog ?g i" using f by (auto simp: covered_def)
      moreover have "growing_ok catalog ?g"
        using assms sub calculation by (auto simp: growing_ok_def flight_current_def first_asks_all_def)
      ultimately show ?thesis unfolding eff using True by (simp add: joined_fetch)
    next
      case False
      then show ?thesis
        using assms sub fetch_current [of ?g True] unfolding eff
        by (auto simp: growing_ok_def covered_def fetch_metas_def flight_current_def first_asks_all_def)
    qed
  qed
qed

lemma growing_wall_ok:
  "growing_wall catalog h \<Longrightarrow> growing_ok catalog h \<and> (\<forall>i \<in> set (mh_wanted h). covered catalog h i)"
proof (induction rule: growing_wall.induct)
  case start
  then show ?case by (simp add: new_metas_def growing_ok_def covered_def flight_current_def first_asks_all_def)
next
  case (grow h ids)
  let ?g = "h\<lparr>mh_wanted := sort ids\<rparr>"
  have "growing_ok catalog ?g"
    using grow by (auto simp: growing_ok_def flight_current_def covered_def first_asks_all_def)
  from asked_effect_ok [OF this] show ?case by (simp add: commit_metas_def)
next
  case (answer h known asked)
  let ?g = "h\<lparr>mh_data := Some (merge_metas known (served catalog asked)), mh_error := False, mh_flight := None\<rparr>"
  have "known = known_metas h" using answer by (simp add: growing_ok_def flight_current_def)
  then have "\<forall>i \<in> mh_asked ?g. covered catalog ?g i"
    using answer by (auto simp: growing_ok_def covered_def merge_ids served_ids)
  then have "growing_ok catalog ?g"
    using answer by (simp add: growing_ok_def flight_current_def first_asks_all_def)
  from asked_effect_ok [OF this] show ?case using answer(2) by (simp add: settle_metas_def)
next
  case (fetch h)
  show ?case
  proof (cases "mh_wanted h = [] \<or> mh_flight h \<noteq> None")
    case False
    then have "growing_ok catalog (fetch_metas True h)" using fetch fetch_ok by blast
    from asked_effect_ok [OF this] show ?thesis using False by simp
  qed (use fetch in auto)
qed

text \<open>
  C34: A wall that grows gets painted, with the library as it is (a refetch joins the first request
  while that runs and replaces a later one): while the server answers every request, no card joins
  the deck before the first answer and later cards only join it, whatever a replaced request would
  have brought, once the network is at rest every card of the deck that the server has metadata
  for is known. (A card that joins before the first answer is the case that fails,
  \<open>joined_while_loading\<close>.)
\<close>

lemma growing_wall_painted:
  assumes "growing_wall catalog h" and "mh_flight h = None" and "i \<in> set (mh_wanted h)" and "catalog i = Some m"
  shows "i \<in> fst ` set (known_metas h)"
  using growing_wall_ok [OF assms(1)] assms(2-4) by (auto simp: covered_def)

lemma growing_wall_painted_witness:
  "''b'' \<in> fst ` set (known_metas (run_metas True
     [Commit [''a''], Settle (Some [(''a'', 1 :: nat)]), Commit [''a'', ''b''], Settle (Some [(''a'', 1), (''b'', 2)])]))"
proof -
  let ?c = "[''a'' \<mapsto> 1 :: nat, ''b'' \<mapsto> 2]"
  let ?h1 = "run_metas True [Commit [''a'']] :: nat metas_hook"
  let ?h2 = "metas_step True (Settle (Some [(''a'', 1)])) ?h1"
  let ?h3 = "metas_step True (Commit [''a'', ''b'']) ?h2"
  let ?h4 = "metas_step True (Settle (Some [(''a'', 1), (''b'', 2)])) ?h3"
  have serve: "served ?c [''a''] = [(''a'', 1)]" "served ?c [''a'', ''b''] = [(''a'', 1), (''b'', 2)]"
    by (simp_all add: served_def List.map_filter_simps)
  have "growing_wall ?c (metas_step True (Commit [''a'']) new_metas)"
    by (rule growing_wall.grow [OF growing_wall.start]) (simp_all add: new_metas_def)
  then have 1: "growing_wall ?c ?h1" by (simp add: run_metas_def)
  have f1: "mh_flight ?h1 = Some ([], [''a''])" by code_simp
  have 2: "growing_wall ?c ?h2" using growing_wall.answer [OF 1 f1] by (simp only: serve)
  have w: "mh_wanted ?h2 = [''a'']" "mh_flight ?h2 = None" by code_simp+
  have 3: "growing_wall ?c ?h3" by (rule growing_wall.grow [OF 2]) (use w in simp_all)
  have f3: "mh_flight ?h3 = Some ([(''a'', 1)], [''a'', ''b''])" by code_simp
  have 4: "growing_wall ?c ?h4" using growing_wall.answer [OF 3 f3] by (simp only: serve)
  have "mh_flight ?h4 = None" "''b'' \<in> set (mh_wanted ?h4)" by code_simp+
  then show ?thesis using growing_wall_painted [OF 4, of "''b''"] by (simp add: run_metas_def)
qed

text \<open>
  Where the library joins the first request while it runs, as its version 5 does, a card that
  joins the deck meanwhile is marked as asked for and never asked for; so is, with either
  behaviour, a card whose request was replaced while it was off the deck.
\<close>

lemma joined_while_loading:
  "let h = run_metas True [Commit [''a''], Commit [''a'', ''b''], Settle (Some [(''a'', 1 :: nat)])]
   in mh_flight h = None \<and> \<not> mh_error h \<and> ''b'' \<in> set (mh_wanted h) \<and> ''b'' \<notin> fst ` set (known_metas h)
      \<and> mh_requests h = [[''a'']]"
  by code_simp

lemma replaced_while_off:
  "let h = run_metas False [Commit [''a''], Settle (Some [(''a'', 1 :: nat)]), Commit [''a'', ''b''], Commit [''a'', ''c''],
             Settle (Some [(''a'', 1), (''c'', 3)]), Commit [''a'', ''b'', ''c'']]
   in mh_flight h = None \<and> \<not> mh_error h \<and> ''b'' \<in> set (mh_wanted h) \<and> ''b'' \<notin> fst ` set (known_metas h)"
  by code_simp

text \<open>
  A query of the app the persister keeps is not collected before what it restores is too old,
  templates excepted, which are collected after the default time; no query of the wall throws
  into render, and only the top card polls.
\<close>

lemma persisted_outlive:
  assumes "q \<in> {app_source_metas w, app_default_cards c e, app_heatmap i a, app_source i a}"
  shows "should_dehydrate (q_key q) True \<and> (\<exists>g. q_gc q = Some g \<and> max_age < g) \<and> \<not> q_throws q
     \<and> (q_poll q \<noteq> None \<longrightarrow> a)"
  using assms
  by (auto simp: app_source_metas_def app_default_cards_def app_heatmap_def app_source_def app_default_def
      should_dehydrate_def elem_at_def max_age_def persisted_gc_time_def split: if_splits)

lemma templates_collected_early:
  "should_dehydrate (q_key (app_templates c e)) True \<and> q_gc (app_templates c e) = None"
  by (simp add: app_templates_def app_default_def should_dehydrate_def elem_at_def)

text \<open>
  How old the rows of the top card can get: with the pull on promotion and the polls after
  it, never older than two polls. A poll is taken to be answered at once.
\<close>

definition last_fetch :: "int \<Rightarrow> string \<Rightarrow> int \<Rightarrow> int \<Rightarrow> int \<Rightarrow> int" where
  "last_fetch poll i updated_at promoted now =
     (if now - promoted \<ge> poll then promoted + poll * ((now - promoted) div poll)
      else if pull_on_promotion poll True (Some i) (Some updated_at) promoted then promoted else updated_at)"

lemma shown_rows_age:
  assumes "0 < poll" and "i \<noteq> []" and "0 < updated_at" and "updated_at \<le> promoted" and "promoted \<le> now"
  shows "now - last_fetch poll i updated_at promoted now < 2 * poll"
proof -
  have "now - promoted < poll * ((now - promoted) div poll) + poll"
    using assms(1) by (metis add.commute add_less_cancel_left mult.commute div_mult_mod_eq pos_mod_bound)
  then show ?thesis
    using assms by (auto simp: last_fetch_def pull_on_promotion_def truthy_def)
qed

lemma shown_rows_age_witness: "130000 - last_fetch 60000 ''a'' 10000 40000 130000 < 120000"
  using shown_rows_age [of 60000 "''a''" 10000 40000 130000] by simp

end
