(* ===== verification/Swipe_Gesture.thy ===== *)
theory Swipe_Gesture
  imports Deck_View "HOL-Library.Word"
begin

text \<open>
  The cards of the deck as sheets a finger moves
  (\<open>apps/web/src/components/News/SwipeCard.tsx\<close>, \<open>apps/app/components/News/SwipeCard.tsx\<close>,
  \<open>apps/app/utils/summaryOpen.ts\<close>): where a card rests at its depth, how it tilts, and what a
  drag that ends does. Lengths, speeds and angles are real numbers; springs are left out.
\<close>

section \<open>Where a card rests\<close>

record card_slot =
  sl_x :: real
  sl_y :: real
  sl_scale :: real
  sl_z :: int
  sl_tilt :: real

definition peek_x :: real where "peek_x = 56"
definition peek_x_mobile :: real where "peek_x_mobile = 24"
definition peek_tilt :: real where "peek_tilt = 5 / 2"

definition scale_table :: "real list" where
  "scale_table = [1, 9 / 10, 82 / 100]"

text \<open>The web's slot takes the peek as an argument; past the table its scale is 0.78.\<close>

definition web_slot :: "int \<Rightarrow> real \<Rightarrow> real \<Rightarrow> card_slot" where
  "web_slot depth peek rtl_sign =
     (if depth = 0 then \<lparr>sl_x = 0, sl_y = 0, sl_scale = 1, sl_z = 30, sl_tilt = 0\<rparr>
      else if depth < 0 then
        \<lparr>sl_x = rtl_sign * - peek, sl_y = 0, sl_scale = 9 / 10, sl_z = 10, sl_tilt = - peek_tilt\<rparr>
      else
        \<lparr>sl_x = rtl_sign * peek * of_int depth, sl_y = 0, sl_scale = or_else (elem_at scale_table depth) (78 / 100),
         sl_z = 30 - depth, sl_tilt = peek_tilt * of_int depth\<rparr>)"

text \<open>The app's has the small peek of its own, and 0.8.\<close>

definition app_slot :: "int \<Rightarrow> real \<Rightarrow> card_slot" where
  "app_slot depth rtl_sign =
     (if depth = 0 then \<lparr>sl_x = 0, sl_y = 0, sl_scale = 1, sl_z = 30, sl_tilt = 0\<rparr>
      else if depth < 0 then
        \<lparr>sl_x = rtl_sign * - peek_x_mobile, sl_y = 0, sl_scale = 9 / 10, sl_z = 10, sl_tilt = - peek_tilt\<rparr>
      else
        \<lparr>sl_x = rtl_sign * peek_x_mobile * of_int depth, sl_y = 0,
         sl_scale = or_else (elem_at scale_table depth) (8 / 10), sl_z = 30 - depth, sl_tilt = peek_tilt * of_int depth\<rparr>)"

text \<open>
  The jitter of the pile: a hash of the id over 32 bits, of the first code unit of each
  character, taken to the angles from -0.8 to 0.8 degrees.
\<close>

definition lead_units :: "string \<Rightarrow> nat list" where
  "lead_units s = filter (\<lambda>u. \<not> (56320 \<le> u \<and> u < 57344)) (utf16_bytes (map of_char s))"

definition jitter_hash :: "string \<Rightarrow> 32 word" where
  "jitter_hash s = foldl (\<lambda>h u. h * 31 + of_nat u) 0 (lead_units s)"

definition jitter_for :: "string \<Rightarrow> real" where
  "jitter_for s =
     (of_int (js_rem (js_rem (sint (jitter_hash s)) 100 + 100) 100) / 100 - 1 / 2) * (16 / 10)"

definition rest_tilt :: "int \<Rightarrow> card_slot \<Rightarrow> string \<Rightarrow> real" where
  "rest_tilt depth slot i = sl_tilt slot + (if depth = 0 then 0 else jitter_for i)"

section \<open>A drag\<close>

definition max_rotate :: real where "max_rotate = 16"
definition distance_ratio :: real where "distance_ratio = 22 / 100"
definition velocity_trigger :: real where "velocity_trigger = 500"
definition vertical_bias :: real where "vertical_bias = 3 / 2"
definition max_commit_distance :: real where "max_commit_distance = 90"

text \<open>The half the card is held by, and the tilt while it is dragged.\<close>

definition grab_dir :: "real \<Rightarrow> real \<Rightarrow> real \<Rightarrow> real" where
  "grab_dir client_y box_top height = (if client_y < box_top + height / 2 then 1 else - 1)"

definition drag_rotate :: "real \<Rightarrow> real \<Rightarrow> real \<Rightarrow> real \<Rightarrow> real" where
  "drag_rotate rtl_sign grab x width = rtl_sign * grab * max (- 1) (min (x / width) 1) * max_rotate"

datatype direction = To_Left | To_Right | Up | Down

definition is_next_dir :: "direction \<Rightarrow> bool \<Rightarrow> bool" where
  "is_next_dir d rtl \<longleftrightarrow> d = Up \<or> d = (if rtl then To_Right else To_Left)"

record drag_end =
  off_x :: real
  off_y :: real
  vel_x :: real
  vel_y :: real

record card_box =
  box_width :: real
  box_height :: real

definition drag_dir :: "bool \<Rightarrow> drag_end \<Rightarrow> direction" where
  "drag_dir horiz d =
     (if horiz then (if off_x d < 0 then To_Left else To_Right) else (if off_y d < 0 then Up else Down))"

definition allowed_move :: "direction \<Rightarrow> bool \<Rightarrow> bool \<Rightarrow> bool \<Rightarrow> swipe_move option" where
  "allowed_move dir rtl can_next can_prev =
     (if is_next_dir dir rtl \<and> can_next then Some Next
      else if \<not> is_next_dir dir rtl \<and> can_prev then Some Prev else None)"

definition web_drag_end :: "bool \<Rightarrow> bool \<Rightarrow> bool \<Rightarrow> card_box \<Rightarrow> drag_end \<Rightarrow> swipe_move option" where
  "web_drag_end rtl can_next can_prev box d =
     (let horiz = (\<bar>off_x d\<bar> * vertical_bias \<ge> \<bar>off_y d\<bar>);
          dir = drag_dir horiz d;
          reach = (if horiz then box_width box else box_height box);
          offset = (if horiz then off_x d else off_y d);
          vel = (if horiz then vel_x d else vel_y d);
          committed = (\<bar>offset\<bar> > reach * distance_ratio \<or> \<bar>vel\<bar> > velocity_trigger)
      in if committed \<and> is_next_dir dir rtl \<and> can_next then Some Next
         else if committed \<and> \<not> is_next_dir dir rtl \<and> can_prev then Some Prev
         else None)"

definition app_drag_end :: "bool \<Rightarrow> bool \<Rightarrow> bool \<Rightarrow> card_box \<Rightarrow> drag_end \<Rightarrow> swipe_move option" where
  "app_drag_end rtl can_next can_prev box d =
     (let horiz = (\<bar>off_x d\<bar> \<ge> \<bar>off_y d\<bar>);
          offset = (if horiz then off_x d else off_y d);
          vel = (if horiz then vel_x d else vel_y d);
          reach = (if horiz then box_width box else box_height box);
          threshold = min (reach * distance_ratio) max_commit_distance
      in if \<bar>offset\<bar> > threshold \<or> \<bar>vel\<bar> > velocity_trigger
         then allowed_move (drag_dir horiz d) rtl can_next can_prev
         else None)"

text \<open>A stroke over an open summary of the app, handed to the top card.\<close>

record summary_open =
  so_open :: bool
  so_handler :: "(bool \<times> bool \<times> bool) option"
  so_fired :: nat

definition set_summary_swipe_handler :: "(bool \<times> bool \<times> bool) option \<Rightarrow> summary_open \<Rightarrow> summary_open" where
  "set_summary_swipe_handler h s = s\<lparr>so_handler := h\<rparr>"

definition set_summary_open :: "bool \<Rightarrow> summary_open \<Rightarrow> summary_open" where
  "set_summary_open v s = (if v = so_open s then s else s\<lparr>so_open := v, so_fired := so_fired s + 1\<rparr>)"

definition summary_stroke :: "real \<Rightarrow> summary_open \<Rightarrow> swipe_move option" where
  "summary_stroke dx s =
     (case so_handler s of
        None \<Rightarrow> None
      | Some (rtl, can_next, can_prev) \<Rightarrow> allowed_move (if dx < 0 then To_Left else To_Right) rtl can_next can_prev)"

section \<open>The click that ends a drag\<close>

text \<open>
  The guard of the web deck: a press that became a drag swallows the click of its release.
  The events come in the order the browser sends them.
\<close>

datatype pointer_event = Press | Drag_Start | Release_Click

definition swallow_click_after_drag :: "bool \<Rightarrow> bool \<times> bool" where
  "swallow_click_after_drag pressed = (pressed, False)"

fun pointer_step :: "bool \<Rightarrow> pointer_event \<Rightarrow> bool \<times> bool option" where
  "pointer_step pressed Press = (False, None)"
| "pointer_step pressed Drag_Start = (True, None)"
| "pointer_step pressed Release_Click =
     (let (swallowed, pressed') = swallow_click_after_drag pressed in (pressed', Some swallowed))"

text \<open>For every click, whether it was swallowed.\<close>

fun clicks_swallowed :: "bool \<Rightarrow> pointer_event list \<Rightarrow> bool list" where
  "clicks_swallowed pressed [] = []"
| "clicks_swallowed pressed (e # es) =
     (case pointer_step pressed e of
        (pressed', None) \<Rightarrow> clicks_swallowed pressed' es
      | (pressed', Some b) \<Rightarrow> b # clicks_swallowed pressed' es)"

section \<open>Lemmas\<close>

lemma rem_mod_100: "js_rem (js_rem a 100 + 100) 100 = a mod 100"
  by (rule js_rem_mod) simp

lemma abs_of_if: "\<bar>if b then x else y\<bar> = (if b then \<bar>x\<bar> else \<bar>y\<bar> :: real)"
  by simp

lemma allowed_move_cases:
  "allowed_move dir rtl can_next can_prev =
     (if is_next_dir dir rtl then if can_next then Some Next else None else if can_prev then Some Prev else None)"
  by (simp add: allowed_move_def)

lemma web_drag_end_eq:
  "web_drag_end rtl can_next can_prev box d =
     (let horiz = (\<bar>off_x d\<bar> * vertical_bias \<ge> \<bar>off_y d\<bar>)
      in if \<bar>if horiz then off_x d else off_y d\<bar> > (if horiz then box_width box else box_height box) * distance_ratio
            \<or> \<bar>if horiz then vel_x d else vel_y d\<bar> > velocity_trigger
         then allowed_move (drag_dir horiz d) rtl can_next can_prev else None)"
  by (simp add: web_drag_end_def allowed_move_def Let_def)

section \<open>Properties\<close>

text \<open>
  Whatever its id, a card leans at most 0.8 degrees from its place in the pile, and no drag
  tilts it past sixteen.
\<close>

lemma tilts_bounded:
  assumes "\<bar>s\<bar> = 1" and "\<bar>g\<bar> = 1"
  shows "- 8 / 10 \<le> jitter_for i \<and> jitter_for i < 8 / 10 \<and> \<bar>drag_rotate s g x w\<bar> \<le> 16"
proof -
  have "0 \<le> sint (jitter_hash i) mod 100" "sint (jitter_hash i) mod 100 < 100" by simp_all
  then have j: "0 \<le> real_of_int (sint (jitter_hash i) mod 100)" "real_of_int (sint (jitter_hash i) mod 100) \<le> 99"
    by linarith+
  have "\<bar>max (- 1) (min (x / w) 1)\<bar> \<le> 1" by linarith
  then have "\<bar>drag_rotate s g x w\<bar> \<le> 16"
    using assms by (simp add: drag_rotate_def max_rotate_def abs_mult)
  then show ?thesis using j by (simp add: jitter_for_def rem_mod_100)
qed

lemma tilts_bounded_witness: "jitter_for ''bbc'' < 8 / 10"
  using tilts_bounded [of 1 1 "''bbc''" 0 1] by simp

text \<open>The cards of the window lie over one another in their order: the top one, the next, the one before.\<close>

lemma pile_order:
  "sl_z (web_slot 0 p r) > sl_z (web_slot 1 p r) \<and> sl_z (web_slot 1 p r) > sl_z (web_slot (- 1) p r)
   \<and> sl_z (app_slot 0 r) > sl_z (app_slot 1 r) \<and> sl_z (app_slot 1 r) > sl_z (app_slot (- 1) r)"
  by (simp add: web_slot_def app_slot_def)

text \<open>
  A right-to-left deck is the mirror of a left-to-right one, for both clients: a stroke
  turned around sideways does there what the stroke did.
\<close>

lemma mirrored_stroke:
  assumes "off_x d \<noteq> 0" and "d' = d\<lparr>off_x := - off_x d, vel_x := - vel_x d\<rparr>"
  shows "web_drag_end (\<not> rtl) can_next can_prev box d' = web_drag_end rtl can_next can_prev box d
     \<and> app_drag_end (\<not> rtl) can_next can_prev box d' = app_drag_end rtl can_next can_prev box d"
proof -
  have "allowed_move (drag_dir horiz d') (\<not> rtl) can_next can_prev = allowed_move (drag_dir horiz d) rtl can_next can_prev"
    for horiz
    using assms by (auto simp: allowed_move_def drag_dir_def is_next_dir_def)
  moreover have "\<bar>off_x d'\<bar> = \<bar>off_x d\<bar>" "\<bar>vel_x d'\<bar> = \<bar>vel_x d\<bar>" "off_y d' = off_y d" "vel_y d' = vel_y d"
    by (simp_all add: assms(2))
  ultimately show ?thesis
    by (simp add: web_drag_end_eq app_drag_end_def Let_def abs_of_if)
qed

lemma mirrored_stroke_witness:
  "web_drag_end True True True \<lparr>box_width = 600, box_height = 600\<rparr> \<lparr>off_x = 200, off_y = 10, vel_x = 0, vel_y = 0\<rparr> = Some Next"
proof -
  let ?d = "\<lparr>off_x = - 200, off_y = 10, vel_x = 0, vel_y = 0\<rparr> :: drag_end"
  have "web_drag_end False True True \<lparr>box_width = 600, box_height = 600\<rparr> ?d = Some Next"
    by (simp add: web_drag_end_def drag_dir_def is_next_dir_def vertical_bias_def distance_ratio_def)
  then show ?thesis using mirrored_stroke [of ?d "?d\<lparr>off_x := 200\<rparr>" False True True] by simp
qed

text \<open>
  The app asks for no more than the web: on a card as big, a stroke that is sideways for both
  and moves the web's deck moves the app's the same way.
\<close>

lemma app_as_eager:
  assumes "web_drag_end rtl can_next can_prev box d = Some m" and "\<bar>off_y d\<bar> \<le> \<bar>off_x d\<bar>"
  shows "app_drag_end rtl can_next can_prev box d = Some m"
proof -
  have horiz: "\<bar>off_x d\<bar> * vertical_bias \<ge> \<bar>off_y d\<bar>" using assms(2) by (simp add: vertical_bias_def)
  show ?thesis
    using assms horiz by (auto simp: web_drag_end_eq app_drag_end_def Let_def min_less_iff_disj split: if_splits)
qed

lemma app_as_eager_witness:
  "app_drag_end False True True \<lparr>box_width = 600, box_height = 600\<rparr> \<lparr>off_x = - 200, off_y = 10, vel_x = 0, vel_y = 0\<rparr> = Some Next"
  by (rule app_as_eager)
    (simp_all add: web_drag_end_def drag_dir_def is_next_dir_def vertical_bias_def distance_ratio_def)

text \<open>
  A stroke moves the deck only in a way that is open to it, only past the distance or the
  speed, and then to the side the finger went; the speed's own side does not count, so a drag
  to one side that ends in a flick to the other goes with the drag.
\<close>

lemma stroke_sound:
  assumes "web_drag_end rtl can_next can_prev box d = Some m \<or> app_drag_end rtl can_next can_prev box d = Some m"
  shows "(m = Next \<longrightarrow> can_next) \<and> (m = Prev \<longrightarrow> can_prev)
     \<and> (\<exists>horiz. m = (if is_next_dir (drag_dir horiz d) rtl then Next else Prev)
          \<and> (\<bar>if horiz then vel_x d else vel_y d\<bar> > velocity_trigger
             \<or> \<bar>if horiz then off_x d else off_y d\<bar>
                 > min ((if horiz then box_width box else box_height box) * distance_ratio) max_commit_distance))"
proof -
  have "\<exists>horiz. allowed_move (drag_dir horiz d) rtl can_next can_prev = Some m
      \<and> (\<bar>if horiz then vel_x d else vel_y d\<bar> > velocity_trigger
         \<or> \<bar>if horiz then off_x d else off_y d\<bar>
             > min ((if horiz then box_width box else box_height box) * distance_ratio) max_commit_distance)"
    using assms by (auto simp: web_drag_end_eq app_drag_end_def Let_def min_less_iff_disj split: if_splits)
  then show ?thesis by (force simp: allowed_move_cases split: if_splits)
qed

lemma stroke_sound_witness:
  "\<exists>horiz. Next = (if is_next_dir (drag_dir horiz \<lparr>off_x = - 200, off_y = 10, vel_x = 900, vel_y = 0\<rparr>) False then Next else Prev)"
proof -
  let ?d = "\<lparr>off_x = - 200, off_y = 10, vel_x = 900, vel_y = 0\<rparr> :: drag_end"
  have "web_drag_end False True True \<lparr>box_width = 600, box_height = 600\<rparr> ?d = Some Next"
    by (simp add: web_drag_end_def drag_dir_def is_next_dir_def vertical_bias_def distance_ratio_def)
  then show ?thesis using stroke_sound [of False True True "\<lparr>box_width = 600, box_height = 600\<rparr>" ?d Next] by blast
qed

text \<open>
  A press and its click: the click is swallowed exactly when the press became a drag, whatever
  came before.
\<close>

lemma click_swallowed:
  "clicks_swallowed pressed (Press # replicate n Drag_Start @ [Release_Click]) = [0 < n]
   \<and> clicks_swallowed pressed (Press # replicate n Drag_Start @ [Release_Click, Release_Click]) = [0 < n, False]"
proof -
  have "clicks_swallowed b (replicate n Drag_Start @ es) = clicks_swallowed (b \<or> 0 < n) es" for b es
    by (induction n arbitrary: b) simp_all
  then show ?thesis by (simp add: swallow_click_after_drag_def)
qed

end
