(* ===== verification/Heatmap.thy ===== *)
theory Heatmap
  imports Squarify Js_Sort Timeline Url Failed_Sources Card
begin

text \<open>
  A table card as both clients draw it: \<open>apps/web/src/components/News/TableCard.tsx\<close> and
  \<open>apps/app/components/News/HeatmapCard.tsx\<close>. The tiles in falling order of weight, laid out
  by the treemap of \<open>Squarify\<close> over dampened weights, coloured by the change of the day, with
  the rows of type a tile has room for and the page it leads to. Numbers are real, so weights
  and changes are finite; the measured box and the answer of the query are arguments.
  Borders, fonts and the accessible name are left out.
\<close>

section \<open>Colours\<close>

definition heat_neutral_rgb :: "int list" where
  "heat_neutral_rgb = [65, 69, 84]"

definition heat_gain_rgb :: "int list" where
  "heat_gain_rgb = [38, 189, 82]"

definition heat_loss_rgb :: "int list" where
  "heat_loss_rgb = [242, 54, 69]"

definition full_heat_percent :: real where
  "full_heat_percent = 3"

lemmas heat_constants = heat_neutral_rgb_def heat_gain_rgb_def heat_loss_rgb_def full_heat_percent_def

definition heat_strength :: "real \<Rightarrow> real" where
  "heat_strength change =
     (let heat = min (\<bar>change\<bar> / full_heat_percent) 1 powr 0.45
      in 0.45 + 0.55 * heat)"

text \<open>The three channels; the string around them is the style that is set.\<close>

definition heat_channels :: "real \<Rightarrow> int list" where
  "heat_channels change =
     (if change = 0 then heat_neutral_rgb
      else
        let anchor = if 0 < change then heat_gain_rgb else heat_loss_rgb
        in map (\<lambda>(neutral, a). js_round (neutral + (a - neutral) * heat_strength change))
             (zip heat_neutral_rgb anchor))"

definition heat_background :: "real \<Rightarrow> string" where
  "heat_background change = ''rgb('' @ join_with '', '' (map show_int (heat_channels change)) @ '')''"

section \<open>Weights\<close>

text \<open>One pass of the loop: nothing above a third, roughly, of the sum before the pass.\<close>

definition cap_pass :: "real list \<Rightarrow> real list" where
  "cap_pass damped = (let cap = sum_list damped * 0.32 in map (\<lambda>weight. min weight cap) damped)"

fun cap_passes :: "nat \<Rightarrow> real list \<Rightarrow> real list" where
  "cap_passes 0 damped = damped"
| "cap_passes (Suc n) damped = (if sum_list damped \<le> 0 then damped else cap_passes n (cap_pass damped))"

definition dampen_weights :: "real list \<Rightarrow> real list" where
  "dampen_weights weights = cap_passes 2 (map (\<lambda>weight. sqrt (max weight 0)) weights)"

section \<open>Tiles\<close>

record heat_tile =
  symbol :: string
  weight :: real
  change_percent :: real
  tile_label :: "string option"
  tile_url :: "string option"
  tile_logo :: "string option"

definition order_tiles :: "heat_tile list \<Rightarrow> heat_tile list" where
  "order_tiles tiles = js_sort (by_key_desc weight) tiles"

definition tile_rects :: "heat_tile list \<Rightarrow> real \<Rightarrow> real \<Rightarrow> treemap_rect list" where
  "tile_rects tiles width height = squarify (map Some (dampen_weights (map weight tiles))) width height"

definition quote_url :: "string \<Rightarrow> string \<Rightarrow> string" where
  "quote_url heatmapId ticker =
     (if heatmapId = ''heatmap-crypto''
      then ''https://finance.yahoo.com/quote/'' @ encode_uri_component ticker @ ''-USD''
      else ''https://finance.yahoo.com/quote/'' @ encode_uri_component ticker)"

text \<open>\<open>tile.url ?? (tile.label ? undefined : quoteUrl(...))\<close>, before the link guard.\<close>

definition tile_target :: "string \<Rightarrow> heat_tile \<Rightarrow> string option" where
  "tile_target cid tile =
     (case tile_url tile of
        Some u \<Rightarrow> Some u
      | None \<Rightarrow> (if truthy (tile_label tile) \<noteq> None then None else Some (quote_url cid (symbol tile))))"

text \<open>
  \<open>openExternalUrl\<close> of the app (\<open>apps/app/utils/news.ts\<close>): what is handed to the opener of the
  system and, when that refuses, to the browser inside the app.
\<close>

datatype opened = By_System string | In_App_Browser string

definition open_external_url :: "(string \<Rightarrow> bool) \<Rightarrow> string option \<Rightarrow> opened list" where
  "open_external_url refuses url =
     (if is_http_url url
      then (case url of None \<Rightarrow> []
            | Some u \<Rightarrow> By_System u # (if refuses u then [In_App_Browser u] else []))
      else [])"

section \<open>Labels\<close>

text \<open>A dot between spaces, U+00B7 in its two bytes.\<close>

definition note_mark :: string where
  "note_mark = CHR '' '' # char_of (194::nat) # char_of (183::nat) # '' ''"

text \<open>\<open>tile.label ? tile.label.split(mark, 2) : [undefined, undefined]\<close>.\<close>

definition split_label :: "string option \<Rightarrow> string option \<times> string option" where
  "split_label label =
     (case truthy label of
        None \<Rightarrow> (None, None)
      | Some l \<Rightarrow>
          (case break_at note_mark l of (before, after) \<Rightarrow>
             (Some before, map_option (\<lambda>rest. fst (break_at note_mark rest)) after)))"

text \<open>\<open>x.toFixed(2)\<close> below 10 to the 21: the nearest hundredth, the larger one of two.\<close>

definition two_digits :: "nat \<Rightarrow> string" where
  "two_digits n = [digit_char (n div 10), digit_char (n mod 10)]"

definition to_fixed_2 :: "real \<Rightarrow> string" where
  "to_fixed_2 x =
     (let n = nat \<lfloor>\<bar>x\<bar> * 100 + 1 / 2\<rfloor>
      in (if x < 0 then ''-'' else []) @ show_nat (n div 100) @ ''.'' @ two_digits (n mod 100))"

definition percent_text :: "real \<Rightarrow> string" where
  "percent_text change = (if 0 < change then ''+'' else []) @ to_fixed_2 change @ ''%''"

record tile_face =
  face_logo :: "(string \<times> nat) option"
  face_symbol :: string
  face_value :: "string option"
  face_note :: "string option"
  face_tiny :: bool

text \<open>
  What both clients write on a tile; they differ in the logo they accept and in its larger
  size. An empty note is not drawn.
\<close>

definition label_rows :: "string option \<Rightarrow> nat \<Rightarrow> heat_tile \<Rightarrow> real \<Rightarrow> real \<Rightarrow> tile_face option" where
  "label_rows logo large tile width height =
     (if width < 26 \<or> height < 16 then None
      else
        let (label_main, label_note) = split_label (tile_label tile);
            show_logo = truthy logo \<noteq> None \<and> 56 \<le> width \<and> 64 \<le> height;
            logo_size = (if 120 \<le> width \<and> 120 \<le> height then large else 20)
        in Some \<lparr>face_logo = (if show_logo then map_option (\<lambda>l. (l, logo_size)) logo else None),
                 face_symbol = symbol tile,
                 face_value = (if 34 \<le> height
                               then Some (or_else label_main (percent_text (change_percent tile)))
                               else None),
                 face_note = (if 48 \<le> height then truthy label_note else None),
                 face_tiny = (width < 48 \<or> height < 34)\<rparr>)"

definition web_tile_label :: "heat_tile \<Rightarrow> real \<Rightarrow> real \<Rightarrow> tile_face option" where
  "web_tile_label tile = label_rows (safe_external_href (tile_logo tile)) 32 tile"

definition app_tile_label :: "heat_tile \<Rightarrow> real \<Rightarrow> real \<Rightarrow> tile_face option" where
  "app_tile_label tile = label_rows (tile_logo tile) 30 tile"

section \<open>The card\<close>

record drawn_tile =
  drawn_rect :: treemap_rect
  drawn_color :: string
  drawn_link :: "string option"
  drawn_face :: "tile_face option"

datatype map_body = Map_Skeleton | Map_Failed | Map_Tiles "drawn_tile list"

text \<open>\<open>if (!rect || !(rect.width > 1) || !(rect.height > 1)) return null\<close>.\<close>

definition draw_tile ::
  "(heat_tile \<Rightarrow> real \<Rightarrow> real \<Rightarrow> tile_face option) \<Rightarrow> (heat_tile \<Rightarrow> string option) \<Rightarrow>
   treemap_rect option \<Rightarrow> heat_tile \<Rightarrow> drawn_tile option" where
  "draw_tile face link rect tile =
     (case rect of
        None \<Rightarrow> None
      | Some r \<Rightarrow>
          (if 1 < rect_width r \<and> 1 < rect_height r
           then Some \<lparr>drawn_rect = r, drawn_color = heat_background (change_percent tile),
                      drawn_link = link tile,
                      drawn_face = face tile (rect_width r) (rect_height r)\<rparr>
           else None))"

definition draw_tiles ::
  "(heat_tile \<Rightarrow> real \<Rightarrow> real \<Rightarrow> tile_face option) \<Rightarrow> (heat_tile \<Rightarrow> string option) \<Rightarrow>
   heat_tile list \<Rightarrow> real \<Rightarrow> real \<Rightarrow> drawn_tile list" where
  "draw_tiles face link tiles width height =
     (let rects = tile_rects tiles width height
      in concat (map (\<lambda>(i, tile). case draw_tile face link (elem_at rects (int i)) tile of
                          None \<Rightarrow> [] | Some d \<Rightarrow> [d])
           (zip [0..<length tiles] tiles)))"

text \<open>
  The body of the card on the web. The payload is \<open>None\<close> until the card of the query is a
  table card.
\<close>

definition web_map_body ::
  "string \<Rightarrow> bool \<Rightarrow> heat_tile list option \<Rightarrow> real \<Rightarrow> real \<Rightarrow> map_body" where
  "web_map_body cid loading payload width height =
     (let tiles = order_tiles (or_else payload [])
      in if loading then Map_Skeleton
         else if tiles = [] then Map_Failed
         else Map_Tiles (draw_tiles web_tile_label (\<lambda>tile. safe_external_href (tile_target cid tile))
                tiles width height))"

text \<open>
  In the app nothing is drawn before the box is measured, a wall read back from storage shows
  the skeleton until it is there, and a press goes through \<open>openExternalUrl\<close>: the target that
  passes its guard.
\<close>

definition app_map_body ::
  "string \<Rightarrow> bool \<Rightarrow> bool \<Rightarrow> heat_tile list option \<Rightarrow> real \<Rightarrow> real \<Rightarrow> map_body" where
  "app_map_body cid loading restoring payload width height =
     (let tiles = order_tiles (or_else payload [])
      in if loading \<or> restoring \<and> payload = None then Map_Skeleton
         else if tiles = [] then Map_Failed
         else if 0 < width \<and> 0 < height
         then Map_Tiles (draw_tiles app_tile_label (tile_target cid) tiles width height)
         else Map_Tiles [])"

text \<open>The name without the suffix of the catalog, on both clients.\<close>

definition table_name :: "string \<Rightarrow> string" where
  "table_name raw =
     (if drop (length raw - 6) raw = '' Table'' then take (length raw - 6) raw else raw)"

text \<open>
  The effect after every poll of a source: what it reports. On the web the answer may be a card
  without tiles; \<open>has_data\<close> tells whether there is an answer at all.
\<close>

definition map_report :: "string \<Rightarrow> bool \<Rightarrow> bool \<Rightarrow> heat_tile list option \<Rightarrow> poll option" where
  "map_report cid is_error has_data payload =
     (if is_error \<or> has_data \<and> or_else payload [] = [] then Some (Poll_Failed cid)
      else if has_data then Some (Poll_Loaded cid)
      else None)"

section \<open>Colours tell the move\<close>

lemma strength_bounds: "change \<noteq> 0 \<Longrightarrow> 0.45 < heat_strength change \<and> heat_strength change \<le> 1"
proof -
  assume "change \<noteq> 0"
  then have m: "0 < min (\<bar>change\<bar> / 3) 1" by simp
  then have "min (\<bar>change\<bar> / 3) 1 powr 0.45 \<le> 1 powr 0.45" by (intro powr_mono2) auto
  moreover have "0 < min (\<bar>change\<bar> / 3) 1 powr 0.45" using m by simp
  ultimately show ?thesis by (simp add: heat_strength_def heat_constants Let_def)
qed

lemma strength_mono: "\<bar>c\<bar> \<le> \<bar>d\<bar> \<Longrightarrow> heat_strength c \<le> heat_strength d"
  unfolding heat_strength_def Let_def heat_constants
  by (intro add_left_mono mult_left_mono powr_mono2) (auto simp: divide_right_mono)

lemma strength_full: "3 \<le> \<bar>c\<bar> \<Longrightarrow> heat_strength c = 1"
  by (simp add: heat_strength_def heat_constants Let_def min_absorb2)

lemma channels_moved:
  assumes "change \<noteq> 0"
  shows "heat_channels change =
    (if 0 < change
     then [js_round (65 - 27 * heat_strength change), js_round (69 + 120 * heat_strength change),
           js_round (84 - 2 * heat_strength change)]
     else [js_round (65 + 177 * heat_strength change), js_round (69 - 15 * heat_strength change),
           js_round (84 - 15 * heat_strength change)])"
  using assms by (simp add: heat_channels_def heat_constants Let_def)

lemma js_round_ge: "of_int lo \<le> x \<Longrightarrow> lo \<le> js_round x"
  by (simp add: js_round_def le_floor_iff)

lemma js_round_le: "x \<le> of_int hi \<Longrightarrow> js_round x \<le> hi"
  unfolding js_round_def floor_le_iff by linarith

text \<open>
  The colour of a tile tells the move of the day: the neutral slate means exactly no
  change, a gain shows in the green channel and a loss in the red one, at no less than 123 and
  144 of 255 however small it is; a larger move of the same direction never looks weaker, and
  from three percent on the colour is the full one.
\<close>

theorem heat_tells_the_move:
  "(heat_channels c = heat_neutral_rgb \<longleftrightarrow> c = 0) \<and>
   (0 < c \<longleftrightarrow> 123 \<le> heat_channels c ! 1) \<and>
   (c < 0 \<longleftrightarrow> 144 \<le> heat_channels c ! 0) \<and>
   (\<forall>x \<in> set (heat_channels c). 0 \<le> x \<and> x \<le> 255) \<and>
   (0 < c \<and> c \<le> d \<longrightarrow> heat_channels c ! 1 \<le> heat_channels d ! 1) \<and>
   (d \<le> c \<and> c < 0 \<longrightarrow> heat_channels c ! 0 \<le> heat_channels d ! 0) \<and>
   (3 \<le> \<bar>c\<bar> \<longrightarrow> heat_channels c = (if 0 < c then heat_gain_rgb else heat_loss_rgb))"
proof -
  consider (none) "c = 0" | (gain) "0 < c" | (loss) "c < 0" by linarith
  then show ?thesis
  proof cases
    case none
    then show ?thesis by (simp add: heat_channels_def heat_constants)
  next
    case gain
    let ?s = "heat_strength c"
    have s: "0.45 < ?s" "?s \<le> 1" using strength_bounds gain by auto
    have ch: "heat_channels c = [js_round (65 - 27 * ?s), js_round (69 + 120 * ?s), js_round (84 - 2 * ?s)]"
      using gain by (simp add: channels_moved)
    have r: "0 \<le> js_round (65 - 27 * ?s)" "js_round (65 - 27 * ?s) \<le> 53"
      "123 \<le> js_round (69 + 120 * ?s)" "js_round (69 + 120 * ?s) \<le> 189"
      "0 \<le> js_round (84 - 2 * ?s)" "js_round (84 - 2 * ?s) \<le> 84"
      using s by (auto intro!: js_round_ge js_round_le)
    have mono: "heat_channels c ! 1 \<le> heat_channels d ! 1" if "c \<le> d"
      using that gain strength_mono [of c d] by (simp add: channels_moved js_round_mono)
    have full: "heat_channels c = heat_gain_rgb" if "3 \<le> \<bar>c\<bar>"
      using that gain strength_full [of c] by (simp add: ch heat_constants js_round_def)
    show ?thesis using r gain mono full by (simp add: ch heat_constants)
  next
    case loss
    let ?s = "heat_strength c"
    have s: "0.45 < ?s" "?s \<le> 1" using strength_bounds loss by auto
    have ch: "heat_channels c = [js_round (65 + 177 * ?s), js_round (69 - 15 * ?s), js_round (84 - 15 * ?s)]"
      using loss by (simp add: channels_moved)
    have r: "144 \<le> js_round (65 + 177 * ?s)" "js_round (65 + 177 * ?s) \<le> 242"
      "0 \<le> js_round (69 - 15 * ?s)" "js_round (69 - 15 * ?s) \<le> 69"
      "0 \<le> js_round (84 - 15 * ?s)" "js_round (84 - 15 * ?s) \<le> 84"
      using s by (auto intro!: js_round_ge js_round_le)
    have mono: "heat_channels c ! 0 \<le> heat_channels d ! 0" if "d \<le> c"
      using that loss strength_mono [of c d] by (simp add: channels_moved js_round_mono)
    have full: "heat_channels c = heat_loss_rgb" if "3 \<le> \<bar>c\<bar>"
      using that loss strength_full [of c] by (simp add: ch heat_constants js_round_def)
    show ?thesis using r loss mono full by (simp add: ch heat_constants)
  qed
qed

theorem heat_tells_the_move_witness: "heat_channels 7 = [38, 189, 82] \<and> heat_channels (-3) = [242, 54, 69]"
  using heat_tells_the_move [of 7 7] heat_tells_the_move [of "-3" 0] by (simp add: heat_constants)

section \<open>Dampened weights\<close>

text \<open>The passes act on each weight alone, by a map that keeps the order, zero and the sign.\<close>

lemma cap_passes_map:
  assumes "\<forall>x \<in> set xs. 0 \<le> x"
  shows "\<exists>f. mono f \<and> f 0 = 0 \<and> (\<forall>x. 0 < x \<longrightarrow> 0 < f x) \<and> cap_passes n xs = map f xs"
  using assms
proof (induction n arbitrary: xs)
  case (Suc n)
  show ?case
  proof (cases "sum_list xs \<le> 0")
    case True
    then show ?thesis by (intro exI [of _ id]) (simp add: monoI)
  next
    case False
    let ?c = "sum_list xs * 0.32"
    have c: "0 < ?c" using False by simp
    have "\<forall>x \<in> set (cap_pass xs). 0 \<le> x" using Suc.prems c by (auto simp: cap_pass_def Let_def)
    from Suc.IH [OF this] obtain f where f: "mono f" "f 0 = 0" "\<And>x. 0 < x \<Longrightarrow> 0 < f x"
      "cap_passes n (cap_pass xs) = map f (cap_pass xs)" by blast
    have "mono (\<lambda>x. f (min x ?c))" by (intro monoI monoD [OF f(1)]) auto
    moreover have "f (min 0 ?c) = 0" using c f(2) by (simp add: min_def)
    moreover have "\<forall>x. 0 < x \<longrightarrow> 0 < f (min x ?c)" using c f(3) by (auto simp: min_def)
    moreover have "cap_passes (Suc n) xs = map (\<lambda>x. f (min x ?c)) xs"
      using False f(4) by (simp add: cap_pass_def Let_def)
    ultimately show ?thesis by (intro exI [of _ "\<lambda>x. f (min x ?c)"]) blast
  qed
qed (intro exI [of _ id], simp add: monoI)

lemma dampen_map:
  "\<exists>f. mono f \<and> (\<forall>x. 0 \<le> f x) \<and> (\<forall>x. 0 < f x \<longleftrightarrow> 0 < x) \<and> dampen_weights ws = map f ws"
proof -
  let ?r = "\<lambda>w. sqrt (max w 0)"
  obtain f where f: "mono f" "f 0 = 0" "\<And>x. 0 < x \<Longrightarrow> 0 < f x" "cap_passes 2 (map ?r ws) = map f (map ?r ws)"
    using cap_passes_map [of "map ?r ws" 2] by auto
  have "mono (\<lambda>w. f (?r w))" by (intro monoI monoD [OF f(1)]) auto
  moreover have "0 \<le> f (?r w)" for w using monoD [OF f(1), of 0 "?r w"] f(2) by simp
  moreover have "0 < f (?r w) \<longleftrightarrow> 0 < w" for w
    using f(2) f(3) [of "?r w"] by (cases "0 < w") auto
  ultimately show ?thesis using f(4) by (intro exI [of _ "\<lambda>w. f (?r w)"]) (simp add: dampen_weights_def)
qed

section \<open>The map\<close>

lemma dampened_share:
  assumes "dampen_weights (map weight ts) = map f (map weight ts)" and "\<forall>x. 0 \<le> f x"
  shows "map safe_weight (map Some (dampen_weights (map weight ts))) = map (f \<circ> weight) ts"
  using assms by (auto simp: safe_weight_def le_less)

lemma tiles_layout:
  assumes "0 < width" and "0 < height" and "\<exists>tile \<in> set tiles. 0 < weight tile"
  defines "ts \<equiv> order_tiles tiles" and "box \<equiv> \<lparr>rect_x = 0, rect_y = 0, rect_width = width, rect_height = height\<rparr>"
  shows "length (tile_rects ts width height) = length ts \<and>
    (\<forall>i < length ts. inside (tile_rects ts width height ! i) box \<and>
       (0 < rect_area (tile_rects ts width height ! i) \<longleftrightarrow> 0 < weight (ts ! i)) \<and>
       (\<forall>j < i. apart (tile_rects ts width height ! j) (tile_rects ts width height ! i) \<and>
          rect_area (tile_rects ts width height ! i) \<le> rect_area (tile_rects ts width height ! j)))"
proof -
  obtain f where f: "mono f" "\<forall>x. 0 \<le> f x" "\<And>x. 0 < f x \<longleftrightarrow> 0 < x"
    "dampen_weights (map weight ts) = map f (map weight ts)"
    using dampen_map [of "map weight ts"] by auto
  let ?ws = "map Some (dampen_weights (map weight ts))" and ?t = "sum_list (map (f \<circ> weight) ts)"
  have safe: "map safe_weight ?ws = map (f \<circ> weight) ts" using dampened_share f(2,4) by blast
  have len: "length ?ws = length ts" using f(4) by simp
  obtain tile where "tile \<in> set ts" "0 < weight tile" using assms(3) by (auto simp: ts_def order_tiles_def)
  then have "0 < f (weight tile)" "f (weight tile) \<le> ?t"
    using f(2,3) by (auto intro!: member_le_sum_list)
  then have pos: "0 < ?t" by simp
  have L: "length (squarify ?ws width height) = length ?ws \<and>
    (\<forall>i < length ?ws. rect_area (squarify ?ws width height ! i) =
         safe_weight (?ws ! i) / sum_list (map safe_weight ?ws) * width * height \<and>
       inside (squarify ?ws width height ! i) box \<and>
       (\<forall>j < i. apart (squarify ?ws width height ! j) (squarify ?ws width height ! i)))"
    unfolding box_def using assms(1,2) pos by (intro squarify_tiling) (simp_all only: safe)
  have w: "safe_weight (?ws ! i) = f (weight (ts ! i))" if "i < length ts" for i
    using safe that len by (metis comp_apply length_map nth_map)
  have area: "rect_area (tile_rects ts width height ! i) = f (weight (ts ! i)) * (width * height / ?t)"
    if "i < length ts" for i
  proof -
    have "i < length ?ws" using that len by simp
    then have "rect_area (squarify ?ws width height ! i) =
        safe_weight (?ws ! i) / sum_list (map safe_weight ?ws) * width * height" using L by blast
    then show ?thesis by (simp only: safe w [OF that] tile_rects_def) simp
  qed
  have k: "0 < width * height / ?t" using assms(1,2) pos by simp
  have order: "weight (ts ! i) \<le> weight (ts ! j)" if "j < i" "i < length ts" for i j
    using that sorted_by_key_desc [of weight tiles] unfolding ts_def order_tiles_def
    by (simp add: sorted_wrt_iff_nth_less)
  have "rect_area (tile_rects ts width height ! i) \<le> rect_area (tile_rects ts width height ! j)"
    if "j < i" "i < length ts" for i j
    using area [of i] area [of j] that order [OF that] k
    by (auto intro!: mult_right_mono monoD [OF f(1)] simp del: times_divide_eq_right)
  moreover have "0 < rect_area (tile_rects ts width height ! i) \<longleftrightarrow> 0 < weight (ts ! i)" if "i < length ts" for i
    using area [OF that] k f(3) by (simp add: zero_less_mult_iff del: times_divide_eq_right)
  ultimately show ?thesis using L len by (auto simp: tile_rects_def)
qed

lemma sorted_wrt_collect:
  assumes "sorted_wrt (\<lambda>x y. \<forall>d e. h x = Some d \<longrightarrow> h y = Some e \<longrightarrow> R d e) xs"
  shows "sorted_wrt R (concat (map (\<lambda>x. case h x of None \<Rightarrow> [] | Some d \<Rightarrow> [d]) xs))"
  using assms by (induction xs) (auto split: option.splits)

lemma draw_tiles_collect:
  "draw_tiles face link ts width height =
     concat (map (\<lambda>x. case draw_tile face link (elem_at (tile_rects ts width height) (int (fst x))) (snd x) of
               None \<Rightarrow> [] | Some d \<Rightarrow> [d]) (zip [0..<length ts] ts))"
  by (simp add: draw_tiles_def Let_def case_prod_unfold)

lemma printable_spaceless: "\<forall>c \<in> set s. 33 \<le> code c \<and> code c < 128 \<Longrightarrow> \<not> has_space s"
proof (induction s)
  case (Cons c s)
  then have "space_at (code c # map code s) = 0" by (auto split: list.splits)
  then show ?case using Cons by simp
qed simp

lemma encode_printable: "c \<in> set (encode_uri_component s) \<Longrightarrow> 33 \<le> code c \<and> code c < 128"
  by (drule encode_chars) (auto simp: uri_unreserved_def is_alnum_def is_alpha_def is_lower_def is_upper_def is_digit_def)

lemma quote_url_safe: "is_http_url (Some (quote_url cid ticker))"
proof -
  let ?rest = "''finance.yahoo.com/quote/'' @ encode_uri_component ticker @ (if cid = ''heatmap-crypto'' then ''-USD'' else [])"
  have "\<not> has_space ?rest"
    by (rule printable_spaceless) (auto dest: encode_printable split: if_splits)
  moreover have "quote_url cid ticker = ''https://'' @ ?rest" by (simp add: quote_url_def)
  ultimately show ?thesis by (simp add: is_http_url_def truthy_def after_scheme_def to_lower_def lower_char_def is_upper_def)
qed

text \<open>The facts of one drawn tile, and of two in their order.\<close>

definition fair_map :: "treemap_rect \<Rightarrow> drawn_tile list \<Rightarrow> bool" where
  "fair_map box drawn \<longleftrightarrow>
     sorted_wrt (\<lambda>d e. apart (drawn_rect d) (drawn_rect e) \<and>
       rect_area (drawn_rect e) \<le> rect_area (drawn_rect d)) drawn \<and>
     (\<forall>d \<in> set drawn. inside (drawn_rect d) box \<and> 1 < rect_width (drawn_rect d) \<and> 1 < rect_height (drawn_rect d))"

lemma draw_tiles_fair:
  assumes "0 < width" and "0 < height" and "\<exists>tile \<in> set tiles. 0 < weight tile"
  shows "fair_map \<lparr>rect_x = 0, rect_y = 0, rect_width = width, rect_height = height\<rparr>
    (draw_tiles face link (order_tiles tiles) width height)"
proof -
  let ?ts = "order_tiles tiles" and ?box = "\<lparr>rect_x = 0, rect_y = 0, rect_width = width, rect_height = height\<rparr>"
  let ?h = "\<lambda>x. draw_tile face link (elem_at (tile_rects ?ts width height) (int (fst x))) (snd x)"
  let ?R = "\<lambda>d e. apart (drawn_rect d) (drawn_rect e) \<and> rect_area (drawn_rect e) \<le> rect_area (drawn_rect d)"
  note L = tiles_layout [OF assms]
  have drawn: "drawn_rect d = tile_rects ?ts width height ! i \<and> 1 < rect_width (drawn_rect d)
      \<and> 1 < rect_height (drawn_rect d) \<and> i < length ?ts"
    if "?h (i, tile) = Some d" for i tile d
    using that L by (auto simp: draw_tile_def elem_at_def split: option.splits if_splits)
  have "?R d e" if "j < i" "?h (j, a) = Some d" "?h (i, b) = Some e" for i j a b d e
    using drawn [OF that(2)] drawn [OF that(3)] that(1) L by auto
  then have "sorted_wrt (\<lambda>x y. \<forall>d e. ?h x = Some d \<longrightarrow> ?h y = Some e \<longrightarrow> ?R d e) (zip [0..<length ?ts] ?ts)"
    by (auto simp: sorted_wrt_iff_nth_less)
  moreover have "inside (drawn_rect d) ?box \<and> 1 < rect_width (drawn_rect d) \<and> 1 < rect_height (drawn_rect d)"
    if d: "d \<in> set (draw_tiles face link ?ts width height)" for d
  proof -
    from d obtain x where "?h x = Some d" by (auto simp: draw_tiles_collect split: option.splits)
    then have "drawn_rect d = tile_rects ?ts width height ! fst x \<and> 1 < rect_width (drawn_rect d)
      \<and> 1 < rect_height (drawn_rect d) \<and> fst x < length ?ts" by (intro drawn [of _ "snd x"]) simp
    then show ?thesis using L by metis
  qed
  ultimately show ?thesis
    unfolding fair_map_def by (simp add: draw_tiles_collect sorted_wrt_collect)
qed

text \<open>What is drawn of a tile besides its link and its type depends on the tiles and the box alone.\<close>

lemma map_collect:
  "map g (concat (map (\<lambda>x. case h x of None \<Rightarrow> [] | Some d \<Rightarrow> [d]) xs)) =
     concat (map (\<lambda>x. case map_option g (h x) of None \<Rightarrow> [] | Some d \<Rightarrow> [d]) xs)"
  by (induction xs) (auto split: option.splits)

lemma draw_tile_same:
  "map_option drawn_rect (draw_tile face link r tile) = map_option drawn_rect (draw_tile face' link' r tile)"
  "map_option drawn_color (draw_tile face link r tile) = map_option drawn_color (draw_tile face' link' r tile)"
  by (auto simp: draw_tile_def split: option.splits)

lemma draw_tiles_same:
  "map drawn_rect (draw_tiles face link ts width height) = map drawn_rect (draw_tiles face' link' ts width height)"
  "map drawn_color (draw_tiles face link ts width height) = map drawn_color (draw_tiles face' link' ts width height)"
  unfolding draw_tiles_collect map_collect
  by (simp_all only: draw_tile_same [of face link _ _ face' link'])

lemma drawn_links:
  assumes "d \<in> set (draw_tiles face link ts width height)"
  shows "\<exists>tile. drawn_link d = link tile"
proof -
  from assms obtain x where
    "draw_tile face link (elem_at (tile_rects ts width height) (int (fst x))) (snd x) = Some d"
    by (auto simp: draw_tiles_collect split: option.splits)
  then show ?thesis by (auto simp: draw_tile_def split: option.splits if_splits)
qed

text \<open>
  C20: The map a reader sees. Once the box is measured and a tile has weight, both clients draw
  the same tiles in the same places and colours, each inside the box and more than a pixel in
  both directions, no two overlapping and none larger than one before it; and a tile of the web
  leads to an address of the web or nowhere.
\<close>

theorem map_drawn_fairly:
  assumes "0 < width" and "0 < height" and "\<exists>tile \<in> set tiles. 0 < weight tile"
  defines "box \<equiv> \<lparr>rect_x = 0, rect_y = 0, rect_width = width, rect_height = height\<rparr>"
  shows "\<exists>web app. web_map_body cid False (Some tiles) width height = Map_Tiles web \<and>
    app_map_body cid False restoring (Some tiles) width height = Map_Tiles app \<and>
    fair_map box web \<and> fair_map box app \<and>
    map drawn_rect web = map drawn_rect app \<and> map drawn_color web = map drawn_color app \<and>
    (\<forall>d \<in> set web. drawn_link d = None \<or> is_http_url (drawn_link d))"
proof -
  have ne: "order_tiles tiles \<noteq> []"
    using assms(3) by (metis order_tiles_def set_js_sort empty_iff empty_set)
  let ?web = "draw_tiles web_tile_label (\<lambda>tile. safe_external_href (tile_target cid tile)) (order_tiles tiles) width height"
  let ?app = "draw_tiles app_tile_label (tile_target cid) (order_tiles tiles) width height"
  have "web_map_body cid False (Some tiles) width height = Map_Tiles ?web"
    "app_map_body cid False restoring (Some tiles) width height = Map_Tiles ?app"
    using ne assms(1,2) by (simp_all add: web_map_body_def app_map_body_def or_else_def)
  moreover have "drawn_link d = None \<or> is_http_url (drawn_link d)" if "d \<in> set ?web" for d
    using drawn_links [OF that] by (auto simp: safe_external_href_def)
  ultimately show ?thesis
    unfolding box_def using draw_tiles_fair [OF assms(1-3)] draw_tiles_same by blast
qed

theorem map_drawn_fairly_witness:
  "\<exists>web. web_map_body ''t'' False (Some [\<lparr>symbol = ''A'', weight = 4, change_percent = 1,
      tile_label = None, tile_url = None, tile_logo = None\<rparr>]) 40 20 = Map_Tiles web \<and>
    fair_map \<lparr>rect_x = 0, rect_y = 0, rect_width = 40, rect_height = 20\<rparr> web"
  using map_drawn_fairly [of 40 20 "[\<lparr>symbol = ''A'', weight = 4, change_percent = 1,
      tile_label = None, tile_url = None, tile_logo = None\<rparr>]" "''t''" False] by auto

text \<open>
  The comment on the weights promises that no tile takes more than 32 percent of the map. The
  cap is a share of the sum before the pass, and two passes do not reach it.
\<close>

lemma cap_not_reached:
  "dampen_weights [10000, 1, 1, 1, 1, 1, 1, 1, 1, 1] = 14.0416 # replicate 9 1 \<and>
   0.6 * sum_list (dampen_weights [10000, 1, 1, 1, 1, 1, 1, 1, 1, 1])
     < hd (dampen_weights [10000, 1, 1, 1, 1, 1, 1, 1, 1, 1])"
proof -
  have "sqrt 10000 = 100" by (rule real_sqrt_unique) simp_all
  then have "dampen_weights [10000, 1, 1, 1, 1, 1, 1, 1, 1, 1] = 14.0416 # replicate 9 1"
    by (simp add: dampen_weights_def cap_pass_def numeral_2_eq_2 eval_nat_numeral Let_def)
  then show ?thesis by (simp add: sum_list_replicate)
qed

section \<open>Links, labels and reports\<close>

text \<open>
  A tile without an address of its own leads to the quote page of its symbol when it has
  no label, and nowhere when it has one; a press on it in the app does the same.
\<close>

theorem tile_leads_to_quote:
  assumes "tile_url tile = None"
  shows "safe_external_href (tile_target cid tile) =
      (if truthy (tile_label tile) = None then Some (quote_url cid (symbol tile)) else None) \<and>
    (open_external_url refuses (tile_target cid tile) = [] \<longleftrightarrow> truthy (tile_label tile) \<noteq> None)"
  using assms quote_url_safe
  by (simp add: tile_target_def safe_external_href_def open_external_url_def is_http_url_def [of None] truthy_def [of None])

theorem tile_leads_to_quote_witness:
  "safe_external_href (tile_target ''heatmap-crypto'' \<lparr>symbol = ''BTC'', weight = 4, change_percent = 1,
      tile_label = None, tile_url = None, tile_logo = None\<rparr>)
    = Some ''https://finance.yahoo.com/quote/BTC-USD''"
proof -
  have "encode_uri_component ''BTC'' = ''BTC''" by code_simp
  then show ?thesis
    using tile_leads_to_quote [of "\<lparr>symbol = ''BTC'', weight = 4, change_percent = 1,
        tile_label = None, tile_url = None, tile_logo = None\<rparr>" "''heatmap-crypto''"]
    by (simp add: truthy_def quote_url_def)
qed

text \<open>The clients write the same rows of type and differ in the logo only.\<close>

lemma labels_agree:
  "map_option (face_logo_update (\<lambda>_. None)) (web_tile_label tile width height) =
   map_option (face_logo_update (\<lambda>_. None)) (app_tile_label tile width height)"
  by (simp add: web_tile_label_def app_tile_label_def label_rows_def case_prod_unfold Let_def)

text \<open>A card that tells its reader that it failed, after an answer, counts as a strike.\<close>

lemma failed_body_is_a_strike:
  "web_map_body cid False payload width height = Map_Failed \<Longrightarrow>
   map_report cid is_error True payload = Some (Poll_Failed cid)"
  by (auto simp: web_map_body_def map_report_def order_tiles_def Let_def split: if_splits)
    (metis empty_iff empty_set list.set_intros(1) neq_Nil_conv set_js_sort)+

end
