(* ===== verification/Inline_Summary.thy ===== *)
theory Inline_Summary
  imports Json Url Timeline
begin

text \<open>
  The summary that opens under a headline: \<open>apps/web/src/components/News/InlineSummary.tsx\<close>
  and its twin \<open>apps/app/components/News/InlineSummary.tsx\<close>. First the reader of the server's
  event stream, from the chunks of the body to the events; then the panel of the web as a state
  that every answer, timer and animation frame steps, with all that may still arrive in any
  order; then the panel of the app. Text in a panel is a list of UTF-16 code units. Time is in
  milliseconds. Of a field with another type than the declared one (the server sends none) the
  model says that the event breaks the stream. Requests, drawing and the fade over a long text
  are left out; the height of the panel is modelled.
\<close>

section \<open>The event stream\<close>

type_synonym units = "nat list"

text \<open>
  An event: a whole text (and whether it is the teaser of the publisher), a piece, the end, a
  refusal. Objects with none of the known keys pass unnoticed.
\<close>

datatype summary_event = Whole units bool | Piece units | Done_Event | Refused | Unknown_Event

definition frame_end :: string where
  "frame_end = [char_of (10::nat), char_of (10::nat)]"

lemma break_at_shorter:
  "break_at mark s = (before, Some rest) \<Longrightarrow> mark \<noteq> [] \<Longrightarrow> length rest < length s"
  by (drule break_at_joins) auto

text \<open>
  The inner loop: the whole frames at the front of the buffer and what is left in it. The bytes
  of the buffer are the decoded text: the decoder holds back a character that is cut in two.
\<close>

function take_frames :: "string \<Rightarrow> string list \<times> string" where
  "take_frames buffer =
     (case break_at frame_end buffer of
        (frame, None) \<Rightarrow> ([], buffer)
      | (frame, Some rest) \<Rightarrow> (case take_frames rest of (frames, left) \<Rightarrow> (frame # frames, left)))"
  by pat_completeness auto
termination
  by (relation "measure length") (metis break_at_shorter frame_end_def in_measure list.distinct(1) | simp)+

declare take_frames.simps [simp del]

fun read_chunks :: "string \<Rightarrow> string list \<Rightarrow> string list \<times> string" where
  "read_chunks buffer [] = ([], buffer)"
| "read_chunks buffer (chunk # chunks) =
     (case take_frames (buffer @ chunk) of (frames, left) \<Rightarrow>
        (case read_chunks left chunks of (later, last_left) \<Rightarrow> (frames @ later, last_left)))"

text \<open>What a frame hands to \<open>JSON.parse\<close>: the rest of its data lines.\<close>

definition data_lines :: "string \<Rightarrow> string list" where
  "data_lines frame =
     map (drop 6) (filter (starts_with ''data: '') (split_on (char_of (10::nat)) frame))"

definition decode_event :: "json \<Rightarrow> summary_event option" where
  "decode_event v =
     (case v of
        JObj ms \<Rightarrow>
          (let field = map_of (rev ms)
           in if field ''error'' \<noteq> None then Some Refused
              else case field ''text'' of
                Some (JStr s) \<Rightarrow> Some (Whole (utf16_units s) (field ''kind'' = Some (JStr ''teaser'')))
              | Some _ \<Rightarrow> None
              | None \<Rightarrow>
                  (case field ''delta'' of
                     Some (JStr s) \<Rightarrow> Some (Piece (utf16_units s))
                   | Some _ \<Rightarrow> None
                   | None \<Rightarrow> Some (if field ''done'' \<noteq> None then Done_Event else Unknown_Event)))
      | JArr _ \<Rightarrow> Some Unknown_Event
      | _ \<Rightarrow> None)"

text \<open>
  What the panel sees of a stream: events, then its end or its failure (the connection drops,
  the answer is no success, a line is no event).
\<close>

datatype stream_item = Event summary_event | Closed | Broken

fun stream_items :: "string list \<Rightarrow> stream_item list" where
  "stream_items [] = [Closed]"
| "stream_items (line # lines) =
     (case json_parse line of
        None \<Rightarrow> [Broken]
      | Some v \<Rightarrow>
          (case decode_event v of None \<Rightarrow> [Broken] | Some e \<Rightarrow> Event e # stream_items lines))"

definition read_events :: "string list \<Rightarrow> stream_item list" where
  "read_events chunks = stream_items (concat (map data_lines (fst (read_chunks [] chunks))))"

section \<open>The panel of the web\<close>

definition summary_wait_ms :: int where
  "summary_wait_ms = 10000"

definition type_out_max_ms :: int where
  "type_out_max_ms = 600"

definition availability_wait_ms :: int where
  "availability_wait_ms = 400"

lemmas summary_constants = summary_wait_ms_def type_out_max_ms_def availability_wait_ms_def

datatype panel = Checking | Slow | Unavailable | Writing units bool | Finished units bool

text \<open>
  One run of the effect. A running typer is its text, whether that is a teaser, and the time it
  started; a timer is the time it is due.
\<close>

record web_panel =
  alive :: bool
  settled :: bool
  panel :: panel
  written :: units
  typers :: "(units \<times> bool \<times> int) list"
  deadline :: "int option"
  check_deadline :: "int option"
  awaiting_check :: bool
  streaming :: bool
  panel_clock :: int

definition mount_web :: "string \<Rightarrow> web_panel" where
  "mount_web url =
     (let ask = is_summarizable (Some url)
      in \<lparr>alive = True, settled = False, panel = (if ask then Checking else Unavailable),
          written = [], typers = [],
          deadline = (if ask then Some summary_wait_ms else None),
          check_deadline = (if ask then Some availability_wait_ms else None),
          awaiting_check = ask, streaming = ask, panel_clock = 0\<rparr>)"

definition show_unavailable :: "web_panel \<Rightarrow> web_panel" where
  "show_unavailable p =
     (if \<not> alive p \<or> settled p then p else p\<lparr>settled := True, panel := Unavailable\<rparr>)"

definition show_loading :: "web_panel \<Rightarrow> web_panel" where
  "show_loading p =
     (if alive p \<and> panel p = Checking then p\<lparr>panel := Writing [] False\<rparr> else p)"

fun has_text :: "panel \<Rightarrow> bool" where
  "has_text (Writing text teaser) \<longleftrightarrow> text \<noteq> []"
| "has_text _ \<longleftrightarrow> False"

definition show_slow :: "web_panel \<Rightarrow> web_panel" where
  "show_slow p =
     (if \<not> alive p \<or> settled p then p
      else p\<lparr>settled := True, panel := (if has_text (panel p) then panel p else Slow)\<rparr>)"

text \<open>
  How much of a text is shown some time after it started: \<open>None\<close> for the quotient of nothing by
  nothing, with which no comparison holds and of which the slice is empty.
\<close>

definition typed_units :: "bool \<Rightarrow> units \<Rightarrow> int \<Rightarrow> nat option" where
  "typed_units reduced text elapsed =
     (if reduced then Some (length text)
      else if text = [] then (if elapsed = 0 then None else Some 0)
      else Some (nat (js_round (min 1 (of_int elapsed / min (of_int type_out_max_ms) (real (length text) * 1.5))
             * real (length text)))))"

text \<open>One step of a typer: what it shows, and whether it asks for another frame.\<close>

definition type_step :: "bool \<Rightarrow> int \<Rightarrow> units \<times> bool \<times> int \<Rightarrow> panel \<times> bool" where
  "type_step reduced now typer =
     (case typer of (text, teaser, started) \<Rightarrow>
        (case typed_units reduced text (now - started) of
           None \<Rightarrow> (Writing [] teaser, True)
         | Some n \<Rightarrow>
             (if length text \<le> n then (Finished text teaser, False)
              else (Writing (take n text) teaser, True))))"

definition run_typer :: "bool \<Rightarrow> units \<times> bool \<times> int \<Rightarrow> web_panel \<Rightarrow> web_panel" where
  "run_typer reduced typer p =
     (case type_step reduced (panel_clock p) typer of (shown, again) \<Rightarrow>
        p\<lparr>panel := shown, typers := typers p @ (if again then [typer] else [])\<rparr>)"

text \<open>An animation frame: every typer that asked for it steps once, in the order they asked.\<close>

definition animation_frame :: "bool \<Rightarrow> web_panel \<Rightarrow> web_panel" where
  "animation_frame reduced p = fold (run_typer reduced) (typers p) (p\<lparr>typers := []\<rparr>)"

text \<open>The answer of the availability check; \<open>None\<close> when it fails.\<close>

definition check_answers :: "bool option \<Rightarrow> web_panel \<Rightarrow> web_panel" where
  "check_answers answer p =
     (let q = p\<lparr>awaiting_check := False, check_deadline := None\<rparr>
      in case answer of
           Some available \<Rightarrow> (if available then show_loading q else show_unavailable q)
         | None \<Rightarrow> show_loading q)"

text \<open>The \<open>catch\<close> of the stream.\<close>

definition stream_fails :: "web_panel \<Rightarrow> web_panel" where
  "stream_fails p =
     (let q = p\<lparr>streaming := False, deadline := None\<rparr>
      in if written q \<noteq> [] then q\<lparr>panel := Finished (written q) False\<rparr> else show_unavailable q)"

definition stream_event :: "bool \<Rightarrow> summary_event \<Rightarrow> web_panel \<Rightarrow> web_panel" where
  "stream_event reduced e p =
     (let q = p\<lparr>check_deadline := None\<rparr>
      in case e of
           Refused \<Rightarrow> stream_fails (q\<lparr>written := []\<rparr>)
         | Whole text teaser \<Rightarrow>
             run_typer reduced (text, teaser, panel_clock q) (q\<lparr>deadline := None, written := text\<rparr>)
         | Piece piece \<Rightarrow>
             (let text = written q @ piece
              in q\<lparr>deadline := None, written := text, panel := Writing text False\<rparr>)
         | Done_Event \<Rightarrow> q\<lparr>panel := Finished (written q) False\<rparr>
         | Unknown_Event \<Rightarrow> q)"

definition stream_gives :: "bool \<Rightarrow> stream_item \<Rightarrow> web_panel \<Rightarrow> web_panel" where
  "stream_gives reduced x p =
     (case x of
        Event e \<Rightarrow> stream_event reduced e p
      | Closed \<Rightarrow> (if written p = [] then stream_fails p else p\<lparr>streaming := False\<rparr>)
      | Broken \<Rightarrow> stream_fails p)"

text \<open>Time passes; the two timers fire in the order they are due.\<close>

definition web_waits :: "nat \<Rightarrow> web_panel \<Rightarrow> web_panel" where
  "web_waits d p =
     (let now = panel_clock p + int d;
          q = p\<lparr>panel_clock := now\<rparr>;
          r = (case check_deadline q of
                 Some due \<Rightarrow> (if due \<le> now then show_loading (q\<lparr>check_deadline := None\<rparr>) else q)
               | None \<Rightarrow> q)
      in case deadline r of
           Some due \<Rightarrow> (if due \<le> now then show_slow (r\<lparr>deadline := None\<rparr>) else r)
         | None \<Rightarrow> r)"

definition unmount_web :: "web_panel \<Rightarrow> web_panel" where
  "unmount_web p = p\<lparr>alive := False, deadline := None, check_deadline := None, typers := []\<rparr>"

datatype panel_event =
    Pass nat
  | Frame
  | Check_Answer "bool option"
  | Stream stream_item
  | Unmount

text \<open>Nothing that still arrives for a panel that is gone is seen by anybody.\<close>

definition panel_step :: "bool \<Rightarrow> panel_event \<Rightarrow> web_panel \<Rightarrow> web_panel" where
  "panel_step reduced ev p =
     (if \<not> alive p then p
      else case ev of
        Pass d \<Rightarrow> web_waits d p
      | Frame \<Rightarrow> animation_frame reduced p
      | Check_Answer answer \<Rightarrow> (if awaiting_check p then check_answers answer p else p)
      | Stream x \<Rightarrow> (if streaming p then stream_gives reduced x p else p)
      | Unmount \<Rightarrow> unmount_web p)"

definition run_panel :: "bool \<Rightarrow> string \<Rightarrow> panel_event list \<Rightarrow> web_panel" where
  "run_panel reduced url evs = fold (panel_step reduced) evs (mount_web url)"

section \<open>The height of the panel\<close>

definition rows_below :: nat where
  "rows_below = 2"

definition min_panel_px :: int where
  "min_panel_px = 140"

definition max_panel_px :: int where
  "max_panel_px = 240"

text \<open>
  The rows under the panel by their upper and lower edge, the room left in the card below the
  top of the panel.
\<close>

definition reserve_for :: "(real \<times> real) list \<Rightarrow> real" where
  "reserve_for rows =
     (let following = take rows_below (filter (\<lambda>(top, bottom). 0 < bottom - top) rows)
      in case following of
           [] \<Rightarrow> 0
         | first # _ \<Rightarrow> snd (last following) - fst first + 12)"

definition panel_height :: "real \<Rightarrow> (real \<times> real) list \<Rightarrow> int" where
  "panel_height room rows =
     max min_panel_px (min max_panel_px (min (js_round (room - reserve_for rows)) (js_round room)))"

section \<open>Cutting the stream\<close>

lemma break_at_append:
  "break_at mark a = (before, Some rest) \<Longrightarrow> break_at mark (a @ c) = (before, Some (rest @ c))"
proof (induction a arbitrary: before)
  case (Cons x s)
  show ?case
  proof (cases "starts_with mark (x # s)")
    case True
    then have "length mark \<le> length (x # s)" unfolding starts_with_def by (metis length_take min.cobounded1)
    then have "starts_with mark ((x # s) @ c)" "drop (length mark) ((x # s) @ c) = drop (length mark) (x # s) @ c"
      using True by (simp_all add: starts_with_def del: append_Cons)
    then show ?thesis using True Cons.prems by simp
  next
    case False
    then obtain f where f: "break_at mark s = (f, Some rest)" "before = x # f"
      using Cons.prems by (auto split: prod.splits)
    have "s = f @ mark @ rest" using break_at_joins [OF f(1)] by simp
    then have "length mark \<le> length (x # s)" by simp
    then have "\<not> starts_with mark ((x # s) @ c)" using False by (simp add: starts_with_def del: append_Cons)
    then show ?thesis using Cons.IH [OF f(1)] f(2) by simp
  qed
qed simp

lemma take_frames_append:
  "take_frames (a @ c) =
     (case take_frames a of (fs, left) \<Rightarrow> (case take_frames (left @ c) of (gs, left') \<Rightarrow> (fs @ gs, left')))"
proof (induction a rule: take_frames.induct)
  case (1 a)
  show ?case
  proof (cases "break_at frame_end a")
    case (Pair frame rest)
    show ?thesis
    proof (cases rest)
      case None
      then show ?thesis using Pair by (simp add: take_frames.simps [of a])
    next
      case (Some r)
      then show ?thesis
        using 1 [OF Pair [symmetric] Some] break_at_append [of frame_end a frame r c] Pair
        by (simp add: take_frames.simps [of a] take_frames.simps [of "a @ c"] case_prod_unfold)
    qed
  qed
qed

lemma take_frames_Nil [simp]: "take_frames [] = ([], [])"
  by (subst take_frames.simps) simp

lemma take_frames_left: "take_frames (snd (take_frames a)) = ([], snd (take_frames a))"
proof (induction a rule: take_frames.induct)
  case (1 a)
  show ?case
  proof (cases "break_at frame_end a")
    case (Pair frame rest)
    show ?thesis
    proof (cases rest)
      case None
      then show ?thesis using Pair by (simp add: take_frames.simps [of a])
    next
      case (Some r)
      then show ?thesis
        using 1 [OF Pair [symmetric] Some] Pair by (simp add: take_frames.simps [of a] case_prod_unfold)
    qed
  qed
qed

lemma read_chunks_from: "take_frames b = ([], b) \<Longrightarrow> read_chunks b cs = take_frames (b @ concat cs)"
proof (induction cs arbitrary: b)
  case (Cons c cs)
  show ?case
    using Cons.IH [OF take_frames_left [of "b @ c"]] take_frames_append [of "b @ c" "concat cs"]
    by (simp add: case_prod_unfold)
qed simp

text \<open>
  C10: However the network cuts the body of the stream into chunks, in the middle of a frame or
  of its end, the panel gets the same events: those of the whole body.
\<close>

theorem chunks_do_not_matter:
  "read_events chunks = stream_items (concat (map data_lines (fst (take_frames (concat chunks)))))"
  by (simp add: read_events_def read_chunks_from)

section \<open>In time\<close>

text \<open>What a run gives of the stream, in order.\<close>

definition stream_of :: "panel_event list \<Rightarrow> stream_item list" where
  "stream_of evs = concat (map (\<lambda>ev. case ev of Stream x \<Rightarrow> [x] | _ \<Rightarrow> []) evs)"

lemma stream_of_simps [simp]:
  "stream_of [] = []" "stream_of (Stream x # evs) = x # stream_of evs"
  "stream_of (Pass d # evs) = stream_of evs" "stream_of (Frame # evs) = stream_of evs"
  "stream_of (Check_Answer a # evs) = stream_of evs" "stream_of (Unmount # evs) = stream_of evs"
  by (simp_all add: stream_of_def)

text \<open>A panel with no word on it: still loading, or a text of no characters.\<close>

fun wordless :: "panel \<Rightarrow> bool" where
  "wordless Checking \<longleftrightarrow> True"
| "wordless (Writing u b) \<longleftrightarrow> u = []"
| "wordless (Finished u b) \<longleftrightarrow> u = []"
| "wordless _ \<longleftrightarrow> False"

text \<open>
  What the server sends: whole texts and first pieces have characters, an end comes after some
  text, and every event has a known key. A stream may fail, close or be refused at any moment.
\<close>

fun sends_text :: "bool \<Rightarrow> stream_item list \<Rightarrow> bool" where
  "sends_text got [] \<longleftrightarrow> True"
| "sends_text got (Event (Whole u b) # xs) \<longleftrightarrow> u \<noteq> [] \<and> sends_text True xs"
| "sends_text got (Event (Piece u) # xs) \<longleftrightarrow> (got \<or> u \<noteq> []) \<and> sends_text True xs"
| "sends_text got (Event Done_Event # xs) \<longleftrightarrow> got \<and> sends_text got xs"
| "sends_text got (Event Unknown_Event # xs) \<longleftrightarrow> False"
| "sends_text got (x # xs) \<longleftrightarrow> sends_text got xs"

definition panel_ok :: "web_panel \<Rightarrow> bool" where
  "panel_ok p \<longleftrightarrow>
     (panel p = Checking \<longrightarrow> \<not> settled p \<and> check_deadline p \<noteq> None) \<and>
     (\<forall>due. check_deadline p = Some due \<longrightarrow> due = availability_wait_ms \<and> panel_clock p < due) \<and>
     (\<forall>due. deadline p = Some due \<longrightarrow> due = summary_wait_ms \<and> panel_clock p < due) \<and>
     (\<forall>t \<in> set (typers p). fst t \<noteq> []) \<and>
     (wordless (panel p) \<longrightarrow> deadline p \<noteq> None \<and> \<not> settled p \<or> typers p \<noteq> [])"

text \<open>While the stream runs, the text it has given is on record.\<close>

definition got_ok :: "bool \<Rightarrow> web_panel \<Rightarrow> bool" where
  "got_ok got p \<longleftrightarrow> (got \<and> streaming p \<longrightarrow> written p \<noteq> [])"

lemma mount_ok: "panel_ok (mount_web url)"
  by (simp add: panel_ok_def mount_web_def Let_def summary_constants)

lemma type_step_shows:
  "type_step reduced now typer = (s, again) \<Longrightarrow> fst typer \<noteq> [] \<Longrightarrow> s \<noteq> Checking \<and> (wordless s \<longrightarrow> again)"
  by (cases typer) (auto simp: type_step_def split: option.splits if_splits)

lemma run_typer_ok:
  assumes "panel_ok p" and "fst typer \<noteq> []"
  shows "panel_ok (run_typer reduced typer p)"
  using assms type_step_shows [of reduced "panel_clock p" typer]
  by (auto simp: panel_ok_def run_typer_def split: prod.splits)

lemma animation_frame_ok:
  assumes "panel_ok p"
  shows "panel_ok (animation_frame reduced p)"
proof (cases "typers p")
  case Nil
  then have "animation_frame reduced p = p" by (simp add: animation_frame_def)
  then show ?thesis using assms by simp
next
  case (Cons typer rest)
  have texts: "fst typer \<noteq> []" "\<forall>t \<in> set rest. fst t \<noteq> []" using assms Cons by (simp_all add: panel_ok_def)
  have first: "panel_ok (run_typer reduced typer (p\<lparr>typers := []\<rparr>))"
    using assms texts(1) type_step_shows [of reduced "panel_clock p" typer]
    by (auto simp: panel_ok_def run_typer_def split: prod.splits)
  have "panel_ok q \<Longrightarrow> \<forall>t \<in> set ts. fst t \<noteq> [] \<Longrightarrow> panel_ok (fold (run_typer reduced) ts q)" for ts q
    by (induction ts arbitrary: q) (simp_all add: run_typer_ok)
  from this [OF first texts(2)] show ?thesis by (simp add: animation_frame_def Cons)
qed

lemma show_loading_ok:
  assumes "panel_ok p" and "alive p"
  shows "panel_ok (show_loading (p\<lparr>awaiting_check := w, check_deadline := None\<rparr>))"
  using assms by (cases "panel p") (auto simp: panel_ok_def show_loading_def)

lemma show_unavailable_ok:
  assumes "panel_ok p" and "alive p"
  shows "panel_ok (show_unavailable (p\<lparr>awaiting_check := w, check_deadline := None\<rparr>))"
  using assms by (cases "settled p"; cases "panel p") (auto simp: panel_ok_def show_unavailable_def)

lemma check_answers_ok:
  assumes "panel_ok p" and "alive p"
  shows "panel_ok (check_answers answer p)"
proof (cases answer)
  case None
  then show ?thesis using show_loading_ok [OF assms] by (simp add: check_answers_def)
next
  case (Some a)
  then show ?thesis using show_loading_ok [OF assms] show_unavailable_ok [OF assms]
    by (cases a) (simp_all add: check_answers_def)
qed

lemma stream_fails_ok:
  assumes "panel_ok p" and "alive p"
  shows "panel_ok (stream_fails (p\<lparr>check_deadline := None, written := w\<rparr>))" and "panel_ok (stream_fails p)"
  using assms
  by (cases "settled p"; cases "panel p"; auto simp: panel_ok_def show_unavailable_def stream_fails_def Let_def)+

lemma stream_event_ok:
  assumes "panel_ok p" and "alive p" and "streaming p" and "got_ok got p" and "sends_text got [Event e]"
  shows "panel_ok (stream_event reduced e p)"
proof (cases e)
  case (Whole body teaser)
  then show ?thesis
    using assms(1,5) type_step_shows [of reduced "panel_clock p" "(body, teaser, panel_clock p)"]
    by (auto simp: stream_event_def panel_ok_def run_typer_def Let_def split: prod.splits)
next
  case (Piece piece)
  then show ?thesis using assms(1,3,4,5) by (auto simp: stream_event_def panel_ok_def got_ok_def Let_def)
next
  case Refused
  then show ?thesis using stream_fails_ok(1) [OF assms(1,2)] by (simp add: stream_event_def Let_def)
next
  case Done_Event
  then show ?thesis using assms(1,3,4,5) by (simp add: stream_event_def panel_ok_def got_ok_def Let_def)
next
  case Unknown_Event
  then show ?thesis using assms(5) by simp
qed

lemma web_waits_ok:
  assumes "panel_ok p" and "alive p"
  shows "panel_ok (web_waits d p)"
proof -
  define now q where "now = panel_clock p + int d" and "q = p\<lparr>panel_clock := now\<rparr>"
  define r where "r = (case check_deadline q of
      Some due \<Rightarrow> (if due \<le> now then show_loading (q\<lparr>check_deadline := None\<rparr>) else q) | None \<Rightarrow> q)"
  have r: "alive r" "panel_clock r = now" "deadline r = deadline p" "typers r = typers p"
    "settled r = settled p" "panel r = Checking \<longrightarrow> \<not> settled r \<and> check_deadline r \<noteq> None"
    "\<forall>due. check_deadline r = Some due \<longrightarrow> due = availability_wait_ms \<and> now < due"
    "\<forall>t \<in> set (typers p). fst t \<noteq> []" "wordless (panel r) \<longrightarrow> deadline p \<noteq> None \<and> \<not> settled p \<or> typers p \<noteq> []"
    using assms by (auto simp: r_def q_def panel_ok_def show_loading_def split: option.splits)
  have w: "web_waits d p = (case deadline r of
      Some due \<Rightarrow> (if due \<le> now then show_slow (r\<lparr>deadline := None\<rparr>) else r) | None \<Rightarrow> r)"
    unfolding web_waits_def Let_def r_def q_def now_def ..
  show ?thesis
  proof (cases "deadline r")
    case None
    then have "web_waits d p = r" using w by simp
    then show ?thesis using r None by (simp add: panel_ok_def)
  next
    case (Some due)
    then have due: "due = summary_wait_ms" using assms(1) r(3) by (simp add: panel_ok_def)
    show ?thesis
    proof (cases "due \<le> now")
      case True
      then have "web_waits d p = show_slow (r\<lparr>deadline := None\<rparr>)" using w Some by simp
      then show ?thesis using r by (cases "settled r"; cases "panel r") (auto simp: panel_ok_def show_slow_def)
    next
      case False
      have "web_waits d p = r" using w Some False by simp
      moreover have "deadline p = Some summary_wait_ms" using r(3) Some due by simp
      ultimately show ?thesis using r due False by (auto simp: panel_ok_def)
    qed
  qed
qed

text \<open>Whether the stream has given text after one more event.\<close>

fun got_after :: "bool \<Rightarrow> panel_event \<Rightarrow> bool" where
  "got_after got (Stream (Event (Whole u b))) \<longleftrightarrow> True"
| "got_after got (Stream (Event (Piece u))) \<longleftrightarrow> True"
| "got_after got ev \<longleftrightarrow> got"

lemma sends_text_step:
  "sends_text got (stream_of (ev # evs)) \<Longrightarrow>
   sends_text got (stream_of [ev]) \<and> sends_text (got_after got ev) (stream_of evs)"
  by (cases "(got, ev)" rule: got_after.cases) (auto elim: sends_text.elims)

lemma written_waits [simp]: "written (web_waits d p) = written p" "streaming (web_waits d p) = streaming p"
  by (auto simp: web_waits_def show_loading_def show_slow_def Let_def split: option.split)

lemma run_typer_stream [simp]:
  "written (run_typer reduced ty p) = written p" "streaming (run_typer reduced ty p) = streaming p"
  by (auto simp: run_typer_def split: prod.split)

lemma frame_stream [simp]:
  "written (animation_frame reduced p) = written p" "streaming (animation_frame reduced p) = streaming p"
proof -
  have "written (fold (run_typer reduced) ts q) = written q \<and> streaming (fold (run_typer reduced) ts q) = streaming q" for ts q
    by (induction ts arbitrary: q) auto
  then show "written (animation_frame reduced p) = written p" "streaming (animation_frame reduced p) = streaming p"
    by (simp_all add: animation_frame_def)
qed

lemma check_stream [simp]:
  "written (check_answers a p) = written p" "streaming (check_answers a p) = streaming p"
  by (auto simp: check_answers_def show_loading_def show_unavailable_def Let_def split: option.split)

lemma fails_not_streaming [simp]: "\<not> streaming (stream_fails p)"
  by (simp add: stream_fails_def show_unavailable_def Let_def)

lemma got_step:
  assumes "got_ok got p" and "sends_text got (stream_of [ev])" and "alive p"
  shows "got_ok (got_after got ev) (panel_step reduced ev p)"
proof (cases "\<exists>x. ev = Stream x")
  case True
  then obtain x where x: "ev = Stream x" by blast
  show ?thesis
  proof (cases x)
    case (Event e)
    then show ?thesis using assms x
      by (cases e) (auto simp: got_ok_def panel_step_def stream_gives_def stream_event_def Let_def)
  qed (use assms x in \<open>auto simp: got_ok_def panel_step_def stream_gives_def\<close>)
next
  case False
  then show ?thesis using assms by (cases ev) (auto simp: got_ok_def panel_step_def unmount_web_def)
qed

lemma panel_step_ok:
  assumes "panel_ok p" and "got_ok got p" and "sends_text got (stream_of [ev])" and "alive (panel_step reduced ev p)"
  shows "panel_ok (panel_step reduced ev p)"
proof (cases "alive p")
  case True
  show ?thesis
  proof (cases ev)
    case (Stream x)
    have "panel_ok (stream_gives reduced x p)" if s: "streaming p"
    proof (cases x)
      case (Event e)
      then show ?thesis
        using stream_event_ok [OF assms(1) True s assms(2)] assms(3) Stream by (simp add: stream_gives_def)
    next
      case Closed
      moreover have "panel_ok (p\<lparr>streaming := False\<rparr>)" using assms(1) by (auto simp: panel_ok_def)
      ultimately show ?thesis using stream_fails_ok(2) [OF assms(1) True] by (simp add: stream_gives_def)
    next
      case Broken
      then show ?thesis using stream_fails_ok(2) [OF assms(1) True] by (simp add: stream_gives_def)
    qed
    then show ?thesis using assms(1) Stream True by (simp add: panel_step_def)
  next
    case Unmount
    then show ?thesis using assms(4) True by (simp add: panel_step_def unmount_web_def)
  qed (use assms(1) True in \<open>simp_all add: panel_step_def web_waits_ok animation_frame_ok check_answers_ok\<close>)
qed (use assms in \<open>simp add: panel_step_def\<close>)

lemma dead_stays: "\<not> alive p \<Longrightarrow> \<not> alive (fold (panel_step reduced) evs p)"
  by (induction evs arbitrary: p) (simp_all add: panel_step_def)

lemma run_ok:
  "panel_ok p \<Longrightarrow> got_ok got p \<Longrightarrow> sends_text got (stream_of evs) \<Longrightarrow>
   alive (fold (panel_step reduced) evs p) \<Longrightarrow> panel_ok (fold (panel_step reduced) evs p)"
proof (induction evs arbitrary: p got)
  case (Cons ev evs)
  have alive: "alive (panel_step reduced ev p)" using Cons.prems(4) dead_stays by force
  then have live: "alive p" by (cases "alive p") (simp_all add: panel_step_def)
  note s = sends_text_step [OF Cons.prems(3)]
  have "panel_ok (panel_step reduced ev p)" using panel_step_ok [OF Cons.prems(1,2) conjunct1 [OF s] alive] .
  moreover have "got_ok (got_after got ev) (panel_step reduced ev p)"
    using got_step [OF Cons.prems(2) conjunct1 [OF s] live] .
  ultimately show ?case using Cons.IH [OF _ _ conjunct2 [OF s]] Cons.prems(4) by simp
qed simp

text \<open>
  C9: A tap never looks ignored and never waits for long. While the panel stays open, in
  whatever order the answers, the pieces, the failures, the timers and the frames come: it has
  opened 400 milliseconds after the tap, and from ten seconds on it shows a text with
  characters, is typing one out, or tells the reader with a message that there is none. This is
  for the events the server sends: text with characters, the end only after some text, every
  event with a known key (\<open>sends_text\<close>; \<open>empty_end_says_nothing\<close> is what an end without text
  would do).
\<close>

theorem panel_answers_in_time:
  fixes reduced url evs
  defines "p \<equiv> run_panel reduced url evs"
  assumes "sends_text False (stream_of evs)" and "alive p"
  shows "(availability_wait_ms \<le> panel_clock p \<longrightarrow> panel p \<noteq> Checking) \<and>
    (summary_wait_ms \<le> panel_clock p \<longrightarrow>
      \<not> wordless (panel p) \<or> typers p \<noteq> [] \<and> (\<forall>t \<in> set (typers p). fst t \<noteq> []))"
proof -
  have "got_ok False (mount_web url)" by (simp add: got_ok_def)
  then have "panel_ok p" using run_ok [OF mount_ok _ assms(2)] assms(3) by (simp add: p_def run_panel_def)
  then show ?thesis by (auto simp: panel_ok_def)
qed

theorem panel_answers_in_time_witness:
  "panel (run_panel False ''https://a.b/c'' [Pass 500, Check_Answer None, Pass 9500]) = Slow"
proof -
  let ?evs = "[Pass 500, Check_Answer None, Pass 9500]"
  have "is_summarizable (Some ''https://a.b/c'')" by code_simp
  then have run: "panel (run_panel False ''https://a.b/c'' ?evs) = Slow"
    "alive (run_panel False ''https://a.b/c'' ?evs)" "panel_clock (run_panel False ''https://a.b/c'' ?evs) = 10000"
    by (simp_all add: run_panel_def mount_web_def panel_step_def web_waits_def check_answers_def
        show_loading_def show_slow_def summary_constants Let_def)
  have "sends_text False (stream_of ?evs)" by simp
  then show ?thesis using panel_answers_in_time [of ?evs False "''https://a.b/c''"] run by simp
qed

section \<open>The summary arrives\<close>

text \<open>An event other than the end of the panel and a \<open>no\<close> of the check.\<close>

definition harmless :: "panel_event \<Rightarrow> bool" where
  "harmless ev \<longleftrightarrow> ev \<noteq> Unmount \<and> ev \<noteq> Check_Answer (Some False)"

text \<open>Nothing is typed and what has come is what is shown, as soon as there is any of it.\<close>

definition shows_pieces :: "units \<Rightarrow> web_panel \<Rightarrow> bool" where
  "shows_pieces got p \<longleftrightarrow> alive p \<and> streaming p \<and> typers p = [] \<and> written p = got \<and>
     (got \<noteq> [] \<longrightarrow> deadline p = None \<and> panel p = Writing got False)"

text \<open>The last word of the panel: nothing is left that could change it but a \<open>no\<close> of the check.\<close>

definition rests_on :: "panel \<Rightarrow> web_panel \<Rightarrow> bool" where
  "rests_on s p \<longleftrightarrow> alive p \<and> typers p = [] \<and> deadline p = None \<and> panel p = s \<and> s \<noteq> Checking"

lemma waits_rests: "rests_on s p \<Longrightarrow> rests_on s (web_waits d p)"
  by (auto simp: rests_on_def web_waits_def show_loading_def Let_def split: option.splits)

lemma step_rests:
  assumes "rests_on s p" and "harmless ev" and "stream_of [ev] = [] \<or> \<not> streaming p"
  shows "rests_on s (panel_step reduced ev p)" and "streaming (panel_step reduced ev p) = streaming p"
  using assms
  by (cases ev; auto simp: rests_on_def harmless_def panel_step_def animation_frame_def check_answers_def
      show_loading_def Let_def web_waits_def show_slow_def split: option.splits)+

lemma mount_pieces: "is_summarizable (Some url) \<Longrightarrow> shows_pieces [] (mount_web url)"
  by (simp add: shows_pieces_def mount_web_def Let_def)

lemma waits_pieces: "shows_pieces got p \<Longrightarrow> shows_pieces got (web_waits d p)"
  by (cases "got = []")
    (auto simp: shows_pieces_def web_waits_def show_loading_def show_slow_def Let_def split: option.splits)

lemma step_pieces:
  assumes "shows_pieces got p" and "stream_of [ev] = []" and "ev \<noteq> Unmount" and "harmless ev \<or> got = []"
  shows "shows_pieces got (panel_step reduced ev p)"
proof (cases ev)
  case (Pass d)
  then show ?thesis using waits_pieces [OF assms(1)] assms(1) by (simp add: panel_step_def)
next
  case (Check_Answer a)
  then show ?thesis using assms(1,4)
    by (auto simp: shows_pieces_def panel_step_def check_answers_def show_loading_def show_unavailable_def
        harmless_def Let_def split: option.splits)
qed (use assms in \<open>auto simp: shows_pieces_def panel_step_def animation_frame_def\<close>)

lemma step_piece:
  "shows_pieces got p \<Longrightarrow> shows_pieces (got @ d) (panel_step reduced (Stream (Event (Piece d))) p)"
  by (auto simp: shows_pieces_def panel_step_def stream_gives_def stream_event_def Let_def)

lemma step_done:
  assumes "shows_pieces got p" and "got \<noteq> []"
  shows "rests_on (Finished got False) (panel_step reduced (Stream (Event Done_Event)) p)"
    and "written (panel_step reduced (Stream (Event Done_Event)) p) = got"
  using assms by (auto simp: shows_pieces_def rests_on_def panel_step_def stream_gives_def stream_event_def Let_def)

lemma step_over:
  assumes "rests_on (Finished got False) p" and "written p = got" and "got \<noteq> []" and "x = Closed \<or> x = Broken"
  shows "rests_on (Finished got False) (panel_step reduced (Stream x) p)"
    and "written (panel_step reduced (Stream x) p) = got"
  using assms by (auto simp: rests_on_def panel_step_def stream_gives_def stream_fails_def Let_def)

lemma step_written:
  "stream_of [ev] = [] \<Longrightarrow> written (panel_step reduced ev p) = written p" if "typers p = []"
  using that
  by (cases ev) (auto simp: panel_step_def check_answers_def show_loading_def show_unavailable_def show_slow_def
      web_waits_def unmount_web_def animation_frame_def Let_def split: option.splits)

lemma pieces_before:
  "shows_pieces [] p \<Longrightarrow> stream_of evs = [] \<Longrightarrow> Unmount \<notin> set evs \<Longrightarrow>
   shows_pieces [] (fold (panel_step reduced) evs p)"
proof (induction evs arbitrary: p)
  case (Cons ev evs)
  then have "stream_of [ev] = []" "stream_of evs = []" by (auto simp: stream_of_def)
  then show ?case using Cons step_pieces [of "[]" p ev] by auto
qed simp

lemma stream_of_Cons: "stream_of (ev # evs) = stream_of [ev] @ stream_of evs"
  by (simp add: stream_of_def)

lemma rests_after:
  assumes "rests_on (Finished got False) p" and "written p = got" and "got \<noteq> []"
    and "list_all harmless evs" and "set (stream_of evs) \<subseteq> {Closed, Broken}"
  shows "rests_on (Finished got False) (fold (panel_step reduced) evs p)"
  using assms
proof (induction evs arbitrary: p)
  case (Cons ev evs)
  let ?q = "panel_step reduced ev p"
  have typers: "typers p = []" using Cons.prems(1) by (simp add: rests_on_def)
  have "rests_on (Finished got False) ?q \<and> written ?q = got"
  proof (cases "stream_of [ev] = []")
    case True
    then show ?thesis using step_rests(1) [OF Cons.prems(1)] step_written [OF typers True] Cons.prems(2,4) by simp
  next
    case False
    then obtain x where x: "ev = Stream x" by (cases ev) auto
    then have "x = Closed \<or> x = Broken" using Cons.prems(5) by auto
    then show ?thesis using step_over [OF Cons.prems(1-3)] x by simp
  qed
  moreover have "set (stream_of evs) \<subseteq> {Closed, Broken}" using Cons.prems(5) stream_of_Cons [of ev evs] by auto
  ultimately show ?case using Cons.IH Cons.prems(3,4) by simp
qed simp

lemma pieces_arrive:
  assumes "shows_pieces got p" and "list_all harmless evs"
    and "stream_of evs = map (Event \<circ> Piece) ds @ Event Done_Event # rest" and "set rest \<subseteq> {Closed, Broken}"
    and "got @ concat ds \<noteq> []"
  shows "rests_on (Finished (got @ concat ds) False) (fold (panel_step reduced) evs p)"
  using assms
proof (induction evs arbitrary: got ds p)
  case (Cons ev evs)
  show ?case
  proof (cases "stream_of [ev] = []")
    case True
    then have "shows_pieces got (panel_step reduced ev p)"
      using step_pieces [OF Cons.prems(1)] Cons.prems(2) by (simp add: harmless_def)
    moreover have "stream_of evs = map (Event \<circ> Piece) ds @ Event Done_Event # rest"
      using Cons.prems(3) stream_of_Cons [of ev evs] True by simp
    ultimately show ?thesis using Cons.IH Cons.prems(2,4,5) by simp
  next
    case False
    then obtain x where x: "ev = Stream x" by (cases ev) auto
    show ?thesis
    proof (cases ds)
      case Nil
      then have "x = Event Done_Event" "stream_of evs = rest" "got \<noteq> []" using Cons.prems(3,5) x by auto
      then show ?thesis
        using rests_after [OF step_done [OF Cons.prems(1)]] Cons.prems(2,4) Nil x by simp
    next
      case (Cons d ds')
      then have "x = Event (Piece d)" "stream_of evs = map (Event \<circ> Piece) ds' @ Event Done_Event # rest"
        using Cons.prems(3) x by auto
      then show ?thesis
        using Cons.IH [OF step_piece [OF Cons.prems(1), of d], of ds'] Cons.prems(2,4,5) Cons x by simp
    qed
  qed
qed simp

text \<open>
  C8: A streamed summary arrives whole, however late, on a panel that stays open. Whatever the
  timers and the check did before its first piece, a message that it takes long or that there is
  none included, once its pieces and their end have come the panel shows all of them in order
  and keeps showing them, though the connection then closes or drops; provided that no \<open>no\<close> of
  the availability check comes after the pieces began (\<open>late_no_hides_summary\<close> is that case).
\<close>

theorem streamed_summary_shown:
  assumes "is_summarizable (Some url)" and "stream_of before = []" and "Unmount \<notin> set before"
    and "list_all harmless evs"
    and "stream_of evs = map (Event \<circ> Piece) ds @ Event Done_Event # rest" and "set rest \<subseteq> {Closed, Broken}"
    and "concat ds \<noteq> []"
  shows "panel (run_panel reduced url (before @ evs)) = Finished (concat ds) False"
proof -
  have "shows_pieces [] (fold (panel_step reduced) before (mount_web url))"
    using pieces_before [OF mount_pieces [OF assms(1)] assms(2,3)] .
  from pieces_arrive [OF this assms(4,5,6)] show ?thesis
    using assms(7) by (simp add: run_panel_def rests_on_def)
qed

theorem streamed_summary_shown_witness:
  "panel (run_panel False ''https://a.b/c''
     ([Check_Answer (Some False), Pass 12000]
      @ [Stream (Event (Piece [72])), Pass 300, Stream (Event (Piece [105])), Stream (Event Done_Event), Frame]))
   = Finished [72, 105] False"
proof -
  have "is_summarizable (Some ''https://a.b/c'')" by code_simp
  then show ?thesis
    using streamed_summary_shown [of "''https://a.b/c''" "[Check_Answer (Some False), Pass 12000]"
        "[Stream (Event (Piece [72])), Pass 300, Stream (Event (Piece [105])), Stream (Event Done_Event), Frame]"
        "[[72], [105]]" "[]" False]
    by (simp add: harmless_def)
qed

section \<open>What the panel gets wrong\<close>

text \<open>
  A refusal after pieces means that the server takes them back, and the panel drops them, unless
  it has given its message already: then it cannot give another.
\<close>

lemma refusal_withdraws:
  "alive p \<Longrightarrow> streaming p \<Longrightarrow> \<not> settled p \<Longrightarrow>
   panel (panel_step reduced (Stream (Event Refused)) p) = Unavailable"
  by (simp add: panel_step_def stream_gives_def stream_event_def stream_fails_def show_unavailable_def Let_def)

definition stuck_on :: "panel \<Rightarrow> web_panel \<Rightarrow> bool" where
  "stuck_on s p \<longleftrightarrow> rests_on s p \<and> settled p \<and> \<not> streaming p"

lemma settled_stays:
  "deadline p = None \<Longrightarrow> settled (web_waits d p) = settled p"
  "settled p \<Longrightarrow> settled (check_answers a p)"
  by (auto simp: web_waits_def check_answers_def show_loading_def show_unavailable_def Let_def split: option.split)

lemma step_stuck:
  assumes "stuck_on s p" and "ev \<noteq> Unmount"
  shows "stuck_on s (panel_step reduced ev p)"
proof (cases "ev = Check_Answer (Some False)")
  case True
  then show ?thesis using assms
    by (simp add: stuck_on_def rests_on_def panel_step_def check_answers_def show_unavailable_def Let_def)
next
  case False
  then have ev: "harmless ev" using assms(2) by (simp add: harmless_def)
  have p: "rests_on s p" "settled p" "\<not> streaming p" using assms(1) by (simp_all add: stuck_on_def)
  then have "alive p" "typers p = []" "deadline p = None" by (simp_all add: rests_on_def)
  then have "settled (panel_step reduced ev p)"
    using p(2,3) ev settled_stays [of p]
    by (cases ev) (simp_all add: panel_step_def animation_frame_def harmless_def)
  then show ?thesis using step_rests [OF p(1) ev] p(3) by (simp add: stuck_on_def)
qed

lemma run_stuck: "stuck_on s p \<Longrightarrow> Unmount \<notin> set evs \<Longrightarrow> stuck_on s (fold (panel_step reduced) evs p)"
proof (induction evs arbitrary: p)
  case (Cons ev evs)
  then have "ev \<noteq> Unmount" "Unmount \<notin> set evs" by auto
  then show ?case using Cons.IH [OF step_stuck [OF Cons.prems(1)]] by simp
qed simp

text \<open>
  Text the server took back stays. After ten seconds without a word, pieces that come and
  are then refused remain on the panel, with the caret of a text still being written, until the
  reader closes it.
\<close>

theorem refused_text_stays:
  assumes "is_summarizable (Some url)" and "d \<noteq> []" and "Unmount \<notin> set evs"
  shows "panel (run_panel reduced url
      ([Pass 10000, Stream (Event (Piece d)), Stream (Event Refused)] @ evs)) = Writing d False"
proof -
  have "stuck_on (Writing d False)
      (run_panel reduced url [Pass 10000, Stream (Event (Piece d)), Stream (Event Refused)])"
    using assms(1,2)
    by (simp add: stuck_on_def rests_on_def run_panel_def mount_web_def panel_step_def web_waits_def
        show_loading_def show_slow_def stream_gives_def stream_event_def stream_fails_def
        show_unavailable_def summary_constants Let_def)
  from run_stuck [OF this assms(3)] show ?thesis by (simp add: run_panel_def stuck_on_def rests_on_def)
qed

theorem refused_text_stays_witness:
  "panel (run_panel True ''https://a.b/c''
     ([Pass 10000, Stream (Event (Piece [72])), Stream (Event Refused)] @ [Frame, Pass 60000, Check_Answer (Some False)]))
   = Writing [72] False"
proof -
  have "is_summarizable (Some ''https://a.b/c'')" by code_simp
  then show ?thesis
    using refused_text_stays [of "''https://a.b/c''" "[72]" "[Frame, Pass 60000, Check_Answer (Some False)]" True]
    by simp
qed

text \<open>
  A \<open>no\<close> of the check that comes after the summary takes the finished summary away, for good.
  The app guards against it (\<open>landed\<close>).
\<close>

lemma late_no_hides_summary:
  assumes "is_summarizable (Some url)" and "d \<noteq> []" and "Unmount \<notin> set evs"
  shows "panel (run_panel reduced url
      ([Stream (Event (Piece d)), Stream (Event Done_Event), Stream Closed, Check_Answer (Some False)] @ evs)) = Unavailable"
proof -
  have "stuck_on Unavailable (run_panel reduced url
      [Stream (Event (Piece d)), Stream (Event Done_Event), Stream Closed, Check_Answer (Some False)])"
    using assms(1,2)
    by (simp add: stuck_on_def rests_on_def run_panel_def mount_web_def panel_step_def check_answers_def
        stream_gives_def stream_event_def show_unavailable_def Let_def)
  from run_stuck [OF this assms(3)] show ?thesis by (simp add: run_panel_def stuck_on_def rests_on_def)
qed

text \<open>
  An end without any text, once the panel has said that it takes long, wipes that message away:
  the panel stays empty and without a word until the reader closes it.
\<close>

lemma empty_end_says_nothing:
  assumes "is_summarizable (Some url)" and "Unmount \<notin> set evs"
  shows "panel (run_panel reduced url ([Pass 10000, Stream (Event Done_Event), Stream Closed] @ evs)) = Finished [] False"
proof -
  have "stuck_on (Finished [] False)
      (run_panel reduced url [Pass 10000, Stream (Event Done_Event), Stream Closed])"
    using assms(1)
    by (simp add: stuck_on_def rests_on_def run_panel_def mount_web_def panel_step_def web_waits_def
        show_loading_def show_slow_def stream_gives_def stream_event_def stream_fails_def
        show_unavailable_def summary_constants Let_def)
  from run_stuck [OF this assms(2)] show ?thesis by (simp add: run_panel_def stuck_on_def rests_on_def)
qed

section \<open>Room for the next headlines\<close>

text \<open>
  The open panel is between 140 and 240 pixels high, and unless it has its least height it
  leaves the next two rows, with the gap before them, whole in the card, to half a pixel.
\<close>

theorem panel_leaves_rows:
  "min_panel_px \<le> panel_height room rows \<and> panel_height room rows \<le> max_panel_px \<and>
   (panel_height room rows = min_panel_px \<or>
    of_int (panel_height room rows) + reserve_for rows \<le> room + 1 / 2)"
proof -
  let ?h = "panel_height room rows" and ?fit = "js_round (room - reserve_for rows)"
  have fit: "real_of_int ?fit \<le> room - reserve_for rows + 1 / 2" by (simp add: js_round_def)
  have h: "?h = min_panel_px \<or> ?h \<le> ?fit" by (auto simp: panel_height_def)
  then have "?h = min_panel_px \<or> real_of_int ?h \<le> real_of_int ?fit" by (simp only: of_int_le_iff)
  then have "?h = min_panel_px \<or> real_of_int ?h + reserve_for rows \<le> room + 1 / 2" using fit by linarith
  moreover have "min_panel_px \<le> ?h \<and> ?h \<le> max_panel_px"
    unfolding panel_height_def min_panel_px_def max_panel_px_def by linarith
  ultimately show ?thesis by blast
qed

section \<open>The panel of the app\<close>

text \<open>
  The app asks for the summary in one piece. A run of its effect is current until it hands the
  reader over to the article or the panel closes; both count up the run identifier, after which
  nothing of the run touches the panel.
\<close>

datatype app_face = App_Loading | App_Slow | App_Writing units | App_Done units bool

record app_panel =
  current_run :: bool
  app_face :: app_face
  app_typer :: "(units \<times> bool \<times> int) option"
  app_deadline :: "int option"
  landed :: bool
  awaiting_summary :: bool
  awaiting_availability :: bool
  app_time :: int
  articles_opened :: nat

definition mount_app :: app_panel where
  "mount_app =
     \<lparr>current_run = True, app_face = App_Loading, app_typer = None,
      app_deadline = Some summary_wait_ms, landed = False, awaiting_summary = True,
      awaiting_availability = True, app_time = 0, articles_opened = 0\<rparr>"

text \<open>The division by the pace; an empty text has an endless pace, and nothing of it to show.\<close>

definition app_typed :: "units \<Rightarrow> int \<Rightarrow> nat" where
  "app_typed text elapsed =
     (if text = [] then 0
      else min (length text) (nat \<lceil>real_of_int elapsed / (of_int type_out_max_ms / real (length text))\<rceil>))"

definition app_frame :: "app_panel \<Rightarrow> app_panel" where
  "app_frame p =
     (case app_typer p of
        None \<Rightarrow> p
      | Some (text, teaser, started) \<Rightarrow>
          (let n = app_typed text (app_time p - started)
           in if length text \<le> n then p\<lparr>app_face := App_Done text teaser, app_typer := None\<rparr>
              else p\<lparr>app_face := App_Writing (take n text)\<rparr>))"

definition open_article :: "app_panel \<Rightarrow> app_panel" where
  "open_article p = p\<lparr>current_run := False, articles_opened := articles_opened p + 1\<rparr>"

definition summary_lands :: "(units \<times> bool) option \<Rightarrow> app_panel \<Rightarrow> app_panel" where
  "summary_lands answer p =
     (let q = p\<lparr>awaiting_summary := False, app_deadline := None\<rparr>
      in case answer of
           Some (text, teaser) \<Rightarrow> q\<lparr>landed := True, app_typer := Some (text, teaser, app_time q)\<rparr>
         | None \<Rightarrow> q\<lparr>app_face := App_Slow\<rparr>)"

definition availability_lands :: "bool option \<Rightarrow> app_panel \<Rightarrow> app_panel" where
  "availability_lands answer p =
     (let q = p\<lparr>awaiting_availability := False\<rparr>
      in if answer = Some False \<and> \<not> landed q then open_article q else q)"

definition app_waits :: "nat \<Rightarrow> app_panel \<Rightarrow> app_panel" where
  "app_waits d p =
     (let q = p\<lparr>app_time := app_time p + int d\<rparr>
      in case app_deadline q of
           Some due \<Rightarrow> (if due \<le> app_time q then q\<lparr>app_deadline := None, app_face := App_Slow\<rparr> else q)
         | None \<Rightarrow> q)"

datatype app_event =
    App_Pass nat
  | App_Frame
  | App_Summary "(units \<times> bool) option"
  | App_Check "bool option"
  | App_Unmount

definition app_panel_step :: "app_event \<Rightarrow> app_panel \<Rightarrow> app_panel" where
  "app_panel_step ev p =
     (if \<not> current_run p then p
      else case ev of
        App_Pass d \<Rightarrow> app_waits d p
      | App_Frame \<Rightarrow> app_frame p
      | App_Summary answer \<Rightarrow> (if awaiting_summary p then summary_lands answer p else p)
      | App_Check answer \<Rightarrow> (if awaiting_availability p then availability_lands answer p else p)
      | App_Unmount \<Rightarrow> p\<lparr>current_run := False, app_deadline := None, app_typer := None\<rparr>)"

definition run_app_panel :: "app_event list \<Rightarrow> app_panel" where
  "run_app_panel evs = fold app_panel_step evs mount_app"

lemma app_step_opens:
  "(landed p \<longrightarrow> articles_opened p = 0) \<and> (current_run p \<longrightarrow> articles_opened p = 0) \<and> articles_opened p \<le> 1 \<Longrightarrow>
   (landed (app_panel_step ev p) \<longrightarrow> articles_opened (app_panel_step ev p) = 0) \<and>
   (current_run (app_panel_step ev p) \<longrightarrow> articles_opened (app_panel_step ev p) = 0) \<and>
   articles_opened (app_panel_step ev p) \<le> 1"
  by (cases ev) (auto simp: app_panel_step_def app_waits_def app_frame_def summary_lands_def
      availability_lands_def open_article_def Let_def split: option.splits)

text \<open>
  The app sends a reader to the article by itself at most once for a tap, and never once a
  summary has landed.
\<close>

theorem app_hands_over_once:
  "articles_opened (run_app_panel evs) \<le> 1 \<and>
   (landed (run_app_panel evs) \<longrightarrow> articles_opened (run_app_panel evs) = 0)"
proof -
  have "(landed p \<longrightarrow> articles_opened p = 0) \<and> (current_run p \<longrightarrow> articles_opened p = 0) \<and> articles_opened p \<le> 1 \<Longrightarrow>
      (landed (fold app_panel_step evs p) \<longrightarrow> articles_opened (fold app_panel_step evs p) = 0) \<and>
      articles_opened (fold app_panel_step evs p) \<le> 1" for p
  proof (induction evs arbitrary: p)
    case (Cons ev evs)
    then show ?case using Cons.IH [OF app_step_opens [OF Cons.prems]] by simp
  qed simp
  then show ?thesis by (simp add: run_app_panel_def mount_app_def)
qed

theorem app_hands_over_once_witness:
  "articles_opened (run_app_panel [App_Summary (Some ([72], False)), App_Check (Some False)]) = 0"
  using app_hands_over_once [of "[App_Summary (Some ([72], False)), App_Check (Some False)]"]
  by (simp add: run_app_panel_def mount_app_def app_panel_step_def summary_lands_def availability_lands_def Let_def)

text \<open>
  The comments promise that an open panel keeps the reader's place; a \<open>no\<close> after the summary
  failed, or after ten seconds, leaves for the article all the same.
\<close>

lemma late_no_leaves_panel:
  "app_face (run_app_panel [App_Summary None]) = App_Slow \<and>
   articles_opened (run_app_panel [App_Summary None, App_Check (Some False)]) = 1 \<and>
   app_face (run_app_panel [App_Pass 10000]) = App_Slow \<and>
   articles_opened (run_app_panel [App_Pass 10000, App_Check (Some False)]) = 1"
  by (simp add: run_app_panel_def mount_app_def app_panel_step_def summary_lands_def availability_lands_def
      open_article_def app_waits_def summary_constants Let_def)

section \<open>Typing out\<close>

lemma typer_finishes:
  assumes "type_out_max_ms \<le> now - started"
  shows "type_step reduced now (body, teaser, started) = (Finished body teaser, False)"
proof -
  have "600 \<le> real_of_int now - real_of_int started"
    using assms by (simp add: type_out_max_ms_def flip: of_int_diff)
  then have "js_round (min 1 (real_of_int (now - started) / min 600 (real (length body) * (3 / 2))) * real (length body))
      = int (length body)" if "body \<noteq> []"
    using that by (simp add: min_absorb1 le_divide_eq js_round_def)
  then show ?thesis
    using assms by (auto simp: type_step_def typed_units_def type_out_max_ms_def split: option.splits)
qed

lemma app_typed_all: "type_out_max_ms \<le> elapsed \<Longrightarrow> app_typed body elapsed = length body"
proof -
  assume e: "type_out_max_ms \<le> elapsed"
  show ?thesis
  proof (cases "body = []")
    case False
    have "real (length body) * 600 \<le> real (length body) * real_of_int elapsed"
      using e by (intro mult_left_mono) (simp_all add: type_out_max_ms_def)
    then have "real (length body) \<le> real_of_int elapsed / (600 / real (length body))"
      using False by (simp add: le_divide_eq field_simps)
    then have "int (length body) \<le> \<lceil>real_of_int elapsed / (600 / real (length body))\<rceil>" by linarith
    then show ?thesis using False by (simp add: app_typed_def type_out_max_ms_def)
  qed (simp add: app_typed_def)
qed

text \<open>Before the summary: the run is current and waits for it. After: it is typed or done.\<close>

definition app_waiting :: "app_panel \<Rightarrow> bool" where
  "app_waiting p \<longleftrightarrow> current_run p \<and> awaiting_summary p \<and> \<not> landed p \<and> app_typer p = None"

definition app_typing :: "units \<Rightarrow> bool \<Rightarrow> int \<Rightarrow> app_panel \<Rightarrow> bool" where
  "app_typing body teaser started p \<longleftrightarrow>
     current_run p \<and> landed p \<and> \<not> awaiting_summary p \<and> app_deadline p = None \<and>
     (app_typer p = Some (body, teaser, started) \<or> app_typer p = None \<and> app_face p = App_Done body teaser)"

fun app_waited :: "app_event list \<Rightarrow> int" where
  "app_waited [] = 0"
| "app_waited (App_Pass d # evs) = int d + app_waited evs"
| "app_waited (_ # evs) = app_waited evs"

lemma step_waiting:
  assumes "app_waiting p" and "ev \<noteq> App_Unmount" and "ev \<noteq> App_Check (Some False)" and "\<And>a. ev \<noteq> App_Summary a"
  shows "app_waiting (app_panel_step ev p)"
  using assms
  by (cases ev) (auto simp: app_waiting_def app_panel_step_def app_waits_def app_frame_def availability_lands_def
      Let_def split: option.splits)

lemma step_typing:
  assumes "app_typing body teaser started p" and "ev \<noteq> App_Unmount"
  shows "app_typing body teaser started (app_panel_step ev p)"
    and "app_time (app_panel_step ev p) = app_time p + app_waited [ev]"
  using assms
  by (cases ev; auto simp: app_typing_def app_panel_step_def app_waits_def app_frame_def availability_lands_def
      Let_def split: option.splits)+

lemma run_typing:
  "app_typing body teaser started p \<Longrightarrow> App_Unmount \<notin> set evs \<Longrightarrow>
   app_typing body teaser started (fold app_panel_step evs p) \<and>
   app_time (fold app_panel_step evs p) = app_time p + app_waited evs"
proof (induction evs arbitrary: p)
  case (Cons ev evs)
  then have "ev \<noteq> App_Unmount" "App_Unmount \<notin> set evs" by auto
  then show ?case
    using Cons.IH [OF step_typing(1) [OF Cons.prems(1)]] step_typing(2) [OF Cons.prems(1)]
    by (cases ev) simp_all
qed simp

lemma frame_typing:
  assumes "app_typing body teaser started p" and "type_out_max_ms \<le> app_time p - started"
  shows "app_face (app_panel_step App_Frame p) = App_Done body teaser"
  using assms app_typed_all [OF assms(2), of body]
  by (auto simp: app_typing_def app_panel_step_def app_frame_def)

text \<open>
  In the app a summary that lands while the panel is open, also after the message that it
  takes long, is on the panel whole at the first frame from 600 milliseconds after it landed,
  whatever the check still answers.
\<close>

theorem app_summary_typed_out:
  assumes "\<And>ev. ev \<in> set before \<Longrightarrow> ev \<noteq> App_Unmount \<and> ev \<noteq> App_Check (Some False) \<and> (\<forall>a. ev \<noteq> App_Summary a)"
    and "App_Unmount \<notin> set evs" and "type_out_max_ms \<le> app_waited evs"
  shows "app_face (run_app_panel (before @ App_Summary (Some (body, teaser)) # evs @ [App_Frame])) = App_Done body teaser"
proof -
  have "app_waiting p \<Longrightarrow> app_waiting (fold app_panel_step before p)" for p
    using assms(1) by (induction before arbitrary: p) (simp_all add: step_waiting)
  then have w: "app_waiting (run_app_panel before)"
    by (simp add: run_app_panel_def app_waiting_def mount_app_def)
  let ?q = "app_panel_step (App_Summary (Some (body, teaser))) (run_app_panel before)"
  have "app_typing body teaser (app_time ?q) ?q"
    using w by (simp add: app_waiting_def app_typing_def app_panel_step_def summary_lands_def Let_def)
  from run_typing [OF this assms(2)] show ?thesis
    using frame_typing [of body teaser "app_time ?q" "fold app_panel_step evs ?q"] assms(3)
    by (simp add: run_app_panel_def)
qed

theorem app_summary_typed_out_witness:
  "app_face (run_app_panel ([App_Pass 12000] @ App_Summary (Some ([72, 105], True))
     # [App_Check (Some False), App_Frame, App_Pass 700] @ [App_Frame])) = App_Done [72, 105] True"
  by (rule app_summary_typed_out) (auto simp: type_out_max_ms_def)

end
