(* ===== verification/Roster.thy ===== *)
theory Roster
  imports Prefs I18n
begin

text \<open>
  Choosing cards: the source palette of the web
  (\<open>apps/web/src/components/News/NewsSearchDialog.tsx\<close>, \<open>TopicChips.tsx\<close>,
  \<open>TemplateGallery.tsx\<close>) and its twin in the app (\<open>apps/app/components/News/SourceRoster.tsx\<close>
  and the files of the same names, \<open>NewsSearchResults.tsx\<close>). The topic chips and the columns
  they select, the search over the roster, the window of rows, the starter sets and what every
  button does to the preferences of \<open>Prefs\<close>. A button gives a list of operations of the store.
  Names are compared in ASCII lower case. Badges, haptics and the flash of a pressed button are
  left out, and so is the deferral of the query.
\<close>

section \<open>Topic chips\<close>

record roster_source =
  source_id :: string
  source_name :: string
  source_title :: "string option"
  source_column :: "string option"
  source_redirect :: bool

definition present_columns :: "roster_source list \<Rightarrow> string list" where
  "present_columns sources =
     uniq (concat (map (\<lambda>s. case truthy (source_column s) of None \<Rightarrow> [] | Some c \<Rightarrow> [c]) sources))"

type_synonym topic_group = "string \<times> string list"

definition shown_groups :: "string list \<Rightarrow> topic_group list" where
  "shown_groups present =
     filter (\<lambda>g. snd g \<noteq> [])
       (map (\<lambda>(gid, columns). (gid, filter (\<lambda>c. c \<in> set present) columns)) news_topic_groups)"

definition orphan_columns :: "string list \<Rightarrow> string list" where
  "orphan_columns present = sort (filter (\<lambda>c. c \<notin> news_grouped_columns) present)"

definition group_engaged :: "string list \<Rightarrow> topic_group \<Rightarrow> bool" where
  "group_engaged topics g \<longleftrightarrow> fst g \<in> set topics \<or> (\<exists>c \<in> set (snd g). c \<in> set topics)"

definition toggle_group :: "topic_group \<Rightarrow> string list \<Rightarrow> string list" where
  "toggle_group g topics =
     (if group_engaged topics g
      then filter (\<lambda>x. x \<noteq> fst g \<and> x \<notin> set (snd g)) topics
      else topics @ [fst g])"

definition toggle_sub :: "topic_group \<Rightarrow> string \<Rightarrow> string list \<Rightarrow> string list" where
  "toggle_sub g c topics =
     (if fst g \<in> set topics then filter (\<lambda>x. x \<noteq> fst g) topics @ [c]
      else if c \<in> set topics then filter (\<lambda>x. x \<noteq> c) topics
      else topics @ [c])"

definition toggle_orphan :: "string \<Rightarrow> string list \<Rightarrow> string list" where
  "toggle_orphan c topics =
     (if c \<in> set topics then filter (\<lambda>x. x \<noteq> c) topics else topics @ [c])"

definition expanded_groups :: "string list \<Rightarrow> string list \<Rightarrow> topic_group list" where
  "expanded_groups present topics =
     filter (\<lambda>g. 1 < length (snd g) \<and> group_engaged topics g) (shown_groups present)"

text \<open>A chip of a group means all of its columns; any other topic is a column.\<close>

definition selected_columns :: "string list \<Rightarrow> string list" where
  "selected_columns topics =
     concat (map (\<lambda>x. case map_of news_topic_groups x of Some columns \<Rightarrow> columns | None \<Rightarrow> [x]) topics)"

section \<open>The search\<close>

definition collapse :: "string \<Rightarrow> string" where
  "collapse base = filter (\<lambda>c. is_lower c \<or> is_digit c) base"

definition haystack :: "roster_source \<Rightarrow> string" where
  "haystack s =
     (let base = to_lower (source_name s @ '' '' @ or_else (source_title s) [] @ '' '' @ source_id s)
      in base @ '' '' @ collapse base)"

definition matches_topics :: "string list \<Rightarrow> roster_source \<Rightarrow> bool" where
  "matches_topics topics s \<longleftrightarrow>
     topics = [] \<or>
     (case truthy (source_column s) of None \<Rightarrow> False | Some c \<Rightarrow> c \<in> set (selected_columns topics))"

definition search_results :: "roster_source list \<Rightarrow> string \<Rightarrow> string list \<Rightarrow> roster_source list" where
  "search_results sources query topics =
     (let q = to_lower (trim query)
      in filter (\<lambda>s. matches_topics topics s \<and> (q = [] \<or> includes_str q (haystack s)))
           (filter (\<lambda>s. \<not> source_redirect s) sources))"

definition max_render :: nat where
  "max_render = 120"

definition render_batch :: nat where
  "render_batch = 120"

text \<open>The palette: what is typed, which chips are on, whether the starters show, how many rows.\<close>

record palette =
  palette_query :: string
  palette_topics :: "string list"
  templates_open :: bool
  render_limit :: nat

definition web_palette :: palette where
  "web_palette = \<lparr>palette_query = [], palette_topics = [], templates_open = True, render_limit = max_render\<rparr>"

definition app_palette :: "bool \<Rightarrow> palette" where
  "app_palette auto_focus_search = web_palette\<lparr>templates_open := \<not> auto_focus_search\<rparr>"

datatype palette_event =
    Type_Query string
  | Change_Topics "string list \<Rightarrow> string list"
  | Toggle_Templates
  | Reach_End

text \<open>A new set of results starts the window of rows again.\<close>

definition palette_step :: "roster_source list \<Rightarrow> palette_event \<Rightarrow> palette \<Rightarrow> palette" where
  "palette_step sources ev p =
     (case ev of
        Type_Query q \<Rightarrow>
          p\<lparr>palette_query := q, templates_open := (if q \<noteq> [] then False else templates_open p),
             render_limit := (if q = palette_query p then render_limit p else max_render)\<rparr>
      | Change_Topics f \<Rightarrow>
          p\<lparr>templates_open := False, palette_topics := f (palette_topics p), render_limit := max_render\<rparr>
      | Toggle_Templates \<Rightarrow>
          p\<lparr>templates_open := \<not> templates_open p, palette_topics := [], render_limit := max_render\<rparr>
      | Reach_End \<Rightarrow>
          (let n = length (search_results sources (palette_query p) (palette_topics p))
           in if n \<le> render_limit p then p
              else p\<lparr>render_limit := min (render_limit p + render_batch) n\<rparr>))"

definition visible_results :: "roster_source list \<Rightarrow> palette \<Rightarrow> roster_source list" where
  "visible_results sources p =
     take (render_limit p) (search_results sources (palette_query p) (palette_topics p))"

definition result_ids :: "roster_source list \<Rightarrow> palette \<Rightarrow> string list" where
  "result_ids sources p = map source_id (search_results sources (palette_query p) (palette_topics p))"

text \<open>The buttons over the list; both are off while there is no result.\<close>

definition press_select_all :: "roster_source list \<Rightarrow> palette \<Rightarrow> prefs_op list" where
  "press_select_all sources p =
     (let ids = result_ids sources p in if ids = [] then [] else [FollowAll ids])"

definition press_deselect_all :: "roster_source list \<Rightarrow> palette \<Rightarrow> prefs_op list" where
  "press_deselect_all sources p =
     (let ids = result_ids sources p
      in if ids = [] then []
         else UnfollowAll ids # (if palette_topics p = [] then [SetActiveTemplates []] else []))"

section \<open>What else a query can find\<close>

text \<open>The app asks the server for headlines when no source matches.\<close>

definition show_headline_search :: "roster_source list \<Rightarrow> palette \<Rightarrow> bool" where
  "show_headline_search sources p \<longleftrightarrow>
     search_results sources (palette_query p) (palette_topics p) = [] \<and> palette_topics p = [] \<and>
     2 \<le> utf16_length (trim (palette_query p))"

definition can_find_city :: "palette \<Rightarrow> bool" where
  "can_find_city p \<longleftrightarrow> 3 \<le> utf16_length (trim (palette_query p)) \<and> \<not> templates_open p"

text \<open>
  The place a query resolves to, on the web: the identifier of its city card and its name, each
  if there is one; \<open>None\<close> is a failed request. The operation looks at the followed cards of the
  moment of the press.
\<close>

datatype city_note = Finding_City string | City_Found string | No_City string | No_Place string

definition city_settles ::
  "string \<Rightarrow> string list \<Rightarrow> (string option \<times> string option) option \<Rightarrow> prefs_op list \<times> city_note \<times> bool" where
  "city_settles query focused_then answer =
     (case answer of
        None \<Rightarrow> ([], No_Place query, False)
      | Some (card_id, place) \<Rightarrow>
          (case truthy card_id of
             Some i \<Rightarrow>
               ((if i \<in> set focused_then then [] else [ToggleFocus i]), City_Found (or_else place i), True)
           | None \<Rightarrow>
               (case place of
                  Some name \<Rightarrow> ([], No_City name, False)
                | None \<Rightarrow> ([], No_Place query, False))))"

text \<open>The answer of the headline search in the app: how many sources and items it has.\<close>

datatype search_view = Search_Spinner | Search_Failed | No_Results | Search_Hits nat nat

definition search_view :: "bool \<Rightarrow> bool \<Rightarrow> (nat \<times> nat) option \<Rightarrow> search_view" where
  "search_view loading is_error data =
     (if loading then Search_Spinner
      else if is_error then Search_Failed
      else let (sources, hits) = or_else data (0, 0)
           in if sources = 0 \<and> hits = 0 then No_Results else Search_Hits sources hits)"

datatype star = Filled_Star | Undo_Star | Open_Star

definition star_for :: "prefs_state \<Rightarrow> string \<Rightarrow> star" where
  "star_for st i =
     (if i \<in> set (focused st) then Filled_Star
      else if i \<in> set (hidden st) then Undo_Star else Open_Star)"

section \<open>Starter sets\<close>

record starter =
  starter_id :: string
  starter_sources :: "string list"

definition template_names :: "string list" where
  "template_names =
     [''developer'', ''investor'', ''news-junkie'', ''sports-fan'', ''movie-buff'', ''music-lover'', ''gamer'',
      ''science-nerd'', ''foodie-traveler'', ''comedy-fun'', ''fitness-buff'', ''fashionista'', ''petrolhead'',
      ''crypto-trader'', ''space-explorer'', ''ai-insider'', ''true-crime'', ''history-buff'', ''bookworm'',
      ''pop-culture'', ''esports-fan'', ''outdoors'', ''anime-manga'', ''football-fan'', ''cricket-fan'',
      ''fight-fan'', ''deal-hunter'', ''personal-finance'', ''founder'', ''home-garden'', ''photographer'',
      ''academia'', ''researcher'', ''clean-energy'', ''my-country'']"

text \<open>A press on the button of a set, given the sets that are on.\<close>

definition toggle_template :: "starter list \<Rightarrow> string list \<Rightarrow> starter \<Rightarrow> prefs_op list" where
  "toggle_template starters active s =
     (if starter_id s \<in> set active then
        (let remaining = filter (\<lambda>i. i \<noteq> starter_id s) active;
             kept = set (concat (map starter_sources
               (filter (\<lambda>other. starter_id other \<in> set remaining) starters)))
         in [UnfollowAll (filter (\<lambda>sid. sid \<notin> kept) (starter_sources s)), SetActiveTemplates remaining])
      else
        [if active = [] then ReplaceAll (starter_sources s) else FollowAll (starter_sources s),
         SetActiveTemplates (active @ [starter_id s])])"

definition all_source_ids :: "starter list \<Rightarrow> string set \<Rightarrow> string list" where
  "all_source_ids starters known =
     filter (\<lambda>sid. sid \<in> known) (uniq (concat (map starter_sources starters)))"

definition select_all_starters :: "starter list \<Rightarrow> string set \<Rightarrow> prefs_op list" where
  "select_all_starters starters known =
     (let ids = all_source_ids starters known
      in if ids = [] then [] else [FollowAll ids, SetActiveTemplates (map starter_id starters)])"

definition deselect_all_starters :: "starter list \<Rightarrow> string set \<Rightarrow> prefs_op list" where
  "deselect_all_starters starters known =
     (let ids = all_source_ids starters known
      in if ids = [] then [] else [UnfollowAll ids, SetActiveTemplates []])"

text \<open>The number a set shows on its card; \<open>None\<close> when it draws nothing.\<close>

definition starter_card :: "string set \<Rightarrow> starter \<Rightarrow> nat option" where
  "starter_card known s =
     (let sources = filter (\<lambda>sid. sid \<in> known) (starter_sources s)
      in if sources = [] \<or> starter_id s \<notin> set template_names then None else Some (length sources))"

definition visible_starters :: "string set \<Rightarrow> starter list \<Rightarrow> starter list" where
  "visible_starters known starters =
     filter (\<lambda>s. starter_id s \<in> set template_names \<and> (\<exists>sid \<in> set (starter_sources s). sid \<in> known)) starters"

text \<open>A press, on the preferences it finds.\<close>

definition press_starter :: "starter list \<Rightarrow> string list \<Rightarrow> starter \<Rightarrow> prefs_state \<Rightarrow> prefs_state" where
  "press_starter starters seed s st = reduce_run seed st (toggle_template starters (templates st) s)"

section \<open>Narrowing a topic\<close>

lemma topic_groups:
  "distinct (concat (map snd news_topic_groups))" "distinct (map fst news_topic_groups)"
  "\<forall>g \<in> set news_topic_groups. fst g \<in> set (snd g)"
  by code_simp+

lemma other_group_disjoint:
  "g \<in> set news_topic_groups \<Longrightarrow> h \<in> set news_topic_groups \<Longrightarrow> fst g \<noteq> fst h \<Longrightarrow> set (snd g) \<inter> set (snd h) = {}"
proof -
  have "\<forall>g \<in> set news_topic_groups. \<forall>h \<in> set news_topic_groups. fst g \<noteq> fst h \<longrightarrow> set (snd g) \<inter> set (snd h) = {}"
    by code_simp
  then show "g \<in> set news_topic_groups \<Longrightarrow> h \<in> set news_topic_groups \<Longrightarrow> fst g \<noteq> fst h \<Longrightarrow> set (snd g) \<inter> set (snd h) = {}"
    by blast
qed

definition topic_columns :: "string \<Rightarrow> string list" where
  "topic_columns x = (case map_of news_topic_groups x of Some columns \<Rightarrow> columns | None \<Rightarrow> [x])"

lemma selected_columns_set: "set (selected_columns topics) = (\<Union>x \<in> set topics. set (topic_columns x))"
  by (simp add: selected_columns_def topic_columns_def)

lemma topic_columns_group: "g \<in> set news_topic_groups \<Longrightarrow> topic_columns (fst g) = snd g"
  using map_of_is_SomeI [OF topic_groups(2), of "fst g" "snd g"] by (simp add: topic_columns_def)

lemma topic_columns_outside:
  assumes "g \<in> set news_topic_groups" and "x \<notin> set (snd g)"
  shows "set (topic_columns x) \<inter> set (snd g) = {}"
proof (cases "map_of news_topic_groups x")
  case None
  then show ?thesis using assms(2) by (simp add: topic_columns_def)
next
  case (Some columns)
  then have h: "(x, columns) \<in> set news_topic_groups" by (rule map_of_SomeD)
  have "x \<noteq> fst g" using assms topic_groups(3) by auto
  then show ?thesis using other_group_disjoint [OF h assms(1)] Some by (auto simp: topic_columns_def)
qed

lemma topic_columns_sub:
  assumes "g \<in> set news_topic_groups" and "c \<in> set (snd g)" and "c \<noteq> fst g"
  shows "topic_columns c = [c]"
proof (cases "map_of news_topic_groups c")
  case (Some columns)
  then have h: "(c, columns) \<in> set news_topic_groups" by (rule map_of_SomeD)
  then have "c \<in> set columns" using topic_groups(3) by fastforce
  then show ?thesis using other_group_disjoint [OF h assms(1)] assms(2,3) by auto
qed (simp add: topic_columns_def)

text \<open>
  With the chip of a group on, a press on one of its sub-topics narrows the filter to that
  column, whatever other topics are on. The exception is the sub-topic that has the name of the
  group: a press on it changes nothing of what the group selects, since the one name stands for
  both.
\<close>

theorem sub_topic_narrows:
  assumes "g \<in> set news_topic_groups" and "c \<in> set (snd g)" and "set topics \<inter> set (snd g) = {fst g}"
  shows "set (selected_columns (toggle_sub g c topics)) \<inter> set (snd g) =
      (if c = fst g then set (snd g) else {c}) \<and>
    set (selected_columns (toggle_sub g c topics)) - set (snd g) = set (selected_columns topics) - set (snd g)"
proof -
  let ?others = "filter (\<lambda>x. x \<noteq> fst g) topics"
  have on: "fst g \<in> set topics" using assms(3) by auto
  then have tog: "toggle_sub g c topics = ?others @ [c]" by (simp add: toggle_sub_def)
  have out: "x \<notin> set (snd g)" if "x \<in> set ?others" for x using that assms(3) by auto
  then have others: "(\<Union>x \<in> set ?others. set (topic_columns x)) \<inter> set (snd g) = {}"
    using topic_columns_outside [OF assms(1)] by blast
  have sub: "set (topic_columns c) = (if c = fst g then set (snd g) else {c})"
    using topic_columns_group [OF assms(1)] topic_columns_sub [OF assms(1,2)] by simp
  have all: "set topics = insert (fst g) (set ?others)" using on by auto
  show ?thesis
    using others sub assms(2) topic_columns_group [OF assms(1)]
    unfolding selected_columns_set tog all by auto
qed

theorem sub_topic_narrows_witness:
  "set (selected_columns (toggle_sub (''sports'', [''sports'', ''betting'']) ''betting'' [''tech'', ''sports''])) \<inter>
     {''sports'', ''betting''} = {''betting''}"
  using sub_topic_narrows [of "(''sports'', [''sports'', ''betting''])" "''betting''" "[''tech'', ''sports'']"]
  by (simp add: news_topic_groups_def)

text \<open>A chip of a group turns everything of the group off again.\<close>

lemma toggle_group_off:
  "group_engaged topics g \<Longrightarrow> \<not> group_engaged (toggle_group g topics) g"
  "\<not> group_engaged topics g \<Longrightarrow> toggle_group g (toggle_group g topics) = topics"
  by (auto simp: toggle_group_def group_engaged_def filter_id_conv)

section \<open>Finding a source\<close>

lemma search_results_iff:
  "s \<in> set (search_results sources query topics) \<longleftrightarrow>
     s \<in> set sources \<and> \<not> source_redirect s \<and> matches_topics topics s \<and>
     (to_lower (trim query) = [] \<or> includes_str (to_lower (trim query)) (haystack s))"
  by (auto simp: search_results_def Let_def)

lemma collapse_append: "collapse (a @ b) = collapse a @ collapse b"
  by (simp add: collapse_def)

text \<open>
  A source of the roster is found under its name, its title or its identifier, in any case,
  and under its name written as one word without spaces and marks; a source that only redirects
  is never found.
\<close>

theorem sources_found:
  assumes "s \<in> set sources" and "\<not> source_redirect s" and "matches_topics topics s"
    and "to_lower (trim query) = to_lower (source_name s) \<or> to_lower (trim query) = to_lower (source_id s) \<or>
      to_lower (trim query) = to_lower (or_else (source_title s) []) \<or>
      to_lower (trim query) = collapse (to_lower (source_name s))"
  shows "s \<in> set (search_results sources query topics) \<and>
    (\<forall>r \<in> set (search_results sources query topics). \<not> source_redirect r)"
proof -
  let ?n = "to_lower (source_name s)" and ?t = "to_lower (or_else (source_title s) [])" and ?i = "to_lower (source_id s)"
  have low: "to_lower (a @ b) = to_lower a @ to_lower b" for a b by (simp add: to_lower_def)
  have sp: "to_lower '' '' = '' ''" by code_simp
  have base: "haystack s = ?n @ '' '' @ ?t @ '' '' @ ?i @ '' '' @ collapse ?n @ collapse ('' '' @ ?t @ '' '' @ ?i)"
    unfolding haystack_def Let_def low sp by (simp add: collapse_append)
  have "includes_str ?n (haystack s)" "includes_str ?t (haystack s)" "includes_str ?i (haystack s)"
    "includes_str (collapse ?n) (haystack s)"
    unfolding base
    using includes_str_append [of ?n "[]"] includes_str_append [of ?t "?n @ '' ''"]
      includes_str_append [of ?i "?n @ '' '' @ ?t @ '' ''"]
      includes_str_append [of "collapse ?n" "?n @ '' '' @ ?t @ '' '' @ ?i @ '' ''"]
    by simp_all
  then show ?thesis using assms by (auto simp: search_results_iff)
qed

theorem sources_found_witness:
  "\<lparr>source_id = ''es-laliga'', source_name = ''La Liga'', source_title = None, source_column = Some ''sports'',
     source_redirect = False\<rparr> \<in> set (search_results
       [\<lparr>source_id = ''es-laliga'', source_name = ''La Liga'', source_title = None, source_column = Some ''sports'',
         source_redirect = False\<rparr>] ''LaLiga '' [])"
proof -
  let ?s = "\<lparr>source_id = ''es-laliga'', source_name = ''La Liga'', source_title = None, source_column = Some ''sports'',
     source_redirect = False\<rparr>"
  have "to_lower (trim ''LaLiga '') = collapse (to_lower ''La Liga'')" by code_simp
  then show ?thesis using sources_found [of ?s "[?s]" "[]" "''LaLiga ''"] by (simp add: matches_topics_def)
qed

section \<open>The palette\<close>

definition palette_ok :: "roster_source list \<Rightarrow> palette \<Rightarrow> bool" where
  "palette_ok sources p \<longleftrightarrow>
     (templates_open p \<longrightarrow> palette_topics p = []) \<and> max_render \<le> render_limit p \<and>
     render_limit p \<le> max max_render (length (search_results sources (palette_query p) (palette_topics p)))"

lemma palette_step_ok: "palette_ok sources p \<Longrightarrow> palette_ok sources (palette_step sources ev p)"
  by (cases ev) (auto simp: palette_ok_def palette_step_def Let_def)

text \<open>
  Whatever the reader types and presses, the starters and a topic filter are never on at
  once, and the rows drawn are the first ones of the results, never fewer than a screenful of
  120 while there are that many.
\<close>

theorem palette_invariant:
  fixes evs :: "palette_event list" and sources :: "roster_source list"
  assumes "start = web_palette \<or> start = app_palette auto"
  defines "p \<equiv> fold (palette_step sources) evs start"
  shows "\<not> (templates_open p \<and> palette_topics p \<noteq> []) \<and>
    min max_render (length (search_results sources (palette_query p) (palette_topics p)))
      \<le> length (visible_results sources p)"
proof -
  have run: "palette_ok sources q \<Longrightarrow> palette_ok sources (fold (palette_step sources) evs q)" for q
    by (induction evs arbitrary: q) (simp_all add: palette_step_ok)
  have "palette_ok sources start"
    using assms(1) by (auto simp: palette_ok_def web_palette_def app_palette_def)
  then have "palette_ok sources p" unfolding p_def by (rule run)
  then show ?thesis unfolding palette_ok_def visible_results_def length_take by linarith
qed

theorem palette_invariant_witness:
  "\<not> (templates_open (fold (palette_step []) [Change_Topics (\<lambda>_. [''tech'']), Toggle_Templates] web_palette) \<and>
     palette_topics (fold (palette_step []) [Change_Topics (\<lambda>_. [''tech'']), Toggle_Templates] web_palette) \<noteq> [])"
  using palette_invariant [where start = web_palette and sources = "[]" and
      evs = "[Change_Topics (\<lambda>_. [''tech'']), Toggle_Templates]"] by blast

text \<open>Reaching the end again and again draws every result.\<close>

lemma reach_end_all:
  "length (search_results sources (palette_query p) (palette_topics p)) \<le> render_limit p + render_batch * n \<Longrightarrow>
   visible_results sources ((palette_step sources Reach_End ^^ n) p) =
     search_results sources (palette_query p) (palette_topics p)"
proof (induction n arbitrary: p)
  case 0
  then show ?case by (simp add: visible_results_def)
next
  case (Suc n)
  let ?q = "palette_step sources Reach_End p"
  have same: "palette_query ?q = palette_query p" "palette_topics ?q = palette_topics p"
    by (simp_all add: palette_step_def Let_def)
  have "length (search_results sources (palette_query p) (palette_topics p)) \<le> render_limit ?q + render_batch * n"
    using Suc.prems by (auto simp: palette_step_def Let_def)
  then show ?case using Suc.IH [of ?q] same by (simp add: funpow_swap1)
qed

section \<open>Starter sets and the cards\<close>

definition claimed :: "starter list \<Rightarrow> string list \<Rightarrow> string set" where
  "claimed starters active = (\<Union>s \<in> set (filter (\<lambda>s. starter_id s \<in> set active) starters). set (starter_sources s))"

text \<open>
  Sets whose cards fit the limits of the store: distinct names and sources, one to sixty cards a
  set, and at most 120 cards in all of them together.
\<close>

definition fitting :: "starter list \<Rightarrow> bool" where
  "fitting starters \<longleftrightarrow>
     distinct (map starter_id starters) \<and>
     (\<forall>s \<in> set starters. distinct (starter_sources s) \<and> starter_sources s \<noteq> [] \<and>
        length (starter_sources s) \<le> max_bulk_follow) \<and>
     card (claimed starters (map starter_id starters)) \<le> max_cards"

text \<open>The cards are those of the sets that are on, each once.\<close>

definition in_step :: "starter list \<Rightarrow> prefs_state \<Rightarrow> bool" where
  "in_step starters st \<longleftrightarrow>
     touched st \<and> distinct (focused st) \<and> set (templates st) \<subseteq> set (map starter_id starters) \<and>
     set (focused st) = claimed starters (templates st)"

lemma claimed_simps:
  "claimed starters (active @ [i]) = claimed starters active \<union> claimed starters [i]"
  "claimed starters [] = {}"
  by (auto simp: claimed_def)

lemma claimed_one:
  "fitting starters \<Longrightarrow> s \<in> set starters \<Longrightarrow> claimed starters [starter_id s] = set (starter_sources s)"
  by (auto simp: claimed_def fitting_def distinct_map inj_on_def)

lemma claimed_mono: "set a \<subseteq> set b \<Longrightarrow> claimed starters a \<subseteq> claimed starters b"
  by (auto simp: claimed_def)

lemma claimed_small:
  assumes "fitting starters" and "set active \<subseteq> set (map starter_id starters)"
  shows "card (claimed starters active) \<le> max_cards"
proof -
  have "finite (claimed starters (map starter_id starters))" by (simp add: claimed_def)
  from card_mono [OF this claimed_mono [OF assms(2)]] show ?thesis
    using assms(1) unfolding fitting_def by linarith
qed

lemma press_replace:
  assumes "fitting starters" and "s \<in> set starters" and "templates st = []"
  shows "in_step starters (press_starter starters seed s st)"
proof -
  have s: "starter_sources s \<noteq> []" "distinct (starter_sources s)" "length (starter_sources s) \<le> max_bulk_follow"
    using assms(1,2) by (auto simp: fitting_def)
  then have "take max_bulk_follow (starter_sources s) = starter_sources s" by simp
  then show ?thesis
    using s assms(2,3) claimed_one [OF assms(1,2)]
    by (simp add: press_starter_def toggle_template_def reduce_run_def in_step_def replace_all_def
        set_active_templates_def no_change_def Let_def)
qed

lemma press_add:
  assumes "fitting starters" and "s \<in> set starters" and "in_step starters st"
    and "templates st \<noteq> []" and "starter_id s \<notin> set (templates st)"
  shows "in_step starters (press_starter starters seed s st)"
proof -
  let ?new = "starter_sources s" and ?old = "filter (\<lambda>x. x \<notin> set (starter_sources s)) (focused st)"
  have s: "?new \<noteq> []" "distinct ?new" "length ?new \<le> max_bulk_follow" using assms(1,2) by (auto simp: fitting_def)
  have sub: "set (templates st @ [starter_id s]) \<subseteq> set (map starter_id starters)"
    using assms(2,3) by (auto simp: in_step_def)
  have set: "set (?new @ ?old) = claimed starters (templates st @ [starter_id s])"
    using assms(3) claimed_one [OF assms(1,2)] by (auto simp: in_step_def claimed_simps)
  have d: "distinct (?new @ ?old)" using s(2) assms(3) by (auto simp: in_step_def)
  have "length (?new @ ?old) \<le> max_cards"
    using claimed_small [OF assms(1) sub] distinct_card [OF d] set by simp
  moreover obtain f sl where new: "?new = f # sl" using s(1) by (cases ?new) auto
  ultimately have "focused (after (follow_all st ?new seed)) = ?new @ ?old \<and> touched (after (follow_all st ?new seed)) \<and>
      templates (after (follow_all st ?new seed)) = templates st"
    using s(3) assms(3) by (simp add: follow_all_def promote_seed_def without_def in_step_def no_change_def Let_def)
  then show ?thesis
    using assms(4,5) set d sub
    by (simp add: press_starter_def toggle_template_def reduce_run_def set_active_templates_def no_change_def in_step_def)
qed

lemma unfollow_focused: "focused (after (unfollow_all st ids)) = filter (\<lambda>x. x \<notin> set ids) (focused st)"
  by (simp add: unfollow_all_def without_def no_change_def)

lemma press_remove:
  assumes "fitting starters" and "s \<in> set starters" and "in_step starters st" and "starter_id s \<in> set (templates st)"
  shows "in_step starters (press_starter starters seed s st)"
proof -
  define left where "left = filter (\<lambda>i. i \<noteq> starter_id s) (templates st)"
  define gone where "gone = filter (\<lambda>sid. sid \<notin> claimed starters left) (starter_sources s)"
  have "claimed starters (templates st) = claimed starters left \<union> claimed starters [starter_id s]"
    using assms(4) by (auto simp: claimed_def left_def)
  then have "set (focused st) = claimed starters left \<union> set (starter_sources s)"
    using assms(3) claimed_one [OF assms(1,2)] by (simp add: in_step_def)
  then have "set (focused (after (unfollow_all st gone))) = claimed starters left"
    unfolding unfollow_focused by (auto simp: gone_def)
  moreover have "distinct (focused (after (unfollow_all st gone)))"
    unfolding unfollow_focused using assms(3) by (simp add: in_step_def)
  moreover have "touched (after (unfollow_all st gone))"
    using assms(3) by (simp add: unfollow_all_def no_change_def in_step_def)
  moreover have "set left \<subseteq> set (map starter_id starters)" using assms(3) by (auto simp: in_step_def left_def)
  moreover have "toggle_template starters (templates st) s = [UnfollowAll gone, SetActiveTemplates left]"
    using assms(4) by (auto simp: toggle_template_def gone_def left_def claimed_def intro!: filter_cong)
  ultimately show ?thesis
    by (simp add: press_starter_def reduce_run_def set_active_templates_def no_change_def in_step_def)
qed

text \<open>
  C5: While a reader only presses starter sets, from any preferences with none of them on, the
  cards are exactly those of the sets that are on: the first set replaces what was there, each
  further one adds its cards, one that is turned off takes along the cards no other set that is
  on has, and after the last one the wall is empty.
\<close>

theorem starters_make_the_cards:
  fixes seed :: "string list"
  assumes "fitting starters" and "templates st = []" and "presses \<noteq> []" and "set presses \<subseteq> set starters"
  defines "st' \<equiv> fold (press_starter starters seed) presses st"
  shows "set (focused st') = claimed starters (templates st') \<and> distinct (focused st')"
proof -
  have step: "in_step starters (press_starter starters seed s u)" if "in_step starters u" "s \<in> set starters" for s u
    using that press_replace press_add press_remove assms(1) by blast
  have run: "in_step starters u \<Longrightarrow> set ps \<subseteq> set starters \<Longrightarrow> in_step starters (fold (press_starter starters seed) ps u)" for u ps
    by (induction ps arbitrary: u) (simp_all add: step)
  obtain s ps where "presses = s # ps" using assms(3) by (cases presses) auto
  then have "in_step starters st'"
    unfolding st'_def using run [OF press_replace [OF assms(1) _ assms(2)]] assms(4) by simp
  then show ?thesis by (simp add: in_step_def)
qed

theorem starters_make_the_cards_witness:
  "set (focused (fold (press_starter [\<lparr>starter_id = ''a'', starter_sources = [''x'', ''y'']\<rparr>, \<lparr>starter_id = ''b'', starter_sources = [''y'', ''z'']\<rparr>] [])
     [\<lparr>starter_id = ''a'', starter_sources = [''x'', ''y'']\<rparr>, \<lparr>starter_id = ''b'', starter_sources = [''y'', ''z'']\<rparr>, \<lparr>starter_id = ''a'', starter_sources = [''x'', ''y'']\<rparr>]
     (empty_prefs\<lparr>focused := [''old'']\<rparr>))) = {''y'', ''z''}"
proof -
  let ?a = "\<lparr>starter_id = ''a'', starter_sources = [''x'', ''y'']\<rparr>" and ?b = "\<lparr>starter_id = ''b'', starter_sources = [''y'', ''z'']\<rparr>"
  let ?st = "fold (press_starter [?a, ?b] []) [?a, ?b, ?a] (empty_prefs\<lparr>focused := [''old'']\<rparr>)"
  have "card {''y'', ''z'', ''x'', ''y''} \<le> length [''y'', ''z'', ''x'', ''y'']"
    using card_length [of "[''y'', ''z'', ''x'', ''y'']"] by (simp only: list.set)
  then have fit: "fitting [?a, ?b]" by (simp add: fitting_def claimed_def max_bulk_follow_def max_cards_def)
  have "templates ?st = [''b'']"
    by (simp add: press_starter_def toggle_template_def reduce_run_def empty_prefs_def replace_all_def follow_all_def
        unfollow_all_def set_active_templates_def no_change_def max_bulk_follow_def max_cards_def promote_seed_def
        without_def Let_def)
  then show ?thesis
    using starters_make_the_cards [OF fit, of "empty_prefs\<lparr>focused := [''old'']\<rparr>" "[?a, ?b, ?a]"]
    by (simp add: empty_prefs_def claimed_def)
qed

section \<open>Selecting and deselecting all\<close>

lemma reduce_run_simps [simp]:
  "reduce_run seed st [] = st" "reduce_run seed st (op # ops) = reduce_run seed (after (reduce seed st op)) ops"
  by (simp_all add: reduce_run_def)

text \<open>
  After a press on \<open>deselect all\<close> none of the results is followed and every other card stays
  where it was. With no topic on, the starter sets are turned off too, also when a typed query
  left other cards, and so whole sets, on the wall.
\<close>

theorem deselect_all_effect:
  assumes "result_ids sources p \<noteq> []"
  shows "focused (reduce_run seed st (press_deselect_all sources p)) =
      filter (\<lambda>i. i \<notin> set (result_ids sources p)) (focused st) \<and>
    templates (reduce_run seed st (press_deselect_all sources p)) =
      (if palette_topics p = [] then [] else templates st)"
  using assms
  by (simp add: press_deselect_all_def unfollow_all_def set_active_templates_def no_change_def without_def Let_def)

theorem deselect_all_effect_witness:
  "templates (reduce_run [] (empty_prefs\<lparr>focused := [''b'', ''a''], templates := [''t'']\<rparr>)
      (press_deselect_all [\<lparr>source_id = ''a'', source_name = ''A'', source_title = None, source_column = None, source_redirect = False\<rparr>]
        web_palette)) = []"
  using deselect_all_effect [of "[\<lparr>source_id = ''a'', source_name = ''A'', source_title = None, source_column = None, source_redirect = False\<rparr>]"
      web_palette "[]" "empty_prefs\<lparr>focused := [''b'', ''a''], templates := [''t'']\<rparr>"]
  by (simp add: result_ids_def search_results_def web_palette_def matches_topics_def to_lower_def trim_start.simps trim_def Let_def)

text \<open>
  Selecting everything follows sixty cards; with the starters that leaves sets marked as on
  whose cards are not there.
\<close>

lemma select_all_follows_sixty:
  assumes "touched st" and "all_source_ids starters known = ids" and "ids \<noteq> []"
    and "i \<in> set (drop max_bulk_follow ids)" and "i \<notin> set (focused st)" and "distinct ids"
  shows "i \<notin> set (focused (reduce_run seed st (select_all_starters starters known)))"
    and "templates (reduce_run seed st (select_all_starters starters known)) = map starter_id starters"
proof -
  obtain f sl where cut: "take max_bulk_follow ids = f # sl"
    using assms(3) by (cases ids) (auto simp: max_bulk_follow_def numeral_eq_Suc)
  have "i \<notin> set (take max_bulk_follow ids)"
    using assms(4,6) by (metis append_take_drop_id disjoint_iff distinct_append)
  then show "i \<notin> set (focused (reduce_run seed st (select_all_starters starters known)))"
    using assms(1-3,5) cut
    by (auto simp: select_all_starters_def follow_all_def set_active_templates_def no_change_def promote_seed_def
        without_def Let_def dest!: in_set_takeD)
  show "templates (reduce_run seed st (select_all_starters starters known)) = map starter_id starters"
    using assms(2,3) cut by (simp add: select_all_starters_def set_active_templates_def no_change_def Let_def)
qed

text \<open>
  A city asked for twice before the first answer is there, by a second press, is followed by
  the first answer and unfollowed by the second: both look at the cards of the moment of their
  press, and following is a toggle.
\<close>

theorem city_asked_twice:
  assumes "i \<noteq> []" and "i \<notin> set (focused st)"
  shows "i \<in> set (focused (reduce_run seed st (fst (city_settles query (focused st) (Some (Some i, place)))))) \<and>
    i \<notin> set (focused (reduce_run seed st
      (fst (city_settles query (focused st) (Some (Some i, place))) @ fst (city_settles query (focused st) (Some (Some i, place))))))"
  using assms
  by (simp add: city_settles_def truthy_def toggle_focus_def no_change_def max_cards_def Let_def)

theorem city_asked_twice_witness:
  "''c'' \<notin> set (focused (reduce_run [] empty_prefs
      (fst (city_settles ''q'' [] (Some (Some ''c'', None))) @ fst (city_settles ''q'' [] (Some (Some ''c'', None))))))"
  using city_asked_twice [of "''c''" empty_prefs "[]" "''q''" None] by (simp add: empty_prefs_def)

text \<open>The cards the web draws are those the app keeps in its list.\<close>

lemma starters_drawn_agree:
  "visible_starters known starters = filter (\<lambda>s. starter_card known s \<noteq> None) starters"
  unfolding visible_starters_def starter_card_def Let_def by (rule filter_cong) (auto simp: filter_empty_conv)

end
