(* ===== verification/Feed_Card.thy ===== *)
theory Feed_Card
  imports Stories Lists Url Card Failed_Sources
begin

text \<open>
  A feed card and its headlines: \<open>apps/web/src/components/News/FeedCard.tsx\<close> and
  \<open>NewsCardList.tsx\<close>, \<open>apps/app/components/News/NewsSourceCard.tsx\<close> and
  \<open>NewsCardList.tsx\<close>. Which rows a card shows of its feed, what it reports of it, when it
  fetches, which of the two lists it draws, the views it counts for products, what a tap on a
  headline does, and what stands beside a headline. Skeletons, fonts and the clipping of rows
  (\<open>Clip_Rows\<close>) are left out.
\<close>

section \<open>Rows\<close>

datatype extra_date = Date_Number int | Date_Text string

record news_row = feed_item +
  row_url :: string
  row_pub_date :: "int option"
  extra_info :: "string option"
  extra_icon :: "string option"
  extra_date :: "extra_date option"

definition max_items :: nat where
  "max_items = 30"

definition web_items :: "news_row list \<Rightarrow> string list \<Rightarrow> (string \<Rightarrow> bool) \<Rightarrow> news_row list" where
  "web_items payload muted is_read = take max_items (feed_rows payload muted False False is_read)"

definition app_items ::
  "news_row list \<Rightarrow> string list \<Rightarrow> string list \<Rightarrow> (string \<Rightarrow> bool) \<Rightarrow> news_row list" where
  "app_items payload muted flags is_read =
     take max_items
       (feed_rows payload muted (flag_on flags ShowEveryOutlet) (flag_on flags HideRead) is_read)"

text \<open>
  The card on top fetches, the next one too, and one that has been on top goes on: the render
  notes it.
\<close>

definition note_active :: "bool \<Rightarrow> bool \<Rightarrow> bool" where
  "note_active active has_been = (if active \<and> \<not> has_been then True else has_been)"

definition feed_fetches :: "bool \<Rightarrow> bool \<Rightarrow> bool \<Rightarrow> bool" where
  "feed_fetches active upcoming has_been \<longleftrightarrow> active \<or> upcoming \<or> note_active active has_been"

text \<open>The effect after every poll: an error or an empty feed is a strike, an answer none.\<close>

definition feed_report :: "string \<Rightarrow> bool \<Rightarrow> news_row list option \<Rightarrow> poll option" where
  "feed_report cid is_error payload =
     (if is_error \<or> payload = Some [] then Some (Poll_Failed cid)
      else if payload \<noteq> None then Some (Poll_Loaded cid)
      else None)"

text \<open>What the body of the card is, given the type of its source.\<close>

datatype feed_body = Feed_Skeleton | No_Headlines | Hot_List "news_row list" | Timeline_List "news_row list"

definition web_feed_body :: "bool \<Rightarrow> news_row list \<Rightarrow> string option \<Rightarrow> feed_body" where
  "web_feed_body loading rows source_type =
     (if loading then Feed_Skeleton
      else if rows = [] then No_Headlines
      else if source_type = Some ''realtime'' then Timeline_List rows
      else Hot_List rows)"

definition app_feed_body :: "bool \<Rightarrow> bool \<Rightarrow> bool \<Rightarrow> news_row list \<Rightarrow> string option \<Rightarrow> feed_body" where
  "app_feed_body loading restoring has_data rows source_type =
     (if loading \<or> restoring \<and> \<not> has_data then Feed_Skeleton
      else if rows = [] then No_Headlines
      else if source_type = Some ''hottest'' then Hot_List rows
      else Timeline_List rows)"

definition has_weather_strip :: "bool \<Rightarrow> string \<Rightarrow> string option \<Rightarrow> bool" where
  "has_weather_strip active cid column \<longleftrightarrow> active \<and> (is_country_card_id cid \<or> column = Some ''cities'')"

section \<open>Views of products\<close>

definition products_card_id :: string where
  "products_card_id = ''products-of-the-day''"

definition launch_prefix :: string where
  "launch_prefix = ''launch-''"

text \<open>The effect of the products card: what it sends to the beacon, and what counts as viewed.\<close>

definition view_beacon ::
  "bool \<Rightarrow> string \<Rightarrow> news_row list option \<Rightarrow> string list \<Rightarrow> string list option \<times> string list" where
  "view_beacon active cid payload viewed =
     (case payload of
        None \<Rightarrow> (None, viewed)
      | Some rows \<Rightarrow>
          (if \<not> active \<or> cid \<noteq> products_card_id then (None, viewed)
           else
             let ids = take 10 (filter (\<lambda>i. starts_with launch_prefix i \<and> i \<notin> set viewed) (map row_id rows))
             in if ids = [] then (None, viewed)
                else (Some (map (drop (length launch_prefix)) ids), viewed @ ids)))"

text \<open>A page load: the effects of the card in order, and every identifier the beacon got.\<close>

fun run_beacons :: "(bool \<times> string \<times> news_row list option) list \<Rightarrow> string list \<Rightarrow> string list" where
  "run_beacons [] viewed = []"
| "run_beacons ((active, cid, payload) # effects) viewed =
     (case view_beacon active cid payload viewed of
        (sent, viewed') \<Rightarrow> or_else sent [] @ run_beacons effects viewed')"

section \<open>A tap on a headline\<close>

text \<open>On the web: the row that is open, what was marked read, what the browser was left to do.\<close>

record web_list =
  expanded_key :: "string option"
  marked_read :: "string list"
  left_to_browser :: "string list"

record mouse_click =
  with_modifier :: bool
  button :: nat

definition row_key :: "string \<Rightarrow> nat \<Rightarrow> string" where
  "row_key i n = i @ ''-'' @ show_nat n"

definition on_headline_click :: "mouse_click \<Rightarrow> string \<Rightarrow> news_row \<Rightarrow> web_list \<Rightarrow> web_list" where
  "on_headline_click e rk item s =
     (let s1 = s\<lparr>marked_read := marked_read s @ [row_id item]\<rparr>;
          by_browser = s1\<lparr>left_to_browser := left_to_browser s @
            (case safe_external_href (Some (row_url item)) of Some u \<Rightarrow> [u] | None \<Rightarrow> [])\<rparr>
      in if with_modifier e \<or> button e \<noteq> 0 then by_browser
         else if truthy (extra_info item) \<noteq> None then by_browser
         else s1\<lparr>expanded_key := (if expanded_key s = Some rk then None else Some rk)\<rparr>)"

text \<open>The row a shared story opens on arrival.\<close>

definition story_key :: "news_row list \<Rightarrow> string option \<Rightarrow> string option" where
  "story_key rows story =
     (case truthy story of
        None \<Rightarrow> None
      | Some c \<Rightarrow>
          (case filter (\<lambda>(i, item). cluster_id item = Some c) (zip [0..<length rows] rows) of
             [] \<Rightarrow> None
           | (i, item) # _ \<Rightarrow> Some (row_key (row_id item) i)))"

definition new_web_list :: "news_row list \<Rightarrow> string option \<Rightarrow> web_list" where
  "new_web_list rows story = \<lparr>expanded_key = story_key rows story, marked_read = [], left_to_browser = []\<rparr>"

text \<open>The rows with a panel under them.\<close>

definition open_rows :: "web_list \<Rightarrow> news_row list \<Rightarrow> nat list" where
  "open_rows s rows = filter (\<lambda>i. expanded_key s = Some (row_key (row_id (rows ! i)) i)) [0..<length rows]"

text \<open>In the app: the summary that is open and the articles opened.\<close>

record app_list =
  expanded_summary :: "string option"
  opened_urls :: "string list"

definition press_action :: "news_row \<Rightarrow> app_list \<Rightarrow> app_list" where
  "press_action item s =
     (if \<not> is_summarizable (Some (row_url item)) then
        (if is_http_url (Some (row_url item)) then s\<lparr>opened_urls := opened_urls s @ [row_url item]\<rparr> else s)
      else s\<lparr>expanded_summary := (if expanded_summary s = Some (row_id item) then None else Some (row_id item))\<rparr>)"

definition expanded_index :: "app_list \<Rightarrow> news_row list \<Rightarrow> int" where
  "expanded_index s rows =
     (case truthy (expanded_summary s) of None \<Rightarrow> -1 | Some i \<Rightarrow> index_of i (map row_id rows))"

text \<open>The rows the app draws, with their places: from the open one on, or those that fit.\<close>

definition app_rows :: "app_list \<Rightarrow> nat \<Rightarrow> news_row list \<Rightarrow> (nat \<times> news_row) list" where
  "app_rows s visible_count rows =
     (let e = expanded_index s rows; numbered = zip [0..<length rows] rows
      in if 0 \<le> e then take 12 (drop (nat e) numbered) else take visible_count numbered)"

definition app_open_rows :: "app_list \<Rightarrow> nat \<Rightarrow> news_row list \<Rightarrow> (nat \<times> news_row) list" where
  "app_open_rows s visible_count rows =
     filter (\<lambda>(i, item). expanded_summary s = Some (row_id item) \<and> row_url item \<noteq> []) (app_rows s visible_count rows)"

section \<open>Beside a headline\<close>

datatype extra_mark = Info_Text string | Info_Icon string | No_Extra

definition extra_mark :: "news_row \<Rightarrow> extra_mark" where
  "extra_mark item =
     (case truthy (extra_info item) of
        Some info \<Rightarrow> Info_Text info
      | None \<Rightarrow>
          (case safe_external_href (extra_icon item) of Some src \<Rightarrow> Info_Icon src | None \<Rightarrow> No_Extra))"

definition coverage_mark :: "news_row \<Rightarrow> (string \<times> int) option" where
  "coverage_mark item =
     (case truthy (cluster_id item) of
        Some c \<Rightarrow> (if has_coverage item then Some (story_path c, or_else (publisher_count item) 0) else None)
      | None \<Rightarrow> None)"

definition web_caught_up :: "nat \<Rightarrow> bool" where
  "web_caught_up n_rows \<longleftrightarrow> \<not> (n_rows = 0 \<or> 12 \<le> n_rows)"

definition app_caught_up :: "nat \<Rightarrow> nat \<Rightarrow> bool" where
  "app_caught_up n_rows visible_count \<longleftrightarrow> \<not> (n_rows = 0 \<or> 8 < n_rows \<or> visible_count < n_rows)"

text \<open>The time beside a row of the timeline; \<open>ago\<close> formats a number.\<close>

definition timeline_stamp :: "(int \<Rightarrow> string) \<Rightarrow> news_row \<Rightarrow> string option" where
  "timeline_stamp ago item =
     (case row_pub_date item of
        Some d \<Rightarrow> Some (ago d)
      | None \<Rightarrow>
          (case extra_date item of
             Some (Date_Number d) \<Rightarrow> Some (ago d)
           | Some (Date_Text s) \<Rightarrow> Some s
           | None \<Rightarrow> None))"

section \<open>At most one panel\<close>

lemma row_key_inj [simp]: "row_key i m = row_key j n \<longleftrightarrow> i = j \<and> m = n"
proof -
  have cut: "takeWhile (\<lambda>c. c \<noteq> CHR ''-'') (rev (row_key a k)) = rev (show_nat k)" for a k
  proof -
    have "\<forall>c \<in> set (rev (show_nat k)). c \<noteq> CHR ''-''"
      using show_nat_digits [of k] by (auto simp: is_digit_def)
    then have "takeWhile (\<lambda>c. c \<noteq> CHR ''-'') (rev (show_nat k) @ CHR ''-'' # rev a) = rev (show_nat k)"
      by (subst takeWhile_append2) auto
    then show ?thesis by (simp add: row_key_def)
  qed
  show ?thesis
  proof
    assume eq: "row_key i m = row_key j n"
    then have "m = n" using cut [of i m] cut [of j n] by simp
    with eq show "i = j \<and> m = n" by (simp add: row_key_def)
  qed simp
qed

lemma open_rows_one: "length (open_rows s rows) \<le> 1"
proof -
  have "\<forall>i \<in> set (open_rows s rows). \<forall>j \<in> set (open_rows s rows). i = j" by (auto simp: open_rows_def)
  then have "card (set (open_rows s rows)) \<le> Suc 0" by (simp add: card_le_Suc0_iff_eq)
  moreover have "distinct (open_rows s rows)" by (simp add: open_rows_def)
  ultimately show ?thesis by (simp add: distinct_card)
qed

text \<open>
  A tap answers in place. On the web a plain left click on a headline that carries no text
  of its own marks it read, leaves the browser where it is, and opens the panel under that row,
  closing any other, or folds it when it was open; no other click changes the panels.
\<close>

theorem tap_answers_in_place:
  fixes e :: mouse_click and s :: web_list
  assumes "i < length rows"
  defines "s' \<equiv> on_headline_click e (row_key (row_id (rows ! i)) i) (rows ! i) s"
  shows "length (open_rows s' rows) \<le> 1 \<and> marked_read s' = marked_read s @ [row_id (rows ! i)] \<and>
    (if \<not> with_modifier e \<and> button e = 0 \<and> truthy (extra_info (rows ! i)) = None
     then left_to_browser s' = left_to_browser s \<and>
       open_rows s' rows = (if i \<in> set (open_rows s rows) then [] else [i])
     else open_rows s' rows = open_rows s rows)"
proof -
  let ?plain = "\<not> with_modifier e \<and> button e = 0 \<and> truthy (extra_info (rows ! i)) = None"
  have open_iff: "i \<in> set (open_rows s rows) \<longleftrightarrow> expanded_key s = Some (row_key (row_id (rows ! i)) i)"
    using assms(1) by (auto simp: open_rows_def)
  have "filter (\<lambda>j. j = i) [0..<length rows] = [i]" using assms(1) by (induction rows rule: rev_induct) (auto simp: less_Suc_eq)
  then have only: "filter (\<lambda>j. row_id (rows ! i) = row_id (rows ! j) \<and> i = j) [0..<length rows] = [i]"
    by (metis (mono_tags, lifting) filter_cong)
  show ?thesis
    using open_rows_one [of s' rows] open_iff only unfolding s'_def
    by (cases ?plain) (auto simp: on_headline_click_def open_rows_def Let_def)
qed

definition sample_row :: "string \<Rightarrow> news_row" where
  "sample_row i =
     \<lparr>row_id = i, cluster_id = None, publisher_count = None, title = i, row_url = ''https://a.b/'' @ i,
      row_pub_date = None, extra_info = None, extra_icon = None, extra_date = None\<rparr>"

theorem tap_answers_in_place_witness:
  "open_rows (on_headline_click \<lparr>with_modifier = False, button = 0\<rparr> (row_key ''y'' 1) (sample_row ''y'')
      (new_web_list [sample_row ''x'', sample_row ''y''] None)) [sample_row ''x'', sample_row ''y''] = [1]"
  using tap_answers_in_place [of 1 "[sample_row ''x'', sample_row ''y'']" "\<lparr>with_modifier = False, button = 0\<rparr>"
      "new_web_list [sample_row ''x'', sample_row ''y''] None"]
  by (simp add: sample_row_def new_web_list_def story_key_def truthy_def open_rows_def)

text \<open>
  Of the web a panel belongs to a headline at its place: when a newer headline pushes the open
  one down, its panel closes. In the app it stays with its headline.
\<close>

lemma newer_headline_closes_panel:
  assumes "open_rows s rows = [i]" and "distinct (map row_id (new # rows))"
  shows "open_rows s (new # rows) = []"
proof -
  have i: "i < length rows" "expanded_key s = Some (row_key (row_id (rows ! i)) i)"
    using assms(1) by (auto simp: open_rows_def filter_eq_Cons_iff dest!: arg_cong [of _ _ set])
  have "map row_id (new # rows) ! i \<noteq> map row_id (new # rows) ! Suc i"
    using nth_eq_iff_index_eq [OF assms(2), of i "Suc i"] i(1) by (simp del: list.map)
  then have "row_id ((new # rows) ! i) \<noteq> row_id (rows ! i)"
    using i(1) nth_map [of i "new # rows" row_id] by (simp del: list.map nth_Cons_Suc add: nth_Cons_Suc)
  then show ?thesis using i(2) by (auto simp: open_rows_def filter_empty_conv simp del: upt_Suc)
qed

lemma app_panel_stays:
  assumes "expanded_index s rows = int i" and "distinct (map row_id (new # rows))"
  shows "expanded_index s (new # rows) = int (Suc i)"
proof -
  obtain k where k: "truthy (expanded_summary s) = Some k" "index_of k (map row_id rows) = int i"
    using assms(1) by (auto simp: expanded_index_def split: option.splits)
  then have "k \<in> set (map row_id rows)" using index_of_absent [of k "map row_id rows"] by force
  then have "row_id new \<noteq> k" using assms(2) by auto
  then show ?thesis using k by (simp add: expanded_index_def Let_def)
qed

section \<open>Products are counted once\<close>

lemma view_beacon_new:
  assumes "view_beacon active cid payload viewed = (sent, viewed')"
    and "\<forall>rows. payload = Some rows \<longrightarrow> distinct (map row_id rows)" and "distinct viewed"
    and "\<forall>i \<in> set viewed. starts_with launch_prefix i"
  shows "viewed' = viewed @ map (append launch_prefix) (or_else sent []) \<and> distinct viewed' \<and>
    (\<forall>i \<in> set viewed'. starts_with launch_prefix i) \<and> length (or_else sent []) \<le> 10"
proof (cases "payload = None \<or> \<not> active \<or> cid \<noteq> products_card_id")
  case True
  then show ?thesis using assms by (auto simp: view_beacon_def or_else_def split: option.splits)
next
  case False
  then obtain rows where rows: "payload = Some rows" "active" "cid = products_card_id" by auto
  define ids where "ids = take 10 (filter (\<lambda>i. starts_with launch_prefix i \<and> i \<notin> set viewed) (map row_id rows))"
  have ids: "\<forall>i \<in> set ids. starts_with launch_prefix i \<and> i \<notin> set viewed" "distinct ids" "length ids \<le> 10"
    using assms(2) rows(1) by (auto simp: ids_def dest: in_set_takeD)
  have "map (append launch_prefix) (map (drop (length launch_prefix)) ids) = ids"
    using ids(1) starts_with_split by (auto simp: map_idI)
  moreover have "viewed' = viewed @ ids" "or_else sent [] = map (drop (length launch_prefix)) ids"
    using assms(1) rows by (auto simp: view_beacon_def ids_def [symmetric] Let_def or_else_def split: if_splits)
  ultimately show ?thesis using ids assms(3,4) by (simp add: disjoint_iff) blast
qed

lemma run_beacons_new:
  assumes "\<forall>(a, c, payload) \<in> set effects. \<forall>rows. payload = Some rows \<longrightarrow> distinct (map row_id rows)"
    and "distinct viewed" and "\<forall>i \<in> set viewed. starts_with launch_prefix i"
  shows "distinct (viewed @ map (append launch_prefix) (run_beacons effects viewed))"
  using assms
proof (induction effects arbitrary: viewed)
  case (Cons effect effects)
  obtain active cid payload where e: "effect = (active, cid, payload)" by (cases effect) auto
  obtain sent viewed' where v: "view_beacon active cid payload viewed = (sent, viewed')" by fastforce
  have "\<forall>rows. payload = Some rows \<longrightarrow> distinct (map row_id rows)" using Cons.prems(1) e by simp
  then have "viewed' = viewed @ map (append launch_prefix) (or_else sent [])" "distinct viewed'"
    "\<forall>i \<in> set viewed'. starts_with launch_prefix i"
    using view_beacon_new [OF v _ Cons.prems(2,3)] by blast+
  moreover from this have "distinct (viewed' @ map (append launch_prefix) (run_beacons effects viewed'))"
    using Cons.IH [of viewed'] Cons.prems(1) by simp
  ultimately show ?case by (simp only: e run_beacons.simps v prod.case map_append append_assoc)
qed simp

text \<open>
  However the products card comes to the top, is fetched again and renders, in one page load
  every product is sent to the view beacon at most once.
\<close>

theorem products_counted_once:
  assumes "\<forall>(active, cid, payload) \<in> set effects. \<forall>rows. payload = Some rows \<longrightarrow> distinct (map row_id rows)"
  shows "distinct (run_beacons effects [])"
  using run_beacons_new [OF assms, of "[]"] by (simp add: distinct_map)

theorem products_counted_once_witness:
  "run_beacons [(True, products_card_id, Some [sample_row ''launch-a'', sample_row ''other'']),
      (True, products_card_id, Some [sample_row ''launch-b'', sample_row ''launch-a''])] [] = [''a'', ''b''] \<and>
   distinct (run_beacons [(True, products_card_id, Some [sample_row ''launch-a'', sample_row ''other'']),
      (True, products_card_id, Some [sample_row ''launch-b'', sample_row ''launch-a''])] [])"
proof
  show "run_beacons [(True, products_card_id, Some [sample_row ''launch-a'', sample_row ''other'']),
      (True, products_card_id, Some [sample_row ''launch-b'', sample_row ''launch-a''])] [] = [''a'', ''b'']"
    by code_simp
  show "distinct (run_beacons [(True, products_card_id, Some [sample_row ''launch-a'', sample_row ''other'']),
      (True, products_card_id, Some [sample_row ''launch-b'', sample_row ''launch-a''])] [])"
    by (rule products_counted_once) (simp add: sample_row_def)
qed

section \<open>The two clients\<close>

text \<open>Where the source says which list it is the clients draw the same one; else they differ.\<close>

lemma lists_agree:
  assumes "rows \<noteq> []"
  shows "web_feed_body False rows source_type = app_feed_body False restoring True rows source_type \<longleftrightarrow>
    source_type = Some ''hottest'' \<or> source_type = Some ''realtime''"
  using assms by (auto simp: web_feed_body_def app_feed_body_def)

text \<open>On the web the row a reader opened stays in the list.\<close>

lemma reading_keeps_rows: "web_items payload muted is_read = web_items payload muted is_read'"
  by (simp add: web_items_def feed_rows_def)

end
