(* ===== verification/Launches.thy ===== *)
theory Launches
  imports Feed_Card "HOL-Library.Product_Lexorder"
begin

text \<open>
  Products of the day on the server: \<open>server/outception/launches/service.py\<close> with the guards of
  \<open>launches/endpoints.py\<close> and the limits of \<open>launches/schemas.py\<close>. A product is submitted,
  approved into one of five slots of a day, goes live on that day and ends after it; its
  submitter may withdraw, edit or delete it and the founder may reject or edit it. The card on
  the wall is rebuilt from the products and kept; views and clicks are counted per product
  and day.

  A request is one transaction: what a refused one did is rolled back, and two requests do not
  interleave (the index over day and position refuses the second of two that take a slot). A day
  is the number of days since 1970. Fetching a link and a logo, the redaction of a text, the
  addresses, the list of admins and the house line come from elsewhere in the server
  and are a parameter (\<open>outside\<close>); mails, logs and the files of logos are left out, and so are
  the checks of the validation library on a body, except the number of ids of the views beacon.
\<close>

section \<open>Products\<close>

datatype launch_status = Submitted | Approved | Live | Ended | Rejected | Withdrawn

record launch =
  launch_id :: string
  submitter :: string
  launch_name :: string
  tagline :: string
  launch_url :: string
  kicker :: string
  description :: string
  contact_email :: string
  launch_state :: launch_status
  on_day :: "int option"
  day_position :: "nat option"
  is_featured :: bool
  logo_path :: "string option"
  reviewer_note :: "string option"

record outside =
  link_error :: "string \<Rightarrow> string option"
  store_logo :: "string \<Rightarrow> string \<Rightarrow> string option"
  published :: "string \<Rightarrow> string"
  favicon_of :: "string \<Rightarrow> string option"
  external_url :: "string \<Rightarrow> string"
  is_admin :: "string \<Rightarrow> bool"
  house_line :: "int \<Rightarrow> news_row"
  day_stamp :: "int \<Rightarrow> string"

definition slots_per_day :: nat where
  "slots_per_day = 5"

definition visible_states :: "launch_status list" where
  "visible_states = [Live, Ended]"

definition editable_states :: "launch_status list" where
  "editable_states = [Submitted, Withdrawn, Rejected]"

definition slot_states :: "launch_status list" where
  "slot_states = [Approved, Live]"

definition is_visible :: "launch \<Rightarrow> bool" where
  "is_visible p \<longleftrightarrow> launch_state p \<in> set visible_states"

definition holds_slot :: "launch \<Rightarrow> bool" where
  "holds_slot p \<longleftrightarrow> launch_state p \<in> set slot_states"

section \<open>What a request asks\<close>

record new_product =
  new_name :: string
  new_tagline :: string
  new_url :: string
  new_logo :: "string option"
  new_kicker :: string
  new_description :: string
  new_contact :: string
  new_day :: "int option"

record product_change =
  change_name :: "string option"
  change_tagline :: "string option"
  change_url :: "string option"
  change_logo :: "string option"
  change_kicker :: "string option"
  change_description :: "string option"
  change_contact :: "string option"
  change_day :: "int option"

record product_edit =
  edit_name :: "string option"
  edit_tagline :: "string option"
  edit_description :: "string option"
  edit_kicker :: "string option"

datatype refusal = Bad_Request string | Not_Permitted | Not_Found | Invalid_Body | Id_Taken

section \<open>Operations on the products\<close>

definition get_launch :: "string \<Rightarrow> launch list \<Rightarrow> refusal + launch" where
  "get_launch i db =
     (case List.find (\<lambda>p. launch_id p = i) db of None \<Rightarrow> Inl Not_Found | Some p \<Rightarrow> Inr p)"

definition owned_launch :: "string \<Rightarrow> string \<Rightarrow> launch list \<Rightarrow> refusal + launch" where
  "owned_launch user i db =
     (case get_launch i db of
        Inl e \<Rightarrow> Inl e
      | Inr p \<Rightarrow> if submitter p \<noteq> user then Inl Not_Permitted else Inr p)"

definition put_launch :: "launch \<Rightarrow> launch list \<Rightarrow> launch list" where
  "put_launch p db = map (\<lambda>q. if launch_id q = launch_id p then p else q) db"

definition submit_launch ::
  "outside \<Rightarrow> string \<Rightarrow> string \<Rightarrow> new_product \<Rightarrow> launch list \<Rightarrow> refusal + launch list" where
  "submit_launch out user i body db =
     (case link_error out (new_url body) of
        Some e \<Rightarrow> Inl (Bad_Request e)
      | None \<Rightarrow>
          if i \<in> set (map launch_id db) then Inl Id_Taken
          else Inr (db @
            [\<lparr>launch_id = i, submitter = user, launch_name = published out (new_name body),
              tagline = published out (new_tagline body), launch_url = new_url body,
              kicker = new_kicker body, description = published out (new_description body),
              contact_email = new_contact body, launch_state = Submitted, on_day = new_day body,
              day_position = None, is_featured = False,
              logo_path = Option.bind (new_logo body) (store_logo out i), reviewer_note = None\<rparr>]))"

definition withdraw_launch :: "string \<Rightarrow> string \<Rightarrow> launch list \<Rightarrow> refusal + launch list" where
  "withdraw_launch user i db =
     (case owned_launch user i db of
        Inl e \<Rightarrow> Inl e
      | Inr p \<Rightarrow>
          if launch_state p \<notin> {Submitted, Approved}
          then Inl (Bad_Request ''Only a waiting or approved product can be withdrawn'')
          else Inr (put_launch (p\<lparr>launch_state := Withdrawn, on_day := None, day_position := None\<rparr>) db))"

definition changed_launch :: "outside \<Rightarrow> product_change \<Rightarrow> launch \<Rightarrow> launch" where
  "changed_launch out body p =
     (let p1 = p\<lparr>launch_url := or_else (change_url body) (launch_url p),
                 launch_name := or_else (map_option (published out) (change_name body)) (launch_name p),
                 tagline := or_else (map_option (published out) (change_tagline body)) (tagline p),
                 description := or_else (map_option (published out) (change_description body)) (description p),
                 kicker := or_else (change_kicker body) (kicker p),
                 contact_email := or_else (change_contact body) (contact_email p),
                 on_day := (case change_day body of None \<Rightarrow> on_day p | Some d \<Rightarrow> Some d),
                 logo_path := (case Option.bind (change_logo body) (store_logo out (launch_id p)) of
                    None \<Rightarrow> logo_path p | Some f \<Rightarrow> Some f)\<rparr>
      in if launch_state p = Submitted then p1
         else p1\<lparr>launch_state := Submitted, reviewer_note := None, day_position := None\<rparr>)"

definition update_launch ::
  "outside \<Rightarrow> string \<Rightarrow> string \<Rightarrow> product_change \<Rightarrow> launch list \<Rightarrow> refusal + launch list" where
  "update_launch out user i body db =
     (case owned_launch user i db of
        Inl e \<Rightarrow> Inl e
      | Inr p \<Rightarrow>
          if launch_state p \<notin> set editable_states
          then Inl (Bad_Request ''Withdraw the product before editing it'')
          else (case (if change_url body = None \<or> change_url body = Some (launch_url p) then None
                      else link_error out (or_else (change_url body) [])) of
                  Some e \<Rightarrow> Inl (Bad_Request e)
                | None \<Rightarrow> Inr (put_launch (changed_launch out body p) db)))"

definition delete_launch :: "string \<Rightarrow> string \<Rightarrow> launch list \<Rightarrow> refusal + launch list" where
  "delete_launch user i db =
     (case owned_launch user i db of
        Inl e \<Rightarrow> Inl e
      | Inr p \<Rightarrow>
          if holds_slot p then Inl (Bad_Request ''Withdraw the product before deleting it'')
          else Inr (filter (\<lambda>q. launch_id q \<noteq> i) db))"

text \<open>The slots of a day that are taken, and the approval into the first free one.\<close>

definition taken_positions :: "int \<Rightarrow> launch list \<Rightarrow> nat list" where
  "taken_positions d db =
     List.map_filter (\<lambda>p. if holds_slot p \<and> on_day p = Some d then day_position p else None) db"

definition approve_launch ::
  "int \<Rightarrow> string \<Rightarrow> int \<Rightarrow> bool \<Rightarrow> launch list \<Rightarrow> refusal + launch list" where
  "approve_launch today i d featured db =
     (case get_launch i db of
        Inl e \<Rightarrow> Inl e
      | Inr p \<Rightarrow>
          if launch_state p \<noteq> Submitted
          then Inl (Bad_Request ''Only a submitted product can be approved'')
          else if slots_per_day \<le> length (remdups (taken_positions d db))
          then Inl (Bad_Request ''the day already has its products'')
          else Inr (put_launch
            (p\<lparr>day_position := Some (hd (filter (\<lambda>n. n \<notin> set (taken_positions d db)) [1..<slots_per_day + 1])),
               on_day := Some d, is_featured := featured,
               launch_state := (if d \<le> today then Live else Approved)\<rparr>) db))"

definition reject_launch :: "outside \<Rightarrow> string \<Rightarrow> string \<Rightarrow> launch list \<Rightarrow> refusal + launch list" where
  "reject_launch out i note db =
     (case get_launch i db of
        Inl e \<Rightarrow> Inl e
      | Inr p \<Rightarrow>
          if launch_state p \<notin> {Submitted, Approved} then Inl (Bad_Request ''This product is past review'')
          else Inr (put_launch
            (p\<lparr>launch_state := Rejected, reviewer_note := truthy (Some (published out note)),
               on_day := None, day_position := None\<rparr>) db))"

definition edited_fields :: "product_edit \<Rightarrow> string list" where
  "edited_fields body =
     (if edit_name body \<noteq> None then [''name''] else []) @
     (if edit_tagline body \<noteq> None then [''tagline''] else []) @
     (if edit_description body \<noteq> None then [''description''] else []) @
     (if edit_kicker body \<noteq> None then [''kicker''] else [])"

definition edited_launch :: "outside \<Rightarrow> int \<Rightarrow> product_edit \<Rightarrow> launch \<Rightarrow> launch" where
  "edited_launch out today body p =
     (if edited_fields body = [] then p
      else let line = ''Edited '' @ join_with '', '' (edited_fields body) @ '' on '' @ day_stamp out today
      in p\<lparr>launch_name := or_else (map_option (published out) (edit_name body)) (launch_name p),
           tagline := or_else (map_option (published out) (edit_tagline body)) (tagline p),
           description := or_else (map_option (published out) (edit_description body)) (description p),
           kicker := or_else (edit_kicker body) (kicker p),
           reviewer_note := Some (case truthy (reviewer_note p) of
              None \<Rightarrow> line | Some note \<Rightarrow> note @ [CHR 0x0A] @ line)\<rparr>)"

definition edit_launch ::
  "outside \<Rightarrow> int \<Rightarrow> string \<Rightarrow> product_edit \<Rightarrow> launch list \<Rightarrow> refusal + launch list" where
  "edit_launch out today i body db =
     (case get_launch i db of
        Inl e \<Rightarrow> Inl e
      | Inr p \<Rightarrow> Inr (put_launch (edited_launch out today body p) db))"

definition rotate_launch :: "int \<Rightarrow> launch \<Rightarrow> launch" where
  "rotate_launch today p =
     (case on_day p of
        None \<Rightarrow> p
      | Some d \<Rightarrow>
          if launch_state p = Approved \<and> d \<le> today then p\<lparr>launch_state := Live\<rparr>
          else if launch_state p = Live \<and> d < today then p\<lparr>launch_state := Ended\<rparr>
          else p)"

section \<open>The card\<close>

definition go_url :: "outside \<Rightarrow> string \<Rightarrow> string" where
  "go_url out i = external_url out (''/v1/launches/'' @ i @ ''/go'')"

definition media_url :: "outside \<Rightarrow> launch \<Rightarrow> string option" where
  "media_url out p =
     (case truthy (logo_path p) of
        None \<Rightarrow> favicon_of out (launch_url p)
      | Some f \<Rightarrow> Some (external_url out (''/media/'' @ f)))"

text \<open>A product as a row of the card; its hover text is left out.\<close>

definition product_row :: "outside \<Rightarrow> launch \<Rightarrow> news_row" where
  "product_row out p =
     \<lparr>row_id = launch_prefix @ launch_id p, cluster_id = None, publisher_count = None,
      title = launch_name p @ '': '' @ tagline p, row_url = go_url out (launch_id p),
      row_pub_date = Some (or_else (on_day p) 0 * 86400000), extra_info = truthy (Some (description p)),
      extra_icon = media_url out p, extra_date = None\<rparr>"

definition card_order :: "launch \<Rightarrow> int \<times> bool \<times> bool \<times> nat" where
  "card_order p =
     (- or_else (on_day p) 0, \<not> is_featured p, day_position p = None, or_else (day_position p) 0)"

definition on_card :: "int \<Rightarrow> launch \<Rightarrow> bool" where
  "on_card today p \<longleftrightarrow> launch_state p \<in> {Live, Ended} \<and>
     (case on_day p of None \<Rightarrow> False | Some d \<Rightarrow> today - 1 \<le> d \<and> d \<le> today)"

definition card_items :: "outside \<Rightarrow> int \<Rightarrow> launch list \<Rightarrow> news_row list" where
  "card_items out today db =
     house_line out today # map (product_row out) (sort_key card_order (filter (on_card today) db))"

section \<open>Requests\<close>

record product_server =
  launches :: "launch list"
  shown_card :: "news_row list"
  reach :: "string \<times> int \<Rightarrow> nat \<times> nat"

datatype launch_request =
    Submit_Product string string new_product
  | Withdraw_Product string string
  | Update_Product string string product_change
  | Delete_Product string string
  | Approve_Product string string int bool
  | Reject_Product string string string
  | Edit_Product string string product_edit
  | Rotate_Day
  | Record_Views "string list"
  | Open_Link string

definition rebuild_card :: "outside \<Rightarrow> int \<Rightarrow> product_server \<Rightarrow> product_server" where
  "rebuild_card out today s = s\<lparr>shown_card := card_items out today (launches s)\<rparr>"

definition bump_reach ::
  "string \<Rightarrow> int \<Rightarrow> nat \<Rightarrow> nat \<Rightarrow> (string \<times> int \<Rightarrow> nat \<times> nat) \<Rightarrow> string \<times> int \<Rightarrow> nat \<times> nat" where
  "bump_reach i d views clicks r = r((i, d) := (fst (r (i, d)) + views, snd (r (i, d)) + clicks))"

definition record_views :: "int \<Rightarrow> string list \<Rightarrow> product_server \<Rightarrow> product_server" where
  "record_views today ids s =
     s\<lparr>reach := fold (\<lambda>p. bump_reach (launch_id p) today 1 0)
        (filter (\<lambda>p. launch_id p \<in> set ids \<and> is_visible p) (launches s)) (reach s)\<rparr>"

definition record_click :: "int \<Rightarrow> string \<Rightarrow> product_server \<Rightarrow> refusal + product_server" where
  "record_click today i s =
     (case get_launch i (launches s) of
        Inl e \<Rightarrow> Inl e
      | Inr p \<Rightarrow> if is_visible p then Inr (s\<lparr>reach := bump_reach i today 0 1 (reach s)\<rparr>) else Inl Not_Found)"

definition with_launches :: "product_server \<Rightarrow> refusal + launch list \<Rightarrow> refusal + product_server" where
  "with_launches s r = (case r of Inl e \<Rightarrow> Inl e | Inr db \<Rightarrow> Inr (s\<lparr>launches := db\<rparr>))"

text \<open>A product that is deleted takes its counts along.\<close>

definition with_deleted :: "string \<Rightarrow> product_server \<Rightarrow> refusal + launch list \<Rightarrow> refusal + product_server" where
  "with_deleted i s r =
     (case r of
        Inl e \<Rightarrow> Inl e
      | Inr db \<Rightarrow> Inr (s\<lparr>launches := db, reach := (\<lambda>(j, d). if j = i then (0, 0) else reach s (j, d))\<rparr>))"

definition then_rebuild :: "outside \<Rightarrow> int \<Rightarrow> bool \<Rightarrow> refusal + product_server \<Rightarrow> refusal + product_server" where
  "then_rebuild out today needed r =
     (case r of Inl e \<Rightarrow> Inl e | Inr s \<Rightarrow> Inr (if needed then rebuild_card out today s else s))"

definition state_before :: "(launch_status \<Rightarrow> bool) \<Rightarrow> string \<Rightarrow> product_server \<Rightarrow> bool" where
  "state_before P i s = (case get_launch i (launches s) of Inl e \<Rightarrow> False | Inr p \<Rightarrow> P (launch_state p))"

fun handle_launch :: "outside \<Rightarrow> int \<Rightarrow> launch_request \<Rightarrow> product_server \<Rightarrow> refusal + product_server" where
  "handle_launch out today (Submit_Product user i body) s =
     with_launches s (submit_launch out user i body (launches s))"
| "handle_launch out today (Withdraw_Product user i) s =
     then_rebuild out today (state_before (\<lambda>st. st = Approved) i s)
       (with_launches s (withdraw_launch user i (launches s)))"
| "handle_launch out today (Update_Product user i body) s =
     with_launches s (update_launch out user i body (launches s))"
| "handle_launch out today (Delete_Product user i) s =
     with_deleted i s (delete_launch user i (launches s))"
| "handle_launch out today (Approve_Product user i d featured) s =
     (if \<not> is_admin out user then Inl Not_Permitted
      else then_rebuild out today True (with_launches s (approve_launch today i d featured (launches s))))"
| "handle_launch out today (Reject_Product user i note) s =
     (if \<not> is_admin out user then Inl Not_Permitted
      else with_launches s (reject_launch out i note (launches s)))"
| "handle_launch out today (Edit_Product user i body) s =
     (if \<not> is_admin out user then Inl Not_Permitted
      else then_rebuild out today
        (edited_fields body \<noteq> [] \<and> state_before (\<lambda>st. st \<in> set slot_states) i s)
        (with_launches s (edit_launch out today i body (launches s))))"
| "handle_launch out today Rotate_Day s =
     Inr (rebuild_card out today (s\<lparr>launches := map (rotate_launch today) (launches s)\<rparr>))"
| "handle_launch out today (Record_Views ids) s =
     (if ids = [] \<or> 10 < length ids then Inl Invalid_Body else Inr (record_views today ids s))"
| "handle_launch out today (Open_Link i) s = record_click today i s"

definition serve_launch :: "outside \<Rightarrow> int \<times> launch_request \<Rightarrow> product_server \<Rightarrow> product_server" where
  "serve_launch out tr s = (case handle_launch out (fst tr) (snd tr) s of Inl e \<Rightarrow> s | Inr s' \<Rightarrow> s')"

definition run_launches :: "outside \<Rightarrow> (int \<times> launch_request) list \<Rightarrow> product_server \<Rightarrow> product_server" where
  "run_launches out trs s = fold (serve_launch out) trs s"

definition no_products :: product_server where
  "no_products = \<lparr>launches = [], shown_card = [], reach = (\<lambda>_. (0, 0))\<rparr>"

text \<open>Reading one product: a listed one, or one of your own, or any for an admin.\<close>

definition read_launch :: "outside \<Rightarrow> string option \<Rightarrow> string \<Rightarrow> launch list \<Rightarrow> refusal + launch" where
  "read_launch out user i db =
     (case get_launch i db of
        Inl e \<Rightarrow> Inl e
      | Inr p \<Rightarrow>
          if \<not> is_visible p \<and> \<not> (case user of None \<Rightarrow> False | Some u \<Rightarrow> submitter p = u \<or> is_admin out u)
          then Inl Not_Found else Inr p)"

definition review_queue :: "launch list \<Rightarrow> launch list" where
  "review_queue db = rev (filter (\<lambda>p. launch_state p = Submitted) db)"

definition slots_taken :: "int \<Rightarrow> launch list \<Rightarrow> int \<Rightarrow> nat option" where
  "slots_taken today db d =
     (let n = length (filter (\<lambda>p. holds_slot p \<and> on_day p = Some d) db)
      in if today \<le> d \<and> d \<le> today + 30 \<and> 0 < n then Some n else None)"


section \<open>Where a product is\<close>

lemma get_launch_Inr:
  assumes "get_launch i db = Inr p" shows "p \<in> set db" "launch_id p = i"
  using assms by (auto simp: get_launch_def find_Some_iff split: option.splits)

lemma get_launch_distinct:
  assumes "distinct (map launch_id db)" "p \<in> set db" shows "get_launch (launch_id p) db = Inr p"
proof -
  obtain q where q: "List.find (\<lambda>q. launch_id q = launch_id p) db = Some q"
    using assms(2) by (cases "List.find (\<lambda>q. launch_id q = launch_id p) db") (auto simp: find_None_iff)
  then have "q \<in> set db" "launch_id q = launch_id p" by (auto simp: find_Some_iff)
  then have "q = p" using assms by (meson distinct_map inj_onD)
  then show ?thesis using q by (simp add: get_launch_def)
qed

lemma get_launch_None: "i \<notin> set (map launch_id db) \<Longrightarrow> get_launch i db = Inl Not_Found"
  by (auto simp: get_launch_def find_None_iff find_Some_iff split: option.splits)

lemma ids_put [simp]: "map launch_id (put_launch p db) = map launch_id db"
  by (auto simp: put_launch_def)

lemma put_same_id: "map launch_id (put_launch p db) = map launch_id db" by simp

lemma in_put:
  assumes "q \<in> set (put_launch p db)"
  shows "q = p \<or> q \<in> set db \<and> launch_id q \<noteq> launch_id p"
  using assms by (auto simp: put_launch_def)

lemma owned_launch_Inr:
  assumes "owned_launch u i db = Inr p"
  shows "get_launch i db = Inr p" "submitter p = u"
  using assms by (auto simp: owned_launch_def split: sum.splits if_splits)

text \<open>What an accepted operation on one product leaves: that product put back changed.\<close>

lemma withdraw_effect:
  assumes "withdraw_launch u i db = Inr db'"
  obtains p where "p \<in> set db" "launch_id p = i" "submitter p = u" "get_launch i db = Inr p"
    "launch_state p \<in> {Submitted, Approved}"
    "db' = put_launch (p\<lparr>launch_state := Withdrawn, on_day := None, day_position := None\<rparr>) db"
  using assms get_launch_Inr owned_launch_Inr
  by (fastforce simp: withdraw_launch_def split: sum.splits if_splits)

lemma update_effect:
  assumes "update_launch out u i body db = Inr db'"
  obtains p where "p \<in> set db" "launch_id p = i" "submitter p = u" "launch_state p \<in> set editable_states"
    "db' = put_launch (changed_launch out body p) db"
  using assms get_launch_Inr owned_launch_Inr
  by (fastforce simp: update_launch_def split: sum.splits if_splits option.splits)

lemma reject_effect:
  assumes "reject_launch out i note db = Inr db'"
  obtains p where "p \<in> set db" "launch_id p = i" "launch_state p \<in> {Submitted, Approved}"
    "db' = put_launch (p\<lparr>launch_state := Rejected, reviewer_note := truthy (Some (published out note)),
       on_day := None, day_position := None\<rparr>) db"
  using assms get_launch_Inr by (fastforce simp: reject_launch_def split: sum.splits if_splits)

lemma edit_effect:
  assumes "edit_launch out today i body db = Inr db'"
  obtains p where "p \<in> set db" "launch_id p = i" "get_launch i db = Inr p"
    "db' = put_launch (edited_launch out today body p) db"
  using assms get_launch_Inr by (fastforce simp: edit_launch_def split: sum.splits)

lemma approve_effect:
  assumes "approve_launch today i d featured db = Inr db'"
  obtains p n where "p \<in> set db" "launch_id p = i" "launch_state p = Submitted"
    "length (remdups (taken_positions d db)) < slots_per_day"
    "n = hd (filter (\<lambda>n. n \<notin> set (taken_positions d db)) [1..<slots_per_day + 1])"
    "db' = put_launch (p\<lparr>day_position := Some n, on_day := Some d, is_featured := featured,
       launch_state := (if d \<le> today then Live else Approved)\<rparr>) db"
  using assms get_launch_Inr by (fastforce simp: approve_launch_def split: sum.splits if_splits)

lemma delete_effect:
  assumes "delete_launch u i db = Inr db'"
  obtains p where "p \<in> set db" "launch_id p = i" "submitter p = u" "\<not> holds_slot p" "get_launch i db = Inr p"
    "db' = filter (\<lambda>q. launch_id q \<noteq> i) db"
  using assms get_launch_Inr owned_launch_Inr
  by (fastforce simp: delete_launch_def split: sum.splits if_splits)

lemma submit_effect:
  assumes "submit_launch out u i body db = Inr db'"
  obtains p where "launch_id p = i" "submitter p = u" "launch_state p = Submitted"
    "i \<notin> set (map launch_id db)" "db' = db @ [p]"
  using assms by (fastforce simp: submit_launch_def split: option.splits if_splits)

lemma changed_launch_facts [simp]:
  "launch_id (changed_launch out body p) = launch_id p"
  "submitter (changed_launch out body p) = submitter p"
  "launch_state (changed_launch out body p) = Submitted"
  by (simp_all add: changed_launch_def Let_def)

lemma edited_launch_facts [simp]:
  "launch_id (edited_launch out today body p) = launch_id p"
  "submitter (edited_launch out today body p) = submitter p"
  "launch_state (edited_launch out today body p) = launch_state p"
  "on_day (edited_launch out today body p) = on_day p"
  "day_position (edited_launch out today body p) = day_position p"
  "is_featured (edited_launch out today body p) = is_featured p"
  by (simp_all add: edited_launch_def Let_def)

lemma rotate_launch_facts [simp]:
  "launch_id (rotate_launch today p) = launch_id p"
  "submitter (rotate_launch today p) = submitter p"
  "on_day (rotate_launch today p) = on_day p"
  "day_position (rotate_launch today p) = day_position p"
  by (simp_all add: rotate_launch_def split: option.splits)

lemma with_launches_Inr:
  "with_launches s r = Inr s' \<longleftrightarrow> (\<exists>db. r = Inr db \<and> s' = s\<lparr>launches := db\<rparr>)"
  by (auto simp: with_launches_def split: sum.splits)

lemma with_deleted_Inr:
  "with_deleted i s r = Inr s' \<longleftrightarrow> (\<exists>db. r = Inr db \<and>
     s' = s\<lparr>launches := db, reach := (\<lambda>(j, d). if j = i then (0, 0) else reach s (j, d))\<rparr>)"
  by (auto simp: with_deleted_def split: sum.splits)

lemma then_rebuild_Inr:
  "then_rebuild out today needed r = Inr s' \<longleftrightarrow>
     (\<exists>s. r = Inr s \<and> s' = (if needed then rebuild_card out today s else s))"
  by (auto simp: then_rebuild_def split: sum.splits)

lemma launches_rebuild [simp]: "launches (rebuild_card out today s) = launches s"
  by (simp add: rebuild_card_def)

lemma launches_if_rebuild [simp]: "launches (if b then rebuild_card out today s else s) = launches s"
  by simp

lemma handled_launches:
  "with_launches s r = Inr s' \<Longrightarrow> r = Inr (launches s')"
  "then_rebuild out today needed (with_launches s r) = Inr s' \<Longrightarrow> r = Inr (launches s')"
  "with_deleted i s r = Inr s' \<Longrightarrow> r = Inr (launches s')"
  by (auto simp: with_launches_def with_deleted_def then_rebuild_def split: sum.splits if_splits)

lemma handled_card:
  "then_rebuild out today False (with_launches s r) = Inr s' \<Longrightarrow> shown_card s' = shown_card s"
  by (auto simp: with_launches_def then_rebuild_def split: sum.splits)

lemmas slot_defs = holds_slot_def slot_states_def

lemma not_slot [simp]:
  "launch_state p = Submitted \<Longrightarrow> \<not> holds_slot p"
  "launch_state p = Withdrawn \<Longrightarrow> \<not> holds_slot p"
  "launch_state p = Rejected \<Longrightarrow> \<not> holds_slot p"
  "launch_state p = Ended \<Longrightarrow> \<not> holds_slot p"
  by (simp_all add: slot_defs)

section \<open>Five a day\<close>

definition slots_ok :: "launch list \<Rightarrow> bool" where
  "slots_ok db \<longleftrightarrow> distinct (map launch_id db) \<and>
     (\<forall>p \<in> set db. holds_slot p \<longrightarrow> on_day p \<noteq> None \<and> (\<exists>n \<in> {1..slots_per_day}. day_position p = Some n)) \<and>
     (\<forall>p \<in> set db. launch_state p = Ended \<longrightarrow> on_day p \<noteq> None) \<and>
     (\<forall>p \<in> set db. \<forall>q \<in> set db. holds_slot p \<and> holds_slot q \<and> on_day p = on_day q \<and>
        day_position p = day_position q \<longrightarrow> p = q)"

lemma slots_okD:
  assumes "slots_ok db"
  shows "distinct (map launch_id db)"
    and "p \<in> set db \<Longrightarrow> holds_slot p \<Longrightarrow> on_day p \<noteq> None"
    and "p \<in> set db \<Longrightarrow> holds_slot p \<Longrightarrow> \<exists>n \<in> {1..slots_per_day}. day_position p = Some n"
    and "p \<in> set db \<Longrightarrow> launch_state p = Ended \<Longrightarrow> on_day p \<noteq> None"
    and "\<lbrakk>p \<in> set db; q \<in> set db; holds_slot p; holds_slot q; on_day p = on_day q; day_position p = day_position q\<rbrakk> \<Longrightarrow> p = q"
  using assms unfolding slots_ok_def by blast+

lemma slots_ok_filter: "slots_ok db \<Longrightarrow> slots_ok (filter P db)"
  unfolding slots_ok_def by (auto simp: distinct_map_filter)

lemma slots_ok_snoc:
  assumes "slots_ok db" "launch_id p \<notin> set (map launch_id db)" "\<not> holds_slot p" "launch_state p \<noteq> Ended"
  shows "slots_ok (db @ [p])"
  using assms unfolding slots_ok_def by auto

text \<open>A change that takes no slot and ends nothing by itself.\<close>

lemma slots_okI:
  assumes "distinct (map launch_id db)"
    and "\<And>p. p \<in> set db \<Longrightarrow> holds_slot p \<Longrightarrow> on_day p \<noteq> None \<and> (\<exists>n \<in> {1..slots_per_day}. day_position p = Some n)"
    and "\<And>p. p \<in> set db \<Longrightarrow> launch_state p = Ended \<Longrightarrow> on_day p \<noteq> None"
    and "\<And>p q. \<lbrakk>p \<in> set db; q \<in> set db; holds_slot p; holds_slot q; on_day p = on_day q; day_position p = day_position q\<rbrakk> \<Longrightarrow> p = q"
  shows "slots_ok db"
  using assms unfolding slots_ok_def by blast

lemma slots_ok_map:
  assumes "slots_ok db"
    and "\<And>p. p \<in> set db \<Longrightarrow> launch_id (f p) = launch_id p"
    and "\<And>p. p \<in> set db \<Longrightarrow> holds_slot (f p) \<Longrightarrow>
      holds_slot p \<and> on_day (f p) = on_day p \<and> day_position (f p) = day_position p"
    and "\<And>p. p \<in> set db \<Longrightarrow> launch_state (f p) = Ended \<Longrightarrow>
      (holds_slot p \<or> launch_state p = Ended) \<and> on_day (f p) = on_day p"
  shows "slots_ok (map f db)"
proof (rule slots_okI)
  have "map launch_id (map f db) = map launch_id db" using assms(2) by simp
  then show "distinct (map launch_id (map f db))" using slots_okD(1) [OF assms(1)] by metis
  fix q assume "q \<in> set (map f db)"
  then obtain p where p: "p \<in> set db" "q = f p" by auto
  show "on_day q \<noteq> None \<and> (\<exists>n \<in> {1..slots_per_day}. day_position q = Some n)" if "holds_slot q"
    using assms(3) [of p] slots_okD(2,3) [OF assms(1) p(1)] p that by simp
  show "on_day q \<noteq> None" if "launch_state q = Ended"
    using assms(4) [of p] slots_okD(2,4) [OF assms(1) p(1)] p that by auto
  fix r assume "r \<in> set (map f db)"
  then obtain p' where p': "p' \<in> set db" "r = f p'" by auto
  show "q = r" if "holds_slot q" "holds_slot r" "on_day q = on_day r" "day_position q = day_position r"
    using assms(3) [of p] assms(3) [of p'] slots_okD(5) [OF assms(1) p(1) p'(1)] p p' that by simp
qed

lemma slots_ok_put:
  assumes "slots_ok db" and "p \<in> set db" and "launch_id p' = launch_id p"
    and "holds_slot p' \<Longrightarrow> holds_slot p \<and> on_day p' = on_day p \<and> day_position p' = day_position p"
    and "launch_state p' = Ended \<Longrightarrow> launch_state p = Ended \<and> on_day p' = on_day p"
  shows "slots_ok (put_launch p' db)"
  unfolding put_launch_def
proof (rule slots_ok_map [OF assms(1)])
  fix q assume q: "q \<in> set db"
  have only: "q = p" if "launch_id q = launch_id p'"
    using that assms(2,3) q slots_okD(1) [OF assms(1)] by (metis distinct_map inj_onD)
  show "launch_id (if launch_id q = launch_id p' then p' else q) = launch_id q" by simp
  show "holds_slot q \<and> on_day (if launch_id q = launch_id p' then p' else q) = on_day q \<and>
      day_position (if launch_id q = launch_id p' then p' else q) = day_position q"
    if "holds_slot (if launch_id q = launch_id p' then p' else q)"
    using that only assms(4) by (auto split: if_splits)
  show "(holds_slot q \<or> launch_state q = Ended) \<and> on_day (if launch_id q = launch_id p' then p' else q) = on_day q"
    if "launch_state (if launch_id q = launch_id p' then p' else q) = Ended"
    using that only assms(5) by (auto split: if_splits)
qed

lemma taken_positions_set:
  "set (taken_positions d db) = {n. \<exists>p \<in> set db. holds_slot p \<and> on_day p = Some d \<and> day_position p = Some n}"
  by (induction db) (auto simp: taken_positions_def map_filter_simps split: option.splits)

lemma free_position:
  assumes "length (remdups (taken_positions d db)) < slots_per_day"
  defines "n \<equiv> hd (filter (\<lambda>n. n \<notin> set (taken_positions d db)) [1..<slots_per_day + 1])"
  shows "n \<in> {1..slots_per_day} \<and> n \<notin> set (taken_positions d db)"
proof -
  define ns where "ns = [1..<slots_per_day + 1]"
  have ns: "set ns = {1..slots_per_day}" by (auto simp: ns_def)
  have "card (set (taken_positions d db)) < card (set ns)"
    using assms(1) by (simp add: length_remdups_card_conv ns)
  then have "\<not> set ns \<subseteq> set (taken_positions d db)" by (meson card_mono finite_set leD)
  then have "filter (\<lambda>n. n \<notin> set (taken_positions d db)) ns \<noteq> []" by (auto simp: filter_empty_conv)
  from hd_in_set [OF this] show ?thesis unfolding n_def ns_def [symmetric] ns [symmetric] by simp
qed

lemma slots_ok_approve:
  assumes "slots_ok db" and "approve_launch today i d featured db = Inr db'"
  shows "slots_ok db'"
proof -
  from assms(2) obtain p n where p: "length (remdups (taken_positions d db)) < slots_per_day"
    and n_def: "n = hd (filter (\<lambda>n. n \<notin> set (taken_positions d db)) [1..<slots_per_day + 1])"
    and db'_def: "db' = put_launch (p\<lparr>day_position := Some n, on_day := Some d, is_featured := featured,
      launch_state := (if d \<le> today then Live else Approved)\<rparr>) db"
    by (elim approve_effect) metis
  define p' where "p' = p\<lparr>day_position := Some n, on_day := Some d, is_featured := featured,
    launch_state := (if d \<le> today then Live else Approved)\<rparr>"
  have db': "db' = put_launch p' db" by (simp add: db'_def p'_def)
  have n: "n \<in> {1..slots_per_day}" "n \<notin> set (taken_positions d db)" using free_position [OF p] unfolding n_def by blast+
  have p': "launch_id p' = launch_id p" "holds_slot p'" "launch_state p' \<noteq> Ended" "on_day p' = Some d" "day_position p' = Some n"
    by (auto simp: p'_def holds_slot_def slot_states_def)
  have others: "q \<in> set db'  \<Longrightarrow> q = p' \<or> q \<in> set db" for q using in_put db' by blast
  have clash: "\<not> (q \<in> set db \<and> holds_slot q \<and> on_day q = Some d \<and> day_position q = Some n)" for q
    using n(2) by (auto simp: taken_positions_set)
  show ?thesis
    unfolding slots_ok_def
  proof (intro conjI ballI impI)
    show "distinct (map launch_id db')" using slots_okD(1) [OF assms(1)] by (simp add: db')
    fix q assume q: "q \<in> set db'"
    show "on_day q \<noteq> None" if "holds_slot q" using others [OF q] slots_okD(2) [OF assms(1)] that p' by auto
    show "\<exists>n \<in> {1..slots_per_day}. day_position q = Some n" if "holds_slot q"
      using others [OF q] slots_okD(3) [OF assms(1)] that p' n by auto
    show "on_day q \<noteq> None" if "launch_state q = Ended" using others [OF q] slots_okD(4) [OF assms(1)] that p' by auto
    fix r assume r: "r \<in> set db'"
      and same: "holds_slot q \<and> holds_slot r \<and> on_day q = on_day r \<and> day_position q = day_position r"
    then show "q = r"
      using others [OF q] others [OF r] clash [of q] clash [of r] p' slots_okD(5) [OF assms(1), of q r] by auto
  qed
qed

lemma slots_ok_step:
  assumes "slots_ok (launches s)"
  shows "slots_ok (launches (serve_launch out tr s))"
proof (cases "handle_launch out (fst tr) (snd tr) s")
  case Inl
  then show ?thesis using assms by (simp add: serve_launch_def)
next
  case (Inr s')
  note put = slots_ok_put [OF assms] and slot_defs [simp]
  have "slots_ok (launches s')"
  proof (cases "snd tr")
    case (Submit_Product u i body)
    then show ?thesis using Inr assms
      by (auto simp: with_launches_Inr elim!: submit_effect intro!: slots_ok_snoc)
  next
    case (Withdraw_Product u i)
    then show ?thesis using Inr
      by (auto simp: with_launches_Inr then_rebuild_Inr elim!: withdraw_effect intro!: put)
  next
    case (Update_Product u i body)
    then show ?thesis using Inr by (auto simp: with_launches_Inr elim!: update_effect intro!: put)
  next
    case (Delete_Product u i)
    then show ?thesis using Inr assms
      by (auto simp: with_deleted_Inr elim!: delete_effect intro!: slots_ok_filter)
  next
    case (Approve_Product u i d f)
    then show ?thesis using Inr assms slots_ok_approve
      by (auto simp: with_launches_Inr then_rebuild_Inr split: if_splits)
  next
    case (Reject_Product u i remark)
    then have "reject_launch out i remark (launches s) = Inr (launches s')"
      using Inr by (auto simp: with_launches_Inr split: if_splits)
    then show ?thesis by (rule reject_effect) (auto intro!: put)
  next
    case (Edit_Product u i body)
    then have "edit_launch out (fst tr) i body (launches s) = Inr (launches s')"
      using Inr by (simp split: if_splits) (rule handled_launches)
    then obtain p where "p \<in> set (launches s)" "launches s' = put_launch (edited_launch out (fst tr) body p) (launches s)"
      by (rule edit_effect)
    then show ?thesis using put [of p "edited_launch out (fst tr) body p"] by simp
  next
    case Rotate_Day
    then show ?thesis using Inr assms
      by (auto simp: rotate_launch_def split: option.splits if_splits intro!: slots_ok_map)
  next
    case (Record_Views ids)
    then show ?thesis using Inr assms by (auto simp: record_views_def split: if_splits)
  next
    case (Open_Link i)
    then show ?thesis using Inr assms by (auto simp: record_click_def split: sum.splits if_splits)
  qed
  then show ?thesis using Inr by (simp add: serve_launch_def)
qed

lemma slots_ok_run: "slots_ok (launches s) \<Longrightarrow> slots_ok (launches (run_launches out trs s))"
  unfolding run_launches_def by (induction trs arbitrary: s) (auto simp: slots_ok_step)

lemma slots_ok_start: "slots_ok (launches no_products)"
  by (simp add: slots_ok_def no_products_def)

lemma slots_ok_five:
  assumes "slots_ok db"
  shows "length (filter (\<lambda>p. holds_slot p \<and> on_day p = Some d) db) \<le> slots_per_day"
proof -
  let ?xs = "filter (\<lambda>p. holds_slot p \<and> on_day p = Some d) db"
  have "distinct db" using slots_okD(1) [OF assms] by (simp add: distinct_map)
  moreover have "inj_on day_position (set ?xs)" using slots_okD(5) [OF assms] by (auto intro!: inj_onI)
  ultimately have "distinct (map day_position ?xs)" by (simp add: distinct_map)
  moreover have "set (map day_position ?xs) \<subseteq> Some ` {1..slots_per_day}" using slots_okD(3) [OF assms] by fastforce
  ultimately have "length (map day_position ?xs) \<le> card (Some ` {1..slots_per_day} :: nat option set)"
    by (metis card_mono distinct_card finite_atLeastAtMost finite_imageI)
  also have "\<dots> \<le> slots_per_day" using card_image_le [of "{1..slots_per_day}" Some] by simp
  finally show ?thesis by simp
qed

text \<open>
  C11: Five a day. Whatever requests come, on whatever days and from whomever, never more than
  five products are approved for or live on one day, and no two of them share a slot.
\<close>

theorem five_a_day:
  "length (filter (\<lambda>p. holds_slot p \<and> on_day p = Some d) (launches (run_launches out trs no_products))) \<le> slots_per_day \<and>
   slots_ok (launches (run_launches out trs no_products))"
  by (simp add: slots_ok_five slots_ok_run slots_ok_start)


section \<open>Nothing is listed unapproved\<close>

definition is_listed :: "launch \<Rightarrow> bool" where
  "is_listed p \<longleftrightarrow> launch_state p \<in> {Approved, Live, Ended}"

lemma not_listed [simp]:
  "launch_state p = Submitted \<Longrightarrow> \<not> is_listed p"
  "launch_state p = Withdrawn \<Longrightarrow> \<not> is_listed p"
  "launch_state p = Rejected \<Longrightarrow> \<not> is_listed p"
  "is_listed (edited_launch out today body p) = is_listed p"
  "is_listed (rotate_launch today p) = is_listed p"
  by (auto simp: is_listed_def rotate_launch_def split: option.splits)

definition approved_before :: "outside \<Rightarrow> string \<Rightarrow> (int \<times> launch_request) list \<Rightarrow> bool" where
  "approved_before out i trs \<longleftrightarrow>
     (\<exists>(today, r) \<in> set trs. \<exists>user d featured. r = Approve_Product user i d featured \<and> is_admin out user)"

lemma in_put_state:
  assumes "q \<in> set (put_launch p' db)" "is_listed q"
    and "p \<in> set db" "launch_id p' = launch_id p"
    and "is_listed p' \<Longrightarrow> is_listed p"
  shows "\<exists>q' \<in> set db. launch_id q' = launch_id q \<and> is_listed q'"
  using in_put [OF assms(1)] assms(2-) by metis

lemma listed_step:
  assumes "q \<in> set (launches (serve_launch out (today, r) s))" "is_listed q"
    and "\<nexists>user d featured. r = Approve_Product user (launch_id q) d featured \<and> is_admin out user"
  shows "\<exists>q' \<in> set (launches s). launch_id q' = launch_id q \<and> is_listed q'"
proof (cases "handle_launch out today r s")
  case Inl
  then show ?thesis using assms by (auto simp: serve_launch_def)
next
  case (Inr s')
  have q: "q \<in> set (launches s')" using assms(1) Inr by (simp add: serve_launch_def)
  note keep = in_put_state [OF _ assms(2)]
  show ?thesis
  proof (cases r)
    case (Submit_Product u i body)
    then show ?thesis using Inr q assms(2)
      by (auto simp: with_launches_Inr is_listed_def elim!: submit_effect)
  next
    case (Withdraw_Product u i)
    then have "withdraw_launch u i (launches s) = Inr (launches s')"
      using Inr by (auto dest: handled_launches)
    then show ?thesis using q by (elim withdraw_effect) (auto intro!: keep)
  next
    case (Update_Product u i body)
    then have "update_launch out u i body (launches s) = Inr (launches s')"
      using Inr by (auto dest: handled_launches)
    then show ?thesis using q by (elim update_effect) (auto intro!: keep)
  next
    case (Delete_Product u i)
    then show ?thesis using Inr q assms(2) by (auto simp: with_deleted_Inr elim!: delete_effect)
  next
    case (Approve_Product u i d f)
    then have "approve_launch today i d f (launches s) = Inr (launches s')" "is_admin out u"
      using Inr by (auto dest: handled_launches split: if_splits)
    then show ?thesis using q assms(2,3) Approve_Product by (elim approve_effect) (auto dest!: in_put)
  next
    case (Reject_Product u i remark)
    then have "reject_launch out i remark (launches s) = Inr (launches s')"
      using Inr by (auto dest: handled_launches split: if_splits)
    then show ?thesis using q by (elim reject_effect) (auto intro!: keep)
  next
    case (Edit_Product u i body)
    then have "edit_launch out today i body (launches s) = Inr (launches s')"
      using Inr by (simp split: if_splits) (rule handled_launches)
    then show ?thesis using q by (elim edit_effect) (auto intro!: keep)
  next
    case Rotate_Day
    then show ?thesis using Inr q assms(2) by auto blast
  next
    case (Record_Views ids)
    then show ?thesis using Inr q assms(2) by (auto simp: record_views_def split: if_splits)
  next
    case (Open_Link i)
    then show ?thesis using Inr q assms(2) by (auto simp: record_click_def split: sum.splits if_splits)
  qed
qed

lemma listed_run:
  assumes "p \<in> set (launches (run_launches out trs s))" "is_listed p"
    and "\<forall>q \<in> set (launches s). is_listed q \<longrightarrow> launch_id q \<noteq> launch_id p"
  shows "approved_before out (launch_id p) trs"
  using assms
proof (induction trs arbitrary: p rule: rev_induct)
  case Nil
  then show ?case by (auto simp: run_launches_def)
next
  case (snoc tr trs)
  obtain today r where tr: "tr = (today, r)" by (cases tr)
  show ?case
  proof (cases "\<exists>user d featured. r = Approve_Product user (launch_id p) d featured \<and> is_admin out user")
    case True
    then show ?thesis by (auto simp: approved_before_def tr)
  next
    case False
    have "p \<in> set (launches (serve_launch out (today, r) (run_launches out trs s)))"
      using snoc.prems(1) by (simp add: run_launches_def tr)
    from listed_step [OF this snoc.prems(2) False] obtain q where
      "q \<in> set (launches (run_launches out trs s))" "launch_id q = launch_id p"
      "is_listed q" by blast
    then have "approved_before out (launch_id p) trs" using snoc.IH [of q] snoc.prems(3) by simp
    then show ?thesis by (auto simp: approved_before_def)
  qed
qed

text \<open>
  C12: Nothing is public before the founder approves it. A reader who is neither its submitter nor
  an admin, the anonymous one included, gets a product only if an admin approved that very product
  in an earlier request. (Its submitter and the admins read it in every state.)
\<close>

theorem listed_was_approved:
  assumes "read_launch out user i (launches (run_launches out trs no_products)) = Inr p"
    and "user = None \<or> user = Some u \<and> submitter p \<noteq> u \<and> \<not> is_admin out u"
  shows "approved_before out i trs"
proof -
  have "get_launch i (launches (run_launches out trs no_products)) = Inr p" "is_visible p"
    using assms by (auto simp: read_launch_def split: sum.splits if_splits)
  then show ?thesis
    using listed_run [of p out trs no_products] get_launch_Inr [of i _ p]
    by (auto simp: is_visible_def visible_states_def is_listed_def no_products_def)
qed

section \<open>Products of others\<close>

fun request_user :: "launch_request \<Rightarrow> string option" where
  "request_user (Submit_Product u i body) = Some u"
| "request_user (Withdraw_Product u i) = Some u"
| "request_user (Update_Product u i body) = Some u"
| "request_user (Delete_Product u i) = Some u"
| "request_user (Approve_Product u i d f) = Some u"
| "request_user (Reject_Product u i n) = Some u"
| "request_user (Edit_Product u i body) = Some u"
| "request_user Rotate_Day = None"
| "request_user (Record_Views ids) = None"
| "request_user (Open_Link i) = None"

lemma put_keeps_others: "p \<in> set db \<Longrightarrow> launch_id p \<noteq> launch_id p' \<Longrightarrow> p \<in> set (put_launch p' db)"
  by (force simp: put_launch_def)

lemma other_id:
  assumes "distinct (map launch_id db)" "p \<in> set db" "launch_id p = launch_id q" "q \<in> set db"
  shows "submitter q = submitter p"
  using assms by (metis distinct_map inj_onD)

text \<open>
  C13: Only the submitter, an admin and the calendar change a product. Whatever anybody else asks,
  it stays exactly as it is.
\<close>

theorem others_cannot_touch:
  assumes "slots_ok (launches s)" and "p \<in> set (launches s)" and "r \<noteq> Rotate_Day"
    and "request_user r = None \<or> request_user r = Some u \<and> u \<noteq> submitter p \<and> \<not> is_admin out u"
  shows "p \<in> set (launches (serve_launch out (today, r) s))"
proof (cases "handle_launch out today r s")
  case Inl
  then show ?thesis using assms by (simp add: serve_launch_def)
next
  case (Inr s')
  note other = other_id [OF slots_okD(1) [OF assms(1)] assms(2)]
  note keep = put_keeps_others [OF assms(2)]
  have "p \<in> set (launches s')"
  proof (cases r)
    case (Submit_Product v i body)
    then show ?thesis using Inr assms(2) by (auto dest!: handled_launches elim!: submit_effect)
  next
    case (Withdraw_Product v i)
    then have "withdraw_launch v i (launches s) = Inr (launches s')" using Inr by (auto dest: handled_launches)
    then show ?thesis using Withdraw_Product assms(4) by (elim withdraw_effect) (auto intro!: keep dest: other)
  next
    case (Update_Product v i body)
    then have "update_launch out v i body (launches s) = Inr (launches s')" using Inr by (auto dest: handled_launches)
    then show ?thesis using Update_Product assms(4) by (elim update_effect) (auto intro!: keep dest: other)
  next
    case (Delete_Product v i)
    then have "delete_launch v i (launches s) = Inr (launches s')" using Inr by (auto dest: handled_launches)
    then show ?thesis using Delete_Product assms(2,4) by (elim delete_effect) (auto dest: other)
  qed (use Inr assms in \<open>auto simp: record_views_def record_click_def split: if_splits sum.splits\<close>)
  then show ?thesis using Inr by (simp add: serve_launch_def)
qed


section \<open>The card follows the products\<close>

definition touches_ended :: "int \<Rightarrow> launch_request \<Rightarrow> product_server \<Rightarrow> bool" where
  "touches_ended today r s \<longleftrightarrow>
     (\<exists>p \<in> set (launches s). launch_state p = Ended \<and> on_card today p \<and>
        (\<exists>u body. r = Delete_Product u (launch_id p) \<or> r = Edit_Product u (launch_id p) body))"

lemma not_on_card [simp]:
  "launch_state p \<notin> {Live, Ended} \<Longrightarrow> \<not> on_card today p"
  "on_card today (edited_launch out t body p) = on_card today p"
  by (simp_all add: on_card_def)

lemma filter_map_same:
  "\<forall>q \<in> set xs. f q = q \<or> \<not> P q \<and> \<not> P (f q) \<Longrightarrow> filter P (map f xs) = filter P xs"
  by (induction xs) auto

lemma card_items_put:
  assumes "distinct (map launch_id db)" "p \<in> set db" "launch_id p' = launch_id p"
    and "p' = p \<or> \<not> on_card today p \<and> \<not> on_card today p'"
  shows "card_items out today (put_launch p' db) = card_items out today db"
proof -
  have "\<forall>q \<in> set db. launch_id q = launch_id p \<longrightarrow> q = p" using assms(1,2) by (metis distinct_map inj_onD)
  then have "filter (on_card today) (put_launch p' db) = filter (on_card today) db"
    unfolding put_launch_def by (rule_tac filter_map_same) (use assms(3,4) in auto)
  then show ?thesis by (simp add: card_items_def)
qed

lemma card_items_delete:
  assumes "distinct (map launch_id db)" "p \<in> set db" "\<not> on_card today p"
  shows "card_items out today (filter (\<lambda>q. launch_id q \<noteq> launch_id p) db) = card_items out today db"
proof -
  have "\<forall>q \<in> set db. launch_id q = launch_id p \<longrightarrow> q = p" using assms(1,2) by (metis distinct_map inj_onD)
  then have "filter (on_card today) (filter (\<lambda>q. launch_id q \<noteq> launch_id p) db) = filter (on_card today) db"
    using assms(3) by (auto intro!: filter_cong)
  then show ?thesis by (simp add: card_items_def)
qed

text \<open>
  The card on the wall follows the products: after any request of the day it is what the
  products make of it, but for the deletion or the edit of a product that ended yesterday and
  still stands on the card.
\<close>

theorem card_follows_products:
  assumes "shown_card s = card_items out today (launches s)" and "slots_ok (launches s)"
    and "\<not> touches_ended today r s"
  shows "shown_card (serve_launch out (today, r) s) = card_items out today (launches (serve_launch out (today, r) s))"
proof (cases "handle_launch out today r s")
  case Inl
  then show ?thesis using assms by (simp add: serve_launch_def)
next
  case (Inr s')
  note same = card_items_put [OF slots_okD(1) [OF assms(2)]]
  have "shown_card s' = card_items out today (launches s')"
  proof (cases r)
    case (Submit_Product u i body)
    then show ?thesis using Inr assms(1)
      by (auto simp: with_launches_Inr card_items_def elim!: submit_effect)
  next
    case (Withdraw_Product u i)
    then show ?thesis using Inr assms(1)
      by (auto simp: with_launches_Inr then_rebuild_Inr rebuild_card_def same elim!: withdraw_effect)
  next
    case (Update_Product u i body)
    then show ?thesis using Inr assms(1)
      by (auto simp: with_launches_Inr same editable_states_def elim!: update_effect)
  next
    case (Delete_Product u i)
    then have gone: "delete_launch u i (launches s) = Inr (launches s')" and kept: "shown_card s' = shown_card s"
      using Inr by (auto simp: with_deleted_Inr)
    from gone obtain p where p: "p \<in> set (launches s)" "launch_id p = i" "\<not> holds_slot p"
      and s': "launches s' = filter (\<lambda>q. launch_id q \<noteq> i) (launches s)" by (rule delete_effect)
    have "\<not> on_card today p"
      using p assms(3) Delete_Product unfolding touches_ended_def on_card_def slot_defs by auto
    then show ?thesis using card_items_delete [OF slots_okD(1) [OF assms(2)] p(1)] p(2) s' kept assms(1) by simp
  next
    case (Approve_Product u i d f)
    then show ?thesis using Inr by (auto simp: then_rebuild_Inr rebuild_card_def split: if_splits)
  next
    case (Reject_Product u i remark)
    then show ?thesis using Inr assms(1)
      by (auto simp: with_launches_Inr same elim!: reject_effect split: if_splits)
  next
    case (Edit_Product u i body)
    then have edit: "edit_launch out today i body (launches s) = Inr (launches s')"
      using Inr by (simp split: if_splits) (rule handled_launches)
    then obtain p where p: "p \<in> set (launches s)" "launch_id p = i" "get_launch i (launches s) = Inr p"
      and s': "launches s' = put_launch (edited_launch out today body p) (launches s)" by (rule edit_effect)
    show ?thesis
    proof (cases "edited_fields body \<noteq> [] \<and> launch_state p \<in> set slot_states")
      case True
      then show ?thesis using Edit_Product Inr p(3)
        by (auto simp: then_rebuild_Inr rebuild_card_def state_before_def split: if_splits)
    next
      case False
      then have no: "(edited_fields body \<noteq> [] \<and> state_before (\<lambda>st. st \<in> set slot_states) i s) = False"
        by (simp add: state_before_def p(3))
      have "then_rebuild out today False (with_launches s (edit_launch out today i body (launches s))) = Inr s'"
        using Inr unfolding Edit_Product handle_launch.simps no by (simp split: if_splits)
      then have "shown_card s' = shown_card s" by (rule handled_card)
      moreover have "edited_launch out today body p = p \<or> \<not> on_card today p"
        using False p assms(3) Edit_Product
        unfolding touches_ended_def on_card_def slot_states_def edited_launch_def by auto
      ultimately show ?thesis using same [OF p(1), of "edited_launch out today body p"] s' assms(1) by auto
    qed
  next
    case Rotate_Day
    then show ?thesis using Inr by (auto simp: rebuild_card_def)
  qed (use Inr assms in \<open>auto simp: record_views_def record_click_def split: if_splits sum.splits\<close>)
  then show ?thesis using Inr by (simp add: serve_launch_def)
qed

section \<open>Labels of products\<close>

text \<open>
  \<open>distinct_labels\<close>: one label for every name of the chart race, a repeated name with a number.
\<close>

definition numbered_label :: "string \<Rightarrow> nat \<Rightarrow> string" where
  "numbered_label name n = name @ '' ('' @ show_nat n @ '')''"

lemma numbered_label_inj [simp]: "numbered_label name m = numbered_label name n \<longleftrightarrow> m = n"
  by (simp add: numbered_label_def)

function free_label :: "string list \<Rightarrow> string \<Rightarrow> nat \<Rightarrow> string" where
  "free_label used name n =
     (if numbered_label name n \<in> set used then free_label used name (n + 1) else numbered_label name n)"
  by pat_completeness auto

termination free_label
proof (relation "measure (\<lambda>(used, name, n). card {m. n \<le> m \<and> numbered_label name m \<in> set used})")
  fix used name and n :: nat
  assume used: "numbered_label name n \<in> set used"
  have "finite {m. n \<le> m \<and> numbered_label name m \<in> set used}"
    by (rule finite_subset [of _ "numbered_label name -` set used"])
       (auto intro: finite_vimageI simp: inj_def)
  moreover have "{m. n + 1 \<le> m \<and> numbered_label name m \<in> set used} \<subset> {m. n \<le> m \<and> numbered_label name m \<in> set used}"
    using used by (intro psubsetI) (auto dest: equalityD2 [THEN subsetD, of _ _ n])
  ultimately show "((used, name, n + 1), used, name, n)
      \<in> measure (\<lambda>(used, name, n). card {m. n \<le> m \<and> numbered_label name m \<in> set used})"
    by (simp add: psubset_card_mono)
qed simp

declare free_label.simps [simp del]

lemma free_label_fresh: "free_label used name n \<notin> set used"
  by (induction used name n rule: free_label.induct) (subst free_label.simps, simp)

fun labels_from :: "string list \<Rightarrow> string list \<Rightarrow> string list" where
  "labels_from used [] = []"
| "labels_from used (name # names) =
     (let l = if name \<in> set used then free_label used name 2 else name
      in l # labels_from (l # used) names)"

definition distinct_labels :: "string list \<Rightarrow> string list" where
  "distinct_labels names = labels_from [] names"

lemma labels_from_fresh:
  "distinct (labels_from used names) \<and> set (labels_from used names) \<inter> set used = {} \<and>
   length (labels_from used names) = length names"
proof (induction names arbitrary: used)
  case (Cons name names)
  define l where "l = (if name \<in> set used then free_label used name 2 else name)"
  have "l \<notin> set used" by (simp add: l_def free_label_fresh)
  then show ?case using Cons [of "l # used"] by (auto simp: l_def [symmetric] Let_def)
qed simp

text \<open>
  The bars of the race can be told apart: every product gets one label of its own, whatever
  the products are called.
\<close>

theorem labels_distinct:
  "distinct (distinct_labels names) \<and> length (distinct_labels names) = length names"
  using labels_from_fresh [of "[]" names] by (simp add: distinct_labels_def)

section \<open>On concrete requests\<close>

definition plain_outside :: outside where
  "plain_outside =
     \<lparr>link_error = (\<lambda>_. None), store_logo = (\<lambda>i u. None), published = trim, favicon_of = (\<lambda>_. None),
      external_url = (\<lambda>p. ''https://api.test'' @ p), is_admin = (\<lambda>u. u = ''founder''),
      house_line = (\<lambda>d. sample_row ''house''), day_stamp = show_int\<rparr>"

definition plain_product :: "int option \<Rightarrow> new_product" where
  "plain_product d =
     \<lparr>new_name = ''N'', new_tagline = ''T'', new_url = ''https://n.test'', new_logo = None, new_kicker = ''new'',
      new_description = [], new_contact = ''a@b.c'', new_day = d\<rparr>"

definition list_product :: "string \<Rightarrow> int \<Rightarrow> int \<Rightarrow> (int \<times> launch_request) list" where
  "list_product i today d =
     [(today, Submit_Product ''ann'' i (plain_product None)), (today, Approve_Product ''founder'' i d False)]"

lemma listed_was_approved_example:
  "case read_launch plain_outside None ''a'' (launches (run_launches plain_outside (list_product ''a'' 10 10) no_products)) of
     Inl e \<Rightarrow> False | Inr p \<Rightarrow> True"
  by code_simp

theorem listed_was_approved_witness:
  "approved_before plain_outside ''a'' (list_product ''a'' 10 10)"
proof -
  obtain p where "read_launch plain_outside None ''a''
      (launches (run_launches plain_outside (list_product ''a'' 10 10) no_products)) = Inr p"
    using listed_was_approved_example by (auto split: sum.splits)
  then show ?thesis by (rule listed_was_approved) simp
qed

text \<open>
  A past day takes more than five: the products that ended on it no longer hold its slots.
\<close>

lemma past_day_overfills:
  "let trs = concat (map (\<lambda>i. list_product i 10 10) [''a'', ''b'', ''c'', ''d'', ''e'']) @ [(11, Rotate_Day)] @
             list_product ''f'' 11 10
   in length (filter (\<lambda>p. is_visible p \<and> on_day p = Some 10) (launches (run_launches plain_outside trs no_products))) = 6"
  by code_simp

text \<open>A product that ended yesterday stays on the card when its submitter deletes it.\<close>

lemma deleted_stays_on_card:
  "let s = run_launches plain_outside (list_product ''a'' 10 10 @ [(11, Rotate_Day), (11, Delete_Product ''ann'' ''a'')]) no_products
   in launches s = [] \<and> map row_id (shown_card s) = [''house'', ''launch-a'']"
  by code_simp


theorem others_cannot_touch_witness:
  "submit_launch plain_outside ''ann'' ''a'' (plain_product None) [] \<noteq> Inl Id_Taken \<and>
   (\<forall>today body. set (launches (run_launches plain_outside (list_product ''a'' 10 12) no_products)) \<subseteq>
      set (launches (serve_launch plain_outside (today, Update_Product ''bob'' ''a'' body)
        (run_launches plain_outside (list_product ''a'' 10 12) no_products))))"
proof (intro conjI allI subsetI)
  show "submit_launch plain_outside ''ann'' ''a'' (plain_product None) [] \<noteq> Inl Id_Taken" by code_simp
  fix today body p
  assume p: "p \<in> set (launches (run_launches plain_outside (list_product ''a'' 10 12) no_products))"
  have "map submitter (launches (run_launches plain_outside (list_product ''a'' 10 12) no_products)) = [''ann'']"
    by code_simp
  then have "submitter p = ''ann''" using p by (auto simp: map_eq_Cons_conv)
  then show "p \<in> set (launches (serve_launch plain_outside (today, Update_Product ''bob'' ''a'' body)
      (run_launches plain_outside (list_product ''a'' 10 12) no_products)))"
    using slots_ok_run [OF slots_ok_start] p
    by (intro others_cannot_touch [where u = "''bob''"]) (auto simp: plain_outside_def)
qed

theorem card_follows_products_witness:
  "let s = run_launches plain_outside (list_product ''a'' 10 10) no_products;
       s' = serve_launch plain_outside (10, Edit_Product ''founder'' ''a''
         \<lparr>edit_name = Some ''M'', edit_tagline = None, edit_description = None, edit_kicker = None\<rparr>) s
   in shown_card s' = card_items plain_outside 10 (launches s') \<and> map title (shown_card s') = [''house'', ''M: T'']"
proof -
  let ?s = "run_launches plain_outside (list_product ''a'' 10 10) no_products"
  let ?r = "Edit_Product ''founder'' ''a''
    \<lparr>edit_name = Some ''M'', edit_tagline = None, edit_description = None, edit_kicker = None\<rparr>"
  have card: "shown_card ?s = card_items plain_outside 10 (launches ?s)" by code_simp
  have "map launch_state (launches ?s) = [Live]" by code_simp
  then have "\<not> touches_ended 10 ?r ?s" by (auto simp: touches_ended_def map_eq_Cons_conv)
  from card_follows_products [OF card slots_ok_run [OF slots_ok_start] this]
  have "shown_card (serve_launch plain_outside (10, ?r) ?s) =
    card_items plain_outside 10 (launches (serve_launch plain_outside (10, ?r) ?s))" .
  moreover have "map title (shown_card (serve_launch plain_outside (10, ?r) ?s)) = [''house'', ''M: T'']" by code_simp
  ultimately show ?thesis by (simp add: Let_def)
qed

end
