(* ===== verification/Launch_Pages.thy ===== *)
theory Launch_Pages
  imports Launches
begin

text \<open>
  Products of the day on the web: \<open>apps/web/src/components/Launches/\<close> (\<open>LaunchActions\<close>,
  \<open>LaunchRow\<close>, \<open>SubmitLaunchForm\<close>, \<open>ReviewQueue\<close>, \<open>ProductPage\<close>, \<open>EditLaunch\<close>, \<open>launchCopy.ts\<close>)
  and what they ask of the server of \<open>Launches\<close>. What a page offers is compared with what the
  server accepts. A day the pages compare as text is its number: ISO dates of four-digit years
  compare as the days do. The translation \<open>t\<close> and the formatting of a day are parameters.
\<close>

section \<open>What the submitter may do\<close>

definition client_editable :: "launch_status list" where
  "client_editable = [Submitted, Withdrawn, Rejected]"

definition client_withdrawable :: "launch_status list" where
  "client_withdrawable = [Submitted, Approved]"

definition client_deletable :: "launch_status list" where
  "client_deletable = [Submitted, Withdrawn, Rejected, Ended]"

datatype asking = Ask_Withdraw | Ask_Delete

datatype action_button = Edit_Link | Withdraw_Button | Delete_Button | Keep_Button | Confirm_Button

record action_bar =
  confirming :: "asking option"
  action_busy :: bool

definition new_action_bar :: action_bar where
  "new_action_bar = \<lparr>confirming = None, action_busy = False\<rparr>"

definition offered_buttons :: "action_bar \<Rightarrow> launch_status \<Rightarrow> action_button list" where
  "offered_buttons bar st =
     (if confirming bar \<noteq> None then Keep_Button # (if action_busy bar then [] else [Confirm_Button])
      else (if st \<in> set client_editable then [Edit_Link] else []) @
           (if st \<in> set client_withdrawable then [Withdraw_Button] else []) @
           (if st \<in> set client_deletable then [Delete_Button] else []))"

text \<open>A press gives the bar after it and the request it sends; the answer closes the question.\<close>

definition press_action_button ::
  "string \<Rightarrow> string \<Rightarrow> action_button \<Rightarrow> action_bar \<Rightarrow> action_bar \<times> launch_request option" where
  "press_action_button user i b bar =
     (case b of
        Edit_Link \<Rightarrow> (bar, None)
      | Withdraw_Button \<Rightarrow> (bar\<lparr>confirming := Some Ask_Withdraw\<rparr>, None)
      | Delete_Button \<Rightarrow> (bar\<lparr>confirming := Some Ask_Delete\<rparr>, None)
      | Keep_Button \<Rightarrow> (bar\<lparr>confirming := None\<rparr>, None)
      | Confirm_Button \<Rightarrow>
          (bar\<lparr>action_busy := True\<rparr>,
           Some (if confirming bar = Some Ask_Withdraw then Withdraw_Product user i else Delete_Product user i)))"

definition action_settled :: "action_bar \<Rightarrow> action_bar" where
  "action_settled bar = bar\<lparr>confirming := None, action_busy := False\<rparr>"

section \<open>The form\<close>

record launch_form =
  form_name :: string
  form_tagline :: string
  form_url :: string
  form_logo :: "string option"
  form_kicker :: string
  form_description :: string
  form_contact :: string
  form_day :: "int option"

definition kicker_of :: "string \<Rightarrow> string" where
  "kicker_of v = (if v = ''update'' \<or> v = ''open source'' then v else ''new'')"

definition start_form :: "launch option \<Rightarrow> launch_form" where
  "start_form edited =
     (case edited of
        None \<Rightarrow>
          \<lparr>form_name = [], form_tagline = [], form_url = [], form_logo = None, form_kicker = ''new'',
           form_description = [], form_contact = [], form_day = None\<rparr>
      | Some p \<Rightarrow>
          \<lparr>form_name = launch_name p, form_tagline = tagline p, form_url = launch_url p, form_logo = None,
           form_kicker = kicker_of (kicker p), form_description = description p,
           form_contact = contact_email p, form_day = on_day p\<rparr>)"

definition form_product :: "launch_form \<Rightarrow> new_product" where
  "form_product f =
     \<lparr>new_name = form_name f, new_tagline = form_tagline f, new_url = form_url f,
      new_logo = truthy (form_logo f), new_kicker = form_kicker f, new_description = form_description f,
      new_contact = form_contact f, new_day = form_day f\<rparr>"

definition form_change :: "launch_form \<Rightarrow> product_change" where
  "form_change f =
     \<lparr>change_name = Some (form_name f), change_tagline = Some (form_tagline f), change_url = Some (form_url f),
      change_logo = truthy (form_logo f), change_kicker = Some (form_kicker f),
      change_description = Some (form_description f), change_contact = Some (form_contact f),
      change_day = form_day f\<rparr>"

definition form_request :: "string \<Rightarrow> string \<Rightarrow> launch option \<Rightarrow> launch_form \<Rightarrow> launch_request" where
  "form_request user fresh edited f =
     (case edited of
        None \<Rightarrow> Submit_Product user fresh (form_product f)
      | Some p \<Rightarrow> Update_Product user (launch_id p) (form_change f))"

text \<open>The two flags of the form: sent, and refused.\<close>

definition form_answered :: "bool \<Rightarrow> bool \<times> bool \<Rightarrow> bool \<times> bool" where
  "form_answered refused flags = (if refused then (fst flags, True) else (True, False))"

section \<open>The review\<close>

record review_item =
  picked_day :: "int option"
  picked_featured :: bool
  review_note :: string
  review_editing :: bool
  review_failed :: bool

definition start_review :: "int \<Rightarrow> launch \<Rightarrow> review_item" where
  "start_review today p =
     \<lparr>picked_day = Some (case on_day p of Some d \<Rightarrow> if today \<le> d then d else today | None \<Rightarrow> today),
      picked_featured = False, review_note = [], review_editing = False, review_failed = False\<rparr>"

definition taken_on :: "(int \<Rightarrow> nat option) \<Rightarrow> int option \<Rightarrow> nat" where
  "taken_on slots d = or_else (Option.bind d slots) 0"

definition approve_enabled :: "(int \<Rightarrow> nat option) \<Rightarrow> bool \<Rightarrow> review_item \<Rightarrow> bool" where
  "approve_enabled slots busy item \<longleftrightarrow> \<not> (busy \<or> slots_per_day \<le> taken_on slots (picked_day item))"

definition approve_request :: "string \<Rightarrow> string \<Rightarrow> review_item \<Rightarrow> launch_request option" where
  "approve_request user i item =
     map_option (\<lambda>d. Approve_Product user i d (picked_featured item)) (picked_day item)"

definition reject_request :: "string \<Rightarrow> string \<Rightarrow> review_item \<Rightarrow> launch_request" where
  "reject_request user i item = Reject_Product user i (review_note item)"

definition attempt_starts :: "review_item \<Rightarrow> review_item" where
  "attempt_starts item = item\<lparr>review_failed := False\<rparr>"

definition attempt_ends :: "bool \<Rightarrow> (review_item \<Rightarrow> review_item) \<Rightarrow> review_item \<Rightarrow> review_item" where
  "attempt_ends refused on_done item = (if refused then item\<lparr>review_failed := True\<rparr> else on_done item)"

section \<open>Links and marks of a row\<close>

definition site_href :: "string \<Rightarrow> string option \<Rightarrow> launch_status option \<Rightarrow> string \<Rightarrow> string option" where
  "site_href api i st url =
     (case truthy i of
        Some j \<Rightarrow>
          if st = Some Live \<or> st = Some Ended then Some (api @ ''/v1/launches/'' @ j @ ''/go'')
          else safe_external_href (Some url)
      | None \<Rightarrow> safe_external_href (Some url))"

definition logo_src :: "string \<Rightarrow> string option \<Rightarrow> string option" where
  "logo_src api logo =
     (case truthy logo of
        None \<Rightarrow> None
      | Some l \<Rightarrow>
          if starts_with ''/'' l then Some (api @ l)
          else if starts_with ''https://'' (to_lower l) \<and> drop 8 l \<noteq> [] \<and> \<not> has_space (drop 8 l) then Some l
          else None)"

definition kicker_label :: "(string \<Rightarrow> string) \<Rightarrow> string \<Rightarrow> string" where
  "kicker_label t k =
     (if k = ''new'' then t ''launches.kinds.new''
      else if k = ''update'' then t ''launches.kinds.update''
      else if k = ''open source'' then t ''launches.kinds.openSource''
      else if k = ''house'' then t ''launches.kinds.house''
      else k)"

text \<open>The pages: what stands on them while a query loads, fails or has answered.\<close>

datatype page_part = Page_Loading | Page_Missing | Page_Product launch | Page_Own launch

definition product_page :: "bool \<Rightarrow> bool \<Rightarrow> launch option \<Rightarrow> launch list option \<Rightarrow> string \<Rightarrow> page_part list" where
  "product_page loading is_error found mine i =
     (if loading then [Page_Loading] else []) @
     (if is_error \<or> \<not> loading \<and> found = None then [Page_Missing] else []) @
     (case found of
        None \<Rightarrow> []
      | Some p \<Rightarrow> Page_Product p #
          (case Option.bind mine (List.find (\<lambda>q. launch_id q = i)) of None \<Rightarrow> [] | Some q \<Rightarrow> [Page_Own q]))"

definition edit_page :: "bool \<Rightarrow> launch list option \<Rightarrow> string \<Rightarrow> page_part list" where
  "edit_page loading mine i =
     (if loading then [Page_Loading]
      else case Option.bind mine (List.find (\<lambda>q. launch_id q = i)) of
             None \<Rightarrow> [Page_Missing]
           | Some q \<Rightarrow> [Page_Own q])"

section \<open>The pages offer what the server accepts\<close>

definition accepted :: "outside \<Rightarrow> int \<Rightarrow> launch_request \<Rightarrow> product_server \<Rightarrow> bool" where
  "accepted out today r s = (case handle_launch out today r s of Inl e \<Rightarrow> False | Inr s' \<Rightarrow> True)"

lemma accepted_with_launches [simp]:
  "(case with_launches s r of Inl e \<Rightarrow> False | Inr s' \<Rightarrow> True) = (case r of Inl e \<Rightarrow> False | Inr db \<Rightarrow> True)"
  "(case with_deleted i s r of Inl e \<Rightarrow> False | Inr s' \<Rightarrow> True) = (case r of Inl e \<Rightarrow> False | Inr db \<Rightarrow> True)"
  "(case then_rebuild out today needed q of Inl e \<Rightarrow> False | Inr s' \<Rightarrow> True) = (case q of Inl e \<Rightarrow> False | Inr s' \<Rightarrow> True)"
  by (auto simp: with_launches_def with_deleted_def then_rebuild_def split: sum.splits)

text \<open>
  C14: The buttons under a product of yours are exactly what the server will accept from you:
  withdrawing, deleting, and editing with the link as it is, each in the states in which its
  button stands.
\<close>

theorem buttons_match_server:
  assumes "slots_ok (launches s)" and "p \<in> set (launches s)"
    and "change_url body = None \<or> change_url body = Some (launch_url p)"
  defines "offered \<equiv> set (offered_buttons new_action_bar (launch_state p))"
  shows "(Withdraw_Button \<in> offered \<longleftrightarrow> accepted out today (Withdraw_Product (submitter p) (launch_id p)) s) \<and>
    (Delete_Button \<in> offered \<longleftrightarrow> accepted out today (Delete_Product (submitter p) (launch_id p)) s) \<and>
    (Edit_Link \<in> offered \<longleftrightarrow> accepted out today (Update_Product (submitter p) (launch_id p) body) s)"
proof -
  have own: "owned_launch (submitter p) (launch_id p) (launches s) = Inr p"
    using get_launch_distinct [OF slots_okD(1) [OF assms(1)] assms(2)] by (simp add: owned_launch_def)
  have link: "(if change_url body = None \<or> change_url body = Some (launch_url p) then None
      else link_error out (or_else (change_url body) [])) = None" using assms(3) by simp
  show ?thesis unfolding offered_def
    by (cases "launch_state p")
      (simp_all add: accepted_def withdraw_launch_def delete_launch_def update_launch_def own link
        offered_buttons_def new_action_bar_def client_editable_def client_withdrawable_def client_deletable_def
        slot_defs editable_states_def)
qed


theorem buttons_match_server_witness:
  "Withdraw_Button \<in> set (offered_buttons new_action_bar Approved) \<and>
   (case launches (run_launches plain_outside (list_product ''a'' 10 12) no_products) of
      [p] \<Rightarrow> launch_state p = Approved \<and>
        accepted plain_outside 11 (Withdraw_Product (submitter p) (launch_id p))
          (run_launches plain_outside (list_product ''a'' 10 12) no_products)
    | _ \<Rightarrow> False)"
proof -
  let ?s = "run_launches plain_outside (list_product ''a'' 10 12) no_products"
  have "map launch_state (launches ?s) = [Approved]" by code_simp
  then obtain p where p: "launches ?s = [p]" "launch_state p = Approved" by (auto simp: map_eq_Cons_conv)
  have offered: "Withdraw_Button \<in> set (offered_buttons new_action_bar Approved)" by code_simp
  have "p \<in> set (launches ?s)" using p(1) by simp
  from buttons_match_server [OF slots_ok_run [OF slots_ok_start] this,
      of "\<lparr>change_name = None, change_tagline = None, change_url = None, change_logo = None, change_kicker = None,
           change_description = None, change_contact = None, change_day = None\<rparr>" plain_outside 11]
  have "accepted plain_outside 11 (Withdraw_Product (submitter p) (launch_id p)) ?s"
    using offered p(2) by simp
  then show ?thesis using offered p by simp
qed

text \<open>The link of a listed product goes through the counting redirect exactly when that opens it.\<close>

lemma site_link_opens:
  assumes "slots_ok (launches s)" and "p \<in> set (launches s)" and "launch_id p \<noteq> []"
    and "safe_external_href (Some (launch_url p)) \<noteq> Some (api @ ''/v1/launches/'' @ launch_id p @ ''/go'')"
  shows "site_href api (Some (launch_id p)) (Some (launch_state p)) (launch_url p) =
      Some (api @ ''/v1/launches/'' @ launch_id p @ ''/go'') \<longleftrightarrow>
    accepted out today (Open_Link (launch_id p)) s"
  using get_launch_distinct [OF slots_okD(1) [OF assms(1)] assms(2)] assms(3,4)
  by (auto simp: site_href_def truthy_def accepted_def record_click_def is_visible_def visible_states_def)

section \<open>The form of a product\<close>

text \<open>
  Saving the form as it opened changes nothing of a waiting product and puts a withdrawn or
  rejected one back into the queue with everything else as it was, but for the note.
\<close>

theorem save_unchanged:
  assumes "slots_ok (launches s)" and "p \<in> set (launches s)" and "launch_state p \<in> set client_editable"
    and "kicker p \<in> {''new'', ''update'', ''open source''}"
    and "published out (launch_name p) = launch_name p" "published out (tagline p) = tagline p"
      "published out (description p) = description p"
  shows "launches (serve_launch out (today, form_request (submitter p) i (Some p) (start_form (Some p))) s) =
    put_launch (if launch_state p = Submitted then p
      else p\<lparr>launch_state := Submitted, reviewer_note := None, day_position := None\<rparr>) (launches s)"
proof -
  have "owned_launch (submitter p) (launch_id p) (launches s) = Inr p"
    using get_launch_distinct [OF slots_okD(1) [OF assms(1)] assms(2)] by (simp add: owned_launch_def)
  moreover have "changed_launch out (form_change (start_form (Some p))) p =
      (if launch_state p = Submitted then p
       else p\<lparr>launch_state := Submitted, reviewer_note := None, day_position := None\<rparr>)"
    using assms(4-7)
    by (auto simp: changed_launch_def form_change_def start_form_def kicker_of_def truthy_def Let_def split: option.splits)
  moreover have "change_url (form_change (start_form (Some p))) = Some (launch_url p)"
    by (simp add: form_change_def start_form_def)
  ultimately show ?thesis using assms(3)
    by (simp add: serve_launch_def form_request_def update_launch_def with_launches_def editable_states_def client_editable_def)
qed

definition waiting_product :: launch where
  "waiting_product =
     \<lparr>launch_id = ''a'', submitter = ''ann'', launch_name = ''N'', tagline = ''T'', launch_url = ''https://n.test'',
      kicker = ''new'', description = [], contact_email = ''a@b.c'', launch_state = Withdrawn, on_day = None,
      day_position = None, is_featured = False, logo_path = None, reviewer_note = Some ''r''\<rparr>"

theorem save_unchanged_witness:
  "launches (serve_launch plain_outside (3, form_request ''ann'' ''b'' (Some waiting_product) (start_form (Some waiting_product)))
     (no_products\<lparr>launches := [waiting_product]\<rparr>)) = [waiting_product\<lparr>launch_state := Submitted, reviewer_note := None\<rparr>]"
proof -
  have "published plain_outside ''N'' = ''N''" "published plain_outside ''T'' = ''T''" "published plain_outside [] = []"
    by code_simp+
  then show ?thesis
    using save_unchanged [of "no_products\<lparr>launches := [waiting_product]\<rparr>" waiting_product plain_outside 3 "''b''"]
    by (simp add: slots_ok_def waiting_product_def slot_defs client_editable_def put_launch_def)
qed

text \<open>A day once asked for cannot be taken back in the form: an empty field keeps it.\<close>

lemma cleared_day_kept: "on_day (changed_launch out (form_change (f\<lparr>form_day := None\<rparr>)) p) = on_day p"
  by (simp add: changed_launch_def form_change_def Let_def)

section \<open>The review\<close>

lemma taken_count:
  assumes "slots_ok db"
  shows "length (remdups (taken_positions d db)) = length (filter (\<lambda>p. holds_slot p \<and> on_day p = Some d) db)"
proof -
  let ?xs = "filter (\<lambda>p. holds_slot p \<and> on_day p = Some d) db"
  have some: "\<forall>p \<in> set ?xs. day_position p \<noteq> None" using slots_okD(3) [OF assms] by fastforce
  have "map Some (taken_positions d xs) = map day_position (filter (\<lambda>p. holds_slot p \<and> on_day p = Some d) xs)"
    if "\<forall>p \<in> set (filter (\<lambda>p. holds_slot p \<and> on_day p = Some d) xs). day_position p \<noteq> None" for xs
    using that by (induction xs) (auto simp: taken_positions_def map_filter_simps split: option.splits if_splits)
  from this [OF some] have eq: "map Some (taken_positions d db) = map day_position ?xs" .
  have "distinct db" using slots_okD(1) [OF assms] by (simp add: distinct_map)
  moreover have "inj_on day_position (set ?xs)" using slots_okD(5) [OF assms] by (auto intro!: inj_onI)
  ultimately have "distinct (map Some (taken_positions d db))" by (simp add: eq distinct_map)
  then have "distinct (taken_positions d db)" by (simp add: distinct_map)
  then have "length (remdups (taken_positions d db)) = length (map Some (taken_positions d db))"
    by (simp add: distinct_remdups_id)
  then show ?thesis by (simp add: eq)
qed

text \<open>
  C15: A pick never overfills a day: for a product in the queue and a day of the next thirty the
  approve button is live exactly when the server will accept the approval.
\<close>

theorem review_button_honest:
  assumes "slots_ok (launches s)" and "p \<in> set (review_queue (launches s))" and "is_admin out u"
    and "picked_day item = Some d" "today \<le> d" "d \<le> today + 30"
  shows "approve_enabled (slots_taken today (launches s)) False item \<longleftrightarrow>
    accepted out today (Approve_Product u (launch_id p) d (picked_featured item)) s"
proof -
  have p: "p \<in> set (launches s)" "launch_state p = Submitted" using assms(2) by (auto simp: review_queue_def)
  have "taken_on (slots_taken today (launches s)) (picked_day item) =
      length (remdups (taken_positions d (launches s)))"
    using assms(4-6) by (simp add: taken_on_def slots_taken_def taken_count [OF assms(1)] Let_def)
  then show ?thesis
    using get_launch_distinct [OF slots_okD(1) [OF assms(1)] p(1)] p(2) assms(3)
    by (simp add: approve_enabled_def accepted_def approve_launch_def)
qed

theorem review_button_honest_witness:
  "let s = run_launches plain_outside [(10, Submit_Product ''ann'' ''a'' (plain_product None))] no_products
   in approve_enabled (slots_taken 10 (launches s)) False (start_review 10 waiting_product) \<and>
      accepted plain_outside 10 (Approve_Product ''founder'' ''a'' 10 False) s"
proof -
  let ?s = "run_launches plain_outside [(10, Submit_Product ''ann'' ''a'' (plain_product None))] no_products"
  have "map (\<lambda>p. (launch_id p, launch_state p)) (launches ?s) = [(''a'', Submitted)]" by code_simp
  then obtain p where p: "launches ?s = [p]" "launch_id p = ''a''" "launch_state p = Submitted"
    by (auto simp: map_eq_Cons_conv)
  have on: "approve_enabled (slots_taken 10 (launches ?s)) False (start_review 10 waiting_product)" by code_simp
  have "p \<in> set (review_queue (launches ?s))" using p by (simp add: review_queue_def)
  from review_button_honest [OF slots_ok_run [OF slots_ok_start] this, of plain_outside "''founder''"
      "start_review 10 waiting_product" 10 10]
  show ?thesis using on p(2) by (simp add: start_review_def waiting_product_def plain_outside_def Let_def)
qed

text \<open>Further ahead the page counts no products: a full day looks free and is refused.\<close>

lemma far_day_looks_free:
  "let s = run_launches plain_outside
        (concat (map (\<lambda>i. list_product i 10 50) [''a'', ''b'', ''c'', ''d'', ''e'']) @
         [(10, Submit_Product ''ann'' ''f'' (plain_product (Some 50)))]) no_products
   in approve_enabled (slots_taken 10 (launches s)) False (start_review 10 (waiting_product\<lparr>on_day := Some 50\<rparr>)) \<and>
      \<not> accepted plain_outside 10 (Approve_Product ''founder'' ''f'' 50 False) s"
  by code_simp

section \<open>The wall counts a view\<close>

lemma fold_bump:
  "distinct (map launch_id ps) \<Longrightarrow>
   fst (fold (\<lambda>p. bump_reach (launch_id p) today 1 0) ps r (i, d)) =
   fst (r (i, d)) + (if d = today \<and> i \<in> set (map launch_id ps) then 1 else 0)"
  by (induction ps arbitrary: r) (auto simp: bump_reach_def)

lemma beacon_of_card:
  assumes "shown_card s = card_items out today (launches s)" and "slots_ok (launches s)"
    and "\<not> starts_with launch_prefix (row_id (house_line out today))"
    and "length (filter (on_card today) (launches s)) \<le> 10"
  defines "ps \<equiv> sort_key card_order (filter (on_card today) (launches s))"
  shows "or_else (fst (view_beacon True products_card_id (Some (shown_card s)) [])) [] = map launch_id ps"
proof -
  have "filter (\<lambda>i. starts_with launch_prefix i) (map row_id (shown_card s)) = map (\<lambda>p. launch_prefix @ launch_id p) ps"
    using assms(3) by (simp add: assms(1) card_items_def ps_def [symmetric] product_row_def comp_def filter_map)
  moreover have "length ps \<le> 10" using assms(4) by (simp add: ps_def)
  ultimately show ?thesis by (auto simp: view_beacon_def Let_def or_else_def comp_def)
qed

text \<open>
  C16: A view is counted where it happened: when the products card comes to the top of a wall
  that counted none yet, every product on the card gets exactly one view, today, and no other
  product gets any. This is for the card as a rebuild makes it from the products as they are now
  (a deletion can leave an older one standing, \<open>deleted_stays_on_card\<close>), with at most ten
  products (only a past day that was filled again has more, \<open>past_day_overfills\<close>), a house line
  whose identifier is not that of a product, and products no two of which share an identifier or
  a slot, which every run of requests keeps (\<open>five_a_day\<close>).
\<close>

theorem wall_views_counted:
  assumes "shown_card s = card_items out today (launches s)" and "slots_ok (launches s)"
    and "\<not> starts_with launch_prefix (row_id (house_line out today))"
    and "length (filter (on_card today) (launches s)) \<le> 10" and "p \<in> set (launches s)"
  defines "sent \<equiv> or_else (fst (view_beacon True products_card_id (Some (shown_card s)) [])) []"
  shows "fst (reach (serve_launch out (today, Record_Views sent) s) (launch_id p, d)) =
    fst (reach s (launch_id p, d)) + (if d = today \<and> on_card today p then 1 else 0)"
proof -
  define ps where "ps = sort_key card_order (filter (on_card today) (launches s))"
  have sent: "sent = map launch_id ps" using beacon_of_card [OF assms(1-4)] by (simp add: sent_def ps_def)
  have set_ps: "set ps = {p \<in> set (launches s). on_card today p}" by (auto simp: ps_def)
  have "length ps \<le> 10" using assms(4) by (simp add: ps_def)
  note ids = slots_okD(1) [OF assms(2)]
  have "on_card today q \<Longrightarrow> is_visible q" for q by (simp add: on_card_def is_visible_def visible_states_def)
  then have counted: "filter (\<lambda>q. launch_id q \<in> set sent \<and> is_visible q) (launches s) = filter (on_card today) (launches s)"
    using ids by (auto intro!: filter_cong simp: sent set_ps distinct_map dest: inj_onD)
  have once: "distinct (map launch_id (filter (on_card today) (launches s)))" using ids by (rule distinct_map_filter)
  have "launch_id p \<in> set (map launch_id (filter (on_card today) (launches s))) \<longleftrightarrow> on_card today p"
    using assms(5) ids by (auto simp: distinct_map dest: inj_onD)
  then have "fst (reach (record_views today sent s) (launch_id p, d)) =
      fst (reach s (launch_id p, d)) + (if d = today \<and> on_card today p then 1 else 0)"
    using fold_bump [OF once, of today "reach s" "launch_id p" d] by (simp add: record_views_def counted)
  moreover have "ps = [] \<Longrightarrow> \<not> on_card today p" using set_ps assms(5) by auto
  ultimately show ?thesis
    using \<open>length ps \<le> 10\<close> by (cases "ps = []") (auto simp: serve_launch_def sent)
qed

theorem wall_views_counted_witness:
  "let s = run_launches plain_outside (list_product ''a'' 10 10) no_products
   in fst (reach (serve_launch plain_outside (10, Record_Views [''a'']) s) (''a'', 10)) = 1"
proof -
  let ?s = "run_launches plain_outside (list_product ''a'' 10 10) no_products"
  have card: "shown_card ?s = card_items plain_outside 10 (launches ?s)" by code_simp
  have house: "\<not> starts_with launch_prefix (row_id (house_line plain_outside 10))" by code_simp
  have few: "length (filter (on_card 10) (launches ?s)) \<le> 10" by code_simp
  have "map (\<lambda>p. (launch_id p, on_card 10 p)) (launches ?s) = [(''a'', True)]" by code_simp
  then obtain p where p: "p \<in> set (launches ?s)" "launch_id p = ''a''" "on_card 10 p"
    by (auto simp: map_eq_Cons_conv)
  have sent: "or_else (fst (view_beacon True products_card_id (Some (shown_card ?s)) [])) [] = [''a'']" by code_simp
  have none: "fst (reach ?s (''a'', 10)) = 0" by code_simp
  from wall_views_counted [OF card slots_ok_run [OF slots_ok_start] house few p(1), of 10]
  show ?thesis using p(2,3) none unfolding sent Let_def by simp
qed

end
