(* ===== verification/Spec2Isabelle.thy ===== *)
theory Spec2Isabelle
  imports Prefs_Store Lists Muted Deck Stories Slots Swipe_Deck Clip_Rows Split_Flap Squarify Url Share_Link
    Runner Holds Wall_Theme Refresher Storage_Mirror Shared_View Ingest Web_Proxy
    Toast Race I18n Crawler Box_Styles Locale_Files Mcp_Tools Installer
    Pagination App_Toast Failed_Sources Speech Device_Storage App_Session App_Update Store_Review
    Deck_Hook Deck_View Wall_Page Wall Headline_Actions Api_Client News_Queries Swipe_Gesture Heatmap Inline_Summary Roster Feed_Card Launches Launch_Pages
begin

text \<open>
  A model of the clients of a news wall: the packages both clients share, the web client, the
  app, the tools beside them, and of the server the one service whose rules the web repeats. The wall is a deck of cards, one per source, starter, city or
  country; a reader follows, hides and shares cards, reads headlines on them, and carries the
  whole wall to another device in a link.

  How the parts hang together, bottom up, each theory with the file it models. Paths are under
  \<open>clients/\<close>: \<open>core\<close> is \<open>packages/news-core/src\<close>, \<open>web\<close> is \<open>apps/web/src\<close>, \<open>app\<close> is
  \<open>apps/app\<close>; \<open>server/\<close> stands beside \<open>clients/\<close>.

  \<^bold>\<open>Ground.\<close> \<open>Prelude\<close> holds what the language gives the code: lists by index, \<open>??\<close> and
  truthiness, ASCII case, splitting and trimming, lengths in UTF-16, objects as association
  lists in insertion order. \<open>Json\<close> is the parser and printer of the language with its round
  trips, \<open>Js_Sort\<close> its stable sort for any comparator, \<open>Url\<close> its URI coding and the link
  guard of \<open>core/urlSafety.ts\<close>. \<open>Storage\<close> is the storage interface of \<open>core/prefs.ts\<close>, a
  record of three methods each of which may throw; \<open>Device_Storage\<close> is \<open>app/hooks/storage.ts\<close>,
  where the web side swallows what is thrown.

  \<^bold>\<open>What the reader chose.\<close> \<open>Prefs\<close> (the reducers of \<open>core/prefs.ts\<close>) and \<open>Prefs_Store\<close> (the
  store over a storage, with its caches, its memory-only fallback and its focus request), \<open>Lists\<close>
  (\<open>core/lists.ts\<close>), \<open>Muted\<close> (\<open>core/mutedWords.ts\<close>), \<open>Wall_Theme\<close> (\<open>core/wallTheme.ts\<close>),
  \<open>Storage_Mirror\<close> (\<open>app/utils/storageMirror.ts\<close>, on which the app's stores run), \<open>Shared_View\<close>
  (\<open>app/design-system\<close> stores and \<open>app/utils/shareLinks.ts\<close>).

  \<^bold>\<open>What the wall shows.\<close> \<open>Card\<close> and \<open>Deck\<close> (\<open>core/card.ts\<close>, \<open>core/state.ts\<close>, \<open>core/deck.ts\<close>)
  compose the deck from the preferences, \<open>Stories\<close> (\<open>core/stories.ts\<close>) the rows of a card,
  \<open>Slots\<close> (\<open>core/slots.ts\<close>) the places groups get, \<open>Swipe_Deck\<close> (\<open>core/swipeDeck.ts\<close>) the
  position rules. \<open>Wall_Page\<close> and \<open>Wall\<close> are the page that uses them (\<open>web/components/News/NewsWall.tsx\<close>,
  \<open>web/utils/wallTheme.ts\<close>), \<open>Deck_Hook\<close> and \<open>Deck_View\<close> the deck of both clients
  (\<open>useSwipeCards.ts\<close>, \<open>NewsCards.tsx\<close>), \<open>Failed_Sources\<close> what takes a dead source off the wall
  and brings it back (\<open>app/utils/failedSources.ts\<close>, \<open>web/components/News/NewsColumnContext.tsx\<close>).
  \<open>Share_Link\<close> (\<open>core/shareLink.ts\<close>) writes the wall into a link and reads it back.

  \<^bold>\<open>On a card.\<close> \<open>Feed_Card\<close> (\<open>FeedCard.tsx\<close>, \<open>NewsSourceCard.tsx\<close>, \<open>NewsCardList.tsx\<close>) has the rows
  of a feed card, when it fetches and what a tap on a headline does; \<open>Inline_Summary\<close>
  (\<open>InlineSummary.tsx\<close>) the summary that opens under a headline, from the bytes of its stream to the
  panel; \<open>Headline_Actions\<close> (\<open>headlineActions.ts\<close>, \<open>HeadlineMenu.tsx\<close>) the menus of a headline, with
  the words to mute; \<open>Heatmap\<close> (\<open>TableCard.tsx\<close>, \<open>HeatmapCard.tsx\<close>) the table card over \<open>Squarify\<close>;
  \<open>Swipe_Gesture\<close> (\<open>SwipeCard.tsx\<close>) what a drag does. \<open>Roster\<close> (\<open>NewsSearchDialog.tsx\<close>,
  \<open>TopicChips.tsx\<close>, \<open>TemplateGallery.tsx\<close>, \<open>SourceRoster.tsx\<close>) is where cards are chosen. The files are
  those of \<open>web/components/News\<close> and \<open>app/components/News\<close>.

  \<^bold>\<open>What moves.\<close> \<open>Timeline\<close> and \<open>Runner\<close> (\<open>core/autoplay\<close>), \<open>Holds\<close> (\<open>core/holds.ts\<close>), \<open>Clip_Rows\<close>,
  \<open>Split_Flap\<close>, \<open>Squarify\<close> (the files of \<open>core\<close> of those names), \<open>Race\<close>
  (\<open>web/components/Analytics/race.ts\<close>), \<open>Speech\<close> (\<open>app/utils/listen.ts\<close>, \<open>web/utils/speech.ts\<close>),
  \<open>Toast\<close> and \<open>App_Toast\<close> (\<open>web/components/Toast/use-toast.ts\<close>, \<open>app/providers/ToastProvider.tsx\<close>),
  \<open>Pagination\<close> (\<open>packages/ui\<close>).

  \<^bold>\<open>Sessions and servers.\<close> \<open>Refresher\<close> (\<open>app/auth\<close>), \<open>App_Session\<close> (the provider, signing in
  and out), \<open>App_Update\<close>, \<open>Store_Review\<close> (\<open>app/utils/appUpdate.ts\<close>, \<open>app/hooks/useStoreReview.ts\<close>),
  \<open>Web_Proxy\<close> (\<open>web/proxy.ts\<close>), \<open>Ingest\<close> (\<open>web/app/ingest\<close>), \<open>Crawler\<close> (\<open>web/lib/seo/crawler.ts\<close>).
  \<open>Api_Client\<close> (\<open>packages/client/src/index.ts\<close>, \<open>web/hooks/queries/retry.ts\<close>, \<open>app/utils/query.ts\<close>) is
  how answers and errors of the API are read and tried again, \<open>News_Queries\<close>
  (\<open>web/hooks/queries/news.ts\<close>, \<open>app/hooks/outception/news.ts\<close>) the queries of the wall and the
  metadata they accumulate.

  \<^bold>\<open>Products of the day.\<close> \<open>Launches\<close> (\<open>server/outception/launches\<close>) is the service: every request
  that changes a product, the rotation of the day, the card and the counts. \<open>Launch_Pages\<close>
  (\<open>web/components/Launches\<close>) are the pages over it, whose buttons are compared with what the
  service accepts.

  \<^bold>\<open>Beside the clients.\<close> \<open>I18n\<close> and \<open>Locale_Files\<close> (\<open>packages/i18n\<close>), \<open>Box_Styles\<close>
  (\<open>packages/orbit\<close>), \<open>Mcp_Tools\<close> (\<open>packages/mcp\<close>), \<open>Installer\<close> (\<open>packages/cli\<close>).

  \<^bold>\<open>State and operations.\<close> A module or a component with state is a record of its variables, and
  each function that changes it is a definition from state to state; a React component is the
  record of its state and references, its effects are definitions run in the order React runs
  them on a commit. What comes back later (a timer, a promise, a callback) is a step of its own:
  the code before an \<open>await\<close> and the code after it are two definitions, and timers are entries
  of a list with the time they are due. Behaviour over time is a fold over events, an inductive
  relation (\<open>Runner\<close>, \<open>Toast\<close>, \<open>Speech\<close>, \<open>Deck_Hook\<close>), or a loop that fires what is due. What throws returns
  a sum or an option. What a server, a library or the platform answers is an argument.

  \<^bold>\<open>What the lemmas show.\<close> Each theory has the facts of its operations first, then an invariant
  where it has state, then its properties: what the operations do on every branch, what no
  sequence of them can break, that written values are read back, that loops end and in how many
  steps, and in a few places what goes wrong. A property states the conditions it needs, and
  where a run of the code leaves them a lemma beside it shows what happens then
  (\<open>memory_only_write_lost\<close>, \<open>late_no_hides_summary\<close>, \<open>empty_end_says_nothing\<close>,
  \<open>joined_while_loading\<close>, \<open>removed_card_unanchors\<close>, \<open>web_retry_starves\<close>, \<open>past_day_overfills\<close>). The interfaces
  are locales, each met by the model's own definitions: \<open>prefs_storage\<close> (\<open>Storage\<close>: the laws of a
  storage that works, met by the device, the memory and the app's mirror), \<open>flag_list\<close> (\<open>Lists\<close>:
  what the flags need of a list store), \<open>comparator_on\<close> with \<open>strict_comparator_on\<close> (\<open>Js_Sort\<close>: what
  a sort needs of a comparator, met by those of the stories, the slots, the race and the style
  rules), \<open>failure_tracker\<close> and \<open>timed_tracker\<close> (\<open>Failed_Sources\<close>: counting strikes, alone and with
  a clock, met by both clients).

  \<^bold>\<open>Bounds.\<close> The JSON parser, the layout loop, the timer loops and the parsers of links are total
  functions with a termination proof. None takes fuel. Integers the language keeps as doubles are
  integers here; the hash of \<open>Slots\<close> is on 32-bit words, as the code forces it. Shares, widths
  and areas are real numbers, so the rounding of doubles is not modelled.

  \<^bold>\<open>What is not modelled.\<close> Rendering and styling of components, whose rules live in the theories
  above; animation curves and springs; three components without rules of their own (\<open>sidebar.tsx\<close>,
  \<open>OAuthForm.tsx\<close>, \<open>TellUsSheet.tsx\<close>); the generated API client and the locale tables, which are
  data; the libraries for queries, storage, authorization, speech and the tool protocol, which
  are parameters; the other services of the server (feeds, summaries, accounts, mail), which are
  Python; logging and reporting. Unicode is ASCII where the code folds case or matches
  letters, as each theory says where it matters.
\<close>

end
